(* ===== verification/Prelude.thy ===== *)
theory Prelude
  imports
    Main
    "HOL-Library.AList"
    "HOL-Library.Char_ord"
    "HOL-Library.List_Lexorder"
    "HOL-Library.Multiset"
    "HOL-Library.Option_ord"
    "HOL-Library.Product_Lexorder"
begin

text \<open>
  The shared prelude. It holds what the components use of Python: exceptions as values,
  sequences of raising checks, the string methods the sources call, decimal printing, and
  dictionaries as association lists in insertion order. A Python \<open>str\<close> is a \<open>string\<close>
  whose characters are the code points below 256; a Python \<open>int\<close> is an \<open>int\<close>; a Python
  \<open>dict\<close> is an association list with distinct keys, updated by \<^const>\<open>AList.update\<close>,
  which keeps the position of a key that is already there and appends a new one.
\<close>

named_theorems check_simps \<open>rewrite rules for sequences of raising checks\<close>
named_theorems str_simps \<open>rewrite rules that evaluate string predicates\<close>

section \<open>Exceptions as values\<close>

text \<open>
  The exceptions the modelled code raises. The class (and, for \<open>ApiError\<close>, the HTTP status
  and the error code) is kept; of the message only the fixed part that names the violated
  rule is kept.
\<close>

datatype error =
    EventValidationError string
  | TransitionError string
  | ValueError string
  | TypeError string
  | KeyError string
  | OverflowError string
  | ZeroDivisionError string
  | ProjectionError string
  | JournalError string
  | DedupeConflict
  | IntegrityError string
  | ApiError int string
  | WorkQueueError string
  | CycleDetectedError "string list"
  | CorruptDLQError string
  | FencingError string
  | StaleFencingTokenError string
  | LeaseConflictError string
  | WorkStealingError string
  | QuorumError string
  | DuplicateVoteError string
  | InsufficientParticipantsError string
  | MessageTooLargeError
  | BufferFullError
  | BufferEmptyError
  | CorruptRingBufferError string
  | StructError
  | CacheIntegrityError string
  | FileNotFoundError string
  | BinasciiError string
  | BaseFileMismatchError string
  | TargetCorruptError string
  | InvalidPatchError string
  | SpecError string
  | OutboxFull
  | HostBusy
  | ResourcePaused string
  | ContainmentError string
  | ControllerError string
  | StaleDispatch string
  | AuthenticationError string
  | ControllerUnreachable string
  | AttributeError string
  | OutboxRestartError string
  | ProcessKilled

type_synonym 'a result = "error + 'a"

text \<open>\<open>except ValueError\<close> also catches the subclasses of \<open>ValueError\<close> the code defines.\<close>

fun is_value_error :: "error \<Rightarrow> bool" where
  "is_value_error (EventValidationError _) = True"
| "is_value_error (TransitionError _) = True"
| "is_value_error (ValueError _) = True"
| "is_value_error (CorruptDLQError _) = True"
| "is_value_error (BinasciiError _) = True"
| "is_value_error (SpecError _) = True"
| "is_value_error _ = False"

text \<open>A sequence of statements of which each either passes or raises: the first raise wins.\<close>

fun first_error :: "'e option list \<Rightarrow> 'e option" where
  "first_error [] = None"
| "first_error (None # cs) = first_error cs"
| "first_error (Some e # cs) = Some e"

definition require :: "bool \<Rightarrow> 'e \<Rightarrow> 'e option" where
  "require ok e = (if ok then None else Some e)"

definition guarded :: "bool \<Rightarrow> 'e option \<Rightarrow> 'e option" where
  "guarded applies c = (if applies then c else None)"

lemma first_error_None_iff [check_simps]: "first_error cs = None \<longleftrightarrow> (\<forall>c \<in> set cs. c = None)"
  by (induction cs rule: first_error.induct) auto

lemma first_error_Some_mem: "first_error cs = Some e \<Longrightarrow> Some e \<in> set cs"
  by (induction cs rule: first_error.induct) auto

lemma first_error_append:
  "first_error (xs @ ys) = (case first_error xs of None \<Rightarrow> first_error ys | Some e \<Rightarrow> Some e)"
  by (induction xs rule: first_error.induct) auto

lemma require_None_iff [simp, check_simps]: "require b e = None \<longleftrightarrow> b"
  by (simp add: require_def)

lemma require_Some_iff [simp, check_simps]: "require b e = Some e' \<longleftrightarrow> \<not> b \<and> e' = e"
  by (auto simp: require_def)

lemma guarded_None_iff [check_simps]: "guarded b c = None \<longleftrightarrow> (b \<longrightarrow> c = None)"
  by (simp add: guarded_def)

lemma guarded_Some_iff [check_simps]: "guarded b c = Some e \<longleftrightarrow> b \<and> c = Some e"
  by (simp add: guarded_def)

lemma require_simps [simp]: "require True e = None" "require False e = Some e"
  by (simp_all add: require_def)

lemma guarded_simps [simp]: "guarded True c = c" "guarded False c = None"
  by (simp_all add: guarded_def)

text \<open>Sequencing of fallible computations.\<close>

definition bind_result :: "('e + 'a) \<Rightarrow> ('a \<Rightarrow> 'e + 'b) \<Rightarrow> 'e + 'b" where
  "bind_result r k = (case r of Inl e \<Rightarrow> Inl e | Inr x \<Rightarrow> k x)"

lemma bind_result_simps [simp]:
  "bind_result (Inl e) k = Inl e" "bind_result (Inr x) k = k x"
  by (simp_all add: bind_result_def)

lemma bind_result_eq_Inr:
  "bind_result r k = Inr y \<longleftrightarrow> (\<exists>x. r = Inr x \<and> k x = Inr y)"
  by (cases r) auto

lemma bind_resultE:
  assumes "bind_result r k = Inr y"
  obtains x where "r = Inr x" and "k x = Inr y"
  using assms by (cases r) auto

lemma bind_result_eq_Inl:
  "bind_result r k = Inl e \<longleftrightarrow> r = Inl e \<or> (\<exists>x. r = Inr x \<and> k x = Inl e)"
  by (cases r) auto

lemma bind_result_assoc:
  "bind_result (bind_result r f) g = bind_result r (\<lambda>x. bind_result (f x) g)"
  by (cases r) simp_all

lemma bind_result_right: "bind_result r (\<lambda>x. Inr x) = r"
  by (cases r) simp_all

section \<open>Folding a fallible step over a list\<close>

text \<open>
  Replay in the program is a loop that applies one event after the other and stops at the first
  exception. \<open>fold_result\<close> is that loop; the locale collects what holds of every such loop
  whose step keeps an invariant.
\<close>

fun fold_result :: "('s \<Rightarrow> 'a \<Rightarrow> 'e + 's) \<Rightarrow> 's \<Rightarrow> 'a list \<Rightarrow> 'e + 's" where
  "fold_result f s [] = Inr s"
| "fold_result f s (x # xs) = bind_result (f s x) (\<lambda>s'. fold_result f s' xs)"

lemma fold_result_append:
  "fold_result f s (xs @ ys) = bind_result (fold_result f s xs) (\<lambda>s'. fold_result f s' ys)"
  by (induction xs arbitrary: s) (auto simp: bind_result_assoc)

lemma fold_result_snoc: "fold_result f s (xs @ [x]) = bind_result (fold_result f s xs) (\<lambda>s'. f s' x)"
  by (simp add: fold_result_append bind_result_right)

locale invariant_step =
  fixes step :: "'s \<Rightarrow> 'a \<Rightarrow> 'e + 's"
    and legal :: "'a \<Rightarrow> bool"
    and inv :: "'s \<Rightarrow> bool"
  assumes step_inv: "inv s \<Longrightarrow> legal a \<Longrightarrow> step s a = Inr s' \<Longrightarrow> inv s'"
begin

lemma fold_inv:
  "inv s \<Longrightarrow> (\<And>a. a \<in> set as \<Longrightarrow> legal a) \<Longrightarrow> fold_result step s as = Inr s' \<Longrightarrow> inv s'"
proof (induction as arbitrary: s)
  case Nil
  then show ?case by simp
next
  case (Cons a as)
  from Cons.prems(3) obtain t where t: "step s a = Inr t" "fold_result step t as = Inr s'"
    by (auto elim: bind_resultE)
  have "inv t" using step_inv [OF Cons.prems(1) Cons.prems(2) t(1)] by simp
  then show ?case using Cons.IH [OF _ Cons.prems(2) t(2)] by simp
qed

lemma prefix_inv:
  assumes "inv s" "\<And>a. a \<in> set (as @ bs) \<Longrightarrow> legal a" "fold_result step s (as @ bs) = Inr s'"
  obtains t where "inv t" "fold_result step s as = Inr t" "fold_result step t bs = Inr s'"
proof -
  from assms(3) obtain t where t: "fold_result step s as = Inr t" "fold_result step t bs = Inr s'"
    by (auto simp: fold_result_append elim: bind_resultE)
  moreover have "inv t" using assms(1,2) t(1) by (auto intro: fold_inv)
  ultimately show thesis by (rule that [rotated])
qed

end


section \<open>Strings\<close>

definition startswith :: "string \<Rightarrow> string \<Rightarrow> bool" where
  "startswith s p \<longleftrightarrow> take (length p) s = p"

definition endswith :: "string \<Rightarrow> string \<Rightarrow> bool" where
  "endswith s p \<longleftrightarrow> length p \<le> length s \<and> drop (length s - length p) s = p"

fun str_contains :: "string \<Rightarrow> string \<Rightarrow> bool" where
  "str_contains [] p = (p = [])"
| "str_contains (c # cs) p = (startswith (c # cs) p \<or> str_contains cs p)"

definition char_code :: "char \<Rightarrow> nat" where
  "char_code c = of_char c"

text \<open>
  \<open>str.lower\<close> on code points below 256: A-Z and the accented capitals (192 to 222 but the
  multiplication sign 215) move up by 32.
\<close>

definition lower_char :: "char \<Rightarrow> char" where
  "lower_char c = (let n = char_code c in
     if (65 \<le> n \<and> n \<le> 90) \<or> (192 \<le> n \<and> n \<le> 222 \<and> n \<noteq> 215) then char_of (n + 32) else c)"

definition lower :: "string \<Rightarrow> string" where
  "lower s = map lower_char s"

text \<open>\<open>str.isspace\<close> below 256, as \<open>str.strip\<close> and \<open>str.split\<close> use it.\<close>

definition is_space :: "char \<Rightarrow> bool" where
  "is_space c = (let n = char_code c in
     (9 \<le> n \<and> n \<le> 13) \<or> (28 \<le> n \<and> n \<le> 32) \<or> n = 133 \<or> n = 160)"

definition strip :: "string \<Rightarrow> string" where
  "strip s = rev (dropWhile is_space (rev (dropWhile is_space s)))"

lemma startswith_append [simp]: "startswith (p @ s) p"
  by (simp add: startswith_def)

lemma startswith_simps [simp]:
  "startswith s []" "startswith (c # cs) (p # ps) \<longleftrightarrow> c = p \<and> startswith cs ps" "\<not> startswith [] (p # ps)"
  by (auto simp: startswith_def)

lemma startswith_iff: "startswith s p \<longleftrightarrow> (\<exists>t. s = p @ t)"
  by (metis append_eq_conv_conj append_take_drop_id startswith_def)

lemma endswith_append [simp]: "endswith (s @ p) p"
  by (simp add: endswith_def)

lemma str_contains_iff: "str_contains s p \<longleftrightarrow> (\<exists>a b. s = a @ p @ b)"
proof (induction s)
  case (Cons c cs)
  show ?case
  proof
    assume "str_contains (c # cs) p"
    then consider "startswith (c # cs) p" | "str_contains cs p" by auto
    then show "\<exists>a b. c # cs = a @ p @ b"
    proof cases
      case 1
      then show ?thesis by (metis append_Nil startswith_iff)
    next
      case 2
      with Cons.IH obtain a b where "cs = a @ p @ b" by blast
      then have "c # cs = (c # a) @ p @ b" by simp
      then show ?thesis by blast
    qed
  next
    assume "\<exists>a b. c # cs = a @ p @ b"
    then obtain a b where ab: "c # cs = a @ p @ b" by blast
    show "str_contains (c # cs) p"
    proof (cases a)
      case Nil
      with ab have "startswith (c # cs) p" by (auto simp: startswith_iff)
      then show ?thesis by simp
    next
      case (Cons x xs)
      with ab have "cs = xs @ p @ b" by simp
      with Cons.IH show ?thesis by auto
    qed
  qed
qed auto

section \<open>Decimal text\<close>

definition digit_char :: "nat \<Rightarrow> char" where
  "digit_char d = char_of (48 + d)"

definition is_digit :: "char \<Rightarrow> bool" where
  "is_digit c \<longleftrightarrow> 48 \<le> char_code c \<and> char_code c \<le> 57"

fun show_nat :: "nat \<Rightarrow> string" where
  "show_nat n = (if n < 10 then [digit_char n] else show_nat (n div 10) @ [digit_char (n mod 10)])"

declare show_nat.simps [simp del]

definition show_int :: "int \<Rightarrow> string" where
  "show_int i = (if i < 0 then CHR ''-'' # show_nat (nat (- i)) else show_nat (nat i))"

definition digits_value :: "string \<Rightarrow> nat" where
  "digits_value s = foldl (\<lambda>n c. 10 * n + (char_code c - 48)) 0 s"

lemma char_code_digit [simp]: "d < 10 \<Longrightarrow> char_code (digit_char d) = 48 + d"
  by (simp add: char_code_def digit_char_def)

lemma is_digit_digit_char [simp]: "d < 10 \<Longrightarrow> is_digit (digit_char d)"
  by (simp add: is_digit_def)

lemma show_nat_digits: "\<forall>c \<in> set (show_nat n). is_digit c"
proof (induction n rule: show_nat.induct)
  case (1 n)
  then show ?case by (subst show_nat.simps) auto
qed

lemma show_nat_nonempty [simp]: "show_nat n \<noteq> []"
  by (subst show_nat.simps) simp

lemma digits_value_snoc: "digits_value (s @ [c]) = 10 * digits_value s + (char_code c - 48)"
  by (simp add: digits_value_def)

lemma digits_value_show_nat [simp]: "digits_value (show_nat n) = n"
proof (induction n rule: show_nat.induct)
  case (1 n)
  show ?case
  proof (cases "n < 10")
    case True
    then show ?thesis by (subst show_nat.simps) (simp add: digits_value_def)
  next
    case False
    with 1 have "digits_value (show_nat n) = 10 * (n div 10) + n mod 10"
      by (subst show_nat.simps) (simp add: digits_value_snoc)
    then show ?thesis by simp
  qed
qed

lemma show_nat_inject [simp]: "show_nat m = show_nat n \<longleftrightarrow> m = n"
  by (metis digits_value_show_nat)

text \<open>The first digit of a number with two digits or more is not zero.\<close>

lemma show_nat_hd: "n \<noteq> 0 \<Longrightarrow> hd (show_nat n) \<noteq> CHR ''0''"
proof (induction n rule: show_nat.induct)
  case (1 n)
  show ?case
  proof (cases "n < 10")
    case True
    have "char_code (digit_char n) \<noteq> char_code (CHR ''0'')"
      using True \<open>n \<noteq> 0\<close> by (simp del: One_nat_def) (simp add: char_code_def)
    with True show ?thesis by (subst show_nat.simps) (auto simp del: char_code_digit)
  next
    case False
    with 1 show ?thesis by (subst show_nat.simps) simp
  qed
qed

lemma show_nat_0 [simp]: "show_nat 0 = ''0''"
  by (subst show_nat.simps) (simp add: digit_char_def char_of_def bit_iff_odd)

section \<open>Dictionaries\<close>

text \<open>\<open>d.get(k)\<close> is \<^const>\<open>map_of\<close>; \<open>d[k] = v\<close> is \<^const>\<open>AList.update\<close>; \<open>del d[k]\<close>
  and \<open>d.pop(k, None)\<close> are \<^const>\<open>AList.delete\<close>.\<close>

definition dict_wf :: "('k \<times> 'v) list \<Rightarrow> bool" where
  "dict_wf d \<longleftrightarrow> distinct (map fst d)"

lemma dict_wf_Nil [simp]: "dict_wf []"
  by (simp add: dict_wf_def)

lemma dict_wf_update [simp]: "dict_wf d \<Longrightarrow> dict_wf (AList.update k v d)"
  by (simp add: dict_wf_def distinct_update)

lemma dict_wf_delete [simp]: "dict_wf d \<Longrightarrow> dict_wf (AList.delete k d)"
  by (simp add: dict_wf_def distinct_delete)

lemma dict_wf_map_of: "dict_wf d \<Longrightarrow> (k, v) \<in> set d \<longleftrightarrow> map_of d k = Some v"
  by (auto simp: dict_wf_def map_of_eq_Some_iff)

lemma map_of_update [simp]: "map_of (AList.update k v d) = (map_of d)(k \<mapsto> v)"
  by (simp add: update_conv')

lemma map_of_delete [simp]: "map_of (AList.delete k d) = (map_of d)(k := None)"
  by (simp add: delete_conv')

lemma set_update_distinct:
  "dict_wf d \<Longrightarrow> set (AList.update k v d) = insert (k, v) {p \<in> set d. fst p \<noteq> k}"
  by (induction d) (force simp: dict_wf_def)+

lemma values_update:
  "dict_wf d \<Longrightarrow> snd ` set (AList.update k v d) = insert v (snd ` {p \<in> set d. fst p \<noteq> k})"
  by (simp add: set_update_distinct image_insert)

lemma map_of_filter_key [simp]: "map_of (filter (\<lambda>p. fst p \<noteq> k) d) = (map_of d)(k := None)"
  by (induction d) auto

text \<open>Two dictionaries are equal when they hold the same items, in whatever order.\<close>

definition dict_eq :: "('k \<times> 'v) list \<Rightarrow> ('k \<times> 'v) list \<Rightarrow> bool" where
  "dict_eq xs ys \<longleftrightarrow> list_all (\<lambda>(k, v). map_of ys k = Some v) xs \<and> list_all (\<lambda>(k, v). map_of xs k = Some v) ys"

lemma dict_eq_iff: "dict_wf xs \<Longrightarrow> dict_wf ys \<Longrightarrow> dict_eq xs ys \<longleftrightarrow> map_of xs = map_of ys"
proof
  assume wf: "dict_wf xs" "dict_wf ys" and "dict_eq xs ys"
  then have sub: "\<And>k v. map_of xs k = Some v \<Longrightarrow> map_of ys k = Some v"
    "\<And>k v. map_of ys k = Some v \<Longrightarrow> map_of xs k = Some v"
    by (auto simp: dict_eq_def list_all_iff dict_wf_map_of [symmetric])
  show "map_of xs = map_of ys"
  proof
    fix k
    show "map_of xs k = map_of ys k" using sub [of k] by (cases "map_of xs k"; cases "map_of ys k") auto
  qed
qed (auto simp: dict_eq_def list_all_iff dict_wf_map_of)

lemma map_of_eq_set_eq: "dict_wf xs \<Longrightarrow> dict_wf ys \<Longrightarrow> map_of xs = map_of ys \<Longrightarrow> set xs = set ys"
  by (auto simp: dict_wf_map_of)

lemma sort_key_fst_unique:
  fixes xs ys :: "('k::linorder \<times> 'v) list"
  assumes "dict_wf xs" "dict_wf ys" "set xs = set ys"
  shows "sort_key fst xs = sort_key fst ys"
proof (rule map_sorted_distinct_set_unique [where f = fst])
  show "inj_on fst (set (sort_key fst xs) \<union> set (sort_key fst ys))"
    using assms by (auto simp: dict_wf_def distinct_map)
  show "distinct (map fst (sort_key fst xs))" "distinct (map fst (sort_key fst ys))"
    using assms unfolding dict_wf_def by (metis distinct_map distinct_sort set_sort)+
qed (use assms in simp_all)

end
