(* ===== verification/Json.thy ===== *)
theory Json
  imports Prelude
begin

text \<open>
  JSON values as the controller handles them (\<open>json.loads\<close> gives them, \<open>canonical_json\<close> of
  courier\_core/events.py prints them), the canonical encoding that is stored and hashed, the
  parser that reads stored text back, and the Python conversions \<open>str\<close>, \<open>bool\<close> and set
  membership the sources apply to JSON values. The main results: parsing inverts printing, so
  the canonical encoding is injective.
\<close>

section \<open>Values\<close>

text \<open>
  A finite float is kept as the text \<open>float.__repr__\<close> gives it, which identifies it; \<open>JNaN\<close>
  stands for NaN and the infinities, which \<open>json.loads\<close> accepts and \<open>canonical_json\<close>
  refuses (\<open>allow_nan=False\<close>). An object is a Python \<open>dict\<close>.
\<close>

datatype json =
    JNull
  | JBool bool
  | JInt int
  | JFloat string
  | JNaN
  | JStr string
  | JList "json list"
  | JObj "(string \<times> json) list"

type_synonym payload = "(string \<times> json) list"

fun is_str :: "json \<Rightarrow> bool" where
  "is_str (JStr _) = True"
| "is_str _ = False"

fun is_obj :: "json \<Rightarrow> bool" where
  "is_obj (JObj _) = True"
| "is_obj _ = False"

fun is_bool :: "json \<Rightarrow> bool" where
  "is_bool (JBool _) = True"
| "is_bool _ = False"

text \<open>\<open>d.get(k)\<close>: an absent key and a JSON null are both \<open>None\<close>.\<close>

definition get :: "payload \<Rightarrow> string \<Rightarrow> json" where
  "get p k = (case map_of p k of None \<Rightarrow> JNull | Some v \<Rightarrow> v)"

definition has_key :: "payload \<Rightarrow> string \<Rightarrow> bool" where
  "has_key p k \<longleftrightarrow> map_of p k \<noteq> None"

text \<open>Python truth of a JSON value (\<open>bool(v)\<close>). The text of the float zeros is \<open>0.0\<close> or \<open>-0.0\<close>.\<close>

fun truthy :: "json \<Rightarrow> bool" where
  "truthy JNull = False"
| "truthy (JBool b) = b"
| "truthy (JInt i) = (i \<noteq> 0)"
| "truthy (JFloat t) = (t \<notin> {''0.0'', ''-0.0''})"
| "truthy JNaN = True"
| "truthy (JStr s) = (s \<noteq> [])"
| "truthy (JList xs) = (xs \<noteq> [])"
| "truthy (JObj kvs) = (kvs \<noteq> [])"

text \<open>
  \<open>v in frozenset(strings)\<close>: hashing a list or a dict raises \<open>TypeError\<close>; every other value
  that is not one of the strings is simply not a member.
\<close>

fun in_str_set :: "json \<Rightarrow> string list \<Rightarrow> bool result" where
  "in_str_set (JStr s) names = Inr (s \<in> set names)"
| "in_str_set (JList _) names = Inl (TypeError ''unhashable type'')"
| "in_str_set (JObj _) names = Inl (TypeError ''unhashable type'')"
| "in_str_set _ names = Inr False"

definition check_in :: "json \<Rightarrow> string list \<Rightarrow> error \<Rightarrow> error option" where
  "check_in v names e =
     (case in_str_set v names of Inl te \<Rightarrow> Some te | Inr b \<Rightarrow> require b e)"

lemma check_in_None_iff [check_simps]: "check_in v names e = None \<longleftrightarrow> (\<exists>s \<in> set names. v = JStr s)"
  by (cases v) (auto simp: check_in_def)

section \<open>Canonical form and encoding\<close>

text \<open>\<open>sort_keys=True\<close>: the members of every object in key order.\<close>

fun canonical :: "json \<Rightarrow> json" and canonical_list :: "json list \<Rightarrow> json list"
  and canonical_members :: "(string \<times> json) list \<Rightarrow> (string \<times> json) list" where
  "canonical (JList xs) = JList (canonical_list xs)"
| "canonical (JObj kvs) = JObj (sort_key fst (canonical_members kvs))"
| "canonical JNull = JNull"
| "canonical (JBool b) = JBool b"
| "canonical (JInt i) = JInt i"
| "canonical (JFloat t) = JFloat t"
| "canonical JNaN = JNaN"
| "canonical (JStr s) = JStr s"
| "canonical_list [] = []"
| "canonical_list (x # xs) = canonical x # canonical_list xs"
| "canonical_members [] = []"
| "canonical_members ((k, v) # kvs) = (k, canonical v) # canonical_members kvs"

text \<open>The escapes of the encoder with \<open>ensure_ascii=False\<close>.\<close>

definition hex_digit :: "nat \<Rightarrow> char" where
  "hex_digit d = (if d < 10 then char_of (48 + d) else char_of (87 + d))"

definition escape_char :: "char \<Rightarrow> string" where
  "escape_char c = (let n = char_code c in
     if n = 34 then [CHR 0x5C, CHR 0x22]
     else if n = 92 then [CHR 0x5C, CHR 0x5C]
     else if n = 8 then [CHR 0x5C, CHR ''b'']
     else if n = 9 then [CHR 0x5C, CHR ''t'']
     else if n = 10 then [CHR 0x5C, CHR ''n'']
     else if n = 12 then [CHR 0x5C, CHR ''f'']
     else if n = 13 then [CHR 0x5C, CHR ''r'']
     else if n < 32 then [CHR 0x5C, CHR ''u'', CHR ''0'', CHR ''0'', hex_digit (n div 16), hex_digit (n mod 16)]
     else [c])"

definition quote :: "string \<Rightarrow> string" where
  "quote s = CHR 0x22 # concat (map escape_char s) @ [CHR 0x22]"

text \<open>\<open>json.dumps\<close> with the separators \<open>(",", ":")\<close>.\<close>

fun dumps :: "json \<Rightarrow> string" and dumps_elems :: "json list \<Rightarrow> string"
  and dumps_members :: "(string \<times> json) list \<Rightarrow> string" where
  "dumps JNull = ''null''"
| "dumps (JBool b) = (if b then ''true'' else ''false'')"
| "dumps (JInt i) = show_int i"
| "dumps (JFloat t) = t"
| "dumps JNaN = ''NaN''"
| "dumps (JStr s) = quote s"
| "dumps (JList xs) = CHR ''['' # dumps_elems xs @ '']''"
| "dumps (JObj kvs) = CHR ''{'' # dumps_members kvs @ ''}''"
| "dumps_elems [] = []"
| "dumps_elems [x] = dumps x"
| "dumps_elems (x # y # xs) = dumps x @ CHR '','' # dumps_elems (y # xs)"
| "dumps_members [] = []"
| "dumps_members [(k, v)] = quote k @ CHR '':'' # dumps v"
| "dumps_members ((k, v) # m # kvs) = quote k @ CHR '':'' # dumps v @ CHR '','' # dumps_members (m # kvs)"

text \<open>\<open>allow_nan=False\<close> raises \<open>ValueError\<close> on a value that holds a NaN or an infinity.\<close>

fun finite_json :: "json \<Rightarrow> bool" and finite_list :: "json list \<Rightarrow> bool"
  and finite_members :: "(string \<times> json) list \<Rightarrow> bool" where
  "finite_json JNaN = False"
| "finite_json (JList xs) = finite_list xs"
| "finite_json (JObj kvs) = finite_members kvs"
| "finite_json JNull = True"
| "finite_json (JBool b) = True"
| "finite_json (JInt i) = True"
| "finite_json (JFloat t) = True"
| "finite_json (JStr s) = True"
| "finite_list [] = True"
| "finite_list (x # xs) = (finite_json x \<and> finite_list xs)"
| "finite_members [] = True"
| "finite_members ((k, v) # kvs) = (finite_json v \<and> finite_members kvs)"

definition canonical_json :: "json \<Rightarrow> string result" where
  "canonical_json v =
     (if finite_json v then Inr (dumps (canonical v))
      else Inl (ValueError ''Out of range float values are not JSON compliant''))"

section \<open>Parsing\<close>

text \<open>\<open>json.loads\<close>: whitespace, numbers, strings with their escapes, and the nested values.\<close>

definition is_ws :: "char \<Rightarrow> bool" where
  "is_ws c \<longleftrightarrow> char_code c \<in> {9, 10, 13, 32}"

definition skip_ws :: "string \<Rightarrow> string" where
  "skip_ws s = dropWhile is_ws s"

definition hex_value :: "char \<Rightarrow> nat option" where
  "hex_value c = (let n = char_code c in
     if 48 \<le> n \<and> n \<le> 57 then Some (n - 48)
     else if 97 \<le> n \<and> n \<le> 102 then Some (n - 87)
     else if 65 \<le> n \<and> n \<le> 70 then Some (n - 55) else None)"

definition unescape_char :: "char \<Rightarrow> char option" where
  "unescape_char c = (let n = char_code c in
     if n \<in> {34, 92, 47} then Some c
     else if c = CHR ''b'' then Some (CHR 0x08)
     else if c = CHR ''f'' then Some (CHR 0x0C)
     else if c = CHR ''n'' then Some (CHR 0x0A)
     else if c = CHR ''r'' then Some (CHR 0x0D)
     else if c = CHR ''t'' then Some (CHR 0x09) else None)"

text \<open>A \<open>\u\<close> escape names a code point; those from 256 on are outside the modelled text.\<close>

definition unicode_escape :: "char \<Rightarrow> char \<Rightarrow> char \<Rightarrow> char \<Rightarrow> char option" where
  "unicode_escape a b c d =
     (case (hex_value a, hex_value b, hex_value c, hex_value d) of
        (Some w, Some x, Some y, Some z) \<Rightarrow>
          (if w = 0 \<and> x = 0 then Some (char_of (16 * y + z)) else None)
      | _ \<Rightarrow> None)"

text \<open>The text after an opening quote: the string and what follows the closing quote.\<close>

fun parse_chars :: "string \<Rightarrow> (string \<times> string) option" where
  "parse_chars [] = None"
| "parse_chars (c # cs) =
     (if char_code c = 34 then Some ([], cs)
      else if char_code c = 92 then
        (case cs of
           [] \<Rightarrow> None
         | d # ds \<Rightarrow>
             (if d = CHR ''u'' then
                (case ds of
                   h1 # h2 # h3 # h4 # rest \<Rightarrow>
                     (case unicode_escape h1 h2 h3 h4 of
                        None \<Rightarrow> None
                      | Some u \<Rightarrow> map_option (\<lambda>(s, r). (u # s, r)) (parse_chars rest))
                 | _ \<Rightarrow> None)
              else
                (case unescape_char d of
                   None \<Rightarrow> None
                 | Some u \<Rightarrow> map_option (\<lambda>(s, r). (u # s, r)) (parse_chars ds))))
      else if char_code c < 32 then None
      else map_option (\<lambda>(s, r). (c # s, r)) (parse_chars cs))"

text \<open>The number pattern: an integer part, an optional fraction, an optional exponent.\<close>

definition split_digits :: "string \<Rightarrow> string \<times> string" where
  "split_digits s = (takeWhile is_digit s, dropWhile is_digit s)"

definition split_frac :: "string \<Rightarrow> string \<times> string" where
  "split_frac s = (case s of
     [] \<Rightarrow> ([], s)
   | c # cs \<Rightarrow> (if c = CHR ''.'' \<and> takeWhile is_digit cs \<noteq> []
                then (c # takeWhile is_digit cs, dropWhile is_digit cs) else ([], s)))"

definition split_sign :: "string \<Rightarrow> string \<times> string" where
  "split_sign s = (case s of
     [] \<Rightarrow> ([], s)
   | c # cs \<Rightarrow> (if c = CHR ''+'' \<or> c = CHR ''-'' then ([c], cs) else ([], s)))"

definition split_exp :: "string \<Rightarrow> string \<times> string" where
  "split_exp s = (case s of
     [] \<Rightarrow> ([], s)
   | c # cs \<Rightarrow>
       (let (sg, ds) = split_sign cs in
        if (c = CHR ''e'' \<or> c = CHR ''E'') \<and> takeWhile is_digit ds \<noteq> []
        then (c # sg @ takeWhile is_digit ds, dropWhile is_digit ds) else ([], s)))"

definition split_int :: "string \<Rightarrow> (string \<times> string) option" where
  "split_int s = (case s of
     [] \<Rightarrow> None
   | c # cs \<Rightarrow> (if c = CHR ''0'' then Some ([c], cs)
                else if is_digit c then Some (c # takeWhile is_digit cs, dropWhile is_digit cs)
                else None))"

definition number_tail :: "bool \<Rightarrow> string \<Rightarrow> string \<Rightarrow> json \<times> string" where
  "number_tail neg ip r1 =
     (let (fr, r2) = split_frac r1; (ex, r3) = split_exp r2 in
      if fr = [] \<and> ex = [] then
        (JInt (if neg then - int (digits_value ip) else int (digits_value ip)), r3)
      else (JFloat ((if neg then ''-'' else []) @ ip @ fr @ ex), r3))"

definition parse_number :: "string \<Rightarrow> (json \<times> string) option" where
  "parse_number s =
     (let neg = (take 1 s = ''-''); body = (if neg then drop 1 s else s)
      in map_option (\<lambda>(ip, r). number_tail neg ip r) (split_int body))"

text \<open>
  Values nest, so the parser takes fuel: one unit per nested call. The length of the text is
  enough for every text the encoder prints (\<open>parse_value_dumps\<close> below).
\<close>

fun parse_value :: "nat \<Rightarrow> string \<Rightarrow> (json \<times> string) option"
  and parse_elems :: "nat \<Rightarrow> string \<Rightarrow> (json list \<times> string) option"
  and parse_members :: "nat \<Rightarrow> string \<Rightarrow> ((string \<times> json) list \<times> string) option" where
  "parse_value 0 s = None"
| "parse_value (Suc f) s =
     (case s of
        [] \<Rightarrow> None
      | c # cs \<Rightarrow>
          (if char_code c = 34 then map_option (\<lambda>(t, r). (JStr t, r)) (parse_chars cs)
           else if c = CHR ''['' then
             (let r = skip_ws cs in
              if take 1 r = '']'' then Some (JList [], drop 1 r)
              else map_option (\<lambda>(xs, r'). (JList xs, r')) (parse_elems f r))
           else if c = CHR ''{'' then
             (let r = skip_ws cs in
              if take 1 r = ''}'' then Some (JObj [], drop 1 r)
              else map_option (\<lambda>(kvs, r'). (JObj (fold (\<lambda>(k, v). AList.update k v) kvs []), r'))
                     (parse_members f r))
           else if startswith s ''null'' then Some (JNull, drop 4 s)
           else if startswith s ''true'' then Some (JBool True, drop 4 s)
           else if startswith s ''false'' then Some (JBool False, drop 5 s)
           else if startswith s ''NaN'' then Some (JNaN, drop 3 s)
           else if startswith s ''Infinity'' then Some (JNaN, drop 8 s)
           else if startswith s ''-Infinity'' then Some (JNaN, drop 9 s)
           else parse_number s))"
| "parse_elems 0 s = None"
| "parse_elems (Suc f) s =
     (case parse_value f s of
        None \<Rightarrow> None
      | Some (v, r) \<Rightarrow>
          (let r' = skip_ws r in
           if take 1 r' = '']'' then Some ([v], drop 1 r')
           else if take 1 r' = '','' then
             map_option (\<lambda>(vs, r''). (v # vs, r'')) (parse_elems f (skip_ws (drop 1 r')))
           else None))"
| "parse_members 0 s = None"
| "parse_members (Suc f) s =
     (if take 1 s \<noteq> [CHR 0x22] then None
      else
        (case parse_chars (drop 1 s) of
           None \<Rightarrow> None
         | Some (k, r1) \<Rightarrow>
             (let r2 = skip_ws r1 in
              if take 1 r2 \<noteq> '':'' then None
              else
                (case parse_value f (skip_ws (drop 1 r2)) of
                   None \<Rightarrow> None
                 | Some (v, r3) \<Rightarrow>
                     (let r4 = skip_ws r3 in
                      if take 1 r4 = ''}'' then Some ([(k, v)], drop 1 r4)
                      else if take 1 r4 = '','' then
                        map_option (\<lambda>(kvs, r5). ((k, v) # kvs, r5))
                          (parse_members f (skip_ws (drop 1 r4)))
                      else None)))))"

definition loads :: "string \<Rightarrow> json result" where
  "loads s =
     (case parse_value (Suc (2 * length s)) (skip_ws s) of
        None \<Rightarrow> Inl (ValueError ''JSONDecodeError'')
      | Some (v, r) \<Rightarrow> (if skip_ws r = [] then Inr v else Inl (ValueError ''JSONDecodeError'')))"


section \<open>Parsing inverts printing\<close>

definition float_text :: "string \<Rightarrow> bool" where
  "float_text t \<longleftrightarrow> parse_number t = Some (JFloat t, [])"

text \<open>A value the program can hold: finite, distinct keys in every object, floats as printed.\<close>

fun wf_json :: "json \<Rightarrow> bool" and wf_list :: "json list \<Rightarrow> bool"
  and wf_members :: "(string \<times> json) list \<Rightarrow> bool" where
  "wf_json JNaN = False"
| "wf_json (JList xs) = wf_list xs"
| "wf_json (JObj kvs) = (distinct (map fst kvs) \<and> wf_members kvs)"
| "wf_json JNull = True"
| "wf_json (JBool b) = True"
| "wf_json (JInt i) = True"
| "wf_json (JFloat t) = float_text t"
| "wf_json (JStr s) = True"
| "wf_list [] = True"
| "wf_list (x # xs) = (wf_json x \<and> wf_list xs)"
| "wf_members [] = True"
| "wf_members ((k, v) # kvs) = (wf_json v \<and> wf_members kvs)"

subsection \<open>Strings\<close>

lemma char_code_char_of [simp]: "n < 256 \<Longrightarrow> char_code (char_of n) = n"
  by (simp add: char_code_def)

lemma char_of_char_code [simp]: "char_of (char_code c) = c"
  by (simp add: char_code_def)

lemma char_code_less: "char_code c < 256"
  unfolding char_code_def by (rule nat_of_char_less_256)

lemma char_eq_code: "c = d \<longleftrightarrow> char_code c = char_code d"
  by (metis char_of_char_code)

lemma char_code_const [simp]:
  "char_code (CHR 0x08) = 8" "char_code (CHR 0x09) = 9" "char_code (CHR 0x0A) = 10"
  "char_code (CHR 0x0C) = 12" "char_code (CHR 0x0D) = 13" "char_code (CHR 0x22) = 34"
  "char_code (CHR 0x5C) = 92" "char_code (CHR ''b'') = 98" "char_code (CHR ''t'') = 116"
  "char_code (CHR ''n'') = 110" "char_code (CHR ''f'') = 102" "char_code (CHR ''r'') = 114"
  "char_code (CHR ''u'') = 117" "char_code (CHR ''['') = 91" "char_code (CHR ''{'') = 123"
  by (simp_all add: char_code_def)

lemma hex_value_hex_digit [simp]: "d < 16 \<Longrightarrow> hex_value (hex_digit d) = Some d"
  by (simp add: hex_value_def hex_digit_def)

lemma hex_value_zero [simp]: "hex_value (CHR ''0'') = Some 0"
  by (simp add: hex_value_def char_code_def)

lemma unicode_escape_code:
  "n < 256 \<Longrightarrow>
   unicode_escape (CHR ''0'') (CHR ''0'') (hex_digit (n div 16)) (hex_digit (n mod 16)) = Some (char_of n)"
  by (simp add: unicode_escape_def)

lemma parse_chars_escape:
  "parse_chars (escape_char c @ t) = map_option (\<lambda>(s, r). (c # s, r)) (parse_chars t)"
proof -
  consider "char_code c \<in> {34, 92, 8, 9, 10, 12, 13}"
    | "char_code c < 32" "char_code c \<notin> {34, 92, 8, 9, 10, 12, 13}"
    | "32 \<le> char_code c" "char_code c \<notin> {34, 92, 8, 9, 10, 12, 13}"
    by linarith
  then show ?thesis
  proof cases
    case 1
    then have "c \<in> {CHR 0x22, CHR 0x5C, CHR 0x08, CHR 0x09, CHR 0x0A, CHR 0x0C, CHR 0x0D}"
      by (simp add: char_eq_code)
    then show ?thesis by (auto simp: escape_char_def unescape_char_def Let_def)
  next
    case 2
    then have "unicode_escape (CHR ''0'') (CHR ''0'') (hex_digit (char_code c div 16)) (hex_digit (char_code c mod 16)) = Some c"
      using unicode_escape_code [of "char_code c"] char_code_less by simp
    with 2 show ?thesis by (simp add: escape_char_def Let_def)
  next
    case 3
    then show ?thesis by (simp add: escape_char_def Let_def)
  qed
qed

lemma parse_chars_quoted:
  "parse_chars (concat (map escape_char s) @ CHR 0x22 # r) = Some (s, r)"
  by (induction s) (simp_all add: parse_chars_escape)

subsection \<open>Numbers\<close>

text \<open>What can follow a printed value: nothing, or the character that closes or continues a list or object.\<close>

definition delim :: "string \<Rightarrow> bool" where
  "delim r \<longleftrightarrow> r = [] \<or> hd r \<in> {CHR '','', CHR '']'', CHR ''}''}"

lemma delim_simps [simp]: "delim []" "delim (CHR '','' # r)" "delim (CHR '']'' # r)" "delim (CHR ''}'' # r)"
  by (simp_all add: delim_def)

lemma is_digit_consts [simp]:
  "\<not> is_digit (CHR '','')" "\<not> is_digit (CHR '']'')" "\<not> is_digit (CHR ''}'')" "\<not> is_digit (CHR ''.'')"
  "\<not> is_digit (CHR ''e'')" "\<not> is_digit (CHR ''E'')" "\<not> is_digit (CHR ''-'')" "\<not> is_digit (CHR ''['')"
  "\<not> is_digit (CHR ''{'')" "\<not> is_digit (CHR ''n'')" "\<not> is_digit (CHR ''t'')" "\<not> is_digit (CHR ''f'')"
  "\<not> is_digit (CHR ''N'')" "\<not> is_digit (CHR ''I'')" "is_digit (CHR ''0'')"
  by (simp_all add: is_digit_def char_code_def)

lemma digits_before_delim:
  assumes "delim r"
  shows "takeWhile is_digit (s @ r) = takeWhile is_digit s"
    and "dropWhile is_digit (s @ r) = dropWhile is_digit s @ r"
proof -
  have r: "takeWhile is_digit r = [] \<and> dropWhile is_digit r = r"
    using assms by (cases r) (auto simp: delim_def)
  then show "takeWhile is_digit (s @ r) = takeWhile is_digit s"
    by (induction s) auto
  from r show "dropWhile is_digit (s @ r) = dropWhile is_digit s @ r"
    by (induction s) auto
qed

lemma split_frac_delim:
  "delim r \<Longrightarrow> split_frac (s @ r) = (fst (split_frac s), snd (split_frac s) @ r)"
  by (cases s; cases r) (auto simp: split_frac_def delim_def digits_before_delim)

lemma split_exp_delim:
  assumes "delim r"
  shows "split_exp (s @ r) = (fst (split_exp s), snd (split_exp s) @ r)"
proof (cases s)
  case Nil
  then show ?thesis using assms
    by (cases r) (auto simp: split_exp_def delim_def split: prod.splits)
next
  case (Cons c cs)
  have "split_sign (cs @ r) = (fst (split_sign cs), snd (split_sign cs) @ r)"
    using assms by (cases cs; cases r) (auto simp: split_sign_def delim_def)
  with Cons assms show ?thesis
    by (auto simp: split_exp_def digits_before_delim split: prod.splits)
qed

lemma split_int_delim:
  "s \<noteq> [] \<Longrightarrow> delim r \<Longrightarrow> split_int (s @ r) = map_option (\<lambda>(a, b). (a, b @ r)) (split_int s)"
  by (cases s) (auto simp: split_int_def digits_before_delim)

lemma number_tail_delim:
  "delim r \<Longrightarrow>
   number_tail neg ip (s @ r) = (fst (number_tail neg ip s), snd (number_tail neg ip s) @ r)"
  by (simp add: number_tail_def split_frac_delim split_exp_delim Let_def case_prod_beta)

lemma parse_number_delim:
  assumes "parse_number t = Some (v, [])" and r: "delim r"
  shows "parse_number (t @ r) = Some (v, r)"
proof -
  define body where "body = (if take 1 t = ''-'' then drop 1 t else t)"
  from assms(1) obtain ip r1 where ip: "split_int body = Some (ip, r1)"
    and tail: "number_tail (take 1 t = ''-'') ip r1 = (v, [])"
    by (auto simp: parse_number_def Let_def body_def)
  then have "body \<noteq> []" by (auto simp: split_int_def)
  then have "t \<noteq> []" by (auto simp: body_def)
  then have take: "take 1 (t @ r) = take 1 t"
    and body: "(if take 1 t = ''-'' then drop 1 (t @ r) else t @ r) = body @ r"
    by (cases t; simp add: body_def)+
  have "split_int (body @ r) = Some (ip, r1 @ r)"
    using ip r \<open>body \<noteq> []\<close> by (simp add: split_int_delim)
  moreover have "number_tail (take 1 t = ''-'') ip (r1 @ r) = (v, r)"
    using tail r by (simp add: number_tail_delim)
  ultimately show ?thesis
    by (simp only: parse_number_def Let_def take body) simp
qed

lemma takeWhile_show_nat: "takeWhile is_digit (show_nat n) = show_nat n"
  "dropWhile is_digit (show_nat n) = []"
  using show_nat_digits [of n] by (auto simp: takeWhile_eq_all_conv)

lemma split_int_show_nat: "split_int (show_nat n) = Some (show_nat n, [])"
proof (cases "n = 0")
  case True
  then show ?thesis by (simp add: split_int_def)
next
  case False
  obtain c cs where ccs: "show_nat n = c # cs" by (cases "show_nat n") auto
  with show_nat_hd [OF False] have "c \<noteq> CHR ''0''" by simp
  with ccs takeWhile_show_nat [of n] show ?thesis
    by (auto simp: split_int_def split: if_splits)
qed

lemma parse_number_show_int: "parse_number (show_int i) = Some (JInt i, [])"
proof -
  have "take 1 (show_nat n) \<noteq> ''-''" for n
    using show_nat_digits [of n] by (cases "show_nat n") auto
  then show ?thesis
    by (auto simp: parse_number_def number_tail_def show_int_def split_int_show_nat split_frac_def
        split_exp_def)
qed

lemma parse_number_head:
  "parse_number s = Some x \<Longrightarrow>
   \<exists>c cs. s = c # cs \<and> (is_digit c \<or> (c = CHR ''-'' \<and> cs \<noteq> [] \<and> is_digit (hd cs)))"
  by (cases s) (auto simp: parse_number_def split_int_def Let_def split: option.splits if_splits list.splits)

subsection \<open>Values\<close>

definition starts_value :: "string \<Rightarrow> bool" where
  "starts_value s \<longleftrightarrow> s \<noteq> [] \<and> \<not> is_ws (hd s) \<and> hd s \<notin> {CHR '','', CHR '']'', CHR ''}''}"

lemma is_ws_consts [simp]:
  "\<not> is_ws (CHR '','')" "\<not> is_ws (CHR '']'')" "\<not> is_ws (CHR ''}'')" "\<not> is_ws (CHR ''['')"
  "\<not> is_ws (CHR ''{'')" "\<not> is_ws (CHR '':'')" "\<not> is_ws (CHR ''n'')" "\<not> is_ws (CHR ''t'')"
  "\<not> is_ws (CHR ''f'')" "\<not> is_ws (CHR ''-'')" "\<not> is_ws (CHR 0x22)"
  "is_digit c \<Longrightarrow> \<not> is_ws c"
  by (auto simp: is_ws_def is_digit_def char_code_def)

lemma skip_ws_id [simp]: "s \<noteq> [] \<Longrightarrow> \<not> is_ws (hd s) \<Longrightarrow> skip_ws s = s"
  by (cases s) (auto simp: skip_ws_def)

lemma skip_ws_delim [simp]: "delim r \<Longrightarrow> skip_ws r = r"
  by (cases r) (auto simp: skip_ws_def delim_def)

lemma parse_value_number:
  assumes "parse_number s = Some x"
  shows "parse_value (Suc f) s = parse_number s"
proof -
  from parse_number_head [OF assms] obtain c cs where s: "s = c # cs"
    and c: "is_digit c \<or> (c = CHR ''-'' \<and> cs \<noteq> [] \<and> is_digit (hd cs))" by blast
  have "char_code c \<noteq> 34 \<and> c \<noteq> CHR ''['' \<and> c \<noteq> CHR ''{'' \<and> c \<noteq> CHR ''n'' \<and> c \<noteq> CHR ''t''
    \<and> c \<noteq> CHR ''f'' \<and> c \<noteq> CHR ''N'' \<and> c \<noteq> CHR ''I''"
    using c by (auto simp: is_digit_def char_code_def)
  moreover have "\<not> startswith s ''-Infinity''"
    using c s by (cases cs) auto
  ultimately show ?thesis using s by auto
qed

lemma starts_value_dumps: "wf_json v \<Longrightarrow> starts_value (dumps v)"
proof (cases v)
  case (JInt i)
  then show ?thesis
    using parse_number_head [OF parse_number_show_int [of i]] by (auto simp: starts_value_def)
next
  case (JFloat t)
  moreover assume "wf_json v"
  ultimately have "parse_number t = Some (JFloat t, [])" by (simp add: float_text_def)
  from parse_number_head [OF this] JFloat show ?thesis by (auto simp: starts_value_def)
qed (auto simp: starts_value_def quote_def is_ws_def char_code_def)

lemma starts_value_append [simp]: "starts_value s \<Longrightarrow> skip_ws (s @ r) = s @ r"
  by (cases s) (auto simp: starts_value_def skip_ws_def)

lemma starts_value_not_close:
  "starts_value s \<Longrightarrow> take 1 (s @ r) \<noteq> '']'' \<and> take 1 (s @ r) \<noteq> ''}''"
  by (cases s) (auto simp: starts_value_def)

lemma starts_value_elems: "xs \<noteq> [] \<Longrightarrow> wf_list xs \<Longrightarrow> starts_value (dumps_elems xs)"
proof -
  assume "xs \<noteq> []" "wf_list xs"
  then obtain x ys where xs: "xs = x # ys" and x: "starts_value (dumps x)"
    by (cases xs) (auto simp: starts_value_dumps)
  then show ?thesis by (cases ys) (auto simp: starts_value_def)
qed

lemma starts_value_members: "kvs \<noteq> [] \<Longrightarrow> starts_value (dumps_members kvs)"
  by (cases kvs rule: dumps_members.cases) (auto simp: starts_value_def quote_def)

lemma length_dumps_pos: "wf_json v \<Longrightarrow> 0 < length (dumps v)"
  using starts_value_dumps by (auto simp: starts_value_def)

lemma update_fresh: "k \<notin> fst ` set d \<Longrightarrow> AList.update k v d = d @ [(k, v)]"
  by (induction d) auto

lemma fold_update_distinct:
  "distinct (map fst (acc @ kvs)) \<Longrightarrow> fold (\<lambda>(k, v). AList.update k v) kvs acc = acc @ kvs"
proof (induction kvs arbitrary: acc)
  case (Cons m kvs)
  obtain k v where m: "m = (k, v)" by (cases m)
  have "AList.update k v acc = acc @ [(k, v)]"
    using Cons.prems m by (intro update_fresh) auto
  with Cons m show ?case by auto
qed auto


theorem parse_value_dumps:
  shows "wf_json v \<Longrightarrow> delim r \<Longrightarrow> 2 * length (dumps v) \<le> f \<Longrightarrow>
      parse_value f (dumps v @ r) = Some (v, r)"
    and "wf_list xs \<Longrightarrow> xs \<noteq> [] \<Longrightarrow> 2 * length (dumps_elems xs) < f \<Longrightarrow>
      parse_elems f (dumps_elems xs @ CHR '']'' # r) = Some (xs, r)"
    and "wf_members kvs \<Longrightarrow> kvs \<noteq> [] \<Longrightarrow> 2 * length (dumps_members kvs) < f \<Longrightarrow>
      parse_members f (dumps_members kvs @ CHR ''}'' # r) = Some (kvs, r)"
proof (induction v and xs and kvs arbitrary: f r and f r and f r
    rule: dumps_dumps_elems_dumps_members.induct)
  case 1
  then show ?case by (cases f) (auto simp: numeral_eq_Suc)
next
  case (2 b)
  then show ?case by (cases f; cases b) (auto simp: numeral_eq_Suc)
next
  case (3 i)
  have "parse_number (show_int i @ r) = Some (JInt i, r)"
    by (rule parse_number_delim [OF parse_number_show_int]) (rule 3)
  with 3 show ?case
    using length_dumps_pos [of "JInt i"] parse_value_number by (cases f) auto
next
  case (4 t)
  then have "parse_number (t @ r) = Some (JFloat t, r)"
    by (intro parse_number_delim) (simp_all add: float_text_def)
  with 4 show ?case
    using length_dumps_pos [of "JFloat t"] parse_value_number by (cases f) auto
next
  case 5
  then show ?case by simp
next
  case (6 t)
  then show ?case by (cases f) (auto simp: quote_def parse_chars_quoted)
next
  case (7 xs)
  then obtain f' where f: "f = Suc f'" by (cases f) auto
  show ?case
  proof (cases "xs = []")
    case True
    with f show ?thesis by simp
  next
    case False
    with 7 have "starts_value (dumps_elems xs)" by (simp add: starts_value_elems)
    moreover have "parse_elems f' (dumps_elems xs @ CHR '']'' # r) = Some (xs, r)"
      using 7 f False by auto
    ultimately show ?thesis
      using f starts_value_not_close [of "dumps_elems xs" "CHR '']'' # r"] by simp
  qed
next
  case (8 kvs)
  then obtain f' where f: "f = Suc f'" by (cases f) auto
  show ?case
  proof (cases "kvs = []")
    case True
    with f show ?thesis by simp
  next
    case False
    then have "starts_value (dumps_members kvs)" by (rule starts_value_members)
    moreover have "parse_members f' (dumps_members kvs @ CHR ''}'' # r) = Some (kvs, r)"
      using 8 f False by auto
    moreover have "fold (\<lambda>(k, v). AList.update k v) kvs [] = kvs"
      using 8 fold_update_distinct [of "[]" kvs] by simp
    ultimately show ?thesis
      using f starts_value_not_close [of "dumps_members kvs" "CHR ''}'' # r"] by simp
  qed
next
  case 9
  then show ?case by simp
next
  case (10 x)
  then obtain f' where f: "f = Suc f'" by (cases f) auto
  with 10 have "parse_value f' (dumps x @ CHR '']'' # r) = Some (x, CHR '']'' # r)" by auto
  with f show ?case by simp
next
  case (11 x y xs)
  then obtain f' where f: "f = Suc f'" by (cases f) auto
  let ?rest = "dumps_elems (y # xs) @ CHR '']'' # r"
  have "parse_value f' (dumps x @ CHR '','' # ?rest) = Some (x, CHR '','' # ?rest)"
    using 11 f by (intro "11.IH"(1)) auto
  moreover have "parse_elems f' ?rest = Some (y # xs, r)"
    using 11 f by (intro "11.IH"(2)) auto
  moreover have "skip_ws ?rest = ?rest"
    using "11.prems" by (intro starts_value_append starts_value_elems) auto
  ultimately show ?case using f by simp
next
  case 12
  then show ?case by simp
next
  case (13 k v)
  then obtain f' where f: "f = Suc f'" by (cases f) auto
  have "parse_value f' (dumps v @ CHR ''}'' # r) = Some (v, CHR ''}'' # r)"
    using 13 f by (intro "13.IH") (auto simp: quote_def)
  moreover have "skip_ws (dumps v @ CHR ''}'' # r) = dumps v @ CHR ''}'' # r"
    using "13.prems" by (intro starts_value_append starts_value_dumps) auto
  ultimately show ?case
    using f by (simp add: quote_def parse_chars_quoted)
next
  case (14 k v m kvs)
  then obtain f' where f: "f = Suc f'" by (cases f) auto
  let ?rest = "dumps_members (m # kvs) @ CHR ''}'' # r"
  have "parse_value f' (dumps v @ CHR '','' # ?rest) = Some (v, CHR '','' # ?rest)"
    using 14 f by (intro "14.IH"(1)) (auto simp: quote_def)
  moreover have "parse_members f' ?rest = Some (m # kvs, r)"
    using 14 f by (intro "14.IH"(2)) (auto simp: quote_def)
  moreover have "skip_ws (dumps v @ CHR '','' # ?rest) = dumps v @ CHR '','' # ?rest"
    using "14.prems" by (intro starts_value_append starts_value_dumps) auto
  moreover have "skip_ws ?rest = ?rest"
    by (intro starts_value_append starts_value_members) simp
  ultimately show ?case
    using f by (simp add: quote_def parse_chars_quoted)
qed


lemma loads_dumps:
  assumes "wf_json v"
  shows "loads (dumps v) = Inr v"
proof -
  have "skip_ws (dumps v) = dumps v"
    using starts_value_append [OF starts_value_dumps [OF assms], of "[]"] by simp
  moreover have "parse_value (Suc (2 * length (dumps v))) (dumps v @ []) = Some (v, [])"
    by (rule parse_value_dumps(1)) (use assms in simp_all)
  ultimately show ?thesis by (simp add: loads_def)
qed

subsection \<open>The canonical form\<close>

lemma wf_list_iff: "wf_list xs \<longleftrightarrow> (\<forall>x \<in> set xs. wf_json x)"
  by (induction xs) auto

lemma wf_members_iff: "wf_members kvs \<longleftrightarrow> (\<forall>m \<in> set kvs. wf_json (snd m))"
  by (induction kvs) auto

lemma canonical_list_map: "canonical_list xs = map canonical xs"
  by (induction xs) auto

lemma canonical_members_map: "canonical_members kvs = map (\<lambda>(k, v). (k, canonical v)) kvs"
  by (induction kvs) auto

lemma map_fst_canonical_members [simp]: "map fst (canonical_members kvs) = map fst kvs"
  by (induction kvs) auto

lemma set_canonical_members: "set (canonical_members kvs) = (\<lambda>(k, v). (k, canonical v)) ` set kvs"
  by (simp add: canonical_members_map)

lemma distinct_map_sort_key [simp]: "distinct (map f (sort_key g xs)) \<longleftrightarrow> distinct (map f xs)"
  by (rule mset_eq_imp_distinct_iff) simp

lemma wf_json_canonical: "wf_json v \<Longrightarrow> wf_json (canonical v)"
  and wf_list_canonical: "wf_list xs \<Longrightarrow> wf_list (canonical_list xs)"
  and wf_members_canonical: "wf_members kvs \<Longrightarrow> wf_members (canonical_members kvs)"
proof (induction v and xs and kvs rule: canonical_canonical_list_canonical_members.induct)
  case (2 kvs)
  then show ?case by (auto simp: wf_members_iff)
qed auto

lemma finite_of_wf: "wf_json v \<Longrightarrow> finite_json v"
  and "wf_list xs \<Longrightarrow> finite_list xs"
  and "wf_members kvs \<Longrightarrow> finite_members kvs"
  by (induction v and xs and kvs rule: finite_json_finite_list_finite_members.induct) auto

lemma sort_key_map_snd:
  "sort_key fst (map (\<lambda>(k, v). (k, f v)) kvs) = map (\<lambda>(k, v). (k, f v)) (sort_key fst kvs)"
proof -
  have ins: "insort_key fst (case m of (k, v) \<Rightarrow> (k, f v)) (map (\<lambda>(k, v). (k, f v)) ms) =
      map (\<lambda>(k, v). (k, f v)) (insort_key fst m ms)" for m ms
    by (induction ms) (auto split: prod.splits)
  show ?thesis
    by (induction kvs) (simp_all add: sort_key_def ins)
qed

lemma sort_key_idem [simp]: "sort_key f (sort_key f xs) = sort_key f xs"
  by (rule sort_key_id_if_sorted) simp

lemma canonical_idem: "canonical (canonical v) = canonical v"
  and canonical_list_idem: "canonical_list (canonical_list xs) = canonical_list xs"
  and canonical_members_idem: "canonical_members (canonical_members kvs) = canonical_members kvs"
proof (induction v and xs and kvs rule: canonical_canonical_list_canonical_members.induct)
  case (2 kvs)
  have "canonical_members (sort_key fst ms) = sort_key fst (canonical_members ms)" for ms
    by (simp only: canonical_members_map sort_key_map_snd)
  with 2 show ?case by (simp add: sort_key_idem)
qed auto

text \<open>
  C16. The canonical encoding of a value can be read back: parsing the printed text gives the
  value with the members of every object in key order, so two values have the same encoding
  exactly when they have the same canonical form.
\<close>

theorem canonical_json_roundtrip:
  assumes "wf_json v" and "wf_json w"
  shows "\<exists>t. canonical_json v = Inr t \<and> loads t = Inr (canonical v)
    \<and> (canonical_json w = Inr t \<longleftrightarrow> canonical w = canonical v)"
proof -
  have "canonical_json v = Inr (dumps (canonical v))" "canonical_json w = Inr (dumps (canonical w))"
    using assms by (simp_all add: canonical_json_def finite_of_wf)
  moreover have "loads (dumps (canonical v)) = Inr (canonical v)"
    "loads (dumps (canonical w)) = Inr (canonical w)"
    using assms by (simp_all add: loads_dumps wf_json_canonical)
  ultimately show ?thesis by (metis sum.inject(2))
qed

theorem canonical_json_roundtrip_witness:
  "\<exists>t. canonical_json (JObj [(''b'', JInt 2), (''a'', JList [JNull])]) = Inr t
     \<and> loads t = Inr (JObj [(''a'', JList [JNull]), (''b'', JInt 2)])"
proof -
  have "wf_json (JObj [(''b'', JInt 2), (''a'', JList [JNull])])" by code_simp
  moreover have "canonical (JObj [(''b'', JInt 2), (''a'', JList [JNull])]) = JObj [(''a'', JList [JNull]), (''b'', JInt 2)]"
    by code_simp
  ultimately show ?thesis
    using canonical_json_roundtrip [of "JObj [(''b'', JInt 2), (''a'', JList [JNull])]"
        "JObj [(''b'', JInt 2), (''a'', JList [JNull])]"] by auto
qed

section \<open>Python conversions\<close>

text \<open>
  \<open>str(v)\<close>. A string is itself; inside a list or dict it is shown by \<open>repr\<close>: single quotes
  unless it holds a single quote and no double quote, backslash escapes, and \<open>\xNN\<close> for the
  code points below 256 that are not printable.
\<close>

definition repr_char :: "char \<Rightarrow> char \<Rightarrow> string" where
  "repr_char q c = (let n = char_code c in
     if c = q \<or> n = 92 then [CHR 0x5C, c]
     else if n = 9 then [CHR 0x5C, CHR ''t'']
     else if n = 10 then [CHR 0x5C, CHR ''n'']
     else if n = 13 then [CHR 0x5C, CHR ''r'']
     else if n < 32 \<or> (127 \<le> n \<and> n \<le> 160) \<or> n = 173
       then [CHR 0x5C, CHR ''x'', hex_digit (n div 16), hex_digit (n mod 16)]
     else [c])"

definition repr_str :: "string \<Rightarrow> string" where
  "repr_str s =
     (let q = (if CHR 0x27 \<in> set s \<and> CHR 0x22 \<notin> set s then CHR 0x22 else CHR 0x27)
      in q # concat (map (repr_char q) s) @ [q])"

fun py_repr :: "json \<Rightarrow> string" and repr_elems :: "json list \<Rightarrow> string"
  and repr_members :: "(string \<times> json) list \<Rightarrow> string" where
  "py_repr JNull = ''None''"
| "py_repr (JBool b) = (if b then ''True'' else ''False'')"
| "py_repr (JInt i) = show_int i"
| "py_repr (JFloat t) = t"
| "py_repr JNaN = ''nan''"
| "py_repr (JStr s) = repr_str s"
| "py_repr (JList xs) = ''['' @ repr_elems xs @ '']''"
| "py_repr (JObj kvs) = ''{'' @ repr_members kvs @ ''}''"
| "repr_elems [] = []"
| "repr_elems [x] = py_repr x"
| "repr_elems (x # y # xs) = py_repr x @ '', '' @ repr_elems (y # xs)"
| "repr_members [] = []"
| "repr_members [(k, v)] = repr_str k @ '': '' @ py_repr v"
| "repr_members ((k, v) # m # kvs) = repr_str k @ '': '' @ py_repr v @ '', '' @ repr_members (m # kvs)"

fun py_str :: "json \<Rightarrow> string" where
  "py_str (JStr s) = s"
| "py_str v = py_repr v"

end
