(* ===== verification/Events.thy ===== *)
theory Events
  imports Json
begin

text \<open>
  The event model (courier\_core/events.py): the event types, the fields each type requires,
  payload validation, default de-duplication keys, the chain hash and the conversion from a
  stored row. The hash function is a parameter \<open>H\<close> (SHA-256 of the UTF-8 text, as lower-case
  hex); times and fresh identifiers are values the caller supplies.
\<close>

section \<open>Vocabulary\<close>

definition SCHEMA_VERSION :: int where "SCHEMA_VERSION = 1"
definition GENESIS_HASH :: string where "GENESIS_HASH = replicate 64 (CHR ''0'')"
definition MAX_ID_LENGTH :: nat where "MAX_ID_LENGTH = 200"
definition MAX_ATTEMPTS_LIMIT :: int where "MAX_ATTEMPTS_LIMIT = 100"
definition EFFECT_CLASSES :: "string list" where "EFFECT_CLASSES = [''idempotent'', ''non_idempotent'']"
definition RETRY_SAFE_EFFECT_CLASS :: string where "RETRY_SAFE_EFFECT_CLASS = ''idempotent''"
definition LEASE_EXPIRY_REASONS :: "string list" where "LEASE_EXPIRY_REASONS = [''ttl'', ''restart_grace'']"
definition RESULT_OUTCOMES :: "string list" where "RESULT_OUTCOMES = [''success'', ''failure'']"
definition INPUT_KEYS :: "string list" where
  "INPUT_KEYS = [''task_id'', ''dispatch_id'', ''result_id'', ''artifacts'']"

text \<open>\<open>^[0-9a-f]{64}$\<close> under \<open>re.match\<close>: \<open>$\<close> also matches before one final newline.\<close>

definition is_lower_hex :: "char \<Rightarrow> bool" where
  "is_lower_hex c \<longleftrightarrow> is_digit c \<or> (97 \<le> char_code c \<and> char_code c \<le> 102)"

definition sha256_hex_match :: "string \<Rightarrow> bool" where
  "sha256_hex_match s \<longleftrightarrow>
     length (takeWhile is_lower_hex s) = 64 \<and> dropWhile is_lower_hex s \<in> {[], [CHR 0x0A]}"

datatype event_type =
    TASK_CREATED | TASK_CLAIMED | TASK_STARTED | TASK_PROGRESS | RESULT_READY | RESULT_ACCEPTED
  | RESULT_REJECTED | TASK_COMPLETE | LEASE_EXPIRED | TASK_RETRY_SCHEDULED | TASK_BLOCKED
  | TASK_FAILED | TASK_CANCEL_REQUESTED | TASK_CANCELLED | EFFECT_CONFIRMED | RETRY_AUTHORIZED
  | LATE_RESULT_DISCARDED | CONTROLLER_STARTED | CONTROLLER_STOPPED

fun type_value :: "event_type \<Rightarrow> string" where
  "type_value TASK_CREATED = ''TASK_CREATED''"
| "type_value TASK_CLAIMED = ''TASK_CLAIMED''"
| "type_value TASK_STARTED = ''TASK_STARTED''"
| "type_value TASK_PROGRESS = ''TASK_PROGRESS''"
| "type_value RESULT_READY = ''RESULT_READY''"
| "type_value RESULT_ACCEPTED = ''RESULT_ACCEPTED''"
| "type_value RESULT_REJECTED = ''RESULT_REJECTED''"
| "type_value TASK_COMPLETE = ''TASK_COMPLETE''"
| "type_value LEASE_EXPIRED = ''LEASE_EXPIRED''"
| "type_value TASK_RETRY_SCHEDULED = ''TASK_RETRY_SCHEDULED''"
| "type_value TASK_BLOCKED = ''TASK_BLOCKED''"
| "type_value TASK_FAILED = ''TASK_FAILED''"
| "type_value TASK_CANCEL_REQUESTED = ''TASK_CANCEL_REQUESTED''"
| "type_value TASK_CANCELLED = ''TASK_CANCELLED''"
| "type_value EFFECT_CONFIRMED = ''EFFECT_CONFIRMED''"
| "type_value RETRY_AUTHORIZED = ''RETRY_AUTHORIZED''"
| "type_value LATE_RESULT_DISCARDED = ''LATE_RESULT_DISCARDED''"
| "type_value CONTROLLER_STARTED = ''CONTROLLER_STARTED''"
| "type_value CONTROLLER_STOPPED = ''CONTROLLER_STOPPED''"

definition all_event_types :: "event_type list" where
  "all_event_types =
     [TASK_CREATED, TASK_CLAIMED, TASK_STARTED, TASK_PROGRESS, RESULT_READY, RESULT_ACCEPTED,
      RESULT_REJECTED, TASK_COMPLETE, LEASE_EXPIRED, TASK_RETRY_SCHEDULED, TASK_BLOCKED,
      TASK_FAILED, TASK_CANCEL_REQUESTED, TASK_CANCELLED, EFFECT_CONFIRMED, RETRY_AUTHORIZED,
      LATE_RESULT_DISCARDED, CONTROLLER_STARTED, CONTROLLER_STOPPED]"

text \<open>\<open>EventType(text)\<close>: the member with that value, or \<open>None\<close> for an unknown type.\<close>

definition type_of_value :: "string \<Rightarrow> event_type option" where
  "type_of_value s = find (\<lambda>t. type_value t = s) all_event_types"

definition SYSTEM_EVENTS :: "event_type list" where
  "SYSTEM_EVENTS = [CONTROLLER_STARTED, CONTROLLER_STOPPED]"

definition HUMAN_DECISIONS :: "event_type list" where
  "HUMAN_DECISIONS = [EFFECT_CONFIRMED, RETRY_AUTHORIZED]"

text \<open>Type to (required envelope fields, required payload keys).\<close>

fun REQUIRED :: "event_type \<Rightarrow> string list \<times> string list" where
  "REQUIRED TASK_CREATED =
     ([''task_id''], [''adapter'', ''params'', ''effect_class'', ''max_attempts'', ''lease_ttl_s''])"
| "REQUIRED TASK_CLAIMED = ([''task_id'', ''attempt'', ''dispatch_id'', ''worker_id''], [''ttl_s''])"
| "REQUIRED TASK_STARTED = ([''task_id'', ''attempt'', ''dispatch_id'', ''worker_id''], [])"
| "REQUIRED TASK_PROGRESS = ([''task_id'', ''attempt'', ''dispatch_id''], [])"
| "REQUIRED RESULT_READY =
     ([''task_id'', ''attempt'', ''dispatch_id'', ''worker_id'', ''result_id''], [''artifacts'', ''outcome''])"
| "REQUIRED RESULT_ACCEPTED = ([''task_id'', ''attempt'', ''dispatch_id'', ''result_id''], [])"
| "REQUIRED RESULT_REJECTED =
     ([''task_id'', ''attempt'', ''dispatch_id'', ''result_id''], [''reason'', ''retryable''])"
| "REQUIRED TASK_COMPLETE = ([''task_id'', ''attempt'', ''dispatch_id'', ''result_id''], [])"
| "REQUIRED LEASE_EXPIRED = ([''task_id'', ''attempt'', ''dispatch_id'', ''worker_id''], [''reason''])"
| "REQUIRED TASK_RETRY_SCHEDULED = ([''task_id'', ''attempt''], [''reason''])"
| "REQUIRED TASK_BLOCKED = ([''task_id''], [''reason''])"
| "REQUIRED TASK_FAILED = ([''task_id''], [''reason''])"
| "REQUIRED TASK_CANCEL_REQUESTED = ([''task_id''], [])"
| "REQUIRED TASK_CANCELLED = ([''task_id''], [])"
| "REQUIRED LATE_RESULT_DISCARDED = ([''task_id'', ''dispatch_id'', ''result_id''], [''reason''])"
| "REQUIRED EFFECT_CONFIRMED = ([''task_id'', ''attempt''], [''actor'', ''reason''])"
| "REQUIRED RETRY_AUTHORIZED = ([''task_id'', ''attempt''], [''actor'', ''reason''])"
| "REQUIRED CONTROLLER_STARTED = ([], [])"
| "REQUIRED CONTROLLER_STOPPED = ([], [])"

section \<open>Events\<close>

record event =
  ev_type :: event_type
  ev_task_id :: "string option"
  ev_attempt :: "int option"
  ev_dispatch_id :: "string option"
  ev_worker_id :: "string option"
  ev_result_id :: "string option"
  ev_payload :: payload
  ev_event_id :: string
  ev_ts_utc :: string
  ev_dedupe_key :: "string option"
  ev_schema_v :: int
  ev_seq :: "int option"
  ev_prev_hash :: "string option"
  ev_hash :: "string option"

text \<open>How an f-string shows a field that may be \<open>None\<close>.\<close>

definition show_opt :: "string option \<Rightarrow> string" where
  "show_opt x = (case x of None \<Rightarrow> ''None'' | Some s \<Rightarrow> s)"

definition show_opt_int :: "int option \<Rightarrow> string" where
  "show_opt_int x = (case x of None \<Rightarrow> ''None'' | Some i \<Rightarrow> show_int i)"

definition effect_key :: "(string \<Rightarrow> string) \<Rightarrow> string \<Rightarrow> string" where
  "effect_key H tid = ''cfx-'' @ take 40 (H (''courier-effect-v1:'' @ tid))"

definition result_dedupe_key :: "string \<Rightarrow> string \<Rightarrow> string" where
  "result_dedupe_key did rid = ''result:'' @ did @ '':'' @ rid"

fun default_dedupe_key ::
  "event_type \<Rightarrow> string option \<Rightarrow> int option \<Rightarrow> string option \<Rightarrow> string option \<Rightarrow> string option" where
  "default_dedupe_key TASK_CREATED tid att did rid = Some (''created:'' @ show_opt tid)"
| "default_dedupe_key TASK_CLAIMED tid att did rid =
     Some (''claim:'' @ show_opt tid @ '':'' @ show_opt_int att)"
| "default_dedupe_key TASK_STARTED tid att did rid = Some (''start:'' @ show_opt did)"
| "default_dedupe_key RESULT_READY tid att did rid =
     Some (result_dedupe_key (show_opt did) (show_opt rid))"
| "default_dedupe_key RESULT_ACCEPTED tid att did rid = Some (''accepted:'' @ show_opt tid)"
| "default_dedupe_key TASK_COMPLETE tid att did rid = Some (''complete:'' @ show_opt tid)"
| "default_dedupe_key LEASE_EXPIRED tid att did rid = Some (''lease_expired:'' @ show_opt did)"
| "default_dedupe_key EFFECT_CONFIRMED tid att did rid = Some (''effect_confirmed:'' @ show_opt tid)"
| "default_dedupe_key RETRY_AUTHORIZED tid att did rid =
     Some (''retry_authorized:'' @ show_opt tid @ '':'' @ show_opt_int att)"
| "default_dedupe_key _ tid att did rid = None"

section \<open>Validation\<close>

definition valid_id :: "string \<Rightarrow> bool" where
  "valid_id s \<longleftrightarrow> s \<noteq> [] \<and> length s \<le> MAX_ID_LENGTH"

text \<open>\<open>_check_id\<close> on a typed field and on a JSON value.\<close>

definition check_id :: "string \<Rightarrow> string \<Rightarrow> error option" where
  "check_id name s = require (valid_id s) (EventValidationError (name @ '' must be an id''))"

fun json_id :: "json \<Rightarrow> bool" where
  "json_id (JStr s) = valid_id s"
| "json_id _ = False"

definition check_json_id :: "string \<Rightarrow> json \<Rightarrow> error option" where
  "check_json_id name v = require (json_id v) (EventValidationError (name @ '' must be an id''))"

text \<open>\<open>_check_positive_int\<close>: a Python bool is an \<open>int\<close> and is refused explicitly.\<close>

fun json_pos_int :: "json \<Rightarrow> int option \<Rightarrow> bool" where
  "json_pos_int (JInt i) upper = (1 \<le> i \<and> (case upper of None \<Rightarrow> True | Some u \<Rightarrow> i \<le> u))"
| "json_pos_int _ upper = False"

definition check_positive_int :: "string \<Rightarrow> json \<Rightarrow> int option \<Rightarrow> error option" where
  "check_positive_int name v upper =
     require (json_pos_int v upper) (EventValidationError (name @ '' must be an integer >= 1''))"

definition artifact_ok :: "json \<Rightarrow> bool" where
  "artifact_ok a = (case a of
     JObj kvs \<Rightarrow>
       (case get kvs ''path'' of JStr p \<Rightarrow> p \<noteq> [] | _ \<Rightarrow> False)
       \<and> sha256_hex_match (py_str (case map_of kvs ''sha256'' of None \<Rightarrow> JStr [] | Some v \<Rightarrow> v))
   | _ \<Rightarrow> False)"

definition check_artifacts :: "json \<Rightarrow> error option" where
  "check_artifacts v = (case v of
     JList xs \<Rightarrow> require (list_all artifact_ok xs)
       (EventValidationError ''each artifact needs a non-empty path and a lowercase sha256'')
   | _ \<Rightarrow> Some (EventValidationError ''artifacts must be a list''))"

definition validate_input :: "json \<Rightarrow> error option" where
  "validate_input v = (case v of
     JObj kvs \<Rightarrow>
       (if set (map fst kvs) \<noteq> set INPUT_KEYS
        then Some (EventValidationError ''input must be an object with exactly the input keys'')
        else first_error
          [check_json_id ''input.task_id'' (get kvs ''task_id''),
           check_json_id ''input.dispatch_id'' (get kvs ''dispatch_id''),
           check_json_id ''input.result_id'' (get kvs ''result_id''),
           check_artifacts (get kvs ''artifacts''),
           require (get kvs ''artifacts'' \<noteq> JList [])
             (EventValidationError ''input must reference at least one artifact'')])
   | _ \<Rightarrow> Some (EventValidationError ''input must be an object with exactly the input keys''))"

definition validate_created :: "event \<Rightarrow> error option" where
  "validate_created e = (let p = ev_payload e in first_error
     [check_json_id ''adapter'' (get p ''adapter''),
      require (is_obj (get p ''params'')) (EventValidationError ''params must be an object''),
      check_in (get p ''effect_class'') EFFECT_CLASSES (EventValidationError ''effect_class''),
      check_positive_int ''max_attempts'' (get p ''max_attempts'') (Some MAX_ATTEMPTS_LIMIT),
      check_positive_int ''lease_ttl_s'' (get p ''lease_ttl_s'') None,
      guarded (get p ''timeout_s'' \<noteq> JNull) (check_positive_int ''timeout_s'' (get p ''timeout_s'') None),
      guarded (get p ''depends_on'' \<noteq> JNull) (check_json_id ''depends_on'' (get p ''depends_on'')),
      guarded (get p ''depends_on'' \<noteq> JNull)
        (require (Some (get p ''depends_on'') \<noteq> map_option JStr (ev_task_id e))
          (EventValidationError ''a task cannot depend on itself''))])"

fun validate_by_type :: "event_type \<Rightarrow> event \<Rightarrow> error option" where
  "validate_by_type TASK_CREATED e = validate_created e"
| "validate_by_type TASK_CLAIMED e = (let p = ev_payload e in first_error
     [check_positive_int ''ttl_s'' (get p ''ttl_s'') None,
      guarded (get p ''input'' \<noteq> JNull) (validate_input (get p ''input''))])"
| "validate_by_type RESULT_READY e = (let p = ev_payload e in first_error
     [check_in (get p ''outcome'') RESULT_OUTCOMES (EventValidationError ''outcome''),
      check_artifacts (get p ''artifacts''),
      require (has_key p ''retryable'' \<longrightarrow> is_bool (get p ''retryable''))
        (EventValidationError ''retryable must be a boolean'')])"
| "validate_by_type RESULT_REJECTED e =
     require (is_bool (get (ev_payload e) ''retryable'')) (EventValidationError ''retryable must be a boolean'')"
| "validate_by_type LEASE_EXPIRED e =
     check_in (get (ev_payload e) ''reason'') LEASE_EXPIRY_REASONS (EventValidationError ''lease expiry reason'')"
| "validate_by_type _ e = None"

definition nonblank :: "json \<Rightarrow> bool" where
  "nonblank v = (case v of JStr s \<Rightarrow> strip s \<noteq> [] | _ \<Rightarrow> False)"

definition validate_payload :: "event \<Rightarrow> error option" where
  "validate_payload e = (let p = ev_payload e; human = (ev_type e \<in> set HUMAN_DECISIONS) in first_error
     [validate_by_type (ev_type e) e,
      guarded (human \<or> has_key p ''actor'') (check_json_id ''actor'' (get p ''actor'')),
      guarded human (require (nonblank (get p ''reason'')) (EventValidationError ''needs a non-empty reason''))])"

text \<open>\<open>getattr(event, name) is not None\<close>\<close>

definition has_field :: "event \<Rightarrow> string \<Rightarrow> bool" where
  "has_field e name \<longleftrightarrow>
     (if name = ''task_id'' then ev_task_id e \<noteq> None
      else if name = ''attempt'' then ev_attempt e \<noteq> None
      else if name = ''dispatch_id'' then ev_dispatch_id e \<noteq> None
      else if name = ''worker_id'' then ev_worker_id e \<noteq> None
      else if name = ''result_id'' then ev_result_id e \<noteq> None else False)"

definition check_opt_id :: "string \<Rightarrow> string option \<Rightarrow> error option" where
  "check_opt_id name x = (case x of None \<Rightarrow> None | Some s \<Rightarrow> check_id name s)"

definition validate :: "event \<Rightarrow> error option" where
  "validate e = first_error
     [require (ev_schema_v e = SCHEMA_VERSION) (EventValidationError ''unsupported schema_v''),
      check_id ''event_id'' (ev_event_id e),
      require (endswith (ev_ts_utc e) ''Z'') (EventValidationError ''ts_utc must end in Z''),
      check_opt_id ''dedupe_key'' (ev_dedupe_key e),
      require (list_all (has_field e) (fst (REQUIRED (ev_type e))))
        (EventValidationError ''a required field is missing''),
      guarded (ev_type e \<in> set SYSTEM_EVENTS)
        (require (list_all (\<lambda>n. \<not> has_field e n)
            [''task_id'', ''attempt'', ''dispatch_id'', ''worker_id'', ''result_id''])
          (EventValidationError ''a system event takes no task fields'')),
      check_opt_id ''task_id'' (ev_task_id e),
      check_opt_id ''dispatch_id'' (ev_dispatch_id e),
      check_opt_id ''worker_id'' (ev_worker_id e),
      check_opt_id ''result_id'' (ev_result_id e),
      (case ev_attempt e of None \<Rightarrow> None
       | Some a \<Rightarrow> check_positive_int ''attempt'' (JInt a) (Some MAX_ATTEMPTS_LIMIT)),
      require (list_all (has_key (ev_payload e)) (snd (REQUIRED (ev_type e))))
        (EventValidationError ''the payload lacks a required key''),
      validate_payload e]"

text \<open>
  \<open>__post_init__\<close>: the payload is copied through the canonical encoding, a missing
  \<open>dedupe_key\<close> gets its default, and the event is validated.
\<close>

definition post_init :: "event \<Rightarrow> event result" where
  "post_init e =
     (case bind_result (canonical_json (JObj (ev_payload e))) loads of
        Inr (JObj p) \<Rightarrow>
          (let e' = e\<lparr>ev_payload := p,
                 ev_dedupe_key := (case ev_dedupe_key e of
                    None \<Rightarrow> default_dedupe_key (ev_type e) (ev_task_id e) (ev_attempt e)
                              (ev_dispatch_id e) (ev_result_id e)
                  | Some k \<Rightarrow> Some k)\<rparr>
           in case validate e' of None \<Rightarrow> Inr e' | Some err \<Rightarrow> Inl err)
      | _ \<Rightarrow> Inl (EventValidationError ''payload is not canonical JSON''))"

definition payload_json :: "event \<Rightarrow> string" where
  "payload_json e = dumps (canonical (JObj (ev_payload e)))"

text \<open>What makes two submissions the same effect: identifiers of the event and time are left out.\<close>

definition content ::
  "event \<Rightarrow> event_type \<times> string option \<times> int option \<times> string option \<times> string option
     \<times> string option \<times> string" where
  "content e = (ev_type e, ev_task_id e, ev_attempt e, ev_dispatch_id e, ev_worker_id e,
     ev_result_id e, payload_json e)"

section \<open>The hash chain\<close>

fun opt_str :: "string option \<Rightarrow> json" where
  "opt_str None = JNull"
| "opt_str (Some s) = JStr s"

fun opt_int :: "int option \<Rightarrow> json" where
  "opt_int None = JNull"
| "opt_int (Some i) = JInt i"

text \<open>The hashed text: the canonical encoding of every stored column but the hash.\<close>

definition hash_material :: "event \<Rightarrow> string option \<Rightarrow> string" where
  "hash_material e payload_text = dumps (canonical (JList
     [JInt (ev_schema_v e), opt_int (ev_seq e), JStr (ev_event_id e), JStr (type_value (ev_type e)),
      opt_str (ev_task_id e), opt_int (ev_attempt e), opt_str (ev_dispatch_id e),
      opt_str (ev_worker_id e), opt_str (ev_result_id e), opt_str (ev_dedupe_key e),
      JStr (ev_ts_utc e),
      JStr (case payload_text of None \<Rightarrow> payload_json e | Some t \<Rightarrow> t),
      opt_str (ev_prev_hash e)]))"

definition chain_hash :: "(string \<Rightarrow> string) \<Rightarrow> event \<Rightarrow> string option \<Rightarrow> string" where
  "chain_hash H e payload_text = H (hash_material e payload_text)"

text \<open>\<open>dataclasses.replace\<close> runs \<open>__post_init__\<close> again on each copy.\<close>

definition sealed :: "(string \<Rightarrow> string) \<Rightarrow> event \<Rightarrow> int \<Rightarrow> string \<Rightarrow> event result" where
  "sealed H e seq prev =
     bind_result (post_init (e\<lparr>ev_seq := Some seq, ev_prev_hash := Some prev, ev_hash := None\<rparr>))
       (\<lambda>s. post_init (s\<lparr>ev_hash := Some (chain_hash H s None)\<rparr>))"

text \<open>One row of the table \<open>events\<close>, with the columns' declared types.\<close>

record row =
  r_seq :: int
  r_event_id :: string
  r_schema_v :: int
  r_type :: string
  r_task_id :: "string option"
  r_attempt :: "int option"
  r_dispatch_id :: "string option"
  r_worker_id :: "string option"
  r_result_id :: "string option"
  r_dedupe_key :: "string option"
  r_ts_utc :: string
  r_payload :: string
  r_prev_hash :: string
  r_hash :: string

definition from_row :: "row \<Rightarrow> event result" where
  "from_row r = bind_result (loads (r_payload r)) (\<lambda>v.
     case type_of_value (r_type r) of
       None \<Rightarrow> Inl (EventValidationError ''unknown event type'')
     | Some t \<Rightarrow>
        (case v of
           JObj p \<Rightarrow> post_init
             \<lparr>ev_type = t, ev_task_id = r_task_id r, ev_attempt = r_attempt r,
              ev_dispatch_id = r_dispatch_id r, ev_worker_id = r_worker_id r,
              ev_result_id = r_result_id r, ev_payload = p, ev_event_id = r_event_id r,
              ev_ts_utc = r_ts_utc r, ev_dedupe_key = r_dedupe_key r, ev_schema_v = r_schema_v r,
              ev_seq = Some (r_seq r), ev_prev_hash = Some (r_prev_hash r), ev_hash = Some (r_hash r)\<rparr>
         | _ \<Rightarrow> Inl (EventValidationError ''payload must be a JSON object'')))"


section \<open>Properties\<close>

lemma type_of_value_type_value [simp]: "type_of_value (type_value t) = Some t"
  by (cases t) (simp_all add: type_of_value_def all_event_types_def)

lemma type_value_inject [simp]: "type_value s = type_value t \<longleftrightarrow> s = t"
  by (metis option.inject type_of_value_type_value)

text \<open>The events \<open>__post_init__\<close> lets through.\<close>

definition wf_event :: "event \<Rightarrow> bool" where
  "wf_event e \<longleftrightarrow>
     wf_json (JObj (ev_payload e)) \<and> canonical (JObj (ev_payload e)) = JObj (ev_payload e)
     \<and> (ev_dedupe_key e = None \<longrightarrow>
          default_dedupe_key (ev_type e) (ev_task_id e) (ev_attempt e) (ev_dispatch_id e) (ev_result_id e) = None)
     \<and> validate e = None"

lemma wf_eventD:
  assumes "wf_event e"
  shows "wf_json (JObj (ev_payload e))" "canonical (JObj (ev_payload e)) = JObj (ev_payload e)"
    "validate e = None"
  using assms by (auto simp: wf_event_def)

lemma canonical_loads: "wf_json v \<Longrightarrow> bind_result (canonical_json v) loads = Inr (canonical v)"
  by (simp add: canonical_json_def finite_of_wf loads_dumps wf_json_canonical)

lemma post_init_wf:
  assumes "wf_json (JObj (ev_payload e))" and "post_init e = Inr e'"
  shows "wf_event e'"
    and "ev_payload e' = sort_key fst (canonical_members (ev_payload e))"
proof -
  let ?p = "sort_key fst (canonical_members (ev_payload e))"
  have "canonical (JObj (ev_payload e)) = JObj ?p" by simp
  then have "canonical (JObj ?p) = JObj ?p" "wf_json (JObj ?p)"
    using canonical_idem [of "JObj (ev_payload e)"] wf_json_canonical [OF assms(1)] by simp_all
  then show "wf_event e'" "ev_payload e' = ?p"
    using assms(2) canonical_loads [OF assms(1)]
    by (auto simp: post_init_def wf_event_def Let_def split: option.splits)
qed

lemma post_init_id:
  assumes "wf_event e"
  shows "post_init e = Inr e"
proof -
  have "bind_result (canonical_json (JObj (ev_payload e))) loads = Inr (JObj (ev_payload e))"
    using canonical_loads [OF wf_eventD(1)] wf_eventD(2) assms by metis
  moreover have "e\<lparr>ev_payload := ev_payload e, ev_dedupe_key := (case ev_dedupe_key e of
       None \<Rightarrow> default_dedupe_key (ev_type e) (ev_task_id e) (ev_attempt e) (ev_dispatch_id e) (ev_result_id e)
     | Some k \<Rightarrow> Some k)\<rparr> = e"
    using assms by (cases e) (auto simp: wf_event_def split: option.splits)
  ultimately show ?thesis
    using wf_eventD(3) [OF assms] by (simp add: post_init_def Let_def)
qed

text \<open>What an event carries besides the fields \<open>post_init\<close> computes is kept.\<close>

lemma post_init_fields:
  assumes "post_init e = Inr e'"
  shows "ev_type e' = ev_type e" "ev_task_id e' = ev_task_id e" "ev_attempt e' = ev_attempt e"
    "ev_dispatch_id e' = ev_dispatch_id e" "ev_worker_id e' = ev_worker_id e"
    "ev_result_id e' = ev_result_id e" "ev_event_id e' = ev_event_id e" "ev_ts_utc e' = ev_ts_utc e"
    "ev_seq e' = ev_seq e" "ev_prev_hash e' = ev_prev_hash e" "ev_hash e' = ev_hash e"
    "ev_dedupe_key e' = (case ev_dedupe_key e of
        None \<Rightarrow> default_dedupe_key (ev_type e) (ev_task_id e) (ev_attempt e) (ev_dispatch_id e) (ev_result_id e)
      | Some k \<Rightarrow> Some k)"
    "validate e' = None"
  using assms by (auto simp: post_init_def Let_def split: sum.splits json.splits option.splits)

lemma post_init_schema: "post_init e = Inr e' \<Longrightarrow> ev_schema_v e' = ev_schema_v e"
  by (auto simp: post_init_def Let_def split: sum.splits json.splits option.splits)

text \<open>Validation reads neither the sequence number nor the hashes.\<close>

lemma validate_unsealed [simp]:
  "validate (e\<lparr>ev_seq := s\<rparr>) = validate e" "validate (e\<lparr>ev_prev_hash := p\<rparr>) = validate e"
  "validate (e\<lparr>ev_hash := h\<rparr>) = validate e"
proof -
  have pay: "validate_payload (e\<lparr>ev_seq := s\<rparr>) = validate_payload e"
    "validate_payload (e\<lparr>ev_prev_hash := p\<rparr>) = validate_payload e"
    "validate_payload (e\<lparr>ev_hash := h\<rparr>) = validate_payload e"
    by (cases "ev_type e"; simp add: validate_payload_def validate_created_def)+
  have fields: "has_field (e\<lparr>ev_seq := s\<rparr>) = has_field e" "has_field (e\<lparr>ev_prev_hash := p\<rparr>) = has_field e"
    "has_field (e\<lparr>ev_hash := h\<rparr>) = has_field e"
    by (auto simp: has_field_def fun_eq_iff)
  show "validate (e\<lparr>ev_seq := s\<rparr>) = validate e" "validate (e\<lparr>ev_prev_hash := p\<rparr>) = validate e"
    "validate (e\<lparr>ev_hash := h\<rparr>) = validate e"
    by (simp_all add: validate_def pay fields)
qed

lemma wf_event_unsealed [simp]:
  "wf_event (e\<lparr>ev_seq := s\<rparr>) = wf_event e" "wf_event (e\<lparr>ev_prev_hash := p\<rparr>) = wf_event e"
  "wf_event (e\<lparr>ev_hash := h\<rparr>) = wf_event e"
  by (simp_all add: wf_event_def)

definition seal :: "(string \<Rightarrow> string) \<Rightarrow> event \<Rightarrow> int \<Rightarrow> string \<Rightarrow> event" where
  "seal H e seq prev =
     (let s = e\<lparr>ev_seq := Some seq, ev_prev_hash := Some prev, ev_hash := None\<rparr>
      in s\<lparr>ev_hash := Some (chain_hash H s None)\<rparr>)"

lemma sealed_wf: "wf_event e \<Longrightarrow> sealed H e seq prev = Inr (seal H e seq prev)"
  by (simp add: sealed_def seal_def post_init_id Let_def)

lemma seal_fields [simp]:
  "ev_type (seal H e q p) = ev_type e" "ev_task_id (seal H e q p) = ev_task_id e"
  "ev_attempt (seal H e q p) = ev_attempt e" "ev_dispatch_id (seal H e q p) = ev_dispatch_id e"
  "ev_worker_id (seal H e q p) = ev_worker_id e" "ev_result_id (seal H e q p) = ev_result_id e"
  "ev_payload (seal H e q p) = ev_payload e" "ev_event_id (seal H e q p) = ev_event_id e"
  "ev_ts_utc (seal H e q p) = ev_ts_utc e" "ev_dedupe_key (seal H e q p) = ev_dedupe_key e"
  "ev_schema_v (seal H e q p) = ev_schema_v e" "ev_seq (seal H e q p) = Some q"
  "ev_prev_hash (seal H e q p) = Some p" "wf_event (seal H e q p) = wf_event e"
  by (simp_all add: seal_def Let_def)

lemma hash_material_ev_hash [simp]: "hash_material (e\<lparr>ev_hash := h\<rparr>) t = hash_material e t"
  by (cases t) (simp_all add: hash_material_def payload_json_def)

lemma seal_hash: "ev_hash (seal H e q p) = Some (chain_hash H (seal H e q p) None)"
  by (simp add: seal_def Let_def chain_hash_def)

lemma content_seal [simp]: "content (seal H e q p) = content e"
  by (simp add: content_def payload_json_def)

text \<open>The hashed text determines every column it covers.\<close>

lemma opt_str_inject [simp]: "opt_str x = opt_str y \<longleftrightarrow> x = y"
  by (cases x; cases y) auto

lemma opt_int_inject [simp]: "opt_int x = opt_int y \<longleftrightarrow> x = y"
  by (cases x; cases y) auto

lemma canonical_opt [simp]: "canonical (opt_str x) = opt_str x" "canonical (opt_int i) = opt_int i"
  by (cases x; simp) (cases i; simp)

lemma wf_opt [simp]: "wf_json (opt_str x)" "wf_json (opt_int i)"
  by (cases x; simp) (cases i; simp)

lemma dumps_inject: "wf_json v \<Longrightarrow> wf_json w \<Longrightarrow> dumps v = dumps w \<longleftrightarrow> v = w"
  by (metis loads_dumps sum.inject(2))

lemma hash_material_inject:
  "hash_material e (Some s) = hash_material f (Some t) \<longleftrightarrow>
     ev_schema_v e = ev_schema_v f \<and> ev_seq e = ev_seq f \<and> ev_event_id e = ev_event_id f
     \<and> ev_type e = ev_type f \<and> ev_task_id e = ev_task_id f \<and> ev_attempt e = ev_attempt f
     \<and> ev_dispatch_id e = ev_dispatch_id f \<and> ev_worker_id e = ev_worker_id f
     \<and> ev_result_id e = ev_result_id f \<and> ev_dedupe_key e = ev_dedupe_key f
     \<and> ev_ts_utc e = ev_ts_utc f \<and> s = t \<and> ev_prev_hash e = ev_prev_hash f"
  unfolding hash_material_def by (subst dumps_inject) auto

lemma content_eq_iff:
  assumes "wf_event e" "wf_event f"
  shows "content e = content f \<longleftrightarrow>
     ev_type e = ev_type f \<and> ev_task_id e = ev_task_id f \<and> ev_attempt e = ev_attempt f
     \<and> ev_dispatch_id e = ev_dispatch_id f \<and> ev_worker_id e = ev_worker_id f
     \<and> ev_result_id e = ev_result_id f \<and> ev_payload e = ev_payload f"
proof -
  have "payload_json e = payload_json f \<longleftrightarrow> JObj (ev_payload e) = JObj (ev_payload f)"
    unfolding payload_json_def wf_eventD(2) [OF assms(1)] wf_eventD(2) [OF assms(2)]
    by (rule dumps_inject) (use assms in \<open>blast intro: wf_eventD(1)\<close>)+
  then show ?thesis by (auto simp: content_def)
qed

subsection \<open>What validation guarantees\<close>

lemma get_has_key: "has_key p k \<Longrightarrow> \<exists>v. map_of p k = Some v \<and> get p k = v"
  by (auto simp: has_key_def get_def)

lemma validate_required:
  assumes "validate e = None"
  shows "list_all (has_field e) (fst (REQUIRED (ev_type e)))"
    and "list_all (has_key (ev_payload e)) (snd (REQUIRED (ev_type e)))"
  using assms by (auto simp: validate_def check_simps)

lemma validate_payload_None: "validate e = None \<Longrightarrow> validate_payload e = None"
  by (simp add: validate_def check_simps)

lemma validate_task_id:
  "validate e = None \<Longrightarrow> ev_type e \<notin> set SYSTEM_EVENTS \<Longrightarrow> \<exists>t. ev_task_id e = Some t \<and> valid_id t"
proof -
  assume v: "validate e = None" and "ev_type e \<notin> set SYSTEM_EVENTS"
  then have "ev_task_id e \<noteq> None"
    using validate_required(1) [OF v]
    by (cases "ev_type e") (auto simp: has_field_def SYSTEM_EVENTS_def)
  moreover from v have "check_opt_id ''task_id'' (ev_task_id e) = None"
    by (simp add: validate_def check_simps)
  ultimately show ?thesis by (auto simp: check_opt_id_def check_id_def)
qed

lemma validate_system_task_id:
  "validate e = None \<Longrightarrow> ev_type e \<in> set SYSTEM_EVENTS \<Longrightarrow> ev_task_id e = None"
  by (auto simp: validate_def check_simps has_field_def split: if_splits)

lemma validate_attempt:
  "validate e = None \<Longrightarrow> ev_attempt e = Some a \<Longrightarrow> 1 \<le> a \<and> a \<le> MAX_ATTEMPTS_LIMIT"
  by (auto simp: validate_def check_simps check_positive_int_def)

lemma json_idE: "json_id v \<Longrightarrow> \<exists>s. v = JStr s \<and> valid_id s"
  by (cases v) auto

lemma json_pos_intE:
  "json_pos_int v u \<Longrightarrow> \<exists>i. v = JInt i \<and> 1 \<le> i \<and> (case u of None \<Rightarrow> True | Some b \<Rightarrow> i \<le> b)"
  by (cases v) auto

text \<open>The payload of a valid creation event has the shape the state machine reads.\<close>

lemma validate_created_shape:
  assumes "validate e = None" "ev_type e = TASK_CREATED"
  shows "\<exists>ad pr ec mx ttl. get (ev_payload e) ''adapter'' = JStr ad \<and> valid_id ad
      \<and> get (ev_payload e) ''params'' = JObj pr
      \<and> get (ev_payload e) ''effect_class'' = JStr ec \<and> ec \<in> set EFFECT_CLASSES
      \<and> get (ev_payload e) ''max_attempts'' = JInt mx \<and> 1 \<le> mx \<and> mx \<le> MAX_ATTEMPTS_LIMIT
      \<and> get (ev_payload e) ''lease_ttl_s'' = JInt ttl \<and> 1 \<le> ttl"
    and "get (ev_payload e) ''timeout_s'' = JNull \<or> (\<exists>i. get (ev_payload e) ''timeout_s'' = JInt i \<and> 1 \<le> i)"
    and "get (ev_payload e) ''depends_on'' = JNull \<or>
      (\<exists>d. get (ev_payload e) ''depends_on'' = JStr d \<and> valid_id d \<and> ev_task_id e \<noteq> Some d)"
proof -
  have "validate_created e = None"
    using validate_payload_None [OF assms(1)] assms(2)
    by (simp add: validate_payload_def check_simps Let_def)
  then have c: "json_id (get (ev_payload e) ''adapter'')" "is_obj (get (ev_payload e) ''params'')"
    "\<exists>s \<in> set EFFECT_CLASSES. get (ev_payload e) ''effect_class'' = JStr s"
    "json_pos_int (get (ev_payload e) ''max_attempts'') (Some MAX_ATTEMPTS_LIMIT)"
    "json_pos_int (get (ev_payload e) ''lease_ttl_s'') None"
    "get (ev_payload e) ''timeout_s'' \<noteq> JNull \<Longrightarrow> json_pos_int (get (ev_payload e) ''timeout_s'') None"
    "get (ev_payload e) ''depends_on'' \<noteq> JNull \<Longrightarrow> json_id (get (ev_payload e) ''depends_on'')"
    "get (ev_payload e) ''depends_on'' \<noteq> JNull \<Longrightarrow> Some (get (ev_payload e) ''depends_on'') \<noteq> map_option JStr (ev_task_id e)"
    by (auto simp: validate_created_def check_simps check_json_id_def check_positive_int_def Let_def)
  from c(2) obtain pr where "get (ev_payload e) ''params'' = JObj pr"
    by (cases "get (ev_payload e) ''params''") auto
  with json_idE [OF c(1)] json_pos_intE [OF c(4)] json_pos_intE [OF c(5)] c(3)
  show "\<exists>ad pr ec mx ttl. get (ev_payload e) ''adapter'' = JStr ad \<and> valid_id ad
      \<and> get (ev_payload e) ''params'' = JObj pr
      \<and> get (ev_payload e) ''effect_class'' = JStr ec \<and> ec \<in> set EFFECT_CLASSES
      \<and> get (ev_payload e) ''max_attempts'' = JInt mx \<and> 1 \<le> mx \<and> mx \<le> MAX_ATTEMPTS_LIMIT
      \<and> get (ev_payload e) ''lease_ttl_s'' = JInt ttl \<and> 1 \<le> ttl"
    by auto
  show "get (ev_payload e) ''timeout_s'' = JNull \<or> (\<exists>i. get (ev_payload e) ''timeout_s'' = JInt i \<and> 1 \<le> i)"
    using json_pos_intE [OF c(6)] by auto
  show "get (ev_payload e) ''depends_on'' = JNull \<or>
      (\<exists>d. get (ev_payload e) ''depends_on'' = JStr d \<and> valid_id d \<and> ev_task_id e \<noteq> Some d)"
    using json_idE [OF c(7)] c(8) by fastforce
qed

lemma validate_actor:
  assumes "validate e = None" "ev_type e \<in> set HUMAN_DECISIONS \<or> has_key (ev_payload e) ''actor''"
  shows "\<exists>a. get (ev_payload e) ''actor'' = JStr a \<and> valid_id a"
  using validate_payload_None [OF assms(1)] assms(2)
  by (auto simp: validate_payload_def check_simps check_json_id_def Let_def intro!: json_idE)

end
