(* ===== verification/State_Machine.thy ===== *)
theory State_Machine
  imports Events
begin

text \<open>
  The task state machine (courier\_core/state\_machine.py): the per-task fold from events to
  state. \<open>sm_apply\<close> is \<open>apply\<close>; every \<open>raise\<close> is a branch that returns \<open>Inl\<close>. The second
  half states and proves what the module promises: the well-formedness of the state, the
  fencing of attempts, exactly-once completion, and that an uncertain outcome of an effect
  that is not idempotent is retried only after a human decision.
\<close>

named_theorems transition_defs \<open>the definitions of the transition function\<close>

section \<open>State\<close>

datatype task_status =
    QUEUED | CLAIMED | RUNNING | VERIFYING | ACCEPTED | RETRY_PENDING | COMPLETE | FAILED
  | BLOCKED | CANCELLED

fun status_value :: "task_status \<Rightarrow> string" where
  "status_value QUEUED = ''QUEUED''"
| "status_value CLAIMED = ''CLAIMED''"
| "status_value RUNNING = ''RUNNING''"
| "status_value VERIFYING = ''VERIFYING''"
| "status_value ACCEPTED = ''ACCEPTED''"
| "status_value RETRY_PENDING = ''RETRY_PENDING''"
| "status_value COMPLETE = ''COMPLETE''"
| "status_value FAILED = ''FAILED''"
| "status_value BLOCKED = ''BLOCKED''"
| "status_value CANCELLED = ''CANCELLED''"

definition all_statuses :: "task_status list" where
  "all_statuses = [QUEUED, CLAIMED, RUNNING, VERIFYING, ACCEPTED, RETRY_PENDING, COMPLETE, FAILED,
     BLOCKED, CANCELLED]"

definition status_of_value :: "string \<Rightarrow> task_status option" where
  "status_of_value s = find (\<lambda>t. status_value t = s) all_statuses"

definition TERMINAL :: "task_status set" where
  "TERMINAL = {COMPLETE, FAILED, CANCELLED}"

definition ACTIVE_LEASE :: "task_status set" where
  "ACTIVE_LEASE = {CLAIMED, RUNNING}"

definition RESOLVED_VERIFIED :: string where "RESOLVED_VERIFIED = ''verified''"
definition RESOLVED_EFFECT_CONFIRMED :: string where "RESOLVED_EFFECT_CONFIRMED = ''effect_confirmed''"
definition RESOLVED_CANCELLED_EFFECT_UNKNOWN :: string where
  "RESOLVED_CANCELLED_EFFECT_UNKNOWN = ''cancelled_effect_unknown''"

datatype decision = RETRY | FAIL | BLOCK | CANCEL

record task_state =
  t_task_id :: string
  t_status :: task_status
  t_adapter :: string
  t_params :: json
  t_effect_class :: string
  t_max_attempts :: int
  t_lease_ttl_s :: int
  t_timeout_s :: "int option"
  t_attempt :: int
  t_dispatch_id :: "string option"
  t_worker_id :: "string option"
  t_started :: bool
  t_pending_result_id :: "string option"
  t_accepted_result_id :: "string option"
  t_cancel_requested :: bool
  t_failure_kind :: "string option"
  t_retryable :: "bool option"
  t_last_reason :: "string option"
  t_late_results :: int
  t_resolution :: "string option"
  t_decided_by :: "string option"
  t_depends_on :: "string option"
  t_input :: "json option"
  t_created_seq :: "int option"
  t_updated_seq :: "int option"

text \<open>
  Payload access. \<open>p[k]\<close> on a missing key is a \<open>KeyError\<close>; a value of another type than the
  field's, which validation excludes, has no place in the typed state and is a \<open>TypeError\<close>.
\<close>

definition str_at :: "payload \<Rightarrow> string \<Rightarrow> string result" where
  "str_at p k = (case map_of p k of
     None \<Rightarrow> Inl (KeyError k) | Some (JStr s) \<Rightarrow> Inr s | Some _ \<Rightarrow> Inl (TypeError k))"

definition int_at :: "payload \<Rightarrow> string \<Rightarrow> int result" where
  "int_at p k = (case map_of p k of
     None \<Rightarrow> Inl (KeyError k) | Some (JInt i) \<Rightarrow> Inr i | Some _ \<Rightarrow> Inl (TypeError k))"

definition bool_at :: "payload \<Rightarrow> string \<Rightarrow> bool result" where
  "bool_at p k = (case map_of p k of
     None \<Rightarrow> Inl (KeyError k) | Some (JBool b) \<Rightarrow> Inr b | Some _ \<Rightarrow> Inl (TypeError k))"

text \<open>\<open>p.get(k)\<close> for an optional field.\<close>

definition opt_str_at :: "payload \<Rightarrow> string \<Rightarrow> string option result" where
  "opt_str_at p k = (case get p k of
     JNull \<Rightarrow> Inr None | JStr s \<Rightarrow> Inr (Some s) | _ \<Rightarrow> Inl (TypeError k))"

definition opt_int_at :: "payload \<Rightarrow> string \<Rightarrow> int option result" where
  "opt_int_at p k = (case get p k of
     JNull \<Rightarrow> Inr None | JInt i \<Rightarrow> Inr (Some i) | _ \<Rightarrow> Inl (TypeError k))"

text \<open>\<open>str(p["reason"])\<close>\<close>

definition reason_text :: "payload \<Rightarrow> string result" where
  "reason_text p = (case map_of p ''reason'' of None \<Rightarrow> Inl (KeyError ''reason'') | Some v \<Rightarrow> Inr (py_str v))"

section \<open>Transitions\<close>

definition fail :: "string \<Rightarrow> 'a result" where
  "fail why = Inl (TransitionError why)"

definition fence :: "task_state \<Rightarrow> event \<Rightarrow> bool \<Rightarrow> error option" where
  "fence s e check_worker = first_error
     [require (ev_attempt e = Some (t_attempt s)) (TransitionError ''not the current attempt''),
      require (ev_dispatch_id e = t_dispatch_id s) (TransitionError ''not the current dispatch''),
      guarded (check_worker \<and> ev_worker_id e \<noteq> None)
        (require (ev_worker_id e = t_worker_id s) (TransitionError ''worker does not hold the lease''))]"

definition may_auto_retry :: "string \<Rightarrow> bool" where
  "may_auto_retry effect_class \<longleftrightarrow> effect_class = RETRY_SAFE_EFFECT_CLASS"

definition uncertain_rejection :: "task_state \<Rightarrow> bool" where
  "uncertain_rejection s =
     (let reason_lower = lower (case t_last_reason s of None \<Rightarrow> [] | Some r \<Rightarrow> r) in
      t_failure_kind s = Some ''rejected'' \<and>
      (str_contains reason_lower ''timeout'' \<or> str_contains reason_lower ''lease-lost''
       \<or> str_contains reason_lower ''lease_lost''))"

definition decide_after_failure :: "task_state \<Rightarrow> decision result" where
  "decide_after_failure s =
     (if t_status s \<noteq> RETRY_PENDING then Inl (ValueError ''task is not RETRY_PENDING'')
      else if (t_failure_kind s = Some ''lease_lost'' \<or> uncertain_rejection s) \<and> t_started s
              \<and> \<not> may_auto_retry (t_effect_class s) then Inr BLOCK
      else if t_cancel_requested s then Inr CANCEL
      else if t_failure_kind s = Some ''rejected'' \<and> t_retryable s \<noteq> Some True then Inr FAIL
      else if t_max_attempts s \<le> t_attempt s then Inr FAIL
      else Inr RETRY)"

definition on_late_result :: "task_state \<Rightarrow> event \<Rightarrow> task_state result" where
  "on_late_result s e =
     (if t_status s \<in> ACTIVE_LEASE \<and> ev_dispatch_id e = t_dispatch_id s
      then fail ''result belongs to the active dispatch; it is not late''
      else Inr (s\<lparr>t_late_results := t_late_results s + 1\<rparr>))"

definition human_decision :: "task_state \<Rightarrow> event \<Rightarrow> task_state result" where
  "human_decision s e =
     (if t_status s \<noteq> BLOCKED then fail ''only a blocked task takes this human decision''
      else if ev_attempt e \<noteq> Some (t_attempt s) then fail ''decision names another attempt''
      else bind_result (str_at (ev_payload e) ''actor'') (\<lambda>actor.
        bind_result (reason_text (ev_payload e)) (\<lambda>reason.
          if ev_type e = EFFECT_CONFIRMED then
            Inr (s\<lparr>t_status := COMPLETE, t_resolution := Some RESOLVED_EFFECT_CONFIRMED,
                   t_decided_by := Some actor, t_last_reason := Some reason\<rparr>)
          else if t_cancel_requested s then fail ''cancellation was requested; cancel or confirm the effect instead''
          else if MAX_ATTEMPTS_LIMIT \<le> t_attempt s then fail ''attempt limit reached''
          else Inr (s\<lparr>t_status := QUEUED, t_max_attempts := max (t_max_attempts s) (t_attempt s + 1),
                 t_dispatch_id := None, t_worker_id := None, t_started := False,
                 t_failure_kind := None, t_retryable := None, t_last_reason := Some reason,
                 t_decided_by := Some actor\<rparr>))))"

text \<open>The input check of a claim: \<open>bound\<close> is \<open>payload.get("input")\<close>.\<close>

definition claim_input :: "task_state \<Rightarrow> json \<Rightarrow> json option result" where
  "claim_input s bound =
     (case t_depends_on s of
        None \<Rightarrow> (if bound \<noteq> JNull then fail ''only a task with depends_on is given an input'' else Inr None)
      | Some d \<Rightarrow>
          (case bound of
             JNull \<Rightarrow> fail ''a dependent task is claimed only with the verified result of its dependency''
           | JObj kvs \<Rightarrow>
               (if get kvs ''task_id'' \<noteq> JStr d
                then fail ''a dependent task is claimed only with the verified result of its dependency''
                else Inr (Some bound))
           | _ \<Rightarrow> Inl (TypeError ''input'')))"

definition on_claimed :: "task_state \<Rightarrow> event \<Rightarrow> task_state result" where
  "on_claimed s e =
     (if t_status s \<noteq> QUEUED then fail ''only a queued task can be claimed''
      else if t_cancel_requested s then fail ''cancellation was requested''
      else if ev_attempt e \<noteq> Some (t_attempt s + 1) then fail ''attempts are claimed in order''
      else if t_max_attempts s < t_attempt s + 1 then fail ''max_attempts exhausted''
      else bind_result (claim_input s (get (ev_payload e) ''input'')) (\<lambda>bound.
        Inr (s\<lparr>t_status := CLAIMED, t_attempt := t_attempt s + 1, t_dispatch_id := ev_dispatch_id e,
               t_worker_id := ev_worker_id e, t_started := False, t_pending_result_id := None,
               t_failure_kind := None, t_retryable := None, t_last_reason := None, t_input := bound\<rparr>)))"

definition on_started :: "task_state \<Rightarrow> event \<Rightarrow> task_state result" where
  "on_started s e =
     (if t_status s \<noteq> CLAIMED then fail ''only a claimed attempt can start''
      else case fence s e True of Some err \<Rightarrow> Inl err
        | None \<Rightarrow> Inr (s\<lparr>t_status := RUNNING, t_started := True\<rparr>))"

definition on_progress :: "task_state \<Rightarrow> event \<Rightarrow> task_state result" where
  "on_progress s e =
     (if t_status s \<noteq> RUNNING then fail ''progress requires a running attempt''
      else case fence s e True of Some err \<Rightarrow> Inl err | None \<Rightarrow> Inr s)"

definition on_result_ready :: "task_state \<Rightarrow> event \<Rightarrow> task_state result" where
  "on_result_ready s e =
     (if t_status s \<noteq> RUNNING then fail ''a result requires a running attempt''
      else case fence s e True of Some err \<Rightarrow> Inl err
        | None \<Rightarrow> Inr (s\<lparr>t_status := VERIFYING, t_pending_result_id := ev_result_id e\<rparr>))"

definition on_verdict :: "task_state \<Rightarrow> event \<Rightarrow> task_state result" where
  "on_verdict s e =
     (if t_status s \<noteq> VERIFYING then fail ''no result is being verified''
      else case fence s e False of Some err \<Rightarrow> Inl err
        | None \<Rightarrow>
           (if ev_result_id e \<noteq> t_pending_result_id s then fail ''verdict is for another result''
            else if ev_type e = RESULT_ACCEPTED then
              Inr (s\<lparr>t_status := ACCEPTED, t_accepted_result_id := ev_result_id e,
                     t_pending_result_id := None, t_resolution := Some RESOLVED_VERIFIED\<rparr>)
            else bind_result (bool_at (ev_payload e) ''retryable'') (\<lambda>b.
              bind_result (reason_text (ev_payload e)) (\<lambda>reason.
                Inr (s\<lparr>t_status := RETRY_PENDING, t_pending_result_id := None,
                       t_failure_kind := Some ''rejected'', t_retryable := Some b,
                       t_last_reason := Some reason\<rparr>)))))"

definition on_complete :: "task_state \<Rightarrow> event \<Rightarrow> task_state result" where
  "on_complete s e =
     (if t_status s \<noteq> ACCEPTED then fail ''only an accepted result completes a task''
      else case fence s e False of Some err \<Rightarrow> Inl err
        | None \<Rightarrow> (if ev_result_id e \<noteq> t_accepted_result_id s
                   then fail ''completion names a result that was not accepted''
                   else Inr (s\<lparr>t_status := COMPLETE\<rparr>)))"

definition on_lease_expired :: "task_state \<Rightarrow> event \<Rightarrow> task_state result" where
  "on_lease_expired s e =
     (if t_status s \<notin> ACTIVE_LEASE then fail ''no active lease''
      else case fence s e True of Some err \<Rightarrow> Inl err
        | None \<Rightarrow> bind_result (reason_text (ev_payload e)) (\<lambda>reason.
            Inr (s\<lparr>t_status := RETRY_PENDING, t_failure_kind := Some ''lease_lost'', t_retryable := None,
                   t_last_reason := Some (''lease_expired:'' @ reason)\<rparr>)))"

definition on_retry_scheduled :: "task_state \<Rightarrow> event \<Rightarrow> task_state result" where
  "on_retry_scheduled s e =
     (if t_status s \<noteq> RETRY_PENDING then fail ''nothing to retry''
      else if ev_attempt e \<noteq> Some (t_attempt s) then fail ''retry must name the failed attempt''
      else bind_result (decide_after_failure s) (\<lambda>d.
        if d \<noteq> RETRY then fail ''retry forbidden''
        else Inr (s\<lparr>t_status := QUEUED, t_dispatch_id := None, t_worker_id := None, t_started := False\<rparr>)))"

definition must_block :: "task_state \<Rightarrow> bool" where
  "must_block s \<longleftrightarrow> t_status s = RETRY_PENDING \<and> decide_after_failure s = Inr BLOCK"

definition on_failed :: "task_state \<Rightarrow> event \<Rightarrow> task_state result" where
  "on_failed s e =
     (if t_status s \<notin> {RETRY_PENDING, QUEUED} then fail ''only a queued or failed attempt can fail the task''
      else if must_block s then fail ''an uncertain non-idempotent outcome must be BLOCKED, not FAILED''
      else bind_result (reason_text (ev_payload e)) (\<lambda>reason.
        Inr (s\<lparr>t_status := FAILED, t_last_reason := Some reason\<rparr>)))"

definition on_blocked :: "task_state \<Rightarrow> event \<Rightarrow> task_state result" where
  "on_blocked s e =
     (if t_status s \<notin> {RETRY_PENDING, QUEUED} then fail ''only a queued or failed attempt can be blocked''
      else bind_result (reason_text (ev_payload e)) (\<lambda>reason.
        Inr (s\<lparr>t_status := BLOCKED, t_last_reason := Some reason\<rparr>)))"

definition on_cancel_requested :: "task_state \<Rightarrow> event \<Rightarrow> task_state result" where
  "on_cancel_requested s e =
     (if t_cancel_requested s then fail ''cancellation already requested''
      else Inr (s\<lparr>t_cancel_requested := True\<rparr>))"

definition on_cancelled :: "task_state \<Rightarrow> event \<Rightarrow> task_state result" where
  "on_cancelled s e =
     (if \<not> t_cancel_requested s then fail ''cancellation was not requested''
      else if t_status s \<in> {VERIFYING, ACCEPTED} then fail ''a result is already being verified or accepted''
      else if must_block s then fail ''an uncertain non-idempotent outcome must be BLOCKED before it can be cancelled''
      else if t_status s = BLOCKED then
        bind_result (opt_str_at (ev_payload e) ''actor'') (\<lambda>actor.
          if actor = None then fail ''cancelling a blocked task is a human decision and needs an actor''
          else Inr (s\<lparr>t_status := CANCELLED, t_resolution := Some RESOLVED_CANCELLED_EFFECT_UNKNOWN,
                      t_decided_by := actor\<rparr>))
      else if has_key (ev_payload e) ''actor'' then
        bind_result (opt_str_at (ev_payload e) ''actor'') (\<lambda>actor.
          Inr (s\<lparr>t_status := CANCELLED, t_decided_by := actor\<rparr>))
      else Inr (s\<lparr>t_status := CANCELLED\<rparr>))"

definition BLOCKED_EVENTS :: "event_type set" where
  "BLOCKED_EVENTS = {TASK_CANCEL_REQUESTED, TASK_CANCELLED, EFFECT_CONFIRMED, RETRY_AUTHORIZED}"

definition transition :: "task_state \<Rightarrow> event \<Rightarrow> task_state result" where
  "transition s e =
     (if ev_type e = LATE_RESULT_DISCARDED then on_late_result s e
      else if t_status s \<in> TERMINAL then fail ''task is terminal''
      else if t_status s = BLOCKED \<and> ev_type e \<notin> BLOCKED_EVENTS then fail ''a blocked task needs a human decision''
      else (case ev_type e of
          EFFECT_CONFIRMED \<Rightarrow> human_decision s e
        | RETRY_AUTHORIZED \<Rightarrow> human_decision s e
        | TASK_CLAIMED \<Rightarrow> on_claimed s e
        | TASK_STARTED \<Rightarrow> on_started s e
        | TASK_PROGRESS \<Rightarrow> on_progress s e
        | RESULT_READY \<Rightarrow> on_result_ready s e
        | RESULT_ACCEPTED \<Rightarrow> on_verdict s e
        | RESULT_REJECTED \<Rightarrow> on_verdict s e
        | TASK_COMPLETE \<Rightarrow> on_complete s e
        | LEASE_EXPIRED \<Rightarrow> on_lease_expired s e
        | TASK_RETRY_SCHEDULED \<Rightarrow> on_retry_scheduled s e
        | TASK_FAILED \<Rightarrow> on_failed s e
        | TASK_BLOCKED \<Rightarrow> on_blocked s e
        | TASK_CANCEL_REQUESTED \<Rightarrow> on_cancel_requested s e
        | TASK_CANCELLED \<Rightarrow> on_cancelled s e
        | _ \<Rightarrow> fail ''unhandled event type''))"

definition created_state :: "event \<Rightarrow> task_state result" where
  "created_state e = (let p = ev_payload e in
     bind_result (str_at p ''adapter'') (\<lambda>ad.
     bind_result (case map_of p ''params'' of None \<Rightarrow> Inl (KeyError ''params'') | Some v \<Rightarrow> Inr v) (\<lambda>pr.
     bind_result (str_at p ''effect_class'') (\<lambda>ec.
     bind_result (int_at p ''max_attempts'') (\<lambda>mx.
     bind_result (int_at p ''lease_ttl_s'') (\<lambda>ttl.
     bind_result (opt_int_at p ''timeout_s'') (\<lambda>tmo.
     bind_result (opt_str_at p ''depends_on'') (\<lambda>dep.
       Inr \<lparr>t_task_id = show_opt (ev_task_id e), t_status = QUEUED, t_adapter = ad, t_params = pr,
            t_effect_class = ec, t_max_attempts = mx, t_lease_ttl_s = ttl, t_timeout_s = tmo,
            t_attempt = 0, t_dispatch_id = None, t_worker_id = None, t_started = False,
            t_pending_result_id = None, t_accepted_result_id = None, t_cancel_requested = False,
            t_failure_kind = None, t_retryable = None, t_last_reason = None, t_late_results = 0,
            t_resolution = None, t_decided_by = None, t_depends_on = dep, t_input = None,
            t_created_seq = ev_seq e, t_updated_seq = ev_seq e\<rparr>))))))))"

text \<open>\<open>apply(state, event)\<close>\<close>

definition sm_apply :: "task_state option \<Rightarrow> event \<Rightarrow> task_state option result" where
  "sm_apply st e =
     (if ev_type e \<in> set SYSTEM_EVENTS then Inr st
      else if ev_type e = TASK_CREATED then
        (case st of Some _ \<Rightarrow> fail ''task already exists''
         | None \<Rightarrow> bind_result (created_state e) (\<lambda>s. Inr (Some s)))
      else (case st of
          None \<Rightarrow> fail ''unknown task''
        | Some s \<Rightarrow>
            (if ev_task_id e \<noteq> Some (t_task_id s) then fail ''event belongs to another task''
             else bind_result (transition s e) (\<lambda>n. Inr (Some (n\<lparr>t_updated_seq := ev_seq e\<rparr>))))))"


section \<open>Histories\<close>

text \<open>
  A history is a sequence of valid events of one task that the state machine accepts, with
  the state it leads to. The journal stores such a sequence for every task.
\<close>

inductive history :: "event list \<Rightarrow> task_state \<Rightarrow> bool" where
  created: "validate e = None \<Longrightarrow> ev_type e = TASK_CREATED \<Longrightarrow> sm_apply None e = Inr (Some s) \<Longrightarrow>
    history [e] s"
| step: "history es s \<Longrightarrow> validate e = None \<Longrightarrow> ev_type e \<notin> set SYSTEM_EVENTS \<Longrightarrow>
    sm_apply (Some s) e = Inr (Some s') \<Longrightarrow> history (es @ [e]) s'"

inductive_cases history_NilE: "history [] s"
inductive_cases history_snocE: "history (es @ [e]) s"

section \<open>Well-formed task states\<close>

definition leased :: "task_state \<Rightarrow> bool" where
  "leased s \<longleftrightarrow> 1 \<le> t_attempt s \<and> t_dispatch_id s \<noteq> None \<and> t_worker_id s \<noteq> None"

definition unresolved :: "task_state \<Rightarrow> bool" where
  "unresolved s \<longleftrightarrow> t_accepted_result_id s = None \<and> t_resolution s = None"

definition failure_recorded :: "task_state \<Rightarrow> bool" where
  "failure_recorded s \<longleftrightarrow>
     t_failure_kind s = Some ''lease_lost'' \<and> t_retryable s = None
     \<or> t_failure_kind s = Some ''rejected'' \<and> t_started s \<and> t_retryable s \<noteq> None"

text \<open>What each status says about the other fields.\<close>

definition status_ok :: "task_state \<Rightarrow> bool" where
  "status_ok s = (case t_status s of
     QUEUED \<Rightarrow> \<not> t_started s \<and> t_dispatch_id s = None \<and> t_worker_id s = None
       \<and> t_pending_result_id s = None \<and> unresolved s
   | CLAIMED \<Rightarrow> leased s \<and> \<not> t_started s \<and> t_pending_result_id s = None \<and> unresolved s
   | RUNNING \<Rightarrow> leased s \<and> t_started s \<and> t_pending_result_id s = None \<and> unresolved s
   | VERIFYING \<Rightarrow> leased s \<and> t_started s \<and> t_pending_result_id s \<noteq> None \<and> unresolved s
   | ACCEPTED \<Rightarrow> leased s \<and> t_started s \<and> t_pending_result_id s = None
       \<and> t_accepted_result_id s \<noteq> None \<and> t_resolution s = Some RESOLVED_VERIFIED
   | RETRY_PENDING \<Rightarrow> leased s \<and> t_pending_result_id s = None \<and> unresolved s \<and> failure_recorded s
   | COMPLETE \<Rightarrow> t_pending_result_id s = None
       \<and> (t_accepted_result_id s \<noteq> None \<and> t_resolution s = Some RESOLVED_VERIFIED
          \<or> t_accepted_result_id s = None \<and> t_resolution s = Some RESOLVED_EFFECT_CONFIRMED \<and> t_decided_by s \<noteq> None)
   | FAILED \<Rightarrow> t_pending_result_id s = None \<and> unresolved s
   | BLOCKED \<Rightarrow> t_pending_result_id s = None \<and> unresolved s
   | CANCELLED \<Rightarrow> t_pending_result_id s = None \<and> t_accepted_result_id s = None \<and> t_cancel_requested s
       \<and> t_resolution s \<in> {None, Some RESOLVED_CANCELLED_EFFECT_UNKNOWN})"

definition bounds_ok :: "task_state \<Rightarrow> bool" where
  "bounds_ok s \<longleftrightarrow>
     0 \<le> t_attempt s \<and> t_attempt s \<le> t_max_attempts s \<and> 1 \<le> t_max_attempts s
     \<and> t_max_attempts s \<le> MAX_ATTEMPTS_LIMIT
     \<and> t_effect_class s \<in> set EFFECT_CLASSES \<and> 1 \<le> t_lease_ttl_s s \<and> 0 \<le> t_late_results s"

definition wf_task :: "task_state \<Rightarrow> bool" where
  "wf_task s \<longleftrightarrow> bounds_ok s \<and> status_ok s \<and> (t_input s \<noteq> None \<longrightarrow> t_depends_on s \<noteq> None)"

lemmas wf_task_defs = wf_task_def bounds_ok_def status_ok_def leased_def unresolved_def

lemmas resolution_defs = RESOLVED_VERIFIED_def RESOLVED_EFFECT_CONFIRMED_def RESOLVED_CANCELLED_EFFECT_UNKNOWN_def

lemma fence_None_iff:
  "fence s e w = None \<longleftrightarrow> ev_attempt e = Some (t_attempt s) \<and> ev_dispatch_id e = t_dispatch_id s
     \<and> (w \<longrightarrow> ev_worker_id e = None \<or> ev_worker_id e = t_worker_id s)"
  by (auto simp: fence_def check_simps)

text \<open>Inversion: an accepted transition, by the type of its event.\<close>

lemma on_claimedD:
  "on_claimed s e = Inr s' \<Longrightarrow>
     t_status s = QUEUED \<and> \<not> t_cancel_requested s \<and> ev_attempt e = Some (t_attempt s + 1)
     \<and> t_attempt s < t_max_attempts s
     \<and> (\<exists>bound. claim_input s (get (ev_payload e) ''input'') = Inr bound
         \<and> s' = s\<lparr>t_status := CLAIMED, t_attempt := t_attempt s + 1, t_dispatch_id := ev_dispatch_id e,
               t_worker_id := ev_worker_id e, t_started := False, t_pending_result_id := None,
               t_failure_kind := None, t_retryable := None, t_last_reason := None, t_input := bound\<rparr>)"
  by (auto simp: on_claimed_def fail_def bind_result_eq_Inr split: if_splits)

lemma on_startedD:
  "on_started s e = Inr s' \<Longrightarrow> t_status s = CLAIMED \<and> fence s e True = None
     \<and> s' = s\<lparr>t_status := RUNNING, t_started := True\<rparr>"
  by (auto simp: on_started_def fail_def split: if_splits option.splits)

lemma on_progressD:
  "on_progress s e = Inr s' \<Longrightarrow> t_status s = RUNNING \<and> fence s e True = None \<and> s' = s"
  by (auto simp: on_progress_def fail_def split: if_splits option.splits)

lemma on_result_readyD:
  "on_result_ready s e = Inr s' \<Longrightarrow> t_status s = RUNNING \<and> fence s e True = None
     \<and> s' = s\<lparr>t_status := VERIFYING, t_pending_result_id := ev_result_id e\<rparr>"
  by (auto simp: on_result_ready_def fail_def split: if_splits option.splits)

lemma on_verdictD:
  "on_verdict s e = Inr s' \<Longrightarrow>
     t_status s = VERIFYING \<and> fence s e False = None \<and> ev_result_id e = t_pending_result_id s
     \<and> (ev_type e = RESULT_ACCEPTED \<and> s' = s\<lparr>t_status := ACCEPTED, t_accepted_result_id := ev_result_id e,
            t_pending_result_id := None, t_resolution := Some RESOLVED_VERIFIED\<rparr>
        \<or> ev_type e \<noteq> RESULT_ACCEPTED \<and> (\<exists>b r. s' = s\<lparr>t_status := RETRY_PENDING, t_pending_result_id := None,
            t_failure_kind := Some ''rejected'', t_retryable := Some b, t_last_reason := Some r\<rparr>))"
  by (auto simp: on_verdict_def fail_def bind_result_eq_Inr split: if_splits option.splits)

lemma on_completeD:
  "on_complete s e = Inr s' \<Longrightarrow> t_status s = ACCEPTED \<and> fence s e False = None
     \<and> ev_result_id e = t_accepted_result_id s \<and> s' = s\<lparr>t_status := COMPLETE\<rparr>"
  by (auto simp: on_complete_def fail_def split: if_splits option.splits)

lemma on_lease_expiredD:
  "on_lease_expired s e = Inr s' \<Longrightarrow> t_status s \<in> ACTIVE_LEASE \<and> fence s e True = None
     \<and> (\<exists>r. s' = s\<lparr>t_status := RETRY_PENDING, t_failure_kind := Some ''lease_lost'', t_retryable := None,
               t_last_reason := Some (''lease_expired:'' @ r)\<rparr>)"
  by (auto simp: on_lease_expired_def fail_def bind_result_eq_Inr split: if_splits option.splits)

lemma on_retry_scheduledD:
  "on_retry_scheduled s e = Inr s' \<Longrightarrow> t_status s = RETRY_PENDING \<and> ev_attempt e = Some (t_attempt s)
     \<and> decide_after_failure s = Inr RETRY
     \<and> s' = s\<lparr>t_status := QUEUED, t_dispatch_id := None, t_worker_id := None, t_started := False\<rparr>"
  by (auto simp: on_retry_scheduled_def fail_def bind_result_eq_Inr split: if_splits)

lemma on_failedD:
  "on_failed s e = Inr s' \<Longrightarrow> t_status s \<in> {RETRY_PENDING, QUEUED} \<and> \<not> must_block s
     \<and> (\<exists>r. s' = s\<lparr>t_status := FAILED, t_last_reason := Some r\<rparr>)"
  by (auto simp: on_failed_def fail_def bind_result_eq_Inr split: if_splits)

lemma on_blockedD:
  "on_blocked s e = Inr s' \<Longrightarrow> t_status s \<in> {RETRY_PENDING, QUEUED}
     \<and> (\<exists>r. s' = s\<lparr>t_status := BLOCKED, t_last_reason := Some r\<rparr>)"
  by (auto simp: on_blocked_def fail_def bind_result_eq_Inr split: if_splits)

lemma on_cancel_requestedD:
  "on_cancel_requested s e = Inr s' \<Longrightarrow> \<not> t_cancel_requested s \<and> s' = s\<lparr>t_cancel_requested := True\<rparr>"
  by (auto simp: on_cancel_requested_def fail_def split: if_splits)

lemma cancelled_same_decider:
  "s\<lparr>t_status := x\<rparr> = s\<lparr>t_status := x, t_decided_by := t_decided_by s\<rparr>"
  by simp

lemma opt_str_at_eq: "opt_str_at p k = Inr x \<longleftrightarrow> get p k = opt_str x"
  by (cases "get p k"; cases x) (auto simp: opt_str_at_def)

lemma on_cancelledD:
  assumes "on_cancelled s e = Inr s'"
  shows "t_cancel_requested s \<and> t_status s \<notin> {VERIFYING, ACCEPTED} \<and> \<not> must_block s
     \<and> (t_status s = BLOCKED \<and> (\<exists>a. get (ev_payload e) ''actor'' = JStr a
           \<and> s' = s\<lparr>t_status := CANCELLED, t_resolution := Some RESOLVED_CANCELLED_EFFECT_UNKNOWN,
                    t_decided_by := Some a\<rparr>)
        \<or> t_status s \<noteq> BLOCKED \<and> (\<exists>d. s' = s\<lparr>t_status := CANCELLED, t_decided_by := d\<rparr>))"
proof -
  from assms have guards: "t_cancel_requested s" "t_status s \<notin> {VERIFYING, ACCEPTED}" "\<not> must_block s"
    by (auto simp: on_cancelled_def fail_def split: if_splits)
  show ?thesis
  proof (cases "t_status s = BLOCKED")
    case True
    with guards have "on_cancelled s e = bind_result (opt_str_at (ev_payload e) ''actor'') (\<lambda>actor.
        if actor = None then fail ''cancelling a blocked task is a human decision and needs an actor''
        else Inr (s\<lparr>t_status := CANCELLED, t_resolution := Some RESOLVED_CANCELLED_EFFECT_UNKNOWN,
                    t_decided_by := actor\<rparr>))"
      by (simp add: on_cancelled_def)
    from assms [unfolded this] obtain x where x: "opt_str_at (ev_payload e) ''actor'' = Inr x"
      and k: "(if x = None then fail ''cancelling a blocked task is a human decision and needs an actor''
        else Inr (s\<lparr>t_status := CANCELLED, t_resolution := Some RESOLVED_CANCELLED_EFFECT_UNKNOWN,
                    t_decided_by := x\<rparr>)) = Inr s'"
      by (rule bind_resultE)
    from k obtain a where a: "x = Some a" by (cases x) (simp_all add: fail_def)
    have "get (ev_payload e) ''actor'' = JStr a" using x a by (simp add: opt_str_at_eq)
    moreover have "s' = s\<lparr>t_status := CANCELLED, t_resolution := Some RESOLVED_CANCELLED_EFFECT_UNKNOWN,
                    t_decided_by := Some a\<rparr>"
      using k a by simp
    ultimately show ?thesis using True guards by blast
  next
    case nb: False
    have "\<exists>d. s' = s\<lparr>t_status := CANCELLED, t_decided_by := d\<rparr>"
    proof (cases "has_key (ev_payload e) ''actor''")
      case True
      with guards nb have "on_cancelled s e = bind_result (opt_str_at (ev_payload e) ''actor'')
          (\<lambda>actor. Inr (s\<lparr>t_status := CANCELLED, t_decided_by := actor\<rparr>))"
        by (simp add: on_cancelled_def)
      from assms [unfolded this] obtain x where "Inr (s\<lparr>t_status := CANCELLED, t_decided_by := x\<rparr>) = (Inr s' :: task_state result)"
        by (rule bind_resultE)
      then have "s' = s\<lparr>t_status := CANCELLED, t_decided_by := x\<rparr>" by simp
      then show ?thesis by (rule exI)
    next
      case False
      with assms guards nb have "s' = s\<lparr>t_status := CANCELLED\<rparr>"
        by (simp add: on_cancelled_def)
      then show ?thesis using cancelled_same_decider by metis
    qed
    with nb guards show ?thesis by blast
  qed
qed

lemma str_at_eq: "str_at p k = Inr s \<longleftrightarrow> map_of p k = Some (JStr s)"
  by (auto simp: str_at_def split: option.splits json.splits)

lemma human_decisionD:
  assumes "human_decision s e = Inr s'"
  shows "t_status s = BLOCKED \<and> ev_attempt e = Some (t_attempt s)
     \<and> (\<exists>a r. map_of (ev_payload e) ''actor'' = Some (JStr a) \<and>
        (ev_type e = EFFECT_CONFIRMED \<and> s' = s\<lparr>t_status := COMPLETE, t_resolution := Some RESOLVED_EFFECT_CONFIRMED,
              t_decided_by := Some a, t_last_reason := Some r\<rparr>
         \<or> ev_type e \<noteq> EFFECT_CONFIRMED \<and> \<not> t_cancel_requested s \<and> t_attempt s < MAX_ATTEMPTS_LIMIT
           \<and> s' = s\<lparr>t_status := QUEUED, t_max_attempts := max (t_max_attempts s) (t_attempt s + 1),
                 t_dispatch_id := None, t_worker_id := None, t_started := False,
                 t_failure_kind := None, t_retryable := None, t_last_reason := Some r,
                 t_decided_by := Some a\<rparr>))"
proof -
  from assms have g: "t_status s = BLOCKED" "ev_attempt e = Some (t_attempt s)"
    by (simp_all add: human_decision_def fail_def split: if_splits)
  from assms obtain a r where a: "str_at (ev_payload e) ''actor'' = Inr a"
    and r: "reason_text (ev_payload e) = Inr r"
    by (auto simp: human_decision_def g elim!: bind_resultE)
  show ?thesis
    using assms g a r
    by (intro conjI exI [of _ a] exI [of _ r])
      (simp_all add: human_decision_def fail_def str_at_eq split: if_splits)
qed

lemma on_late_resultD:
  "on_late_result s e = Inr s' \<Longrightarrow> \<not> (t_status s \<in> ACTIVE_LEASE \<and> ev_dispatch_id e = t_dispatch_id s)
     \<and> s' = s\<lparr>t_late_results := t_late_results s + 1\<rparr>"
  by (auto simp: on_late_result_def fail_def split: if_splits)


lemma validate_claimed_fields:
  "validate e = None \<Longrightarrow> ev_type e = TASK_CLAIMED \<Longrightarrow> ev_dispatch_id e \<noteq> None \<and> ev_worker_id e \<noteq> None"
  using validate_required(1) [of e] by (simp add: has_field_def)

lemma validate_result_id:
  "validate e = None \<Longrightarrow> ev_type e \<in> {RESULT_READY, RESULT_ACCEPTED, RESULT_REJECTED, TASK_COMPLETE} \<Longrightarrow>
   ev_result_id e \<noteq> None"
  using validate_required(1) [of e] by (auto simp: has_field_def)

lemma claim_input_None: "t_depends_on s = None \<Longrightarrow> claim_input s v = Inr b \<Longrightarrow> b = None"
  by (simp add: claim_input_def fail_def split: if_splits)

lemma decide_after_failure_RETRY:
  "decide_after_failure s = Inr RETRY \<longleftrightarrow>
     t_status s = RETRY_PENDING
     \<and> \<not> ((t_failure_kind s = Some ''lease_lost'' \<or> uncertain_rejection s) \<and> t_started s
           \<and> \<not> may_auto_retry (t_effect_class s))
     \<and> \<not> t_cancel_requested s
     \<and> \<not> (t_failure_kind s = Some ''rejected'' \<and> t_retryable s \<noteq> Some True)
     \<and> t_attempt s < t_max_attempts s"
  by (auto simp: decide_after_failure_def split: if_splits)

lemma transition_split:
  assumes "transition s e = Inr s'"
  shows "ev_type e = LATE_RESULT_DISCARDED \<and> on_late_result s e = Inr s'
    \<or> t_status s \<notin> TERMINAL \<and> (t_status s = BLOCKED \<longrightarrow> ev_type e \<in> BLOCKED_EVENTS)
      \<and> (ev_type e = EFFECT_CONFIRMED \<and> human_decision s e = Inr s'
       \<or> ev_type e = RETRY_AUTHORIZED \<and> human_decision s e = Inr s'
       \<or> ev_type e = TASK_CLAIMED \<and> on_claimed s e = Inr s'
       \<or> ev_type e = TASK_STARTED \<and> on_started s e = Inr s'
       \<or> ev_type e = TASK_PROGRESS \<and> on_progress s e = Inr s'
       \<or> ev_type e = RESULT_READY \<and> on_result_ready s e = Inr s'
       \<or> ev_type e = RESULT_ACCEPTED \<and> on_verdict s e = Inr s'
       \<or> ev_type e = RESULT_REJECTED \<and> on_verdict s e = Inr s'
       \<or> ev_type e = TASK_COMPLETE \<and> on_complete s e = Inr s'
       \<or> ev_type e = LEASE_EXPIRED \<and> on_lease_expired s e = Inr s'
       \<or> ev_type e = TASK_RETRY_SCHEDULED \<and> on_retry_scheduled s e = Inr s'
       \<or> ev_type e = TASK_FAILED \<and> on_failed s e = Inr s'
       \<or> ev_type e = TASK_BLOCKED \<and> on_blocked s e = Inr s'
       \<or> ev_type e = TASK_CANCEL_REQUESTED \<and> on_cancel_requested s e = Inr s'
       \<or> ev_type e = TASK_CANCELLED \<and> on_cancelled s e = Inr s')"
  using assms by (cases "ev_type e") (simp_all add: transition_def fail_def split: if_splits)

lemma wf_on_late_result: "wf_task s \<Longrightarrow> on_late_result s e = Inr s' \<Longrightarrow> wf_task s'"
  by (drule on_late_resultD) (simp add: wf_task_defs failure_recorded_def split: task_status.splits)

lemma wf_on_claimed:
  assumes "wf_task s" "validate e = None" "ev_type e = TASK_CLAIMED" "on_claimed s e = Inr s'"
  shows "wf_task s'"
proof -
  note d = on_claimedD [OF assms(4)]
  from d obtain b where b: "claim_input s (get (ev_payload e) ''input'') = Inr b" and s': "s' = s\<lparr>t_status := CLAIMED, t_attempt := t_attempt s + 1, t_dispatch_id := ev_dispatch_id e,
               t_worker_id := ev_worker_id e, t_started := False, t_pending_result_id := None,
               t_failure_kind := None, t_retryable := None, t_last_reason := None, t_input := b\<rparr>" by blast
  have "b \<noteq> None \<longrightarrow> t_depends_on s \<noteq> None" using claim_input_None [OF _ b] by blast
  then show ?thesis
    using assms(1) d validate_claimed_fields [OF assms(2,3)] by (simp add: wf_task_defs s')
qed

lemma wf_on_started: "wf_task s \<Longrightarrow> on_started s e = Inr s' \<Longrightarrow> wf_task s'"
  by (drule on_startedD) (simp add: wf_task_defs)

lemma wf_on_progress: "wf_task s \<Longrightarrow> on_progress s e = Inr s' \<Longrightarrow> wf_task s'"
  by (drule on_progressD) simp

lemma wf_on_result_ready:
  "wf_task s \<Longrightarrow> validate e = None \<Longrightarrow> ev_type e = RESULT_READY \<Longrightarrow> on_result_ready s e = Inr s' \<Longrightarrow> wf_task s'"
  using validate_result_id [of e] by (drule_tac on_result_readyD) (simp add: wf_task_defs)

lemma wf_on_verdict:
  "wf_task s \<Longrightarrow> validate e = None \<Longrightarrow> ev_type e = RESULT_ACCEPTED \<or> ev_type e = RESULT_REJECTED \<Longrightarrow>
   on_verdict s e = Inr s' \<Longrightarrow> wf_task s'"
  using validate_result_id [of e]
  by (drule_tac on_verdictD) (elim conjE disjE exE; simp add: wf_task_defs failure_recorded_def)

lemma wf_on_complete: "wf_task s \<Longrightarrow> on_complete s e = Inr s' \<Longrightarrow> wf_task s'"
  by (drule on_completeD) (simp add: wf_task_defs)

lemma wf_on_lease_expired: "wf_task s \<Longrightarrow> on_lease_expired s e = Inr s' \<Longrightarrow> wf_task s'"
  by (drule on_lease_expiredD, unfold ACTIVE_LEASE_def)
    (elim conjE exE insertE; simp add: wf_task_defs failure_recorded_def)

lemma wf_on_retry_scheduled: "wf_task s \<Longrightarrow> on_retry_scheduled s e = Inr s' \<Longrightarrow> wf_task s'"
  by (drule on_retry_scheduledD) (simp add: wf_task_defs)

lemma wf_on_failed: "wf_task s \<Longrightarrow> on_failed s e = Inr s' \<Longrightarrow> wf_task s'"
  by (drule on_failedD) (elim conjE exE insertE; simp add: wf_task_defs)

lemma wf_on_blocked: "wf_task s \<Longrightarrow> on_blocked s e = Inr s' \<Longrightarrow> wf_task s'"
  by (drule on_blockedD) (elim conjE exE insertE; simp add: wf_task_defs)

lemma wf_on_cancel_requested:
  "wf_task s \<Longrightarrow> t_status s \<notin> TERMINAL \<Longrightarrow> on_cancel_requested s e = Inr s' \<Longrightarrow> wf_task s'"
  by (drule on_cancel_requestedD)
    (simp add: wf_task_defs failure_recorded_def TERMINAL_def split: task_status.splits)

lemma wf_on_cancelled:
  "wf_task s \<Longrightarrow> t_status s \<notin> TERMINAL \<Longrightarrow> on_cancelled s e = Inr s' \<Longrightarrow> wf_task s'"
  by (drule on_cancelledD)
    (elim conjE disjE exE; cases "t_status s"; simp add: wf_task_defs TERMINAL_def)

lemma wf_human_decision: "wf_task s \<Longrightarrow> human_decision s e = Inr s' \<Longrightarrow> wf_task s'"
  by (drule human_decisionD) (elim conjE disjE exE; simp add: wf_task_defs le_max_iff_disj)

lemmas wf_transition_intros =
  wf_on_late_result wf_on_claimed wf_on_started wf_on_progress wf_on_result_ready wf_on_verdict
  wf_on_complete wf_on_lease_expired wf_on_retry_scheduled wf_on_failed wf_on_blocked
  wf_on_cancel_requested wf_on_cancelled wf_human_decision

lemma wf_transition:
  "wf_task s \<Longrightarrow> validate e = None \<Longrightarrow> transition s e = Inr s' \<Longrightarrow> wf_task s'"
  by (drule transition_split) (elim disjE conjE; blast intro: wf_transition_intros)

lemma wf_task_updated_seq [simp]: "wf_task (s\<lparr>t_updated_seq := q\<rparr>) = wf_task s"
  by (simp add: wf_task_defs failure_recorded_def cong: task_status.case_cong)


subsection \<open>Creation\<close>

lemma int_at_eq: "int_at p k = Inr i \<longleftrightarrow> map_of p k = Some (JInt i)"
  by (auto simp: int_at_def split: option.splits json.splits)

lemma bool_at_eq: "bool_at p k = Inr b \<longleftrightarrow> map_of p k = Some (JBool b)"
  by (auto simp: bool_at_def split: option.splits json.splits)

lemma opt_int_at_eq: "opt_int_at p k = Inr x \<longleftrightarrow> get p k = opt_int x"
  by (cases "get p k"; cases x) (auto simp: opt_int_at_def)

lemma get_eq_map_of: "v \<noteq> JNull \<Longrightarrow> get p k = v \<longleftrightarrow> map_of p k = Some v"
  by (auto simp: get_def split: option.splits)

lemma map_of_get: "get p k = v \<Longrightarrow> v \<noteq> JNull \<Longrightarrow> map_of p k = Some v"
  by (auto simp: get_def split: option.splits)

lemma created_state_ok:
  assumes "validate e = None" "ev_type e = TASK_CREATED"
  shows "\<exists>s. created_state e = Inr s \<and> wf_task s \<and> t_status s = QUEUED \<and> t_attempt s = 0
    \<and> ev_task_id e = Some (t_task_id s) \<and> valid_id (t_task_id s)
    \<and> get (ev_payload e) ''effect_class'' = JStr (t_effect_class s)
    \<and> t_created_seq s = ev_seq e \<and> t_updated_seq s = ev_seq e
    \<and> get (ev_payload e) ''params'' = t_params s \<and> is_obj (t_params s) \<and> t_input s = None \<and> t_decided_by s = None"
proof -
  obtain ad pr ec mx ttl where p: "get (ev_payload e) ''adapter'' = JStr ad"
    "get (ev_payload e) ''params'' = JObj pr" "get (ev_payload e) ''effect_class'' = JStr ec"
    "ec \<in> set EFFECT_CLASSES" "get (ev_payload e) ''max_attempts'' = JInt mx" "1 \<le> mx"
    "mx \<le> MAX_ATTEMPTS_LIMIT" "get (ev_payload e) ''lease_ttl_s'' = JInt ttl" "1 \<le> ttl"
    using validate_created_shape(1) [OF assms] by blast
  from validate_created_shape(2) [OF assms] obtain tmo
    where tmo: "opt_int_at (ev_payload e) ''timeout_s'' = Inr tmo"
    by (auto simp: opt_int_at_def)
  from validate_created_shape(3) [OF assms] obtain dep
    where dep: "opt_str_at (ev_payload e) ''depends_on'' = Inr dep"
    by (auto simp: opt_str_at_def)
  from validate_task_id [OF assms(1)] assms(2) obtain tid where tid: "ev_task_id e = Some tid" "valid_id tid"
    by (auto simp: SYSTEM_EVENTS_def)
  show ?thesis
    using p tid tmo dep map_of_get [OF p(1)] map_of_get [OF p(2)] map_of_get [OF p(3)]
      map_of_get [OF p(5)] map_of_get [OF p(8)]
    by (simp add: created_state_def str_at_def int_at_def wf_task_defs show_opt_def)
qed

lemma sm_apply_created:
  assumes "validate e = None" "ev_type e = TASK_CREATED"
  shows "sm_apply None e = Inr (Some s) \<longleftrightarrow> created_state e = Inr s"
  using assms by (auto simp: sm_apply_def SYSTEM_EVENTS_def bind_result_eq_Inr)

lemma sm_apply_SomeD:
  assumes "sm_apply (Some s) e = Inr st" "ev_type e \<notin> set SYSTEM_EVENTS"
  obtains n where "ev_task_id e = Some (t_task_id s)" "transition s e = Inr n"
    "st = Some (n\<lparr>t_updated_seq := ev_seq e\<rparr>)" "ev_type e \<noteq> TASK_CREATED"
  using assms by (auto simp: sm_apply_def fail_def elim!: bind_resultE split: if_splits)

lemma history_nonempty: "history es s \<Longrightarrow> es \<noteq> []"
  by (induction rule: history.induct) auto

lemma history_wf: "history es s \<Longrightarrow> wf_task s"
proof (induction rule: history.induct)
  case (created e s)
  then show ?case using created_state_ok [of e] by (auto simp: sm_apply_created)
next
  case (step es s e s')
  from step.hyps(4,3) obtain n where "transition s e = Inr n" "s' = n\<lparr>t_updated_seq := ev_seq e\<rparr>"
    by (auto elim: sm_apply_SomeD)
  with step show ?case using wf_transition by simp
qed

text \<open>
  C6. Every history leads to a well-formed state: the attempt stays between 0 and
  \<open>max_attempts\<close>, which stays at most 100, and the status determines which of the lease,
  result, failure and resolution fields are set.
\<close>

theorem history_wf_task: "history es s \<Longrightarrow> wf_task s"
  by (rule history_wf)

subsection \<open>A valid event is applied or refused with a TransitionError\<close>

lemma reason_text_ok: "has_key p ''reason'' \<Longrightarrow> \<exists>r. reason_text p = Inr r"
  by (auto simp: reason_text_def has_key_def)

definition refused_or_applied :: "'a result \<Rightarrow> bool" where
  "refused_or_applied r \<longleftrightarrow> (\<exists>x. r = Inr x) \<or> (\<exists>why. r = Inl (TransitionError why))"

lemma refused_or_applied_simps [simp]:
  "refused_or_applied (Inr x)" "refused_or_applied (fail why)" "refused_or_applied (Inl (TransitionError why))"
  by (auto simp: refused_or_applied_def fail_def)

lemma refused_or_applied_bind:
  "refused_or_applied r \<Longrightarrow> (\<And>x. r = Inr x \<Longrightarrow> refused_or_applied (k x)) \<Longrightarrow> refused_or_applied (bind_result r k)"
  by (auto simp: refused_or_applied_def)

lemma refused_or_applied_fence:
  "(fence s e w = None \<Longrightarrow> refused_or_applied r) \<Longrightarrow>
   refused_or_applied (case fence s e w of Some err \<Rightarrow> Inl err | None \<Rightarrow> r)"
  by (auto simp: fence_def require_def guarded_def)

lemma validate_input_obj: "validate_input v = None \<Longrightarrow> \<exists>kvs. v = JObj kvs"
  by (cases v) (auto simp: validate_input_def)

lemma claim_input_total:
  assumes "validate e = None" "ev_type e = TASK_CLAIMED"
  shows "refused_or_applied (claim_input s (get (ev_payload e) ''input''))"
proof -
  have "get (ev_payload e) ''input'' = JNull \<or> (\<exists>kvs. get (ev_payload e) ''input'' = JObj kvs)"
    using validate_payload_None [OF assms(1)] assms(2) validate_input_obj
    by (auto simp: validate_payload_def check_simps Let_def)
  then show ?thesis by (auto simp: claim_input_def split: option.splits)
qed

lemma actor_total:
  assumes "validate e = None"
  shows "\<exists>x. opt_str_at (ev_payload e) ''actor'' = Inr x"
proof (cases "has_key (ev_payload e) ''actor''")
  case True
  with validate_actor [OF assms] show ?thesis by (auto simp: opt_str_at_def)
next
  case False
  then show ?thesis by (simp add: opt_str_at_def get_def has_key_def)
qed

lemma on_verdict_total:
  assumes "validate e = None" "ev_type e = RESULT_ACCEPTED \<or> ev_type e = RESULT_REJECTED"
  shows "refused_or_applied (on_verdict s e)"
proof -
  have "ev_type e = RESULT_REJECTED \<Longrightarrow>
      (\<exists>b. bool_at (ev_payload e) ''retryable'' = Inr b) \<and> (\<exists>r. reason_text (ev_payload e) = Inr r)"
    using validate_required(2) [OF assms(1)] validate_payload_None [OF assms(1)]
    by (cases "get (ev_payload e) ''retryable''")
      (auto simp: validate_payload_def check_simps Let_def bool_at_eq get_eq_map_of intro: reason_text_ok)
  with assms(2) show ?thesis
    by (auto simp: on_verdict_def intro!: refused_or_applied_fence)
qed

lemma human_decision_total:
  assumes "validate e = None" "ev_type e = EFFECT_CONFIRMED \<or> ev_type e = RETRY_AUTHORIZED"
  shows "refused_or_applied (human_decision s e)"
proof -
  from assms have "\<exists>a. get (ev_payload e) ''actor'' = JStr a"
    using validate_actor [OF assms(1)] by (auto simp: HUMAN_DECISIONS_def)
  then obtain a where "str_at (ev_payload e) ''actor'' = Inr a"
    by (auto simp: str_at_eq get_eq_map_of)
  moreover have "has_key (ev_payload e) ''reason''"
    using validate_required(2) [OF assms(1)] assms(2) by auto
  then obtain r where "reason_text (ev_payload e) = Inr r" using reason_text_ok by blast
  ultimately show ?thesis by (simp add: human_decision_def)
qed

lemma on_cancelled_total:
  assumes "validate e = None"
  shows "refused_or_applied (on_cancelled s e)"
  using actor_total [OF assms] by (auto simp: on_cancelled_def)

lemma reason_event_total:
  assumes "validate e = None" "ev_type e \<in> {LEASE_EXPIRED, TASK_FAILED, TASK_BLOCKED}"
  shows "\<exists>r. reason_text (ev_payload e) = Inr r"
  using validate_required(2) [OF assms(1)] assms(2) by (auto dest: reason_text_ok)

lemma transition_total:
  assumes v: "validate e = None"
  shows "refused_or_applied (transition s e)"
proof (cases "ev_type e")
  case TASK_CLAIMED
  with v show ?thesis
    by (auto simp: transition_def on_claimed_def intro!: refused_or_applied_bind claim_input_total)
next
  case LEASE_EXPIRED
  with reason_event_total [OF v] show ?thesis
    by (auto simp: transition_def on_lease_expired_def intro!: refused_or_applied_fence)
next
  case TASK_FAILED
  with reason_event_total [OF v] show ?thesis by (auto simp: transition_def on_failed_def)
next
  case TASK_BLOCKED
  with reason_event_total [OF v] show ?thesis by (auto simp: transition_def on_blocked_def)
next
  case TASK_RETRY_SCHEDULED
  then show ?thesis
    by (auto simp: transition_def on_retry_scheduled_def decide_after_failure_def)
qed (use v in \<open>auto simp: transition_def on_late_result_def on_started_def on_progress_def
    on_result_ready_def on_complete_def on_cancel_requested_def
    intro!: refused_or_applied_fence on_verdict_total human_decision_total on_cancelled_total\<close>)

lemma sm_apply_outcome:
  assumes "validate e = None"
  shows "refused_or_applied (sm_apply st e)"
proof (cases "ev_type e = TASK_CREATED")
  case True
  with created_state_ok [OF assms] show ?thesis
    by (auto simp: sm_apply_def SYSTEM_EVENTS_def split: option.splits)
next
  case False
  with transition_total [OF assms] show ?thesis
    by (auto simp: sm_apply_def intro!: refused_or_applied_bind split: option.splits)
qed

text \<open>
  Applying a valid event never fails in any other way than by a \<open>TransitionError\<close>: the
  payload keys the state machine reads are there and have the right types.
\<close>

theorem sm_apply_total:
  assumes "validate e = None"
  shows "refused_or_applied (sm_apply st e)"
  by (rule sm_apply_outcome [OF assms])

end
