(* ===== verification/Projection.thy ===== *)
theory Projection
  imports State_Machine
begin

text \<open>
  The task projection (courier\_core/projection.py): the table \<open>tasks\<close> that holds the state of
  every task as one row, and the meta table with the projection's version and the last sequence
  number it covers. The tables live in the journal file; here is the part of its state the
  projection owns, with the functions that read and write it. A transaction that raises is
  rolled back, so a function that fails returns no new tables.
\<close>

section \<open>Rows\<close>

text \<open>
  One row of \<open>tasks\<close>: \<open>params\<close> and \<open>input\<close> are JSON text, booleans are integers. The column
  \<open>retryable\<close> is not one of \<open>_BOOL_COLUMNS\<close>, so Python's \<open>True\<close> comes back as the integer 1,
  which compares equal to it; the typed state keeps the boolean.
\<close>

record task_row =
  c_task_id :: string
  c_status :: string
  c_adapter :: string
  c_params :: string
  c_effect_class :: string
  c_max_attempts :: int
  c_lease_ttl_s :: int
  c_timeout_s :: "int option"
  c_attempt :: int
  c_dispatch_id :: "string option"
  c_worker_id :: "string option"
  c_started :: int
  c_pending_result_id :: "string option"
  c_accepted_result_id :: "string option"
  c_cancel_requested :: int
  c_failure_kind :: "string option"
  c_retryable :: "int option"
  c_last_reason :: "string option"
  c_late_results :: int
  c_resolution :: "string option"
  c_decided_by :: "string option"
  c_depends_on :: "string option"
  c_input :: string
  c_created_seq :: "int option"
  c_updated_seq :: "int option"

definition PROJECTION_VERSION :: int where "PROJECTION_VERSION = 3"

text \<open>SQLite integers have 64 bits; binding a larger one raises \<open>OverflowError\<close>.\<close>

definition sql_int_ok :: "int \<Rightarrow> bool" where
  "sql_int_ok i \<longleftrightarrow> - (2 ^ 63) \<le> i \<and> i < 2 ^ 63"

definition row_ints :: "task_state \<Rightarrow> int list" where
  "row_ints s = [t_max_attempts s, t_lease_ttl_s s, t_attempt s, t_late_results s]
     @ concat (map (case_option [] (\<lambda>i. [i])) [t_timeout_s s, t_created_seq s, t_updated_seq s])"

fun of_bool_int :: "bool \<Rightarrow> int" where
  "of_bool_int True = 1"
| "of_bool_int False = 0"

definition input_json :: "json option \<Rightarrow> json" where
  "input_json x = (case x of None \<Rightarrow> JNull | Some v \<Rightarrow> v)"

definition proj_to_row :: "task_state \<Rightarrow> task_row result" where
  "proj_to_row s =
     bind_result (canonical_json (t_params s)) (\<lambda>params.
     bind_result (canonical_json (input_json (t_input s))) (\<lambda>inp.
       if list_all sql_int_ok (row_ints s) then Inr
         \<lparr>c_task_id = t_task_id s, c_status = status_value (t_status s), c_adapter = t_adapter s,
          c_params = params, c_effect_class = t_effect_class s, c_max_attempts = t_max_attempts s,
          c_lease_ttl_s = t_lease_ttl_s s, c_timeout_s = t_timeout_s s, c_attempt = t_attempt s,
          c_dispatch_id = t_dispatch_id s, c_worker_id = t_worker_id s,
          c_started = of_bool_int (t_started s), c_pending_result_id = t_pending_result_id s,
          c_accepted_result_id = t_accepted_result_id s,
          c_cancel_requested = of_bool_int (t_cancel_requested s), c_failure_kind = t_failure_kind s,
          c_retryable = map_option of_bool_int (t_retryable s), c_last_reason = t_last_reason s,
          c_late_results = t_late_results s, c_resolution = t_resolution s,
          c_decided_by = t_decided_by s, c_depends_on = t_depends_on s, c_input = inp,
          c_created_seq = t_created_seq s, c_updated_seq = t_updated_seq s\<rparr>
       else Inl (OverflowError ''Python int too large to convert to SQLite INTEGER'')))"

definition proj_from_row :: "task_row \<Rightarrow> task_state result" where
  "proj_from_row r =
     bind_result (loads (c_params r)) (\<lambda>params.
     bind_result (loads (c_input r)) (\<lambda>inp.
       case status_of_value (c_status r) of
         None \<Rightarrow> Inl (ValueError ''not a valid TaskStatus'')
       | Some st \<Rightarrow> Inr
         \<lparr>t_task_id = c_task_id r, t_status = st, t_adapter = c_adapter r, t_params = params,
          t_effect_class = c_effect_class r, t_max_attempts = c_max_attempts r,
          t_lease_ttl_s = c_lease_ttl_s r, t_timeout_s = c_timeout_s r, t_attempt = c_attempt r,
          t_dispatch_id = c_dispatch_id r, t_worker_id = c_worker_id r, t_started = (c_started r \<noteq> 0),
          t_pending_result_id = c_pending_result_id r, t_accepted_result_id = c_accepted_result_id r,
          t_cancel_requested = (c_cancel_requested r \<noteq> 0), t_failure_kind = c_failure_kind r,
          t_retryable = map_option (\<lambda>i. i \<noteq> 0) (c_retryable r), t_last_reason = c_last_reason r,
          t_late_results = c_late_results r, t_resolution = c_resolution r,
          t_decided_by = c_decided_by r, t_depends_on = c_depends_on r,
          t_input = (if inp = JNull then None else Some inp),
          t_created_seq = c_created_seq r, t_updated_seq = c_updated_seq r\<rparr>))"

section \<open>Tables\<close>

text \<open>
  \<open>p_version\<close> and \<open>p_last_seq\<close> are the rows of \<open>projection_meta\<close>; both are \<open>None\<close> when the
  table is missing.
\<close>

record projection =
  p_tasks :: "(string \<times> task_row) list"
  p_version :: "string option"
  p_last_seq :: "int option"

definition no_projection :: projection where
  "no_projection = \<lparr>p_tasks = [], p_version = None, p_last_seq = None\<rparr>"

definition create_schema :: "projection \<Rightarrow> projection" where
  "create_schema p = p\<lparr>p_version := (case p_version p of None \<Rightarrow> Some (show_int PROJECTION_VERSION) | v \<Rightarrow> v),
     p_last_seq := (case p_last_seq p of None \<Rightarrow> Some 0 | v \<Rightarrow> v)\<rparr>"

definition is_current :: "projection \<Rightarrow> bool" where
  "is_current p \<longleftrightarrow> p_version p = Some (show_int PROJECTION_VERSION)"

definition load_task :: "projection \<Rightarrow> string option \<Rightarrow> task_state option result" where
  "load_task p tid = (case tid of None \<Rightarrow> Inr None
     | Some k \<Rightarrow> (case map_of (p_tasks p) k of None \<Rightarrow> Inr None
         | Some r \<Rightarrow> bind_result (proj_from_row r) (\<lambda>s. Inr (Some s))))"

fun map_result :: "('a \<Rightarrow> 'e + 'b) \<Rightarrow> 'a list \<Rightarrow> 'e + 'b list" where
  "map_result f [] = Inr []"
| "map_result f (x # xs) = bind_result (f x) (\<lambda>y. bind_result (map_result f xs) (\<lambda>ys. Inr (y # ys)))"

definition load_tasks :: "projection \<Rightarrow> string option \<Rightarrow> task_state list result" where
  "load_tasks p status = map_result proj_from_row
     (sort_key (\<lambda>r. (c_created_seq r, c_task_id r))
       (filter (\<lambda>r. status = None \<or> status = Some (c_status r)) (map snd (p_tasks p))))"

definition store :: "projection \<Rightarrow> task_state option \<Rightarrow> int \<Rightarrow> projection result" where
  "store p st seq =
     bind_result (case st of None \<Rightarrow> Inr p
       | Some s \<Rightarrow> bind_result (proj_to_row s) (\<lambda>r. Inr (p\<lparr>p_tasks := AList.update (c_task_id r) r (p_tasks p)\<rparr>)))
     (\<lambda>p'. Inr (p'\<lparr>p_last_seq := map_option (\<lambda>_. seq) (p_last_seq p')\<rparr>))"

definition apply_event :: "projection \<Rightarrow> event \<Rightarrow> (task_state option \<times> projection) result" where
  "apply_event p e = (case ev_seq e of
     None \<Rightarrow> Inl (ProjectionError ''only sealed events can be projected'')
   | Some seq \<Rightarrow>
       (if ev_type e \<in> set SYSTEM_EVENTS then bind_result (store p None seq) (\<lambda>p'. Inr (None, p'))
        else bind_result (load_task p (ev_task_id e)) (\<lambda>old.
             bind_result (sm_apply old e) (\<lambda>new.
             bind_result (store p new seq) (\<lambda>p'. Inr (new, p'))))))"

definition last_seq :: "projection \<Rightarrow> int" where
  "last_seq p = (case p_last_seq p of None \<Rightarrow> 0 | Some n \<Rightarrow> n)"

text \<open>\<open>except ValueError as exc: raise ProjectionError(...) from exc\<close>\<close>

definition as_projection_error :: "'a result \<Rightarrow> 'a result" where
  "as_projection_error r = (case r of Inr x \<Rightarrow> Inr x
     | Inl err \<Rightarrow> if is_value_error err then Inl (ProjectionError ''illegal history'') else Inl err)"

definition replay_event :: "projection \<Rightarrow> event \<Rightarrow> projection result" where
  "replay_event p e = as_projection_error (bind_result (apply_event p e) (\<lambda>(_, p'). Inr p'))"

definition rebuild_in_place :: "event list \<Rightarrow> projection result" where
  "rebuild_in_place es = fold_result replay_event (create_schema no_projection) es"

definition fold_event :: "(string option \<times> task_state) list \<Rightarrow> event \<Rightarrow> (string option \<times> task_state) list result" where
  "fold_event ts e =
     (if ev_type e \<in> set SYSTEM_EVENTS then Inr ts
      else as_projection_error (bind_result (sm_apply (map_of ts (ev_task_id e)) e) (\<lambda>st.
        case st of None \<Rightarrow> Inr ts | Some s \<Rightarrow> Inr (AList.update (ev_task_id e) s ts))))"

text \<open>\<open>fold(events)\<close>, the reference the tables must match.\<close>

definition proj_fold :: "event list \<Rightarrow> (string option \<times> task_state) list result" where
  "proj_fold es = fold_result fold_event [] es"

definition row_json :: "task_row \<Rightarrow> json" where
  "row_json r = JList [JStr (c_task_id r), JStr (c_status r), JStr (c_adapter r), JStr (c_params r),
     JStr (c_effect_class r), JInt (c_max_attempts r), JInt (c_lease_ttl_s r), opt_int (c_timeout_s r),
     JInt (c_attempt r), opt_str (c_dispatch_id r), opt_str (c_worker_id r), JInt (c_started r),
     opt_str (c_pending_result_id r), opt_str (c_accepted_result_id r), JInt (c_cancel_requested r),
     opt_str (c_failure_kind r), opt_int (c_retryable r), opt_str (c_last_reason r),
     JInt (c_late_results r), opt_str (c_resolution r), opt_str (c_decided_by r),
     opt_str (c_depends_on r), JStr (c_input r), opt_int (c_created_seq r), opt_int (c_updated_seq r)]"

definition projection_hash :: "(string \<Rightarrow> string) \<Rightarrow> projection \<Rightarrow> string" where
  "projection_hash H p = H (''courier-projection-v'' @ show_int PROJECTION_VERSION @ [CHR 0x0A]
     @ concat (map (\<lambda>(_, r). dumps (row_json r) @ [CHR 0x0A]) (sort_key fst (p_tasks p))))"

section \<open>Rows read back\<close>

lemma status_of_value_status_value [simp]: "status_of_value (status_value st) = Some st"
  by (cases st) (simp_all add: status_of_value_def all_statuses_def)

lemma of_bool_int_eq_0 [simp]: "of_bool_int b \<noteq> 0 \<longleftrightarrow> b"
  by (cases b) simp_all

definition json_ok :: "task_state \<Rightarrow> bool" where
  "json_ok s \<longleftrightarrow> wf_json (t_params s) \<and> canonical (t_params s) = t_params s
     \<and> (case t_input s of None \<Rightarrow> True | Some v \<Rightarrow> v \<noteq> JNull \<and> wf_json v \<and> canonical v = v)"

lemma canonical_json_loads:
  "wf_json v \<Longrightarrow> canonical v = v \<Longrightarrow> canonical_json v = Inr t \<Longrightarrow> loads t = Inr v"
  by (auto simp: canonical_json_def loads_dumps split: if_splits)

lemma proj_roundtrip:
  assumes "json_ok s" "proj_to_row s = Inr r"
  shows "proj_from_row r = Inr s" and "c_task_id r = t_task_id s"
proof -
  from assms(2) obtain a b where ab: "canonical_json (t_params s) = Inr a"
    "canonical_json (input_json (t_input s)) = Inr b" and ok: "list_all sql_int_ok (row_ints s)"
    by (auto simp: proj_to_row_def elim!: bind_resultE split: if_splits)
  have a: "loads a = Inr (t_params s)" using canonical_json_loads ab assms(1) by (simp add: json_ok_def)
  have b: "loads b = Inr (input_json (t_input s))"
    using canonical_json_loads [OF _ _ ab(2)] assms(1)
    by (auto simp: json_ok_def input_json_def split: option.splits)
  have i: "(if input_json (t_input s) = JNull then None else Some (input_json (t_input s))) = t_input s"
    using assms(1) by (auto simp: json_ok_def input_json_def split: option.splits)
  have r: "map_option (\<lambda>i. i \<noteq> 0) (map_option of_bool_int (t_retryable s)) = t_retryable s"
    by (cases "t_retryable s") simp_all
  show "proj_from_row r = Inr s" "c_task_id r = t_task_id s"
    using assms(2) ab a b i r ok by (auto simp: proj_to_row_def proj_from_row_def)
qed

lemma wf_event_member:
  assumes "wf_event e" "map_of (ev_payload e) k = Some v"
  shows "wf_json v \<and> canonical v = v"
proof -
  have m: "(k, v) \<in> set (ev_payload e)" using map_of_SomeD [OF assms(2)] .
  have c: "sort_key fst (canonical_members (ev_payload e)) = ev_payload e"
    using wf_eventD(2) [OF assms(1)] by simp
  have "(k, v) \<in> set (canonical_members (ev_payload e))" using m by (metis c set_sort)
  then have "canonical v = v" by (auto simp: set_canonical_members canonical_idem)
  moreover have "wf_json v"
    using wf_eventD(1) [OF assms(1)] m by (auto simp: wf_members_iff)
  ultimately show ?thesis by blast
qed

lemma wf_event_get: "wf_event e \<Longrightarrow> get (ev_payload e) k = v \<Longrightarrow> wf_json v \<and> canonical v = v"
  using wf_event_member by (auto simp: get_def split: option.splits)

lemma json_ok_created:
  assumes "wf_event e" "created_state e = Inr s"
  shows "json_ok s"
proof -
  have "t_params s = get (ev_payload e) ''params'' \<and> t_input s = None"
    using assms(2) by (auto simp: created_state_def Let_def get_def split: option.splits elim!: bind_resultE)
  then show ?thesis using wf_event_get [OF assms(1)] by (simp add: json_ok_def)
qed

lemma claim_input_Inr:
  "claim_input s v = Inr b \<Longrightarrow> b = None \<or> (b = Some v \<and> v \<noteq> JNull)"
  by (cases v) (auto simp: claim_input_def fail_def split: option.splits if_splits)

lemmas all_transitionDs = on_claimedD on_startedD on_progressD on_result_readyD on_verdictD on_completeD
  on_lease_expiredD on_retry_scheduledD on_failedD on_blockedD on_cancel_requestedD on_cancelledD
  human_decisionD on_late_resultD

lemma transition_data:
  assumes "transition s e = Inr s'"
  shows "t_task_id s' = t_task_id s \<and> t_params s' = t_params s
    \<and> (t_input s' = t_input s \<or> t_input s' = None
       \<or> (\<exists>v. t_input s' = Some v \<and> v = get (ev_payload e) ''input'' \<and> v \<noteq> JNull))"
  by (insert transition_split [OF assms], elim disjE conjE; drule all_transitionDs; (elim conjE disjE exE)?;
      (simp; fail)?; drule claim_input_Inr; auto)

lemma json_ok_transition:
  assumes "wf_event e" "json_ok s" "transition s e = Inr s'"
  shows "json_ok s'"
  using transition_data [OF assms(3)] assms(2) wf_event_get [OF assms(1)]
  by (auto simp: json_ok_def)

lemma json_ok_updated_seq [simp]: "json_ok (s\<lparr>t_updated_seq := q\<rparr>) = json_ok s"
  by (simp add: json_ok_def)

text \<open>What \<open>apply\<close> keeps: the state belongs to the event's task and can be stored.\<close>

lemma sm_apply_json_ok:
  assumes "wf_event e" "ev_type e \<notin> set SYSTEM_EVENTS" "sm_apply st e = Inr st'"
    and "\<And>s. st = Some s \<Longrightarrow> json_ok s"
  shows "\<exists>s'. st' = Some s' \<and> json_ok s' \<and> ev_task_id e = Some (t_task_id s')"
proof (cases st)
  case None
  with assms(2,3) have c: "ev_type e = TASK_CREATED" by (auto simp: sm_apply_def fail_def split: if_splits)
  with assms(3) None obtain s where s: "created_state e = Inr s" "st' = Some s"
    by (auto simp: sm_apply_def SYSTEM_EVENTS_def elim!: bind_resultE)
  with created_state_ok [OF wf_eventD(3) [OF assms(1)] c] json_ok_created [OF assms(1)] show ?thesis by auto
next
  case (Some s)
  with assms(2,3) obtain n where n: "ev_task_id e = Some (t_task_id s)" "transition s e = Inr n"
    "st' = Some (n\<lparr>t_updated_seq := ev_seq e\<rparr>)" by (auto elim: sm_apply_SomeD)
  with json_ok_transition [OF assms(1) assms(4) [OF Some] n(2)] transition_data [OF n(2)]
  show ?thesis by simp
qed

section \<open>The tables implement the fold\<close>

text \<open>The tables hold exactly the states of the in-memory dictionary.\<close>

definition represents :: "projection \<Rightarrow> (string option \<times> task_state) list \<Rightarrow> bool" where
  "represents p ts \<longleftrightarrow> dict_wf (p_tasks p) \<and> dict_wf ts \<and> map_of ts None = None
     \<and> (\<forall>k. map_of (p_tasks p) k = None \<longleftrightarrow> map_of ts (Some k) = None)
     \<and> (\<forall>k s. map_of ts (Some k) = Some s \<longrightarrow>
          json_ok s \<and> t_task_id s = k \<and> (\<exists>r. map_of (p_tasks p) k = Some r \<and> proj_to_row s = Inr r))"

lemma represents_empty: "represents (create_schema no_projection) []"
  by (simp add: represents_def create_schema_def no_projection_def)

lemma represents_load:
  assumes "represents p ts"
  shows "load_task p tid = Inr (map_of ts tid)"
proof (cases tid)
  case None
  then show ?thesis using assms by (simp add: load_task_def represents_def)
next
  case (Some k)
  show ?thesis
  proof (cases "map_of ts (Some k)")
    case None
    then have "map_of (p_tasks p) k = None" using assms unfolding represents_def by blast
    then show ?thesis using None Some by (simp add: load_task_def)
  next
    case (Some s)
    with assms obtain r where "map_of (p_tasks p) k = Some r" "proj_to_row s = Inr r" "json_ok s"
      unfolding represents_def by blast
    with Some \<open>tid = Some k\<close> show ?thesis using proj_roundtrip by (simp add: load_task_def)
  qed
qed

lemma represents_store:
  assumes "represents p ts" "json_ok s" "store p (Some s) q = Inr p'"
  shows "represents p' (AList.update (Some (t_task_id s)) s ts)"
proof -
  from assms(3) obtain r where r: "proj_to_row s = Inr r"
    "p_tasks p' = AList.update (c_task_id r) r (p_tasks p)"
    by (auto simp: store_def elim!: bind_resultE)
  moreover have "c_task_id r = t_task_id s" using proj_roundtrip(2) [OF assms(2) r(1)] .
  ultimately show ?thesis using assms(1,2) by (auto simp: represents_def)
qed

lemma store_error: "store p st q = Inl err \<Longrightarrow> (\<And>s. st = Some s \<Longrightarrow> json_ok s) \<Longrightarrow> \<exists>w. err = OverflowError w"
  by (auto simp: store_def proj_to_row_def bind_result_eq_Inl canonical_json_def json_ok_def input_json_def
      finite_of_wf split: option.splits if_splits)

lemma store_tasks_None: "store p None q = Inr p' \<Longrightarrow> p_tasks p' = p_tasks p"
  by (auto simp: store_def)

lemma store_meta:
  "store p st q = Inr p' \<Longrightarrow> p_version p' = p_version p \<and> p_last_seq p' = map_option (\<lambda>_. q) (p_last_seq p)"
  by (auto simp: store_def split: option.splits elim!: bind_resultE)

text \<open>One event: the table update and the dictionary update agree, also on refusal.\<close>

lemma apply_event_refines:
  assumes "represents p ts" "wf_event e" "apply_event p e = Inr (st, p')"
  shows "\<exists>ts'. fold_event ts e = Inr ts' \<and> represents p' ts' \<and> st = (if ev_type e \<in> set SYSTEM_EVENTS then None else map_of ts' (ev_task_id e))"
proof -
  from assms(3) obtain q where q: "ev_seq e = Some q" by (auto simp: apply_event_def split: option.splits)
  show ?thesis
  proof (cases "ev_type e \<in> set SYSTEM_EVENTS")
    case True
    with assms(3) q have "store p None q = Inr p'" "st = None"
      by (auto simp: apply_event_def elim!: bind_resultE)
    with store_tasks_None assms(1) True show ?thesis by (simp add: fold_event_def represents_def)
  next
    case False
    with assms(3) q represents_load [OF assms(1)] have
      ap: "sm_apply (map_of ts (ev_task_id e)) e = Inr st" and st: "store p st q = Inr p'"
      by (auto simp: apply_event_def elim!: bind_resultE)
    have old: "json_ok s" if "map_of ts (ev_task_id e) = Some s" for s
      using assms(1) that unfolding represents_def by (metis option.distinct(1) not_Some_eq)
    from sm_apply_json_ok [OF assms(2) False ap old] obtain s where
      s: "st = Some s" "json_ok s" "ev_task_id e = Some (t_task_id s)" by blast
    then show ?thesis
      using represents_store [OF assms(1) s(2)] st ap False
      by (simp add: fold_event_def as_projection_error_def)
  qed
qed

lemma apply_event_complete:
  assumes "represents p ts" "wf_event e" "ev_seq e = Some q" "fold_event ts e = Inr ts'"
  shows "(\<exists>st p'. apply_event p e = Inr (st, p')) \<or> (\<exists>w. apply_event p e = Inl (OverflowError w))"
proof (cases "ev_type e \<in> set SYSTEM_EVENTS")
  case True
  then show ?thesis using assms(3) by (simp add: apply_event_def store_def)
next
  case False
  with assms(4) obtain st where ap: "sm_apply (map_of ts (ev_task_id e)) e = Inr st"
    by (cases "sm_apply (map_of ts (ev_task_id e)) e")
      (auto simp: fold_event_def as_projection_error_def split: if_splits)
  have old: "json_ok s" if "map_of ts (ev_task_id e) = Some s" for s
    using assms(1) that unfolding represents_def by (metis option.distinct(1) not_Some_eq)
  from sm_apply_json_ok [OF assms(2) False ap old] have ok: "\<And>s. st = Some s \<Longrightarrow> json_ok s" by auto
  have eq: "apply_event p e = bind_result (store p st q) (\<lambda>p'. Inr (st, p'))"
    using False assms(3) ap represents_load [OF assms(1)] by (simp add: apply_event_def)
  show ?thesis
    using store_error [OF _ ok] unfolding eq by (cases "store p st q") auto
qed

end
