(* ===== verification/Task_Histories.thy ===== *)
theory Task_Histories
  imports State_Machine
begin

text \<open>
  What the state machine promises over whole histories: completion happens at most once, attempts
  are claimed in order and a superseded attempt is fenced off, terminal states absorb, a blocked
  task is left only by a human decision, and an attempt whose effect may have happened is not
  repeated unless a human authorises it.
\<close>

section \<open>Replay of one task\<close>

text \<open>\<open>apply\<close> on an existing task, for the events that belong to tasks.\<close>

definition task_step :: "task_state \<Rightarrow> event \<Rightarrow> task_state result" where
  "task_step s e = bind_result (sm_apply (Some s) e) (\<lambda>st. Inr (case st of None \<Rightarrow> s | Some s' \<Rightarrow> s'))"

definition task_event :: "event \<Rightarrow> bool" where
  "task_event e \<longleftrightarrow> validate e = None \<and> ev_type e \<notin> set SYSTEM_EVENTS"

lemma task_step_eq:
  "ev_type e \<notin> set SYSTEM_EVENTS \<Longrightarrow> task_step s e = Inr s' \<longleftrightarrow> sm_apply (Some s) e = Inr (Some s')"
  by (auto simp: task_step_def sm_apply_def fail_def bind_result_eq_Inr)

lemma task_stepD:
  assumes "task_step s e = Inr s'" "ev_type e \<notin> set SYSTEM_EVENTS"
  obtains n where "ev_task_id e = Some (t_task_id s)" "transition s e = Inr n"
    "s' = n\<lparr>t_updated_seq := ev_seq e\<rparr>" "ev_type e \<noteq> TASK_CREATED"
  using assms by (auto simp: task_step_eq elim: sm_apply_SomeD)

lemma history_append:
  assumes "history (es @ fs) s" "es \<noteq> []"
  shows "\<exists>s0. history es s0 \<and> fold_result task_step s0 fs = Inr s \<and> (\<forall>f\<in>set fs. task_event f)"
  using assms(1)
proof (induction fs arbitrary: s rule: rev_induct)
  case Nil
  then show ?case by auto
next
  case (snoc f fs)
  from snoc.prems have "history ((es @ fs) @ [f]) s" by simp
  then obtain s1 where s1: "history (es @ fs) s1" "validate f = None"
    "ev_type f \<notin> set SYSTEM_EVENTS" "sm_apply (Some s1) f = Inr (Some s)"
    by (rule history_snocE) (use assms(2) in auto)
  from snoc.IH [OF s1(1)] obtain s0 where "history es s0"
    "fold_result task_step s0 fs = Inr s1" "\<forall>f\<in>set fs. task_event f"
    by blast
  with s1 show ?case
    by (auto simp: fold_result_snoc task_step_eq task_event_def)
qed

lemma history_fold:
  "history es s0 \<Longrightarrow> fold_result task_step s0 fs = Inr s \<Longrightarrow> \<forall>f\<in>set fs. task_event f \<Longrightarrow> history (es @ fs) s"
proof (induction fs arbitrary: s rule: rev_induct)
  case Nil
  then show ?case by simp
next
  case (snoc f fs)
  then obtain s1 where "fold_result task_step s0 fs = Inr s1" "task_step s1 f = Inr s"
    by (auto simp: fold_result_snoc elim: bind_resultE)
  with snoc show ?case
    using history.step [of "es @ fs" s1 f s] by (simp add: task_event_def task_step_eq)
qed

lemma history_unique: "history es s \<Longrightarrow> history es t \<Longrightarrow> s = t"
proof (induction arbitrary: t rule: history.induct)
  case (created e s)
  from created.prems have "history ([] @ [e]) t" by simp
  then show ?case
    by (rule history_snocE) (use created in \<open>auto dest: history_NilE\<close>)
next
  case (step es s e s')
  from step.prems show ?case
    by (rule history_snocE) (use step history_nonempty [OF step.hyps(1)] in \<open>fastforce+\<close>)
qed

lemma history_valid: "history es s \<Longrightarrow> e \<in> set es \<Longrightarrow> validate e = None"
  by (induction rule: history.induct) auto

interpretation wf_replay: invariant_step task_step task_event wf_task
proof
  fix s e s'
  assume "wf_task s" "task_event e" "task_step s e = Inr s'"
  then show "wf_task s'"
    by (auto simp: task_event_def wf_transition elim: task_stepD)
qed

section \<open>Exactly once\<close>

definition n_of :: "event_type list \<Rightarrow> event list \<Rightarrow> nat" where
  "n_of ts es = length (filter (\<lambda>e. ev_type e \<in> set ts) es)"

lemma n_of_simps [simp]:
  "n_of ts [] = 0" "n_of ts (es @ fs) = n_of ts es + n_of ts fs"
  "n_of ts [e] = (if ev_type e \<in> set ts then 1 else 0)"
  by (simp_all add: n_of_def)

lemmas transitionDs = on_claimedD on_startedD on_progressD on_result_readyD on_verdictD on_completeD
  on_lease_expiredD on_retry_scheduledD on_failedD on_blockedD on_cancel_requestedD on_cancelledD
  human_decisionD on_late_resultD

text \<open>How one accepted event moves the counters of completion and acceptance.\<close>

definition once_delta :: "task_state \<Rightarrow> event \<Rightarrow> task_state \<Rightarrow> bool" where
  "once_delta s e s' \<longleftrightarrow>
     (t_status s' = COMPLETE \<longleftrightarrow> t_status s = COMPLETE \<or> ev_type e \<in> {TASK_COMPLETE, EFFECT_CONFIRMED})
     \<and> (ev_type e \<in> {TASK_COMPLETE, EFFECT_CONFIRMED} \<longrightarrow> t_status s \<noteq> COMPLETE)
     \<and> (t_accepted_result_id s' \<noteq> None \<longleftrightarrow> t_accepted_result_id s \<noteq> None \<or> ev_type e = RESULT_ACCEPTED)
     \<and> (ev_type e = RESULT_ACCEPTED \<longrightarrow> t_accepted_result_id s = None)"

lemma once_transition:
  assumes "wf_task s" "validate e = None" "transition s e = Inr s'"
  shows "once_delta s e s'"
  using transition_split [OF assms(3)]
proof (elim disjE conjE)
  assume t: "ev_type e = RESULT_ACCEPTED" and v: "on_verdict s e = Inr s'"
  have "t_accepted_result_id s = None" using assms(1) on_verdictD [OF v] by (simp add: wf_task_defs)
  then show ?thesis using t on_verdictD [OF v] validate_result_id [OF assms(2)] by (simp add: once_delta_def)
next
  assume t: "ev_type e = RESULT_REJECTED" and v: "on_verdict s e = Inr s'"
  show ?thesis using t on_verdictD [OF v] by (elim conjE disjE exE) (simp_all add: once_delta_def)
next
  assume t: "ev_type e = TASK_CANCELLED" and v: "on_cancelled s e = Inr s'" and nt: "t_status s \<notin> TERMINAL"
  show ?thesis using t nt on_cancelledD [OF v] by (elim conjE disjE exE) (simp_all add: once_delta_def TERMINAL_def)
next
  assume t: "ev_type e = EFFECT_CONFIRMED" and v: "human_decision s e = Inr s'"
  show ?thesis using t human_decisionD [OF v] by (elim conjE disjE exE) (simp_all add: once_delta_def)
next
  assume t: "ev_type e = RETRY_AUTHORIZED" and v: "human_decision s e = Inr s'"
  show ?thesis using t human_decisionD [OF v] by (elim conjE disjE exE) (simp_all add: once_delta_def)
next
  assume t: "ev_type e = LEASE_EXPIRED" and v: "on_lease_expired s e = Inr s'"
  show ?thesis using t on_lease_expiredD [OF v] by (elim conjE exE) (auto simp add: once_delta_def ACTIVE_LEASE_def)
next
  assume t: "ev_type e = TASK_FAILED" and v: "on_failed s e = Inr s'"
  show ?thesis using t on_failedD [OF v] by (elim conjE exE) (auto simp add: once_delta_def)
next
  assume t: "ev_type e = TASK_BLOCKED" and v: "on_blocked s e = Inr s'"
  show ?thesis using t on_blockedD [OF v] by (elim conjE exE) (auto simp add: once_delta_def)
next
  assume t: "ev_type e = TASK_CLAIMED" and v: "on_claimed s e = Inr s'"
  show ?thesis using t on_claimedD [OF v] by (elim conjE exE) (simp add: once_delta_def)
qed (auto dest: on_startedD on_progressD on_result_readyD on_completeD on_retry_scheduledD
    on_cancel_requestedD on_late_resultD simp: once_delta_def)

lemma once_history:
  "history es s \<Longrightarrow>
     n_of [TASK_CREATED] es = 1
     \<and> n_of [TASK_COMPLETE, EFFECT_CONFIRMED] es = (if t_status s = COMPLETE then 1 else 0)
     \<and> n_of [RESULT_ACCEPTED] es = (if t_accepted_result_id s \<noteq> None then 1 else 0)"
proof (induction rule: history.induct)
  case (created e s)
  with created_state_ok [of e] have "t_status s = QUEUED" "wf_task s"
    by (auto simp: sm_apply_created)
  with created show ?case by (simp add: wf_task_defs)
next
  case (step es s e s')
  from step.hyps(4,3) obtain n where n: "transition s e = Inr n" "s' = n\<lparr>t_updated_seq := ev_seq e\<rparr>"
    "ev_type e \<noteq> TASK_CREATED"
    by (auto elim: sm_apply_SomeD)
  have "once_delta s e n" using once_transition [OF history_wf [OF step.hyps(1)] step.hyps(2) n(1)] .
  then have a: "once_delta s e s'" by (simp add: once_delta_def n)
  have "n_of [TASK_COMPLETE, EFFECT_CONFIRMED] (es @ [e]) = (if t_status s' = COMPLETE then 1 else 0)"
    using step.IH a unfolding once_delta_def by auto
  moreover have "n_of [RESULT_ACCEPTED] (es @ [e]) = (if t_accepted_result_id s' \<noteq> None then 1 else 0)"
    using step.IH a unfolding once_delta_def by auto
  ultimately show ?case using step.IH n(3) by simp
qed


text \<open>
  C5. Exactly-once completion: a history creates its task once, accepts at most one result and
  completes at most once, by \<open>TASK_COMPLETE\<close> or by a human's \<open>EFFECT_CONFIRMED\<close> but never by
  both, and it completes exactly when the state says so.
\<close>

theorem exactly_once_completion:
  assumes "history es s"
  shows "n_of [TASK_CREATED] es = 1
    \<and> n_of [TASK_COMPLETE, EFFECT_CONFIRMED] es = (if t_status s = COMPLETE then 1 else 0)
    \<and> n_of [RESULT_ACCEPTED] es = (if t_accepted_result_id s \<noteq> None then 1 else 0)"
  by (rule once_history [OF assms])

section \<open>Attempts\<close>

definition claims :: "event list \<Rightarrow> int option list" where
  "claims es = map ev_attempt (filter (\<lambda>e. ev_type e = TASK_CLAIMED) es)"

lemma attempt_transition:
  assumes "transition s e = Inr s'"
  shows "if ev_type e = TASK_CLAIMED then ev_attempt e = Some (t_attempt s + 1) \<and> t_attempt s' = t_attempt s + 1
    else t_attempt s' = t_attempt s"
  by (insert transition_split [OF assms], elim disjE conjE; drule transitionDs; (elim conjE disjE exE)?; simp)

lemma task_id_transition:
  assumes "transition s e = Inr s'"
  shows "t_task_id s' = t_task_id s \<and> t_effect_class s' = t_effect_class s \<and> t_created_seq s' = t_created_seq s
    \<and> t_adapter s' = t_adapter s \<and> t_params s' = t_params s \<and> t_depends_on s' = t_depends_on s"
  by (insert transition_split [OF assms], elim disjE conjE; drule transitionDs; (elim conjE disjE exE)?; simp)

lemma effect_class_fold:
  "fold_result task_step s es = Inr s' \<Longrightarrow> \<forall>e\<in>set es. task_event e \<Longrightarrow> t_effect_class s' = t_effect_class s"
proof (induction es arbitrary: s)
  case (Cons e es)
  then obtain t where t: "task_step s e = Inr t" "fold_result task_step t es = Inr s'"
    by (auto elim: bind_resultE)
  then have "t_effect_class t = t_effect_class s"
    using Cons.prems(2) task_id_transition by (auto simp: task_event_def elim!: task_stepD)
  with Cons t show ?case by simp
qed simp

lemma claims_simps [simp]:
  "claims [] = []" "claims (es @ fs) = claims es @ claims fs"
  "claims [e] = (if ev_type e = TASK_CLAIMED then [ev_attempt e] else [])"
  by (simp_all add: claims_def)

lemma history_stepD:
  assumes "history es s" "sm_apply (Some s) e = Inr (Some s')" "ev_type e \<notin> set SYSTEM_EVENTS"
  shows "if ev_type e = TASK_CLAIMED then ev_attempt e = Some (t_attempt s + 1) \<and> t_attempt s' = t_attempt s + 1
    else t_attempt s' = t_attempt s"
  using assms(2,3) attempt_transition by (auto elim!: sm_apply_SomeD split: if_splits)

lemma upto_snoc: "0 \<le> (n::int) \<Longrightarrow> [1..n + 1] = [1..n] @ [n + 1]"
  by (simp add: upto_rec2)

lemma claims_history: "history es s \<Longrightarrow> claims es = map Some [1..t_attempt s]"
proof (induction rule: history.induct)
  case (created e s)
  with created_state_ok [of e] show ?case by (auto simp: sm_apply_created)
next
  case (step es s e s')
  have "0 \<le> t_attempt s" using history_wf [OF step.hyps(1)] by (simp add: wf_task_defs)
  with step history_stepD [OF step.hyps(1,4,3)] show ?case
    by (auto simp: upto_snoc split: if_splits)
qed

text \<open>
  Attempts are claimed strictly in order: the attempts named by the \<open>TASK_CLAIMED\<close> events of
  a history are 1, 2, and so on up to the task's current attempt, which never exceeds
  \<open>max_attempts\<close>.
\<close>

theorem attempts_claimed_in_order:
  assumes "history es s"
  shows "claims es = map Some [1..t_attempt s] \<and> t_attempt s \<le> t_max_attempts s"
  using claims_history [OF assms] history_wf [OF assms] by (simp add: wf_task_defs)

text \<open>
  The event types \<open>_transition\<close> takes without looking at the attempt they name: they are about the
  task, not about a run of it. What each of them leaves as it was, and the status it ends in.
\<close>

definition UNFENCED_EVENTS :: "event_type list" where
  "UNFENCED_EVENTS = [LATE_RESULT_DISCARDED, TASK_FAILED, TASK_BLOCKED, TASK_CANCEL_REQUESTED, TASK_CANCELLED]"

definition same_run :: "task_state \<Rightarrow> task_state \<Rightarrow> bool" where
  "same_run s s' \<longleftrightarrow> t_attempt s' = t_attempt s \<and> t_dispatch_id s' = t_dispatch_id s \<and> t_worker_id s' = t_worker_id s
     \<and> t_started s' = t_started s \<and> t_pending_result_id s' = t_pending_result_id s
     \<and> t_accepted_result_id s' = t_accepted_result_id s \<and> t_failure_kind s' = t_failure_kind s
     \<and> t_retryable s' = t_retryable s \<and> t_input s' = t_input s"

definition unfenced_status :: "event_type \<Rightarrow> task_status \<Rightarrow> task_status" where
  "unfenced_status t old = (if t = TASK_FAILED then FAILED else if t = TASK_BLOCKED then BLOCKED
     else if t = TASK_CANCELLED then CANCELLED else old)"

lemma same_run_simps [simp]:
  "same_run s (s\<lparr>t_status := x\<rparr>)" "same_run s (s\<lparr>t_status := x, t_last_reason := r\<rparr>)"
  "same_run s (s\<lparr>t_late_results := k\<rparr>)" "same_run s (s\<lparr>t_cancel_requested := b\<rparr>)"
  "same_run s (s\<lparr>t_status := x, t_decided_by := d\<rparr>)" "same_run s (s\<lparr>t_status := x, t_resolution := q, t_decided_by := d\<rparr>)"
  "same_run s (n\<lparr>t_updated_seq := u\<rparr>) = same_run s n"
  by (simp_all add: same_run_def)

lemma unfenced_transition:
  assumes "transition s e = Inr s'" "ev_attempt e \<noteq> Some (t_attempt s)" "ev_attempt e \<noteq> Some (t_attempt s + 1)"
  shows "ev_type e \<in> set UNFENCED_EVENTS \<and> same_run s s' \<and> t_status s' = unfenced_status (ev_type e) (t_status s)"
  by (insert transition_split [OF assms(1)] assms(2,3), elim disjE conjE; drule transitionDs;
      elim conjE disjE exE; simp add: UNFENCED_EVENTS_def unfenced_status_def fence_None_iff)

lemma validate_system_attempt:
  "validate e = None \<Longrightarrow> ev_type e \<in> set SYSTEM_EVENTS \<Longrightarrow> ev_attempt e = None"
  by (auto simp: validate_def check_simps has_field_def split: if_splits)

lemma superseded_attempt:
  assumes "history (pre @ c1 # mid @ c2 # post) s" "ev_type c1 = TASK_CLAIMED" "ev_type c2 = TASK_CLAIMED"
  shows "\<exists>a. ev_attempt c1 = Some a \<and> a < t_attempt s"
proof -
  have c: "claims pre @ ev_attempt c1 # claims mid @ ev_attempt c2 # claims post = map Some [1..t_attempt s]"
    using claims_history [OF assms(1)] assms(2,3) by (simp add: claims_def)
  then obtain a b where ab: "ev_attempt c1 = Some a" "ev_attempt c2 = Some b"
    by (metis (no_types, lifting) in_set_conv_decomp list.set_map image_iff append_Cons append_assoc)
  have "sorted_wrt (<) [1..t_attempt s]" by simp
  then have "sorted_wrt (\<lambda>x y. the x < the y) (map Some [1..t_attempt s])"
    by (simp add: sorted_wrt_map)
  then have "a < b" using ab unfolding c [symmetric] by (simp add: sorted_wrt_append)
  moreover have "Some b \<in> set (map Some [1..t_attempt s])" unfolding c [symmetric] using ab by simp
  then have "b \<le> t_attempt s" by auto
  ultimately show ?thesis using ab by auto
qed

text \<open>
  C7. A superseded worker is fenced off: once a second claim follows a first one, every valid event
  that names the first claim's attempt is refused with a \<open>TransitionError\<close> (a start, progress, a
  result, its verdict, completion, lease expiry, retry, human decision, another claim or creation),
  unless it is one of the five kinds that are about the task and not about a run of it: a discarded
  late result, the task's failure, block, cancellation or the request for it. Those leave the current
  attempt with its dispatch, worker, results and failure as they were, and the status becomes the one
  the kind says.
\<close>

theorem superseded_attempt_refused:
  assumes "history (pre @ c1 # mid @ c2 # post) s"
    and "ev_type c1 = TASK_CLAIMED" and "ev_type c2 = TASK_CLAIMED"
    and "validate e = None" and "ev_attempt e = ev_attempt c1"
  shows "(\<exists>why. sm_apply (Some s) e = Inl (TransitionError why))
    \<or> (ev_type e \<in> set UNFENCED_EVENTS
       \<and> (\<exists>s'. sm_apply (Some s) e = Inr (Some s') \<and> same_run s s' \<and> t_status s' = unfenced_status (ev_type e) (t_status s)))"
proof -
  obtain a where a: "ev_attempt e = Some a" "a < t_attempt s"
    using superseded_attempt [OF assms(1-3)] assms(5) by auto
  have task: "ev_type e \<notin> set SYSTEM_EVENTS"
    using validate_system_attempt [OF assms(4)] a(1) by auto
  consider st where "sm_apply (Some s) e = Inr st" | why where "sm_apply (Some s) e = Inl (TransitionError why)"
    using sm_apply_outcome [OF assms(4), of "Some s"] by (auto simp: refused_or_applied_def)
  then show ?thesis
  proof cases
    case (1 st)
    then obtain n where n: "transition s e = Inr n" "st = Some (n\<lparr>t_updated_seq := ev_seq e\<rparr>)"
      using task by (auto elim: sm_apply_SomeD)
    with unfenced_transition [OF n(1)] a 1 show ?thesis by auto
  qed blast
qed

section \<open>Terminal and blocked tasks\<close>

lemma terminal_task_step:
  assumes "t_status s \<in> TERMINAL" "task_event e" "task_step s e = Inr s'"
  shows "ev_type e = LATE_RESULT_DISCARDED \<and> s' = s\<lparr>t_late_results := t_late_results s + 1, t_updated_seq := ev_seq e\<rparr>"
proof -
  from assms(2,3) obtain n where n: "transition s e = Inr n" "s' = n\<lparr>t_updated_seq := ev_seq e\<rparr>"
    by (auto simp: task_event_def elim: task_stepD)
  from transition_split [OF n(1)] assms(1)
  have "ev_type e = LATE_RESULT_DISCARDED" "on_late_result s e = Inr n" by blast+
  with n(2) on_late_resultD show ?thesis by auto
qed

lemma terminal_fold:
  "t_status s \<in> TERMINAL \<Longrightarrow> \<forall>e\<in>set es. task_event e \<Longrightarrow> fold_result task_step s es = Inr s' \<Longrightarrow>
   (\<forall>e\<in>set es. ev_type e = LATE_RESULT_DISCARDED)
   \<and> s' = s\<lparr>t_late_results := t_late_results s + int (length es), t_updated_seq := t_updated_seq s'\<rparr>"
proof (induction es arbitrary: s)
  case Nil
  then show ?case by simp
next
  case (Cons e es)
  from Cons.prems(3) obtain t where t: "task_step s e = Inr t" "fold_result task_step t es = Inr s'"
    by (auto elim: bind_resultE)
  from Cons.prems(2) have "task_event e" by simp
  from terminal_task_step [OF Cons.prems(1) this t(1)] have
    late: "ev_type e = LATE_RESULT_DISCARDED" and
    u: "t = s\<lparr>t_late_results := t_late_results s + 1, t_updated_seq := ev_seq e\<rparr>" by blast+
  from u Cons.prems(1) have over: "t_status t \<in> TERMINAL" by simp
  from Cons.IH [OF over _ t(2)] Cons.prems(2) have all: "\<forall>e\<in>set es. ev_type e = LATE_RESULT_DISCARDED"
    and s': "s' = t\<lparr>t_late_results := t_late_results t + int (length es), t_updated_seq := t_updated_seq s'\<rparr>"
    by simp_all
  have "s' = s\<lparr>t_late_results := t_late_results s + int (length (e # es)), t_updated_seq := t_updated_seq s'\<rparr>"
    by (subst s') (simp add: u)
  with late all show ?case by simp
qed

text \<open>
  Terminal states absorb: after a history has reached COMPLETE, FAILED or CANCELLED, every
  further event of the task is a \<open>LATE_RESULT_DISCARDED\<close>, and nothing of the state changes but
  the count of late results and the sequence number of the last event.
\<close>

theorem terminal_states_absorb:
  assumes "history es s" and "t_status s \<in> TERMINAL" and "history (es @ fs) s'"
  shows "(\<forall>e\<in>set fs. ev_type e = LATE_RESULT_DISCARDED)
    \<and> s' = s\<lparr>t_late_results := t_late_results s + int (length fs), t_updated_seq := t_updated_seq s'\<rparr>"
proof -
  from history_append [OF assms(3) history_nonempty [OF assms(1)]] obtain s0
    where s0: "history es s0" "fold_result task_step s0 fs = Inr s'" "\<forall>f\<in>set fs. task_event f" by blast
  moreover have "s0 = s" using history_unique [OF s0(1) assms(1)] .
  ultimately show ?thesis using terminal_fold [OF assms(2)] by simp
qed

text \<open>
  A BLOCKED task leaves BLOCKED only by a human decision: the event is \<open>EFFECT_CONFIRMED\<close>,
  \<open>RETRY_AUTHORIZED\<close> or \<open>TASK_CANCELLED\<close>, it names an actor, who is recorded in the state; the
  first two name the blocked attempt, and a cancellation records that the effect is unknown.
\<close>

theorem blocked_left_by_human_decision:
  assumes "validate e = None" and "ev_type e \<notin> set SYSTEM_EVENTS"
    and "t_status s = BLOCKED" and "sm_apply (Some s) e = Inr (Some s')" and "t_status s' \<noteq> BLOCKED"
  shows "\<exists>a. get (ev_payload e) ''actor'' = JStr a \<and> valid_id a \<and> t_decided_by s' = Some a
    \<and> (ev_type e = EFFECT_CONFIRMED \<and> ev_attempt e = Some (t_attempt s) \<and> t_status s' = COMPLETE
         \<and> t_resolution s' = Some RESOLVED_EFFECT_CONFIRMED
       \<or> ev_type e = RETRY_AUTHORIZED \<and> ev_attempt e = Some (t_attempt s) \<and> t_status s' = QUEUED
         \<and> t_attempt s' < t_max_attempts s'
       \<or> ev_type e = TASK_CANCELLED \<and> t_status s' = CANCELLED
         \<and> t_resolution s' = Some RESOLVED_CANCELLED_EFFECT_UNKNOWN)"
proof -
  from assms(4,2) obtain n where n: "transition s e = Inr n" "s' = n\<lparr>t_updated_seq := ev_seq e\<rparr>"
    by (auto elim: sm_apply_SomeD)
  have valid: "valid_id a" if "get (ev_payload e) ''actor'' = JStr a" for a
    using validate_actor [OF assms(1)] that by (auto simp: has_key_def get_def split: option.splits)
  from transition_split [OF n(1)] assms(3,5) n(2) have
    "ev_type e = EFFECT_CONFIRMED \<and> human_decision s e = Inr n
     \<or> ev_type e = RETRY_AUTHORIZED \<and> human_decision s e = Inr n
     \<or> ev_type e = TASK_CANCELLED \<and> on_cancelled s e = Inr n"
    by (auto simp: BLOCKED_EVENTS_def dest: on_late_resultD on_cancel_requestedD)
  then show ?thesis
  proof (elim disjE conjE)
    assume t: "ev_type e = EFFECT_CONFIRMED" and h: "human_decision s e = Inr n"
    from human_decisionD [OF h] t obtain a where
      "map_of (ev_payload e) ''actor'' = Some (JStr a)" "ev_attempt e = Some (t_attempt s)"
      "t_status n = COMPLETE" "t_resolution n = Some RESOLVED_EFFECT_CONFIRMED" "t_decided_by n = Some a"
      by (elim conjE exE disjE) simp_all
    with valid t n(2) show ?thesis by (intro exI [of _ a]) (simp add: get_def)
  next
    assume t: "ev_type e = RETRY_AUTHORIZED" and h: "human_decision s e = Inr n"
    from human_decisionD [OF h] t obtain a where
      "map_of (ev_payload e) ''actor'' = Some (JStr a)" "ev_attempt e = Some (t_attempt s)"
      "t_status n = QUEUED" "t_attempt n < t_max_attempts n" "t_decided_by n = Some a"
      by (elim conjE exE disjE) simp_all
    with valid t n(2) show ?thesis by (intro exI [of _ a]) (simp add: get_def)
  next
    assume t: "ev_type e = TASK_CANCELLED" and h: "on_cancelled s e = Inr n"
    from on_cancelledD [OF h] assms(3) obtain a where
      "get (ev_payload e) ''actor'' = JStr a" "t_status n = CANCELLED"
      "t_resolution n = Some RESOLVED_CANCELLED_EFFECT_UNKNOWN" "t_decided_by n = Some a"
      by (elim conjE exE disjE) simp_all
    with valid t n(2) show ?thesis by (intro exI [of _ a]) simp
  qed
qed

section \<open>No blind retry\<close>

text \<open>
  A task in doubt: an attempt was started, its outcome is unknown and its effect is not known to
  be idempotent, and no human has decided yet.
\<close>

definition in_doubt :: "int \<Rightarrow> task_state \<Rightarrow> bool" where
  "in_doubt a s \<longleftrightarrow> t_attempt s = a \<and> \<not> may_auto_retry (t_effect_class s)
     \<and> (t_status s \<in> {BLOCKED} \<union> TERMINAL \<or> must_block s)"

definition not_authorised :: "int \<Rightarrow> event \<Rightarrow> bool" where
  "not_authorised a e \<longleftrightarrow> task_event e \<and> \<not> (ev_type e = RETRY_AUTHORIZED \<and> ev_attempt e = Some a)"

lemma must_block_iff:
  "must_block s \<longleftrightarrow> t_status s = RETRY_PENDING
     \<and> (t_failure_kind s = Some ''lease_lost'' \<or> uncertain_rejection s) \<and> t_started s
     \<and> \<not> may_auto_retry (t_effect_class s)"
  by (simp add: must_block_def decide_after_failure_def)

lemma must_block_cong:
  "t_status s' = t_status s \<Longrightarrow> t_failure_kind s' = t_failure_kind s \<Longrightarrow> t_last_reason s' = t_last_reason s \<Longrightarrow>
   t_started s' = t_started s \<Longrightarrow> t_effect_class s' = t_effect_class s \<Longrightarrow> must_block s' = must_block s"
  by (simp add: must_block_iff uncertain_rejection_def)

lemma in_doubt_transition:
  assumes "in_doubt a s" "transition s e = Inr n" "\<not> (ev_type e = RETRY_AUTHORIZED \<and> ev_attempt e = Some a)"
  shows "in_doubt a n"
proof (cases "t_status s \<in> TERMINAL")
  case True
  with transition_split [OF assms(2)] have "on_late_result s e = Inr n" by blast
  with on_late_resultD have "n = s\<lparr>t_late_results := t_late_results s + 1\<rparr>" by blast
  with assms(1) True show ?thesis by (simp add: in_doubt_def)
next
  case nt: False
  have ne: "\<not> may_auto_retry (t_effect_class n)" "t_attempt n = a"
    if "ev_type e \<noteq> TASK_CLAIMED"
    using assms(1) that task_id_transition [OF assms(2)] attempt_transition [OF assms(2)]
    by (simp_all add: in_doubt_def)
  show ?thesis
  proof (cases "t_status s = BLOCKED")
    case True
    from transition_split [OF assms(2)] True have ways:
      "on_late_result s e = Inr n \<or> on_cancel_requested s e = Inr n \<or> on_cancelled s e = Inr n
        \<or> ev_type e \<in> set HUMAN_DECISIONS \<and> human_decision s e = Inr n" "ev_type e \<noteq> TASK_CLAIMED"
      by (auto simp: BLOCKED_EVENTS_def HUMAN_DECISIONS_def)
    have "t_status n \<in> {BLOCKED, CANCELLED, COMPLETE}"
      by (insert ways(1) True assms(1,3), elim disjE conjE; drule transitionDs; (elim conjE disjE exE)?;
          simp add: in_doubt_def HUMAN_DECISIONS_def)
    with ne \<open>ev_type e \<noteq> TASK_CLAIMED\<close> show ?thesis by (auto simp: in_doubt_def TERMINAL_def)
  next
    case False
    with nt assms(1) have mb: "must_block s" "t_status s = RETRY_PENDING" by (auto simp: in_doubt_def must_block_iff)
    have not_claim: "ev_type e \<noteq> TASK_CLAIMED"
      using transition_split [OF assms(2)] mb(2) by (auto dest: on_claimedD)
    have ways: "on_late_result s e = Inr n \<or> on_cancel_requested s e = Inr n \<or> on_blocked s e = Inr n"
      by (insert transition_split [OF assms(2)] mb, elim disjE conjE; (simp; fail)?; drule transitionDs; simp add: ACTIVE_LEASE_def must_block_def)
    have "t_status n = BLOCKED \<or> must_block n"
      by (insert ways mb, elim disjE; drule transitionDs) (auto simp: must_block_iff uncertain_rejection_def)
    with ne [OF not_claim] show ?thesis by (auto simp: in_doubt_def)
  qed
qed

interpretation doubt: invariant_step task_step "not_authorised a" "in_doubt a"
proof
  fix s e s'
  assume s: "in_doubt a s" and e: "not_authorised a e" "task_step s e = Inr s'"
  from e obtain n where n: "transition s e = Inr n" "s' = n\<lparr>t_updated_seq := ev_seq e\<rparr>"
    by (auto simp: task_event_def not_authorised_def elim: task_stepD)
  have "in_doubt a n" using in_doubt_transition [OF s n(1)] e(1) by (simp add: not_authorised_def)
  moreover have "must_block s' = must_block n" by (rule must_block_cong) (simp_all add: n)
  ultimately show "in_doubt a s'" using n(2) by (simp add: in_doubt_def)
qed

lemma claim_needs_authorisation:
  assumes "in_doubt a s" "\<forall>e\<in>set (es @ [c]). task_event e" "fold_result task_step s (es @ [c]) = Inr s'"
    "ev_type c = TASK_CLAIMED"
  shows "\<exists>r\<in>set es. ev_type r = RETRY_AUTHORIZED \<and> ev_attempt r = Some a"
proof (rule ccontr)
  assume "\<not> ?thesis"
  with assms(2) have ok: "\<And>e. e \<in> set es \<Longrightarrow> not_authorised a e" by (auto simp: not_authorised_def)
  from assms(3) obtain t where t: "fold_result task_step s es = Inr t" "task_step t c = Inr s'"
    by (auto simp: fold_result_snoc elim: bind_resultE)
  have "in_doubt a t" using doubt.fold_inv [OF assms(1) ok t(1)] .
  then have "t_status t \<noteq> QUEUED" by (auto simp: in_doubt_def must_block_iff TERMINAL_def)
  moreover from t(2) assms(2) obtain n where "transition t c = Inr n"
    by (auto simp: task_event_def elim: task_stepD)
  then have "on_claimed t c = Inr n" using assms(4) transition_split by fastforce
  ultimately show False using on_claimedD by blast
qed

text \<open>The start of an attempt leaves its mark until the attempt is over.\<close>

definition start_marked :: "event list \<Rightarrow> task_state \<Rightarrow> bool" where
  "start_marked es s \<longleftrightarrow> (\<forall>e\<in>set es. ev_type e = TASK_STARTED \<longrightarrow>
     (\<exists>k. ev_attempt e = Some k \<and> k \<le> t_attempt s \<and> (k = t_attempt s \<longrightarrow> t_status s \<noteq> CLAIMED)))"

lemma claimed_transition:
  assumes "transition s e = Inr s'" "t_status s' = CLAIMED"
  shows "t_status s = CLAIMED \<or> t_attempt s' = t_attempt s + 1"
  by (insert transition_split [OF assms(1)] assms(2), elim disjE conjE; drule transitionDs;
      (elim conjE disjE exE)?; simp)

lemma start_marked_transition:
  assumes "start_marked es s" "transition s e = Inr n"
  shows "start_marked (es @ [e]) (n\<lparr>t_updated_seq := q\<rparr>)"
proof -
  have mono: "t_attempt s \<le> t_attempt n" using attempt_transition [OF assms(2)] by (simp split: if_splits)
  have old: "start_marked es n"
    unfolding start_marked_def
  proof (intro ballI impI)
    fix x assume x: "x \<in> set es" "ev_type x = TASK_STARTED"
    with assms(1) obtain k where k: "ev_attempt x = Some k" "k \<le> t_attempt s"
      "k = t_attempt s \<longrightarrow> t_status s \<noteq> CLAIMED" by (auto simp: start_marked_def)
    have "t_status n \<noteq> CLAIMED" if "k = t_attempt n"
      using claimed_transition [OF assms(2)] that k mono by fastforce
    with k mono show "\<exists>k. ev_attempt x = Some k \<and> k \<le> t_attempt n \<and> (k = t_attempt n \<longrightarrow> t_status n \<noteq> CLAIMED)"
      by auto
  qed
  have new: "ev_attempt e = Some (t_attempt n) \<and> t_status n \<noteq> CLAIMED" if "ev_type e = TASK_STARTED"
    using transition_split [OF assms(2)] that by (auto dest!: on_startedD simp: fence_None_iff)
  from old new show ?thesis by (auto simp: start_marked_def)
qed

lemma history_start_marked: "history es s \<Longrightarrow> start_marked es s"
proof (induction rule: history.induct)
  case (created e s)
  then show ?case by (simp add: start_marked_def)
next
  case (step es s e s')
  then show ?case using start_marked_transition by (auto elim!: sm_apply_SomeD)
qed

lemma lease_lost_in_doubt:
  assumes "history (pre @ [x]) s" "ev_type x = LEASE_EXPIRED"
    "st \<in> set pre" "ev_type st = TASK_STARTED" "ev_attempt st = ev_attempt x" "ev_attempt x = Some a"
    "\<not> may_auto_retry (t_effect_class s)"
  shows "in_doubt a s"
proof -
  have "pre \<noteq> []" using assms(3) by auto
  with assms(1) obtain s1 where h: "history pre s1" and ap: "sm_apply (Some s1) x = Inr (Some s)"
    by (auto elim!: history_snocE)
  from ap assms(2) obtain n where n: "transition s1 x = Inr n" "s = n\<lparr>t_updated_seq := ev_seq x\<rparr>"
    by (auto simp: SYSTEM_EVENTS_def elim: sm_apply_SomeD)
  then have "on_lease_expired s1 x = Inr n" using transition_split assms(2) by fastforce
  from on_lease_expiredD [OF this] obtain r where d: "t_status s1 \<in> ACTIVE_LEASE" "fence s1 x True = None"
    "n = s1\<lparr>t_status := RETRY_PENDING, t_failure_kind := Some ''lease_lost'', t_retryable := None,
               t_last_reason := Some (''lease_expired:'' @ r)\<rparr>" by blast
  have a: "t_attempt s1 = a" using d(2) assms(6) by (simp add: fence_None_iff)
  have "t_status s1 \<noteq> CLAIMED"
    using history_start_marked [OF h] assms(3-6) a by (auto simp: start_marked_def)
  then have "t_started s1"
    using d(1) history_wf [OF h] by (simp add: ACTIVE_LEASE_def wf_task_defs)
  with a d(3) n(2) assms(7) show ?thesis by (simp add: in_doubt_def must_block_iff)
qed

lemma retry_needs_authorisation:
  assumes "history (pre @ [x] @ mid @ [c]) s"
    and "ev_type x = LEASE_EXPIRED" and "ev_type c = TASK_CLAIMED"
    and "st \<in> set pre" and "ev_type st = TASK_STARTED" and "ev_attempt st = ev_attempt x"
    and "t_effect_class s \<noteq> ''idempotent''"
  shows "\<exists>r\<in>set mid. ev_type r = RETRY_AUTHORIZED \<and> ev_attempt r = ev_attempt x
    \<and> (\<exists>actor. get (ev_payload r) ''actor'' = JStr actor \<and> valid_id actor)"
proof -
  from history_append [of "pre @ [x]" "mid @ [c]" s] assms(1) obtain s0 where
    s0: "history (pre @ [x]) s0" "fold_result task_step s0 (mid @ [c]) = Inr s" "\<forall>f\<in>set (mid @ [c]). task_event f"
    by auto
  have "t_effect_class s = t_effect_class s0" using effect_class_fold [OF s0(2,3)] .
  with assms(7) have ne: "\<not> may_auto_retry (t_effect_class s0)"
    by (simp add: may_auto_retry_def RETRY_SAFE_EFFECT_CLASS_def)
  have "validate x = None" using history_valid [OF s0(1)] by simp
  with assms(2) obtain a where a: "ev_attempt x = Some a"
    using validate_required(1) [of x] by (auto simp: has_field_def)
  from claim_needs_authorisation [OF lease_lost_in_doubt [OF s0(1) assms(2,4,5,6) a ne] s0(3,2) assms(3)]
  obtain r where r: "r \<in> set mid" "ev_type r = RETRY_AUTHORIZED" "ev_attempt r = Some a" by blast
  moreover have "validate r = None" using s0(3) r(1) by (simp add: task_event_def)
  then have "\<exists>actor. get (ev_payload r) ''actor'' = JStr actor \<and> valid_id actor"
    using validate_actor [of r] r(2) by (auto simp: HUMAN_DECISIONS_def)
  ultimately show ?thesis using a by auto
qed

text \<open>
  C4. No blind retry: when the lease of a started attempt is lost and the task's effect is not
  classified idempotent, every later claim of the task is preceded by a \<open>RETRY_AUTHORIZED\<close> event
  that names that attempt and a human actor. No automatic path executes the effect again.
\<close>

theorem no_blind_retry:
  assumes "history (pre @ [x] @ mid @ [c]) s"
    and "ev_type x = LEASE_EXPIRED" and "ev_type c = TASK_CLAIMED"
    and "st \<in> set pre" and "ev_type st = TASK_STARTED" and "ev_attempt st = ev_attempt x"
    and "t_effect_class s \<noteq> ''idempotent''"
  shows "\<exists>r\<in>set mid. ev_type r = RETRY_AUTHORIZED \<and> ev_attempt r = ev_attempt x
    \<and> (\<exists>actor. get (ev_payload r) ''actor'' = JStr actor \<and> valid_id actor)"
  by (rule retry_needs_authorisation [OF assms])

section \<open>Failed attempts are never stuck\<close>

text \<open>The event that carries out each decision (\<open>Controller._decide\<close>), and where it leads.\<close>

fun decision_type :: "decision \<Rightarrow> event_type" where
  "decision_type RETRY = TASK_RETRY_SCHEDULED"
| "decision_type FAIL = TASK_FAILED"
| "decision_type BLOCK = TASK_BLOCKED"
| "decision_type CANCEL = TASK_CANCELLED"

fun decision_status :: "decision \<Rightarrow> task_status" where
  "decision_status RETRY = QUEUED"
| "decision_status FAIL = FAILED"
| "decision_status BLOCK = BLOCKED"
| "decision_status CANCEL = CANCELLED"

lemma decision_cases:
  assumes "t_status s = RETRY_PENDING"
  shows "\<exists>d. decide_after_failure s = Inr d \<and> (d = CANCEL \<longrightarrow> t_cancel_requested s)"
  using assms by (simp add: decide_after_failure_def)

lemma decision_transition:
  assumes "t_status s = RETRY_PENDING" "decide_after_failure s = Inr d" "validate e = None"
    "ev_type e = decision_type d" "ev_attempt e = Some (t_attempt s)" "d = CANCEL \<longrightarrow> t_cancel_requested s"
  shows "\<exists>n. transition s e = Inr n \<and> t_status n = decision_status d"
proof (cases d)
  case RETRY
  with assms show ?thesis by (simp add: transition_def TERMINAL_def on_retry_scheduled_def)
next
  case FAIL
  with assms reason_event_total [OF assms(3)] show ?thesis
    by (auto simp: transition_def TERMINAL_def on_failed_def must_block_def)
next
  case BLOCK
  with assms reason_event_total [OF assms(3)] show ?thesis
    by (auto simp: transition_def TERMINAL_def on_blocked_def)
next
  case CANCEL
  with assms actor_total [OF assms(3)] show ?thesis
    by (auto simp: transition_def TERMINAL_def on_cancelled_def must_block_def)
qed

text \<open>
  C8. A failed attempt is never stuck: in RETRY_PENDING the decision is defined, and every valid
  event of the decided kind that names the task and its attempt is accepted and leads to
  QUEUED, FAILED, BLOCKED or CANCELLED as decided.
\<close>

theorem failed_attempt_is_decided:
  assumes "t_status s = RETRY_PENDING"
  shows "\<exists>d. decide_after_failure s = Inr d \<and>
    (\<forall>e. validate e = None \<and> ev_type e = decision_type d \<and> ev_task_id e = Some (t_task_id s)
       \<and> ev_attempt e = Some (t_attempt s) \<longrightarrow>
       (\<exists>s'. sm_apply (Some s) e = Inr (Some s') \<and> t_status s' = decision_status d))"
proof -
  from decision_cases [OF assms] obtain d where d: "decide_after_failure s = Inr d"
    "d = CANCEL \<longrightarrow> t_cancel_requested s" by blast
  have "\<exists>s'. sm_apply (Some s) e = Inr (Some s') \<and> t_status s' = decision_status d"
    if e: "validate e = None" "ev_type e = decision_type d" "ev_task_id e = Some (t_task_id s)"
      "ev_attempt e = Some (t_attempt s)" for e
  proof -
    from decision_transition [OF assms d(1) e(1,2,4) d(2)] obtain n where
      "transition s e = Inr n" "t_status n = decision_status d" by blast
    moreover have "ev_type e \<notin> set SYSTEM_EVENTS" "ev_type e \<noteq> TASK_CREATED"
      using e(2) by (cases d; simp add: SYSTEM_EVENTS_def)+
    ultimately show ?thesis using e(3) by (simp add: sm_apply_def)
  qed
  with d(1) show ?thesis by blast
qed

section \<open>Executable histories\<close>

fun history_of :: "event list \<Rightarrow> task_state result" where
  "history_of [] = fail ''no events''"
| "history_of (e # es) =
     (if validate e \<noteq> None \<or> ev_type e \<noteq> TASK_CREATED \<or> \<not> list_all task_event es then fail ''not a task history''
      else bind_result (sm_apply None e) (\<lambda>st. case st of None \<Rightarrow> fail ''unknown task''
        | Some s \<Rightarrow> fold_result task_step s es))"

lemma history_of_sound: "history_of es = Inr s \<Longrightarrow> history es s"
proof (cases es)
  case (Cons e fs)
  assume "history_of es = Inr s"
  with Cons obtain s0 where "validate e = None" "ev_type e = TASK_CREATED" "\<forall>f\<in>set fs. task_event f"
    "sm_apply None e = Inr (Some s0)" "fold_result task_step s0 fs = Inr s"
    by (auto simp: list_all_iff fail_def split: if_splits option.splits elim!: bind_resultE)
  with Cons show ?thesis
    using history_fold [OF history.created] by fastforce
qed (simp add: fail_def)

section \<open>A sample task\<close>

text \<open>
  One task whose effect is not idempotent: its first attempt is started and loses its lease, a
  human authorises a second attempt, and the second attempt's result is accepted.
\<close>

definition sample_event :: "event_type \<Rightarrow> int option \<Rightarrow> string option \<Rightarrow> string option \<Rightarrow> payload \<Rightarrow> event" where
  "sample_event t a d r p = \<lparr>ev_type = t, ev_task_id = Some ''t1'', ev_attempt = a, ev_dispatch_id = d,
     ev_worker_id = (if d = None then None else Some ''w1''), ev_result_id = r, ev_payload = p,
     ev_event_id = ''e'', ev_ts_utc = ''2026-01-01T00:00:00.000000Z'', ev_dedupe_key = None, ev_schema_v = 1,
     ev_seq = None, ev_prev_hash = None, ev_hash = None\<rparr>"

definition sample_created :: event where
  "sample_created = sample_event TASK_CREATED None None None
     [(''adapter'', JStr ''shell''), (''params'', JObj []), (''effect_class'', JStr ''non_idempotent''),
      (''max_attempts'', JInt 2), (''lease_ttl_s'', JInt 30)]"

definition sample_claim :: "int \<Rightarrow> string \<Rightarrow> event" where
  "sample_claim a d = sample_event TASK_CLAIMED (Some a) (Some d) None [(''ttl_s'', JInt 30)]"

definition sample_start :: "int \<Rightarrow> string \<Rightarrow> event" where
  "sample_start a d = sample_event TASK_STARTED (Some a) (Some d) None []"

definition sample_lost :: event where
  "sample_lost = sample_event LEASE_EXPIRED (Some 1) (Some ''d1'') None [(''reason'', JStr ''ttl'')]"

definition sample_block :: event where
  "sample_block = sample_event TASK_BLOCKED (Some 1) None None [(''reason'', JStr ''outcome unknown'')]"

definition sample_authorised :: event where
  "sample_authorised = sample_event RETRY_AUTHORIZED (Some 1) None None
     [(''actor'', JStr ''ann''), (''reason'', JStr ''checked by hand'')]"

definition sample_finish :: "event list" where
  "sample_finish =
     [sample_event RESULT_READY (Some 2) (Some ''d2'') (Some ''r1'')
        [(''artifacts'', JList []), (''outcome'', JStr ''success'')],
      sample_event RESULT_ACCEPTED (Some 2) (Some ''d2'') (Some ''r1'') [],
      sample_event TASK_COMPLETE (Some 2) (Some ''d2'') (Some ''r1'') []]"

definition sample_late :: event where
  "sample_late = sample_event LATE_RESULT_DISCARDED None (Some ''d1'') (Some ''r0'') [(''reason'', JStr ''stale'')]"

definition sample_lost_log :: "event list" where
  "sample_lost_log = [sample_created, sample_claim 1 ''d1'', sample_start 1 ''d1'', sample_lost]"

definition sample_log :: "event list" where
  "sample_log = sample_lost_log @ [sample_block, sample_authorised, sample_claim 2 ''d2'', sample_start 2 ''d2'']
     @ sample_finish"

definition ends_in :: "event list \<Rightarrow> (task_state \<Rightarrow> bool) \<Rightarrow> bool" where
  "ends_in es P = (case history_of es of Inl _ \<Rightarrow> False | Inr s \<Rightarrow> P s)"

lemma ends_inD: "ends_in es P \<Longrightarrow> \<exists>s. history es s \<and> P s"
  using history_of_sound by (auto simp: ends_in_def split: sum.splits)

lemma sample_log_complete: "ends_in sample_log (\<lambda>s. t_status s = COMPLETE \<and> t_attempt s = 2)"
  by code_simp

theorem history_wf_task_witness: "\<exists>s. history sample_log s \<and> t_status s = COMPLETE \<and> wf_task s"
  using ends_inD [OF sample_log_complete] history_wf_task by blast

theorem sm_apply_total_witness:
  "validate sample_late = None \<and> refused_or_applied (sm_apply None sample_late)"
proof -
  have v: "validate sample_late = None" by code_simp
  show ?thesis using v sm_apply_total [OF v] by blast
qed

theorem exactly_once_completion_witness:
  "\<exists>s. history sample_log s \<and> t_status s = COMPLETE \<and> n_of [TASK_COMPLETE, EFFECT_CONFIRMED] sample_log = 1"
  using ends_inD [OF sample_log_complete] exactly_once_completion by fastforce

theorem attempts_claimed_in_order_witness:
  "\<exists>s. history sample_log s \<and> claims sample_log = map Some [1..2]"
  using ends_inD [OF sample_log_complete] attempts_claimed_in_order by fastforce

theorem superseded_attempt_refused_witness:
  "\<exists>s why. history sample_log s \<and> sm_apply (Some s) (sample_start 1 ''d1'') = Inl (TransitionError why)"
proof -
  have log: "sample_log = [sample_created] @ sample_claim 1 ''d1''
      # [sample_start 1 ''d1'', sample_lost, sample_block, sample_authorised]
      @ sample_claim 2 ''d2'' # (sample_start 2 ''d2'' # sample_finish)"
    by (simp add: sample_log_def sample_lost_log_def)
  obtain s where s: "history sample_log s" using ends_inD [OF sample_log_complete] by blast
  have "ev_type (sample_claim 1 ''d1'') = TASK_CLAIMED" "ev_type (sample_claim 2 ''d2'') = TASK_CLAIMED"
    "ev_attempt (sample_start 1 ''d1'') = ev_attempt (sample_claim 1 ''d1'')"
    by (simp_all add: sample_claim_def sample_start_def sample_event_def)
  moreover have "ev_type (sample_start 1 ''d1'') \<notin> set UNFENCED_EVENTS"
    by (simp add: sample_start_def sample_event_def UNFENCED_EVENTS_def)
  moreover have "validate (sample_start 1 ''d1'') = None" by code_simp
  ultimately have "\<exists>why. sm_apply (Some s) (sample_start 1 ''d1'') = Inl (TransitionError why)"
    using superseded_attempt_refused [OF s [unfolded log]] by blast
  with s show ?thesis by blast
qed

theorem terminal_states_absorb_witness:
  "\<exists>s s'. history sample_log s \<and> history (sample_log @ [sample_late]) s' \<and> t_late_results s' = t_late_results s + 1"
proof -
  obtain s where s: "history sample_log s" "t_status s = COMPLETE" using ends_inD [OF sample_log_complete] by blast
  have "ends_in (sample_log @ [sample_late]) (\<lambda>s. True)" by code_simp
  then obtain s' where s': "history (sample_log @ [sample_late]) s'" by (auto dest: ends_inD)
  have "t_status s \<in> TERMINAL" using s(2) by (simp add: TERMINAL_def)
  from terminal_states_absorb [OF s(1) this s']
  have "s' = s\<lparr>t_late_results := t_late_results s + int (length [sample_late]), t_updated_seq := t_updated_seq s'\<rparr>"
    by blast
  then have "t_late_results s' = t_late_results s + 1" by (metis task_state.ext_inject task_state.select_convs(19)
    task_state.surjective task_state.update_convs(19,25) length_Cons list.size(3) of_nat_1 One_nat_def)
  with s s' show ?thesis by blast
qed

theorem blocked_left_by_human_decision_witness:
  "\<exists>s s'. t_status s = BLOCKED \<and> sm_apply (Some s) sample_authorised = Inr (Some s') \<and> t_decided_by s' = Some ''ann''"
proof -
  have "ends_in (sample_lost_log @ [sample_block]) (\<lambda>s. t_status s = BLOCKED \<and>
     (case sm_apply (Some s) sample_authorised of Inr (Some s') \<Rightarrow> t_status s' = QUEUED | _ \<Rightarrow> False))"
    by code_simp
  then obtain s where b: "t_status s = BLOCKED"
    "case sm_apply (Some s) sample_authorised of Inr (Some s') \<Rightarrow> t_status s' = QUEUED | _ \<Rightarrow> False"
    by (blast dest: ends_inD)
  then obtain s' where s: "t_status s = BLOCKED" "sm_apply (Some s) sample_authorised = Inr (Some s')" "t_status s' = QUEUED"
    by (cases "sm_apply (Some s) sample_authorised") (auto split: option.splits)
  have "validate sample_authorised = None" by code_simp
  moreover have "ev_type sample_authorised \<notin> set SYSTEM_EVENTS" "get (ev_payload sample_authorised) ''actor'' = JStr ''ann''"
    by code_simp+
  ultimately have "t_decided_by s' = Some ''ann''"
    using blocked_left_by_human_decision [OF _ _ s(1,2)] s(3) by auto
  with s show ?thesis by blast
qed

theorem no_blind_retry_witness:
  "\<exists>r\<in>set [sample_block, sample_authorised]. ev_type r = RETRY_AUTHORIZED \<and> ev_attempt r = ev_attempt sample_lost"
proof -
  have "ends_in ([sample_created, sample_claim 1 ''d1'', sample_start 1 ''d1''] @ [sample_lost]
      @ [sample_block, sample_authorised] @ [sample_claim 2 ''d2'']) (\<lambda>s. t_effect_class s \<noteq> ''idempotent'')"
    by code_simp
  then obtain s where s: "history ([sample_created, sample_claim 1 ''d1'', sample_start 1 ''d1''] @ [sample_lost]
      @ [sample_block, sample_authorised] @ [sample_claim 2 ''d2'']) s" "t_effect_class s \<noteq> ''idempotent''"
    by (auto dest: ends_inD)
  have "ev_type sample_lost = LEASE_EXPIRED" "ev_type (sample_claim 2 ''d2'') = TASK_CLAIMED"
    "ev_type (sample_start 1 ''d1'') = TASK_STARTED" "ev_attempt (sample_start 1 ''d1'') = ev_attempt sample_lost"
    by code_simp+
  with no_blind_retry [OF s(1) _ _ _ _ _ s(2), of "sample_start 1 ''d1''"] show ?thesis by auto
qed

theorem failed_attempt_is_decided_witness:
  "\<exists>s s'. t_status s = RETRY_PENDING \<and> sm_apply (Some s) sample_block = Inr (Some s') \<and> t_status s' = BLOCKED"
proof -
  have "ends_in sample_lost_log (\<lambda>s. t_status s = RETRY_PENDING \<and> decide_after_failure s = Inr BLOCK
      \<and> t_task_id s = ''t1'' \<and> t_attempt s = 1)"
    by code_simp
  then obtain s where s: "t_status s = RETRY_PENDING" "decide_after_failure s = Inr BLOCK" "t_task_id s = ''t1''" "t_attempt s = 1"
    by (auto dest: ends_inD)
  have "validate sample_block = None" "ev_type sample_block = TASK_BLOCKED" "ev_task_id sample_block = Some ''t1''"
    "ev_attempt sample_block = Some 1"
    by code_simp+
  with failed_attempt_is_decided [OF s(1)] s have
    "\<exists>s'. sm_apply (Some s) sample_block = Inr (Some s') \<and> t_status s' = BLOCKED" by auto
  with s(1) show ?thesis by blast
qed

end
