(* ===== verification/Hash_Chain.thy ===== *)
theory Hash_Chain
  imports Prelude
begin

text \<open>
  Hash chains: a list of records in which each names the hash of its predecessor. The program
  keeps several; what makes any of them tamper-evident is the same argument, stated here once for
  an arbitrary digest. The conclusion is unconditional: either the two chains show the same
  records, or the digest collides on them: a text hashed for a record of the one chain and a different
  text hashed for a record of the other have the same digest. (That two such texts exist somewhere is
  true of every digest of fixed length and says nothing; here both are texts the two chains hold.)
\<close>

definition collision :: "('m \<Rightarrow> 'h) \<Rightarrow> 'm set \<Rightarrow> 'm set \<Rightarrow> bool" where
  "collision D A B \<longleftrightarrow> (\<exists>x\<in>A. \<exists>y\<in>B. x \<noteq> y \<and> D x = D y)"

lemma collision_mono: "collision D A B \<Longrightarrow> A \<subseteq> A' \<Longrightarrow> B \<subseteq> B' \<Longrightarrow> collision D A' B'"
  unfolding collision_def by blast

fun linked :: "('r \<Rightarrow> 'h) \<Rightarrow> ('r \<Rightarrow> 'h) \<Rightarrow> 'h \<Rightarrow> 'r list \<Rightarrow> bool" where
  "linked prev hash g [] = True"
| "linked prev hash g (r # rs) = (prev r = g \<and> linked prev hash (hash r) rs)"

definition tip :: "('r \<Rightarrow> 'h) \<Rightarrow> 'h \<Rightarrow> 'r list \<Rightarrow> 'h" where
  "tip hash g rs = (if rs = [] then g else hash (last rs))"

lemma tip_simps [simp]: "tip hash g [] = g" "tip hash g (rs @ [r]) = hash r"
  by (simp_all add: tip_def)

lemma tip_Cons [simp]: "tip hash g (r # rs) = tip hash (hash r) rs"
  by (simp add: tip_def)

lemma linked_snoc: "linked prev hash g (rs @ [r]) \<longleftrightarrow> linked prev hash g rs \<and> prev r = tip hash g rs"
  by (induction rs arbitrary: g) auto

locale hash_chain =
  fixes digest :: "'m \<Rightarrow> 'h"
    and material :: "'r \<Rightarrow> 'm"
    and prev :: "'r \<Rightarrow> 'h"
    and hash :: "'r \<Rightarrow> 'h"
    and intact :: "'r \<Rightarrow> bool"
    and view :: "'r \<Rightarrow> 'v"
  assumes hash_intact: "intact r \<Longrightarrow> hash r = digest (material r)"
    and material_view: "intact r \<Longrightarrow> intact s \<Longrightarrow> material r = material s \<Longrightarrow> view r = view s \<and> prev r = prev s"
begin

lemma same_hash:
  assumes "intact r" "intact s" "hash r = hash s"
  shows "(view r = view s \<and> prev r = prev s) \<or> collision digest {material r} {material s}"
proof (cases "material r = material s")
  case True
  then show ?thesis using material_view [OF assms(1,2)] by blast
next
  case False
  moreover have "digest (material r) = digest (material s)"
    using assms(3) hash_intact [OF assms(1)] hash_intact [OF assms(2)] by simp
  ultimately show ?thesis unfolding collision_def by blast
qed

lemma same_tip_same_view:
  "length rs = length ss \<Longrightarrow> linked prev hash g rs \<Longrightarrow> linked prev hash g ss \<Longrightarrow>
   (\<And>r. r \<in> set rs \<union> set ss \<Longrightarrow> intact r) \<Longrightarrow> tip hash g rs = tip hash g ss \<Longrightarrow>
   map view rs = map view ss \<or> collision digest (material ` set rs) (material ` set ss)"
proof (induction rs arbitrary: ss rule: rev_induct)
  case (snoc r rs)
  then obtain ss' s where ss: "ss = ss' @ [s]" by (cases ss rule: rev_cases) auto
  have "(view r = view s \<and> prev r = prev s) \<or> collision digest {material r} {material s}"
    using snoc.prems ss by (intro same_hash) auto
  then show ?case
  proof
    assume v: "view r = view s \<and> prev r = prev s"
    have "map view rs = map view ss' \<or> collision digest (material ` set rs) (material ` set ss')"
      using snoc.prems ss v by (intro snoc.IH) (auto simp: linked_snoc)
    with v ss show ?thesis by (auto dest: collision_mono [OF _ subset_insertI subset_insertI])
  next
    assume "collision digest {material r} {material s}"
    then have "collision digest (material ` set (rs @ [r])) (material ` set ss)"
      by (rule collision_mono) (simp_all add: ss)
    then show ?thesis ..
  qed
qed simp

end

end
