(* ===== verification/Journal.thy ===== *)
theory Journal
  imports Projection Task_Histories Hash_Chain
begin

text \<open>
  The journal (courier\_core/journal.py): the table \<open>events\<close>, append-only and hash-chained, in one
  file with the task projection. \<open>append\<close> is the only write path; it runs in one transaction,
  so an exception leaves the file as it was. SHA-256 is the parameter \<open>H\<close>.
\<close>

section \<open>The file\<close>

record journal =
  j_events :: "row list"
  j_proj :: projection
  j_user_version :: int
  j_guards :: bool

definition DB_SCHEMA_VERSION :: int where "DB_SCHEMA_VERSION = 1"

definition empty_file :: journal where
  "empty_file = \<lparr>j_events = [], j_proj = no_projection, j_user_version = 0, j_guards = False\<rparr>"

record append_result =
  a_event :: event
  a_duplicate :: bool
  a_state :: "task_state option"

record chain_report =
  cr_ok :: bool
  cr_count :: nat
  cr_head_seq :: int
  cr_head_hash :: string
  cr_first_bad_seq :: "int option"
  cr_reason :: "string option"

text \<open>\<open>SELECT ... ORDER BY seq\<close>\<close>

definition rows_by_seq :: "journal \<Rightarrow> row list" where
  "rows_by_seq j = sort_key r_seq (j_events j)"

section \<open>Reads\<close>

definition head :: "journal \<Rightarrow> int \<times> string" where
  "head j = (let rs = rows_by_seq j in if rs = [] then (0, GENESIS_HASH) else (r_seq (last rs), r_hash (last rs)))"

definition journal_events :: "journal \<Rightarrow> int \<Rightarrow> string option \<Rightarrow> event list result" where
  "journal_events j after_seq tid = map_result from_row
     (filter (\<lambda>r. after_seq < r_seq r \<and> (tid = None \<or> r_task_id r = tid)) (rows_by_seq j))"

definition get_event_by_dedupe_key :: "journal \<Rightarrow> string \<Rightarrow> event option result" where
  "get_event_by_dedupe_key j key = (case find (\<lambda>r. r_dedupe_key r = Some key) (j_events j) of
     None \<Rightarrow> Inr None | Some r \<Rightarrow> bind_result (from_row r) (\<lambda>e. Inr (Some e)))"

definition claim_for_dispatch :: "journal \<Rightarrow> string \<Rightarrow> event option result" where
  "claim_for_dispatch j did =
     (case find (\<lambda>r. r_dispatch_id r = Some did \<and> r_type r = ''TASK_CLAIMED'') (rows_by_seq j) of
        None \<Rightarrow> Inr None | Some r \<Rightarrow> bind_result (from_row r) (\<lambda>e. Inr (Some e)))"

definition journal_task :: "journal \<Rightarrow> string option \<Rightarrow> task_state option result" where
  "journal_task j tid = load_task (j_proj j) tid"

definition journal_tasks :: "journal \<Rightarrow> string option \<Rightarrow> task_state list result" where
  "journal_tasks j status = load_tasks (j_proj j) status"

section \<open>The only write path\<close>

text \<open>The values of the INSERT statement.\<close>

definition row_of :: "event \<Rightarrow> row" where
  "row_of e = \<lparr>r_seq = the (ev_seq e), r_event_id = ev_event_id e, r_schema_v = ev_schema_v e,
     r_type = type_value (ev_type e), r_task_id = ev_task_id e, r_attempt = ev_attempt e,
     r_dispatch_id = ev_dispatch_id e, r_worker_id = ev_worker_id e, r_result_id = ev_result_id e,
     r_dedupe_key = ev_dedupe_key e, r_ts_utc = ev_ts_utc e, r_payload = payload_json e,
     r_prev_hash = the (ev_prev_hash e), r_hash = the (ev_hash e)\<rparr>"

definition insert_row :: "journal \<Rightarrow> row \<Rightarrow> journal result" where
  "insert_row j r =
     (if r_seq r \<in> set (map r_seq (j_events j)) then Inl (IntegrityError ''events.seq'')
      else if r_event_id r \<in> set (map r_event_id (j_events j)) then Inl (IntegrityError ''events.event_id'')
      else if r_dedupe_key r \<noteq> None \<and> r_dedupe_key r \<in> set (map r_dedupe_key (j_events j))
        then Inl (IntegrityError ''events.dedupe_key'')
      else Inr (j\<lparr>j_events := j_events j @ [r]\<rparr>))"

text \<open>Step 1 of \<open>append\<close>: the stored event that already carries the dedupe key, if any.\<close>

definition existing_event :: "journal \<Rightarrow> event \<Rightarrow> event option result" where
  "existing_event j e = (case ev_dedupe_key e of None \<Rightarrow> Inr None | Some k \<Rightarrow> get_event_by_dedupe_key j k)"

text \<open>Steps 2 to 4: fold the sealed event, insert its row, update the projection.\<close>

definition append_new :: "(string \<Rightarrow> string) \<Rightarrow> journal \<Rightarrow> event \<Rightarrow> (append_result \<times> journal) result" where
  "append_new H j e = (case head j of (seq, prev) \<Rightarrow>
     bind_result (sealed H e (seq + 1) prev) (\<lambda>s.
     bind_result (apply_event (j_proj j) s) (\<lambda>(st, p).
     bind_result (insert_row (j\<lparr>j_proj := p\<rparr>) (row_of s)) (\<lambda>j'.
       Inr (\<lparr>a_event = s, a_duplicate = False, a_state = st\<rparr>, j')))))"

definition journal_append :: "(string \<Rightarrow> string) \<Rightarrow> bool \<Rightarrow> journal \<Rightarrow> event \<Rightarrow> (append_result \<times> journal) result" where
  "journal_append H readonly j e =
     (if readonly then Inl (JournalError ''journal is open read-only'')
      else if ev_seq e \<noteq> None \<or> ev_hash e \<noteq> None then Inl (JournalError ''event is already sealed'')
      else bind_result (existing_event j e) (\<lambda>ex. case ex of
          Some x \<Rightarrow>
            (if content x \<noteq> content e then Inl DedupeConflict
             else bind_result (if ev_task_id x = None \<or> ev_task_id x = Some [] then Inr None else journal_task j (ev_task_id x))
               (\<lambda>st. Inr (\<lparr>a_event = x, a_duplicate = True, a_state = st\<rparr>, j)))
        | None \<Rightarrow> append_new H j e))"

section \<open>Integrity\<close>

definition row_defect :: "(string \<Rightarrow> string) \<Rightarrow> row \<Rightarrow> int \<Rightarrow> string \<Rightarrow> string option" where
  "row_defect H r expected_seq prev =
     (if r_seq r \<noteq> expected_seq then Some ''sequence gap''
      else if r_prev_hash r \<noteq> prev then Some ''prev_hash does not link to the previous event''
      else case from_row r of
          Inl err \<Rightarrow> Some ''stored event is invalid''
        | Inr e \<Rightarrow> (if chain_hash H e (Some (r_payload r)) \<noteq> r_hash r
                   then Some ''hash mismatch: stored event was modified'' else None))"

fun verify_rows :: "(string \<Rightarrow> string) \<Rightarrow> int \<Rightarrow> string \<Rightarrow> nat \<Rightarrow> row list \<Rightarrow> chain_report" where
  "verify_rows H expected_seq prev n [] =
     \<lparr>cr_ok = True, cr_count = n, cr_head_seq = expected_seq - 1, cr_head_hash = prev,
      cr_first_bad_seq = None, cr_reason = None\<rparr>"
| "verify_rows H expected_seq prev n (r # rs) =
     (case row_defect H r expected_seq prev of
        Some reason \<Rightarrow> \<lparr>cr_ok = False, cr_count = n, cr_head_seq = expected_seq - 1, cr_head_hash = prev,
          cr_first_bad_seq = Some (r_seq r), cr_reason = Some reason\<rparr>
      | None \<Rightarrow> verify_rows H (expected_seq + 1) (r_hash r) (Suc n) rs)"

definition verify_chain :: "(string \<Rightarrow> string) \<Rightarrow> journal \<Rightarrow> chain_report" where
  "verify_chain H j = verify_rows H 1 GENESIS_HASH 0 (rows_by_seq j)"

definition guards_present :: "journal \<Rightarrow> bool" where
  "guards_present j = j_guards j"

definition projection_current :: "journal \<Rightarrow> bool" where
  "projection_current j = is_current (j_proj j)"

definition verify_projection :: "journal \<Rightarrow> bool result" where
  "verify_projection j =
     bind_result (journal_events j 0 None) (\<lambda>es.
     bind_result (proj_fold es) (\<lambda>expected.
     bind_result (journal_tasks j None) (\<lambda>states.
       Inr (dict_eq expected (fold (\<lambda>s d. AList.update (Some (t_task_id s)) s d) states [])))))"

section \<open>Opening and rebuilding\<close>

text \<open>Replay of stored rows: a row that is not a valid event raises where it is read.\<close>

definition replay_row :: "projection \<Rightarrow> row \<Rightarrow> projection result" where
  "replay_row p r = bind_result (from_row r) (\<lambda>e. replay_event p e)"

definition rebuild :: "journal \<Rightarrow> projection result" where
  "rebuild j = fold_result replay_row (create_schema no_projection) (rows_by_seq j)"

text \<open>
  \<open>Journal.open\<close>: the file before (\<open>None\<close> when it does not exist), the file after, and the
  outcome. The schema script with the triggers runs outside the transaction, so it survives a
  failed rebuild.
\<close>

fun is_projection_error :: "error \<Rightarrow> bool" where
  "is_projection_error (ProjectionError _) = True"
| "is_projection_error _ = False"

definition open_journal :: "bool \<Rightarrow> journal option \<Rightarrow> journal option \<times> unit result" where
  "open_journal readonly file =
     (if readonly then (case file of
          None \<Rightarrow> (None, Inl (JournalError ''no journal to inspect''))
        | Some j \<Rightarrow> (Some j, Inr ()))
      else (let j = (case file of None \<Rightarrow> empty_file | Some j \<Rightarrow> j) in
        if j_user_version j \<notin> {0, DB_SCHEMA_VERSION}
        then (Some j, Inl (JournalError ''unsupported journal schema version''))
        else (let j1 = j\<lparr>j_guards := True\<rparr> in
          case (if is_current (j_proj j1) then Inr (j_proj j1) else rebuild j1) of
            Inr p \<Rightarrow> (Some (j1\<lparr>j_proj := create_schema p, j_user_version := DB_SCHEMA_VERSION\<rparr>), Inr ())
          | Inl err \<Rightarrow> (Some j1, Inl (if is_value_error err \<or> is_projection_error err
              then JournalError ''projection cannot be rebuilt'' else err)))))"

section \<open>Sealed logs\<close>

text \<open>A list of sealed events that continues a chain at sequence number \<open>q\<close> and hash \<open>p\<close>.\<close>

fun chain_from :: "(string \<Rightarrow> string) \<Rightarrow> int \<Rightarrow> string \<Rightarrow> event list \<Rightarrow> bool" where
  "chain_from H q p [] = True"
| "chain_from H q p (e # es) = (e = seal H e q p \<and> chain_from H (q + 1) (the (ev_hash e)) es)"

definition last_hash :: "string \<Rightarrow> event list \<Rightarrow> string" where
  "last_hash p es = (if es = [] then p else the (ev_hash (last es)))"

lemma chain_from_snoc:
  "chain_from H q p (es @ [e]) \<longleftrightarrow> chain_from H q p es \<and> e = seal H e (q + int (length es)) (last_hash p es)"
  by (induction es arbitrary: q p) (auto simp: last_hash_def algebra_simps)

lemma chain_from_seqs: "chain_from H q p es \<Longrightarrow> map ev_seq es = map (\<lambda>i. Some (q + int i)) [0..<length es]"
proof (induction es rule: rev_induct)
  case (snoc e es)
  then have "ev_seq e = Some (q + int (length es))"
    using seal_fields(12) chain_from_snoc by metis
  with snoc show ?case by (simp add: chain_from_snoc)
qed simp

definition is_sealed :: "event \<Rightarrow> bool" where
  "is_sealed e \<longleftrightarrow> ev_seq e \<noteq> None \<and> ev_prev_hash e \<noteq> None \<and> ev_hash e \<noteq> None"

lemma is_sealed_seal [simp]: "is_sealed (seal H e q p)"
  by (simp add: is_sealed_def seal_hash)

lemma chain_from_sealed: "chain_from H q p es \<Longrightarrow> e \<in> set es \<Longrightarrow> is_sealed e"
  by (induction es arbitrary: q p) (auto, metis is_sealed_seal)

lemma from_row_row_of:
  assumes "wf_event e" "is_sealed e"
  shows "from_row (row_of e) = Inr e"
proof -
  have "loads (payload_json e) = Inr (JObj (ev_payload e))"
    unfolding payload_json_def wf_eventD(2) [OF assms(1)] by (rule loads_dumps [OF wf_eventD(1) [OF assms(1)]])
  moreover have "post_init e = Inr e" using post_init_id [OF assms(1)] .
  ultimately show ?thesis
    using assms(2) by (cases e) (auto simp: from_row_def row_of_def is_sealed_def payload_json_def)
qed

lemma map_result_Inr: "(\<And>x. x \<in> set xs \<Longrightarrow> f x = Inr (g x)) \<Longrightarrow> map_result f xs = Inr (map g xs)"
  by (induction xs) auto

section \<open>Well-formed journals\<close>

definition wf_log :: "(string \<Rightarrow> string) \<Rightarrow> event list \<Rightarrow> bool" where
  "wf_log H es \<longleftrightarrow> chain_from H 1 GENESIS_HASH es \<and> (\<forall>e\<in>set es. wf_event e)
     \<and> distinct (map ev_event_id es) \<and> distinct (filter (\<lambda>k. k \<noteq> None) (map ev_dedupe_key es))"

definition journal_of :: "(string \<Rightarrow> string) \<Rightarrow> event list \<Rightarrow> journal \<Rightarrow> bool" where
  "journal_of H es j \<longleftrightarrow> wf_log H es \<and> j_events j = map row_of es
     \<and> (\<exists>ts. proj_fold es = Inr ts \<and> represents (j_proj j) ts) \<and> rebuild_in_place es = Inr (j_proj j)
     \<and> is_current (j_proj j)
     \<and> p_last_seq (j_proj j) = Some (int (length es))"

definition wf_journal :: "(string \<Rightarrow> string) \<Rightarrow> journal \<Rightarrow> bool" where
  "wf_journal H j \<longleftrightarrow> (\<exists>es. journal_of H es j)"

lemma wf_log_snoc:
  "wf_log H (es @ [e]) \<longleftrightarrow> wf_log H es \<and> e = seal H e (1 + int (length es)) (last_hash GENESIS_HASH es)
     \<and> wf_event e \<and> ev_event_id e \<notin> set (map ev_event_id es)
     \<and> (ev_dedupe_key e \<noteq> None \<longrightarrow> ev_dedupe_key e \<notin> set (map ev_dedupe_key es))"
  by (auto simp: wf_log_def chain_from_snoc)

lemma rows_sorted:
  assumes "chain_from H q p es"
  shows "sort_key r_seq (map row_of es) = map row_of es"
proof -
  have "map r_seq (map row_of es) = map (the \<circ> ev_seq) es" by (simp add: row_of_def)
  also have "\<dots> = map the (map ev_seq es)" by simp
  also have "\<dots> = map (\<lambda>i. q + int i) [0..<length es]" by (simp add: chain_from_seqs [OF assms])
  finally have "sorted (map r_seq (map row_of es))" by (simp add: sorted_iff_nth_mono)
  then show ?thesis by (rule sort_key_id_if_sorted)
qed

lemma journal_ofD:
  assumes "journal_of H es j"
  shows "wf_log H es" "j_events j = map row_of es" "chain_from H 1 GENESIS_HASH es"
    "\<And>e. e \<in> set es \<Longrightarrow> wf_event e" "is_current (j_proj j)" "p_last_seq (j_proj j) = Some (int (length es))"
    "rebuild_in_place es = Inr (j_proj j)"
  using assms by (auto simp: journal_of_def wf_log_def)

lemma rows_by_seq_of: "journal_of H es j \<Longrightarrow> rows_by_seq j = map row_of es"
  unfolding rows_by_seq_def using journal_ofD(2,3) rows_sorted by metis

lemma wf_log_from_row: "wf_log H es \<Longrightarrow> e \<in> set es \<Longrightarrow> from_row (row_of e) = Inr e"
  using from_row_row_of chain_from_sealed unfolding wf_log_def by blast

lemma head_of:
  assumes "journal_of H es j"
  shows "head j = (int (length es), last_hash GENESIS_HASH es)"
proof (cases es rule: rev_cases)
  case Nil
  with rows_by_seq_of [OF assms] show ?thesis by (simp add: head_def last_hash_def)
next
  case (snoc fs f)
  then have "f = seal H f (1 + int (length fs)) (last_hash GENESIS_HASH fs)"
    using assms by (simp add: journal_of_def wf_log_snoc)
  then have "ev_seq f = Some (1 + int (length fs))" by (metis seal_fields(12))
  with rows_by_seq_of [OF assms] snoc show ?thesis by (simp add: head_def last_hash_def row_of_def Let_def)
qed

lemma events_of: "journal_of H es j \<Longrightarrow> journal_events j 0 None = Inr es"
proof -
  assume j: "journal_of H es j"
  have "\<And>e. e \<in> set es \<Longrightarrow> 0 < r_seq (row_of e)"
  proof -
    fix e assume "e \<in> set es"
    then have "ev_seq e \<in> set (map ev_seq es)" by simp
    then obtain i where "ev_seq e = Some (1 + int i)"
      unfolding chain_from_seqs [OF journal_ofD(3) [OF j]] by auto
    then show "0 < r_seq (row_of e)" by (simp add: row_of_def)
  qed
  then have "filter (\<lambda>r. 0 < r_seq r) (map row_of es) = map row_of es" by (auto simp: filter_id_conv)
  moreover have "map_result from_row (map row_of es) = Inr (map (\<lambda>r. projr (from_row r)) (map row_of es))"
    using j by (intro map_result_Inr) (auto simp: journal_of_def wf_log_from_row)
  moreover have "map (\<lambda>r. projr (from_row r)) (map row_of es) = es"
    using j by (auto simp: journal_of_def wf_log_from_row intro: map_idI)
  ultimately show ?thesis by (simp add: journal_events_def rows_by_seq_of [OF j])
qed

section \<open>Appending\<close>

text \<open>What the callers submit: an event as its constructor leaves it, not yet sealed.\<close>

definition submittable :: "event \<Rightarrow> bool" where
  "submittable e \<longleftrightarrow> wf_event e \<and> ev_seq e = None \<and> ev_hash e = None"

lemma find_row_of:
  assumes "journal_of H es j"
  shows "find (\<lambda>r. P r) (j_events j) = map_option row_of (find (\<lambda>e. P (row_of e)) es)"
  unfolding journal_ofD(2) [OF assms] by (induction es) auto

lemma find_SomeD: "find P xs = Some x \<Longrightarrow> x \<in> set xs \<and> P x"
  by (induction xs) (auto split: if_splits)

lemma existing_event_of:
  assumes "journal_of H es j"
  shows "existing_event j e = Inr (case ev_dedupe_key e of None \<Rightarrow> None
     | Some k \<Rightarrow> find (\<lambda>x. ev_dedupe_key x = Some k) es)"
proof (cases "ev_dedupe_key e")
  case (Some k)
  have "find (\<lambda>r. r_dedupe_key r = Some k) (j_events j) = map_option row_of (find (\<lambda>x. ev_dedupe_key x = Some k) es)"
    unfolding find_row_of [OF assms] by (simp add: row_of_def)
  with Some show ?thesis
    using wf_log_from_row [OF journal_ofD(1) [OF assms]]
    by (auto simp: existing_event_def get_event_by_dedupe_key_def split: option.splits dest: find_SomeD)
qed (simp add: existing_event_def)

lemma append_new_of:
  assumes "journal_of H es j" "submittable e" "append_new H j e = Inr (ar, j')"
    and fresh: "\<And>k. ev_dedupe_key e = Some k \<Longrightarrow> find (\<lambda>x. ev_dedupe_key x = Some k) es = None"
  defines "s \<equiv> seal H e (1 + int (length es)) (last_hash GENESIS_HASH es)"
  shows "journal_of H (es @ [s]) j'" and "a_event ar = s" and "\<not> a_duplicate ar"
    and "a_state ar = (if ev_type e \<in> set SYSTEM_EVENTS then None else projr (load_task (j_proj j') (ev_task_id e)))"
proof -
  have wf: "wf_event e" using assms(2) by (simp add: submittable_def)
  have seal: "sealed H e (int (length es) + 1) (last_hash GENESIS_HASH es) = Inr s"
    unfolding s_def using sealed_wf [OF wf] by (simp add: add.commute)
  from assms(3) head_of [OF assms(1)] seal obtain st p where
    ap: "apply_event (j_proj j) s = Inr (st, p)" and ins: "insert_row (j\<lparr>j_proj := p\<rparr>) (row_of s) = Inr j'"
    and ar: "ar = \<lparr>a_event = s, a_duplicate = False, a_state = st\<rparr>"
    by (auto simp: append_new_def elim!: bind_resultE)
  from assms(1) obtain ts where ts: "proj_fold es = Inr ts" "represents (j_proj j) ts" by (auto simp: journal_of_def)
  have ws: "wf_event s" by (simp add: s_def wf)
  from apply_event_refines [OF ts(2) ws ap] obtain ts' where
    ts': "fold_event ts s = Inr ts'" "represents p ts'"
    "st = (if ev_type s \<in> set SYSTEM_EVENTS then None else map_of ts' (ev_task_id s))" by blast
  have pf: "proj_fold (es @ [s]) = Inr ts'" using ts(1) ts'(1) by (simp add: proj_fold_def fold_result_snoc)
  have rb: "rebuild_in_place (es @ [s]) = Inr p"
    using journal_ofD(7) [OF assms(1)] ap
    by (simp add: rebuild_in_place_def fold_result_snoc replay_event_def as_projection_error_def)
  have meta: "p_version p = p_version (j_proj j) \<and> p_last_seq p = map_option (\<lambda>_. 1 + int (length es)) (p_last_seq (j_proj j))"
  proof -
    have "ev_seq s = Some (1 + int (length es))" by (simp add: s_def)
    with ap show ?thesis
      by (auto simp: apply_event_def split: if_splits elim!: bind_resultE dest!: store_meta)
  qed
  from ins have j': "j' = j\<lparr>j_proj := p, j_events := j_events j @ [row_of s]\<rparr>"
    and eid: "r_event_id (row_of s) \<notin> set (map r_event_id (j_events j))"
    by (auto simp: insert_row_def split: if_splits)
  have "ev_event_id s \<notin> set (map ev_event_id es)"
    using eid journal_ofD(2) [OF assms(1)] by (auto simp: row_of_def)
  moreover have "ev_dedupe_key s \<noteq> None \<longrightarrow> ev_dedupe_key s \<notin> set (map ev_dedupe_key es)"
    using fresh by (auto simp: s_def find_None_iff)
  moreover have "s = seal H s (1 + int (length es)) (last_hash GENESIS_HASH es)"
    by (simp add: s_def seal_def Let_def chain_hash_def)
  ultimately have "wf_log H (es @ [s])"
    using journal_ofD(1) [OF assms(1)] ws by (simp add: wf_log_snoc)
  then show "journal_of H (es @ [s]) j'"
    using journal_ofD [OF assms(1)] j' pf ts'(2) rb meta by (auto simp: journal_of_def is_current_def)
  show "a_event ar = s" "\<not> a_duplicate ar" using ar by simp_all
  show "a_state ar = (if ev_type e \<in> set SYSTEM_EVENTS then None else projr (load_task (j_proj j') (ev_task_id e)))"
    using ar ts' j' represents_load [OF ts'(2)] by (simp add: s_def)
qed

lemma append_cases:
  assumes "journal_of H es j" "submittable e" "journal_append H False j e = Inr (ar, j')"
  shows "(j' = j \<and> a_duplicate ar \<and> a_event ar \<in> set es \<and> ev_dedupe_key (a_event ar) = ev_dedupe_key e
       \<and> ev_dedupe_key e \<noteq> None \<and> content (a_event ar) = content e)
    \<or> (\<not> a_duplicate ar \<and> a_event ar = seal H e (1 + int (length es)) (last_hash GENESIS_HASH es)
       \<and> journal_of H (es @ [a_event ar]) j')"
proof -
  let ?ex = "case ev_dedupe_key e of None \<Rightarrow> None | Some k \<Rightarrow> find (\<lambda>x. ev_dedupe_key x = Some k) es"
  have un: "ev_seq e = None" "ev_hash e = None" using assms(2) by (simp_all add: submittable_def)
  show ?thesis
  proof (cases ?ex)
    case None
    with assms(3) un existing_event_of [OF assms(1)] have new: "append_new H j e = Inr (ar, j')"
      by (simp add: journal_append_def)
    have fresh: "\<And>k. ev_dedupe_key e = Some k \<Longrightarrow> find (\<lambda>x. ev_dedupe_key x = Some k) es = None"
      using None by simp
    from append_new_of [OF assms(1,2) new fresh] show ?thesis by simp
  next
    case (Some x)
    then have x: "x \<in> set es" "ev_dedupe_key x = ev_dedupe_key e" "ev_dedupe_key e \<noteq> None"
      by (auto split: option.splits dest: find_SomeD)
    from assms(3) un existing_event_of [OF assms(1)] Some have "j' = j" "a_event ar = x" "a_duplicate ar" "content x = content e"
      by (auto simp: journal_append_def split: if_splits elim!: bind_resultE)
    with x show ?thesis by blast
  qed
qed

text \<open>\<open>append\<close> as a step from file to file.\<close>

definition append_step :: "(string \<Rightarrow> string) \<Rightarrow> journal \<Rightarrow> event \<Rightarrow> journal result" where
  "append_step H j e = bind_result (journal_append H False j e) (\<lambda>(_, j'). Inr j')"

lemma append_step_Inr: "append_step H j e = Inr j' \<longleftrightarrow> (\<exists>ar. journal_append H False j e = Inr (ar, j'))"
  by (auto simp: append_step_def bind_result_eq_Inr)

interpretation appends: invariant_step "append_step H" submittable "wf_journal H"
proof
  fix j e j'
  assume "wf_journal H j" "submittable e" "append_step H j e = Inr j'"
  then show "wf_journal H j'"
    using append_cases unfolding wf_journal_def append_step_Inr by fastforce
qed

lemma appends_extend:
  "journal_of H es j \<Longrightarrow> (\<And>e. e \<in> set subs \<Longrightarrow> submittable e) \<Longrightarrow> fold_result (append_step H) j subs = Inr j' \<Longrightarrow>
   \<exists>fs. journal_of H fs j' \<and> set es \<subseteq> set fs"
proof (induction subs arbitrary: es j)
  case (Cons e subs)
  from Cons.prems(3) obtain ar j1 where a: "journal_append H False j e = Inr (ar, j1)"
    "fold_result (append_step H) j1 subs = Inr j'"
    by (auto simp: append_step_Inr elim!: bind_resultE)
  from append_cases [OF Cons.prems(1) _ a(1)] Cons.prems(1,2) obtain es1 where "journal_of H es1 j1" "set es \<subseteq> set es1"
    by fastforce
  with Cons.IH [OF _ _ a(2)] Cons.prems(2) show ?case by fastforce
qed auto

text \<open>The file a first \<open>open\<close> leaves behind.\<close>

definition new_journal :: journal where
  "new_journal = empty_file\<lparr>j_guards := True, j_proj := create_schema no_projection, j_user_version := DB_SCHEMA_VERSION\<rparr>"

lemma open_new: "open_journal False None = (Some new_journal, Inr ())"
  by (simp add: open_journal_def new_journal_def empty_file_def rebuild_def rows_by_seq_def is_current_def
      no_projection_def create_schema_def)

lemma journal_of_new: "journal_of H [] new_journal"
  by (simp add: journal_of_def wf_log_def new_journal_def empty_file_def proj_fold_def represents_def
      is_current_def rebuild_in_place_def create_schema_def no_projection_def)

lemma wf_new_journal: "wf_journal H new_journal"
  using journal_of_new wf_journal_def by blast

lemma reachable_wf:
  "fold_result (append_step H) new_journal es = Inr j \<Longrightarrow> list_all submittable es \<Longrightarrow> wf_journal H j"
  by (rule appends.fold_inv [OF wf_new_journal]) (auto simp: list_all_iff)

section \<open>Task states are histories\<close>

definition task_log :: "string \<Rightarrow> event list \<Rightarrow> event list" where
  "task_log k es = filter (\<lambda>e. ev_task_id e = Some k) es"

lemma fold_event_history:
  assumes "\<And>k. case map_of ts (Some k) of None \<Rightarrow> task_log k es = [] | Some s \<Rightarrow> history (task_log k es) s"
    and "wf_event e" "fold_event ts e = Inr ts'"
  shows "case map_of ts' (Some k) of None \<Rightarrow> task_log k (es @ [e]) = [] | Some s \<Rightarrow> history (task_log k (es @ [e])) s"
proof (cases "ev_type e \<in> set SYSTEM_EVENTS")
  case True
  with validate_system_task_id [OF wf_eventD(3) [OF assms(2)]]
  have "task_log k (es @ [e]) = task_log k es" by (simp add: task_log_def)
  with True assms(3) assms(1) [of k] show ?thesis by (simp add: fold_event_def split: option.splits)
next
  case sys: False
  from assms(3) sys obtain st where ap: "sm_apply (map_of ts (ev_task_id e)) e = Inr st"
    and ts': "ts' = (case st of None \<Rightarrow> ts | Some s \<Rightarrow> AList.update (ev_task_id e) s ts)"
    by (cases "sm_apply (map_of ts (ev_task_id e)) e")
      (auto simp: fold_event_def as_projection_error_def split: if_splits option.splits)
  obtain t where t: "ev_task_id e = Some t" using validate_task_id [OF wf_eventD(3) [OF assms(2)] sys] by blast
  have v: "validate e = None" using wf_eventD(3) [OF assms(2)] .
  have new: "\<exists>s. st = Some s \<and> history (task_log t es @ [e]) s"
  proof (cases "map_of ts (Some t)")
    case None
    with ap t sys have c: "ev_type e = TASK_CREATED" by (auto simp: sm_apply_def fail_def split: if_splits)
    from None assms(1) [of t] have "task_log t es = []" by simp
    moreover from None ap t c obtain s where "st = Some s" "sm_apply None e = Inr (Some s)"
      by (auto simp: sm_apply_def SYSTEM_EVENTS_def elim!: bind_resultE)
    ultimately show ?thesis using history.created [OF v c] by auto
  next
    case (Some s)
    with assms(1) [of t] have h: "history (task_log t es) s" by simp
    from Some ap t sys obtain s' where "st = Some s'" by (auto elim: sm_apply_SomeD)
    with history.step [OF h v sys] ap Some t show ?thesis by simp
  qed
  show ?thesis
  proof (cases "t = k")
    case True
    with new t ts' show ?thesis by (auto simp: task_log_def)
  next
    case False
    with t have "task_log k (es @ [e]) = task_log k es" by (simp add: task_log_def)
    with False new t ts' assms(1) [of k] show ?thesis by (auto split: option.splits)
  qed
qed

lemma proj_fold_history:
  "proj_fold es = Inr ts \<Longrightarrow> \<forall>e\<in>set es. wf_event e \<Longrightarrow>
   (case map_of ts (Some k) of None \<Rightarrow> task_log k es = [] | Some s \<Rightarrow> history (task_log k es) s)"
proof (induction es arbitrary: ts k rule: rev_induct)
  case Nil
  then show ?case by (auto simp: proj_fold_def task_log_def)
next
  case (snoc e es)
  from snoc.prems(1) obtain ts0 where ts0: "proj_fold es = Inr ts0" "fold_event ts0 e = Inr ts"
    by (auto simp: proj_fold_def fold_result_snoc elim: bind_resultE)
  have "\<And>k. case map_of ts0 (Some k) of None \<Rightarrow> task_log k es = [] | Some s \<Rightarrow> history (task_log k es) s"
    using snoc.IH [OF ts0(1)] snoc.prems(2) by simp
  from fold_event_history [OF this _ ts0(2)] snoc.prems(2) show ?case by simp
qed

lemma journal_task_history:
  assumes "journal_of H es j"
  shows "journal_task j (Some k) = Inr None \<and> task_log k es = []
    \<or> (\<exists>s. journal_task j (Some k) = Inr (Some s) \<and> history (task_log k es) s \<and> t_task_id s = k)"
proof -
  from assms obtain ts where ts: "proj_fold es = Inr ts" "represents (j_proj j) ts" by (auto simp: journal_of_def)
  have "journal_task j (Some k) = Inr (map_of ts (Some k))"
    using represents_load [OF ts(2)] by (simp add: journal_task_def)
  moreover have "case map_of ts (Some k) of None \<Rightarrow> task_log k es = [] | Some s \<Rightarrow> history (task_log k es) s"
    using proj_fold_history [OF ts(1)] journal_ofD(4) [OF assms] by blast
  moreover have "map_of ts (Some k) = Some s \<Longrightarrow> t_task_id s = k" for s
    using ts(2) unfolding represents_def by blast
  ultimately show ?thesis by (cases "map_of ts (Some k)") auto
qed

lemma journal_task_total: "journal_of H es j \<Longrightarrow> \<exists>st. journal_task j tid = Inr st"
  using represents_load by (auto simp: journal_of_def journal_task_def)

text \<open>
  C9. The projection is the fold of the journal: after any sequence of successful appends to a
  new journal file, the stored events can all be read back, and the state the projection reports
  for a task is the one the state machine reaches on that task's own events, in order; a task
  without events has no state.
\<close>

theorem projection_is_history:
  assumes "fold_result (append_step H) new_journal subs = Inr j" and "list_all submittable subs"
  shows "\<exists>es. journal_events j 0 None = Inr es \<and>
    (\<forall>k. journal_task j (Some k) = Inr None \<and> task_log k es = []
      \<or> (\<exists>s. journal_task j (Some k) = Inr (Some s) \<and> history (task_log k es) s \<and> t_task_id s = k))"
proof -
  from reachable_wf [OF assms] obtain es where es: "journal_of H es j" by (auto simp: wf_journal_def)
  then show ?thesis using events_of [OF es] journal_task_history [OF es] by blast
qed

section \<open>Integrity checks\<close>

lemma row_defect_sealed:
  assumes "wf_event e" "e = seal H e q p"
  shows "row_defect H (row_of e) q p = None"
proof -
  have sl: "is_sealed e" using assms(2) is_sealed_seal by metis
  have f: "ev_seq e = Some q" "ev_prev_hash e = Some p" "ev_hash e = Some (chain_hash H e None)"
    using assms(2) seal_fields(12,13) seal_hash by metis+
  have "chain_hash H e (Some (payload_json e)) = chain_hash H e None"
    by (simp add: chain_hash_def hash_material_def payload_json_def)
  then show ?thesis using f from_row_row_of [OF assms(1) sl] by (simp add: row_defect_def row_of_def)
qed

lemma verify_rows_chain:
  "chain_from H q p es \<Longrightarrow> \<forall>e\<in>set es. wf_event e \<Longrightarrow>
   verify_rows H q p n (map row_of es) = \<lparr>cr_ok = True, cr_count = n + length es,
     cr_head_seq = q + int (length es) - 1, cr_head_hash = last_hash p es, cr_first_bad_seq = None, cr_reason = None\<rparr>"
proof (induction es arbitrary: q p n)
  case (Cons e es)
  have "row_defect H (row_of e) q p = None" using Cons.prems by (intro row_defect_sealed) auto
  moreover have "r_hash (row_of e) = the (ev_hash e)" by (simp add: row_of_def)
  ultimately show ?case using Cons by (simp add: last_hash_def)
qed (simp add: last_hash_def)

lemma verify_chain_of:
  assumes "journal_of H es j"
  shows "verify_chain H j = \<lparr>cr_ok = True, cr_count = length es, cr_head_seq = fst (head j),
     cr_head_hash = snd (head j), cr_first_bad_seq = None, cr_reason = None\<rparr>"
  using verify_rows_chain [OF journal_ofD(3) [OF assms], of 0] journal_ofD(4) [OF assms]
  by (simp add: verify_chain_def rows_by_seq_of [OF assms] head_of [OF assms])

lemma map_result_Some:
  assumes "\<And>x. x \<in> set xs \<Longrightarrow> \<exists>y. f x = Inr y"
  obtains ys where "map_result f xs = Inr ys" "list_all2 (\<lambda>x y. f x = Inr y) xs ys"
  using assms
proof (induction xs arbitrary: thesis)
  case (Cons x xs)
  from Cons.prems(2) [of x] obtain y where "f x = Inr y" by auto
  moreover from Cons.prems(2) obtain ys where "map_result f xs = Inr ys" "list_all2 (\<lambda>x y. f x = Inr y) xs ys"
    using Cons.IH by (metis list.set_intros(2))
  ultimately show ?case using Cons.prems(1) by auto
qed simp

lemma fold_update_map_of:
  "distinct (map key xs) \<Longrightarrow> map_of (fold (\<lambda>s d. AList.update (key s) s d) xs d) k =
     (case find (\<lambda>s. key s = k) xs of None \<Rightarrow> map_of d k | Some s \<Rightarrow> Some s)"
proof (induction xs arbitrary: d)
  case (Cons x xs)
  have "find (\<lambda>s. key s = k) xs = None" if "key x = k"
    using Cons.prems that by (auto simp: find_None_iff) (metis image_eqI)
  with Cons show ?case by (auto split: option.splits)
qed simp

lemma dict_wf_fold_update: "dict_wf d \<Longrightarrow> dict_wf (fold (\<lambda>s d. AList.update (key s) s d) xs d)"
  by (induction xs arbitrary: d) auto

text \<open>Loading the whole table gives the states of the dictionary, in creation order.\<close>

lemma represents_row:
  assumes "represents p ts" "(k, r) \<in> set (p_tasks p)"
  obtains s where "map_of ts (Some k) = Some s" "proj_from_row r = Inr s" "c_task_id r = k" "t_task_id s = k"
proof -
  from assms have r: "map_of (p_tasks p) k = Some r" by (simp add: represents_def dict_wf_map_of)
  then obtain s where s: "map_of ts (Some k) = Some s"
    using assms(1) unfolding represents_def by (metis option.distinct(1) not_Some_eq)
  with assms(1) r have "json_ok s" "t_task_id s = k" "proj_to_row s = Inr r" unfolding represents_def by fastforce+
  with s proj_roundtrip [of s r] that show thesis by simp
qed

lemma load_tasks_represents:
  assumes "represents p ts"
  obtains xs where "load_tasks p None = Inr xs" "distinct (map t_task_id xs)"
    "\<And>s. s \<in> set xs \<longleftrightarrow> map_of ts (Some (t_task_id s)) = Some s"
proof -
  let ?R = "sort_key (\<lambda>r. (c_created_seq r, c_task_id r)) (map snd (p_tasks p))"
  have row: "\<exists>k. (k, r) \<in> set (p_tasks p)" if "r \<in> set ?R" for r using that by auto
  then have "\<exists>s. proj_from_row r = Inr s" if "r \<in> set ?R" for r
    using that represents_row [OF assms] by metis
  then obtain xs where xs: "map_result proj_from_row ?R = Inr xs" "list_all2 (\<lambda>r s. proj_from_row r = Inr s) ?R xs"
    using map_result_Some by blast
  have id: "t_task_id s = c_task_id r" if "proj_from_row r = Inr s" for r s
    using that by (auto simp: proj_from_row_def elim!: bind_resultE split: option.splits)
  have "map t_task_id xs = map c_task_id ?R"
    using xs(2) by (induction rule: list_all2_induct) (simp_all add: id)
  moreover have "map c_task_id (map snd (p_tasks p)) = map fst (p_tasks p)"
    using represents_row [OF assms] by (auto intro!: map_cong) (metis prod.collapse)
  then have "distinct (map c_task_id ?R)"
    using assms by (metis distinct_map_sort_key represents_def dict_wf_def)
  ultimately have dist: "distinct (map t_task_id xs)" by simp
  have mem: "s \<in> set xs \<longleftrightarrow> (\<exists>k r. (k, r) \<in> set (p_tasks p) \<and> proj_from_row r = Inr s)" for s
  proof -
    have "s \<in> set xs \<longleftrightarrow> (\<exists>r\<in>set ?R. proj_from_row r = Inr s)"
      using xs(2) by (induction rule: list_all2_induct) auto
    then show ?thesis by (force simp: image_iff)
  qed
  have "s \<in> set xs \<longleftrightarrow> map_of ts (Some (t_task_id s)) = Some s" for s
  proof
    assume "s \<in> set xs"
    then obtain k r where "(k, r) \<in> set (p_tasks p)" "proj_from_row r = Inr s" using mem by blast
    with represents_row [OF assms] show "map_of ts (Some (t_task_id s)) = Some s" by (metis sum.inject(2))
  next
    assume a: "map_of ts (Some (t_task_id s)) = Some s"
    with assms obtain r where "map_of (p_tasks p) (t_task_id s) = Some r" "proj_to_row s = Inr r" "json_ok s"
      unfolding represents_def by blast
    then show "s \<in> set xs" unfolding mem using proj_roundtrip(1) map_of_SomeD by fastforce
  qed
  with xs(1) dist that show thesis by (simp add: load_tasks_def)
qed

lemma find_key_mem:
  "distinct (map key xs) \<Longrightarrow> find (\<lambda>x. key x = k) xs = Some x \<longleftrightarrow> x \<in> set xs \<and> key x = k"
  by (induction xs) (auto simp: image_iff)

lemma verify_projection_of:
  assumes "journal_of H es j"
  shows "verify_projection j = Inr True"
proof -
  from assms obtain ts where ts: "proj_fold es = Inr ts" "represents (j_proj j) ts" by (auto simp: journal_of_def)
  from load_tasks_represents [OF ts(2)] obtain xs where xs: "load_tasks (j_proj j) None = Inr xs"
    "distinct (map t_task_id xs)" "\<And>s. s \<in> set xs \<longleftrightarrow> map_of ts (Some (t_task_id s)) = Some s" by blast
  let ?d = "fold (\<lambda>s d. AList.update (Some (t_task_id s)) s d) xs []"
  have dist: "distinct (map (\<lambda>s. Some (t_task_id s)) xs)"
    using xs(2) by (simp add: distinct_map inj_on_def)
  have "map_of ts k = map_of ?d k" for k
  proof (cases k)
    case None
    then show ?thesis
      using ts(2) fold_update_map_of [OF dist, of "[]" None] by (auto simp: represents_def find_None_iff split: option.splits dest: find_SomeD)
  next
    case (Some t)
    have "find (\<lambda>s. Some (t_task_id s) = Some t) xs = map_of ts (Some t)"
    proof (cases "map_of ts (Some t)")
      case None
      then show ?thesis using xs(3) by (auto simp: find_None_iff)
    next
      case (Some s)
      moreover have "t_task_id s = t" using ts(2) Some unfolding represents_def by blast
      ultimately show ?thesis using find_key_mem [OF dist, of "Some t" s] xs(3) by simp
    qed
    then show ?thesis using Some fold_update_map_of [OF dist, of "[]" k] by (simp split: option.splits)
  qed
  then have "map_of ts = map_of ?d" by (rule ext)
  moreover have "dict_wf ?d" by (rule dict_wf_fold_update) simp
  moreover have "dict_wf ts" using ts(2) by (simp add: represents_def)
  ultimately show ?thesis
    using events_of [OF assms] ts(1) xs(1) by (simp add: verify_projection_def journal_tasks_def dict_eq_iff)
qed

lemma rebuild_of:
  assumes "journal_of H es j"
  shows "rebuild j = Inr (j_proj j)"
proof -
  have "fold_result replay_row p (map row_of fs) = fold_result replay_event p fs"
    if "set fs \<subseteq> set es" for p fs
    using that
  proof (induction fs arbitrary: p)
    case (Cons f fs)
    then have "replay_row q (row_of f) = replay_event q f" for q
      using wf_log_from_row [OF journal_ofD(1) [OF assms]] by (simp add: replay_row_def)
    with Cons show ?case by simp
  qed simp
  with journal_ofD(7) [OF assms] show ?thesis
    by (simp add: rebuild_def rows_by_seq_of [OF assms] rebuild_in_place_def)
qed

text \<open>
  C10. Every journal produced by appends passes its own integrity checks: the chain verifies over
  all stored rows up to the head, the stored projection equals a replay in memory, and rebuilding
  the projection from the rows alone gives the live projection, with the same fingerprint.
\<close>

theorem appended_journal_verifies:
  assumes "fold_result (append_step H) new_journal subs = Inr j" and "list_all submittable subs"
  shows "verify_chain H j = \<lparr>cr_ok = True, cr_count = length (j_events j), cr_head_seq = fst (head j),
      cr_head_hash = snd (head j), cr_first_bad_seq = None, cr_reason = None\<rparr>
    \<and> verify_projection j = Inr True \<and> rebuild j = Inr (j_proj j)
    \<and> last_seq (j_proj j) = int (length (j_events j))"
proof -
  from reachable_wf [OF assms] obtain es where es: "journal_of H es j" by (auto simp: wf_journal_def)
  then have "length (j_events j) = length es" using journal_ofD(2) by fastforce
  then show ?thesis
    using verify_chain_of [OF es] verify_projection_of [OF es] rebuild_of [OF es] journal_ofD(6) [OF es]
    by (simp add: last_seq_def)
qed

section \<open>Repeated submissions\<close>

lemma dedupe_unique:
  assumes "wf_log H es" "x \<in> set es" "y \<in> set es" "ev_dedupe_key x = Some k" "ev_dedupe_key y = Some k"
  shows "x = y"
proof -
  have "distinct (filter (\<lambda>k. k \<noteq> None) (map ev_dedupe_key es))" using assms(1) by (simp add: wf_log_def)
  then have "distinct (map ev_dedupe_key (filter (\<lambda>e. ev_dedupe_key e \<noteq> None) es))"
    by (simp add: filter_map o_def)
  then have "inj_on ev_dedupe_key (set (filter (\<lambda>e. ev_dedupe_key e \<noteq> None) es))" by (simp add: distinct_map)
  moreover have "x \<in> set (filter (\<lambda>e. ev_dedupe_key e \<noteq> None) es)" "y \<in> set (filter (\<lambda>e. ev_dedupe_key e \<noteq> None) es)"
    using assms(2-5) by simp_all
  ultimately show ?thesis using assms(4,5) by (metis inj_onD)
qed

lemma append_existing:
  assumes "journal_of H es j" "submittable f" "x \<in> set es" "ev_dedupe_key x = Some k" "ev_dedupe_key f = Some k"
  shows "journal_append H False j f =
    (if content x \<noteq> content f then Inl DedupeConflict
     else bind_result (if ev_task_id x = None \<or> ev_task_id x = Some [] then Inr None else journal_task j (ev_task_id x))
       (\<lambda>st. Inr (\<lparr>a_event = x, a_duplicate = True, a_state = st\<rparr>, j)))"
proof -
  obtain y where y: "find (\<lambda>y. ev_dedupe_key y = Some k) es = Some y"
    using assms(3,4) by (cases "find (\<lambda>y. ev_dedupe_key y = Some k) es") (auto simp: find_None_iff)
  have "y = x"
    using find_SomeD [OF y] dedupe_unique [OF journal_ofD(1) [OF assms(1)] _ assms(3) _ assms(4)] by blast
  with y have "find (\<lambda>y. ev_dedupe_key y = Some k) es = Some x" by simp
  then have "existing_event j f = Inr (Some x)" using existing_event_of [OF assms(1)] assms(5) by simp
  then show ?thesis using assms(2) by (simp add: journal_append_def submittable_def)
qed

text \<open>
  C11. A repeated submission is answered, not repeated: once an event with a dedupe key is in the
  journal, after any further appends another submission with that key returns the stored event as
  a duplicate and leaves the file unchanged if its content is the same, and is refused with
  \<open>DedupeConflict\<close> if its content differs.
\<close>

theorem append_is_idempotent:
  assumes "wf_journal H j" and "submittable e" and "ev_dedupe_key e = Some k"
    and "journal_append H False j e = Inr (ar, j1)"
    and "list_all submittable subs" and "fold_result (append_step H) j1 subs = Inr j2"
    and "submittable f" and "ev_dedupe_key f = Some k"
  shows "if content f = content e
    then (\<exists>ar2. journal_append H False j2 f = Inr (ar2, j2) \<and> a_duplicate ar2 \<and> a_event ar2 = a_event ar)
    else journal_append H False j2 f = Inl DedupeConflict"
proof -
  obtain es where es: "journal_of H es j" using assms(1) by (auto simp: wf_journal_def)
  from append_cases [OF es assms(2,4)] assms(3) obtain es1 where
    es1: "journal_of H es1 j1" "a_event ar \<in> set es1" "ev_dedupe_key (a_event ar) = Some k" "content (a_event ar) = content e"
    using es by (metis content_seal in_set_conv_decomp seal_fields(10))
  from appends_extend [OF es1(1) _ assms(6)] assms(5) obtain es2 where
    es2: "journal_of H es2 j2" "set es1 \<subseteq> set es2" by (auto simp: list_all_iff)
  have x: "a_event ar \<in> set es2" using es1(2) es2(2) by blast
  note ap = append_existing [OF es2(1) assms(7) x es1(3) assms(8)]
  show ?thesis
  proof (cases "content f = content e")
    case True
    obtain st where st: "journal_task j2 (ev_task_id (a_event ar)) = Inr st"
      using journal_task_total [OF es2(1)] by blast
    show ?thesis
      by (cases "ev_task_id (a_event ar) = None \<or> ev_task_id (a_event ar) = Some []")
        (simp_all add: True ap es1(4) st)
  next
    case False
    with ap es1(4) show ?thesis by auto
  qed
qed

section \<open>Tamper evidence\<close>

lemma from_row_fields:
  assumes "from_row r = Inr e"
  shows "r_type r = type_value (ev_type e)" "ev_task_id e = r_task_id r" "ev_attempt e = r_attempt r"
    "ev_dispatch_id e = r_dispatch_id r" "ev_worker_id e = r_worker_id r" "ev_result_id e = r_result_id r"
    "ev_event_id e = r_event_id r" "ev_ts_utc e = r_ts_utc r" "ev_schema_v e = r_schema_v r"
    "ev_seq e = Some (r_seq r)" "ev_prev_hash e = Some (r_prev_hash r)"
proof -
  from assms obtain t p where t: "type_of_value (r_type r) = Some t" and
    pi: "post_init \<lparr>ev_type = t, ev_task_id = r_task_id r, ev_attempt = r_attempt r,
              ev_dispatch_id = r_dispatch_id r, ev_worker_id = r_worker_id r,
              ev_result_id = r_result_id r, ev_payload = p, ev_event_id = r_event_id r,
              ev_ts_utc = r_ts_utc r, ev_dedupe_key = r_dedupe_key r, ev_schema_v = r_schema_v r,
              ev_seq = Some (r_seq r), ev_prev_hash = Some (r_prev_hash r), ev_hash = Some (r_hash r)\<rparr> = Inr e"
    by (auto simp: from_row_def elim!: bind_resultE split: option.splits json.splits)
  have "r_type r = type_value t"
    using t by (auto simp: type_of_value_def dest: find_SomeD)
  with post_init_fields [OF pi] post_init_schema [OF pi] show
    "r_type r = type_value (ev_type e)" "ev_task_id e = r_task_id r" "ev_attempt e = r_attempt r"
    "ev_dispatch_id e = r_dispatch_id r" "ev_worker_id e = r_worker_id r" "ev_result_id e = r_result_id r"
    "ev_event_id e = r_event_id r" "ev_ts_utc e = r_ts_utc r" "ev_schema_v e = r_schema_v r"
    "ev_seq e = Some (r_seq r)" "ev_prev_hash e = Some (r_prev_hash r)"
    by simp_all
qed

definition row_event :: "row \<Rightarrow> event" where
  "row_event r = projr (from_row r)"

definition row_intact :: "(string \<Rightarrow> string) \<Rightarrow> row \<Rightarrow> bool" where
  "row_intact H r \<longleftrightarrow> (\<exists>e. from_row r = Inr e \<and> r_hash r = chain_hash H e (Some (r_payload r)))"

text \<open>
  What the chain protects of a row: every column, with the dedupe key as the event read back has
  it (a missing key is filled in with the default of the event's type).
\<close>

definition row_view :: "row \<Rightarrow> row" where
  "row_view r = r\<lparr>r_dedupe_key := ev_dedupe_key (row_event r)\<rparr>"

text \<open>
  The text that \<open>verify_chain\<close> hashes for a row, and the texts it hashes for a whole journal.
\<close>

definition row_text :: "row \<Rightarrow> string" where
  "row_text r = hash_material (row_event r) (Some (r_payload r))"

definition chain_texts :: "journal \<Rightarrow> string set" where
  "chain_texts j = row_text ` set (rows_by_seq j)"

interpretation journal_chain: hash_chain H row_text
  r_prev_hash r_hash "row_intact H" row_view
proof
  fix r
  assume "row_intact H r"
  then show "r_hash r = H (row_text r)"
    by (auto simp: row_intact_def row_event_def chain_hash_def row_text_def)
next
  fix r s
  assume i: "row_intact H r" "row_intact H s"
    and "row_text r = row_text s"
  then have m: "hash_material (row_event r) (Some (r_payload r)) = hash_material (row_event s) (Some (r_payload s))"
    by (simp add: row_text_def)
  from i obtain e f where ef: "from_row r = Inr e" "r_hash r = chain_hash H e (Some (r_payload r))"
    "from_row s = Inr f" "r_hash s = chain_hash H f (Some (r_payload s))"
    by (auto simp: row_intact_def)
  have "r_hash r = r_hash s" using m ef by (simp add: row_event_def chain_hash_def)
  then show "row_view r = row_view s \<and> r_prev_hash r = r_prev_hash s"
    using m ef from_row_fields [OF ef(1)] from_row_fields [OF ef(3)]
    by (simp add: hash_material_inject row_view_def row_event_def row.equality)
qed

lemma row_defect_None:
  "row_defect H r q p = None \<longleftrightarrow> r_seq r = q \<and> r_prev_hash r = p \<and> row_intact H r"
  by (auto simp: row_defect_def row_intact_def split: sum.splits)

lemma verify_rows_ok:
  "cr_ok (verify_rows H q p n rs) \<longleftrightarrow> linked r_prev_hash r_hash p rs \<and> (\<forall>r\<in>set rs. row_intact H r)
     \<and> map r_seq rs = map (\<lambda>i. q + int i) [0..<length rs]"
proof (induction rs arbitrary: q p n)
  case (Cons r rs)
  have "map r_seq (r # rs) = map (\<lambda>i. q + int i) [0..<length (r # rs)] \<longleftrightarrow>
    r_seq r = q \<and> map r_seq rs = map (\<lambda>i. q + 1 + int i) [0..<length rs]"
    by (auto simp: upt_conv_Cons map_Suc_upt [symmetric] simp del: upt_Suc)
  moreover have "cr_ok (verify_rows H q p n (r # rs)) \<longleftrightarrow>
    row_defect H r q p = None \<and> cr_ok (verify_rows H (q + 1) (r_hash r) (Suc n) rs)"
    by (simp split: option.splits)
  ultimately show ?case using Cons.IH by (auto simp: row_defect_None)
qed simp

lemma verify_rows_report:
  "cr_ok (verify_rows H q p n rs) \<Longrightarrow> cr_head_hash (verify_rows H q p n rs) = tip r_hash p rs
     \<and> cr_count (verify_rows H q p n rs) = n + length rs"
  by (induction rs arbitrary: q p n) (auto split: option.splits)

lemma seq_determines_length:
  "map r_seq rs = map (\<lambda>i. q + int i) [0..<length rs] \<Longrightarrow> rs \<noteq> [] \<Longrightarrow> r_seq (last rs) = q + int (length rs) - 1"
proof -
  assume m: "map r_seq rs = map (\<lambda>i. q + int i) [0..<length rs]" and ne: "rs \<noteq> []"
  have "r_seq (last rs) = last (map r_seq rs)" using ne by (simp add: last_map)
  also have "\<dots> = q + int (length rs - 1)" unfolding m using ne by (simp add: last_map)
  finally show ?thesis using ne by (cases rs) auto
qed

text \<open>
  C12. Tamper evidence: if two journals both pass \<open>verify_chain\<close>, are not empty and report the same
  head hash, then they hold the same rows, up to dedupe keys that were erased or restored to
  their default, or else the hash function collides on them: a text hashed for a row of the one and a
  different text hashed for a row of the other have the same digest.
\<close>

theorem tamper_evidence:
  assumes "cr_ok (verify_chain H j)" and "cr_ok (verify_chain H j')"
    and "cr_head_hash (verify_chain H j) = cr_head_hash (verify_chain H j')"
    and "cr_count (verify_chain H j) \<noteq> 0" and "cr_count (verify_chain H j') \<noteq> 0"
  shows "map row_view (rows_by_seq j) = map row_view (rows_by_seq j') \<or> collision H (chain_texts j) (chain_texts j')"
proof -
  let ?rs = "rows_by_seq j" and ?ss = "rows_by_seq j'"
  note ok = assms(1) [unfolded verify_chain_def verify_rows_ok] assms(2) [unfolded verify_chain_def verify_rows_ok]
  note rep = verify_rows_report [OF assms(1) [unfolded verify_chain_def]] verify_rows_report [OF assms(2) [unfolded verify_chain_def]]
  have ne: "?rs \<noteq> []" "?ss \<noteq> []" using assms(4,5) rep by (auto simp: verify_chain_def)
  have same: "tip r_hash GENESIS_HASH ?rs = tip r_hash GENESIS_HASH ?ss"
    using assms(3) rep by (simp add: verify_chain_def)
  then have "r_hash (last ?rs) = r_hash (last ?ss)" using ne by (simp add: tip_def)
  then have "row_view (last ?rs) = row_view (last ?ss) \<or> collision H {row_text (last ?rs)} {row_text (last ?ss)}"
    using journal_chain.same_hash [of H "last ?rs" "last ?ss"] ok ne by auto
  then show ?thesis
  proof
    assume "row_view (last ?rs) = row_view (last ?ss)"
    then have "r_seq (row_view (last ?rs)) = r_seq (row_view (last ?ss))" by simp
    then have "r_seq (last ?rs) = r_seq (last ?ss)" by (simp add: row_view_def)
    then have "length ?rs = length ?ss"
      using ok ne seq_determines_length [of ?rs 1] seq_determines_length [of ?ss 1] by simp
    then show ?thesis
      using journal_chain.same_tip_same_view [of ?rs ?ss GENESIS_HASH H] ok same by (auto simp: chain_texts_def)
  next
    assume "collision H {row_text (last ?rs)} {row_text (last ?ss)}"
    then have "collision H (chain_texts j) (chain_texts j')"
      by (rule collision_mono) (use ne in \<open>simp_all add: chain_texts_def\<close>)
    then show ?thesis ..
  qed
qed

lemma from_row_no_dedupe:
  assumes "wf_event e" "is_sealed e"
    "ev_dedupe_key e = default_dedupe_key (ev_type e) (ev_task_id e) (ev_attempt e) (ev_dispatch_id e) (ev_result_id e)"
  shows "from_row ((row_of e)\<lparr>r_dedupe_key := None\<rparr>) = Inr e"
proof -
  have "loads (payload_json e) = Inr (JObj (ev_payload e))"
    unfolding payload_json_def wf_eventD(2) [OF assms(1)] by (rule loads_dumps [OF wf_eventD(1) [OF assms(1)]])
  moreover have "post_init (e\<lparr>ev_dedupe_key := None\<rparr>) = Inr e"
  proof -
    have "bind_result (canonical_json (JObj (ev_payload e))) loads = Inr (JObj (ev_payload e))"
      using canonical_loads [OF wf_eventD(1)] wf_eventD(2) assms(1) by metis
    moreover have "e\<lparr>ev_payload := ev_payload e, ev_dedupe_key :=
        default_dedupe_key (ev_type e) (ev_task_id e) (ev_attempt e) (ev_dispatch_id e) (ev_result_id e)\<rparr> = e"
      using assms(3) by (cases e) simp
    ultimately show ?thesis using wf_eventD(3) [OF assms(1)] by (simp add: post_init_def Let_def)
  qed
  ultimately show ?thesis
    using assms(2) by (cases e) (auto simp: from_row_def row_of_def is_sealed_def payload_json_def)
qed

lemma verify_rows_cong:
  "list_all2 (\<lambda>r s. r_seq r = r_seq s \<and> r_hash r = r_hash s \<and> r_prev_hash r = r_prev_hash s
      \<and> r_payload r = r_payload s \<and> from_row r = from_row s) rs ss \<Longrightarrow>
   verify_rows H q p n rs = verify_rows H q p n ss"
proof (induction arbitrary: q p n rule: list_all2_induct)
  case (Cons r rs s ss)
  then have "row_defect H r q p = row_defect H s q p" by (simp add: row_defect_def split: sum.splits)
  with Cons show ?case by (simp split: option.splits)
qed simp

lemma update_row_sorted:
  assumes "chain_from H q p es" "i < length es"
  shows "sort_key r_seq ((map row_of es)[i := (row_of (es ! i))\<lparr>r_dedupe_key := None\<rparr>])
    = (map row_of es)[i := (row_of (es ! i))\<lparr>r_dedupe_key := None\<rparr>]"
proof (rule sort_key_id_if_sorted)
  have "map r_seq ((map row_of es)[i := (row_of (es ! i))\<lparr>r_dedupe_key := None\<rparr>]) = map r_seq (map row_of es)"
    using assms(2) by (simp add: map_update list_update_same_conv)
  moreover have "sorted (map r_seq (map row_of es))" by (metis rows_sorted [OF assms(1)] sorted_sort_key)
  ultimately show "sorted (map r_seq ((map row_of es)[i := (row_of (es ! i))\<lparr>r_dedupe_key := None\<rparr>]))" by metis
qed

text \<open>
  The chain does not protect the dedupe key of a row whose key is the default one: erasing the
  column of such a row in a sound journal changes nothing in the report of \<open>verify_chain\<close>,
  although the row differs and the journal no longer recognises a repeated submission by it.
\<close>

theorem dedupe_erasure_undetected:
  assumes "journal_of H es j" and "i < length es"
    and "ev_dedupe_key (es ! i) = Some k"
    and "default_dedupe_key (ev_type (es ! i)) (ev_task_id (es ! i)) (ev_attempt (es ! i))
      (ev_dispatch_id (es ! i)) (ev_result_id (es ! i)) = Some k"
    and "j' = j\<lparr>j_events := (j_events j)[i := (j_events j ! i)\<lparr>r_dedupe_key := None\<rparr>]\<rparr>"
  shows "verify_chain H j' = verify_chain H j \<and> cr_ok (verify_chain H j') \<and> j_events j' \<noteq> j_events j
    \<and> get_event_by_dedupe_key j' k = Inr None"
proof -
  let ?rows = "(map row_of es)[i := (row_of (es ! i))\<lparr>r_dedupe_key := None\<rparr>]"
  have ev: "j_events j' = ?rows" using assms(2,5) journal_ofD(2) [OF assms(1)] by simp
  have mem: "es ! i \<in> set es" using assms(2) by simp
  have fr: "from_row ((row_of (es ! i))\<lparr>r_dedupe_key := None\<rparr>) = Inr (es ! i)"
    using from_row_no_dedupe journal_ofD(4) [OF assms(1) mem]
      chain_from_sealed [OF journal_ofD(3) [OF assms(1)] mem] assms(3,4) by simp
  have rows: "rows_by_seq j' = ?rows"
    unfolding rows_by_seq_def ev by (rule update_row_sorted [OF journal_ofD(3) [OF assms(1)] assms(2)])
  have "list_all2 (\<lambda>r s. r_seq r = r_seq s \<and> r_hash r = r_hash s \<and> r_prev_hash r = r_prev_hash s
      \<and> r_payload r = r_payload s \<and> from_row r = from_row s) ?rows (map row_of es)"
  proof (rule list_all2_all_nthI)
    fix n
    assume "n < length ?rows"
    then show "r_seq (?rows ! n) = r_seq (map row_of es ! n) \<and> r_hash (?rows ! n) = r_hash (map row_of es ! n)
      \<and> r_prev_hash (?rows ! n) = r_prev_hash (map row_of es ! n)
      \<and> r_payload (?rows ! n) = r_payload (map row_of es ! n) \<and> from_row (?rows ! n) = from_row (map row_of es ! n)"
      using fr wf_log_from_row [OF journal_ofD(1) [OF assms(1)] mem] by (cases "n = i") simp_all
  qed simp
  from verify_rows_cong [OF this] have same: "verify_chain H j' = verify_chain H j"
    by (simp add: verify_chain_def rows rows_by_seq_of [OF assms(1)])
  moreover have "cr_ok (verify_chain H j)" using verify_chain_of [OF assms(1)] by simp
  moreover have "r_dedupe_key (?rows ! i) \<noteq> r_dedupe_key (map row_of es ! i)"
    using assms(2,3) by (simp add: row_of_def)
  then have "j_events j' \<noteq> j_events j" unfolding ev journal_ofD(2) [OF assms(1)] by auto
  moreover have "find (\<lambda>r. r_dedupe_key r = Some k) ?rows = None"
    unfolding find_None_iff
  proof (rule ccontr)
    assume "\<not> \<not> (\<exists>x. x \<in> set ?rows \<and> r_dedupe_key x = Some k)"
    then obtain n where r: "n < length es" "r_dedupe_key (?rows ! n) = Some k"
      by (metis (no_types, lifting) in_set_conv_nth length_list_update length_map)
    then have n: "n < length es" "n \<noteq> i" "ev_dedupe_key (es ! n) = Some k"
      by (cases "n = i"; simp add: row_of_def)+
    have "es ! n = es ! i"
      using dedupe_unique [OF journal_ofD(1) [OF assms(1)] _ mem n(3) assms(3)] n(1) by simp
    moreover have "distinct es" using journal_ofD(1) [OF assms(1)] by (auto simp: wf_log_def distinct_map)
    ultimately show False using n assms(2) by (simp add: nth_eq_iff_index_eq)
  qed
  then have "get_event_by_dedupe_key j' k = Inr None" by (simp add: get_event_by_dedupe_key_def ev)
  ultimately show ?thesis by simp
qed

section \<open>Errors of append\<close>

fun append_refusal :: "error \<Rightarrow> bool" where
  "append_refusal DedupeConflict = True"
| "append_refusal (TransitionError _) = True"
| "append_refusal (IntegrityError _) = True"
| "append_refusal (OverflowError _) = True"
| "append_refusal _ = False"

lemma apply_event_error:
  assumes "represents p ts" "wf_event e" "ev_seq e = Some q" "apply_event p e = Inl err"
  shows "(\<exists>w. err = TransitionError w) \<or> (\<exists>w. err = OverflowError w)"
proof (cases "ev_type e \<in> set SYSTEM_EVENTS")
  case True
  with assms(3,4) show ?thesis by (simp add: apply_event_def store_def)
next
  case False
  have old: "json_ok s" if "map_of ts (ev_task_id e) = Some s" for s
    using assms(1) that unfolding represents_def by (metis option.distinct(1) not_Some_eq)
  have eq: "apply_event p e = bind_result (sm_apply (map_of ts (ev_task_id e)) e)
      (\<lambda>new. bind_result (store p new q) (\<lambda>p'. Inr (new, p')))"
    using False assms(3) represents_load [OF assms(1)] by (simp add: apply_event_def)
  show ?thesis
  proof (cases "sm_apply (map_of ts (ev_task_id e)) e")
    case (Inl x)
    with assms(4) eq sm_apply_outcome [OF wf_eventD(3) [OF assms(2)], of "map_of ts (ev_task_id e)"] show ?thesis
      by (auto simp: refused_or_applied_def)
  next
    case (Inr st)
    from sm_apply_json_ok [OF assms(2) False Inr old] have "\<And>s. st = Some s \<Longrightarrow> json_ok s" by auto
    moreover have "store p st q = Inl err" using assms(4) eq Inr by (cases "store p st q") simp_all
    ultimately show ?thesis using store_error by blast
  qed
qed

text \<open>
  Appending a well-formed event to a sound journal fails only with a \<open>DedupeConflict\<close>, a
  \<open>TransitionError\<close>, an \<open>IntegrityError\<close> because the event identifier is already stored, or an
  \<open>OverflowError\<close>; the journal is then unchanged, as it is for a duplicate.
\<close>

theorem append_refusals:
  assumes "wf_journal H j" and "submittable e" and "journal_append H False j e = Inl err"
  shows "append_refusal err \<and> (\<forall>w. err = IntegrityError w \<longrightarrow> ev_event_id e \<in> set (map r_event_id (j_events j)))"
proof -
  obtain es where es: "journal_of H es j" using assms(1) by (auto simp: wf_journal_def)
  obtain ts where ts: "represents (j_proj j) ts" using es by (auto simp: journal_of_def)
  let ?s = "seal H e (1 + int (length es)) (last_hash GENESIS_HASH es)"
  have wf: "wf_event e" "ev_seq e = None" "ev_hash e = None" using assms(2) by (simp_all add: submittable_def)
  let ?ex = "case ev_dedupe_key e of None \<Rightarrow> None | Some k \<Rightarrow> find (\<lambda>x. ev_dedupe_key x = Some k) es"
  show ?thesis
  proof (cases ?ex)
    case (Some x)
    then have "existing_event j e = Inr (Some x)" using existing_event_of [OF es] by simp
    moreover obtain st where "journal_task j (ev_task_id x) = Inr st" using journal_task_total [OF es] by blast
    ultimately show ?thesis using assms(3) wf
      by (auto simp: journal_append_def split: if_splits)
  next
    case None
    then have "existing_event j e = Inr None" using existing_event_of [OF es] by simp
    with assms(3) wf have new: "append_new H j e = Inl err" by (simp add: journal_append_def)
    have sl: "sealed H e (int (length es) + 1) (last_hash GENESIS_HASH es) = Inr ?s"
      using sealed_wf [OF wf(1)] by (simp add: add.commute)
    have fresh: "r_seq (row_of ?s) \<notin> set (map r_seq (j_events j))"
    proof -
      have "map r_seq (j_events j) = map the (map ev_seq es)"
        unfolding journal_ofD(2) [OF es] by (simp add: row_of_def)
      also have "\<dots> = map (\<lambda>i. 1 + int i) [0..<length es]"
        unfolding chain_from_seqs [OF journal_ofD(3) [OF es]] by simp
      finally show ?thesis by (auto simp: row_of_def)
    qed
    have nodup: "r_dedupe_key (row_of ?s) = None \<or> r_dedupe_key (row_of ?s) \<notin> set (map r_dedupe_key (j_events j))"
      using None unfolding journal_ofD(2) [OF es]
      by (cases "ev_dedupe_key e") (auto simp: row_of_def find_None_iff)
    show ?thesis
    proof (cases "apply_event (j_proj j) ?s")
      case (Inl x)
      with new sl head_of [OF es] have "err = x" by (simp add: append_new_def)
      then show ?thesis using apply_event_error [OF ts _ _ Inl] wf by auto
    next
      case (Inr stp)
      with new sl head_of [OF es] have "insert_row (j\<lparr>j_proj := snd stp\<rparr>) (row_of ?s) = Inl err"
        by (cases stp; cases "insert_row (j\<lparr>j_proj := snd stp\<rparr>) (row_of ?s)") (auto simp: append_new_def)
      then show ?thesis using fresh nodup by (auto simp: insert_row_def row_of_def split: if_splits)
    qed
  qed
qed

section \<open>Opening\<close>

text \<open>
  Opening a journal repairs its projection: whatever the stored projection is, if its version
  is not this build's, a writable open replays the rows and leaves the file with the projection
  that the appends had produced; if the version is current the file is left as it is.
\<close>

theorem open_restores_projection:
  assumes "wf_journal H j" and "j_user_version j = DB_SCHEMA_VERSION" and "\<not> is_current p"
  shows "open_journal False (Some (j\<lparr>j_proj := p\<rparr>)) = (Some (j\<lparr>j_guards := True\<rparr>), Inr ())
    \<and> open_journal False (Some j) = (Some (j\<lparr>j_guards := True\<rparr>), Inr ())"
proof -
  obtain es where es: "journal_of H es j" using assms(1) by (auto simp: wf_journal_def)
  have rb: "rebuild (j\<lparr>j_proj := x, j_guards := y\<rparr>) = Inr (j_proj j)" for x y
    using rebuild_of [OF es] by (simp add: rebuild_def rows_by_seq_def)
  have cs: "create_schema (j_proj j) = j_proj j"
    using journal_ofD(5,6) [OF es] by (simp add: create_schema_def is_current_def)
  have "j\<lparr>j_user_version := DB_SCHEMA_VERSION\<rparr> = j" using assms(2) by (cases j) simp
  with assms rb cs journal_ofD(5) [OF es] show ?thesis
    by (simp add: open_journal_def Let_def)
qed

section \<open>A sample journal\<close>

text \<open>A stand-in for the hash function with which the journal can be evaluated on a concrete run.\<close>

definition sample_digest :: "string \<Rightarrow> string" where
  "sample_digest t = take 8 t"

definition sample_submission :: "string \<Rightarrow> event \<Rightarrow> event" where
  "sample_submission i e = (case post_init (e\<lparr>ev_event_id := i\<rparr>) of Inr x \<Rightarrow> x | Inl _ \<Rightarrow> e)"

definition sample_subs :: "event list" where
  "sample_subs = [sample_submission ''e1'' sample_created]"

definition sample_journal :: "journal result" where
  "sample_journal = fold_result (append_step sample_digest) new_journal sample_subs"

lemma submittable_post_init:
  assumes "post_init e = Inr x" "wf_json (JObj (ev_payload e))" "ev_seq e = None" "ev_hash e = None"
  shows "submittable x"
  using post_init_wf(1) [OF assms(2,1)] post_init_fields [OF assms(1)] assms(3,4) by (simp add: submittable_def)

lemma sample_submission_ok:
  assumes "case post_init (e\<lparr>ev_event_id := i\<rparr>) of Inl _ \<Rightarrow> False | Inr _ \<Rightarrow> True"
    "wf_json (JObj (ev_payload e))" "ev_seq e = None" "ev_hash e = None"
  shows "submittable (sample_submission i e)"
proof (cases "post_init (e\<lparr>ev_event_id := i\<rparr>)")
  case (Inr x)
  then show ?thesis using submittable_post_init [OF Inr] assms by (simp add: sample_submission_def)
qed (use assms(1) in simp)

lemma sample_subs_submittable: "list_all submittable sample_subs"
proof -
  have "submittable (sample_submission ''e1'' sample_created)"
    by (rule sample_submission_ok) code_simp+
  then show ?thesis by (simp add: sample_subs_def)
qed

lemma sample_journal_ok:
  "case sample_journal of Inl _ \<Rightarrow> False
   | Inr j \<Rightarrow> length (j_events j) = 1 \<and> j_user_version j = DB_SCHEMA_VERSION \<and> r_dedupe_key (j_events j ! 0) = Some ''created:t1''"
  by code_simp

lemma sample_journalE:
  obtains j where "fold_result (append_step sample_digest) new_journal sample_subs = Inr j"
    "wf_journal sample_digest j" "length (j_events j) = 1" "j_user_version j = DB_SCHEMA_VERSION"
    "r_dedupe_key (j_events j ! 0) = Some ''created:t1''"
proof -
  obtain j where j: "sample_journal = Inr j" "length (j_events j) = 1" "j_user_version j = DB_SCHEMA_VERSION"
    "r_dedupe_key (j_events j ! 0) = Some ''created:t1''"
    using sample_journal_ok by (auto split: sum.splits)
  with reachable_wf [OF _ sample_subs_submittable, of sample_digest j] that show thesis
    by (simp add: sample_journal_def)
qed

theorem projection_is_history_witness:
  "\<exists>j es. fold_result (append_step sample_digest) new_journal sample_subs = Inr j \<and> journal_events j 0 None = Inr es"
  using sample_journalE projection_is_history [OF _ sample_subs_submittable] by metis

theorem appended_journal_verifies_witness:
  "\<exists>j. fold_result (append_step sample_digest) new_journal sample_subs = Inr j \<and> length (j_events j) = 1
     \<and> verify_projection j = Inr True"
  using sample_journalE appended_journal_verifies [OF _ sample_subs_submittable] by metis

theorem append_is_idempotent_witness:
  "\<exists>j ar. fold_result (append_step sample_digest) new_journal sample_subs = Inr j
     \<and> journal_append sample_digest False j (sample_submission ''e1'' sample_created) = Inr (ar, j) \<and> a_duplicate ar"
proof -
  let ?e = "sample_submission ''e1'' sample_created"
  from sample_journalE obtain j where j: "fold_result (append_step sample_digest) new_journal [?e] = Inr j"
    unfolding sample_subs_def by metis
  then have "append_step sample_digest new_journal ?e = Inr j" by (simp add: bind_result_right)
  then obtain ar where ar: "journal_append sample_digest False new_journal ?e = Inr (ar, j)"
    by (auto simp: append_step_Inr)
  have sub: "submittable ?e" using sample_subs_submittable by (simp add: sample_subs_def)
  have k: "ev_dedupe_key ?e = Some ''created:t1''" by code_simp
  from append_is_idempotent [OF wf_new_journal sub k ar, of "[]" j ?e] sub k have
    "\<exists>ar2. journal_append sample_digest False j ?e = Inr (ar2, j) \<and> a_duplicate ar2" by auto
  with j show ?thesis unfolding sample_subs_def by blast
qed

definition erase_key :: "journal \<Rightarrow> journal" where
  "erase_key j = j\<lparr>j_events := (j_events j)[0 := (j_events j ! 0)\<lparr>r_dedupe_key := None\<rparr>]\<rparr>"

lemma sample_erasedE:
  obtains j where "sample_journal = Inr j" "wf_journal sample_digest j" "length (j_events j) = 1"
    "j_events (erase_key j) \<noteq> j_events j" "verify_chain sample_digest (erase_key j) = verify_chain sample_digest j"
    "cr_ok (verify_chain sample_digest j)" "cr_count (verify_chain sample_digest j) = 1"
proof -
  let ?e = "sample_submission ''e1'' sample_created"
  from sample_journalE obtain j where j: "fold_result (append_step sample_digest) new_journal [?e] = Inr j"
    and wf: "wf_journal sample_digest j" "length (j_events j) = 1"
    unfolding sample_subs_def by metis
  then have "append_step sample_digest new_journal ?e = Inr j" by (simp add: bind_result_right)
  then obtain ar where ar: "journal_append sample_digest False new_journal ?e = Inr (ar, j)"
    by (auto simp: append_step_Inr)
  have sub: "submittable ?e" using sample_subs_submittable by (simp add: sample_subs_def)
  from append_cases [OF journal_of_new sub ar] have es: "journal_of sample_digest [seal sample_digest ?e 1 GENESIS_HASH] j"
    by (auto simp: last_hash_def)
  have k: "ev_dedupe_key ?e = Some ''created:t1''"
    "default_dedupe_key (ev_type ?e) (ev_task_id ?e) (ev_attempt ?e) (ev_dispatch_id ?e) (ev_result_id ?e) = Some ''created:t1''"
    by code_simp+
  note r = dedupe_erasure_undetected [OF es, of 0 "''created:t1''", OF _ _ _ refl]
  have e: "j_events (erase_key j) \<noteq> j_events j" "verify_chain sample_digest (erase_key j) = verify_chain sample_digest j"
    using r k by (auto simp: erase_key_def)
  have c: "cr_ok (verify_chain sample_digest j)" "cr_count (verify_chain sample_digest j) = 1"
    using verify_chain_of [OF es] by simp_all
  have "sample_journal = Inr j" using j by (simp add: sample_journal_def sample_subs_def)
  from that [OF this wf e c] show thesis .
qed

theorem tamper_evidence_witness:
  "\<exists>j j'. j_events j' \<noteq> j_events j \<and> cr_ok (verify_chain sample_digest j) \<and> cr_ok (verify_chain sample_digest j')
     \<and> rows_by_seq j \<noteq> []
     \<and> (map row_view (rows_by_seq j) = map row_view (rows_by_seq j') \<or> collision sample_digest (chain_texts j) (chain_texts j'))"
proof -
  obtain j where j: "wf_journal sample_digest j" "length (j_events j) = 1" "j_events (erase_key j) \<noteq> j_events j"
    "verify_chain sample_digest (erase_key j) = verify_chain sample_digest j"
    "cr_ok (verify_chain sample_digest j)" "cr_count (verify_chain sample_digest j) = 1"
    by (rule sample_erasedE)
  from j(1) obtain es where es: "journal_of sample_digest es j" by (auto simp: wf_journal_def)
  have "rows_by_seq j \<noteq> []" using rows_by_seq_of [OF es] j(2) journal_ofD(2) [OF es] by auto
  moreover have "map row_view (rows_by_seq j) = map row_view (rows_by_seq (erase_key j))
      \<or> collision sample_digest (chain_texts j) (chain_texts (erase_key j))"
    by (rule tamper_evidence) (simp_all add: j(4,5,6))
  ultimately show ?thesis using j(3,4,5) by metis
qed

theorem dedupe_erasure_undetected_witness:
  "\<exists>j j'. j_events j' \<noteq> j_events j \<and> cr_ok (verify_chain sample_digest j')
     \<and> verify_chain sample_digest j' = verify_chain sample_digest j"
  using sample_erasedE by metis

theorem append_refusals_witness:
  "\<exists>err. journal_append sample_digest False new_journal (sample_submission ''e2'' (sample_claim 1 ''d1'')) = Inl err
     \<and> append_refusal err"
proof -
  have sub: "submittable (sample_submission ''e2'' (sample_claim 1 ''d1''))"
    by (rule sample_submission_ok) code_simp+
  have "case journal_append sample_digest False new_journal (sample_submission ''e2'' (sample_claim 1 ''d1'')) of
      Inl _ \<Rightarrow> True | Inr _ \<Rightarrow> False" by code_simp
  then obtain err where err: "journal_append sample_digest False new_journal (sample_submission ''e2'' (sample_claim 1 ''d1'')) = Inl err"
    by (auto split: sum.splits)
  with append_refusals [OF wf_new_journal sub err] show ?thesis by blast
qed

theorem open_restores_projection_witness:
  "\<exists>j. length (j_events j) = 1 \<and> open_journal False (Some (j\<lparr>j_proj := no_projection\<rparr>)) = (Some (j\<lparr>j_guards := True\<rparr>), Inr ())"
proof -
  from sample_journalE obtain j where j: "wf_journal sample_digest j" "length (j_events j) = 1"
    "j_user_version j = DB_SCHEMA_VERSION" by metis
  have "\<not> is_current no_projection" by code_simp
  with open_restores_projection [OF j(1,3)] j(2) show ?thesis by blast
qed

end
