(* ===== verification/Verification.thy ===== *)
theory Verification
  imports Task_Histories
begin

text \<open>
  The verifier hand-off (courier\_core/verification.py): the fail-closed rules around the verdict
  of an adapter. What an adapter's module contains and what its \<open>verify\<close> function does is not
  part of this code: the loaded function is a value of \<open>verify_fn\<close>, and importing a module is a
  parameter.
\<close>

section \<open>Verdicts\<close>

record verdict =
  v_accepted :: bool
  v_reason :: string
  v_retryable :: bool
  v_verifier :: json

text \<open>
  What a call of \<open>verify\<close> can do: raise an exception of some class, return a value that is no
  \<open>Verdict\<close>, or return a \<open>Verdict\<close> whose fields may hold any Python value.
\<close>

datatype verify_outcome =
    Raised string
  | NotAVerdict
  | AVerdict json json json \<comment> \<open>accepted, reason, retryable\<close>

record verify_fn =
  vf_identity :: json
  vf_run :: "task_state \<Rightarrow> event \<Rightarrow> verify_outcome"

text \<open>Importing \<open>adapters.<name>\<close>: the module, with its \<open>verify\<close> if callable, or an exception.\<close>

datatype import_outcome =
    Imported "verify_fn option"
  | ModuleNotFound string
  | ImportRaised string

datatype load_outcome = Loaded "verify_fn option" | LoadRaised string

definition is_adapter_start :: "char \<Rightarrow> bool" where
  "is_adapter_start c \<longleftrightarrow> 97 \<le> char_code c \<and> char_code c \<le> 122"

definition is_adapter_char :: "char \<Rightarrow> bool" where
  "is_adapter_char c \<longleftrightarrow> is_adapter_start c \<or> is_digit c \<or> c = CHR ''_''"

text \<open>
  \<open>ADAPTER_NAME.match\<close>: as in every Python pattern that ends in \<open>$\<close>, a final newline is let
  through.
\<close>

definition adapter_name_match :: "string \<Rightarrow> bool" where
  "adapter_name_match s =
     (let t = (if s \<noteq> [] \<and> last s = CHR 0x0A then butlast s else s) in
      t \<noteq> [] \<and> is_adapter_start (hd t) \<and> list_all is_adapter_char (tl t) \<and> length t \<le> 64)"

definition adapter_verifier :: "(string \<Rightarrow> import_outcome) \<Rightarrow> string \<Rightarrow> load_outcome" where
  "adapter_verifier import_module adapter =
     (if \<not> adapter_name_match adapter then Loaded None
      else case import_module (''adapters.'' @ adapter) of
          Imported v \<Rightarrow> Loaded v
        | ModuleNotFound name \<Rightarrow>
            (if name = ''adapters'' \<or> name = ''adapters.'' @ adapter then Loaded None
             else LoadRaised ''ModuleNotFoundError'')
        | ImportRaised cls \<Rightarrow> LoadRaised cls)"

section \<open>The rules\<close>

definition verifier_rule :: "string \<Rightarrow> string \<Rightarrow> json" where
  "verifier_rule name adapter =
     JObj [(''kind'', JStr ''courier_rule''), (''name'', JStr name), (''adapter'', JStr adapter)]"

definition rejected :: "string \<Rightarrow> bool \<Rightarrow> json \<Rightarrow> verdict" where
  "rejected reason retry by = \<lparr>v_accepted = False, v_reason = reason, v_retryable = retry, v_verifier = by\<rparr>"

definition mentions_timeout :: "string \<Rightarrow> bool" where
  "mentions_timeout reason = str_contains (lower reason) ''timeout''"

definition reported_reason :: "event \<Rightarrow> string" where
  "reported_reason result = (let given = get (ev_payload result) ''reason'' in
     if truthy given then py_str given else ''worker reported failure'')"

definition worker_failure :: "task_state \<Rightarrow> event \<Rightarrow> verdict" where
  "worker_failure task result =
     (let reason = reported_reason result;
          raw = (if has_key (ev_payload result) ''retryable'' then truthy (get (ev_payload result) ''retryable'')
                 else may_auto_retry (t_effect_class task));
          retry = (if mentions_timeout reason \<and> \<not> may_auto_retry (t_effect_class task) then False else raw)
      in rejected (take 500 reason) retry (verifier_rule ''worker_reported_failure'' (t_adapter task)))"

definition judge :: "task_state \<Rightarrow> json \<Rightarrow> verify_outcome \<Rightarrow> verdict" where
  "judge task identity out =
     (case out of
        Raised cls \<Rightarrow> rejected (''verifier raised '' @ cls) False identity
      | NotAVerdict \<Rightarrow> rejected ''verifier returned an invalid verdict'' False identity
      | AVerdict acc reason retry \<Rightarrow>
          (case acc of
             JBool b \<Rightarrow>
               \<lparr>v_accepted = b, v_reason = take 500 (py_str reason),
                v_retryable = (if mentions_timeout (py_str reason) \<and> \<not> may_auto_retry (t_effect_class task)
                  then False else truthy retry),
                v_verifier = identity\<rparr>
           | _ \<Rightarrow> rejected ''verifier returned an invalid verdict'' False identity))"

definition run_verifier :: "(string \<Rightarrow> load_outcome) \<Rightarrow> task_state \<Rightarrow> event \<Rightarrow> verdict" where
  "run_verifier resolve task result =
     (if get (ev_payload result) ''outcome'' \<noteq> JStr ''success'' then worker_failure task result
      else case resolve (t_adapter task) of
          LoadRaised cls \<Rightarrow> rejected (''verifier for adapter '' @ repr_str (t_adapter task) @ '' failed to load: '' @ cls)
            False (verifier_rule ''verifier_load_failed'' (t_adapter task))
        | Loaded None \<Rightarrow> rejected (''no verifier registered for adapter '' @ repr_str (t_adapter task))
            False (verifier_rule ''no_verifier'' (t_adapter task))
        | Loaded (Some f) \<Rightarrow> judge task (vf_identity f) (vf_run f task result))"

section \<open>Fail closed\<close>

lemma rejected_simps [simp]:
  "v_accepted (rejected w r b) = False" "v_retryable (rejected w r b) = r" "v_reason (rejected w r b) = w"
  by (simp_all add: rejected_def)

lemma judge_accepted:
  "v_accepted (judge task i out) \<longleftrightarrow> (\<exists>r t. out = AVerdict (JBool True) r t)"
  by (cases out) (auto simp: judge_def split: json.splits)

text \<open>
  C15. There is no default PASS: a verdict accepts a result exactly when the worker reported
  success and the adapter's own verifier, loaded without error, returned a \<open>Verdict\<close> whose
  \<open>accepted\<close> is \<open>True\<close>; a missing, broken or raising verifier rejects.
\<close>

theorem no_default_pass:
  "v_accepted (run_verifier resolve task result) \<longleftrightarrow>
     get (ev_payload result) ''outcome'' = JStr ''success''
     \<and> (\<exists>f reason retry. resolve (t_adapter task) = Loaded (Some f)
          \<and> vf_run f task result = AVerdict (JBool True) reason retry)"
  by (auto simp: run_verifier_def worker_failure_def Let_def judge_accepted split: load_outcome.splits option.splits)

lemma judge_retryable:
  "v_retryable (judge task i out) \<Longrightarrow> \<not> may_auto_retry (t_effect_class task) \<Longrightarrow>
   \<exists>b r t. out = AVerdict (JBool b) r t \<and> truthy t \<and> \<not> mentions_timeout (py_str r)"
  by (cases out rule: verify_outcome.exhaust) (simp_all add: judge_def split: json.split_asm if_split_asm)

text \<open>
  Nothing but an idempotent effect becomes retryable by omission or after a timeout: if the
  verdict on a task of any other effect class is retryable, then the reason does not mention a
  timeout, and either the worker's report said \<open>retryable\<close> itself or the adapter's verifier did.
\<close>

theorem retryable_not_by_omission:
  assumes "v_retryable (run_verifier resolve task result)" and "t_effect_class task \<noteq> ''idempotent''"
  shows "(get (ev_payload result) ''outcome'' \<noteq> JStr ''success''
      \<and> has_key (ev_payload result) ''retryable'' \<and> truthy (get (ev_payload result) ''retryable'')
      \<and> \<not> mentions_timeout (reported_reason result))
    \<or> (\<exists>f b reason retry. resolve (t_adapter task) = Loaded (Some f)
        \<and> vf_run f task result = AVerdict (JBool b) reason retry \<and> truthy retry \<and> \<not> mentions_timeout (py_str reason))"
proof -
  have ne: "\<not> may_auto_retry (t_effect_class task)"
    using assms(2) by (simp add: may_auto_retry_def RETRY_SAFE_EFFECT_CLASS_def)
  show ?thesis
  proof (cases "get (ev_payload result) ''outcome'' = JStr ''success''")
    case True
    with assms(1) obtain f where f: "resolve (t_adapter task) = Loaded (Some f)"
      "v_retryable (judge task (vf_identity f) (vf_run f task result))"
      by (simp add: run_verifier_def split: load_outcome.splits option.splits)
    from judge_retryable [OF f(2) ne] f(1) show ?thesis by blast
  next
    case False
    with assms(1) ne show ?thesis by (simp add: run_verifier_def worker_failure_def Let_def split: if_splits)
  qed
qed

definition sample_verifier :: verify_fn where
  "sample_verifier = \<lparr>vf_identity = JNull,
     vf_run = (\<lambda>task result. AVerdict (JBool False) (JStr ''wrong checksum'') (JBool True))\<rparr>"

theorem retryable_not_by_omission_witness:
  "\<exists>task. v_retryable (run_verifier (\<lambda>_. Loaded (Some sample_verifier)) task (hd sample_finish))
     \<and> \<not> mentions_timeout (py_str (JStr ''wrong checksum''))"
proof -
  have "ends_in [sample_created] (\<lambda>s. t_effect_class s \<noteq> ''idempotent'')" by code_simp
  from ends_inD [OF this] obtain task :: task_state where t: "t_effect_class task \<noteq> ''idempotent''" by blast
  have out: "get (ev_payload (hd sample_finish)) ''outcome'' = JStr ''success''" by code_simp
  have nt: "\<not> mentions_timeout ''wrong checksum''" by code_simp
  then have r: "v_retryable (run_verifier (\<lambda>_. Loaded (Some sample_verifier)) task (hd sample_finish))"
    using out by (simp add: run_verifier_def judge_def sample_verifier_def)
  from retryable_not_by_omission [OF r t] out r show ?thesis by (auto simp: sample_verifier_def)
qed

end
