(* ===== verification/Controller.thy ===== *)
theory Controller
  imports Journal Verification Complex_Main
begin

text \<open>
  The controller (courier\_core/controller.py): the only writer of the journal, with the leases and
  the verification queue it keeps in memory. Every method is an operation on the controller's
  state that returns or raises; the state survives an exception, as the object does. The section
  a method runs under the lock is one atomic step; \<open>verify_next\<close>, which releases the lock while
  the adapter's verifier runs, is two steps. The clock reading is an argument, SHA-256, UUIDs and
  timestamps come from the environment.
\<close>

section \<open>State\<close>

datatype mode = Booting | Normal | Degraded

record lease =
  l_task_id :: string
  l_dispatch_id :: string
  l_worker_id :: string
  l_ttl_s :: int
  l_deadline :: rat
  l_reason :: string

text \<open>
  \<open>k_file\<close> is the journal file on disk (\<open>None\<close> when it does not exist); \<open>k_attached\<close> says that
  \<open>self.journal\<close> is an open journal. \<open>k_draws\<close> counts the random identifiers drawn.
\<close>

record controller =
  k_mode :: mode
  k_file :: "journal option"
  k_attached :: bool
  k_stopping :: bool
  k_leases :: "(string \<times> lease) list"
  k_verify_queue :: "string list"
  k_head_seq :: int
  k_last_tick :: "rat option"
  k_projection_readable :: bool
  k_first_bad_seq :: "int option"
  k_degraded_reason :: "string option"
  k_draws :: nat

record env =
  x_H :: "string \<Rightarrow> string"
  x_uuid :: "nat \<Rightarrow> string"
  x_utc :: "nat \<Rightarrow> string"
  x_resolve :: "string \<Rightarrow> load_outcome"
  x_quick_check :: string
  x_pid :: int
  x_build :: json

type_synonym 'a op = "controller \<Rightarrow> 'a result \<times> controller"

definition init_controller :: "journal option \<Rightarrow> controller" where
  "init_controller file = \<lparr>k_mode = Booting, k_file = file, k_attached = False, k_stopping = False, k_leases = [],
     k_verify_queue = [], k_head_seq = 0, k_last_tick = None, k_projection_readable = True,
     k_first_bad_seq = None, k_degraded_reason = None, k_draws = 0\<rparr>"

section \<open>Operations that may raise\<close>

definition op_return :: "'a \<Rightarrow> 'a op" where
  "op_return x = (\<lambda>c. (Inr x, c))"

definition op_raise :: "error \<Rightarrow> 'a op" where
  "op_raise err = (\<lambda>c. (Inl err, c))"

definition op_bind :: "'a op \<Rightarrow> ('a \<Rightarrow> 'b op) \<Rightarrow> 'b op" where
  "op_bind m k = (\<lambda>c. case m c of (Inl err, c') \<Rightarrow> (Inl err, c') | (Inr x, c') \<Rightarrow> k x c')"

definition op_lift :: "'a result \<Rightarrow> 'a op" where
  "op_lift r = (\<lambda>c. (r, c))"

definition op_get :: "(controller \<Rightarrow> 'a) \<Rightarrow> 'a op" where
  "op_get f = (\<lambda>c. (Inr (f c), c))"

definition op_modify :: "(controller \<Rightarrow> controller) \<Rightarrow> unit op" where
  "op_modify f = (\<lambda>c. (Inr (), f c))"

text \<open>\<open>try: m except (matching) as exc: handler\<close>\<close>

definition op_catch :: "'a op \<Rightarrow> (error \<Rightarrow> 'a op option) \<Rightarrow> 'a op" where
  "op_catch m h = (\<lambda>c. case m c of (Inr x, c') \<Rightarrow> (Inr x, c')
     | (Inl err, c') \<Rightarrow> (case h err of None \<Rightarrow> (Inl err, c') | Some k \<Rightarrow> k c'))"

definition op_when :: "bool \<Rightarrow> unit op \<Rightarrow> unit op" where
  "op_when b m = (if b then m else op_return ())"

fun op_each :: "('a \<Rightarrow> unit op) \<Rightarrow> 'a list \<Rightarrow> unit op" where
  "op_each f [] = op_return ()"
| "op_each f (x # xs) = op_bind (f x) (\<lambda>_. op_each f xs)"

definition api :: "int \<Rightarrow> string \<Rightarrow> 'a op" where
  "api status code = op_raise (ApiError status code)"

definition api_if :: "bool \<Rightarrow> int \<Rightarrow> string \<Rightarrow> unit op" where
  "api_if b status code = (if b then api status code else op_return ())"

section \<open>Requests\<close>

definition MAX_LEASE_TTL_S :: int where "MAX_LEASE_TTL_S = 3600"
definition MAX_TIMEOUT_S :: int where "MAX_TIMEOUT_S = 7 * 24 * 3600"
definition MAX_HEARTBEAT_DISPATCHES :: nat where "MAX_HEARTBEAT_DISPATCHES = 256"
definition MAX_ARTIFACTS :: nat where "MAX_ARTIFACTS = 1000"
definition MAX_REASON_CHARS :: nat where "MAX_REASON_CHARS = 2000"
definition SUSPEND_GAP_S :: rat where "SUSPEND_GAP_S = 5"

definition TASK_FIELDS :: "string list" where
  "TASK_FIELDS = [''adapter'', ''params'', ''effect_class'', ''max_attempts'', ''lease_ttl_s'', ''timeout_s'',
     ''idempotency_key'', ''depends_on'']"

definition RESULT_FIELDS :: "string list" where
  "RESULT_FIELDS = [''dispatch_id'', ''result_id'', ''artifacts'', ''outcome'', ''retryable'', ''reason'']"

definition RESOLVE_DECISIONS :: "(string \<times> event_type) list" where
  "RESOLVE_DECISIONS = [(''effect_confirmed'', EFFECT_CONFIRMED), (''retry_authorized'', RETRY_AUTHORIZED),
     (''cancel'', TASK_CANCELLED)]"

definition heartbeat_interval :: "int \<Rightarrow> rat" where
  "heartbeat_interval ttl = max (1 / 2) (of_int ttl / 3)"

definition invalid_request :: "'a op" where
  "invalid_request = api 400 ''invalid_request''"

definition require_id :: "payload \<Rightarrow> string \<Rightarrow> string op" where
  "require_id body name = (case get body name of
     JStr s \<Rightarrow> if valid_id s then op_return s else invalid_request | _ \<Rightarrow> invalid_request)"

definition require_int :: "payload \<Rightarrow> string \<Rightarrow> int \<Rightarrow> int \<Rightarrow> bool \<Rightarrow> int option op" where
  "require_int body name low high req = (case get body name of
     JNull \<Rightarrow> if req then invalid_request else op_return None
   | JInt i \<Rightarrow> if low \<le> i \<and> i \<le> high then op_return (Some i) else invalid_request
   | _ \<Rightarrow> invalid_request)"

definition require_reason :: "payload \<Rightarrow> bool \<Rightarrow> string option op" where
  "require_reason body req = (case get body ''reason'' of
     JNull \<Rightarrow> if req then invalid_request else op_return None
   | JStr s \<Rightarrow> if strip s \<noteq> [] \<and> length s \<le> MAX_REASON_CHARS then op_return (Some s) else invalid_request
   | _ \<Rightarrow> invalid_request)"

definition only_fields :: "json \<Rightarrow> string list \<Rightarrow> payload op" where
  "only_fields body allowed = (case body of
     JObj kvs \<Rightarrow> if list_all (\<lambda>(k, v). k \<in> set allowed) kvs then op_return kvs else invalid_request
   | _ \<Rightarrow> invalid_request)"

text \<open>\<open>body.get(name) not in names\<close>, which raises \<open>TypeError\<close> for a list or an object.\<close>

definition require_member :: "payload \<Rightarrow> string \<Rightarrow> string list \<Rightarrow> string op" where
  "require_member body name names = op_bind (op_lift (in_str_set (get body name) names)) (\<lambda>b.
     if \<not> b then invalid_request else case get body name of JStr s \<Rightarrow> op_return s | _ \<Rightarrow> invalid_request)"

section \<open>Primitives\<close>

definition require_writable :: "unit op" where
  "require_writable = op_bind (op_get (\<lambda>c. c)) (\<lambda>c.
     if k_stopping c then api 503 ''stopping''
     else if k_mode c \<noteq> Normal then api 503 ''degraded_readonly'' else op_return ())"

text \<open>The open journal; \<open>self.journal\<close> is \<open>None\<close> only before boot and after stop.\<close>

definition the_journal :: "journal op" where
  "the_journal = op_bind (op_get (\<lambda>c. if k_attached c then k_file c else None)) (\<lambda>f. case f of
     None \<Rightarrow> op_raise (TypeError ''NoneType'') | Some j \<Rightarrow> op_return j)"

definition ctl_task :: "string option \<Rightarrow> task_state option op" where
  "ctl_task tid = op_bind the_journal (\<lambda>j. op_lift (journal_task j tid))"

definition ctl_tasks :: "string option \<Rightarrow> task_state list op" where
  "ctl_tasks status = op_bind the_journal (\<lambda>j. op_lift (journal_tasks j status))"

text \<open>The task a lease, claim or verdict refers to; reading a field of \<open>None\<close> raises.\<close>

definition the_task :: "string option \<Rightarrow> task_state op" where
  "the_task tid = op_bind (ctl_task tid) (\<lambda>t. case t of
     None \<Rightarrow> op_raise (TypeError ''NoneType'') | Some s \<Rightarrow> op_return s)"

definition draw :: "nat op" where
  "draw = (\<lambda>c. (Inr (k_draws c), c\<lparr>k_draws := Suc (k_draws c)\<rparr>))"

definition new_uuid :: "env \<Rightarrow> string op" where
  "new_uuid x = op_bind draw (\<lambda>n. op_return (x_uuid x n))"

text \<open>\<open>Event(type=..., ...)\<close> with a fresh identifier and timestamp.\<close>

definition new_event ::
  "env \<Rightarrow> event_type \<Rightarrow> string option \<Rightarrow> int option \<Rightarrow> string option \<Rightarrow> string option \<Rightarrow> string option
   \<Rightarrow> payload \<Rightarrow> string option \<Rightarrow> event op" where
  "new_event x t tid att did wid rid p key = op_bind draw (\<lambda>n. op_lift (post_init
     \<lparr>ev_type = t, ev_task_id = tid, ev_attempt = att, ev_dispatch_id = did, ev_worker_id = wid,
      ev_result_id = rid, ev_payload = p, ev_event_id = x_uuid x n, ev_ts_utc = x_utc x n,
      ev_dedupe_key = key, ev_schema_v = SCHEMA_VERSION, ev_seq = None, ev_prev_hash = None, ev_hash = None\<rparr>))"

definition ctl_append :: "env \<Rightarrow> event \<Rightarrow> append_result op" where
  "ctl_append x e = op_bind the_journal (\<lambda>j. case journal_append (x_H x) False j e of
     Inl err \<Rightarrow> op_raise err
   | Inr (ar, j') \<Rightarrow> op_bind (op_modify (\<lambda>c. c\<lparr>k_file := Some j'\<rparr>)) (\<lambda>_.
       op_bind (op_when (\<not> a_duplicate ar) (op_modify (\<lambda>c. c\<lparr>k_head_seq := the (ev_seq (a_event ar))\<rparr>)))
         (\<lambda>_. op_return ar)))"

text \<open>\<open>self._append(self._task_event(type, task, attempt=..., payload=...))\<close>\<close>

definition append_task_event :: "env \<Rightarrow> event_type \<Rightarrow> task_state \<Rightarrow> int option \<Rightarrow> payload \<Rightarrow> unit op" where
  "append_task_event x t task att p =
     op_bind (new_event x t (Some (t_task_id task)) att None None None p None) (\<lambda>e.
     op_bind (ctl_append x e) (\<lambda>_. op_return ()))"

definition complete_task :: "env \<Rightarrow> task_state \<Rightarrow> unit op" where
  "complete_task x task =
     op_bind (new_event x TASK_COMPLETE (Some (t_task_id task)) (Some (t_attempt task)) (t_dispatch_id task) None
       (t_accepted_result_id task) [] None) (\<lambda>e.
     op_bind (ctl_append x e) (\<lambda>_. op_return ()))"

definition failure_reason :: "task_state \<Rightarrow> string" where
  "failure_reason task = (case t_last_reason task of Some r \<Rightarrow> if r = [] then ''attempt failed'' else r
     | None \<Rightarrow> ''attempt failed'')"

definition block_reason :: "task_state \<Rightarrow> string" where
  "block_reason task = ''outcome of '' @ t_effect_class task @ '' attempt '' @ show_int (t_attempt task)
     @ '' is unknown ('' @ failure_reason task @ ''); needs a human decision''"

definition decide :: "env \<Rightarrow> task_state \<Rightarrow> unit op" where
  "decide x task = op_bind (op_lift (decide_after_failure task)) (\<lambda>d. case d of
     RETRY \<Rightarrow> append_task_event x TASK_RETRY_SCHEDULED task (Some (t_attempt task))
       [(''reason'', JStr (failure_reason task))]
   | FAIL \<Rightarrow> append_task_event x TASK_FAILED task None [(''reason'', JStr (failure_reason task))]
   | BLOCK \<Rightarrow> append_task_event x TASK_BLOCKED task None [(''reason'', JStr (block_reason task))]
   | CANCEL \<Rightarrow> append_task_event x TASK_CANCELLED task None [(''reason'', JStr ''cancelled'')])"

section \<open>The API\<close>

definition as_invalid_request :: "error \<Rightarrow> 'a op option" where
  "as_invalid_request err = (case err of EventValidationError _ \<Rightarrow> Some invalid_request | _ \<Rightarrow> None)"

text \<open>\<open>payload = {name: body[name] for name in (...)}\<close> and the optional members.\<close>

definition created_payload :: "payload \<Rightarrow> int option \<Rightarrow> string option \<Rightarrow> payload" where
  "created_payload body timeout dep =
     map (\<lambda>n. (n, get body n)) [''adapter'', ''params'', ''effect_class'', ''max_attempts'', ''lease_ttl_s'']
     @ (case timeout of None \<Rightarrow> [] | Some t \<Rightarrow> [(''timeout_s'', JInt t)])
     @ (case dep of None \<Rightarrow> [] | Some d \<Rightarrow> [(''depends_on'', JStr d)])"

definition task_id_for :: "env \<Rightarrow> payload \<Rightarrow> string op" where
  "task_id_for x body = (if get body ''idempotency_key'' \<noteq> JNull
     then op_bind (require_id body ''idempotency_key'') (\<lambda>key. op_return (''task-'' @ take 32 (x_H x key)))
     else op_bind (new_uuid x) (\<lambda>u. op_return (''task-'' @ u)))"

text \<open>The response is the HTTP status, the task id and whether the submission was a duplicate.\<close>

definition create_task :: "env \<Rightarrow> json \<Rightarrow> (int \<times> string \<times> bool) op" where
  "create_task x body0 =
     op_bind require_writable (\<lambda>_.
     op_bind (only_fields body0 TASK_FIELDS) (\<lambda>body.
     op_bind (require_id body ''adapter'') (\<lambda>adapter.
     op_bind (if adapter_name_match adapter then op_return () else invalid_request) (\<lambda>_.
     op_bind (if is_obj (get body ''params'') then op_return () else invalid_request) (\<lambda>_.
     op_bind (require_member body ''effect_class'' EFFECT_CLASSES) (\<lambda>_.
     op_bind (require_int body ''max_attempts'' 1 MAX_ATTEMPTS_LIMIT True) (\<lambda>_.
     op_bind (require_int body ''lease_ttl_s'' 1 MAX_LEASE_TTL_S True) (\<lambda>_.
     op_bind (require_int body ''timeout_s'' 1 MAX_TIMEOUT_S False) (\<lambda>timeout.
     op_bind (task_id_for x body) (\<lambda>tid.
     op_bind (if get body ''depends_on'' \<noteq> JNull then op_bind (require_id body ''depends_on'') (\<lambda>d. op_return (Some d))
              else op_return None) (\<lambda>dep.
     op_bind (op_catch (new_event x TASK_CREATED (Some tid) None None None None (created_payload body timeout dep) None)
       as_invalid_request) (\<lambda>e.
     op_bind (if dep = None then op_return () else op_bind (ctl_task dep) (\<lambda>t. api_if (t = None) 400 ''unknown_dependency'')) (\<lambda>_.
     op_bind (op_catch (ctl_append x e) (\<lambda>err. if err = DedupeConflict then Some (api 409 ''idempotency_conflict'') else None))
       (\<lambda>ar. op_return (if a_duplicate ar then 200 else 201, tid, a_duplicate ar)))))))))))))))"

text \<open>\<open>[{"path": a["path"], "sha256": a["sha256"]} for a in ...]\<close>\<close>

definition artifact_ref :: "json \<Rightarrow> json" where
  "artifact_ref a = (case a of JObj kvs \<Rightarrow> JObj [(''path'', get kvs ''path''), (''sha256'', get kvs ''sha256'')] | _ \<Rightarrow> JNull)"

definition artifact_refs :: "json \<Rightarrow> json list" where
  "artifact_refs v = (case v of JList xs \<Rightarrow> map artifact_ref xs | _ \<Rightarrow> [])"

definition input_of :: "task_state \<Rightarrow> event \<Rightarrow> json" where
  "input_of dep result = JObj [(''task_id'', JStr (t_task_id dep)), (''dispatch_id'', opt_str (t_dispatch_id dep)),
     (''result_id'', opt_str (t_accepted_result_id dep)), (''artifacts'', JList (artifact_refs (get (ev_payload result) ''artifacts'')))]"

definition dependency_failed :: "env \<Rightarrow> task_state \<Rightarrow> string \<Rightarrow> json option op" where
  "dependency_failed x task why =
     op_bind (append_task_event x TASK_FAILED task None
       [(''reason'', JStr (''dependency '' @ show_opt (t_depends_on task) @ '' cannot provide an input: '' @ why))])
     (\<lambda>_. op_return None)"

definition verified_input :: "env \<Rightarrow> task_state \<Rightarrow> json option op" where
  "verified_input x task =
     op_bind (ctl_task (t_depends_on task)) (\<lambda>dep. case dep of
       None \<Rightarrow> dependency_failed x task ''it is missing''
     | Some d \<Rightarrow>
         (if t_status d = COMPLETE \<and> t_resolution d = Some RESOLVED_VERIFIED then
            op_bind the_journal (\<lambda>j.
            op_bind (op_lift (get_event_by_dedupe_key j
                (result_dedupe_key (show_opt (t_dispatch_id d)) (show_opt (t_accepted_result_id d))))) (\<lambda>r. case r of
              Some e \<Rightarrow> if truthy (get (ev_payload e) ''artifacts'') then op_return (Some (input_of d e))
                else dependency_failed x task ''its verified result names no artifact''
            | None \<Rightarrow> dependency_failed x task ''its verified result names no artifact''))
          else if t_status d \<in> TERMINAL then
            dependency_failed x task (''it ended '' @ status_value (t_status d) @ '' without a verified result'')
          else op_return None))"

record claim_response =
  cl_task_id :: string
  cl_attempt :: int
  cl_dispatch_id :: string
  cl_worker_id :: string
  cl_ttl_s :: int
  cl_heartbeat_s :: rat
  cl_spec :: json

definition claim_spec :: "env \<Rightarrow> task_state \<Rightarrow> json option \<Rightarrow> json" where
  "claim_spec x task bound = JObj ([(''adapter'', JStr (t_adapter task)), (''params'', t_params task),
     (''effect_class'', JStr (t_effect_class task)), (''timeout_s'', opt_int (t_timeout_s task)),
     (''effect_key'', JStr (effect_key (x_H x) (t_task_id task)))]
     @ (case bound of None \<Rightarrow> [] | Some v \<Rightarrow> [(''input'', v)]))"

definition claim_one :: "env \<Rightarrow> rat \<Rightarrow> string \<Rightarrow> task_state \<Rightarrow> json option \<Rightarrow> claim_response op" where
  "claim_one x now wid task bound =
     op_bind (new_uuid x) (\<lambda>u.
     op_bind (new_event x TASK_CLAIMED (Some (t_task_id task)) (Some (t_attempt task + 1)) (Some (''dsp-'' @ u)) (Some wid)
       None ((''ttl_s'', JInt (t_lease_ttl_s task)) # (case bound of None \<Rightarrow> [] | Some v \<Rightarrow> [(''input'', v)])) None) (\<lambda>e.
     op_bind (ctl_append x e) (\<lambda>_.
     op_bind (op_modify (\<lambda>c. c\<lparr>k_leases := AList.update (''dsp-'' @ u) \<lparr>l_task_id = t_task_id task,
        l_dispatch_id = ''dsp-'' @ u, l_worker_id = wid, l_ttl_s = t_lease_ttl_s task,
        l_deadline = now + of_int (t_lease_ttl_s task), l_reason = ''ttl''\<rparr> (k_leases c)\<rparr>)) (\<lambda>_.
     op_return \<lparr>cl_task_id = t_task_id task, cl_attempt = t_attempt task + 1, cl_dispatch_id = ''dsp-'' @ u,
       cl_worker_id = wid, cl_ttl_s = t_lease_ttl_s task, cl_heartbeat_s = heartbeat_interval (t_lease_ttl_s task),
       cl_spec = claim_spec x task bound\<rparr>))))"

fun claim_loop :: "env \<Rightarrow> rat \<Rightarrow> string \<Rightarrow> task_state list \<Rightarrow> claim_response option op" where
  "claim_loop x now wid [] = op_return None"
| "claim_loop x now wid (task # rest) =
     (if t_cancel_requested task then claim_loop x now wid rest
      else if t_depends_on task \<noteq> None then
        op_bind (verified_input x task) (\<lambda>bound.
          if bound = None then claim_loop x now wid rest
          else op_bind (claim_one x now wid task bound) (\<lambda>r. op_return (Some r)))
      else op_bind (claim_one x now wid task None) (\<lambda>r. op_return (Some r)))"

definition ctl_claim :: "env \<Rightarrow> rat \<Rightarrow> json \<Rightarrow> claim_response option op" where
  "ctl_claim x now body0 =
     op_bind require_writable (\<lambda>_.
     op_bind (only_fields body0 [''worker_id'', ''resource_state'']) (\<lambda>body.
     op_bind (require_id body ''worker_id'') (\<lambda>wid.
     op_bind (ctl_tasks (Some ''QUEUED'')) (\<lambda>tasks. claim_loop x now wid tasks))))"

definition claim_of :: "string \<Rightarrow> event op" where
  "claim_of did = op_bind the_journal (\<lambda>j. op_bind (op_lift (claim_for_dispatch j did)) (\<lambda>c. case c of
     None \<Rightarrow> api 404 ''unknown_dispatch'' | Some e \<Rightarrow> op_return e))"

text \<open>The response is the status word and the task id.\<close>

definition ctl_start :: "env \<Rightarrow> json \<Rightarrow> (string \<times> string) op" where
  "ctl_start x body0 =
     op_bind require_writable (\<lambda>_.
     op_bind (only_fields body0 [''dispatch_id'', ''worker_id'']) (\<lambda>body.
     op_bind (require_id body ''dispatch_id'') (\<lambda>did.
     op_bind (claim_of did) (\<lambda>cl.
     op_bind (api_if (get body ''worker_id'' \<noteq> JNull \<and> get body ''worker_id'' \<noteq> opt_str (ev_worker_id cl)) 409 ''wrong_worker'') (\<lambda>_.
     op_bind (the_task (ev_task_id cl)) (\<lambda>task.
     op_bind (api_if (t_dispatch_id task \<noteq> Some did \<or> t_status task \<notin> ACTIVE_LEASE) 409 ''stale_dispatch'') (\<lambda>_.
     op_bind (api_if (t_cancel_requested task) 409 ''cancel_requested'') (\<lambda>_.
       if t_status task = RUNNING then op_return (''ALREADY_STARTED'', t_task_id task)
       else op_bind (new_event x TASK_STARTED (Some (t_task_id task)) (ev_attempt cl) (Some did) (ev_worker_id cl) None [] None) (\<lambda>e.
            op_bind (ctl_append x e) (\<lambda>_. op_return (''STARTED'', t_task_id task)))))))))))"

text \<open>A reported dispatch: \<open>None\<close> to keep running, else which of the two lists it goes to.\<close>

datatype beat = Keep | Stop | Cancel

definition heartbeat_one :: "rat \<Rightarrow> string \<Rightarrow> string \<Rightarrow> beat op" where
  "heartbeat_one now wid did =
     op_bind (op_get (\<lambda>c. map_of (k_leases c) did)) (\<lambda>l. case l of
       None \<Rightarrow> op_return Stop
     | Some lease \<Rightarrow>
         (if l_worker_id lease \<noteq> wid then op_return Stop
          else op_bind (ctl_task (Some (l_task_id lease))) (\<lambda>t.
               op_bind (op_modify (\<lambda>c. c\<lparr>k_leases := AList.update did
                 (lease\<lparr>l_deadline := now + of_int (l_ttl_s lease), l_reason := ''ttl''\<rparr>) (k_leases c)\<rparr>)) (\<lambda>_.
               case t of None \<Rightarrow> op_raise (TypeError ''NoneType'')
               | Some task \<Rightarrow> op_return (if t_cancel_requested task then Cancel else Keep)))))"

fun heartbeat_loop :: "rat \<Rightarrow> string \<Rightarrow> string list \<Rightarrow> (string list \<times> string list) op" where
  "heartbeat_loop now wid [] = op_return ([], [])"
| "heartbeat_loop now wid (d # ds) = op_bind (heartbeat_one now wid d) (\<lambda>b.
     op_bind (heartbeat_loop now wid ds) (\<lambda>(stop, cancel).
       op_return (if b = Stop then d # stop else stop, if b = Cancel then d # cancel else cancel)))"

definition confirm_cancel :: "env \<Rightarrow> string list \<Rightarrow> lease \<Rightarrow> unit op" where
  "confirm_cancel x reported lease =
     (if l_dispatch_id lease \<in> set reported then op_return ()
      else op_bind (the_task (Some (l_task_id lease))) (\<lambda>task.
        if t_cancel_requested task \<and> t_status task \<in> ACTIVE_LEASE \<and> t_dispatch_id task = Some (l_dispatch_id lease)
        then op_bind (append_task_event x TASK_CANCELLED task None [(''reason'', JStr ''worker confirmed stop'')]) (\<lambda>_.
             op_modify (\<lambda>c. c\<lparr>k_leases := AList.delete (l_dispatch_id lease) (k_leases c)\<rparr>))
        else op_return ()))"

fun dispatch_list :: "json \<Rightarrow> string list option" where
  "dispatch_list (JList xs) = (if length xs \<le> MAX_HEARTBEAT_DISPATCHES \<and> list_all json_id xs
     then Some (map (\<lambda>v. case v of JStr s \<Rightarrow> s | _ \<Rightarrow> []) xs) else None)"
| "dispatch_list _ = None"

text \<open>The response is the lists \<open>stop\<close> and \<open>cancel\<close>.\<close>

definition heartbeat :: "env \<Rightarrow> rat \<Rightarrow> json \<Rightarrow> (string list \<times> string list) op" where
  "heartbeat x now body0 =
     op_bind require_writable (\<lambda>_.
     op_bind (only_fields body0 [''worker_id'', ''dispatch_ids'', ''resource_state'']) (\<lambda>body.
     op_bind (require_id body ''worker_id'') (\<lambda>wid.
       case dispatch_list (get body ''dispatch_ids'') of
         None \<Rightarrow> invalid_request
       | Some ids \<Rightarrow>
           op_bind (heartbeat_loop now wid (sort (remdups ids))) (\<lambda>resp.
           op_bind (op_get (\<lambda>c. filter (\<lambda>l. l_worker_id l = wid) (map snd (k_leases c)))) (\<lambda>ls.
           op_bind (op_each (confirm_cancel x ids) ls) (\<lambda>_. op_return resp))))))"

definition result_payload :: "payload \<Rightarrow> payload" where
  "result_payload body = [(''artifacts'', get body ''artifacts''), (''outcome'', get body ''outcome'')]
     @ (if has_key body ''retryable'' then [(''retryable'', get body ''retryable'')] else [])
     @ (if has_key body ''reason'' then [(''reason'', get body ''reason'')] else [])"

definition late_payload :: "payload \<Rightarrow> event \<Rightarrow> task_state \<Rightarrow> payload" where
  "late_payload p cl task = AList.update ''reason'' (JStr (''dispatch is not the active attempt (task '' @ status_value (t_status task) @ '')''))
     (AList.update ''attempt'' (opt_int (ev_attempt cl)) (AList.update ''reported_reason'' (get p ''reason'') p))"

definition is_refusal :: "error \<Rightarrow> bool" where
  "is_refusal err = (case err of TransitionError _ \<Rightarrow> True | DedupeConflict \<Rightarrow> True | _ \<Rightarrow> False)"

text \<open>\<open>LATE_RESULT_DISCARDED\<close> is recorded as evidence, then the report is refused.\<close>

definition discard_late :: "env \<Rightarrow> string \<Rightarrow> string \<Rightarrow> payload \<Rightarrow> event \<Rightarrow> task_state \<Rightarrow> 'a op" where
  "discard_late x did rid p cl task =
     op_bind (new_event x LATE_RESULT_DISCARDED (Some (t_task_id task)) None (Some did) None (Some rid)
       (late_payload p cl task) (Some (''late:'' @ did @ '':'' @ rid))) (\<lambda>late.
     op_bind (op_catch (op_bind (ctl_append x late) (\<lambda>_. op_return ())) (\<lambda>err. if is_refusal err then Some (op_return ()) else None)) (\<lambda>_.
       api 409 ''stale_dispatch''))"

definition small_list :: "json \<Rightarrow> nat \<Rightarrow> bool" where
  "small_list v n = (case v of JList xs \<Rightarrow> length xs \<le> n | _ \<Rightarrow> False)"

definition short_text :: "json \<Rightarrow> nat \<Rightarrow> bool" where
  "short_text v n = (case v of JStr s \<Rightarrow> length s \<le> n | _ \<Rightarrow> False)"

text \<open>The response is the status word, the task id and the sequence number of the stored result.\<close>

definition ctl_result :: "env \<Rightarrow> json \<Rightarrow> (string \<times> string option \<times> int option) op" where
  "ctl_result x body0 =
     op_bind require_writable (\<lambda>_.
     op_bind (only_fields body0 RESULT_FIELDS) (\<lambda>body.
     op_bind (require_id body ''dispatch_id'') (\<lambda>did.
     op_bind (require_id body ''result_id'') (\<lambda>rid.
     op_bind (if small_list (get body ''artifacts'') MAX_ARTIFACTS then op_return () else invalid_request) (\<lambda>_.
     op_bind (require_member body ''outcome'' RESULT_OUTCOMES) (\<lambda>_.
     op_bind (if has_key body ''reason'' \<and> \<not> short_text (get body ''reason'') MAX_REASON_CHARS then invalid_request else op_return ()) (\<lambda>_.
     op_bind (claim_of did) (\<lambda>cl.
     op_bind (op_catch (new_event x RESULT_READY (ev_task_id cl) (ev_attempt cl) (Some did) (ev_worker_id cl) (Some rid)
       (result_payload body) None) as_invalid_request) (\<lambda>cand.
     op_bind the_journal (\<lambda>j.
     op_bind (op_lift (existing_event j cand)) (\<lambda>ex. case ex of
       Some old \<Rightarrow> (if content old = content cand then op_return (''ACK_DUPLICATE'', ev_task_id cl, ev_seq old)
                    else api 409 ''result_conflict'')
     | None \<Rightarrow>
       op_bind (the_task (ev_task_id cl)) (\<lambda>task.
         if t_dispatch_id task = Some did \<and> t_status task = RUNNING then
           op_bind (api_if (t_cancel_requested task) 409 ''cancel_requested'') (\<lambda>_.
           op_bind (ctl_append x cand) (\<lambda>ar.
           op_bind (op_modify (\<lambda>c. c\<lparr>k_leases := AList.delete did (k_leases c),
             k_verify_queue := k_verify_queue c @ [t_task_id task]\<rparr>)) (\<lambda>_.
           op_return (''ACCEPTED_FOR_VERIFY'', Some (t_task_id task), ev_seq (a_event ar)))))
         else if t_dispatch_id task = Some did \<and> t_status task = CLAIMED then api 409 ''not_started''
         else discard_late x did rid (result_payload body) cl task))))))))))))"

definition who :: "string option \<Rightarrow> payload" where
  "who actor = (case actor of None \<Rightarrow> [] | Some a \<Rightarrow> [(''actor'', JStr a)])"

definition given_or :: "string option \<Rightarrow> string \<Rightarrow> string" where
  "given_or r d = (case r of Some s \<Rightarrow> if s = [] then d else s | None \<Rightarrow> d)"

definition cancel_task :: "env \<Rightarrow> task_state \<Rightarrow> string option \<Rightarrow> string option \<Rightarrow> string op" where
  "cancel_task x task0 actor reason =
     op_bind (api_if (t_status task0 \<in> TERMINAL) 409 ''terminal'') (\<lambda>_.
     op_bind (api_if (t_status task0 = BLOCKED \<and> actor = None) 409 ''actor_required'') (\<lambda>_.
     op_bind (if t_cancel_requested task0 then op_return task0
       else op_bind (append_task_event x TASK_CANCEL_REQUESTED task0 None
              ((''reason'', JStr (given_or reason ''requested via API'')) # who actor)) (\<lambda>_.
            the_task (Some (t_task_id task0)))) (\<lambda>task.
     op_bind (if t_status task \<in> {QUEUED, BLOCKED} then
         append_task_event x TASK_CANCELLED task None ((''reason'', JStr (given_or reason ''cancelled'')) # who actor)
       else if t_status task = RETRY_PENDING then decide x task else op_return ()) (\<lambda>_.
     op_bind (the_task (Some (t_task_id task))) (\<lambda>t. op_return (status_value (t_status t)))))))"

definition ctl_cancel :: "env \<Rightarrow> string \<Rightarrow> json \<Rightarrow> string op" where
  "ctl_cancel x tid body0 =
     op_bind require_writable (\<lambda>_.
     op_bind (only_fields (if truthy body0 then body0 else JObj []) [''actor'', ''reason'']) (\<lambda>body.
     op_bind (if get body ''actor'' \<noteq> JNull then op_bind (require_id body ''actor'') (\<lambda>a. op_return (Some a)) else op_return None) (\<lambda>actor.
     op_bind (require_reason body False) (\<lambda>reason.
     op_bind (ctl_task (Some tid)) (\<lambda>t. case t of
       None \<Rightarrow> api 404 ''unknown_task'' | Some task \<Rightarrow> cancel_task x task actor reason)))))"

text \<open>The response is the task's status, the decision and whether it repeats an earlier one.\<close>

definition resolve_new :: "env \<Rightarrow> task_state \<Rightarrow> string \<Rightarrow> event_type \<Rightarrow> event option \<Rightarrow> int \<Rightarrow> string \<Rightarrow> string
    \<Rightarrow> (string \<times> string \<times> bool) op" where
  "resolve_new x task dec et cand attempt actor reason =
     op_bind (api_if (t_status task \<noteq> BLOCKED) 409 ''not_blocked'') (\<lambda>_.
     op_bind (api_if (attempt \<noteq> t_attempt task) 409 ''stale_decision'') (\<lambda>_.
       if et = TASK_CANCELLED then
         op_bind (cancel_task x task (Some actor) (Some reason)) (\<lambda>st. op_return (st, dec, False))
       else
         op_bind (api_if (et = RETRY_AUTHORIZED \<and> t_cancel_requested task) 409 ''cancel_requested'') (\<lambda>_.
         op_bind (api_if (et = RETRY_AUTHORIZED \<and> MAX_ATTEMPTS_LIMIT \<le> t_attempt task) 409 ''attempt_limit'') (\<lambda>_.
         op_bind (case cand of None \<Rightarrow> op_raise (TypeError ''NoneType'') | Some e \<Rightarrow> ctl_append x e) (\<lambda>_.
         op_bind (the_task (Some (t_task_id task))) (\<lambda>t. op_return (status_value (t_status t), dec, False)))))))"

definition ctl_resolve :: "env \<Rightarrow> string \<Rightarrow> json \<Rightarrow> (string \<times> string \<times> bool) op" where
  "ctl_resolve x tid body0 =
     op_bind require_writable (\<lambda>_.
     op_bind (only_fields body0 [''decision'', ''actor'', ''attempt'', ''reason'']) (\<lambda>body.
     op_bind (require_member body ''decision'' (map fst RESOLVE_DECISIONS)) (\<lambda>dec.
     op_bind (require_id body ''actor'') (\<lambda>actor.
     op_bind (require_int body ''attempt'' 1 MAX_ATTEMPTS_LIMIT True) (\<lambda>att.
     op_bind (require_reason body True) (\<lambda>rsn.
     (let attempt = (case att of Some a \<Rightarrow> a | None \<Rightarrow> 0); reason = show_opt rsn;
          et = (case map_of RESOLVE_DECISIONS dec of Some t \<Rightarrow> t | None \<Rightarrow> TASK_CANCELLED) in
     op_bind (ctl_task (Some tid)) (\<lambda>t. case t of
       None \<Rightarrow> api 404 ''unknown_task''
     | Some task \<Rightarrow>
         (if et = TASK_CANCELLED then resolve_new x task dec et None attempt actor reason
          else op_bind (new_event x et (Some tid) (Some attempt) None None None
                 [(''actor'', JStr actor), (''reason'', JStr reason)] None) (\<lambda>cand.
               op_bind the_journal (\<lambda>j.
               op_bind (op_lift (existing_event j cand)) (\<lambda>ex. case ex of
                 Some old \<Rightarrow> (if content old \<noteq> content cand then api 409 ''decision_conflict''
                    else op_return (status_value (t_status task), dec, True))
               | None \<Rightarrow> resolve_new x task dec et (Some cand) attempt actor reason))))))))))))"

section \<open>Background work\<close>

text \<open>\<open>for lease in self._leases.values(): lease.deadline += gap\<close>\<close>

definition extend_leases :: "rat \<Rightarrow> (string \<times> lease) list \<Rightarrow> (string \<times> lease) list" where
  "extend_leases gap = map (\<lambda>(d, l). (d, l\<lparr>l_deadline := l_deadline l + gap\<rparr>))"

definition note_tick :: "rat \<Rightarrow> controller \<Rightarrow> controller" where
  "note_tick now c = (case k_last_tick c of
     Some t \<Rightarrow> (if SUSPEND_GAP_S < now - t then c\<lparr>k_leases := extend_leases (now - t) (k_leases c)\<rparr> else c)
   | None \<Rightarrow> c)\<lparr>k_last_tick := Some now\<rparr>"

definition expire_lease :: "env \<Rightarrow> lease \<Rightarrow> unit op" where
  "expire_lease x lease =
     op_bind (op_modify (\<lambda>c. c\<lparr>k_leases := AList.delete (l_dispatch_id lease) (k_leases c)\<rparr>)) (\<lambda>_.
     op_bind (ctl_task (Some (l_task_id lease))) (\<lambda>t. case t of
       None \<Rightarrow> op_return ()
     | Some task \<Rightarrow>
         (if t_dispatch_id task \<noteq> Some (l_dispatch_id lease) \<or> t_status task \<notin> ACTIVE_LEASE then op_return ()
          else op_bind (new_event x LEASE_EXPIRED (Some (t_task_id task)) (Some (t_attempt task)) (t_dispatch_id task)
                 (t_worker_id task) None [(''reason'', JStr (l_reason lease))] None) (\<lambda>e.
               op_bind (ctl_append x e) (\<lambda>_.
               op_bind (the_task (Some (t_task_id task))) (\<lambda>t'. decide x t'))))))"

definition ctl_tick :: "env \<Rightarrow> rat \<Rightarrow> unit op" where
  "ctl_tick x now = op_bind (op_get (\<lambda>c. k_mode c \<noteq> Normal \<or> k_stopping c)) (\<lambda>idle.
     if idle then op_return ()
     else op_bind (op_modify (note_tick now)) (\<lambda>_.
          op_bind (op_get (\<lambda>c. filter (\<lambda>l. l_deadline l \<le> now) (map snd (k_leases c)))) (\<lambda>expired.
          op_each (expire_lease x) expired)))"

text \<open>
  \<open>verify_next\<close>, first locked section: the next task to verify with its stored result. \<open>None\<close>
  means that there is nothing to verify for the identifier taken from the queue.
\<close>

datatype verify_job = QueueEmpty | Skip | Job task_state event

definition verify_take :: "verify_job op" where
  "verify_take = op_bind (op_get k_verify_queue) (\<lambda>q. case q of
     [] \<Rightarrow> op_return QueueEmpty
   | tid # rest \<Rightarrow>
       op_bind (op_modify (\<lambda>c. c\<lparr>k_verify_queue := rest\<rparr>)) (\<lambda>_.
       op_bind (ctl_task (Some tid)) (\<lambda>t. case t of
         None \<Rightarrow> op_return Skip
       | Some task \<Rightarrow>
           (if t_status task \<noteq> VERIFYING then op_return Skip
            else op_bind the_journal (\<lambda>j.
                 op_bind (op_lift (get_event_by_dedupe_key j
                   (result_dedupe_key (show_opt (t_dispatch_id task)) (show_opt (t_pending_result_id task))))) (\<lambda>r. case r of
                     None \<Rightarrow> op_raise (TypeError ''NoneType'')
                   | Some e \<Rightarrow> op_return (Job task e)))))))"

definition rejected_payload :: "verdict \<Rightarrow> payload" where
  "rejected_payload v = [(''reason'', JStr (if v_reason v = [] then ''rejected'' else v_reason v)),
     (''retryable'', JBool (v_retryable v)), (''verifier'', v_verifier v)]"

text \<open>Second locked section: the verdict is journaled only if the task still waits for it.\<close>

definition verify_finish :: "env \<Rightarrow> task_state \<Rightarrow> verdict \<Rightarrow> unit op" where
  "verify_finish x task v =
     op_bind (op_get k_stopping) (\<lambda>stopping. if stopping then op_return () else
     op_bind (the_task (Some (t_task_id task))) (\<lambda>cur.
       if t_status cur \<noteq> VERIFYING \<or> t_pending_result_id cur \<noteq> t_pending_result_id task
          \<or> t_dispatch_id cur \<noteq> t_dispatch_id task then op_return ()
       else if v_accepted v then
         op_bind (new_event x RESULT_ACCEPTED (Some (t_task_id task)) (Some (t_attempt cur)) (t_dispatch_id cur) None
           (t_pending_result_id cur) [(''reason'', JStr (v_reason v)), (''verifier'', v_verifier v)] None) (\<lambda>e.
         op_bind (ctl_append x e) (\<lambda>_.
         op_bind (the_task (Some (t_task_id task))) (\<lambda>t. complete_task x t)))
       else
         op_bind (new_event x RESULT_REJECTED (Some (t_task_id task)) (Some (t_attempt cur)) (t_dispatch_id cur) None
           (t_pending_result_id cur) (rejected_payload v) None) (\<lambda>e.
         op_bind (ctl_append x e) (\<lambda>_.
         op_bind (the_task (Some (t_task_id task))) (\<lambda>t. decide x t)))))"

definition verify_next :: "env \<Rightarrow> bool op" where
  "verify_next x = op_bind verify_take (\<lambda>job. case job of
     QueueEmpty \<Rightarrow> op_return False
   | Skip \<Rightarrow> op_return True
   | Job task result \<Rightarrow> op_bind (verify_finish x task (run_verifier (x_resolve x) task result)) (\<lambda>_. op_return True))"

text \<open>\<open>while self.verify_next(): pass\<close>, with one round per queued identifier and the last empty one.\<close>

fun drain_rounds :: "env \<Rightarrow> nat \<Rightarrow> unit op" where
  "drain_rounds x 0 = op_return ()"
| "drain_rounds x (Suc n) = op_bind (verify_next x) (\<lambda>more. if more then drain_rounds x n else op_return ())"

definition drain :: "env \<Rightarrow> unit op" where
  "drain x = op_bind (op_get (\<lambda>c. Suc (length (k_verify_queue c)))) (\<lambda>n. drain_rounds x n)"

section \<open>Boot and stop\<close>

definition recover_task :: "env \<Rightarrow> rat \<Rightarrow> task_state \<Rightarrow> unit op" where
  "recover_task x now task =
     (if t_status task \<in> ACTIVE_LEASE then
        op_modify (\<lambda>c. c\<lparr>k_leases := AList.update (show_opt (t_dispatch_id task))
          \<lparr>l_task_id = t_task_id task, l_dispatch_id = show_opt (t_dispatch_id task),
           l_worker_id = show_opt (t_worker_id task), l_ttl_s = t_lease_ttl_s task,
           l_deadline = now + of_int (t_lease_ttl_s task), l_reason = ''restart_grace''\<rparr> (k_leases c)\<rparr>)
      else if t_status task = VERIFYING then
        op_modify (\<lambda>c. c\<lparr>k_verify_queue := k_verify_queue c @ [t_task_id task]\<rparr>)
      else if t_status task = ACCEPTED then complete_task x task
      else if t_status task = RETRY_PENDING then decide x task
      else if t_cancel_requested task \<and> t_status task = QUEUED then append_task_event x TASK_CANCELLED task None []
      else op_return ())"

definition recover :: "env \<Rightarrow> rat \<Rightarrow> unit op" where
  "recover x now = op_bind (ctl_tasks None) (\<lambda>tasks. op_each (recover_task x now) tasks)"

text \<open>
  \<open>_inspect_existing\<close>: the problem found in an existing file, with the first bad sequence
  number. Exceptions of the inspection that are no \<open>ValueError\<close> or \<open>ProjectionError\<close> propagate.
\<close>

definition inspect_existing :: "env \<Rightarrow> journal \<Rightarrow> (string \<times> int option) option result" where
  "inspect_existing x j =
     (if x_quick_check x \<noteq> ''ok'' then Inr (Some (''sqlite quick_check failed: '' @ take 300 (x_quick_check x), None))
      else (let report = verify_chain (x_H x) j in
        if \<not> cr_ok report then Inr (Some (''hash chain broken: '' @ show_opt (cr_reason report), cr_first_bad_seq report))
        else if \<not> guards_present j then Inr (Some (''append-only guard triggers are missing'', None))
        else if \<not> projection_current j then Inr None
        else case verify_projection j of
            Inr True \<Rightarrow> Inr None
          | Inr False \<Rightarrow> Inr (Some (''stored projection differs from journal replay'', None))
          | Inl err \<Rightarrow> (if is_value_error err \<or> is_projection_error err
              then Inr (Some (''journal inspection failed'', None)) else Inl err)))"

definition enter_degraded :: "string \<Rightarrow> int option \<Rightarrow> controller \<Rightarrow> controller" where
  "enter_degraded reason bad c =
     (let c1 = c\<lparr>k_mode := Degraded, k_degraded_reason := Some reason, k_first_bad_seq := bad\<rparr> in
      case k_file c of
        None \<Rightarrow> c1\<lparr>k_attached := False\<rparr>
      | Some j \<Rightarrow> c1\<lparr>k_attached := True, k_head_seq := fst (head j), k_projection_readable := projection_current j\<rparr>)"

definition is_journal_error :: "error \<Rightarrow> bool" where
  "is_journal_error err = (case err of JournalError _ \<Rightarrow> True | DedupeConflict \<Rightarrow> True | _ \<Rightarrow> False)"

text \<open>The writable open, the start event and recovery.\<close>

definition boot_normal :: "env \<Rightarrow> rat \<Rightarrow> unit op" where
  "boot_normal x now = (\<lambda>c. case open_journal False (k_file c) of
     (file, Inl err) \<Rightarrow> (if is_journal_error err
        then (Inr (), enter_degraded ''journal cannot be opened'' None (c\<lparr>k_file := file\<rparr>))
        else (Inl err, c\<lparr>k_file := file\<rparr>))
   | (file, Inr _) \<Rightarrow>
       op_bind (op_modify (\<lambda>c. c\<lparr>k_mode := Normal, k_attached := True,
          k_head_seq := (case file of None \<Rightarrow> 0 | Some j \<Rightarrow> fst (head j))\<rparr>)) (\<lambda>_.
       op_bind (new_event x CONTROLLER_STARTED None None None None None
          [(''pid'', JInt (x_pid x)), (''build'', x_build x)] None) (\<lambda>e.
       op_bind (ctl_append x e) (\<lambda>_. recover x now))) (c\<lparr>k_file := file\<rparr>))"

definition ctl_boot :: "env \<Rightarrow> rat \<Rightarrow> unit op" where
  "ctl_boot x now = op_bind (op_get k_file) (\<lambda>file.
     op_bind (op_lift (case file of None \<Rightarrow> Inr None | Some j \<Rightarrow> inspect_existing x j)) (\<lambda>problem. case problem of
       Some (reason, bad) \<Rightarrow> op_modify (enter_degraded reason bad)
     | None \<Rightarrow> boot_normal x now))"

definition ctl_stop :: "env \<Rightarrow> unit op" where
  "ctl_stop x = op_bind (op_modify (\<lambda>c. c\<lparr>k_stopping := True\<rparr>)) (\<lambda>_.
     op_bind (op_get (\<lambda>c. c)) (\<lambda>c.
       if \<not> k_attached c then op_return ()
       else op_bind (if k_mode c = Normal then
              op_bind (new_event x CONTROLLER_STOPPED None None None None None [(''pid'', JInt (x_pid x))] None) (\<lambda>e.
              op_bind (ctl_append x e) (\<lambda>_. op_return ()))
            else op_return ()) (\<lambda>_.
            op_modify (\<lambda>c. c\<lparr>k_attached := False\<rparr>))))"

section \<open>Reads\<close>

definition health :: "controller \<Rightarrow> mode \<times> int \<times> nat \<times> (int option \<times> string option) option" where
  "health c = (k_mode c, k_head_seq c, length (k_leases c),
     if k_mode c = Degraded then Some (k_first_bad_seq c, k_degraded_reason c) else None)"

text \<open>The response is the task's record and its effect key.\<close>

definition task_view :: "env \<Rightarrow> string \<Rightarrow> (task_state \<times> string) op" where
  "task_view x tid = op_bind (op_get (\<lambda>c. c)) (\<lambda>c.
     if k_stopping c then api 503 ''stopping''
     else if \<not> k_projection_readable c then api 503 ''degraded_readonly''
     else op_bind (if k_attached c then ctl_task (Some tid) else op_return None) (\<lambda>t. case t of
       None \<Rightarrow> api 404 ''unknown_task''
     | Some task \<Rightarrow> op_return (task, effect_key (x_H x) (t_task_id task))))"

text \<open>\<open>events_after\<close>: the stream stops before the first row that does not validate.\<close>

fun valid_prefix :: "row list \<Rightarrow> event list result" where
  "valid_prefix [] = Inr []"
| "valid_prefix (r # rs) = (case from_row r of
     Inr e \<Rightarrow> bind_result (valid_prefix rs) (\<lambda>es. Inr (e # es))
   | Inl err \<Rightarrow> if is_value_error err then Inr [] else Inl err)"

definition events_after :: "int \<Rightarrow> nat \<Rightarrow> event list op" where
  "events_after after limit = op_bind (op_get k_file) (\<lambda>file. case file of
     None \<Rightarrow> op_return []
   | Some j \<Rightarrow> op_lift (valid_prefix (take limit (filter (\<lambda>r. after < r_seq r) (rows_by_seq j)))))"

end
