(* ===== verification/Controller_Safety.thy ===== *)
theory Controller_Safety
  imports Controller
begin

text \<open>
  What every request and every background step of the controller keeps: the journal file stays a
  sound journal, and it is only ever extended. The rules \<open>ok_*\<close> pull an invariant through
  sequencing, exceptions and loops; the locale collects what holds of any property of the file
  that appends keep, and is interpreted for the two that are used.
\<close>

section \<open>Values that come from Python\<close>

text \<open>
  A JSON value as the program holds it: keys are distinct and floats are printed as \<open>repr\<close> does;
  NaN, which \<open>json.loads\<close> lets in, is allowed.
\<close>

fun py_value :: "json \<Rightarrow> bool" and py_values :: "json list \<Rightarrow> bool"
  and py_members :: "(string \<times> json) list \<Rightarrow> bool" where
  "py_value JNaN = True"
| "py_value (JList xs) = py_values xs"
| "py_value (JObj kvs) = (distinct (map fst kvs) \<and> py_members kvs)"
| "py_value JNull = True"
| "py_value (JBool b) = True"
| "py_value (JInt i) = True"
| "py_value (JFloat t) = float_text t"
| "py_value (JStr s) = True"
| "py_values [] = True"
| "py_values (x # xs) = (py_value x \<and> py_values xs)"
| "py_members [] = True"
| "py_members ((k, v) # kvs) = (py_value v \<and> py_members kvs)"

lemma wf_json_iff:
  "wf_json v \<longleftrightarrow> py_value v \<and> finite_json v"
  "wf_list xs \<longleftrightarrow> py_values xs \<and> finite_list xs"
  "wf_members kvs \<longleftrightarrow> py_members kvs \<and> finite_members kvs"
  by (induction v and xs and kvs rule: py_value_py_values_py_members.induct) auto

lemma py_values_iff: "py_values xs \<longleftrightarrow> (\<forall>x \<in> set xs. py_value x)"
  by (induction xs) auto

lemma py_members_iff: "py_members kvs \<longleftrightarrow> (\<forall>m \<in> set kvs. py_value (snd m))"
  by (induction kvs) auto

lemma py_value_get: "py_members kvs \<Longrightarrow> py_value (get kvs k)"
  by (auto simp: get_def py_members_iff split: option.splits dest!: map_of_SomeD)

lemma wf_py_value: "wf_json v \<Longrightarrow> py_value v"
  by (simp add: wf_json_iff)

lemma py_value_opt [simp]: "py_value (opt_str s)" "py_value (opt_int i)"
  by (cases s; simp) (cases i; simp)

lemma py_members_update: "py_members kvs \<Longrightarrow> py_value v \<Longrightarrow> py_members (AList.update k v kvs)"
  by (induction kvs) auto

fun py_opt :: "json option \<Rightarrow> bool" where
  "py_opt None = True"
| "py_opt (Some v) = py_value v"

definition py_payload :: "payload \<Rightarrow> bool" where
  "py_payload p \<longleftrightarrow> py_value (JObj p)"

lemma post_init_finite: "post_init e = Inr e' \<Longrightarrow> finite_json (JObj (ev_payload e))"
  by (auto simp: post_init_def canonical_json_def split: if_splits)

lemma post_init_submittable:
  assumes "post_init e = Inr e'" "py_payload (ev_payload e)" "ev_seq e = None" "ev_hash e = None"
  shows "submittable e'"
proof -
  have "wf_json (JObj (ev_payload e))"
    using post_init_finite [OF assms(1)] assms(2) by (simp only: wf_json_iff py_payload_def)
  with submittable_post_init [OF assms(1)] assms(3,4) show ?thesis by blast
qed

section \<open>Rules\<close>

text \<open>Run from a state with the invariant, the operation keeps it, also when it raises.\<close>

definition ok :: "(controller \<Rightarrow> bool) \<Rightarrow> ('a \<Rightarrow> bool) \<Rightarrow> 'a op \<Rightarrow> bool" where
  "ok I Q m \<longleftrightarrow> (\<forall>c. I c \<longrightarrow> I (snd (m c)) \<and> (\<forall>v. fst (m c) = Inr v \<longrightarrow> Q v))"

named_theorems ok_intros \<open>rules for operations whose result does not matter\<close>

lemma okD: "ok I Q m \<Longrightarrow> I c \<Longrightarrow> I (snd (m c))"
  by (simp add: ok_def)

lemma ok_weaken: "ok I P m \<Longrightarrow> (\<And>v. P v \<Longrightarrow> Q v) \<Longrightarrow> ok I Q m"
  by (auto simp: ok_def)

lemma ok_bind_post:
  assumes m: "ok I P m" and k: "\<And>x. P x \<Longrightarrow> ok I Q (k x)"
  shows "ok I Q (op_bind m k)"
  unfolding ok_def
proof (intro allI impI)
  fix c
  assume c: "I c"
  show "I (snd (op_bind m k c)) \<and> (\<forall>v. fst (op_bind m k c) = Inr v \<longrightarrow> Q v)"
  proof (cases "m c")
    case (Pair r c')
    with m c have c': "I c'" and r: "\<And>v. r = Inr v \<Longrightarrow> P v" by (auto simp: ok_def)
    show ?thesis
    proof (cases r)
      case (Inl err)
      with Pair c' show ?thesis by (simp add: op_bind_def)
    next
      case (Inr v)
      with k [OF r [OF Inr]] c' Pair show ?thesis by (simp add: op_bind_def ok_def)
    qed
  qed
qed

lemma ok_bind:
  "ok I P m \<Longrightarrow> (\<And>x. P x \<Longrightarrow> ok I (\<lambda>_. True) (k x)) \<Longrightarrow> ok I (\<lambda>_. True) (op_bind m k)"
  by (rule ok_bind_post)

lemma ok_seq [ok_intros]:
  "ok I (\<lambda>_. True) m \<Longrightarrow> (\<And>x. ok I (\<lambda>_. True) (k x)) \<Longrightarrow> ok I (\<lambda>_. True) (op_bind m k)"
  by (rule ok_bind_post)

lemma ok_True: "ok I P m \<Longrightarrow> ok I (\<lambda>_. True) m"
  by (simp add: ok_def)

lemma ok_return [ok_intros]: "ok I (\<lambda>_. True) (op_return x)"
  by (simp add: ok_def op_return_def)

lemma ok_return_post: "Q x \<Longrightarrow> ok I Q (op_return x)"
  by (simp add: ok_def op_return_def)

lemma ok_raise [ok_intros]: "ok I Q (op_raise err)"
  by (simp add: ok_def op_raise_def)

lemma ok_lift_post: "ok I (\<lambda>v. r = Inr v) (op_lift r)"
  by (simp add: ok_def op_lift_def)

lemmas ok_lift [ok_intros] = ok_lift_post [THEN ok_True]

lemma ok_get_post: "ok I (\<lambda>v. \<exists>c. I c \<and> v = f c) (op_get f)"
  by (auto simp: ok_def op_get_def)

lemmas ok_get [ok_intros] = ok_get_post [THEN ok_True]

lemma ok_modify: "(\<And>c. I c \<Longrightarrow> I (f c)) \<Longrightarrow> ok I (\<lambda>_. True) (op_modify f)"
  by (simp add: ok_def op_modify_def)

lemma ok_catch:
  assumes m: "ok I Q m" and h: "\<And>err k. h err = Some k \<Longrightarrow> ok I Q k"
  shows "ok I Q (op_catch m h)"
  unfolding ok_def
proof (intro allI impI)
  fix c
  assume c: "I c"
  show "I (snd (op_catch m h c)) \<and> (\<forall>v. fst (op_catch m h c) = Inr v \<longrightarrow> Q v)"
  proof (cases "m c")
    case (Pair r c')
    with m c have c': "I c'" and r: "\<And>v. r = Inr v \<Longrightarrow> Q v" by (auto simp: ok_def)
    show ?thesis
    proof (cases r)
      case (Inl err)
      show ?thesis
      proof (cases "h err")
        case None
        with Inl Pair c' show ?thesis by (simp add: op_catch_def)
      next
        case (Some k)
        with h [OF Some] Inl Pair c' show ?thesis by (simp add: op_catch_def ok_def)
      qed
    next
      case (Inr v)
      with r [OF Inr] c' Pair show ?thesis by (simp add: op_catch_def)
    qed
  qed
qed

lemma ok_if [ok_intros]: "(b \<Longrightarrow> ok I Q m) \<Longrightarrow> (\<not> b \<Longrightarrow> ok I Q n) \<Longrightarrow> ok I Q (if b then m else n)"
  by simp

lemma ok_case_option [ok_intros]:
  "(y = None \<Longrightarrow> ok I Q m) \<Longrightarrow> (\<And>v. y = Some v \<Longrightarrow> ok I Q (k v)) \<Longrightarrow> ok I Q (case y of None \<Rightarrow> m | Some v \<Rightarrow> k v)"
  by (cases y) auto

lemma ok_when: "(b \<Longrightarrow> ok I (\<lambda>_. True) m) \<Longrightarrow> ok I (\<lambda>_. True) (op_when b m)"
  by (auto simp: op_when_def intro: ok_return)

lemma ok_each: "(\<And>v. v \<in> set xs \<Longrightarrow> ok I (\<lambda>_. True) (f v)) \<Longrightarrow> ok I (\<lambda>_. True) (op_each f xs)"
  by (induction xs) (auto intro!: ok_return ok_bind)

lemma ok_api [ok_intros]: "ok I Q (api status code)" "ok I Q invalid_request"
  by (simp_all add: api_def invalid_request_def ok_raise)

lemma ok_api_if: "ok I (\<lambda>_. \<not> b) (api_if b status code)"
  by (auto simp: api_if_def ok_api intro: ok_return_post)

lemma ok_require_id: "ok I valid_id (require_id body name)"
  by (auto simp: require_id_def ok_api intro!: ok_return_post split: json.splits)

lemma ok_require_int:
  "ok I (\<lambda>v. (case v of None \<Rightarrow> \<not> req | Some i \<Rightarrow> low \<le> i \<and> i \<le> high)) (require_int body name low high req)"
  by (auto simp: require_int_def ok_api intro!: ok_return_post split: json.splits)

lemma ok_require_reason:
  "ok I (\<lambda>v. (case v of None \<Rightarrow> \<not> req | Some s \<Rightarrow> strip s \<noteq> [])) (require_reason body req)"
  by (auto simp: require_reason_def ok_api intro!: ok_return_post split: json.splits)

lemma ok_only_fields: "py_value body \<Longrightarrow> ok I py_payload (only_fields body allowed)"
  by (auto simp: only_fields_def ok_api py_payload_def intro!: ok_return_post split: json.splits)

lemma ok_require_member: "ok I (\<lambda>_. True) (require_member body name names)"
  unfolding require_member_def
  by (rule ok_bind [OF ok_lift_post]) (auto simp: ok_api intro!: ok_return split: json.splits)

lemma ok_require_writable: "ok I (\<lambda>_. True) require_writable"
  unfolding require_writable_def by (intro ok_intros)

lemmas ok_requests [ok_intros] = ok_api_if [THEN ok_True] ok_require_id [THEN ok_True] ok_require_int [THEN ok_True]
  ok_require_reason [THEN ok_True] ok_require_member ok_require_writable

section \<open>Every operation keeps what appends keep\<close>

text \<open>What is assumed of the environment: the values it hands out are Python values.\<close>

definition env_values :: "env \<Rightarrow> bool" where
  "env_values x \<longleftrightarrow> py_value (x_build x) \<and> (\<forall>a f. x_resolve x a = Loaded (Some f) \<longrightarrow> py_value (vf_identity f))"

locale journal_property =
  fixes x :: env and absent :: bool and P :: "row list \<Rightarrow> bool"
  assumes append_keeps: "wf_journal (x_H x) j \<Longrightarrow> P (j_events j) \<Longrightarrow> submittable e \<Longrightarrow>
      journal_append (x_H x) False j e = Inr (ar, j') \<Longrightarrow> P (j_events j')"
begin

text \<open>\<open>absent\<close> says whether the file may be missing.\<close>

definition inv :: "controller \<Rightarrow> bool" where
  "inv c \<longleftrightarrow> (case k_file c of None \<Rightarrow> absent \<and> P [] | Some j \<Rightarrow> wf_journal (x_H x) j \<and> P (j_events j))"

lemma inv_modify [ok_intros]: "(\<And>c. k_file (f c) = k_file c) \<Longrightarrow> ok inv (\<lambda>_. True) (op_modify f)"
  by (rule ok_modify) (simp add: inv_def)

lemma ok_the_journal: "ok inv (\<lambda>j. wf_journal (x_H x) j \<and> P (j_events j)) the_journal"
  unfolding the_journal_def
  by (rule ok_bind_post [OF ok_get_post])
    (auto simp: inv_def split: option.splits if_splits intro!: ok_raise ok_return_post)

lemmas ok_the_journal_True [ok_intros] = ok_the_journal [THEN ok_True]

lemma ok_ctl_task [ok_intros]: "ok inv (\<lambda>_. True) (ctl_task tid)" "ok inv (\<lambda>_. True) (ctl_tasks status)"
  unfolding ctl_task_def ctl_tasks_def by (intro ok_intros)+

lemma ok_the_task [ok_intros]: "ok inv (\<lambda>_. True) (the_task tid)"
  unfolding the_task_def by (intro ok_intros)

lemma ok_draw [ok_intros]: "ok inv (\<lambda>_. True) draw"
  by (simp add: ok_def draw_def inv_def)

lemma ok_new_uuid [ok_intros]: "ok inv (\<lambda>_. True) (new_uuid x)"
  unfolding new_uuid_def by (intro ok_intros)

lemma ok_new_event:
  "py_payload p \<Longrightarrow> ok inv submittable (new_event x t tid att did wid rid p key)"
  unfolding new_event_def
  by (rule ok_bind_post [OF ok_draw], rule ok_weaken [OF ok_lift_post]) (auto intro: post_init_submittable)

lemma ok_ctl_append [ok_intros]: "submittable e \<Longrightarrow> ok inv (\<lambda>_. True) (ctl_append x e)"
proof -
  assume e: "submittable e"
  show ?thesis
    unfolding ctl_append_def
  proof (rule ok_bind [OF ok_the_journal])
    fix j
    assume j: "wf_journal (x_H x) j \<and> P (j_events j)"
    show "ok inv (\<lambda>_. True) (case journal_append (x_H x) False j e of Inl err \<Rightarrow> op_raise err
      | Inr (ar, j') \<Rightarrow> op_bind (op_modify (\<lambda>c. c\<lparr>k_file := Some j'\<rparr>)) (\<lambda>_.
         op_bind (op_when (\<not> a_duplicate ar) (op_modify (\<lambda>c. c\<lparr>k_head_seq := the (ev_seq (a_event ar))\<rparr>)))
           (\<lambda>_. op_return ar)))"
    proof (cases "journal_append (x_H x) False j e")
      case (Inr arj)
      then obtain ar j' where a: "journal_append (x_H x) False j e = Inr (ar, j')" by (cases arj) simp
      have "wf_journal (x_H x) j'"
        using appends.step_inv [of "x_H x" j e j'] j e a by (simp add: append_step_def)
      moreover have "P (j_events j')" using append_keeps [OF _ _ e a] j by blast
      ultimately have "ok inv (\<lambda>_. True) (op_modify (\<lambda>c. c\<lparr>k_file := Some j'\<rparr>))"
        by (intro ok_modify) (simp add: inv_def)
      then show ?thesis
        using a by (auto intro!: ok_seq ok_return ok_when inv_modify)
    qed (simp add: ok_raise)
  qed
qed

text \<open>Sequencing after the operations whose result matters.\<close>

lemmas ok_after = ok_bind [OF ok_new_event] ok_bind [OF ok_only_fields] ok_bind [OF ok_the_journal]

lemma ok_append_task_event [ok_intros]:
  "py_payload p \<Longrightarrow> ok inv (\<lambda>_. True) (append_task_event x t task att p)"
  unfolding append_task_event_def by (intro ok_after ok_intros)

lemma py_reason [simp]: "py_payload [(''reason'', JStr r)]" "py_payload []"
  by (simp_all add: py_payload_def)

lemma ok_complete_task [ok_intros]: "ok inv (\<lambda>_. True) (complete_task x task)"
  unfolding complete_task_def by (intro ok_after ok_intros) simp

lemma ok_decide [ok_intros]: "ok inv (\<lambda>_. True) (decide x task)"
  unfolding decide_def
  by (rule ok_seq [OF ok_lift]) (auto split: decision.splits intro!: ok_append_task_event)

lemma ok_claim_of [ok_intros]: "ok inv (\<lambda>_. True) (claim_of did)"
  unfolding claim_of_def by (intro ok_intros)

lemma ok_catch_invalid: "ok inv Q m \<Longrightarrow> ok inv Q (op_catch m as_invalid_request)"
  by (rule ok_catch) (auto simp: as_invalid_request_def ok_api split: error.splits)

lemma ok_catch_append: "submittable e \<Longrightarrow> (\<And>err k. h err = Some k \<Longrightarrow> ok inv (\<lambda>_. True) k) \<Longrightarrow>
    ok inv (\<lambda>_. True) (op_catch (ctl_append x e) h)"
  by (rule ok_catch [OF ok_ctl_append])

lemma py_created_payload:
  "py_payload body \<Longrightarrow> py_payload (created_payload body timeout dep)"
  by (auto simp: py_payload_def created_payload_def py_value_get split: option.splits)

lemma ok_task_id_for [ok_intros]: "ok inv (\<lambda>_. True) (task_id_for x body)"
  unfolding task_id_for_def by (intro ok_intros)

lemma ok_create_task: "py_value body \<Longrightarrow> ok inv (\<lambda>_. True) (create_task x body)"
  unfolding create_task_def
  by (intro ok_bind [OF ok_catch_invalid [OF ok_new_event]] ok_after ok_catch_append py_created_payload ok_intros)
    (auto split: if_splits intro: ok_api)

lemma journal_event_payload:
  assumes "wf_journal (x_H x) j" "get_event_by_dedupe_key j k = Inr (Some e)"
  shows "py_payload (ev_payload e)"
proof -
  obtain es where es: "journal_of (x_H x) es j" using assms(1) by (auto simp: wf_journal_def)
  from assms(2) obtain r where r: "find (\<lambda>r. r_dedupe_key r = Some k) (j_events j) = Some r" "from_row r = Inr e"
    by (auto simp: get_event_by_dedupe_key_def elim!: bind_resultE split: option.splits)
  then obtain e' where "e' \<in> set es" "r = row_of e'"
    using find_SomeD [OF r(1)] journal_ofD(2) [OF es] by auto
  then have "wf_event e" using wf_log_from_row [OF journal_ofD(1) [OF es]] journal_ofD(4) [OF es] r(2) by auto
  then show ?thesis using wf_eventD(1) unfolding py_payload_def by (blast intro: wf_py_value)
qed

lemma py_artifact_ref: "py_value v \<Longrightarrow> py_value (artifact_ref v)"
  by (cases v) (auto simp: artifact_ref_def py_value_get)

lemma py_input_of: "py_payload (ev_payload e) \<Longrightarrow> py_value (input_of d e)"
proof -
  assume "py_payload (ev_payload e)"
  then have "py_value (get (ev_payload e) ''artifacts'')" by (simp add: py_payload_def py_value_get)
  then have "py_values (artifact_refs (get (ev_payload e) ''artifacts''))"
    by (cases "get (ev_payload e) ''artifacts''") (auto simp: artifact_refs_def py_values_iff py_artifact_ref)
  then show ?thesis by (simp add: input_of_def)
qed

lemma ok_dependency_failed: "ok inv py_opt (dependency_failed x task why)"
  unfolding dependency_failed_def
  by (rule ok_bind_post [OF ok_append_task_event]) (auto intro!: ok_return_post)

lemma ok_verified_input: "ok inv py_opt (verified_input x task)"
proof -
  have journal: "ok inv py_opt (op_bind the_journal (\<lambda>j. op_bind (op_lift (get_event_by_dedupe_key j k)) (\<lambda>r. case r of
      Some e \<Rightarrow> if truthy (get (ev_payload e) ''artifacts'') then op_return (Some (input_of d e))
        else dependency_failed x task w
    | None \<Rightarrow> dependency_failed x task w)))" for k d w
    by (rule ok_bind_post [OF ok_the_journal], rule ok_bind_post [OF ok_lift_post])
      (auto split: option.splits intro!: ok_return_post ok_dependency_failed py_input_of journal_event_payload)
  show ?thesis
    unfolding verified_input_def
    by (rule ok_bind_post [OF ok_ctl_task(1)])
      (auto split: option.splits intro!: ok_return_post ok_dependency_failed journal)
qed

lemma ok_claim_one: "py_opt bound \<Longrightarrow> ok inv (\<lambda>_. True) (claim_one x now wid task bound)"
  unfolding claim_one_def
  by (intro ok_after ok_intros) (auto simp: py_payload_def split: option.splits)

lemma ok_claim_loop: "ok inv (\<lambda>_. True) (claim_loop x now wid tasks)"
proof (induction tasks)
  case (Cons task tasks)
  have dep: "ok inv (\<lambda>_. True) (op_bind (verified_input x task) (\<lambda>bound. if bound = None then claim_loop x now wid tasks
      else op_bind (claim_one x now wid task bound) (\<lambda>r. op_return (Some r))))"
    by (rule ok_bind [OF ok_verified_input]) (auto intro!: Cons.IH ok_seq ok_claim_one ok_return)
  show ?case using Cons.IH dep by (auto intro!: ok_seq ok_claim_one ok_return)
qed (simp add: ok_return)

lemma ok_claim: "py_value body \<Longrightarrow> ok inv (\<lambda>_. True) (ctl_claim x now body)"
  unfolding ctl_claim_def by (intro ok_after ok_claim_loop ok_intros)

lemma ok_start: "py_value body \<Longrightarrow> ok inv (\<lambda>_. True) (ctl_start x body)"
  unfolding ctl_start_def by (intro ok_after ok_intros) simp_all

lemma ok_heartbeat_one [ok_intros]: "ok inv (\<lambda>_. True) (heartbeat_one now wid did)"
  unfolding heartbeat_one_def by (intro ok_intros) simp_all

lemma ok_heartbeat_loop [ok_intros]: "ok inv (\<lambda>_. True) (heartbeat_loop now wid ds)"
  by (induction ds) (auto intro!: ok_seq ok_heartbeat_one ok_return split: prod.splits)

lemma ok_confirm_cancel: "ok inv (\<lambda>_. True) (confirm_cancel x reported l)"
  unfolding confirm_cancel_def by (intro ok_intros) simp_all

lemma ok_heartbeat: "py_value body \<Longrightarrow> ok inv (\<lambda>_. True) (heartbeat x now body)"
  unfolding heartbeat_def by (intro ok_after ok_each ok_confirm_cancel ok_intros)

lemma py_result_payload: "py_payload body \<Longrightarrow> py_payload (result_payload body)"
  by (auto simp: py_payload_def result_payload_def py_value_get)

lemma py_late_payload: "py_payload p \<Longrightarrow> py_payload (late_payload p cl task)"
  by (simp add: py_payload_def late_payload_def distinct_update py_members_update py_value_get)

lemma ok_discard_late: "py_payload p \<Longrightarrow> ok inv Q (discard_late x did rid p cl task)"
  unfolding discard_late_def
  by (rule ok_bind_post [OF ok_new_event [OF py_late_payload]], assumption, rule ok_bind_post [OF ok_catch [where Q = "\<lambda>_. True"]])
    (auto intro!: ok_seq ok_ctl_append ok_return ok_api split: if_splits)

lemma ok_result: "py_value body \<Longrightarrow> ok inv (\<lambda>_. True) (ctl_result x body)"
  unfolding ctl_result_def
  by (intro ok_bind [OF ok_catch_invalid [OF ok_new_event]] ok_after ok_discard_late py_result_payload ok_intros) simp_all

lemma py_who: "py_payload ((''reason'', JStr r) # who actor)"
  by (auto simp: py_payload_def who_def split: option.splits)

lemma ok_cancel_task [ok_intros]: "ok inv (\<lambda>_. True) (cancel_task x task actor reason)"
  unfolding cancel_task_def by (intro py_who ok_intros)

lemma ok_cancel: "py_value body \<Longrightarrow> ok inv (\<lambda>_. True) (ctl_cancel x tid body)"
  unfolding ctl_cancel_def by (intro ok_after ok_intros) simp

lemma ok_resolve_new: "(\<And>e. cand = Some e \<Longrightarrow> submittable e) \<Longrightarrow>
    ok inv (\<lambda>_. True) (resolve_new x task dec et cand attempt actor reason)"
  unfolding resolve_new_def by (intro ok_intros) auto

lemma ok_resolve: "py_value body \<Longrightarrow> ok inv (\<lambda>_. True) (ctl_resolve x tid body)"
  unfolding ctl_resolve_def Let_def
  by (intro ok_after ok_resolve_new ok_intros) (auto simp: py_payload_def)

lemma note_tick_file [simp]: "k_file (note_tick now c) = k_file c"
  by (simp add: note_tick_def split: option.splits)

lemma ok_expire_lease: "ok inv (\<lambda>_. True) (expire_lease x l)"
  unfolding expire_lease_def by (intro ok_after ok_intros) simp_all

lemma ok_tick: "ok inv (\<lambda>_. True) (ctl_tick x now)"
  unfolding ctl_tick_def by (intro ok_each ok_expire_lease ok_intros) simp

lemma ok_verify_take: "ok inv (\<lambda>_. True) verify_take"
  unfolding verify_take_def
  by (rule ok_seq [OF ok_get]) (auto split: list.splits intro!: ok_intros)

lemma ok_verify_finish: "py_value (v_verifier v) \<Longrightarrow> ok inv (\<lambda>_. True) (verify_finish x task v)"
  unfolding verify_finish_def
  by (intro ok_after ok_intros) (simp_all add: py_payload_def rejected_payload_def)

lemma py_verdict: "env_values x \<Longrightarrow> py_value (v_verifier (run_verifier (x_resolve x) task r))"
proof -
  assume "env_values x"
  then have "py_value (vf_identity f)" if "x_resolve x a = Loaded (Some f)" for a f
    using that by (simp add: env_values_def)
  then show ?thesis
    by (auto simp: run_verifier_def worker_failure_def judge_def rejected_def verifier_rule_def Let_def
        split: load_outcome.split option.split verify_outcome.split json.split)
qed

lemma ok_verify_next: "env_values x \<Longrightarrow> ok inv (\<lambda>_. True) (verify_next x)"
  unfolding verify_next_def
  by (rule ok_seq [OF ok_verify_take])
    (auto split: verify_job.splits intro!: ok_seq ok_return ok_verify_finish py_verdict)

lemma ok_drain_rounds: "env_values x \<Longrightarrow> ok inv (\<lambda>_. True) (drain_rounds x n)"
  by (induction n) (auto intro!: ok_seq ok_verify_next ok_return)

lemma ok_drain: "env_values x \<Longrightarrow> ok inv (\<lambda>_. True) (drain x)"
  unfolding drain_def by (intro ok_drain_rounds ok_intros)

lemma ok_recover: "ok inv (\<lambda>_. True) (recover x now)"
  unfolding recover_def recover_task_def by (intro ok_each ok_intros) simp_all

lemma open_keeps:
  assumes "inv c" "open_journal False (k_file c) = (file, r)"
  shows "\<exists>j. file = Some j \<and> wf_journal (x_H x) j \<and> P (j_events j)"
proof (cases "k_file c")
  case None
  then have "file = Some new_journal" "P []" using assms open_new by (simp_all add: inv_def)
  moreover have "j_events new_journal = []" by (simp add: new_journal_def empty_file_def)
  ultimately show ?thesis using wf_new_journal by simp
next
  case (Some j)
  with assms(1) have j: "wf_journal (x_H x) j" "P (j_events j)" by (simp_all add: inv_def)
  then obtain es where es: "journal_of (x_H x) es j" by (auto simp: wf_journal_def)
  have cs: "create_schema (j_proj j) = j_proj j"
    using journal_ofD(5,6) [OF es] by (simp add: create_schema_def is_current_def)
  have keep: "wf_journal (x_H x) (j\<lparr>j_guards := g\<rparr>)"
    "wf_journal (x_H x) (j\<lparr>j_guards := g, j_proj := j_proj j, j_user_version := v\<rparr>)" for g v
    using es unfolding wf_journal_def journal_of_def by auto
  show ?thesis
    using assms(2) cs j keep journal_ofD(5) [OF es] unfolding Some
    by (auto simp: open_journal_def Let_def split: if_splits)
qed

lemma enter_degraded_file [simp]: "k_file (enter_degraded reason bad c) = k_file c"
  by (simp add: enter_degraded_def Let_def split: option.splits)

lemma ok_boot_normal: "env_values x \<Longrightarrow> ok inv (\<lambda>_. True) (boot_normal x now)"
proof -
  assume "env_values x"
  then have build: "py_payload [(''pid'', JInt (x_pid x)), (''build'', x_build x)]"
    by (simp add: py_payload_def env_values_def)
  have start: "ok inv (\<lambda>_. True) (op_bind (op_modify (\<lambda>c. c\<lparr>k_mode := Normal, k_attached := True, k_head_seq := h\<rparr>)) (\<lambda>_.
       op_bind (new_event x CONTROLLER_STARTED None None None None None
          [(''pid'', JInt (x_pid x)), (''build'', x_build x)] None) (\<lambda>e.
       op_bind (ctl_append x e) (\<lambda>_. recover x now))))" for h
    by (intro ok_after build ok_recover ok_intros) simp
  show ?thesis
    unfolding ok_def
  proof (intro allI impI conjI)
    fix c
    assume c: "inv c"
    obtain f r where o: "open_journal False (k_file c) = (f, r)" by fastforce
    from open_keeps [OF c o] have f: "inv (c\<lparr>k_file := f\<rparr>)" by (auto simp: inv_def)
    then have d: "inv (enter_degraded w b (c\<lparr>k_file := f\<rparr>))" for w b by (simp add: inv_def)
    show "inv (snd (boot_normal x now c))"
      using f d okD [OF start f] by (auto simp: boot_normal_def o split: sum.splits)
  qed simp
qed

lemma ok_boot: "env_values x \<Longrightarrow> ok inv (\<lambda>_. True) (ctl_boot x now)"
  unfolding ctl_boot_def
  by (intro ok_seq [OF ok_get] ok_seq [OF ok_lift] ok_case_option ok_boot_normal)
    (auto split: prod.splits intro!: inv_modify)

lemma ok_stop: "ok inv (\<lambda>_. True) (ctl_stop x)"
  unfolding ctl_stop_def by (intro ok_after ok_intros) (simp_all add: py_payload_def)

end

section \<open>The whole controller\<close>

text \<open>
  Everything that can happen to a controller. \<open>VerifyFinish\<close> takes any task and verdict, which
  covers every interleaving of a verifier that ran outside the lock; \<open>Restart\<close> is the end of the
  process at any moment, after which only the file is left. What a new process draws are new random
  identifiers and later clock readings, so the count of draws, which stands for the source of
  randomness outside the process, goes on.
\<close>

definition restart_controller :: "controller \<Rightarrow> controller" where
  "restart_controller c = (init_controller (k_file c))\<lparr>k_draws := k_draws c\<rparr>"

datatype request =
    CreateTask json | Claim rat json | Start json | Heartbeat rat json | Result json
  | CancelTask string json | ResolveTask string json
  | Tick rat | VerifyTake | VerifyFinish task_state verdict | Drain | Boot rat | StopController | Restart

definition outcome :: "'a op \<Rightarrow> controller \<Rightarrow> error option \<times> controller" where
  "outcome m c = (case m c of (Inl err, c') \<Rightarrow> (Some err, c') | (Inr _, c') \<Rightarrow> (None, c'))"

fun run_request :: "env \<Rightarrow> request \<Rightarrow> controller \<Rightarrow> error option \<times> controller" where
  "run_request x (CreateTask b) = outcome (create_task x b)"
| "run_request x (Claim now b) = outcome (ctl_claim x now b)"
| "run_request x (Start b) = outcome (ctl_start x b)"
| "run_request x (Heartbeat now b) = outcome (heartbeat x now b)"
| "run_request x (Result b) = outcome (ctl_result x b)"
| "run_request x (CancelTask t b) = outcome (ctl_cancel x t b)"
| "run_request x (ResolveTask t b) = outcome (ctl_resolve x t b)"
| "run_request x (Tick now) = outcome (ctl_tick x now)"
| "run_request x VerifyTake = outcome verify_take"
| "run_request x (VerifyFinish t v) = outcome (verify_finish x t v)"
| "run_request x Drain = outcome (drain x)"
| "run_request x (Boot now) = outcome (ctl_boot x now)"
| "run_request x StopController = outcome (ctl_stop x)"
| "run_request x Restart = (\<lambda>c. (None, restart_controller c))"

text \<open>Bodies and the verifier's identity are Python values.\<close>

fun legal_request :: "request \<Rightarrow> bool" where
  "legal_request (CreateTask b) = py_value b"
| "legal_request (Claim now b) = py_value b"
| "legal_request (Start b) = py_value b"
| "legal_request (Heartbeat now b) = py_value b"
| "legal_request (Result b) = py_value b"
| "legal_request (CancelTask t b) = py_value b"
| "legal_request (ResolveTask t b) = py_value b"
| "legal_request (VerifyFinish t v) = py_value (v_verifier v)"
| "legal_request _ = True"

definition run_requests :: "env \<Rightarrow> request list \<Rightarrow> controller \<Rightarrow> controller" where
  "run_requests x rs c = fold (\<lambda>r c. snd (run_request x r c)) rs c"

lemma outcome_snd [simp]: "snd (outcome m c) = snd (m c)"
  by (auto simp: outcome_def split: prod.splits sum.splits)

context journal_property
begin

lemma run_request_inv: "env_values x \<Longrightarrow> legal_request r \<Longrightarrow> inv c \<Longrightarrow> inv (snd (run_request x r c))"
proof (cases r)
  case Restart
  assume "inv c"
  with Restart show ?thesis by (simp add: restart_controller_def init_controller_def inv_def)
qed (auto intro: okD [OF ok_create_task] okD [OF ok_claim] okD [OF ok_start] okD [OF ok_heartbeat] okD [OF ok_result]
    okD [OF ok_cancel] okD [OF ok_resolve] okD [OF ok_tick] okD [OF ok_verify_take] okD [OF ok_verify_finish]
    okD [OF ok_drain] okD [OF ok_boot] okD [OF ok_stop])

lemma run_requests_inv: "env_values x \<Longrightarrow> list_all legal_request rs \<Longrightarrow> inv c \<Longrightarrow> inv (run_requests x rs c)"
  by (induction rs arbitrary: c) (simp_all add: run_requests_def run_request_inv)

end

interpretation sound_rows: journal_property x True "\<lambda>_. True"
  by unfold_locales

lemma append_extends:
  assumes "wf_journal H j" "submittable e" "journal_append H False j e = Inr (ar, j')"
  shows "\<exists>rs. j_events j' = j_events j @ rs"
proof -
  obtain es where es: "journal_of H es j" using assms(1) by (auto simp: wf_journal_def)
  from append_cases [OF es assms(2,3)] show ?thesis
    using journal_ofD(2) [OF es] journal_ofD(2) by fastforce
qed

interpretation extended_rows: journal_property x False "\<lambda>rows. \<exists>rs. rows = old @ rs"
  by unfold_locales (use append_extends in fastforce)

lemma reachable_journal:
  assumes "env_values x" "list_all legal_request rs" "k_file (run_requests x rs (init_controller None)) = Some j"
  shows "wf_journal (x_H x) j"
proof -
  have "sound_rows.inv x (init_controller None)" by (simp add: sound_rows.inv_def init_controller_def)
  from sound_rows.run_requests_inv [OF assms(1,2) this] assms(3) show ?thesis by (simp add: sound_rows.inv_def)
qed

text \<open>
  C13. Whatever requests, ticks, verifications, restarts and boots happen, in whatever order and with
  whatever bodies, the journal file of the controller always passes its own integrity checks and
  every task in it is in the state its own events lead to.
\<close>

theorem controller_keeps_journal_sound:
  assumes "env_values x" and "list_all legal_request rs"
    and "k_file (run_requests x rs (init_controller None)) = Some j"
  shows "cr_ok (verify_chain (x_H x) j) \<and> verify_projection j = Inr True \<and> rebuild j = Inr (j_proj j)
    \<and> (\<exists>es. journal_events j 0 None = Inr es \<and> (\<forall>k s. journal_task j (Some k) = Inr (Some s) \<longrightarrow> history (task_log k es) s))"
proof -
  obtain es where es: "journal_of (x_H x) es j" using reachable_journal [OF assms] by (auto simp: wf_journal_def)
  have "history (task_log k es) s" if "journal_task j (Some k) = Inr (Some s)" for k s
    using journal_task_history [OF es, of k] that by auto
  then show ?thesis
    using verify_chain_of [OF es] verify_projection_of [OF es] rebuild_of [OF es] events_of [OF es] by auto
qed

text \<open>
  The journal is append-only for the controller: no sequence of operations removes or changes a
  stored row, from whatever state with a sound journal it starts.
\<close>

theorem controller_only_appends:
  assumes "env_values x" and "list_all legal_request rs"
    and "k_file c = Some j" and "wf_journal (x_H x) j"
  shows "\<exists>j' rows. k_file (run_requests x rs c) = Some j' \<and> j_events j' = j_events j @ rows"
proof -
  have "extended_rows.inv x (j_events j) c" using assms(3,4) by (simp add: extended_rows.inv_def)
  from extended_rows.run_requests_inv [OF assms(1,2) this] show ?thesis
    by (auto simp: extended_rows.inv_def split: option.splits)
qed

text \<open>
  With the history theorems this rules out a blind retry end to end: in the journal of a controller
  that ran any requests, a claim after the lost lease of a started attempt of a task that is not
  idempotent is preceded by a human's \<open>RETRY_AUTHORIZED\<close> for that attempt.
\<close>

lemma controller_no_blind_retry:
  assumes "env_values x" and "list_all legal_request rs"
    and "k_file (run_requests x rs (init_controller None)) = Some j"
    and "journal_events j 0 None = Inr es" and "task_log k es = pre @ [lost] @ mid @ [again]"
    and "ev_type lost = LEASE_EXPIRED" and "ev_type again = TASK_CLAIMED"
    and "st \<in> set pre" and "ev_type st = TASK_STARTED" and "ev_attempt st = ev_attempt lost"
    and "journal_task j (Some k) = Inr (Some s)" and "t_effect_class s \<noteq> ''idempotent''"
  shows "\<exists>r\<in>set mid. ev_type r = RETRY_AUTHORIZED \<and> ev_attempt r = ev_attempt lost
    \<and> (\<exists>actor. get (ev_payload r) ''actor'' = JStr actor \<and> valid_id actor)"
proof -
  obtain fs where fs: "journal_of (x_H x) fs j" using reachable_journal [OF assms(1-3)] by (auto simp: wf_journal_def)
  have "fs = es" using events_of [OF fs] assms(4) by simp
  then have "history (pre @ [lost] @ mid @ [again]) s"
    using journal_task_history [OF fs, of k] assms(5,11) by auto
  from retry_needs_authorisation [OF this assms(6-10,12)] show ?thesis .
qed

section \<open>When the controller cannot write\<close>

fun api_request :: "request \<Rightarrow> bool" where
  "api_request (CreateTask b) = True"
| "api_request (Claim now b) = True"
| "api_request (Start b) = True"
| "api_request (Heartbeat now b) = True"
| "api_request (Result b) = True"
| "api_request (CancelTask t b) = True"
| "api_request (ResolveTask t b) = True"
| "api_request _ = False"

lemma require_writable_refuses:
  "k_stopping c \<or> k_mode c \<noteq> Normal \<Longrightarrow>
   outcome (op_bind require_writable k) c = (Some (ApiError 503 (if k_stopping c then ''stopping'' else ''degraded_readonly'')), c)"
  by (auto simp: outcome_def require_writable_def op_bind_def op_get_def api_def op_raise_def)

lemma api_refuses:
  assumes "k_stopping c \<or> k_mode c \<noteq> Normal"
  shows "outcome (create_task x b) c = (Some (ApiError 503 (if k_stopping c then ''stopping'' else ''degraded_readonly'')), c)"
    and "outcome (ctl_claim x now b) c = (Some (ApiError 503 (if k_stopping c then ''stopping'' else ''degraded_readonly'')), c)"
    and "outcome (ctl_start x b) c = (Some (ApiError 503 (if k_stopping c then ''stopping'' else ''degraded_readonly'')), c)"
    and "outcome (heartbeat x now b) c = (Some (ApiError 503 (if k_stopping c then ''stopping'' else ''degraded_readonly'')), c)"
    and "outcome (ctl_result x b) c = (Some (ApiError 503 (if k_stopping c then ''stopping'' else ''degraded_readonly'')), c)"
    and "outcome (ctl_cancel x tid b) c = (Some (ApiError 503 (if k_stopping c then ''stopping'' else ''degraded_readonly'')), c)"
    and "outcome (ctl_resolve x tid b) c = (Some (ApiError 503 (if k_stopping c then ''stopping'' else ''degraded_readonly'')), c)"
  unfolding create_task_def ctl_claim_def ctl_start_def heartbeat_def ctl_result_def ctl_cancel_def ctl_resolve_def
  by (rule require_writable_refuses [OF assms])+

text \<open>
  A controller that is stopping, booting or degraded refuses every request of the API with
  status 503 and nothing changes, neither the file nor the state in memory; a tick does nothing.
\<close>

theorem not_writable_refuses:
  assumes "api_request r" and "k_stopping c \<or> k_mode c \<noteq> Normal"
  shows "run_request x r c = (Some (ApiError 503 (if k_stopping c then ''stopping'' else ''degraded_readonly'')), c)
    \<and> run_request x (Tick now) c = (None, c)"
proof -
  have "run_request x (Tick now) c = (None, c)"
    using assms(2) by (auto simp: ctl_tick_def outcome_def op_bind_def op_get_def op_return_def)
  moreover have "run_request x r c = (Some (ApiError 503 (if k_stopping c then ''stopping'' else ''degraded_readonly'')), c)"
    using assms(1) by (cases r) (simp_all only: run_request.simps api_request.simps api_refuses [OF assms(2)])
  ultimately show ?thesis by blast
qed

section \<open>What appending leaves alone\<close>

locale frame =
  fixes I :: "controller \<Rightarrow> bool"
  assumes file_frame: "I (c\<lparr>k_file := f\<rparr>) = I c"
    and head_frame: "I (c\<lparr>k_head_seq := h\<rparr>) = I c"
    and draw_frame: "I (c\<lparr>k_draws := d\<rparr>) = I c"
begin

lemma fr_journal [ok_intros]: "ok I (\<lambda>_. True) the_journal"
  unfolding the_journal_def by (intro ok_intros)

lemma fr_task [ok_intros]: "ok I (\<lambda>_. True) (ctl_task tid)" "ok I (\<lambda>_. True) (ctl_tasks status)" "ok I (\<lambda>_. True) (the_task tid)"
  unfolding ctl_task_def ctl_tasks_def the_task_def by (intro ok_intros)+

lemma fr_new_event [ok_intros]: "ok I (\<lambda>_. True) (new_event x t tid att did wid rid p key)"
  unfolding new_event_def
  by (intro ok_intros) (simp add: ok_def draw_def draw_frame)

lemma fr_append [ok_intros]: "ok I (\<lambda>_. True) (ctl_append x e)"
  unfolding ctl_append_def
  by (rule ok_seq [OF fr_journal])
    (auto split: sum.splits prod.splits intro!: ok_seq ok_raise ok_when ok_return ok_modify simp: file_frame head_frame)

lemma fr_append_task_event [ok_intros]: "ok I (\<lambda>_. True) (append_task_event x t task att p)"
  unfolding append_task_event_def by (intro ok_intros)

lemma fr_complete_task [ok_intros]: "ok I (\<lambda>_. True) (complete_task x task)"
  unfolding complete_task_def by (intro ok_intros)

lemma fr_decide [ok_intros]: "ok I (\<lambda>_. True) (decide x task)"
  unfolding decide_def by (rule ok_seq [OF ok_lift]) (auto split: decision.splits intro!: fr_append_task_event)

lemma fr_verify_finish [ok_intros]: "ok I (\<lambda>_. True) (verify_finish x task v)"
  unfolding verify_finish_def by (intro ok_intros)

end

interpretation queue_frame: frame "\<lambda>c. k_verify_queue c = q"
  by unfold_locales simp_all

interpretation lease_frame: frame "\<lambda>c. k_leases c = ls"
  by unfold_locales simp_all

lemma op_bind_Inr:
  "op_bind m k c = (Inr v, c') \<longleftrightarrow> (\<exists>u c1. m c = (Inr u, c1) \<and> k u c1 = (Inr v, c'))"
  by (auto simp: op_bind_def split: prod.splits sum.splits)

section \<open>Draining the verification queue\<close>

lemma ctl_task_state: "snd (ctl_task tid c) = c" "snd (the_journal c) = c"
  by (auto simp: ctl_task_def the_journal_def op_bind_def op_get_def op_lift_def op_raise_def op_return_def
      split: option.splits)

lemma verify_take_queue:
  assumes "verify_take c = (Inr job, c')"
  shows "k_verify_queue c' = tl (k_verify_queue c) \<and> (job = QueueEmpty \<longleftrightarrow> k_verify_queue c = [])"
proof (cases "k_verify_queue c")
  case Nil
  with assms show ?thesis by (auto simp: verify_take_def op_bind_def op_get_def op_return_def)
next
  case (Cons tid rest)
  let ?c = "c\<lparr>k_verify_queue := rest\<rparr>"
  define body where "body = op_bind (ctl_task (Some tid)) (\<lambda>t. case t of None \<Rightarrow> op_return Skip
     | Some task \<Rightarrow> (if t_status task \<noteq> VERIFYING then op_return Skip
            else op_bind the_journal (\<lambda>j.
                 op_bind (op_lift (get_event_by_dedupe_key j
                   (result_dedupe_key (show_opt (t_dispatch_id task)) (show_opt (t_pending_result_id task))))) (\<lambda>r. case r of
                     None \<Rightarrow> op_raise (TypeError ''NoneType'')
                   | Some e \<Rightarrow> op_return (Job task e)))))"
  have run: "body ?c = (Inr job, c')"
    using assms Cons by (simp add: verify_take_def op_bind_def op_get_def op_modify_def body_def)
  have "ok (\<lambda>d. k_verify_queue d = rest) (\<lambda>_. True) body"
    unfolding body_def by (intro ok_intros queue_frame.fr_task queue_frame.fr_journal)
  from okD [OF this, of ?c] run have "k_verify_queue c' = rest" by simp
  moreover have "job \<noteq> QueueEmpty"
    using run by (auto simp: body_def op_bind_Inr op_return_def op_lift_def op_raise_def split: option.splits if_splits)
  ultimately show ?thesis using Cons by simp
qed

lemma verify_next_queue:
  assumes "verify_next x c = (Inr again, c')"
  shows "k_verify_queue c' = tl (k_verify_queue c) \<and> (again \<longleftrightarrow> k_verify_queue c \<noteq> [])"
proof -
  from assms obtain job c1 where t: "verify_take c = (Inr job, c1)" and
    k: "(case job of QueueEmpty \<Rightarrow> op_return False | Skip \<Rightarrow> op_return True
      | Job task r \<Rightarrow> op_bind (verify_finish x task (run_verifier (x_resolve x) task r)) (\<lambda>_. op_return True)) c1 = (Inr again, c')"
    by (auto simp: verify_next_def op_bind_Inr)
  have "k_verify_queue c' = k_verify_queue c1" and "again \<longleftrightarrow> job \<noteq> QueueEmpty"
  proof -
    have "ok (\<lambda>d. k_verify_queue d = k_verify_queue c1) (\<lambda>_. True) (verify_finish x task v)" for task v
      by (rule queue_frame.fr_verify_finish)
    from okD [OF this, of c1] have "k_verify_queue (snd (verify_finish x task v c1)) = k_verify_queue c1" for task v
      by simp
    with k show "k_verify_queue c' = k_verify_queue c1"
      by (cases job) (auto simp: op_return_def op_bind_Inr, metis snd_conv)
    from k show "again \<longleftrightarrow> job \<noteq> QueueEmpty" by (cases job) (auto simp: op_return_def op_bind_Inr)
  qed
  with verify_take_queue [OF t] show ?thesis by simp
qed

lemma drain_rounds_queue:
  "drain_rounds x n c = (Inr (), c') \<Longrightarrow> length (k_verify_queue c) < n \<Longrightarrow> k_verify_queue c' = []"
proof (induction n arbitrary: c)
  case (Suc n)
  from Suc.prems(1) obtain again c1 where v: "verify_next x c = (Inr again, c1)"
    and k: "(if again then drain_rounds x n else op_return ()) c1 = (Inr (), c')"
    by (auto simp: op_bind_Inr)
  note q = verify_next_queue [OF v]
  show ?case
  proof (cases again)
    case True
    with q Suc.prems(2) have "length (k_verify_queue c1) < n" by (cases "k_verify_queue c") auto
    with Suc.IH k True show ?thesis by simp
  next
    case False
    with q k show ?thesis by (auto simp: op_return_def)
  qed
qed simp

text \<open>
  C14. Draining terminates with an empty queue: the loop of \<open>drain\<close> needs one round per queued task
  and one more, and unless a step raises, no task is left in the queue.
\<close>

theorem drain_empties_queue:
  assumes "drain x c = (Inr (), c')"
  shows "k_verify_queue c' = []"
  using assms drain_rounds_queue [of x "Suc (length (k_verify_queue c))" c c']
  by (auto simp: drain_def op_bind_Inr op_get_def)

section \<open>Concrete runs\<close>

definition sample_env :: env where
  "sample_env = \<lparr>x_H = sample_digest, x_uuid = (\<lambda>n. ''u'' @ show_int (int n)), x_utc = (\<lambda>n. ''2026-01-01T00:00:00Z''),
     x_resolve = (\<lambda>_. Loaded None), x_quick_check = ''ok'', x_pid = 1, x_build = JNull\<rparr>"

definition sample_body :: json where
  "sample_body = JObj [(''adapter'', JStr ''mail''), (''params'', JObj []), (''effect_class'', JStr ''non_idempotent''),
     (''max_attempts'', JInt 3), (''lease_ttl_s'', JInt 10)]"

definition sample_run :: "request list \<Rightarrow> controller" where
  "sample_run rs = run_requests sample_env rs (init_controller None)"

lemma sample_env_values: "env_values sample_env"
  by (simp add: env_values_def sample_env_def)

lemma sample_create_legal: "list_all legal_request [CreateTask sample_body]" "list_all legal_request [Boot 0, StopController]"
  by code_simp+

lemma sample_boot_file: "case k_file (sample_run [Boot 0]) of None \<Rightarrow> False | Some j \<Rightarrow> length (j_events j) = 1"
  by code_simp

text \<open>The process ends with a task in the journal, a new one boots: its identifiers are new.\<close>

definition restart_env :: env where
  "restart_env = \<lparr>x_H = (\<lambda>_. ''d''), x_uuid = (\<lambda>n. ''u'' @ show_int (int n)), x_utc = (\<lambda>n. ''2026-01-01T00:00:00Z''),
     x_resolve = (\<lambda>_. Loaded None), x_quick_check = ''ok'', x_pid = 1, x_build = JNull\<rparr>"

definition sample_restarts :: "request list" where
  "sample_restarts = [Boot 0, CreateTask sample_body, Restart, Boot 5]"

definition event_types_are :: "event_type list \<Rightarrow> journal option \<Rightarrow> bool" where
  "event_types_are ts f = (case f of None \<Rightarrow> False | Some j \<Rightarrow> map r_type (j_events j) = map type_value ts)"

lemma sample_restarts_file:
  "event_types_are [CONTROLLER_STARTED, TASK_CREATED, CONTROLLER_STARTED]
     (k_file (run_requests restart_env sample_restarts (init_controller None)))"
  by code_simp

lemma sample_restarts_legal: "env_values restart_env" "list_all legal_request sample_restarts"
  unfolding env_values_def sample_restarts_def restart_env_def by (simp, code_simp)

theorem controller_keeps_journal_sound_witness:
  "\<exists>j. k_file (run_requests restart_env sample_restarts (init_controller None)) = Some j
     \<and> map r_type (j_events j) = map type_value [CONTROLLER_STARTED, TASK_CREATED, CONTROLLER_STARTED]
     \<and> cr_ok (verify_chain (x_H restart_env) j) \<and> verify_projection j = Inr True"
proof -
  obtain j where j: "k_file (run_requests restart_env sample_restarts (init_controller None)) = Some j"
    "map r_type (j_events j) = map type_value [CONTROLLER_STARTED, TASK_CREATED, CONTROLLER_STARTED]"
    using sample_restarts_file by (auto simp: event_types_are_def split: option.splits)
  with controller_keeps_journal_sound [OF sample_restarts_legal j(1)] show ?thesis by blast
qed

theorem controller_only_appends_witness:
  "\<exists>j j' rows. k_file (sample_run [Boot 0]) = Some j \<and> length (j_events j) = 1
     \<and> k_file (run_requests sample_env [CreateTask sample_body] (sample_run [Boot 0])) = Some j' \<and> j_events j' = j_events j @ rows"
proof -
  obtain j where j: "k_file (sample_run [Boot 0]) = Some j" "length (j_events j) = 1"
    using sample_boot_file by (auto split: option.splits)
  have legal: "list_all legal_request [Boot 0]" "list_all legal_request [CreateTask sample_body]"
    using sample_create_legal by simp_all
  from reachable_journal [OF sample_env_values legal(1)] j(1) have "wf_journal (x_H sample_env) j"
    by (simp add: sample_run_def)
  from controller_only_appends [OF sample_env_values legal(2) j(1) this] j show ?thesis by blast
qed

theorem not_writable_refuses_witness:
  "run_request sample_env (CreateTask sample_body) (init_controller None)
     = (Some (ApiError 503 ''degraded_readonly''), init_controller None)"
proof -
  have "k_stopping (init_controller None) \<or> k_mode (init_controller None) \<noteq> Normal" by code_simp
  with not_writable_refuses [of "CreateTask sample_body" "init_controller None" sample_env] show ?thesis
    by (simp add: init_controller_def)
qed

definition sample_queued :: controller where
  "sample_queued = (sample_run [Boot 0])\<lparr>k_verify_queue := [''task-u1'', ''task-u1'']\<rparr>"

lemma sample_queued_drains: "case drain sample_env sample_queued of (Inl _, _) \<Rightarrow> False | (Inr _, _) \<Rightarrow> True"
  by code_simp

theorem drain_empties_queue_witness:
  "\<exists>c'. drain sample_env sample_queued = (Inr (), c') \<and> k_verify_queue c' = []"
proof -
  obtain c' where "drain sample_env sample_queued = (Inr (), c')"
    using sample_queued_drains by (auto split: prod.splits sum.splits)
  with drain_empties_queue [OF this] show ?thesis by blast
qed

end
