(* ===== verification/Ledger_Text.thy ===== *)
theory Ledger_Text
  imports Json
begin

text \<open>
  The JSON-lines ledger of the work queue as text (\<open>_append\<close> and \<open>_read_ledger\<close> of
  courier\_core/work\_queue.py, read by courier\_core/dag\_resolver.py too): one flat object of strings per
  line, printed by \<open>json.dumps(event, sort_keys=True, separators=(",", ":"))\<close>, split by \<open>splitlines\<close>.
  Appending a line to a ledger that ends in a newline adds exactly that event to what is read.
\<close>

section \<open>Printing an event\<close>

type_synonym flat = "(string \<times> string) list"

text \<open>\<open>ensure_ascii=True\<close>: every character outside the printable ASCII range is escaped.\<close>

definition ascii_escape :: "char \<Rightarrow> string" where
  "ascii_escape c = (let n = char_code c in
     if n < 127 then escape_char c
     else [CHR 0x5C, CHR ''u'', CHR ''0'', CHR ''0'', hex_digit (n div 16), hex_digit (n mod 16)])"

definition ascii_quote :: "string \<Rightarrow> string" where
  "ascii_quote s = CHR 0x22 # concat (map ascii_escape s) @ [CHR 0x22]"

fun flat_members :: "flat \<Rightarrow> string" where
  "flat_members [] = []"
| "flat_members [(k, v)] = ascii_quote k @ CHR '':'' # ascii_quote v"
| "flat_members ((k, v) # m # kvs) = ascii_quote k @ CHR '':'' # ascii_quote v @ CHR '','' # flat_members (m # kvs)"

definition event_line :: "flat \<Rightarrow> string" where
  "event_line ev = CHR ''{'' # flat_members (sort_key fst ev) @ ''}''"

definition flat_json :: "flat \<Rightarrow> payload" where
  "flat_json ev = map (apsnd JStr) ev"

text \<open>\<open>json.dumps(value, sort_keys=True, separators=(",", ":"), ensure_ascii=True)\<close> of a sorted value\<close>

fun dumps_ascii :: "json \<Rightarrow> string" and ascii_elems :: "json list \<Rightarrow> string" and ascii_members :: "payload \<Rightarrow> string" where
  "dumps_ascii JNull = ''null''"
| "dumps_ascii (JBool b) = (if b then ''true'' else ''false'')"
| "dumps_ascii (JInt i) = show_int i"
| "dumps_ascii (JFloat t) = t"
| "dumps_ascii JNaN = ''NaN''"
| "dumps_ascii (JStr s) = ascii_quote s"
| "dumps_ascii (JList xs) = ''['' @ ascii_elems xs @ '']''"
| "dumps_ascii (JObj kvs) = ''{'' @ ascii_members kvs @ ''}''"
| "ascii_elems [] = []"
| "ascii_elems [x] = dumps_ascii x"
| "ascii_elems (x # y # xs) = dumps_ascii x @ '','' @ ascii_elems (y # xs)"
| "ascii_members [] = []"
| "ascii_members [(k, v)] = ascii_quote k @ '':'' @ dumps_ascii v"
| "ascii_members ((k, v) # m # ms) = ascii_quote k @ '':'' @ dumps_ascii v @ '','' @ ascii_members (m # ms)"

section \<open>Reading lines\<close>

text \<open>\<open>bytes.splitlines()\<close> splits at LF, CR and CR LF; the accumulator holds the current line reversed.\<close>

fun split_lines :: "string \<Rightarrow> string \<Rightarrow> string list" where
  "split_lines acc [] = (if acc = [] then [] else [rev acc])"
| "split_lines acc (c # cs) =
     (if c = CHR 0x0A then rev acc # split_lines [] cs
      else if c = CHR 0x0D then (case cs of
          [] \<Rightarrow> [rev acc]
        | d # ds \<Rightarrow> if d = CHR 0x0A then rev acc # split_lines [] ds else rev acc # split_lines [] cs)
      else split_lines (c # acc) cs)"

text \<open>\<open>not line.strip()\<close> on bytes.\<close>

definition blank_line :: "string \<Rightarrow> bool" where
  "blank_line s = list_all (\<lambda>c. let n = char_code c in (9 \<le> n \<and> n \<le> 13) \<or> n = 32) s"

definition no_break :: "string \<Rightarrow> bool" where
  "no_break s \<longleftrightarrow> CHR 0x0A \<notin> set s \<and> CHR 0x0D \<notin> set s"

lemma split_lines_one: "no_break s \<Longrightarrow> split_lines acc (s @ [CHR 0x0A]) = [rev acc @ s]"
  by (induction s arbitrary: acc) (auto simp: no_break_def)

lemma split_lines_append:
  "split_lines acc (s @ CHR 0x0A # t) = split_lines acc (s @ [CHR 0x0A]) @ split_lines [] t"
proof (induction acc s rule: split_lines.induct)
  case (2 acc c cs)
  then show ?case by (cases cs) auto
qed simp

section \<open>Reading back a printed event\<close>

lemma parse_chars_ascii_escape:
  "parse_chars (ascii_escape c @ t) = map_option (\<lambda>(s, r). (c # s, r)) (parse_chars t)"
proof (cases "char_code c < 127")
  case True
  then show ?thesis by (simp add: ascii_escape_def parse_chars_escape)
next
  case False
  then show ?thesis
    using unicode_escape_code [OF char_code_less, of c] by (simp add: ascii_escape_def Let_def)
qed

lemma parse_chars_ascii_quoted: "parse_chars (concat (map ascii_escape s) @ CHR 0x22 # r) = Some (s, r)"
  by (induction s) (simp_all add: parse_chars_ascii_escape)

lemma parse_flat_member:
  assumes "f \<noteq> 0"
  shows "parse_members (Suc f) (ascii_quote k @ CHR '':'' # ascii_quote v @ c # r) =
     (let r4 = skip_ws (c # r) in
      if take 1 r4 = ''}'' then Some ([(k, JStr v)], drop 1 r4)
      else if take 1 r4 = '','' then map_option (\<lambda>(kvs, r5). ((k, JStr v) # kvs, r5)) (parse_members f (skip_ws (drop 1 r4)))
      else None)"
proof -
  obtain g where f: "f = Suc g" using assms by (cases f) auto
  have k: "parse_chars (concat (map ascii_escape k) @ CHR 0x22 # t) = Some (k, t)" for t
    by (rule parse_chars_ascii_quoted)
  have v: "parse_value (Suc g) (ascii_quote v @ c # r) = Some (JStr v, c # r)"
    using parse_chars_ascii_quoted [of v "c # r"] by (simp add: ascii_quote_def)
  have ws: "skip_ws (CHR '':'' # t) = CHR '':'' # t" "skip_ws (ascii_quote v @ c # r) = ascii_quote v @ c # r" for t
    by (simp_all add: skip_ws_def is_ws_def char_code_def ascii_quote_def)
  show ?thesis
    using k [of "CHR '':'' # ascii_quote v @ c # r"] ws v
    by (subst parse_members.simps(2)) (simp add: f ascii_quote_def Let_def)
qed

lemma flat_members_quote: "kvs \<noteq> [] \<Longrightarrow> \<exists>t. flat_members kvs = CHR 0x22 # t"
  by (cases kvs rule: flat_members.cases) (auto simp: ascii_quote_def)

lemma skip_ws_flat: "kvs \<noteq> [] \<Longrightarrow> skip_ws (flat_members kvs @ r) = flat_members kvs @ r"
  using flat_members_quote [of kvs] by (auto simp: skip_ws_def is_ws_def)

lemma parse_flat_members:
  "kvs \<noteq> [] \<Longrightarrow> length kvs < f \<Longrightarrow> parse_members f (flat_members kvs @ CHR ''}'' # r) = Some (flat_json kvs, r)"
proof (induction kvs arbitrary: f rule: flat_members.induct)
  case (2 k v)
  then obtain g where "f = Suc g" "g \<noteq> 0" by (cases f) auto
  then show ?case
    using parse_flat_member [of g k v "CHR ''}''" r] by (simp add: flat_json_def skip_ws_def is_ws_def char_code_def)
next
  case (3 k v m kvs)
  then obtain g where g: "f = Suc g" "g \<noteq> 0" "length (m # kvs) < g" by (cases f) auto
  have "parse_members g (flat_members (m # kvs) @ CHR ''}'' # r) = Some (flat_json (m # kvs), r)"
    using 3 g by simp
  with g skip_ws_flat [of "m # kvs" "CHR ''}'' # r"] show ?case
    using parse_flat_member [of g k v "CHR '',''" "flat_members (m # kvs) @ CHR ''}'' # r"]
    by (simp add: flat_json_def skip_ws_def [of "CHR '','' # _"] is_ws_def char_code_def)
qed simp

lemma length_flat_members: "length kvs \<le> length (flat_members kvs)"
  by (induction kvs rule: flat_members.induct) (auto simp: ascii_quote_def)

lemma loads_event_line:
  assumes "ev \<noteq> []" "distinct (map fst ev)"
  shows "loads (event_line ev) = Inr (JObj (flat_json (sort_key fst ev)))"
proof -
  define kvs where "kvs = sort_key fst ev"
  have "length kvs = length ev" unfolding kvs_def by (metis size_mset mset_sort)
  then have kvs: "kvs \<noteq> []" using assms(1) by auto
  have d: "distinct (map fst (flat_json kvs))"
  proof -
    have "map fst (flat_json kvs) = map fst kvs" by (simp add: flat_json_def)
    moreover have "mset (map fst kvs) = mset (map fst ev)" by (simp add: kvs_def)
    ultimately show ?thesis using assms(2) by (metis mset_eq_imp_distinct_iff)
  qed
  let ?n = "2 * length (event_line ev)"
  have "skip_ws (event_line ev) = CHR ''{'' # flat_members kvs @ ''}''"
    by (simp add: event_line_def kvs_def skip_ws_def is_ws_def char_code_def)
  moreover have "parse_members ?n (flat_members kvs @ CHR ''}'' # []) = Some (flat_json kvs, [])"
    using length_flat_members [of kvs] by (intro parse_flat_members kvs) (simp add: event_line_def kvs_def)
  moreover obtain t where "flat_members kvs = CHR 0x22 # t" using flat_members_quote [OF kvs] by blast
  moreover have "fold (\<lambda>(k, v). AList.update k v) (flat_json kvs) [] = flat_json kvs"
    using fold_update_distinct [of "[]" "flat_json kvs"] d by simp
  ultimately show ?thesis
    using skip_ws_flat [OF kvs, of "''}''"] unfolding loads_def kvs_def [symmetric]
    by (simp add: char_code_def [of "CHR ''{''"] skip_ws_def [of "[]"] Let_def)
qed

definition printable_ascii :: "char \<Rightarrow> bool" where
  "printable_ascii c \<longleftrightarrow> 32 \<le> char_code c \<and> char_code c < 127"

lemma hex_digit_printable: "d < 16 \<Longrightarrow> printable_ascii (hex_digit d)"
  by (auto simp: printable_ascii_def hex_digit_def)

lemma ascii_escape_printable: "list_all printable_ascii (ascii_escape c)"
proof -
  have "char_code c div 16 < 16" using char_code_less [of c] by simp
  then have h: "printable_ascii (hex_digit (char_code c div 16))" "printable_ascii (hex_digit (char_code c mod 16))"
    by (simp_all add: hex_digit_printable)
  have z: "list_all printable_ascii [CHR 0x5C, CHR ''u'', CHR ''0'', CHR 0x22, CHR ''b'', CHR ''t'', CHR ''n'', CHR ''f'', CHR ''r'']"
    by (simp add: printable_ascii_def char_code_def)
  show ?thesis using h z by (auto simp: ascii_escape_def escape_char_def Let_def printable_ascii_def [of c])
qed

lemma flat_members_printable: "list_all printable_ascii (flat_members kvs)"
proof -
  have q: "list_all printable_ascii (ascii_quote s)" for s
  proof -
    have "list_all printable_ascii (concat (map ascii_escape s))"
      using ascii_escape_printable by (induction s) auto
    then show ?thesis by (simp add: ascii_quote_def printable_ascii_def [of "CHR 0x22"])
  qed
  have "printable_ascii (CHR '':'')" "printable_ascii (CHR '','')" by (simp_all add: printable_ascii_def char_code_def)
  with q show ?thesis by (induction kvs rule: flat_members.induct) auto
qed

lemma event_line_no_break: "no_break (event_line ev)"
proof -
  have "list_all printable_ascii (event_line ev)"
    using flat_members_printable [of "sort_key fst ev"] by (simp add: event_line_def printable_ascii_def [of "CHR ''{''"]
        printable_ascii_def [of "CHR ''}''"] char_code_def)
  then show ?thesis by (auto simp: no_break_def list_all_iff printable_ascii_def)
qed

lemma event_line_not_blank: "\<not> blank_line (event_line ev)"
  by (simp add: blank_line_def event_line_def char_code_def)

end
