(* ===== verification/Scopes.thy ===== *)
theory Scopes
  imports Json
begin

text \<open>
  File scopes of the work queue (courier\_core/work\_queue.py): normalised paths, shell patterns as
  \<open>fnmatch.fnmatchcase\<close> matches them, the tests \<open>_paths_overlap\<close> and \<open>_directory_covers\<close> that keep
  two work items off the same files, and the classification of pull request snapshots. The main
  result says when the overlap test is sound: two scopes that share a file overlap, unless one begins
  with a wildcard component and the other is a directory; for such a pair it fails.
\<close>

section \<open>Shell patterns\<close>

datatype pattern_item = Star | AnyOne | Class bool "(char \<times> char) list" | Lit char

text \<open>
  A character class after its opening bracket: an exclamation mark and a closing bracket may come
  first; without a closing bracket the opening one is an ordinary character.
\<close>

definition class_text :: "string \<Rightarrow> (string \<times> string) option" where
  "class_text cs = (let k = (if take 1 cs = ''!'' then 1 else 0); n = (if take 1 (drop k cs) = '']'' then k + 1 else k);
     body = takeWhile (\<lambda>c. c \<noteq> CHR '']'') (drop n cs); rest = drop (n + length body) cs
     in if rest = [] then None else Some (take n cs @ body, drop 1 rest))"

fun class_ranges :: "string \<Rightarrow> (char \<times> char) list" where
  "class_ranges [] = []"
| "class_ranges (x # cs) = (case cs of
     d # y # r \<Rightarrow> if d = CHR ''-'' then (x, y) # class_ranges r else (x, x) # class_ranges cs
   | _ \<Rightarrow> (x, x) # class_ranges cs)"

text \<open>\<open>fnmatch.translate\<close> removes empty ranges before it looks for the negating mark.\<close>

fun drop_empty_ranges :: "string \<Rightarrow> string" where
  "drop_empty_ranges (x # d # y # r) = (if d = CHR ''-'' \<and> y < x then drop_empty_ranges r else x # d # y # r)"
| "drop_empty_ranges cs = cs"

definition class_item :: "string \<Rightarrow> pattern_item" where
  "class_item s = (let t = (if take 1 s = ''!'' then s else drop_empty_ranges s) in
     if take 1 t = ''!'' then Class False (class_ranges (drop 1 t)) else Class True (class_ranges t))"

lemma class_text_shorter: "class_text cs = Some (body, rest) \<Longrightarrow> length rest < length cs"
  by (auto simp: class_text_def Let_def split: if_splits)

function pattern_items :: "string \<Rightarrow> pattern_item list" where
  "pattern_items [] = []"
| "pattern_items (c # cs) =
     (if c = CHR ''*'' then Star # pattern_items cs
      else if c = CHR ''?'' then AnyOne # pattern_items cs
      else if c = CHR ''['' then (case class_text cs of
          None \<Rightarrow> Lit c # pattern_items cs
        | Some (body, rest) \<Rightarrow> class_item body # pattern_items rest)
      else Lit c # pattern_items cs)"
  by pat_completeness auto

termination
  by (relation "measure length") (auto dest: class_text_shorter)

fun item_match :: "pattern_item \<Rightarrow> char \<Rightarrow> bool" where
  "item_match Star c = True"
| "item_match AnyOne c = True"
| "item_match (Class pos rs) c = (list_ex (\<lambda>(a, b). a \<le> c \<and> c \<le> b) rs = pos)"
| "item_match (Lit d) c = (c = d)"

fun items_match :: "pattern_item list \<Rightarrow> string \<Rightarrow> bool" where
  "items_match [] s = (s = [])"
| "items_match (p # ps) [] = (p = Star \<and> items_match ps [])"
| "items_match (p # ps) (c # cs) =
     (if p = Star then items_match ps (c # cs) \<or> items_match (p # ps) cs
      else item_match p c \<and> items_match ps cs)"

definition fnmatchcase :: "string \<Rightarrow> string \<Rightarrow> bool" where
  "fnmatchcase name pat = items_match (pattern_items pat) name"

section \<open>Paths\<close>

text \<open>\<open>str(value).replace(...).lstrip("./")\<close>\<close>

definition norm_path :: "string \<Rightarrow> string" where
  "norm_path s = dropWhile (\<lambda>c. c = CHR ''.'' \<or> c = CHR ''/'') (map (\<lambda>c. if c = CHR 0x5C then CHR ''/'' else c) s)"

definition rstrip_slash :: "string \<Rightarrow> string" where
  "rstrip_slash s = rev (dropWhile (\<lambda>c. c = CHR ''/'') (rev s))"

definition is_wild_char :: "char \<Rightarrow> bool" where
  "is_wild_char c \<longleftrightarrow> c \<in> {CHR ''*'', CHR ''?'', CHR ''[''}"

definition wild :: "string \<Rightarrow> bool" where
  "wild s = list_ex is_wild_char s"

fun split_slash :: "string \<Rightarrow> string list" where
  "split_slash [] = [[]]"
| "split_slash (c # cs) = (if c = CHR ''/'' then [] # split_slash cs
     else (case split_slash cs of [] \<Rightarrow> [[c]] | p # ps \<Rightarrow> (c # p) # ps))"

fun join_slash :: "string list \<Rightarrow> string" where
  "join_slash [] = []"
| "join_slash [p] = p"
| "join_slash (p # q # ps) = p @ CHR ''/'' # join_slash (q # ps)"

text \<open>\<open>_prefix\<close>: the components before the first one with a wildcard.\<close>

definition literal_prefix :: "string \<Rightarrow> string" where
  "literal_prefix s = join_slash (takeWhile (\<lambda>p. \<not> wild p) (split_slash s))"

definition inside_dir :: "string \<Rightarrow> string \<Rightarrow> bool" where
  "inside_dir directory path = (if \<not> endswith directory ''/'' \<or> wild directory then False
     else path = butlast directory \<or> startswith path directory)"

definition paths_overlap :: "string \<Rightarrow> string \<Rightarrow> bool" where
  "paths_overlap left right = (let a = norm_path left; b = norm_path right in
     if a = b \<or> fnmatchcase a b \<or> fnmatchcase b a then True
     else if inside_dir a b \<or> inside_dir b a then True
     else if wild a \<and> \<not> wild b then startswith b (literal_prefix a @ ''/'')
     else if wild b \<and> \<not> wild a then startswith a (literal_prefix b @ ''/'')
     else if wild a \<and> wild b then
       (let pa = literal_prefix a; pb = literal_prefix b in
        if pa = [] \<or> pb = [] then True
        else pa = pb \<or> startswith pa (pb @ ''/'') \<or> startswith pb (pa @ ''/''))
     else False)"

definition scopes_overlap :: "string list \<Rightarrow> string list \<Rightarrow> bool" where
  "scopes_overlap left right = list_ex (\<lambda>a. list_ex (paths_overlap a) right) left"

definition directory_covers :: "string \<Rightarrow> string \<Rightarrow> bool" where
  "directory_covers scope path =
     (if paths_overlap scope path then True
      else let directory = rstrip_slash (norm_path scope); concrete = rstrip_slash (norm_path path) in
        if directory = [] \<or> concrete = [] \<or> wild directory then False
        else concrete = directory \<or> startswith concrete (directory @ ''/''))"

section \<open>The overlap test\<close>

lemma paths_overlap_sym: "paths_overlap a b \<longleftrightarrow> paths_overlap b a"
  unfolding paths_overlap_def Let_def
  by (cases "wild (norm_path a)"; cases "wild (norm_path b)"; auto)

lemma scopes_overlap_sym: "scopes_overlap xs ys \<longleftrightarrow> scopes_overlap ys xs"
  using paths_overlap_sym by (auto simp: scopes_overlap_def list_ex_iff)

lemma paths_overlap_refl: "paths_overlap a a"
  by (simp add: paths_overlap_def)

subsection \<open>Literal text in a pattern\<close>

lemma wild_append [simp]: "wild (s @ t) \<longleftrightarrow> wild s \<or> wild t" "wild (c # s) \<longleftrightarrow> is_wild_char c \<or> wild s" "\<not> wild []"
  by (auto simp: wild_def)

lemma is_wild_slash [simp]: "\<not> is_wild_char (CHR ''/'')"
  by (simp add: is_wild_char_def)

lemma pattern_items_literal: "\<not> wild l \<Longrightarrow> pattern_items (l @ r) = map Lit l @ pattern_items r"
  by (induction l) (auto simp: is_wild_char_def)

lemma items_match_literal: "items_match (map Lit l @ ps) s \<Longrightarrow> \<exists>t. s = l @ t \<and> items_match ps t"
proof (induction l arbitrary: s)
  case (Cons c l)
  then show ?case by (cases s) auto
qed simp

lemma fnmatch_literal_prefix: "fnmatchcase s (l @ r) \<Longrightarrow> \<not> wild l \<Longrightarrow> startswith s l"
  by (auto simp: fnmatchcase_def pattern_items_literal startswith_iff dest: items_match_literal)

lemma fnmatch_literal: "\<not> wild p \<Longrightarrow> fnmatchcase s p \<Longrightarrow> s = p"
  using items_match_literal [of p "[]" s] pattern_items_literal [of p "[]"] by (auto simp: fnmatchcase_def)

lemma split_slash_nonempty [simp]: "split_slash s \<noteq> []"
  by (induction s) (auto split: list.splits)

lemma join_split [simp]: "join_slash (split_slash s) = s"
proof (induction s)
  case (Cons c s)
  show ?case
  proof (cases "split_slash s")
    case (Cons p ps)
    with Cons.IH show ?thesis by (cases ps) auto
  qed simp
qed simp

lemma join_append: "ps \<noteq> [] \<Longrightarrow> qs \<noteq> [] \<Longrightarrow> join_slash (ps @ qs) = join_slash ps @ CHR ''/'' # join_slash qs"
proof (induction ps rule: join_slash.induct)
  case (2 p)
  then show ?case by (cases qs) auto
qed auto

lemma wild_join: "wild (join_slash ps) \<longleftrightarrow> (\<exists>p\<in>set ps. wild p)"
  by (induction ps rule: join_slash.induct) auto

lemma literal_prefix_split:
  assumes "wild s" "literal_prefix s \<noteq> []"
  shows "\<exists>r. s = literal_prefix s @ CHR ''/'' # r" and "\<not> wild (literal_prefix s)"
proof -
  define ps qs where "ps = takeWhile (\<lambda>p. \<not> wild p) (split_slash s)" and "qs = dropWhile (\<lambda>p. \<not> wild p) (split_slash s)"
  have s: "split_slash s = ps @ qs" by (simp add: ps_def qs_def)
  have "ps \<noteq> []" using assms(2) by (auto simp: literal_prefix_def ps_def)
  moreover have "qs \<noteq> []"
  proof
    assume "qs = []"
    then have "\<forall>p\<in>set (split_slash s). \<not> wild p" by (simp add: qs_def dropWhile_eq_Nil_conv)
    then show False using assms(1) wild_join [of "split_slash s"] by simp
  qed
  ultimately have "s = join_slash ps @ CHR ''/'' # join_slash qs"
    using join_append [of ps qs] s join_split [of s] by simp
  then show "\<exists>r. s = literal_prefix s @ CHR ''/'' # r" by (metis literal_prefix_def ps_def)
  have "\<forall>p\<in>set ps. \<not> wild p" by (auto simp: ps_def dest: set_takeWhileD)
  then show "\<not> wild (literal_prefix s)" by (simp add: literal_prefix_def ps_def [symmetric] wild_join)
qed

subsection \<open>Soundness\<close>

text \<open>The files a scope names: itself, what its pattern matches, and what lies in its directory.\<close>

definition covers :: "string \<Rightarrow> string \<Rightarrow> bool" where
  "covers scope f \<longleftrightarrow> f = scope \<or> fnmatchcase f scope \<or> inside_dir scope f"

text \<open>
  The pair the test gets wrong: a pattern whose first component has a wildcard against a directory scope.
  For such a pattern \<open>_prefix\<close> is empty, and no normalised scope begins with a slash.
\<close>

definition leading_wild :: "string \<Rightarrow> bool" where
  "leading_wild scope \<longleftrightarrow> wild scope \<and> literal_prefix scope = []"

definition directory_scope :: "string \<Rightarrow> bool" where
  "directory_scope scope \<longleftrightarrow> \<not> wild scope \<and> endswith scope ''/''"

definition missed_pair :: "string \<Rightarrow> string \<Rightarrow> bool" where
  "missed_pair a b \<longleftrightarrow> leading_wild a \<and> directory_scope b \<or> leading_wild b \<and> directory_scope a"

lemma covers_wild:
  assumes "covers a f" "wild a" "literal_prefix a \<noteq> []"
  shows "startswith f (literal_prefix a @ ''/'')"
proof -
  obtain r where a: "a = (literal_prefix a @ ''/'') @ r" and l: "\<not> wild (literal_prefix a @ ''/'')"
    using literal_prefix_split [OF assms(2,3)] by auto
  from assms(1,2) consider "f = a" | "fnmatchcase f a" by (auto simp: covers_def inside_dir_def)
  then show ?thesis
  proof cases
    case 1
    then show ?thesis using a startswith_append by metis
  next
    case 2
    then show ?thesis using fnmatch_literal_prefix [of f "literal_prefix a @ ''/''" r] a l by simp
  qed
qed

lemma covers_literal: "covers b f \<Longrightarrow> \<not> wild b \<Longrightarrow> f = b \<or> inside_dir b f"
  by (auto simp: covers_def dest: fnmatch_literal)

lemma startswith_comparable: "startswith f p \<Longrightarrow> startswith f q \<Longrightarrow> startswith p q \<or> startswith q p"
  by (auto simp: startswith_iff append_eq_append_conv2)

lemma startswith_trans: "startswith a b \<Longrightarrow> startswith b c \<Longrightarrow> startswith a c"
  by (auto simp: startswith_iff)

lemma startswith_refl [simp]: "startswith s s"
  by (simp add: startswith_def)

lemma startswith_slash: "startswith (p @ ''/'') (q @ ''/'') \<Longrightarrow> p = q \<or> startswith p (q @ ''/'')"
proof -
  assume "startswith (p @ ''/'') (q @ ''/'')"
  then obtain t where t: "p @ ''/'' = (q @ ''/'') @ t" by (auto simp: startswith_iff)
  then show ?thesis by (cases t rule: rev_cases) (auto simp: startswith_iff)
qed

lemma inside_dirD: "inside_dir d f \<Longrightarrow> \<exists>p. d = p @ ''/'' \<and> \<not> wild d \<and> (f = p \<or> startswith f d)"
proof -
  assume d: "inside_dir d f"
  then have "endswith d ''/''" by (auto simp: inside_dir_def split: if_splits)
  then obtain p where "d = p @ ''/''" unfolding endswith_def by (metis append_take_drop_id)
  with d show ?thesis by (auto simp: inside_dir_def split: if_splits)
qed

lemma inside_dirI: "\<not> wild p \<Longrightarrow> f = p \<or> startswith f (p @ ''/'') \<Longrightarrow> inside_dir (p @ ''/'') f"
  by (auto simp: inside_dir_def)

lemma overlap_two_directories: "inside_dir a f \<Longrightarrow> inside_dir b f \<Longrightarrow> a = b \<or> inside_dir a b \<or> inside_dir b a"
proof -
  assume "inside_dir a f" "inside_dir b f"
  then obtain p q where a: "a = p @ ''/''" "\<not> wild a" "f = p \<or> startswith f a"
    and b: "b = q @ ''/''" "\<not> wild b" "f = q \<or> startswith f b"
    by (blast dest: inside_dirD)
  have "startswith a b \<or> startswith b a"
    using a b startswith_comparable [of f a b] startswith_trans [of a f b] startswith_trans [of b f a] by auto
  then show ?thesis using a(1,2) b(1,2) by (auto simp: inside_dir_def)
qed

lemma overlap_wild_literal:
  assumes "covers a f" "covers b f" "wild a" "\<not> wild b" "literal_prefix a \<noteq> []"
  shows "fnmatchcase b a \<or> inside_dir b a \<or> startswith b (literal_prefix a @ ''/'')"
proof -
  note f = covers_wild [OF assms(1,3,5)]
  obtain r where r: "a = (literal_prefix a @ ''/'') @ r" using literal_prefix_split(1) [OF assms(3,5)] by auto
  from covers_literal [OF assms(2,4)] show ?thesis
  proof
    assume "f = b"
    with f show ?thesis by simp
  next
    assume "inside_dir b f"
    then obtain q where q: "b = q @ ''/''" "f = q \<or> startswith f b" by (blast dest: inside_dirD)
    then consider "startswith b (literal_prefix a @ ''/'')" | "startswith (literal_prefix a @ ''/'') b"
      using f startswith_comparable [of f b "literal_prefix a @ ''/''"] startswith_trans [of b f] by (metis startswith_append)
    then show ?thesis
    proof cases
      case 2
      then have "startswith a b" using startswith_trans r by (metis startswith_append)
      then show ?thesis using assms(4) q(1) by (simp add: inside_dir_def)
    qed simp
  qed
qed

text \<open>A pattern with a leading wildcard against a plain file: the pattern has to match it.\<close>

lemma overlap_leading_file:
  assumes "covers a f" "covers b f" "wild a" "\<not> wild b" "\<not> endswith b ''/''"
  shows "fnmatchcase b a"
proof -
  have "f = b" using covers_literal [OF assms(2,4)] assms(5) by (auto simp: inside_dir_def)
  with assms(1,3,4) show ?thesis by (auto simp: covers_def inside_dir_def)
qed

lemma overlap_wild_any:
  assumes "covers a f" "covers b f" "wild a" "\<not> wild b" "\<not> (leading_wild a \<and> directory_scope b)"
  shows "fnmatchcase b a \<or> inside_dir b a \<or> startswith b (literal_prefix a @ ''/'')"
proof (cases "literal_prefix a = []")
  case True
  then have "\<not> endswith b ''/''" using assms by (simp add: leading_wild_def directory_scope_def)
  then show ?thesis using overlap_leading_file [OF assms(1-4)] by simp
qed (use overlap_wild_literal [OF assms(1-4)] in simp)

lemma overlap_sound:
  assumes "covers (norm_path left) f" "covers (norm_path right) f" "\<not> missed_pair (norm_path left) (norm_path right)"
  shows "paths_overlap left right"
proof -
  define a b where "a = norm_path left" and "b = norm_path right"
  note c = assms [folded a_def b_def, unfolded missed_pair_def]
  consider (ab) "wild a" "wild b" | (a) "wild a" "\<not> wild b" | (b) "\<not> wild a" "wild b" | (none) "\<not> wild a" "\<not> wild b"
    by blast
  then show ?thesis
  proof cases
    case ab
    have "literal_prefix a = literal_prefix b \<or> startswith (literal_prefix a) (literal_prefix b @ ''/'')
      \<or> startswith (literal_prefix b) (literal_prefix a @ ''/'')" if p: "literal_prefix a \<noteq> []" "literal_prefix b \<noteq> []"
    proof -
      have "startswith f (literal_prefix a @ ''/'')" "startswith f (literal_prefix b @ ''/'')"
        using covers_wild [OF c(1) ab(1) p(1)] covers_wild [OF c(2) ab(2) p(2)] by simp_all
      from startswith_comparable [OF this] show ?thesis by (auto dest: startswith_slash)
    qed
    with ab show ?thesis unfolding paths_overlap_def a_def [symmetric] b_def [symmetric] Let_def by auto
  next
    case a
    with overlap_wild_any [of a f b] c show ?thesis
      unfolding paths_overlap_def a_def [symmetric] b_def [symmetric] Let_def by auto
  next
    case b
    with overlap_wild_any [of b f a] c show ?thesis
      unfolding paths_overlap_def a_def [symmetric] b_def [symmetric] Let_def by auto
  next
    case none
    then have "a = b \<or> inside_dir a b \<or> inside_dir b a"
      using covers_literal [OF c(1)] covers_literal [OF c(2)] overlap_two_directories by auto
    with none show ?thesis unfolding paths_overlap_def a_def [symmetric] b_def [symmetric] Let_def by auto
  qed
qed

text \<open>
  C20. The scope test is sound but for one kind of pair: if a file is named by a scope of each of two work
  items, by name, by pattern or as part of a directory, then \<open>scopes_overlap\<close> reports the overlap, unless one
  of the two scopes begins with a wildcard component and the other is a directory.
\<close>

theorem scope_overlap_sound:
  assumes "a \<in> set left" and "b \<in> set right" and "covers (norm_path a) f" and "covers (norm_path b) f"
    and "\<not> missed_pair (norm_path a) (norm_path b)"
  shows "scopes_overlap left right \<and> scopes_overlap right left"
proof -
  have "scopes_overlap left right"
    using overlap_sound [OF assms(3-5)] assms(1,2) by (auto simp: scopes_overlap_def list_ex_iff)
  then show ?thesis using scopes_overlap_sym by blast
qed

theorem scope_overlap_sound_witness:
  "covers (norm_path ''*_queue.py'') ''core/work_queue.py'' \<and> covers (norm_path ''./core/w*'') ''core/work_queue.py''
   \<and> leading_wild (norm_path ''*_queue.py'') \<and> scopes_overlap [''docs/x.md'', ''*_queue.py''] [''./core/w*'']"
proof -
  have "covers (norm_path ''*_queue.py'') ''core/work_queue.py''" "covers (norm_path ''./core/w*'') ''core/work_queue.py''"
    "\<not> missed_pair (norm_path ''*_queue.py'') (norm_path ''./core/w*'')" "leading_wild (norm_path ''*_queue.py'')" by code_simp+
  with scope_overlap_sound [of "''*_queue.py''" "[''docs/x.md'', ''*_queue.py'']" "''./core/w*''" "[''./core/w*'']"]
  show ?thesis by simp
qed

text \<open>
  The exception is real: a pattern whose first component has a wildcard and a directory scope
  that both name the same file do not overlap, so two items can be claimed on that file.
\<close>

theorem leading_wildcard_overlap_missed:
  "covers (norm_path ''*.py'') ''core/work_queue.py'' \<and> covers (norm_path ''core/'') ''core/work_queue.py''
   \<and> \<not> scopes_overlap [''*.py''] [''core/'']"
  by code_simp

section \<open>Pull request snapshots\<close>

text \<open>\<open>_TOKEN.fullmatch\<close>\<close>

definition is_token_char :: "char \<Rightarrow> bool" where
  "is_token_char c = (let n = char_code c in (48 \<le> n \<and> n \<le> 57) \<or> (65 \<le> n \<and> n \<le> 90) \<or> (97 \<le> n \<and> n \<le> 122)
     \<or> c \<in> {CHR ''.'', CHR ''_'', CHR '':'', CHR ''-''})"

definition token_match :: "string \<Rightarrow> bool" where
  "token_match s \<longleftrightarrow> s \<noteq> [] \<and> list_all is_token_char s"

text \<open>\<open>str(value)\<close>. Of a list or an object only the opening bracket matters here, which no token has.\<close>

fun norm_token :: "json \<Rightarrow> string" where
  "norm_token JNull = ''None''"
| "norm_token (JBool b) = (if b then ''True'' else ''False'')"
| "norm_token (JInt i) = show_int i"
| "norm_token (JFloat t) = t"
| "norm_token JNaN = ''nan''"
| "norm_token (JStr s) = s"
| "norm_token (JList xs) = ''[]''"
| "norm_token (JObj kvs) = ''{}''"

definition pr_number :: "payload \<Rightarrow> string result" where
  "pr_number record = (let number = norm_token (get record ''number'') in
     if \<not> token_match number \<or> 64 < length number then Inl (WorkQueueError ''PR_NUMBER'') else Inr number)"

fun nonempty_str :: "json \<Rightarrow> string option" where
  "nonempty_str (JStr s) = (if s = [] then None else Some s)"
| "nonempty_str _ = None"

definition pr_files :: "payload \<Rightarrow> string list result" where
  "pr_files record = (case (if has_key record ''files'' then get record ''files'' else JList []) of
     JList xs \<Rightarrow> (if list_all (\<lambda>v. nonempty_str v \<noteq> None) xs then Inr (map (the \<circ> nonempty_str) xs)
       else Inl (WorkQueueError ''PR_FILES''))
   | _ \<Rightarrow> Inl (WorkQueueError ''PR_FILES''))"

record pr_view =
  pv_number :: string
  pv_role :: string
  pv_merge_again :: bool
  pv_ready :: bool
  pv_files :: "string list"

definition read_pr_dependency :: "json \<Rightarrow> pr_view result" where
  "read_pr_dependency value = (case value of
     JObj record \<Rightarrow> (case get record ''is_draft'' of
         JBool is_draft \<Rightarrow>
           bind_result (pr_number record) (\<lambda>number.
           bind_result (in_str_set (get record ''state'') [''MERGED'', ''OPEN'', ''CLOSED'']) (\<lambda>known.
             if \<not> known then Inl (WorkQueueError ''PR_STATE'')
             else bind_result (pr_files record) (\<lambda>files.
               if get record ''state'' = JStr ''MERGED'' \<and> is_draft then Inl (WorkQueueError ''DRAFT_MERGED'')
               else Inr \<lparr>pv_number = number,
                 pv_role = (if get record ''state'' = JStr ''MERGED'' then ''MERGED_DEPENDENCY''
                   else if is_draft then ''DRAFT_BLOCKED''
                   else if get record ''state'' = JStr ''OPEN'' then ''OPEN'' else ''CLOSED''),
                 pv_merge_again = False, pv_ready = False, pv_files = files\<rparr>)))
       | _ \<Rightarrow> Inl (WorkQueueError ''DRAFT_FLAG_REQUIRED''))
   | _ \<Rightarrow> Inl (WorkQueueError ''DRAFT_FLAG_REQUIRED''))"

definition draft_gate :: "json \<Rightarrow> (pr_view \<times> string) result" where
  "draft_gate value = bind_result (read_pr_dependency value) (\<lambda>view. Inr (view,
     if pv_role view = ''DRAFT_BLOCKED'' then ''BLOCKED'' else if pv_role view = ''OPEN'' then ''CLEAR'' else ''NOT_APPLICABLE''))"

text \<open>The first loop of \<open>shared_file_conflicts\<close>: the rows with distinct numbers.\<close>

fun pr_rows :: "string list \<Rightarrow> json list \<Rightarrow> (string \<times> string list) list result" where
  "pr_rows seen [] = Inr []"
| "pr_rows seen (v # vs) = (case v of
     JObj record \<Rightarrow> bind_result (pr_number record) (\<lambda>number.
       if number \<in> set seen then Inl (WorkQueueError ''DUPLICATE_PR'')
       else bind_result (pr_files record) (\<lambda>files.
         bind_result (pr_rows (number # seen) vs) (\<lambda>rows. Inr ((number, files) # rows))))
   | _ \<Rightarrow> Inl (WorkQueueError ''PR_RECORD''))"

definition path_key :: "string \<Rightarrow> nat \<times> string" where
  "path_key p = (length (rstrip_slash (norm_path p)), norm_path p)"

definition path_hit :: "string \<Rightarrow> string \<Rightarrow> string option" where
  "path_hit l r = (if \<not> directory_covers l r \<and> \<not> directory_covers r l then None
     else if rstrip_slash (norm_path l) = rstrip_slash (norm_path r) then Some (rstrip_slash (norm_path l))
     else (let ordered = sort_key path_key [l, r] in Some (ordered ! 0 @ '' ~ '' @ ordered ! 1)))"

definition row_hits :: "string list \<Rightarrow> string list \<Rightarrow> string list" where
  "row_hits ls rs = concat (map (\<lambda>l. concat (map (\<lambda>r. case path_hit l r of None \<Rightarrow> [] | Some h \<Rightarrow> [h]) rs)) ls)"

type_synonym conflict = "(string \<times> string) \<times> string list"

definition row_conflict :: "string \<times> string list \<Rightarrow> string \<times> string list \<Rightarrow> conflict list" where
  "row_conflict x y = (let hits = row_hits (snd x) (snd y) in
     if hits = [] then [] else [((min (fst x) (fst y), max (fst x) (fst y)), sort (remdups hits))])"

fun all_conflicts :: "(string \<times> string list) list \<Rightarrow> conflict list" where
  "all_conflicts [] = []"
| "all_conflicts (x # rows) = concat (map (row_conflict x) rows) @ all_conflicts rows"

definition shared_file_conflicts :: "json \<Rightarrow> conflict list result" where
  "shared_file_conflicts records = (case records of
     JList vs \<Rightarrow> bind_result (pr_rows [] vs) (\<lambda>rows. Inr (sort_key fst (all_conflicts rows)))
   | _ \<Rightarrow> Inl (WorkQueueError ''PR_RECORD''))"

definition touch :: "string list \<Rightarrow> string list \<Rightarrow> bool" where
  "touch ls rs \<longleftrightarrow> (\<exists>l\<in>set ls. \<exists>r\<in>set rs. directory_covers l r \<or> directory_covers r l)"

lemma row_hits_iff: "row_hits ls rs \<noteq> [] \<longleftrightarrow> touch ls rs"
  by (auto simp: row_hits_def touch_def path_hit_def Let_def split: option.splits if_splits)

lemma touch_sym: "touch ls rs \<longleftrightarrow> touch rs ls"
  by (auto simp: touch_def)

lemma row_conflict_keys:
  "fst ` set (row_conflict x y) = (if touch (snd x) (snd y) then {(min (fst x) (fst y), max (fst x) (fst y))} else {})"
  using row_hits_iff [of "snd x" "snd y"] by (auto simp: row_conflict_def Let_def)

lemma all_conflicts_keys:
  "distinct (map fst rows) \<Longrightarrow> fst ` set (all_conflicts rows)
     = {(fst x, fst y) | x y. x \<in> set rows \<and> y \<in> set rows \<and> fst x < fst y \<and> touch (snd x) (snd y)}"
proof (induction rows)
  case (Cons z rows)
  have z: "fst ` set (concat (map (row_conflict z) rows))
      = {(min (fst z) (fst w), max (fst z) (fst w)) | w. w \<in> set rows \<and> touch (snd z) (snd w)}"
    unfolding set_concat set_map image_Union image_image row_conflict_keys by (auto split: if_splits) blast
  have neq: "fst w \<noteq> fst z" if "w \<in> set rows" for w
    using Cons.prems imageI [OF that, of fst] by (metis distinct.simps(2) list.simps(9) set_map)
  have "{(min (fst z) (fst w), max (fst z) (fst w)) | w. w \<in> set rows \<and> touch (snd z) (snd w)}
      = {(fst x, fst y) | x y. (x = z \<and> y \<in> set rows \<or> y = z \<and> x \<in> set rows) \<and> fst x < fst y \<and> touch (snd x) (snd y)}"
    (is "?A = ?B")
  proof
    show "?A \<subseteq> ?B"
    proof
      fix p assume "p \<in> ?A"
      then obtain w where w: "w \<in> set rows" "touch (snd z) (snd w)" "p = (min (fst z) (fst w), max (fst z) (fst w))" by blast
      from neq [OF w(1)] consider "fst z < fst w" | "fst w < fst z" by force
      then show "p \<in> ?B"
      proof cases
        case 1
        with w have "p = (fst z, fst w)" by simp
        with w 1 show ?thesis by blast
      next
        case 2
        with w have "p = (fst w, fst z)" by simp
        with w 2 touch_sym [of "snd z" "snd w"] show ?thesis by blast
      qed
    qed
    show "?B \<subseteq> ?A"
    proof
      fix p assume "p \<in> ?B"
      then obtain x y where xy: "p = (fst x, fst y)" "x = z \<and> y \<in> set rows \<or> y = z \<and> x \<in> set rows" "fst x < fst y"
        "touch (snd x) (snd y)" by blast
      then have "p = (min (fst x) (fst y), max (fst x) (fst y))" "p = (min (fst y) (fst x), max (fst y) (fst x))" by simp_all
      with xy touch_sym [of "snd x" "snd y"] show "p \<in> ?A" by blast
    qed
  qed
  with z Cons show ?case by (auto simp: image_Un)
qed simp

lemma pr_rows_distinct: "pr_rows seen vs = Inr rows \<Longrightarrow> distinct (map fst rows) \<and> fst ` set rows \<inter> set seen = {}"
proof (induction vs arbitrary: seen rows)
  case (Cons v vs)
  then obtain number files rest where r: "number \<notin> set seen" "pr_rows (number # seen) vs = Inr rest" "rows = (number, files) # rest"
    by (auto simp: bind_result_eq_Inr split: json.splits if_splits)
  from Cons.IH [OF r(2)] r(1,3) show ?case by auto
qed simp

text \<open>
  \<open>shared_file_conflicts\<close> reports exactly the pairs of pull requests with a path of one that
  covers a path of the other: the numbers are distinct, each pair is named once with the smaller
  number first, and no pull request conflicts with itself.
\<close>

theorem shared_conflicts_exact:
  assumes "pr_rows [] vs = Inr rows"
  shows "\<exists>cs. shared_file_conflicts (JList vs) = Inr cs \<and> distinct (map fst rows) \<and> sorted (map fst cs)
    \<and> fst ` set cs = {(fst x, fst y) | x y. x \<in> set rows \<and> y \<in> set rows \<and> fst x < fst y \<and> touch (snd x) (snd y)}"
  using assms pr_rows_distinct [OF assms] all_conflicts_keys [of rows] by (auto simp: shared_file_conflicts_def)

definition sample_prs :: "json list" where
  "sample_prs = [JObj [(''number'', JInt 12), (''files'', JList [JStr ''core/work_queue.py''])],
     JObj [(''number'', JInt 7), (''files'', JList [JStr ''core/'', JStr ''docs/a.md''])]]"

lemma sample_conflicts: "shared_file_conflicts (JList sample_prs) = Inr [((''12'', ''7''), [''core/ ~ core/work_queue.py''])]"
  by code_simp

theorem shared_conflicts_exact_witness:
  "shared_file_conflicts (JList sample_prs) = Inr [((''12'', ''7''), [''core/ ~ core/work_queue.py''])]
   \<and> (\<exists>cs. shared_file_conflicts (JList sample_prs) = Inr cs \<and> sorted (map fst cs))"
proof -
  have "pr_rows [] sample_prs = Inr [(''12'', [''core/work_queue.py'']), (''7'', [''core/'', ''docs/a.md''])]" by code_simp
  from shared_conflicts_exact [OF this] show ?thesis using sample_conflicts by blast
qed

end
