(* ===== verification/Py_Time.thy ===== *)
theory Py_Time
  imports Prelude
begin

text \<open>
  Python's \<open>datetime\<close> in UTC as far as the sources use it: a moment is the number of microseconds
  since 0001-01-01T00:00:00Z, of which \<open>datetime\<close> covers the years 1 to 9999. The theory has the
  proleptic Gregorian calendar, the text \<open>YYYY-MM-DDTHH:MM:SSZ\<close> that \<open>_stamp\<close> prints and
  \<open>_parse_time\<close> reads (courier\_core/work\_queue.py), and the fact that reading a printed moment
  gives its whole second.
\<close>

section \<open>The calendar\<close>

definition is_leap :: "int \<Rightarrow> bool" where
  "is_leap y \<longleftrightarrow> y mod 4 = 0 \<and> (y mod 100 \<noteq> 0 \<or> y mod 400 = 0)"

definition days_before_year :: "int \<Rightarrow> int" where
  "days_before_year y = 365 * (y - 1) + (y - 1) div 4 - (y - 1) div 100 + (y - 1) div 400"

definition month_lengths :: "int \<Rightarrow> int list" where
  "month_lengths y = [31, if is_leap y then 29 else 28, 31, 30, 31, 30, 31, 31, 30, 31, 30, 31]"

lemma div_step: "0 < k \<Longrightarrow> (y::int) div k = (y - 1) div k + (if y mod k = 0 then 1 else 0)"
proof -
  assume k: "0 < k"
  show ?thesis
  proof (cases "y mod k = 0")
    case True
    then obtain q where "y = k * q" by auto
    with k show ?thesis by (simp add: int_div_pos_eq [of "k * q - 1" k "q - 1" "k - 1"] algebra_simps)
  next
    case False
    with k have m: "0 \<le> y mod k - 1" "y mod k - 1 < k"
      using pos_mod_bound [of k y] pos_mod_sign [of k y] by linarith+
    have "y - 1 = k * (y div k) + (y mod k - 1)" by (simp add: algebra_simps)
    from int_div_pos_eq [OF this m] False show ?thesis by simp
  qed
qed

lemma leap_cases:
  "y mod 400 = 0 \<Longrightarrow> y mod 100 = 0" "(y::int) mod 100 = 0 \<Longrightarrow> y mod 4 = 0"
  using dvd_trans [of 100 400 y] dvd_trans [of 4 100 y] by (auto simp: mod_eq_0_iff_dvd)

lemma leap_count:
  "y div 4 - y div 100 + y div 400 = (y - 1) div 4 - (y - 1) div 100 + (y - 1) div 400 + (if is_leap y then 1 else 0)"
proof -
  define a b c where "a = (y - 1) div 4" and "b = (y - 1) div 100" and "c = (y - 1) div 400"
  have d: "y div 4 = a + (if y mod 4 = 0 then 1 else 0)" "y div 100 = b + (if y mod 100 = 0 then 1 else 0)"
    "y div 400 = c + (if y mod 400 = 0 then 1 else 0)"
    unfolding a_def b_def c_def by (rule div_step, simp)+
  show ?thesis
    unfolding d is_leap_def a_def [symmetric] b_def [symmetric] c_def [symmetric]
    using leap_cases [of y]
    by (cases "y mod 4 = 0"; cases "y mod 100 = 0"; cases "y mod 400 = 0"; simp only: if_True if_False simp_thms)
qed

lemma days_before_year_Suc: "days_before_year (y + 1) = days_before_year y + (if is_leap y then 366 else 365)"
  unfolding days_before_year_def using leap_count [of y] by (cases "is_leap y") (simp_all only: if_True if_False, simp_all)

lemma sum_month_lengths: "sum_list (month_lengths y) = (if is_leap y then 366 else 365)"
  by (simp add: month_lengths_def)

lemma days_before_year_mono: "y \<le> z \<Longrightarrow> days_before_year y \<le> days_before_year z"
proof (induction z rule: int_ge_induct)
  case (step z)
  then show ?case using days_before_year_Suc [of z] by (auto split: if_splits)
qed simp

text \<open>The year of a day, counted from 0 for 0001-01-01, searched upwards from a lower bound.\<close>

function find_year :: "int \<Rightarrow> int \<Rightarrow> int" where
  "find_year n y = (if days_before_year (y + 1) \<le> n then find_year n (y + 1) else y)"
  by auto

termination
proof (relation "measure (\<lambda>(n, y). nat (n - days_before_year y))")
  fix n y :: int
  assume "days_before_year (y + 1) \<le> n"
  then show "((n, y + 1), n, y) \<in> measure (\<lambda>(n, y). nat (n - days_before_year y))"
    using days_before_year_Suc [of y] by (auto split: if_splits)
qed simp

declare find_year.simps [simp del]

lemma find_year_bounds:
  "days_before_year y \<le> n \<Longrightarrow>
   y \<le> find_year n y \<and> days_before_year (find_year n y) \<le> n \<and> n < days_before_year (find_year n y + 1)"
proof (induction n y rule: find_year.induct)
  case (1 n y)
  show ?case
  proof (cases "days_before_year (y + 1) \<le> n")
    case True
    with 1 show ?thesis by (subst (1 2 3) find_year.simps) auto
  next
    case False
    with 1(2) show ?thesis by (subst (1 2 3) find_year.simps) auto
  qed
qed

fun split_month :: "int \<Rightarrow> int list \<Rightarrow> int \<Rightarrow> int \<times> int" where
  "split_month m [] d = (m, d)"
| "split_month m (l # ls) d = (if d < l then (m, d) else split_month (m + 1) ls (d - l))"

lemma split_month_bounds:
  "0 \<le> d \<Longrightarrow> d < sum_list ls \<Longrightarrow> split_month m ls d = (m', d') \<Longrightarrow>
   m \<le> m' \<and> m' < m + int (length ls) \<and> 0 \<le> d' \<and> d' < ls ! nat (m' - m) \<and> d = sum_list (take (nat (m' - m)) ls) + d'"
proof (induction m ls d rule: split_month.induct)
  case (2 m l ls d)
  show ?case
  proof (cases "d < l")
    case True
    with 2 show ?thesis by auto
  next
    case False
    with 2 have ih: "m + 1 \<le> m' \<and> m' < m + 1 + int (length ls) \<and> 0 \<le> d' \<and> d' < ls ! nat (m' - (m + 1))
      \<and> d - l = sum_list (take (nat (m' - (m + 1))) ls) + d'" by auto
    then have "nat (m' - m) = Suc (nat (m' - (m + 1)))" by auto
    with ih show ?thesis by auto
  qed
qed simp

definition civil_date :: "int \<Rightarrow> int \<times> int \<times> int" where
  "civil_date n = (let y = find_year n (n div 366 + 1); (m, d) = split_month 1 (month_lengths y) (n - days_before_year y)
     in (y, m, d + 1))"

definition day_number :: "int \<Rightarrow> int \<Rightarrow> int \<Rightarrow> int" where
  "day_number y m d = days_before_year y + sum_list (take (nat (m - 1)) (month_lengths y)) + (d - 1)"

definition valid_date :: "int \<Rightarrow> int \<Rightarrow> int \<Rightarrow> bool" where
  "valid_date y m d \<longleftrightarrow> 1 \<le> y \<and> y \<le> 9999 \<and> 1 \<le> m \<and> m \<le> 12 \<and> 1 \<le> d \<and> d \<le> month_lengths y ! nat (m - 1)"

lemma days_before_year_estimate: "0 \<le> n \<Longrightarrow> days_before_year (n div 366 + 1) \<le> n"
proof -
  assume n: "0 \<le> n"
  define q where "q = n div 366"
  have q: "0 \<le> q" "366 * q \<le> n" using n by (auto simp: q_def)
  have "q div 4 \<le> q" "q div 400 \<le> q div 100"
    using q(1) zdiv_mono2 [of q 1 4] zdiv_mono2 [of q 100 400] by simp_all
  with q show ?thesis by (simp add: days_before_year_def q_def)
qed

lemma civil_date_day_number:
  assumes "0 \<le> n" "n < days_before_year 10000" "civil_date n = (y, m, d)"
  shows "valid_date y m d \<and> day_number y m d = n"
proof -
  define z where "z = find_year n (n div 366 + 1)"
  obtain m' d' where s: "split_month 1 (month_lengths z) (n - days_before_year z) = (m', d')" by fastforce
  have yz: "y = z" "m = m'" "d = d' + 1" using assms(3) s by (auto simp: civil_date_def z_def Let_def)
  have z: "n div 366 + 1 \<le> z" "days_before_year z \<le> n" "n < days_before_year (z + 1)"
    using find_year_bounds [OF days_before_year_estimate [OF assms(1)]] by (auto simp: z_def)
  have "n - days_before_year z < sum_list (month_lengths z)"
    using z(3) days_before_year_Suc [of z] sum_month_lengths [of z] by (auto split: if_splits)
  from split_month_bounds [OF _ this s] z(2)
  have b: "1 \<le> m'" "m' \<le> 12" "0 \<le> d'" "d' < month_lengths z ! nat (m' - 1)"
    "n - days_before_year z = sum_list (take (nat (m' - 1)) (month_lengths z)) + d'"
    by (auto simp: month_lengths_def)
  have "1 \<le> z" using z(1) assms(1) by (auto simp: pos_imp_zdiv_nonneg_iff intro: order_trans [rotated])
  moreover have "z \<le> 9999"
  proof (rule ccontr)
    assume "\<not> z \<le> 9999"
    then have "days_before_year 10000 \<le> days_before_year z" by (intro days_before_year_mono) simp
    with z(2) assms(2) show False by simp
  qed
  ultimately show ?thesis using b by (simp add: valid_date_def day_number_def yz)
qed

section \<open>Moments and their text\<close>

definition MICROS_PER_SECOND :: int where "MICROS_PER_SECOND = 1000000"
definition SECONDS_PER_DAY :: int where "SECONDS_PER_DAY = 86400"

text \<open>The moments of \<open>datetime\<close>: from \<open>datetime.min\<close> to \<open>datetime.max\<close>.\<close>

definition in_range :: "int \<Rightarrow> bool" where
  "in_range t \<longleftrightarrow> 0 \<le> t \<and> t < days_before_year 10000 * SECONDS_PER_DAY * MICROS_PER_SECOND"

text \<open>\<open>moment + timedelta(seconds=n)\<close>\<close>

definition add_seconds :: "int \<Rightarrow> int \<Rightarrow> int result" where
  "add_seconds t n = (if in_range (t + n * MICROS_PER_SECOND) then Inr (t + n * MICROS_PER_SECOND)
     else Inl (OverflowError ''date value out of range''))"

definition pad2 :: "int \<Rightarrow> string" where
  "pad2 n = [digit_char (nat n div 10), digit_char (nat n mod 10)]"

text \<open>\<open>strftime("%Y-%m-%dT%H:%M:%SZ")\<close>; the year is not padded.\<close>

definition stamp :: "int \<Rightarrow> string" where
  "stamp t = (let s = t div MICROS_PER_SECOND; n = s div SECONDS_PER_DAY; r = s mod SECONDS_PER_DAY; (y, m, d) = civil_date n
     in show_int y @ CHR ''-'' # pad2 m @ CHR ''-'' # pad2 d @ CHR ''T'' # pad2 (r div 3600) @ CHR '':'' # pad2 (r mod 3600 div 60)
        @ CHR '':'' # pad2 (r mod 60) @ ''Z'')"

text \<open>\<open>_TIME.fullmatch\<close>\<close>

definition time_match :: "string \<Rightarrow> bool" where
  "time_match s = list_all2 (\<lambda>p c. if p = CHR ''0'' then is_digit c else c = p) ''0000-00-00T00:00:00Z'' s"

definition field :: "nat \<Rightarrow> nat \<Rightarrow> string \<Rightarrow> int" where
  "field i n s = int (digits_value (take n (drop i s)))"

text \<open>\<open>datetime.fromisoformat(value[:-1] + "+00:00")\<close>, which raises \<open>ValueError\<close> on an impossible date.\<close>

definition parse_time :: "string \<Rightarrow> int option" where
  "parse_time s = (if \<not> time_match s then None
     else let y = field 0 4 s; m = field 5 2 s; d = field 8 2 s; h = field 11 2 s; mi = field 14 2 s; sec = field 17 2 s
       in if valid_date y m d \<and> h < 24 \<and> mi < 60 \<and> sec < 60
          then Some ((day_number y m d * SECONDS_PER_DAY + h * 3600 + mi * 60 + sec) * MICROS_PER_SECOND) else None)"

definition whole_second :: "int \<Rightarrow> int" where
  "whole_second t = t - t mod MICROS_PER_SECOND"

text \<open>The years 1000 to 9999, which print with four digits.\<close>

definition printable :: "int \<Rightarrow> bool" where
  "printable t \<longleftrightarrow> days_before_year 1000 * SECONDS_PER_DAY * MICROS_PER_SECOND \<le> t \<and> in_range t"

lemma digits_value_pad2: "0 \<le> n \<Longrightarrow> n < 100 \<Longrightarrow> int (digits_value (pad2 n)) = n"
proof -
  assume n: "0 \<le> n" "n < 100"
  then have "nat n div 10 < 10" "nat n mod 10 < 10" by auto
  then have "digits_value (pad2 n) = 10 * (nat n div 10) + nat n mod 10"
    by (simp add: digits_value_def pad2_def)
  then show ?thesis using n by simp
qed

lemma pad2_digits: "0 \<le> n \<Longrightarrow> n < 100 \<Longrightarrow> list_all is_digit (pad2 n) \<and> length (pad2 n) = 2"
  by (simp add: pad2_def)

lemma length_show_nat:
  "n < 10 \<Longrightarrow> length (show_nat n) = 1" "10 \<le> n \<Longrightarrow> length (show_nat n) = Suc (length (show_nat (n div 10)))"
  by (subst show_nat.simps, simp)+

lemma show_nat_four: "1000 \<le> n \<Longrightarrow> n < 10000 \<Longrightarrow> length (show_nat n) = 4"
proof -
  assume n: "1000 \<le> n" "n < 10000"
  define a b c where "a = n div 10" and "b = a div 10" and "c = b div 10"
  have a: "100 \<le> a" "a < 1000"
    using n by (simp_all add: a_def less_eq_div_iff_mult_less_eq div_less_iff_less_mult)
  then have b: "10 \<le> b" "b < 100" by (simp_all add: b_def less_eq_div_iff_mult_less_eq div_less_iff_less_mult)
  then have c: "c < 10" by (simp add: c_def div_less_iff_less_mult)
  show ?thesis
    using n a b length_show_nat(2) [of n] length_show_nat(2) [of a] length_show_nat(2) [of b] length_show_nat(1) [OF c]
    by (simp add: a_def b_def c_def)
qed

lemma pad2_eq: "\<exists>a b. pad2 n = [a, b]" by (simp add: pad2_def)

lemma four_eq: "length s = 4 \<Longrightarrow> \<exists>a b c d. s = [a, b, c, d]"
  by (auto simp: length_Suc_conv numeral_eq_Suc)

lemma parse_time_fields:
  assumes y: "1000 \<le> y" and v: "valid_date y m d" and h: "0 \<le> h" "h < 24" and mi: "0 \<le> mi" "mi < 60" and sec: "0 \<le> sec" "sec < 60"
  shows "parse_time (show_int y @ CHR ''-'' # pad2 m @ CHR ''-'' # pad2 d @ CHR ''T'' # pad2 h @ CHR '':'' # pad2 mi
        @ CHR '':'' # pad2 sec @ ''Z'')
     = Some ((day_number y m d * SECONDS_PER_DAY + h * 3600 + mi * 60 + sec) * MICROS_PER_SECOND)"
proof -
  have b: "y \<le> 9999" "0 \<le> m" "m < 100" "0 \<le> d" "d < 100"
  proof -
    have "set (month_lengths y) \<subseteq> {28, 29, 30, 31}" by (simp add: month_lengths_def)
    moreover have "nat (m - 1) < length (month_lengths y)" using v by (auto simp: valid_date_def month_lengths_def)
    ultimately have "month_lengths y ! nat (m - 1) \<in> {28, 29, 30, 31}" using nth_mem by blast
    with v show "y \<le> 9999" "0 \<le> m" "m < 100" "0 \<le> d" "d < 100" by (auto simp: valid_date_def)
  qed
  have sy: "show_int y = show_nat (nat y)" using y by (simp add: show_int_def)
  obtain y1 y2 y3 y4 where Y: "show_nat (nat y) = [y1, y2, y3, y4]"
    using four_eq [OF show_nat_four [of "nat y"]] y b(1) by fastforce
  obtain m1 m2 where P1: "pad2 m = [m1, m2]" using pad2_eq by blast
  obtain d1 d2 where P2: "pad2 d = [d1, d2]" using pad2_eq by blast
  obtain h1 h2 where P3: "pad2 h = [h1, h2]" using pad2_eq by blast
  obtain i1 i2 where P4: "pad2 mi = [i1, i2]" using pad2_eq by blast
  obtain s1 s2 where P5: "pad2 sec = [s1, s2]" using pad2_eq by blast
  note P = P1 P2 P3 P4 P5
  have D: "list_all is_digit [y1, y2, y3, y4]" using show_nat_digits [of "nat y"] Y by simp
  have E: "list_all is_digit [m1, m2]" "list_all is_digit [d1, d2]" "list_all is_digit [h1, h2]"
    "list_all is_digit [i1, i2]" "list_all is_digit [s1, s2]"
    using pad2_digits [of m] pad2_digits [of d] pad2_digits [of h] pad2_digits [of mi] pad2_digits [of sec] b h mi sec
    unfolding P by simp_all
  have F: "int (digits_value [y1, y2, y3, y4]) = y" "int (digits_value [m1, m2]) = m" "int (digits_value [d1, d2]) = d"
    "int (digits_value [h1, h2]) = h" "int (digits_value [i1, i2]) = mi" "int (digits_value [s1, s2]) = sec"
    using digits_value_pad2 [of m] digits_value_pad2 [of d] digits_value_pad2 [of h] digits_value_pad2 [of mi]
      digits_value_pad2 [of sec] b h mi sec digits_value_show_nat [of "nat y"] y unfolding P Y by simp_all
  show ?thesis
    using v h mi sec D E F by (simp add: sy Y P parse_time_def time_match_def field_def)
qed

lemma day_lower: assumes "0 < M" "0 < S" "a * S * M \<le> (t::int)" shows "a \<le> t div M div S"
  using zdiv_mono1 [OF zdiv_mono1 [OF assms(3,1)] assms(2)] assms(1,2) by simp

lemma div_mult_below: "0 < (k::int) \<Longrightarrow> t div k * k \<le> t"
  using div_mult_mod_eq [of t k] pos_mod_sign [of k t] by linarith

lemma day_upper: assumes "0 < M" "0 < S" "(t::int) < b * S * M" shows "t div M div S < b"
proof (rule ccontr)
  assume "\<not> ?thesis"
  then have "b * S \<le> t div M div S * S" using assms(2) by simp
  also have "\<dots> \<le> t div M" by (rule div_mult_below [OF assms(2)])
  finally have "b * S * M \<le> t div M * M" using assms(1) by simp
  with assms(3) div_mult_below [OF assms(1), of t] show False by linarith
qed

theorem parse_stamp: "printable t \<Longrightarrow> parse_time (stamp t) = Some (whole_second t)"
proof -
  assume t: "printable t"
  define s n r where "s = t div MICROS_PER_SECOND" and "n = s div SECONDS_PER_DAY" and "r = s mod SECONDS_PER_DAY"
  obtain y m d where c: "civil_date n = (y, m, d)" by (metis prod_cases3)
  have n: "days_before_year 1000 \<le> n" "n < days_before_year 10000"
    using t day_lower [of MICROS_PER_SECOND SECONDS_PER_DAY "days_before_year 1000" t]
      day_upper [of MICROS_PER_SECOND SECONDS_PER_DAY t "days_before_year 10000"]
    unfolding printable_def in_range_def n_def s_def by (simp_all add: SECONDS_PER_DAY_def MICROS_PER_SECOND_def)
  have "0 \<le> days_before_year 1000" by (simp add: days_before_year_def)
  with n have v: "valid_date y m d" "day_number y m d = n" using civil_date_day_number [OF _ n(2) c] by auto
  have y: "1000 \<le> y"
  proof (rule ccontr)
    assume "\<not> 1000 \<le> y"
    then have "days_before_year (y + 1) \<le> days_before_year 1000" by (intro days_before_year_mono) simp
    moreover have "n < days_before_year (y + 1)"
      using c find_year_bounds [OF days_before_year_estimate, of n] n \<open>0 \<le> days_before_year 1000\<close>
      by (auto simp: civil_date_def Let_def split: prod.splits)
    ultimately show False using n by simp
  qed
  have r: "0 \<le> r" "r < 86400" by (simp_all add: r_def SECONDS_PER_DAY_def)
  then have f: "0 \<le> r div 3600" "r div 3600 < 24" "0 \<le> r mod 3600 div 60" "r mod 3600 div 60 < 60" "0 \<le> r mod 60" "r mod 60 < 60"
    using zdiv_mono1 [of r 86399 3600] zdiv_mono1 [of "r mod 3600" 3599 60] pos_mod_bound [of 3600 r]
    by (simp_all add: pos_imp_zdiv_nonneg_iff)
  have "r mod 3600 mod 60 = r mod 60" by (simp add: mod_mod_cancel)
  then have "r = r div 3600 * 3600 + r mod 3600 div 60 * 60 + r mod 60"
    using div_mult_mod_eq [of r 3600] div_mult_mod_eq [of "r mod 3600" 60] by linarith
  then have "day_number y m d * SECONDS_PER_DAY + r div 3600 * 3600 + r mod 3600 div 60 * 60 + r mod 60 = s"
    using div_mult_mod_eq [of s SECONDS_PER_DAY] unfolding n_def [symmetric] r_def [symmetric] v(2) by linarith
  moreover have "s * MICROS_PER_SECOND = whole_second t" by (simp add: s_def whole_second_def minus_mod_eq_div_mult)
  ultimately show ?thesis
    using parse_time_fields [OF y v(1) f]
    by (simp only: stamp_def Let_def s_def [symmetric] n_def [symmetric] r_def [symmetric] c prod.case)
qed

end
