(* ===== verification/Work_Queue.thy ===== *)
theory Work_Queue
  imports Ledger_Text Scopes Py_Time
begin

text \<open>
  The ledger-backed work queue (courier\_core/work\_queue.py). Seed files are the catalogue; claim,
  renew and release append events to a ledger, and the state is the replay of the ledger over the
  seeds. An operation runs under the queue's file lock, so it is one step on the stored files.
  File text is ASCII here, so its length is its size in bytes. Results: what a claim writes is what
  every later replay reads, a lease excludes other holders until it expires, held items never
  overlap in scope, released items are final, and \<open>list_ready\<close> lists exactly what can be claimed.
\<close>

section \<open>Seed files\<close>

definition MAX_ITEM_BYTES :: nat where "MAX_ITEM_BYTES = 64 * 1024"
definition MAX_LEDGER_BYTES :: nat where "MAX_LEDGER_BYTES = 1024 * 1024"
definition MAX_TTL_SECONDS :: int where "MAX_TTL_SECONDS = 7 * 24 * 3600"

text \<open>A path: a symbolic link, something that cannot be read as a regular UTF-8 file, or its text.\<close>

datatype stored = Symlink | Unreadable | Text string

definition unreadable :: "'a result" where
  "unreadable = Inl (WorkQueueError ''UNREADABLE'')"

definition read_json :: "stored \<Rightarrow> nat \<Rightarrow> json result" where
  "read_json f cap = (case f of
     Text t \<Rightarrow> (if cap < length t then unreadable
       else case loads t of Inl _ \<Rightarrow> unreadable | Inr v \<Rightarrow> Inr v)
   | _ \<Rightarrow> unreadable)"

text \<open>
  The schema language of \<open>_matches\<close>: \<open>anyOf\<close> (and a list of types), null, a string with length
  bounds, pattern and enumeration, an array, an object. A pattern is the predicate it stands for.
\<close>

datatype rule =
    AnyOf "rule list"
  | NullRule
  | StringRule nat "nat option" "(string \<Rightarrow> bool) option" "string list option"
  | ArrayRule nat "nat option" "rule option"
  | ObjectRule bool "string list" "(string \<times> rule) list"

fun matches :: "rule \<Rightarrow> json \<Rightarrow> bool" where
  "matches (AnyOf rs) v = (\<exists>r\<in>set rs. matches r v)"
| "matches NullRule v = (v = JNull)"
| "matches (StringRule lo hi pat en) v = (case v of
     JStr s \<Rightarrow> lo \<le> length s \<and> (case hi of None \<Rightarrow> True | Some n \<Rightarrow> length s \<le> n)
       \<and> (case pat of None \<Rightarrow> True | Some p \<Rightarrow> p s) \<and> (case en of None \<Rightarrow> True | Some es \<Rightarrow> s \<in> set es)
   | _ \<Rightarrow> False)"
| "matches (ArrayRule lo hi it) v = (case v of
     JList xs \<Rightarrow> lo \<le> length xs \<and> (case hi of None \<Rightarrow> True | Some n \<Rightarrow> length xs \<le> n)
       \<and> (case it of None \<Rightarrow> True | Some r \<Rightarrow> (\<forall>x\<in>set xs. matches r x))
   | _ \<Rightarrow> False)"
| "matches (ObjectRule closed req props) v = (case v of
     JObj kvs \<Rightarrow> (closed \<longrightarrow> set (map fst kvs) \<subseteq> set (map fst props)) \<and> list_all (has_key kvs) req
       \<and> (\<forall>p\<in>set props. has_key kvs (fst p) \<longrightarrow> matches (snd p) (get kvs (fst p)))
   | _ \<Rightarrow> False)"

text \<open>courier\_core/schemas/work\_item.schema.json\<close>

definition is_alnum_ascii :: "char \<Rightarrow> bool" where
  "is_alnum_ascii c = (let n = char_code c in (48 \<le> n \<and> n \<le> 57) \<or> (65 \<le> n \<and> n \<le> 90) \<or> (97 \<le> n \<and> n \<le> 122))"

definition lane_match :: "string \<Rightarrow> bool" where
  "lane_match s = (case s of [] \<Rightarrow> False | c # ds \<Rightarrow> c = CHR ''L'' \<and> ds \<noteq> [] \<and> list_all is_digit ds)"

definition branch_match :: "string \<Rightarrow> bool" where
  "branch_match s \<longleftrightarrow> s \<noteq> [] \<and> list_all (\<lambda>c. is_alnum_ascii c \<or> c \<in> set ''._/-'') s"

definition scope_match :: "string \<Rightarrow> bool" where
  "scope_match s \<longleftrightarrow> s \<noteq> [] \<and> list_all (\<lambda>c. is_alnum_ascii c \<or> c \<in> set ''._/*?-'') s"

definition token_rule :: rule where
  "token_rule = StringRule 1 (Some 64) (Some token_match) None"

definition text_rule :: rule where
  "text_rule = StringRule 1 (Some 200) None None"

definition lease_rule :: rule where
  "lease_rule = AnyOf [NullRule, ObjectRule True [''holder'', ''host'', ''expires_at'']
     [(''holder'', token_rule), (''host'', token_rule), (''expires_at'', StringRule 0 None (Some time_match) None)]]"

definition item_properties :: "(string \<times> rule) list" where
  "item_properties = [(''id'', token_rule), (''title'', text_rule), (''lane'', StringRule 0 None (Some lane_match) None),
     (''branch'', StringRule 1 (Some 200) (Some branch_match) None),
     (''files_scope'', ArrayRule 1 (Some 40) (Some (StringRule 1 (Some 200) (Some scope_match) None))),
     (''depends_on'', ArrayRule 0 (Some 40) (Some token_rule)),
     (''acceptance'', ArrayRule 1 (Some 20) (Some text_rule)),
     (''provider_hints'', ArrayRule 0 (Some 20) (Some token_rule)),
     (''status'', StringRule 0 None None (Some [''READY'', ''CLAIMED'', ''DONE'', ''BLOCKED''])),
     (''lease'', lease_rule)]"

definition strs :: "json \<Rightarrow> string list" where
  "strs v = (case v of JList xs \<Rightarrow> map (\<lambda>x. case x of JStr s \<Rightarrow> s | _ \<Rightarrow> []) xs | _ \<Rightarrow> [])"

definition str_of :: "json \<Rightarrow> string" where
  "str_of v = (case v of JStr s \<Rightarrow> s | _ \<Rightarrow> [])"

definition invalid_item :: "'a result" where
  "invalid_item = Inl (WorkQueueError ''INVALID_ITEM'')"

definition validate_item :: "json \<Rightarrow> payload result" where
  "validate_item document = (case document of
     JObj kvs \<Rightarrow>
       (if \<not> set (map fst kvs) \<subseteq> set (map fst item_properties) then invalid_item
        else if \<not> list_all (has_key kvs) (map fst item_properties) then invalid_item
        else if \<not> list_all (\<lambda>(n, r). has_key kvs n \<longrightarrow> matches r (get kvs n)) item_properties then invalid_item
        else if \<not> distinct (strs (get kvs ''files_scope'')) then invalid_item
        else if list_ex (\<lambda>s. str_contains s ''..'' \<or> startswith s ''/'') (strs (get kvs ''files_scope'')) then invalid_item
        else if \<not> distinct (strs (get kvs ''depends_on'')) then invalid_item
        else Inr kvs)
   | _ \<Rightarrow> invalid_item)"

record wq_lease =
  wl_holder :: string
  wl_host :: string
  wl_expires_at :: string

record work_item =
  wi_id :: string
  wi_title :: string
  wi_lane :: string
  wi_branch :: string
  wi_files_scope :: "string list"
  wi_depends_on :: "string list"
  wi_acceptance :: "string list"
  wi_provider_hints :: "string list"
  wi_status :: string
  wi_lease :: "wq_lease option"
  wi_result :: "string option"
  wi_released_by :: "string option"

definition lease_of :: "json \<Rightarrow> wq_lease option" where
  "lease_of v = (case v of JObj kvs \<Rightarrow> Some \<lparr>wl_holder = str_of (get kvs ''holder''), wl_host = str_of (get kvs ''host''),
     wl_expires_at = str_of (get kvs ''expires_at'')\<rparr> | _ \<Rightarrow> None)"

text \<open>The fields of a document that passed \<open>_validate\<close>.\<close>

definition item_of :: "payload \<Rightarrow> work_item" where
  "item_of kvs = \<lparr>wi_id = str_of (get kvs ''id''), wi_title = str_of (get kvs ''title''), wi_lane = str_of (get kvs ''lane''),
     wi_branch = str_of (get kvs ''branch''), wi_files_scope = strs (get kvs ''files_scope''),
     wi_depends_on = strs (get kvs ''depends_on''), wi_acceptance = strs (get kvs ''acceptance''),
     wi_provider_hints = strs (get kvs ''provider_hints''), wi_status = str_of (get kvs ''status''),
     wi_lease = lease_of (get kvs ''lease''), wi_result = None, wi_released_by = None\<rparr>"

type_synonym items = "(string \<times> work_item) list"

definition load_seed :: "items \<Rightarrow> string \<times> stored \<Rightarrow> items result" where
  "load_seed found p =
     (case snd p of
        Text _ \<Rightarrow>
          bind_result (read_json (snd p) MAX_ITEM_BYTES) (\<lambda>document.
          bind_result (validate_item document) (\<lambda>kvs. let item = item_of kvs in
            if wi_id item \<noteq> fst p then Inl (WorkQueueError ''ID_MISMATCH'')
            else if wi_status item = ''CLAIMED'' \<and> wi_lease item = None then Inl (WorkQueueError ''LEASE_REQUIRED'')
            else if wi_status item \<noteq> ''CLAIMED'' \<and> wi_lease item \<noteq> None then Inl (WorkQueueError ''LEASE_UNEXPECTED'')
            else if map_of found (wi_id item) \<noteq> None then Inl (WorkQueueError ''DUPLICATE_ID'')
            else Inr (AList.update (wi_id item) item found)))
      | _ \<Rightarrow> unreadable)"

text \<open>The directory: \<open>None\<close> when it is missing or a link, else its \<open>*.json\<close> entries by stem.\<close>

definition load_seeds :: "(string \<times> stored) list option \<Rightarrow> items result" where
  "load_seeds dir = (case dir of None \<Rightarrow> unreadable
     | Some entries \<Rightarrow> bind_result (fold_result load_seed [] (sort_key (\<lambda>p. fst p @ ''.json'') entries)) (\<lambda>found.
         if found = [] then unreadable else Inr found))"

section \<open>The ledger\<close>

definition LEDGER_TYPES :: "string list" where "LEDGER_TYPES = [''CLAIM'', ''RENEW'', ''RELEASE'']"

definition ledger_event :: "string \<Rightarrow> payload result" where
  "ledger_event line = (case loads line of
     Inr (JObj kvs) \<Rightarrow> (if get kvs ''type'' \<in> JStr ` set LEDGER_TYPES then Inr kvs else unreadable)
   | _ \<Rightarrow> unreadable)"

fun ledger_events :: "string list \<Rightarrow> payload list result" where
  "ledger_events [] = Inr []"
| "ledger_events (l # ls) = (if blank_line l then ledger_events ls
     else bind_result (ledger_event l) (\<lambda>e. bind_result (ledger_events ls) (\<lambda>es. Inr (e # es))))"

definition read_ledger :: "stored option \<Rightarrow> payload list result" where
  "read_ledger f = (case f of
     None \<Rightarrow> Inr []
   | Some (Text t) \<Rightarrow> (if MAX_LEDGER_BYTES < length t then Inl (WorkQueueError ''LEDGER_TOO_LARGE'')
       else ledger_events (split_lines [] t))
   | Some _ \<Rightarrow> unreadable)"

text \<open>\<open>_append\<close>\<close>

definition append_event :: "stored option \<Rightarrow> flat \<Rightarrow> stored option result" where
  "append_event f ev = (let line = event_line ev @ [CHR 0x0A] in case f of
     Some (Text t) \<Rightarrow> (if MAX_LEDGER_BYTES < length t + length line then Inl (WorkQueueError ''LEDGER_TOO_LARGE'')
       else Inr (Some (Text (t @ line))))
   | None \<Rightarrow> (if MAX_LEDGER_BYTES < length line then Inl (WorkQueueError ''LEDGER_TOO_LARGE'') else Inr (Some (Text line)))
   | Some _ \<Rightarrow> unreadable)"

section \<open>Replay\<close>

text \<open>
  \<open>str.upper\<close> below code point 256 where the result is there too; the other code points have no
  bearing on the ASCII prefixes it is compared with.
\<close>

definition upper_char :: "char \<Rightarrow> char" where
  "upper_char c = (let n = char_code c in
     if (97 \<le> n \<and> n \<le> 122) \<or> (224 \<le> n \<and> n \<le> 254 \<and> n \<noteq> 247) then char_of (n - 32) else c)"

definition upper :: "string \<Rightarrow> string" where
  "upper s = map upper_char s"

definition is_failed_result :: "string \<Rightarrow> bool" where
  "is_failed_result result = list_ex (startswith (upper (strip result))) [''FAIL'', ''ABORT'', ''BLOCK'', ''ERROR'']"

definition event_token :: "json \<Rightarrow> bool" where
  "event_token v = (case v of JStr s \<Rightarrow> token_match s \<and> length s \<le> 64 | _ \<Rightarrow> False)"

definition event_time :: "json \<Rightarrow> bool" where
  "event_time v = (case v of JStr s \<Rightarrow> time_match s | _ \<Rightarrow> False)"

definition result_text :: "json \<Rightarrow> bool" where
  "result_text v = (case v of JStr s \<Rightarrow> strip s \<noteq> [] \<and> length s \<le> 200 \<and> no_break s | _ \<Rightarrow> False)"

definition apply_claim :: "work_item \<Rightarrow> payload \<Rightarrow> work_item result" where
  "apply_claim item event =
     (if \<not> event_token (get event ''holder'') \<or> \<not> event_token (get event ''host'') then unreadable
      else if \<not> event_time (get event ''expires_at'') then unreadable
      else Inr (item\<lparr>wi_status := ''CLAIMED'', wi_lease := Some \<lparr>wl_holder = str_of (get event ''holder''),
        wl_host = str_of (get event ''host''), wl_expires_at = str_of (get event ''expires_at'')\<rparr>\<rparr>))"

definition apply_renew :: "work_item \<Rightarrow> payload \<Rightarrow> work_item result" where
  "apply_renew item event = (case (wi_status item = ''CLAIMED'', wi_lease item) of
     (True, Some lease) \<Rightarrow>
       (if JStr (wl_holder lease) \<noteq> get event ''holder'' then Inr item
        else if \<not> event_time (get event ''expires_at'') then unreadable
        else Inr (item\<lparr>wi_lease := Some (lease\<lparr>wl_expires_at := str_of (get event ''expires_at'')\<rparr>)\<rparr>))
   | _ \<Rightarrow> Inr item)"

definition apply_release :: "work_item \<Rightarrow> payload \<Rightarrow> work_item result" where
  "apply_release item event = (case (wi_status item = ''CLAIMED'', wi_lease item) of
     (True, Some lease) \<Rightarrow>
       (if \<not> result_text (get event ''result'') then unreadable
        else if \<not> event_token (get event ''holder'') \<or> JStr (wl_holder lease) \<noteq> get event ''holder'' then Inr item
        else (let result = str_of (get event ''result'') in
          Inr (item\<lparr>wi_status := if is_failed_result result then ''BLOCKED'' else ''DONE'', wi_lease := None,
            wi_result := Some (strip result), wi_released_by := Some (str_of (get event ''holder''))\<rparr>)))
   | _ \<Rightarrow> Inr item)"

text \<open>\<open>items.get(event.get("item_id"))\<close>, which raises \<open>TypeError\<close> for a list or an object.\<close>

definition find_item :: "items \<Rightarrow> json \<Rightarrow> work_item option result" where
  "find_item items v = (case v of
     JStr s \<Rightarrow> Inr (map_of items s)
   | JList _ \<Rightarrow> Inl (TypeError ''unhashable type'')
   | JObj _ \<Rightarrow> Inl (TypeError ''unhashable type'')
   | _ \<Rightarrow> Inr None)"

definition wq_apply :: "items \<Rightarrow> payload \<Rightarrow> items result" where
  "wq_apply items event = bind_result (find_item items (get event ''item_id'')) (\<lambda>found. case found of
     None \<Rightarrow> Inr items
   | Some item \<Rightarrow>
       (if wi_status item \<in> {''DONE'', ''BLOCKED''} then Inr items
        else bind_result
          (if get event ''type'' = JStr ''CLAIM'' then apply_claim item event
           else if get event ''type'' = JStr ''RENEW'' then apply_renew item event
           else apply_release item event)
          (\<lambda>item'. Inr (AList.update (str_of (get event ''item_id'')) item' items))))"

definition held :: "work_item \<Rightarrow> int \<Rightarrow> bool" where
  "held item moment = (case (wi_status item = ''CLAIMED'', wi_lease item) of
     (True, Some lease) \<Rightarrow> (case parse_time (wl_expires_at lease) of None \<Rightarrow> False | Some e \<Rightarrow> moment < e)
   | _ \<Rightarrow> False)"

definition expire_item :: "int \<Rightarrow> work_item \<Rightarrow> work_item" where
  "expire_item moment item = (if wi_status item = ''CLAIMED'' \<and> \<not> held item moment
     then item\<lparr>wi_status := ''READY'', wi_lease := None\<rparr> else item)"

record queue =
  q_items :: "(string \<times> stored) list option"
  q_ledger :: "stored option"

text \<open>The first two loops of \<open>_effective\<close>: the seeds with the ledger applied.\<close>

definition replayed :: "queue \<Rightarrow> items result" where
  "replayed q = bind_result (load_seeds (q_items q)) (\<lambda>seeds.
     bind_result (read_ledger (q_ledger q)) (\<lambda>events. fold_result wq_apply seeds events))"

definition effective :: "queue \<Rightarrow> int \<Rightarrow> items result" where
  "effective q moment = bind_result (replayed q) (\<lambda>items. Inr (map (\<lambda>(k, item). (k, expire_item moment item)) items))"

section \<open>Arguments\<close>

definition require_token :: "json \<Rightarrow> string \<Rightarrow> string result" where
  "require_token v code = (case v of
     JStr s \<Rightarrow> if token_match s \<and> length s \<le> 64 then Inr s else Inl (WorkQueueError code)
   | _ \<Rightarrow> Inl (WorkQueueError code))"

definition require_ttl :: "json \<Rightarrow> int result" where
  "require_ttl v = (case v of
     JInt n \<Rightarrow> if 1 \<le> n \<and> n \<le> MAX_TTL_SECONDS then Inr n else Inl (WorkQueueError ''TTL'')
   | _ \<Rightarrow> Inl (WorkQueueError ''TTL''))"

definition require_result :: "json \<Rightarrow> string result" where
  "require_result v = (case v of
     JStr s \<Rightarrow> if result_text v then Inr (strip s) else Inl (WorkQueueError ''RESULT'')
   | _ \<Rightarrow> Inl (WorkQueueError ''RESULT''))"

text \<open>The \<open>now\<close> argument: absent, a \<open>datetime\<close> with or without a time zone, or something else.\<close>

datatype now_arg = Unset | Aware int | Naive | NoDatetime

definition wq_now :: "int \<Rightarrow> now_arg \<Rightarrow> int result" where
  "wq_now clock v = (case v of Unset \<Rightarrow> Inr clock | Aware t \<Rightarrow> Inr t | _ \<Rightarrow> Inl (WorkQueueError ''CLOCK''))"

section \<open>Claimability\<close>

definition claimable_status :: "work_item \<Rightarrow> int \<Rightarrow> bool" where
  "claimable_status item moment \<longleftrightarrow> wi_status item = ''READY'' \<or> wi_status item = ''CLAIMED'' \<and> \<not> held item moment"

definition dep_met :: "items \<Rightarrow> string list \<Rightarrow> string list \<Rightarrow> string \<Rightarrow> bool" where
  "dep_met items done drafts dep = (if dep \<in> set drafts then False
     else case map_of items dep of Some other \<Rightarrow> wi_status other = ''DONE'' | None \<Rightarrow> dep \<in> set done)"

definition deps_met :: "work_item \<Rightarrow> items \<Rightarrow> string list \<Rightarrow> string list \<Rightarrow> bool" where
  "deps_met item items done drafts = list_all (dep_met items done drafts) (wi_depends_on item)"

definition blocked_by_scope :: "work_item \<Rightarrow> work_item list \<Rightarrow> string list \<Rightarrow> bool" where
  "blocked_by_scope item occupied prs =
     (list_ex (\<lambda>other. wi_id other \<noteq> wi_id item \<and> scopes_overlap (wi_files_scope item) (wi_files_scope other)) occupied
      \<or> list_ex (\<lambda>path. list_ex (\<lambda>scope. directory_covers scope path) (wi_files_scope item)) prs)"

definition occupied_items :: "items \<Rightarrow> int \<Rightarrow> work_item list" where
  "occupied_items items moment = filter (\<lambda>item. held item moment) (map snd items)"

section \<open>Operations\<close>

record claim_view =
  cv_item_id :: string
  cv_status :: string
  cv_holder :: string
  cv_host :: string
  cv_expires_at :: string
  cv_idempotent :: bool

definition claim_view_of :: "string \<Rightarrow> wq_lease \<Rightarrow> bool \<Rightarrow> claim_view" where
  "claim_view_of i lease idempotent = \<lparr>cv_item_id = i, cv_status = ''CLAIMED'', cv_holder = wl_holder lease,
     cv_host = wl_host lease, cv_expires_at = wl_expires_at lease, cv_idempotent = idempotent\<rparr>"

text \<open>An operation ends in a view and, unless it was a repetition, one event for the ledger.\<close>

definition commit :: "queue \<Rightarrow> 'v \<times> flat option \<Rightarrow> ('v \<times> queue) result" where
  "commit q d = (case snd d of None \<Rightarrow> Inr (fst d, q)
     | Some ev \<Rightarrow> bind_result (append_event (q_ledger q) ev) (\<lambda>f. Inr (fst d, q\<lparr>q_ledger := f\<rparr>)))"

definition claim_event :: "string \<Rightarrow> string \<Rightarrow> string \<Rightarrow> string \<Rightarrow> string \<Rightarrow> string \<Rightarrow> flat" where
  "claim_event kind i holder host expires at = [(''type'', kind), (''item_id'', i), (''holder'', holder), (''host'', host),
     (''expires_at'', expires), (''at'', at)]"

definition release_event :: "string \<Rightarrow> string \<Rightarrow> string \<Rightarrow> string \<Rightarrow> flat" where
  "release_event i holder result at = [(''type'', ''RELEASE''), (''item_id'', i), (''holder'', holder), (''result'', result),
     (''at'', at)]"

definition claim_decision ::
  "items \<Rightarrow> string \<Rightarrow> string \<Rightarrow> string \<Rightarrow> int \<Rightarrow> int \<Rightarrow> string list \<Rightarrow> string list \<Rightarrow> string list
   \<Rightarrow> (claim_view \<times> flat option) result" where
  "claim_decision items i holder host ttl moment done drafts prs = (case map_of items i of
     None \<Rightarrow> Inl (WorkQueueError ''UNKNOWN_ITEM'')
   | Some current \<Rightarrow>
       (if held current moment then
          (case wi_lease current of
             Some lease \<Rightarrow> if wl_holder lease = holder then Inr (claim_view_of (wi_id current) lease True, None)
               else Inl (WorkQueueError ''DUPLICATE_CLAIM'')
           | None \<Rightarrow> Inl (TypeError ''NoneType''))
        else if \<not> claimable_status current moment \<or> \<not> deps_met current items done drafts
          then Inl (WorkQueueError ''NOT_CLAIMABLE'')
        else if blocked_by_scope current (occupied_items items moment) prs then Inl (WorkQueueError ''SCOPE_OVERLAP'')
        else bind_result (add_seconds moment ttl) (\<lambda>e.
          Inr (claim_view_of (wi_id current) \<lparr>wl_holder = holder, wl_host = host, wl_expires_at = stamp e\<rparr> False,
               Some (claim_event ''CLAIM'' i holder host (stamp e) (stamp moment))))))"

definition wq_claim ::
  "int \<Rightarrow> json \<Rightarrow> json \<Rightarrow> json \<Rightarrow> json \<Rightarrow> now_arg \<Rightarrow> string list \<Rightarrow> string list \<Rightarrow> string list \<Rightarrow> queue
   \<Rightarrow> (claim_view \<times> queue) result" where
  "wq_claim clock item holder ttl host now done_prs open_pr_files draft_prs q =
     bind_result (require_token item ''ITEM'') (\<lambda>i.
     bind_result (require_token holder ''HOLDER'') (\<lambda>h.
     bind_result (require_token host ''HOST'') (\<lambda>hs.
     bind_result (require_ttl ttl) (\<lambda>n.
     bind_result (wq_now clock now) (\<lambda>moment.
     bind_result (effective q moment) (\<lambda>items.
     bind_result (claim_decision items i h hs n moment done_prs draft_prs (map norm_path open_pr_files)) (commit q)))))))"

definition renew_decision ::
  "items \<Rightarrow> string \<Rightarrow> string \<Rightarrow> int \<Rightarrow> int \<Rightarrow> (claim_view \<times> flat option) result" where
  "renew_decision items i holder ttl moment = (case map_of items i of
     None \<Rightarrow> Inl (WorkQueueError ''UNKNOWN_ITEM'')
   | Some current \<Rightarrow> (case (held current moment, wi_lease current) of
       (True, Some lease) \<Rightarrow>
         (if wl_holder lease \<noteq> holder then Inl (WorkQueueError ''NOT_HOLDER'')
          else bind_result (add_seconds moment ttl) (\<lambda>e.
            Inr (claim_view_of (wi_id current) (lease\<lparr>wl_expires_at := stamp e\<rparr>) False,
                 Some (claim_event ''RENEW'' i holder (wl_host lease) (stamp e) (stamp moment)))))
     | _ \<Rightarrow> Inl (WorkQueueError ''NOT_HOLDER'')))"

definition wq_renew :: "int \<Rightarrow> json \<Rightarrow> json \<Rightarrow> json \<Rightarrow> now_arg \<Rightarrow> queue \<Rightarrow> (claim_view \<times> queue) result" where
  "wq_renew clock item holder ttl now q =
     bind_result (require_token item ''ITEM'') (\<lambda>i.
     bind_result (require_token holder ''HOLDER'') (\<lambda>h.
     bind_result (require_ttl ttl) (\<lambda>n.
     bind_result (wq_now clock now) (\<lambda>moment.
     bind_result (effective q moment) (\<lambda>items.
     bind_result (renew_decision items i h n moment) (commit q))))))"

record release_view =
  rv_item_id :: string
  rv_status :: string
  rv_result :: string
  rv_idempotent :: bool

definition release_decision ::
  "items \<Rightarrow> string \<Rightarrow> string \<Rightarrow> string \<Rightarrow> int \<Rightarrow> (release_view \<times> flat option) result" where
  "release_decision items i holder result moment = (case map_of items i of
     None \<Rightarrow> Inl (WorkQueueError ''UNKNOWN_ITEM'')
   | Some current \<Rightarrow>
       (if wi_status current \<in> {''DONE'', ''BLOCKED''} \<and> wi_result current = Some result \<and> wi_released_by current = Some holder
        then Inr (\<lparr>rv_item_id = i, rv_status = wi_status current, rv_result = result, rv_idempotent = True\<rparr>, None)
        else if wi_status current = ''DONE'' then Inl (WorkQueueError ''ALREADY_DONE'')
        else if wi_status current = ''BLOCKED'' then Inl (WorkQueueError ''NOT_CLAIMABLE'')
        else (case (held current moment, wi_lease current) of
          (True, Some lease) \<Rightarrow>
            (if wl_holder lease \<noteq> holder then Inl (WorkQueueError ''NOT_HOLDER'')
             else Inr (\<lparr>rv_item_id = i, rv_status = if is_failed_result result then ''BLOCKED'' else ''DONE'',
                 rv_result = result, rv_idempotent = False\<rparr>,
               Some (release_event i holder result (stamp moment))))
        | _ \<Rightarrow> Inl (WorkQueueError ''NOT_HOLDER''))))"

definition wq_release :: "int \<Rightarrow> json \<Rightarrow> json \<Rightarrow> json \<Rightarrow> now_arg \<Rightarrow> queue \<Rightarrow> (release_view \<times> queue) result" where
  "wq_release clock item holder result now q =
     bind_result (require_token item ''ITEM'') (\<lambda>i.
     bind_result (require_token holder ''HOLDER'') (\<lambda>h.
     bind_result (require_result result) (\<lambda>r.
     bind_result (wq_now clock now) (\<lambda>moment.
     bind_result (effective q moment) (\<lambda>items.
     bind_result (release_decision items i h r moment) (commit q))))))"

record public_item =
  pi_id :: string
  pi_title :: string
  pi_lane :: string
  pi_branch :: string
  pi_files_scope :: "string list"
  pi_depends_on :: "string list"
  pi_acceptance :: "string list"
  pi_provider_hints :: "string list"
  pi_status :: string
  pi_lease :: "wq_lease option"

definition public :: "work_item \<Rightarrow> public_item" where
  "public item = \<lparr>pi_id = wi_id item, pi_title = wi_title item, pi_lane = wi_lane item, pi_branch = wi_branch item,
     pi_files_scope = wi_files_scope item, pi_depends_on = wi_depends_on item, pi_acceptance = wi_acceptance item,
     pi_provider_hints = wi_provider_hints item, pi_status = wi_status item, pi_lease = wi_lease item\<rparr>"

definition ready_items :: "items \<Rightarrow> int \<Rightarrow> string list \<Rightarrow> string list \<Rightarrow> string list \<Rightarrow> work_item list" where
  "ready_items items moment done drafts prs = filter (\<lambda>item. claimable_status item moment \<and> deps_met item items done drafts
     \<and> \<not> blocked_by_scope item (occupied_items items moment) prs) (map snd items)"

definition list_ready ::
  "int \<Rightarrow> string list \<Rightarrow> string list \<Rightarrow> string list \<Rightarrow> now_arg \<Rightarrow> queue \<Rightarrow> public_item list result" where
  "list_ready clock open_pr_files done_prs draft_prs now q =
     bind_result (wq_now clock now) (\<lambda>moment.
     bind_result (effective q moment) (\<lambda>items.
       Inr (sort_key pi_id (map public (ready_items items moment done_prs draft_prs (map norm_path open_pr_files))))))"

definition wq_items :: "int \<Rightarrow> now_arg \<Rightarrow> queue \<Rightarrow> public_item list result" where
  "wq_items clock now q = bind_result (wq_now clock now) (\<lambda>moment.
     bind_result (effective q moment) (\<lambda>items. Inr (map public (sort_key wi_id (map snd items)))))"

definition join_with :: "string \<Rightarrow> string list \<Rightarrow> string" where
  "join_with sep xs = (case xs of [] \<Rightarrow> [] | x # rest \<Rightarrow> x @ concat (map (\<lambda>y. sep @ y) rest))"

definition or_none :: "string \<Rightarrow> string" where
  "or_none s = (if s = [] then ''none'' else s)"

definition LF :: string where "LF = [CHR 0x0A]"

definition render_prompt :: "public_item \<Rightarrow> string \<Rightarrow> string" where
  "render_prompt item holder = (let bullets = (\<lambda>xs. join_with LF (map (\<lambda>x. ''- '' @ x) xs)) in
     ''id: '' @ pi_id item @ LF @ ''title: '' @ pi_title item @ LF @ ''lane: '' @ pi_lane item @ LF
     @ ''branch: '' @ pi_branch item @ LF @ ''holder: '' @ holder @ LF
     @ ''depends_on: '' @ or_none (join_with '', '' (pi_depends_on item)) @ LF
     @ ''provider_hints: '' @ or_none (join_with '', '' (pi_provider_hints item)) @ LF
     @ ''files_scope:'' @ LF @ bullets (pi_files_scope item) @ LF @ ''acceptance:'' @ LF @ bullets (pi_acceptance item) @ LF
     @ ''---'' @ LF @ ''Work item '' @ pi_id item @ '' only. Branch '' @ pi_branch item @ ''.'' @ LF
     @ ''Write only paths that match files_scope. Do not edit other files.'' @ LF
     @ ''Acceptance is the list above. Claim the item before writing, then release it with the result.'' @ LF)"

end
