(* ===== verification/Refinement.thy ===== *)
theory Refinement
  imports Main
begin

text \<open>
  Forward simulation between a concrete component, whose requests are functions on its state, and
  an abstract step relation. What every abstract step keeps holds after any sequence of concrete
  requests. The locale is interpreted by the components whose contract is an abstract machine.
\<close>

locale simulation =
  fixes rel :: "'c \<Rightarrow> 'a \<Rightarrow> bool"
    and cstep :: "'r \<Rightarrow> 'c \<Rightarrow> 'c"
    and astep :: "'r \<Rightarrow> 'a \<Rightarrow> 'a \<Rightarrow> bool"
    and legal :: "'r \<Rightarrow> bool"
  assumes simulates: "rel c a \<Longrightarrow> legal r \<Longrightarrow> \<exists>a'. rel (cstep r c) a' \<and> astep r a a'"
begin

text \<open>An invariant may mention a ghost value that each request moves on, such as the last clock reading.\<close>

fun run_ok :: "('g \<Rightarrow> 'r \<Rightarrow> bool) \<Rightarrow> ('g \<Rightarrow> 'r \<Rightarrow> 'g) \<Rightarrow> 'g \<Rightarrow> 'r list \<Rightarrow> bool" where
  "run_ok ok nxt g [] = True"
| "run_ok ok nxt g (r # rs) = (legal r \<and> ok g r \<and> run_ok ok nxt (nxt g r) rs)"

lemma run_keeps:
  assumes "rel c a" "Q g a" "run_ok ok nxt g rs"
    and step: "\<And>g r a a'. Q g a \<Longrightarrow> ok g r \<Longrightarrow> legal r \<Longrightarrow> astep r a a' \<Longrightarrow> Q (nxt g r) a'"
  shows "\<exists>a'. rel (fold cstep rs c) a' \<and> Q (foldl nxt g rs) a'"
  using assms(1-3)
proof (induction rs arbitrary: c a g)
  case (Cons r rs)
  then have r: "legal r" "ok g r" "run_ok ok nxt (nxt g r) rs" by simp_all
  obtain a' where a': "rel (cstep r c) a'" "astep r a a'" using simulates [OF Cons.prems(1) r(1)] by blast
  have "Q (nxt g r) a'" using step [OF Cons.prems(2) r(2,1) a'(2)] .
  from Cons.IH [OF a'(1) this r(3)] show ?case by simp
qed auto

lemma run_invariant:
  assumes "rel c a" "I a" "list_all legal rs" "\<And>r a a'. r \<in> set rs \<Longrightarrow> I a \<Longrightarrow> astep r a a' \<Longrightarrow> I a'"
  shows "\<exists>a'. rel (fold cstep rs c) a' \<and> I a'"
  using assms
proof (induction rs arbitrary: c a)
  case (Cons r rs)
  obtain a' where a': "rel (cstep r c) a'" "astep r a a'" using simulates [OF Cons.prems(1), of r] Cons.prems(3) by auto
  have "I a'" using Cons.prems(4) [of r a a'] Cons.prems(2) a'(2) by simp
  moreover have "I b'" if "q \<in> set rs" "I b" "astep q b b'" for q b b' using Cons.prems(4) [of q b b'] that by simp
  ultimately show ?case using Cons.IH [OF a'(1)] Cons.prems(3) by simp
qed auto

end

end
