(* ===== verification/Work_Queue_Safety.thy ===== *)
theory Work_Queue_Safety
  imports Work_Queue Refinement
begin

text \<open>
  What the work queue guarantees. An abstract step relation on the replayed items says what a
  claim, a renewal and a release may change; every operation on the stored files refines it. The
  guarantees are proved of the relation and carried over to any sequence of requests.
\<close>

section \<open>Appending and replaying\<close>

text \<open>A ledger an event can be appended to: none yet, or a text of complete lines.\<close>

definition ledger_open :: "stored option \<Rightarrow> bool" where
  "ledger_open f \<longleftrightarrow> f = None \<or> (\<exists>t. f = Some (Text t) \<and> (t = [] \<or> last t = CHR 0x0A))"

lemma ledger_events_append:
  "ledger_events (xs @ ys) = bind_result (ledger_events xs) (\<lambda>es. bind_result (ledger_events ys) (\<lambda>fs. Inr (es @ fs)))"
  by (induction xs) (auto simp: bind_result_assoc bind_result_right)

definition event_of :: "flat \<Rightarrow> payload" where
  "event_of ev = flat_json (sort_key fst ev)"

lemma get_event_of: "distinct (map fst ev) \<Longrightarrow> get (event_of ev) k = (case map_of ev k of None \<Rightarrow> JNull | Some v \<Rightarrow> JStr v)"
proof -
  assume d: "distinct (map fst ev)"
  have "distinct (map fst (sort_key fst ev))"
    using d by (metis mset_eq_imp_distinct_iff mset_map mset_sort)
  then have "map_of (sort_key fst ev) = map_of ev" using d by (intro map_of_inject_set [THEN iffD2]) simp_all
  moreover have "map_of (map (apsnd JStr) kvs) k = map_option JStr (map_of kvs k)" for kvs :: flat
    by (induction kvs) auto
  ultimately show ?thesis by (auto simp: get_def event_of_def flat_json_def split: option.splits)
qed

definition legal_event :: "flat \<Rightarrow> bool" where
  "legal_event ev \<longleftrightarrow> ev \<noteq> [] \<and> distinct (map fst ev) \<and> get (event_of ev) ''type'' \<in> JStr ` set LEDGER_TYPES"

lemma read_line: "legal_event ev \<Longrightarrow> ledger_events (split_lines [] (event_line ev @ [CHR 0x0A])) = Inr [event_of ev]"
  using split_lines_one [OF event_line_no_break, of "[]" ev] loads_event_line [of ev] event_line_not_blank [of ev]
  by (simp add: legal_event_def ledger_event_def event_of_def)

lemma append_read:
  assumes "ledger_open f" "read_ledger f = Inr es" "legal_event ev" "append_event f ev = Inr f'"
  shows "read_ledger f' = Inr (es @ [event_of ev]) \<and> ledger_open f'"
proof (cases f)
  case None
  with assms read_line [OF assms(3)] show ?thesis
    by (auto simp: append_event_def read_ledger_def ledger_open_def Let_def split: if_splits)
next
  case (Some s)
  with assms(1) obtain t where t: "f = Some (Text t)" "t = [] \<or> last t = CHR 0x0A" by (auto simp: ledger_open_def)
  let ?line = "event_line ev @ [CHR 0x0A]"
  from assms(4) t have f': "f' = Some (Text (t @ ?line))" "length (t @ ?line) \<le> MAX_LEDGER_BYTES"
    by (auto simp: append_event_def Let_def split: if_splits)
  have es: "ledger_events (split_lines [] t) = Inr es"
    using assms(2) t by (auto simp: read_ledger_def split: if_splits)
  have "split_lines [] (t @ ?line) = split_lines [] t @ split_lines [] ?line"
  proof (cases "t = []")
    case False
    with t(2) obtain u where u: "t = u @ [CHR 0x0A]" by (metis append_butlast_last_id)
    show ?thesis using split_lines_append [of "[]" u ?line] by (simp add: u)
  qed simp
  with f' es read_line [OF assms(3)] show ?thesis
    by (simp add: read_ledger_def ledger_events_append ledger_open_def)
qed

section \<open>Well-formed items\<close>

definition wf_item :: "string \<Rightarrow> work_item \<Rightarrow> bool" where
  "wf_item k item \<longleftrightarrow> wi_id item = k \<and> (wi_status item = ''CLAIMED'' \<longleftrightarrow> wi_lease item \<noteq> None)"

definition wf_items :: "items \<Rightarrow> bool" where
  "wf_items items \<longleftrightarrow> dict_wf items \<and> (\<forall>k item. map_of items k = Some item \<longrightarrow> wf_item k item)"

lemma wf_items_update: "wf_items items \<Longrightarrow> wf_item k item \<Longrightarrow> wf_items (AList.update k item items)"
  by (auto simp: wf_items_def)

lemma load_seed_wf: "wf_items found \<Longrightarrow> load_seed found p = Inr found' \<Longrightarrow> wf_items found'"
  by (auto simp: load_seed_def bind_result_eq_Inr Let_def wf_item_def unreadable_def intro!: wf_items_update
      split: stored.splits if_splits)

interpretation seeds: invariant_step load_seed "\<lambda>_. True" wf_items
  by unfold_locales (auto intro: load_seed_wf)

lemma load_seeds_wf: "load_seeds dir = Inr seeds \<Longrightarrow> wf_items seeds"
  using seeds.fold_inv [of "[]"]
  by (auto simp: load_seeds_def bind_result_eq_Inr unreadable_def wf_items_def split: option.splits if_splits)

lemma apply_item_wf:
  "wf_item k item \<Longrightarrow> apply_claim item e = Inr item' \<Longrightarrow> wf_item k item'"
  "wf_item k item \<Longrightarrow> apply_renew item e = Inr item' \<Longrightarrow> wf_item k item'"
  "wf_item k item \<Longrightarrow> apply_release item e = Inr item' \<Longrightarrow> wf_item k item'"
  by (auto simp: wf_item_def apply_claim_def apply_renew_def apply_release_def unreadable_def Let_def
      split: if_splits option.splits bool.splits)

lemma wq_apply_wf: "wf_items items \<Longrightarrow> wq_apply items e = Inr items' \<Longrightarrow> wf_items items'"
proof -
  assume wf: "wf_items items" and a: "wq_apply items e = Inr items'"
  show ?thesis
  proof (cases "get e ''item_id''")
    case (JStr k)
    show ?thesis
    proof (cases "map_of items k")
      case (Some item)
      then have "wf_item k item" using wf by (simp add: wf_items_def)
      with a JStr Some wf show ?thesis
        by (auto simp: wq_apply_def find_item_def bind_result_eq_Inr str_of_def intro!: wf_items_update
            split: if_splits dest: apply_item_wf)
    qed (use a JStr wf in \<open>simp add: wq_apply_def find_item_def\<close>)
  qed (use a wf in \<open>simp_all add: wq_apply_def find_item_def\<close>)
qed

interpretation replay: invariant_step wq_apply "\<lambda>_. True" wf_items
  by unfold_locales (auto intro: wq_apply_wf)

lemma replayed_wf: "replayed q = Inr items \<Longrightarrow> wf_items items"
  by (auto simp: replayed_def bind_result_eq_Inr intro: replay.fold_inv load_seeds_wf)

lemma replayed_commit:
  assumes "replayed q = Inr items" "ledger_open (q_ledger q)" "legal_event ev" "append_event (q_ledger q) ev = Inr f"
  shows "replayed (q\<lparr>q_ledger := f\<rparr>) = wq_apply items (event_of ev) \<and> ledger_open f"
proof -
  from assms(1) obtain seeds es where "load_seeds (q_items q) = Inr seeds" "read_ledger (q_ledger q) = Inr es"
    "fold_result wq_apply seeds es = Inr items" by (auto simp: replayed_def bind_result_eq_Inr)
  with append_read [OF assms(2) _ assms(3,4)] show ?thesis by (simp add: replayed_def fold_result_snoc)
qed

section \<open>The abstract queue\<close>

datatype action = Nothing | ClaimBy string string | RenewBy string string | ReleaseBy string string

definition expires :: "string \<Rightarrow> int \<Rightarrow> bool" where
  "expires text e \<longleftrightarrow> parse_time text = Some e"

text \<open>
  What a step at moment \<open>t\<close> may do to the items: a claim of an item nobody holds, with no held item
  in its scope; a renewal or a release by the holder of a lease that has not expired.
\<close>

inductive queue_step :: "int \<Rightarrow> action \<Rightarrow> items \<Rightarrow> items \<Rightarrow> bool" for t :: int where
  nothing: "queue_step t Nothing items items"
| claim: "map_of items i = Some item \<Longrightarrow> wi_status item \<in> {''READY'', ''CLAIMED''} \<Longrightarrow> \<not> held item t \<Longrightarrow>
    (\<And>j other. map_of items j = Some other \<Longrightarrow> j \<noteq> i \<Longrightarrow> held other t \<Longrightarrow>
      \<not> scopes_overlap (wi_files_scope item) (wi_files_scope other)) \<Longrightarrow>
    expires e x \<Longrightarrow> t < x \<Longrightarrow>
    queue_step t (ClaimBy i h) items (AList.update i (item\<lparr>wi_status := ''CLAIMED'',
      wi_lease := Some \<lparr>wl_holder = h, wl_host = host, wl_expires_at = e\<rparr>\<rparr>) items)"
| renew: "map_of items i = Some item \<Longrightarrow> held item t \<Longrightarrow> wi_lease item = Some lease \<Longrightarrow> wl_holder lease = h \<Longrightarrow>
    expires e x \<Longrightarrow> t < x \<Longrightarrow>
    queue_step t (RenewBy i h) items (AList.update i (item\<lparr>wi_lease := Some (lease\<lparr>wl_expires_at := e\<rparr>)\<rparr>) items)"
| release: "map_of items i = Some item \<Longrightarrow> held item t \<Longrightarrow> wi_lease item = Some lease \<Longrightarrow> wl_holder lease = h \<Longrightarrow>
    queue_step t (ReleaseBy i h) items (AList.update i (item\<lparr>wi_status := if is_failed_result r then ''BLOCKED'' else ''DONE'',
      wi_lease := None, wi_result := Some r, wi_released_by := Some h\<rparr>) items)"

inductive_cases queue_stepE: "queue_step t a items items'"

lemma heldD: "held item t \<Longrightarrow> wi_status item = ''CLAIMED'' \<and> (\<exists>l e. wi_lease item = Some l \<and> expires (wl_expires_at l) e \<and> t < e)"
  by (auto simp: held_def expires_def split: bool.splits option.splits)

lemma held_iff: "wi_status item = ''CLAIMED'' \<Longrightarrow> wi_lease item = Some l \<Longrightarrow> held item t \<longleftrightarrow> (\<exists>e. expires (wl_expires_at l) e \<and> t < e)"
  by (auto simp: held_def expires_def split: option.splits)

lemma held_earlier: "held item t' \<Longrightarrow> t \<le> t' \<Longrightarrow> held item t"
  by (auto simp: held_def split: bool.splits option.splits)

subsection \<open>Held items never overlap\<close>

definition conflict_free :: "items \<Rightarrow> int \<Rightarrow> bool" where
  "conflict_free items t \<longleftrightarrow> (\<forall>i j a b. map_of items i = Some a \<longrightarrow> map_of items j = Some b \<longrightarrow> i \<noteq> j \<longrightarrow>
     held a t \<longrightarrow> held b t \<longrightarrow> \<not> scopes_overlap (wi_files_scope a) (wi_files_scope b))"

lemma conflict_free_later: "conflict_free items t \<Longrightarrow> t \<le> t' \<Longrightarrow> conflict_free items t'"
  unfolding conflict_free_def by (meson held_earlier)

lemma conflict_free_update:
  assumes "conflict_free items t"
    and "\<And>j b. map_of items j = Some b \<Longrightarrow> j \<noteq> i \<Longrightarrow> held b t \<Longrightarrow> held a t \<Longrightarrow>
      \<not> scopes_overlap (wi_files_scope a) (wi_files_scope b)"
  shows "conflict_free (AList.update i a items) t"
  using assms scopes_overlap_sym unfolding conflict_free_def by (simp split: if_splits)

lemma conflict_free_step: "queue_step t a items items' \<Longrightarrow> conflict_free items t \<Longrightarrow> conflict_free items' t"
proof (induction rule: queue_step.induct)
  case (claim items i item e x h host)
  then show ?case by (intro conflict_free_update) auto
next
  case (renew items i item lease h e x)
  then show ?case by (intro conflict_free_update) (auto simp: conflict_free_def)
next
  case (release items i item lease h r)
  then show ?case by (intro conflict_free_update) (auto dest: heldD)
qed simp

subsection \<open>A lease excludes the others; a released item is final\<close>

lemma lease_step:
  assumes "queue_step t a items items'" "map_of items i = Some item" "held item t" "wi_lease item = Some l"
    and "a \<noteq> RenewBy i (wl_holder l)" "a \<noteq> ReleaseBy i (wl_holder l)"
  shows "map_of items' i = Some item"
  using assms by (cases rule: queue_step.cases) auto

lemma final_step:
  assumes "queue_step t a items items'" "map_of items i = Some item" "wi_status item \<in> {''DONE'', ''BLOCKED''}"
  shows "map_of items' i = Some item"
  using assms by (cases rule: queue_step.cases) (auto dest: heldD)

section \<open>The operations refine the abstract queue\<close>

text \<open>Clock readings in the years 1000 to 9999, with room for the longest lease.\<close>

definition operating_time :: "int \<Rightarrow> bool" where
  "operating_time t \<longleftrightarrow> printable t \<and> printable (t + MAX_TTL_SECONDS * MICROS_PER_SECOND)"

lemma operating_expiry:
  assumes "operating_time t" "1 \<le> n" "n \<le> MAX_TTL_SECONDS"
  shows "\<exists>e x. add_seconds t n = Inr e \<and> expires (stamp e) x \<and> t < x \<and> x \<le> t + n * MICROS_PER_SECOND \<and> time_match (stamp e)"
proof -
  define e where "e = t + n * MICROS_PER_SECOND"
  have n: "MICROS_PER_SECOND \<le> n * MICROS_PER_SECOND" "n * MICROS_PER_SECOND \<le> MAX_TTL_SECONDS * MICROS_PER_SECOND"
    using assms(2,3) by (simp_all add: MICROS_PER_SECOND_def)
  have e: "printable e" using assms(1) n by (auto simp: operating_time_def printable_def in_range_def e_def MICROS_PER_SECOND_def)
  then have p: "parse_time (stamp e) = Some (whole_second e)" by (rule parse_stamp)
  moreover have "t < whole_second e" "whole_second e \<le> e"
    using n(1) pos_mod_bound [of MICROS_PER_SECOND e] pos_mod_sign [of MICROS_PER_SECOND e]
    by (auto simp: whole_second_def e_def MICROS_PER_SECOND_def)
  moreover have "add_seconds t n = Inr e" using e by (simp add: add_seconds_def printable_def e_def)
  moreover have "time_match (stamp e)" using p by (simp add: parse_time_def split: if_splits)
  ultimately show ?thesis by (auto simp: expires_def e_def)
qed

lemma map_of_effective:
  "replayed q = Inr items \<Longrightarrow> \<exists>es. effective q t = Inr es \<and> (\<forall>i. map_of es i = map_option (expire_item t) (map_of items i))
     \<and> map snd es = map (expire_item t) (map snd items)"
  by (auto simp: effective_def map_of_map)

lemma expire_item_simps [simp]:
  "wi_id (expire_item t item) = wi_id item" "wi_files_scope (expire_item t item) = wi_files_scope item"
  "wi_depends_on (expire_item t item) = wi_depends_on item"
  by (simp_all add: expire_item_def)

lemma held_expire [simp]: "held (expire_item t item) t \<longleftrightarrow> held item t"
  by (auto simp: expire_item_def held_def)

lemma expire_held: "held item t \<Longrightarrow> expire_item t item = item"
  by (simp add: expire_item_def)

lemma expire_status: "wi_status (expire_item t item) \<in> {''DONE'', ''BLOCKED''} \<longleftrightarrow> wi_status item \<in> {''DONE'', ''BLOCKED''}"
  by (auto simp: expire_item_def)

lemma expire_claimable:
  "claimable_status (expire_item t item) t \<Longrightarrow> wi_status item \<in> {''READY'', ''CLAIMED''} \<and> \<not> held item t"
  by (auto simp: claimable_status_def expire_item_def dest: heldD split: if_splits)

datatype wq_request =
    ClaimReq json json json json "string list" "string list" "string list"
  | RenewReq json json json
  | ReleaseReq json json json

text \<open>A request at moment \<open>t\<close>; a refused one leaves the files as they are.\<close>

definition after :: "('v \<times> queue) result \<Rightarrow> queue \<Rightarrow> queue" where
  "after r q = (case r of Inl _ \<Rightarrow> q | Inr (_, q') \<Rightarrow> q')"

fun wq_step :: "int \<times> wq_request \<Rightarrow> queue \<Rightarrow> queue" where
  "wq_step (t, ClaimReq item holder ttl host done prs drafts) q = after (wq_claim t item holder ttl host (Aware t) done prs drafts q) q"
| "wq_step (t, RenewReq item holder ttl) q = after (wq_renew t item holder ttl (Aware t) q) q"
| "wq_step (t, ReleaseReq item holder res) q = after (wq_release t item holder res (Aware t) q) q"

definition queue_of :: "queue \<Rightarrow> items \<Rightarrow> bool" where
  "queue_of q items \<longleftrightarrow> replayed q = Inr items \<and> ledger_open (q_ledger q)"

fun may_act :: "wq_request \<Rightarrow> action \<Rightarrow> bool" where
  "may_act _ Nothing = True"
| "may_act (ClaimReq item holder _ _ _ _ _) (ClaimBy i h) = (item = JStr i \<and> holder = JStr h)"
| "may_act (RenewReq item holder _) (RenewBy i h) = (item = JStr i \<and> holder = JStr h)"
| "may_act (ReleaseReq item holder _) (ReleaseBy i h) = (item = JStr i \<and> holder = JStr h)"
| "may_act _ _ = False"

lemma require_tokenD: "require_token v code = Inr s \<Longrightarrow> v = JStr s \<and> event_token (JStr s)"
  by (auto simp: require_token_def event_token_def split: json.splits if_splits)

lemma require_ttlD: "require_ttl v = Inr n \<Longrightarrow> 1 \<le> n \<and> n \<le> MAX_TTL_SECONDS"
  by (auto simp: require_ttl_def split: json.splits if_splits)

lemma commit_Some: "commit q (v, Some ev) = Inr (w, q') \<Longrightarrow> \<exists>f. append_event (q_ledger q) ev = Inr f \<and> w = v \<and> q' = q\<lparr>q_ledger := f\<rparr>"
  by (auto simp: commit_def bind_result_eq_Inr)

lemma commit_None: "commit q (v, None) = Inr (w, q') \<Longrightarrow> w = v \<and> q' = q"
  by (auto simp: commit_def)

lemma claim_event_get:
  "get (event_of (claim_event kind i h host e at)) ''type'' = JStr kind"
  "get (event_of (claim_event kind i h host e at)) ''item_id'' = JStr i"
  "get (event_of (claim_event kind i h host e at)) ''holder'' = JStr h"
  "get (event_of (claim_event kind i h host e at)) ''host'' = JStr host"
  "get (event_of (claim_event kind i h host e at)) ''expires_at'' = JStr e"
  by (simp_all add: get_event_of claim_event_def)

lemma release_event_get:
  "get (event_of (release_event i h r at)) ''type'' = JStr ''RELEASE''"
  "get (event_of (release_event i h r at)) ''item_id'' = JStr i"
  "get (event_of (release_event i h r at)) ''holder'' = JStr h"
  "get (event_of (release_event i h r at)) ''result'' = JStr r"
  by (simp_all add: get_event_of release_event_def)

lemma legal_claim_event: "kind \<in> set LEDGER_TYPES \<Longrightarrow> legal_event (claim_event kind i h host e at)"
  by (simp add: legal_event_def claim_event_get) (simp add: claim_event_def)

lemma legal_release_event: "legal_event (release_event i h r at)"
  by (simp add: legal_event_def release_event_get LEDGER_TYPES_def) (simp add: release_event_def)

lemma claim_decisionD:
  assumes "replayed q = Inr items" "effective q t = Inr es" "claim_decision es i h host n t done drafts prs = Inr (v, d)"
  obtains item where "map_of items i = Some item" "held item t" "d = None"
      "\<exists>l. wi_lease item = Some l \<and> wl_holder l = h \<and> v = claim_view_of i l True"
    | item e where "map_of items i = Some item" "wi_status item \<in> {''READY'', ''CLAIMED''}" "\<not> held item t"
      "deps_met item es done drafts" "\<not> blocked_by_scope item (occupied_items es t) prs"
      "add_seconds t n = Inr e" "d = Some (claim_event ''CLAIM'' i h host (stamp e) (stamp t))"
      "v = claim_view_of i \<lparr>wl_holder = h, wl_host = host, wl_expires_at = stamp e\<rparr> False"
proof -
  have es: "map_of es i = map_option (expire_item t) (map_of items i)" using map_of_effective [OF assms(1), of t] assms(2) by auto
  from assms(3) es obtain item where item: "map_of items i = Some item" "map_of es i = Some (expire_item t item)"
    by (auto simp: claim_decision_def split: option.splits)
  have id: "wi_id item = i" using replayed_wf [OF assms(1)] item(1) by (simp add: wf_items_def wf_item_def)
  show thesis
  proof (cases "held item t")
    case True
    then show thesis using assms(3) item id expire_held [OF True]
      by (intro that(1) [OF item(1) True]) (auto simp: claim_decision_def split: option.splits if_splits)
  next
    case False
    with assms(3) item(2) have c: "claimable_status (expire_item t item) t" "deps_met (expire_item t item) es done drafts"
      "\<not> blocked_by_scope (expire_item t item) (occupied_items es t) prs"
      and r: "bind_result (add_seconds t n) (\<lambda>e. Inr (claim_view_of (wi_id (expire_item t item))
          \<lparr>wl_holder = h, wl_host = host, wl_expires_at = stamp e\<rparr> False,
        Some (claim_event ''CLAIM'' i h host (stamp e) (stamp t)))) = Inr (v, d)"
      by (auto simp: claim_decision_def split: if_splits)
    from r obtain e where e: "add_seconds t n = Inr e" "d = Some (claim_event ''CLAIM'' i h host (stamp e) (stamp t))"
      "v = claim_view_of i \<lparr>wl_holder = h, wl_host = host, wl_expires_at = stamp e\<rparr> False"
      by (auto simp: bind_result_eq_Inr id)
    show thesis using expire_claimable [OF c(1)] c(2,3) e
      by (intro that(2) [OF item(1)]) (auto simp: deps_met_def blocked_by_scope_def)
  qed
qed

lemma occupied_mem:
  assumes "replayed q = Inr items" "effective q t = Inr es" "map_of items j = Some other" "held other t"
  shows "other \<in> set (occupied_items es t)"
proof -
  have "other \<in> set (map snd items)" using assms(3) by (force dest: map_of_SomeD)
  then have "expire_item t other \<in> set (map snd es)" using map_of_effective [OF assms(1), of t] assms(2) by auto
  with assms(4) show ?thesis by (simp add: occupied_items_def expire_held)
qed

lemma apply_claim_event:
  assumes "map_of items i = Some item" "wi_status item \<in> {''READY'', ''CLAIMED''}"
    and "event_token (JStr h)" "event_token (JStr host)" "time_match e"
  shows "wq_apply items (event_of (claim_event ''CLAIM'' i h host e at)) = Inr (AList.update i (item\<lparr>wi_status := ''CLAIMED'',
      wi_lease := Some \<lparr>wl_holder = h, wl_host = host, wl_expires_at = e\<rparr>\<rparr>) items)"
  using assms by (auto simp: wq_apply_def claim_event_get find_item_def apply_claim_def event_time_def str_of_def)

lemma claim_outcome:
  assumes q: "queue_of q items" and t: "operating_time t"
    and c: "wq_claim clock item holder ttl host (Aware t) dn prs drafts q = Inr (v, q')"
  obtains (repeated) "q' = q" "cv_idempotent v"
    | (fresh) i h hs it e x where "item = JStr i" "holder = JStr h" "host = JStr hs" "map_of items i = Some it"
      "wi_status it \<in> {''READY'', ''CLAIMED''}" "\<not> held it t"
      "\<And>j other. map_of items j = Some other \<Longrightarrow> j \<noteq> i \<Longrightarrow> held other t \<Longrightarrow>
        \<not> scopes_overlap (wi_files_scope it) (wi_files_scope other)"
      "expires e x" "t < x" "v = claim_view_of i \<lparr>wl_holder = h, wl_host = hs, wl_expires_at = e\<rparr> False"
      "queue_of q' (AList.update i (it\<lparr>wi_status := ''CLAIMED'',
        wi_lease := Some \<lparr>wl_holder = h, wl_host = hs, wl_expires_at = e\<rparr>\<rparr>) items)"
proof -
  from q have R: "replayed q = Inr items" and L: "ledger_open (q_ledger q)" by (simp_all add: queue_of_def)
  from c obtain i h hs n es d where r: "require_token item ''ITEM'' = Inr i" "require_token holder ''HOLDER'' = Inr h"
      "require_token host ''HOST'' = Inr hs" "require_ttl ttl = Inr n" "effective q t = Inr es"
    and d: "claim_decision es i h hs n t dn drafts (map norm_path prs) = Inr d" "commit q d = Inr (v, q')"
    by (auto simp: wq_claim_def wq_now_def bind_result_eq_Inr)
  obtain w ev where D: "d = (w, ev)" by (cases d)
  from R r(5) d(1) [unfolded D] show thesis
  proof (cases rule: claim_decisionD)
    case 1
    with commit_None [of q w v q'] d(2) D show thesis by (intro repeated) (auto simp: claim_view_of_def)
  next
    case (2 it e)
    obtain x where x: "expires (stamp e) x" "t < x" "time_match (stamp e)"
      using operating_expiry [OF t, of n] require_ttlD [OF r(4)] 2(6) by auto
    obtain f where f: "append_event (q_ledger q) (claim_event ''CLAIM'' i h hs (stamp e) (stamp t)) = Inr f"
      "v = w" "q' = q\<lparr>q_ledger := f\<rparr>" using commit_Some [OF d(2) [unfolded D 2(7)]] by blast
    note tok = require_tokenD [OF r(1)] require_tokenD [OF r(2)] require_tokenD [OF r(3)]
    have "legal_event (claim_event ''CLAIM'' i h hs (stamp e) (stamp t))" by (rule legal_claim_event) (simp add: LEDGER_TYPES_def)
    from replayed_commit [OF R L this f(1)] apply_claim_event [OF 2(1,2) _ _ x(3), of h hs "stamp t"] tok
    have q': "queue_of q' (AList.update i (it\<lparr>wi_status := ''CLAIMED'',
        wi_lease := Some \<lparr>wl_holder = h, wl_host = hs, wl_expires_at = stamp e\<rparr>\<rparr>) items)"
      by (simp add: queue_of_def f(3))
    have scope: "\<not> scopes_overlap (wi_files_scope it) (wi_files_scope other)"
      if o: "map_of items j = Some other" "j \<noteq> i" "held other t" for j other
    proof -
      have "wi_id other = j" "wi_id it = i" using replayed_wf [OF R] o(1) 2(1) by (simp_all add: wf_items_def wf_item_def)
      with 2(5) occupied_mem [OF R r(5) o(1,3)] o(2) show ?thesis by (auto simp: blocked_by_scope_def list_ex_iff)
    qed
    show thesis using tok 2(8) f(2) by (intro fresh [OF _ _ _ 2(1-3) scope x(1,2) _ q']) auto
  qed
qed

lemma claim_refines:
  assumes q: "queue_of q items" and t: "operating_time t"
    and c: "wq_claim clock item holder ttl host (Aware t) dn prs drafts q = Inr (v, q')"
  shows "\<exists>a items'. queue_of q' items' \<and> queue_step t a items items' \<and> may_act (ClaimReq item holder ttl host dn prs drafts) a"
  using q t c
proof (cases rule: claim_outcome)
  case repeated
  with q show ?thesis using queue_step.nothing may_act.simps(1) by blast
next
  case (fresh i h hs it e x)
  from queue_step.claim [OF fresh(4-6) fresh(7) fresh(8,9)] fresh(1,2,11) show ?thesis
    by (intro exI [of _ "ClaimBy i h"] exI conjI) auto
qed

lemma apply_renew_event:
  assumes "map_of items i = Some item" "held item t" "wi_lease item = Some l" "time_match e"
  shows "wq_apply items (event_of (claim_event ''RENEW'' i (wl_holder l) host e at))
    = Inr (AList.update i (item\<lparr>wi_lease := Some (l\<lparr>wl_expires_at := e\<rparr>)\<rparr>) items)"
  using assms heldD [OF assms(2)]
  by (auto simp: wq_apply_def claim_event_get find_item_def apply_renew_def event_time_def str_of_def)

lemma renew_refines:
  assumes q: "queue_of q items" and t: "operating_time t"
    and c: "wq_renew clock item holder ttl (Aware t) q = Inr (v, q')"
  shows "\<exists>a items'. queue_of q' items' \<and> queue_step t a items items' \<and> may_act (RenewReq item holder ttl) a"
proof -
  from q have R: "replayed q = Inr items" and L: "ledger_open (q_ledger q)" by (simp_all add: queue_of_def)
  from c obtain i h n es d where r: "require_token item ''ITEM'' = Inr i" "require_token holder ''HOLDER'' = Inr h"
      "require_ttl ttl = Inr n" "effective q t = Inr es"
    and d: "renew_decision es i h n t = Inr d" "commit q d = Inr (v, q')"
    by (auto simp: wq_renew_def wq_now_def bind_result_eq_Inr)
  have es: "map_of es i = map_option (expire_item t) (map_of items i)" using map_of_effective [OF R, of t] r(4) by auto
  with d(1) obtain it where it: "map_of items i = Some it" "held it t"
    by (auto simp: renew_decision_def split: option.splits bool.splits)
  from d(1) es it expire_held [OF it(2)] obtain l e w where l: "wi_lease it = Some l" "wl_holder l = h"
    "add_seconds t n = Inr e" "d = (w, Some (claim_event ''RENEW'' i h (wl_host l) (stamp e) (stamp t)))"
    by (auto simp: renew_decision_def bind_result_eq_Inr split: option.splits bool.splits if_splits)
  obtain x where x: "expires (stamp e) x" "t < x" "time_match (stamp e)"
    using operating_expiry [OF t, of n] require_ttlD [OF r(3)] l(3) by auto
  obtain f where f: "append_event (q_ledger q) (claim_event ''RENEW'' i h (wl_host l) (stamp e) (stamp t)) = Inr f"
    "q' = q\<lparr>q_ledger := f\<rparr>" using commit_Some [OF d(2) [unfolded l(4)]] by blast
  have "legal_event (claim_event ''RENEW'' i h (wl_host l) (stamp e) (stamp t))" by (rule legal_claim_event) (simp add: LEDGER_TYPES_def)
  from replayed_commit [OF R L this f(1)] apply_renew_event [OF it l(1) x(3), of "wl_host l" "stamp t"] l(2)
  have "queue_of q' (AList.update i (it\<lparr>wi_lease := Some (l\<lparr>wl_expires_at := stamp e\<rparr>)\<rparr>) items)"
    by (simp add: queue_of_def f(2))
  moreover note queue_step.renew [OF it l(1,2) x(1,2)]
  moreover have "may_act (RenewReq item holder ttl) (RenewBy i h)"
    using require_tokenD [OF r(1)] require_tokenD [OF r(2)] by simp
  ultimately show ?thesis by blast
qed

lemma strip_no_break: "no_break s \<Longrightarrow> no_break (strip s)"
  unfolding no_break_def strip_def by (metis set_dropWhileD set_rev)

lemma strip_length: "length (strip s) \<le> length s"
  unfolding strip_def by (metis length_dropWhile_le length_rev order_trans)

lemma strip_strip: "strip (strip s) = strip s"
proof -
  have "dropWhile is_space (rev (dropWhile is_space (rev u))) = rev (dropWhile is_space (rev u))"
    if "u = [] \<or> \<not> is_space (hd u)" for u
  proof -
    have "rev (dropWhile is_space (rev u)) = take (length (dropWhile is_space (rev u))) u"
      by (metis append.assoc append_eq_conv_conj length_rev rev_append rev_rev_ident takeWhile_dropWhile_id)
    moreover have "dropWhile is_space (take n u) = take n u" for n
      using that by (cases u; cases n) auto
    ultimately show ?thesis by metis
  qed
  then show ?thesis unfolding strip_def by (metis dropWhile_idem hd_dropWhile rev_rev_ident)
qed

lemma require_resultD: "require_result v = Inr r \<Longrightarrow> result_text (JStr r) \<and> strip r = r"
  using strip_length strip_no_break
  by (auto simp: require_result_def result_text_def strip_strip split: json.splits if_splits intro: order_trans)

lemma apply_release_event:
  assumes "map_of items i = Some item" "held item t" "wi_lease item = Some l" "result_text (JStr r)" "strip r = r"
    "event_token (JStr (wl_holder l))"
  shows "wq_apply items (event_of (release_event i (wl_holder l) r at))
    = Inr (AList.update i (item\<lparr>wi_status := if is_failed_result r then ''BLOCKED'' else ''DONE'',
      wi_lease := None, wi_result := Some r, wi_released_by := Some (wl_holder l)\<rparr>) items)"
  using assms heldD [OF assms(2)]
  by (auto simp: wq_apply_def release_event_get find_item_def apply_release_def str_of_def Let_def)

lemma release_refines:
  assumes q: "queue_of q items" and c: "wq_release clock item holder res (Aware t) q = Inr (v, q')"
  shows "\<exists>a items'. queue_of q' items' \<and> queue_step t a items items' \<and> may_act (ReleaseReq item holder res) a"
proof -
  from q have R: "replayed q = Inr items" and L: "ledger_open (q_ledger q)" by (simp_all add: queue_of_def)
  from c obtain i h r es d where r: "require_token item ''ITEM'' = Inr i" "require_token holder ''HOLDER'' = Inr h"
      "require_result res = Inr r" "effective q t = Inr es"
    and d: "release_decision es i h r t = Inr d" "commit q d = Inr (v, q')"
    by (auto simp: wq_release_def wq_now_def bind_result_eq_Inr)
  have es: "map_of es i = map_option (expire_item t) (map_of items i)" using map_of_effective [OF R, of t] r(4) by auto
  show ?thesis
  proof (cases "snd d")
    case None
    with d(2) q show ?thesis using commit_None [of q "fst d" v q'] queue_step.nothing
      by (metis may_act.simps(1) prod.collapse)
  next
    case (Some ev)
    with d(1) es obtain it where it: "map_of items i = Some it" "held it t"
      by (auto simp: release_decision_def split: option.splits bool.splits if_splits)
    from d(1) es it expire_held [OF it(2)] heldD [OF it(2)] Some obtain l where l: "wi_lease it = Some l" "wl_holder l = h"
      "snd d = Some (release_event i h r (stamp t))"
      by (auto simp: release_decision_def split: option.splits bool.splits if_splits)
    from d(2) l(3) obtain f where f: "append_event (q_ledger q) (release_event i h r (stamp t)) = Inr f" "q' = q\<lparr>q_ledger := f\<rparr>"
      using commit_Some [of q "fst d"] by (metis prod.collapse)
    from replayed_commit [OF R L legal_release_event f(1)]
      apply_release_event [OF it l(1), of r "stamp t"] require_resultD [OF r(3)] require_tokenD [OF r(2)] l(2)
    have "queue_of q' (AList.update i (it\<lparr>wi_status := if is_failed_result r then ''BLOCKED'' else ''DONE'',
      wi_lease := None, wi_result := Some r, wi_released_by := Some h\<rparr>) items)"
      by (simp add: queue_of_def f(2))
    moreover note queue_step.release [OF it l(1,2), of r]
    moreover have "may_act (ReleaseReq item holder res) (ReleaseBy i h)"
      using require_tokenD [OF r(1)] require_tokenD [OF r(2)] by simp
    ultimately show ?thesis by blast
  qed
qed

lemma wq_step_refines:
  assumes "queue_of q items" "operating_time t"
  shows "\<exists>items'. queue_of (wq_step (t, r) q) items' \<and> (\<exists>a. may_act r a \<and> queue_step t a items items')"
proof -
  have same: "\<exists>items'. queue_of q items' \<and> (\<exists>a. may_act r a \<and> queue_step t a items items')"
    using assms(1) queue_step.nothing may_act.simps(1) by blast
  show ?thesis
  proof (cases r)
    case (ClaimReq item holder ttl host dn prs drafts)
    show ?thesis
    proof (cases "wq_claim t item holder ttl host (Aware t) dn prs drafts q")
      case (Inr p)
      with claim_refines [OF assms, of t item holder ttl host dn prs drafts "fst p" "snd p"] ClaimReq show ?thesis
        by (cases p) (auto simp: after_def)
    qed (use same ClaimReq in \<open>simp add: after_def\<close>)
  next
    case (RenewReq item holder ttl)
    show ?thesis
    proof (cases "wq_renew t item holder ttl (Aware t) q")
      case (Inr p)
      with renew_refines [OF assms, of t item holder ttl "fst p" "snd p"] RenewReq show ?thesis
        by (cases p) (auto simp: after_def)
    qed (use same RenewReq in \<open>simp add: after_def\<close>)
  next
    case (ReleaseReq item holder res)
    show ?thesis
    proof (cases "wq_release t item holder res (Aware t) q")
      case (Inr p)
      with release_refines [OF assms(1), of t item holder res t "fst p" "snd p"] ReleaseReq show ?thesis
        by (cases p) (auto simp: after_def)
    qed (use same ReleaseReq in \<open>simp add: after_def\<close>)
  qed
qed

definition timed_step :: "int \<times> wq_request \<Rightarrow> items \<Rightarrow> items \<Rightarrow> bool" where
  "timed_step tr items items' \<longleftrightarrow> (\<exists>a. may_act (snd tr) a \<and> queue_step (fst tr) a items items')"

definition in_time :: "int \<times> wq_request \<Rightarrow> bool" where
  "in_time tr = operating_time (fst tr)"

interpretation wq: simulation queue_of wq_step timed_step in_time
proof
  fix q items tr
  assume "queue_of q items" "in_time tr"
  then show "\<exists>items'. queue_of (wq_step tr q) items' \<and> timed_step tr items items'"
    using wq_step_refines [of q items "fst tr" "snd tr"] by (simp add: in_time_def timed_step_def)
qed

section \<open>Guarantees\<close>

text \<open>
  C17. The queue over ledger text refines the abstract queue: from a readable queue whose ledger has
  complete lines, every claim, renewal and release, refused or not, leaves a readable queue, and the
  replay of its ledger has changed by an abstract step of the requested item and holder, or not at all.
\<close>

theorem work_queue_refines:
  assumes "queue_of q items" and "operating_time t"
  shows "\<exists>items' a. queue_of (wq_step (t, r) q) items' \<and> may_act r a \<and> queue_step t a items items'"
  using wq_step_refines [OF assms] by blast

text \<open>
  C18. Two items that are held at the same time never overlap in scope: starting with seeds of which
  none is claimed and no ledger, after any requests at times that do not go back.
\<close>

theorem held_scopes_disjoint:
  assumes "load_seeds (q_items q) = Inr seeds" and "q_ledger q = None"
    and "list_all (\<lambda>p. wi_status (snd p) \<noteq> ''CLAIMED'') seeds"
    and "list_all in_time reqs" and "sorted (map fst reqs)" and "\<forall>tr\<in>set reqs. fst tr \<le> t"
  shows "\<exists>items. replayed (fold wq_step reqs q) = Inr items \<and> conflict_free items t"
proof -
  have q: "queue_of q seeds"
    using assms(1,2) by (simp add: queue_of_def replayed_def read_ledger_def ledger_open_def)
  have "\<not> held a s" if "map_of seeds i = Some a" for i a s
    using that assms(3) by (auto dest!: map_of_SomeD heldD simp: list_all_iff)
  then have free: "conflict_free seeds s" for s by (auto simp: conflict_free_def)
  define s where "s = (if reqs = [] then t else fst (hd reqs))"
  have ok: "wq.run_ok (\<lambda>g tr. g \<le> fst tr) (\<lambda>g tr. fst tr) g rs"
    if "list_all in_time rs" "sorted (g # map fst rs)" for g rs
    using that by (induction rs arbitrary: g) auto
  have run: "wq.run_ok (\<lambda>g tr. g \<le> fst tr) (\<lambda>g tr. fst tr) s reqs"
    using assms(4,5) by (intro ok) (cases reqs; auto simp: s_def)+
  have "\<exists>items. queue_of (fold wq_step reqs q) items \<and> conflict_free items (foldl (\<lambda>g tr. fst tr) s reqs)"
    by (rule wq.run_keeps [OF q, where Q = "\<lambda>g items. conflict_free items g", OF free run])
      (auto simp: timed_step_def intro: conflict_free_step conflict_free_later)
  moreover have "foldl (\<lambda>g tr. fst tr) s reqs \<le> t"
    using assms(6) by (cases reqs rule: rev_cases) (auto simp: s_def)
  ultimately show ?thesis using conflict_free_later unfolding queue_of_def by blast
qed

text \<open>
  A lease excludes everybody else: while it has not expired, no requests other than the holder's
  own renewal or release change the item, whatever they are and in whatever order, and a claim by
  somebody else is refused with \<open>DUPLICATE_CLAIM\<close>.
\<close>

theorem lease_excludes_others:
  assumes "queue_of q items" and "map_of items i = Some item" and "wi_status item = ''CLAIMED''"
    and "wi_lease item = Some l" and "parse_time (wl_expires_at l) = Some e"
    and "list_all in_time reqs" and "\<forall>tr\<in>set reqs. fst tr < e"
    and "\<forall>tr\<in>set reqs. \<not> may_act (snd tr) (RenewBy i (wl_holder l)) \<and> \<not> may_act (snd tr) (ReleaseBy i (wl_holder l))"
    and "t < e" and "require_token (JStr i) ''ITEM'' = Inr i" and "require_token (JStr h) ''HOLDER'' = Inr h"
    and "require_token host ''HOST'' = Inr hs" and "require_ttl ttl = Inr n" and "h \<noteq> wl_holder l"
  shows "(\<exists>items'. replayed (fold wq_step reqs q) = Inr items' \<and> map_of items' i = Some item)
    \<and> wq_claim t (JStr i) (JStr h) ttl host (Aware t) done prs drafts (fold wq_step reqs q) = Inl (WorkQueueError ''DUPLICATE_CLAIM'')"
proof -
  have held: "held item s" if "s < e" for s
    using assms(3-5) that by (simp add: held_def)
  have "\<exists>items'. queue_of (fold wq_step reqs q) items' \<and> map_of items' i = Some item"
  proof (rule wq.run_invariant [where I = "\<lambda>items. map_of items i = Some item", OF assms(1) assms(2) assms(6)])
    fix tr items items'
    assume tr: "tr \<in> set reqs" and i: "map_of items i = Some item" and s: "timed_step tr items items'"
    then obtain a where a: "may_act (snd tr) a" "queue_step (fst tr) a items items'" by (auto simp: timed_step_def)
    from lease_step [OF a(2) i held assms(4)] a(1) tr assms(7,8) show "map_of items' i = Some item" by blast
  qed
  then obtain items' where r: "replayed (fold wq_step reqs q) = Inr items'" "map_of items' i = Some item"
    by (auto simp: queue_of_def)
  obtain es where es: "effective (fold wq_step reqs q) t = Inr es" "map_of es i = Some item"
    using map_of_effective [OF r(1), of t] r(2) expire_held [OF held [OF assms(9)]] by auto
  have "claim_decision es i h hs n t done drafts (map norm_path prs) = Inl (WorkQueueError ''DUPLICATE_CLAIM'')"
    using es(2) held [OF assms(9)] assms(4,14) by (simp add: claim_decision_def)
  with r es assms(10-13) show ?thesis by (simp add: wq_claim_def wq_now_def)
qed

text \<open>
  A released item is final: once DONE or BLOCKED, no requests change it any more.
\<close>

theorem released_is_final:
  assumes "queue_of q items" and "map_of items i = Some item" and "wi_status item \<in> {''DONE'', ''BLOCKED''}"
    and "list_all in_time reqs"
  shows "\<exists>items'. replayed (fold wq_step reqs q) = Inr items' \<and> map_of items' i = Some item"
proof -
  have "\<exists>items'. queue_of (fold wq_step reqs q) items' \<and> map_of items' i = Some item"
    by (rule wq.run_invariant [where I = "\<lambda>items. map_of items i = Some item", OF assms(1,2,4)]) (auto simp: timed_step_def intro: final_step [OF _ _ assms(3)])
  then show ?thesis by (auto simp: queue_of_def)
qed

text \<open>
  A claim survives replay: after a fresh claim the replayed ledger holds exactly the lease the
  caller was told, it expires after the moment of the claim and no later than the requested time to
  live, and until then the same claim is answered with the same lease and writes nothing.
\<close>

theorem claim_survives_replay:
  assumes "queue_of q items" and "operating_time t"
    and "wq_claim clock item holder ttl host (Aware t) dn prs drafts q = Inr (v, q')" and "\<not> cv_idempotent v"
  shows "\<exists>items' it e. replayed q' = Inr items' \<and> map_of items' (cv_item_id v) = Some it \<and> wi_status it = ''CLAIMED''
    \<and> wi_lease it = Some \<lparr>wl_holder = cv_holder v, wl_host = cv_host v, wl_expires_at = cv_expires_at v\<rparr>
    \<and> parse_time (cv_expires_at v) = Some e \<and> t < e
    \<and> (\<forall>s < e. wq_claim s item holder ttl host (Aware s) dn prs drafts q' = Inr (v\<lparr>cv_idempotent := True\<rparr>, q'))"
  using assms(1-3)
proof (cases rule: claim_outcome)
  case repeated
  with assms(4) show ?thesis by simp
next
  case (fresh i h hs it e x)
  define it' where "it' = it\<lparr>wi_status := ''CLAIMED'', wi_lease := Some \<lparr>wl_holder = h, wl_host = hs, wl_expires_at = e\<rparr>\<rparr>"
  have R: "replayed q' = Inr (AList.update i it' items)" using fresh(11) by (simp add: queue_of_def it'_def)
  have "wq_claim s item holder ttl host (Aware s) dn prs drafts q' = Inr (v\<lparr>cv_idempotent := True\<rparr>, q')" if "s < x" for s
  proof -
    have held: "held it' s" using that fresh(8) by (simp add: held_def it'_def expires_def)
    obtain es where es: "effective q' s = Inr es" "map_of es i = Some it'"
      using map_of_effective [OF R, of s] expire_held [OF held] by auto
    have id: "wi_id it' = i" using replayed_wf [OF R] by (simp add: wf_items_def wf_item_def)
    obtain n where r: "require_token item ''ITEM'' = Inr i" "require_token holder ''HOLDER'' = Inr h"
      "require_token host ''HOST'' = Inr hs" "require_ttl ttl = Inr n"
      using assms(3) fresh(1-3) require_tokenD by (auto simp: wq_claim_def bind_result_eq_Inr)
    show ?thesis using r es held id fresh(10)
      by (simp add: wq_claim_def wq_now_def claim_decision_def it'_def claim_view_of_def commit_def)
  qed
  with R fresh(8-10) show ?thesis by (auto simp: it'_def claim_view_of_def expires_def)
qed

text \<open>
  C19. \<open>list_ready\<close> lists exactly what can be claimed: with valid arguments and room in the ledger, a
  fresh claim of an item at a moment succeeds if and only if the item is in the list for that moment.
\<close>

theorem ready_iff_claimable:
  assumes "queue_of q items" and "list_ready t prs dn drafts (Aware t) q = Inr ready"
    and "require_token item ''ITEM'' = Inr i" and "require_token holder ''HOLDER'' = Inr h"
    and "require_token host ''HOST'' = Inr hs" and "require_ttl ttl = Inr n" and "add_seconds t n = Inr e"
    and "append_event (q_ledger q) (claim_event ''CLAIM'' i h hs (stamp e) (stamp t)) = Inr f"
  shows "(\<exists>v q'. wq_claim t item holder ttl host (Aware t) dn prs drafts q = Inr (v, q') \<and> \<not> cv_idempotent v)
    \<longleftrightarrow> i \<in> pi_id ` set ready"
proof -
  have R: "replayed q = Inr items" using assms(1) by (simp add: queue_of_def)
  obtain es where es: "effective q t = Inr es" "map_of es i = map_option (expire_item t) (map_of items i)"
    "map snd es = map (expire_item t) (map snd items)" using map_of_effective [OF R, of t] by auto
  let ?ok = "\<lambda>c. claimable_status c t \<and> deps_met c es dn drafts \<and> \<not> blocked_by_scope c (occupied_items es t) (map norm_path prs)"
  have ready: "pi_id ` set ready = wi_id ` {c \<in> set (map snd es). ?ok c}"
  proof -
    have "ready = sort_key pi_id (map public (filter ?ok (map snd es)))"
      using assms(2) es(1) by (simp add: list_ready_def wq_now_def ready_items_def)
    then have "set ready = public ` set (filter ?ok (map snd es))" by simp
    then show ?thesis by (simp only: image_image set_filter) (simp add: public_def)
  qed
  have wf: "wf_items items" by (rule replayed_wf [OF R])
  have ids: "map_of es (wi_id c) = Some c" if "c \<in> set (map snd es)" for c
  proof -
    from that es(3) obtain k b where b: "(k, b) \<in> set items" "c = expire_item t b" by auto
    then have "map_of items k = Some b" using wf by (simp add: wf_items_def dict_wf_map_of)
    moreover from this have "wi_id b = k" using wf by (simp add: wf_items_def wf_item_def)
    ultimately show ?thesis using map_of_effective [OF R, of t] es(1) b(2) by auto
  qed
  have mem: "i \<in> pi_id ` set ready \<longleftrightarrow> (\<exists>c. map_of es i = Some c \<and> ?ok c)"
  proof
    assume "i \<in> pi_id ` set ready"
    then obtain c where "c \<in> set (map snd es)" "?ok c" "i = wi_id c" unfolding ready by blast
    with ids [of c] show "\<exists>c. map_of es i = Some c \<and> ?ok c" by blast
  next
    assume "\<exists>c. map_of es i = Some c \<and> ?ok c"
    then obtain c where c: "map_of es i = Some c" "?ok c" by blast
    have "wi_id c = i" using c(1) es(2) wf by (auto simp: wf_items_def wf_item_def)
    moreover have "c \<in> set (map snd es)" using c(1) by (force dest: map_of_SomeD)
    ultimately show "i \<in> pi_id ` set ready" using ready c(2) by blast
  qed
  have fresh: "claimable_status c t \<Longrightarrow> \<not> held c t" for c
    by (auto simp: claimable_status_def dest: heldD)
  show ?thesis
    unfolding mem using assms(3-8) es(1)
    by (auto simp: wq_claim_def wq_now_def claim_decision_def claim_view_of_def commit_def dest!: fresh split: option.splits if_splits)
qed

section \<open>A concrete queue\<close>

definition sample_item :: json where
  "sample_item = JObj [(''id'', JStr ''P1''), (''title'', JStr ''t''), (''lane'', JStr ''L1''), (''branch'', JStr ''b''),
     (''files_scope'', JList [JStr ''a/'']), (''depends_on'', JList []), (''acceptance'', JList [JStr ''x'']),
     (''provider_hints'', JList []), (''status'', JStr ''READY''), (''lease'', JNull)]"

definition sample_queue :: queue where
  "sample_queue = \<lparr>q_items = Some [(''P1'', Text (dumps sample_item))], q_ledger = None\<rparr>"

definition sample_seeds :: items where
  "sample_seeds = (case sample_item of JObj kvs \<Rightarrow> [(''P1'', item_of kvs)] | _ \<Rightarrow> [])"

definition sample_time :: int where
  "sample_time = day_number 2026 1 1 * SECONDS_PER_DAY * MICROS_PER_SECOND"

definition sample_claim_req :: wq_request where
  "sample_claim_req = ClaimReq (JStr ''P1'') (JStr ''h'') (JInt 60) (JStr ''pc'') [] [] []"

lemma sample_item_valid: "validate_item sample_item = Inr (case sample_item of JObj kvs \<Rightarrow> kvs | _ \<Rightarrow> [])"
  by code_simp

lemma sample_item_wf: "wf_json sample_item" "length (dumps sample_item) < 200"
  by code_simp+

lemma sample_load: "load_seeds (q_items sample_queue) = Inr sample_seeds"
proof -
  have "read_json (Text (dumps sample_item)) MAX_ITEM_BYTES = Inr sample_item"
    using sample_item_wf by (simp add: read_json_def loads_dumps MAX_ITEM_BYTES_def)
  then show ?thesis
    by (simp add: load_seeds_def sample_queue_def load_seed_def sample_item_valid)
      (simp add: sample_item_def sample_seeds_def item_of_def str_of_def get_def lease_of_def)
qed

lemma sample_queue_of: "queue_of sample_queue sample_seeds"
  using sample_load by (simp add: queue_of_def replayed_def read_ledger_def ledger_open_def) (simp add: sample_queue_def)

lemma sample_time_ok: "operating_time sample_time" "operating_time (sample_time + 1000000)"
  by code_simp+

lemma sample_add: "add_seconds sample_time 60 = Inr (sample_time + 60000000)"
  by code_simp

theorem work_queue_refines_witness:
  "\<exists>items' a. queue_of (wq_step (sample_time, sample_claim_req) sample_queue) items' \<and> queue_step sample_time a sample_seeds items'"
  using work_queue_refines [OF sample_queue_of sample_time_ok(1), of sample_claim_req] by blast

theorem held_scopes_disjoint_witness:
  "\<exists>items. replayed (fold wq_step [(sample_time, sample_claim_req), (sample_time + 1000000, sample_claim_req)] sample_queue) = Inr items
     \<and> conflict_free items (sample_time + 1000000)"
proof -
  have "list_all (\<lambda>p. wi_status (snd p) \<noteq> ''CLAIMED'') sample_seeds" by code_simp
  moreover have "q_ledger sample_queue = None" by (simp add: sample_queue_def)
  ultimately show ?thesis
    using held_scopes_disjoint [OF sample_load, of "[(sample_time, sample_claim_req), (sample_time + 1000000, sample_claim_req)]"
        "sample_time + 1000000"] sample_time_ok by (simp add: in_time_def)
qed

definition sample_lease :: wq_lease where
  "sample_lease = \<lparr>wl_holder = ''h'', wl_host = ''pc'', wl_expires_at = ''2026-01-01T00:01:00Z''\<rparr>"

definition sample_wq_event :: flat where
  "sample_wq_event = claim_event ''CLAIM'' ''P1'' ''h'' ''pc'' ''2026-01-01T00:01:00Z'' ''2026-01-01T00:00:00Z''"

definition sample_claimed :: queue where
  "sample_claimed = sample_queue\<lparr>q_ledger := Some (Text (event_line sample_wq_event @ [CHR 0x0A]))\<rparr>"

lemma sample_stamps: "stamp sample_time = ''2026-01-01T00:00:00Z''" "stamp (sample_time + 60000000) = ''2026-01-01T00:01:00Z''"
  by code_simp+

lemma sample_tokens: "require_token (JStr ''P1'') ''ITEM'' = Inr ''P1''" "require_token (JStr ''h'') ''HOLDER'' = Inr ''h''"
  "require_token (JStr ''g'') ''HOLDER'' = Inr ''g''" "require_token (JStr ''pc'') ''HOST'' = Inr ''pc''" "require_ttl (JInt 60) = Inr 60"
  by code_simp+

lemma sample_wq_event_length: "length (event_line sample_wq_event) < 200"
  by code_simp

lemma sample_append: "append_event None sample_wq_event = Inr (Some (Text (event_line sample_wq_event @ [CHR 0x0A])))"
  using sample_wq_event_length by (simp add: append_event_def MAX_LEDGER_BYTES_def)

lemma sample_effective: "effective sample_queue t = Inr sample_seeds"
  using sample_queue_of
  by (simp add: effective_def queue_of_def sample_seeds_def sample_item_def expire_item_def item_of_def get_def str_of_def)

lemma sample_decision:
  "claim_decision sample_seeds ''P1'' ''h'' ''pc'' 60 sample_time [] [] [] = Inr (claim_view_of ''P1'' sample_lease False, Some sample_wq_event)"
  by (simp add: claim_decision_def sample_add sample_stamps sample_lease_def sample_wq_event_def)
    (simp add: sample_seeds_def sample_item_def item_of_def get_def str_of_def strs_def held_def claimable_status_def deps_met_def
      blocked_by_scope_def occupied_items_def sample_add sample_stamps)

lemma sample_claim_result:
  "wq_claim sample_time (JStr ''P1'') (JStr ''h'') (JInt 60) (JStr ''pc'') (Aware sample_time) [] [] [] sample_queue
     = Inr (claim_view_of ''P1'' sample_lease False, sample_claimed)"
  using sample_decision sample_append
  by (simp add: wq_claim_def sample_tokens wq_now_def sample_effective commit_def sample_claimed_def) (simp add: sample_queue_def)

theorem claim_survives_replay_witness:
  "\<exists>items' it. replayed sample_claimed = Inr items' \<and> map_of items' ''P1'' = Some it \<and> wi_lease it = Some sample_lease"
  using claim_survives_replay [OF sample_queue_of sample_time_ok(1) sample_claim_result]
  by (auto simp: claim_view_of_def sample_lease_def)

lemma sample_claimed_of:
  "\<exists>items it. queue_of sample_claimed items \<and> map_of items ''P1'' = Some it \<and> wi_status it = ''CLAIMED'' \<and> wi_lease it = Some sample_lease"
  using sample_queue_of sample_time_ok(1) sample_claim_result
proof (cases rule: claim_outcome)
  case repeated
  then show ?thesis by (simp add: claim_view_of_def)
next
  case (fresh i h hs it e x)
  then have "i = ''P1''" "\<lparr>wl_holder = h, wl_host = hs, wl_expires_at = e\<rparr> = sample_lease"
    by (auto simp: claim_view_of_def sample_lease_def)
  with fresh(11) show ?thesis by (intro exI conjI) auto
qed

theorem lease_excludes_others_witness:
  "wq_claim sample_time (JStr ''P1'') (JStr ''g'') (JInt 60) (JStr ''pc'') (Aware sample_time) [] [] []
     (fold wq_step [(sample_time, ReleaseReq (JStr ''P1'') (JStr ''g'') (JStr ''done''))] sample_claimed) = Inl (WorkQueueError ''DUPLICATE_CLAIM'')"
proof -
  obtain items it where i: "queue_of sample_claimed items" "map_of items ''P1'' = Some it" "wi_status it = ''CLAIMED''"
    "wi_lease it = Some sample_lease" using sample_claimed_of by blast
  have e: "parse_time (wl_expires_at sample_lease) = Some (sample_time + 60000000)" by code_simp
  show ?thesis
    using lease_excludes_others [OF i e, where reqs = "[(sample_time, ReleaseReq (JStr ''P1'') (JStr ''g'') (JStr ''done''))]"
        and t = sample_time and h = "''g''" and host = "JStr ''pc''" and ttl = "JInt 60" and hs = "''pc''" and n = 60] sample_tokens sample_time_ok(1)
    by (simp add: in_time_def sample_lease_def)
qed

definition sample_done :: payload where
  "sample_done = (case sample_item of JObj kvs \<Rightarrow> AList.update ''status'' (JStr ''DONE'') kvs | _ \<Rightarrow> [])"

definition sample_done_queue :: queue where
  "sample_done_queue = \<lparr>q_items = Some [(''P1'', Text (dumps (JObj sample_done)))], q_ledger = None\<rparr>"

lemma sample_done_wf: "wf_json (JObj sample_done)" "length (dumps (JObj sample_done)) < 200" "validate_item (JObj sample_done) = Inr sample_done"
  "wi_id (item_of sample_done) = ''P1''" "wi_status (item_of sample_done) = ''DONE''" "wi_lease (item_of sample_done) = None"
  by code_simp+

lemma sample_done_replayed: "replayed sample_done_queue = Inr [(''P1'', item_of sample_done)]"
proof -
  have "read_json (Text (dumps (JObj sample_done))) MAX_ITEM_BYTES = Inr (JObj sample_done)"
    using loads_dumps [OF sample_done_wf(1)] sample_done_wf(2) by (simp del: dumps.simps add: read_json_def MAX_ITEM_BYTES_def)
  then show ?thesis
    using sample_done_wf(3-6) by (simp add: replayed_def load_seeds_def sample_done_queue_def load_seed_def read_ledger_def del: dumps.simps)
qed

theorem released_is_final_witness:
  "\<exists>items' it. replayed (fold wq_step [(sample_time, sample_claim_req)] sample_done_queue) = Inr items' \<and> map_of items' ''P1'' = Some it
     \<and> wi_status it = ''DONE''"
proof -
  obtain items it where i: "queue_of sample_done_queue items" "map_of items ''P1'' = Some it" "wi_status it = ''DONE''"
    using sample_done_replayed sample_done_wf(5) by (simp add: queue_of_def ledger_open_def) (simp add: sample_done_queue_def)
  with released_is_final [OF i(1,2), of "[(sample_time, sample_claim_req)]"] sample_time_ok(1) show ?thesis
    by (auto simp: in_time_def)
qed

lemma sample_ready: "list_ready sample_time [] [] [] (Aware sample_time) sample_queue
    = Inr [public (snd (hd sample_seeds))]"
  by (simp add: list_ready_def wq_now_def sample_effective)
    (simp add: ready_items_def sample_seeds_def sample_item_def item_of_def get_def str_of_def strs_def held_def claimable_status_def deps_met_def
      blocked_by_scope_def occupied_items_def)

theorem ready_iff_claimable_witness:
  "\<exists>v q'. wq_claim sample_time (JStr ''P1'') (JStr ''h'') (JInt 60) (JStr ''pc'') (Aware sample_time) [] [] [] sample_queue = Inr (v, q')
     \<and> \<not> cv_idempotent v"
proof -
  have "append_event (q_ledger sample_queue) (claim_event ''CLAIM'' ''P1'' ''h'' ''pc'' (stamp (sample_time + 60000000)) (stamp sample_time))
      = Inr (Some (Text (event_line sample_wq_event @ [CHR 0x0A])))"
    using sample_append by (simp add: sample_stamps sample_wq_event_def sample_queue_def)
  moreover have "''P1'' \<in> pi_id ` set [public (snd (hd sample_seeds))]" by code_simp
  ultimately show ?thesis
    using ready_iff_claimable [OF sample_queue_of sample_ready sample_tokens(1,2,4,5) sample_add] by blast
qed

end
