(* ===== verification/Dag_Resolver.thy ===== *)
theory Dag_Resolver
  imports Work_Queue
begin

text \<open>
  The dependency resolver (courier\_core/dag\_resolver.py): Kahn's algorithm in stages over the
  catalogue of work items, and readiness against the completions read from the queue's ledger. The
  loop's fuel is one stage per item and one more, which is always enough. Results: it terminates,
  the order it returns respects every dependency and holds every item once, and with dependency
  lists that do not repeat an entry it reports a cycle exactly when there is one.
\<close>

section \<open>The catalogue and the ledger\<close>

type_synonym graph = "(string \<times> string list) list"

text \<open>
  A catalogue file is what reading it gives: nothing when that raises, else its \<open>id\<close> and
  \<open>depends_on\<close>, which the catalogue's schema makes a string and a list of strings.
\<close>

definition load_item :: "(string \<times> string list) option \<Rightarrow> graph \<Rightarrow> graph" where
  "load_item f g = (case f of None \<Rightarrow> g | Some (i, deps) \<Rightarrow> if i = [] then g else AList.update i deps g)"

definition load_items :: "(string \<times> string list) option list \<Rightarrow> graph" where
  "load_items files = fold load_item files []"

text \<open>\<open>str(ev.get("result") or "").strip().upper()\<close> and its test.\<close>

definition counts_as_done :: "json \<Rightarrow> bool" where
  "counts_as_done v = (let res = upper (strip (if truthy v then norm_token v else [])) in
     res \<noteq> [] \<and> \<not> list_ex (startswith res) [''FAIL'', ''ABORT'', ''ERROR'', ''REJECT''])"

text \<open>
  One line of the ledger. An identifier that is no string is never equal to a dependency, and one
  that cannot be hashed raises, which skips the line.
\<close>

definition note_line :: "string \<Rightarrow> string list \<Rightarrow> string list" where
  "note_line line completed = (let stripped = strip line in
     if stripped = [] then completed
     else case loads stripped of
       Inr (JObj ev) \<Rightarrow> (case get ev ''item_id'' of
           JStr i \<Rightarrow>
             (if i = [] then completed
              else if get ev ''status'' = JStr ''DONE'' then List.insert i completed
              else if get ev ''type'' = JStr ''RELEASE'' then
                (if counts_as_done (get ev ''result'') then List.insert i completed else removeAll i completed)
              else if get ev ''type'' = JStr ''CLAIM'' then removeAll i completed
              else completed)
         | _ \<Rightarrow> completed)
     | _ \<Rightarrow> completed)"

definition load_completed_from_ledger :: "string option \<Rightarrow> string list" where
  "load_completed_from_ledger f = (case f of None \<Rightarrow> [] | Some t \<Rightarrow> fold note_line (split_lines [] t) [])"

section \<open>Resolution\<close>

definition deps_of :: "graph \<Rightarrow> string \<Rightarrow> string list" where
  "deps_of g k = (case map_of g k of None \<Rightarrow> [] | Some ds \<Rightarrow> ds)"

definition nodes :: "graph \<Rightarrow> string list" where
  "nodes g = map fst g"

text \<open>The first loop: \<open>in_degree\<close> counts the entries of \<open>deps\<close> that are nodes, \<open>dependents\<close> is a set.\<close>

definition initial_degrees :: "graph \<Rightarrow> (string \<times> int) list" where
  "initial_degrees g = map (\<lambda>(k, deps). (k, int (length (filter (\<lambda>d. d \<in> set (nodes g)) deps)))) g"

definition dependents :: "graph \<Rightarrow> string \<Rightarrow> string list" where
  "dependents g d = filter (\<lambda>k. d \<in> set (deps_of g k)) (nodes g)"

definition degree :: "(string \<times> int) list \<Rightarrow> string \<Rightarrow> int" where
  "degree ds k = (case map_of ds k of None \<Rightarrow> 0 | Some n \<Rightarrow> n)"

definition relax :: "string \<Rightarrow> (string \<times> int) list \<times> string list \<Rightarrow> (string \<times> int) list \<times> string list" where
  "relax dep st = (let n = degree (fst st) dep - 1; ds = AList.update dep n (fst st) in
     (ds, if n = 0 then snd st @ [dep] else snd st))"

definition visit :: "graph \<Rightarrow> string \<Rightarrow> (string \<times> int) list \<times> string list \<Rightarrow> (string \<times> int) list \<times> string list" where
  "visit g node st = fold relax (sort (dependents g node)) st"

fun kahn :: "graph \<Rightarrow> nat \<Rightarrow> string list \<Rightarrow> (string \<times> int) list \<Rightarrow> string list list \<Rightarrow> (string list list \<times> (string \<times> int) list) option" where
  "kahn g fuel [] ds stages = Some (stages, ds)"
| "kahn g 0 (x # q) ds stages = None"
| "kahn g (Suc fuel) (x # q) ds stages =
     (let stage = sort (x # q); (ds', next) = fold (visit g) stage (ds, []) in kahn g fuel next ds' (stages @ [stage]))"

record dag_report =
  dr_execution_order :: "string list"
  dr_stages :: "string list list"
  dr_item_dependencies :: graph

definition resolve :: "graph \<Rightarrow> dag_report result option" where
  "resolve g = (let ds = initial_degrees g in
     map_option (\<lambda>(stages, ds'). let order = concat stages in
       if length order \<noteq> length (nodes g)
       then Inl (CycleDetectedError (map fst (filter (\<lambda>(k, v). 0 < v) ds')))
       else Inr \<lparr>dr_execution_order = order, dr_stages = stages, dr_item_dependencies = g\<rparr>)
     (kahn g (Suc (length (nodes g))) (map fst (filter (\<lambda>(k, deg). deg = 0) ds)) ds []))"

section \<open>Readiness\<close>

definition evaluate_readiness :: "graph \<Rightarrow> string list \<Rightarrow> string list \<times> (string \<times> string list) list" where
  "evaluate_readiness g completed =
     (let missing = (\<lambda>deps. filter (\<lambda>d. d \<notin> set completed) deps) in
      (sort (map fst (filter (\<lambda>(i, deps). missing deps = []) g)),
       map (\<lambda>(i, deps). (i, missing deps)) (filter (\<lambda>(i, deps). missing deps \<noteq> []) g)))"

section \<open>One stage\<close>

lemma degree_update [simp]: "degree (AList.update k n ds) = (degree ds)(k := n)"
  by (auto simp: degree_def)

lemma fold_relax:
  "distinct ks \<Longrightarrow> fold relax ks (ds, next) = (ds', next') \<Longrightarrow>
   (\<forall>k. degree ds' k = degree ds k - (if k \<in> set ks then 1 else 0)) \<and> next' = next @ filter (\<lambda>k. degree ds k = 1) ks"
proof (induction ks arbitrary: ds "next")
  case (Cons k ks)
  obtain ds1 next1 where r: "relax k (ds, next) = (ds1, next1)" by fastforce
  then have d: "degree ds1 = (degree ds)(k := degree ds k - 1)"
    and n: "next1 = next @ (if degree ds k = 1 then [k] else [])" by (auto simp: relax_def Let_def)
  have "\<forall>j. degree ds' j = degree ds1 j - (if j \<in> set ks then 1 else 0)" "next' = next1 @ filter (\<lambda>j. degree ds1 j = 1) ks"
    using Cons.IH [of ds1 next1] Cons.prems r by auto
  moreover have "filter (\<lambda>j. degree ds1 j = 1) ks = filter (\<lambda>j. degree ds j = 1) ks"
    using Cons.prems(1) d by (intro filter_cong) auto
  ultimately show ?case using Cons.prems(1) d n by auto
qed auto

text \<open>The degrees when exactly the nodes in \<open>V\<close> have been visited.\<close>

definition degrees_at :: "graph \<Rightarrow> string set \<Rightarrow> (string \<times> int) list \<Rightarrow> bool" where
  "degrees_at g V ds \<longleftrightarrow> (\<forall>k\<in>set (nodes g). degree ds k
     = int (length (filter (\<lambda>d. d \<in> set (nodes g)) (deps_of g k))) - int (card (set (deps_of g k) \<inter> V)))"

lemma dependents_distinct: "dict_wf g \<Longrightarrow> distinct (dependents g d)"
  by (simp add: dependents_def nodes_def dict_wf_def)

lemma card_filter_ge:
  assumes "V \<subseteq> set ns"
  shows "int (card (set ds \<inter> V)) \<le> int (length (filter (\<lambda>d. d \<in> set ns) ds))"
proof -
  have "set ds \<inter> V \<subseteq> set (filter (\<lambda>d. d \<in> set ns) ds)" using assms by auto
  then have "card (set ds \<inter> V) \<le> card (set (filter (\<lambda>d. d \<in> set ns) ds))" by (intro card_mono) simp_all
  also have "\<dots> \<le> length (filter (\<lambda>d. d \<in> set ns) ds)" by (rule card_length)
  finally show ?thesis by simp
qed

lemma visit_step:
  assumes "dict_wf g" "degrees_at g V ds" "V \<subseteq> set (nodes g)" "n \<in> set (nodes g)" "n \<notin> V"
    and "visit g n (ds, next) = (ds', next')"
  shows "degrees_at g (insert n V) ds'
    \<and> next' = next @ filter (\<lambda>k. degree ds k = 1) (sort (dependents g n))
    \<and> (\<forall>k\<in>set (nodes g). degree ds' k = 0 \<longleftrightarrow> degree ds k = 0 \<or> degree ds k = 1 \<and> k \<in> set (dependents g n))
    \<and> (\<forall>k\<in>set (dependents g n). 1 \<le> degree ds k)"
proof -
  have d: "\<forall>k. degree ds' k = degree ds k - (if k \<in> set (dependents g n) then 1 else 0)"
    and nx: "next' = next @ filter (\<lambda>k. degree ds k = 1) (sort (dependents g n))"
    using fold_relax [of "sort (dependents g n)" ds "next" ds' next'] assms(6) dependents_distinct [OF assms(1)]
    by (auto simp: visit_def)
  have dep: "k \<in> set (dependents g n) \<longleftrightarrow> k \<in> set (nodes g) \<and> n \<in> set (deps_of g k)" for k
    by (auto simp: dependents_def)
  have card: "card (set (deps_of g k) \<inter> insert n V) = card (set (deps_of g k) \<inter> V) + (if n \<in> set (deps_of g k) then 1 else 0)" for k
    using assms(5) by (simp add: Int_insert_right)
  have at: "degrees_at g (insert n V) ds'"
    unfolding degrees_at_def
  proof
    fix k assume k: "k \<in> set (nodes g)"
    then have "degree ds k = int (length (filter (\<lambda>d. d \<in> set (nodes g)) (deps_of g k))) - int (card (set (deps_of g k) \<inter> V))"
      using assms(2) by (simp add: degrees_at_def)
    then show "degree ds' k = int (length (filter (\<lambda>d. d \<in> set (nodes g)) (deps_of g k))) - int (card (set (deps_of g k) \<inter> insert n V))"
      using d dep [of k] card [of k] k by simp
  qed
  have "0 \<le> degree ds' k" if "k \<in> set (nodes g)" for k
    using at that card_filter_ge [of "insert n V" "nodes g" "deps_of g k"] assms(3,4) by (simp add: degrees_at_def)
  then have pos: "\<forall>k\<in>set (dependents g n). 1 \<le> degree ds k" using d dep by fastforce
  then have "\<forall>k\<in>set (nodes g). degree ds' k = 0 \<longleftrightarrow> degree ds k = 0 \<or> degree ds k = 1 \<and> k \<in> set (dependents g n)"
    using d by (auto split: if_splits)
  with at nx pos show ?thesis by blast
qed

lemma stage_step:
  assumes "dict_wf g"
  shows "degrees_at g V ds \<Longrightarrow> V \<subseteq> set (nodes g) \<Longrightarrow> distinct ss \<Longrightarrow> set ss \<subseteq> set (nodes g) \<Longrightarrow> set ss \<inter> V = {} \<Longrightarrow>
    distinct nx \<Longrightarrow> set nx = {k \<in> set (nodes g). degree ds k = 0} - Z \<Longrightarrow> (\<forall>k\<in>Z. degree ds k = 0) \<Longrightarrow> Z \<subseteq> set (nodes g) \<Longrightarrow>
    fold (visit g) ss (ds, nx) = (ds', nx') \<Longrightarrow>
    degrees_at g (V \<union> set ss) ds' \<and> distinct nx' \<and> set nx' = {k \<in> set (nodes g). degree ds' k = 0} - Z
      \<and> (\<forall>k\<in>Z. degree ds' k = 0)"
proof (induction ss arbitrary: V ds nx)
  case (Cons n ss)
  obtain ds1 nx1 where v: "visit g n (ds, nx) = (ds1, nx1)" by fastforce
  have n: "n \<in> set (nodes g)" "n \<notin> V" using Cons.prems(4,5) by auto
  from visit_step [OF assms Cons.prems(1,2) n v]
  have at: "degrees_at g (insert n V) ds1" and nx1: "nx1 = nx @ filter (\<lambda>k. degree ds k = 1) (sort (dependents g n))"
    and z: "\<And>k. k \<in> set (nodes g) \<Longrightarrow> degree ds1 k = 0 \<longleftrightarrow> degree ds k = 0 \<or> degree ds k = 1 \<and> k \<in> set (dependents g n)"
    by blast+
  have dn: "set (dependents g n) \<subseteq> set (nodes g)" by (auto simp: dependents_def)
  have "set nx1 = {k \<in> set (nodes g). degree ds1 k = 0} - Z"
    using Cons.prems(7,8) nx1 z dn by fastforce
  moreover have "distinct nx1"
    using Cons.prems(6,7) nx1 dependents_distinct [OF assms, of n] by auto
  moreover have "\<forall>k\<in>Z. degree ds1 k = 0" using Cons.prems(8,9) z by auto
  ultimately show ?case
    using Cons.IH [OF at _ _ _ _ _ _ _ Cons.prems(9), of nx1] Cons.prems(2-5,10) n v by (simp add: Un_commute)
qed auto

section \<open>The loop\<close>

fun staged :: "graph \<Rightarrow> string set \<Rightarrow> string list list \<Rightarrow> bool" where
  "staged g V [] = True"
| "staged g V (s # ss) = ((\<forall>k\<in>set s. set (deps_of g k) \<inter> set (nodes g) \<subseteq> V) \<and> staged g (V \<union> set s) ss)"

lemma staged_snoc:
  "staged g V (ss @ [s]) \<longleftrightarrow> staged g V ss \<and> (\<forall>k\<in>set s. set (deps_of g k) \<inter> set (nodes g) \<subseteq> V \<union> set (concat ss))"
  by (induction ss arbitrary: V) (auto simp: Un_assoc)

definition loop_inv :: "graph \<Rightarrow> string set \<Rightarrow> string list \<Rightarrow> (string \<times> int) list \<Rightarrow> bool" where
  "loop_inv g V q ds \<longleftrightarrow> degrees_at g V ds \<and> distinct q \<and> set q \<inter> V = {} \<and> V \<union> set q = {k \<in> set (nodes g). degree ds k = 0}"

lemma degree_zero_deps:
  assumes "degrees_at g V ds" "V \<subseteq> set (nodes g)" "k \<in> set (nodes g)" "degree ds k = 0"
  shows "set (deps_of g k) \<inter> set (nodes g) \<subseteq> V"
proof -
  let ?f = "filter (\<lambda>d. d \<in> set (nodes g)) (deps_of g k)"
  have sub: "set (deps_of g k) \<inter> V \<subseteq> set ?f" using assms(2) by auto
  have "card (set (deps_of g k) \<inter> V) = length ?f" using assms by (simp add: degrees_at_def)
  then have "card (set ?f) \<le> card (set (deps_of g k) \<inter> V)" using card_length [of ?f] by simp
  with sub have "set (deps_of g k) \<inter> V = set ?f" by (intro card_seteq) simp_all
  then show ?thesis by auto
qed

lemma loop_step:
  assumes g: "dict_wf g" and inv: "loop_inv g V q ds"
    and f: "fold (visit g) (sort q) (ds, []) = (ds', nx)"
  shows "loop_inv g (V \<union> set q) nx ds'"
proof -
  have V: "V \<subseteq> set (nodes g)" "set q \<subseteq> set (nodes g)" using inv by (auto simp: loop_inv_def)
  have "degrees_at g (V \<union> set (sort q)) ds' \<and> distinct nx
      \<and> set nx = {k \<in> set (nodes g). degree ds' k = 0} - (V \<union> set q) \<and> (\<forall>k\<in>V \<union> set q. degree ds' k = 0)"
    using inv V by (intro stage_step [OF g _ _ _ _ _ _ _ _ _ f]) (auto simp: loop_inv_def)
  then show ?thesis using V by (auto simp: loop_inv_def)
qed

lemma kahn_correct:
  assumes "dict_wf g"
  shows "loop_inv g (set (concat stages)) q ds \<Longrightarrow> distinct (concat stages) \<Longrightarrow> staged g {} stages \<Longrightarrow>
    \<forall>s\<in>set stages. s \<noteq> [] \<and> sorted s \<Longrightarrow> length (nodes g) - length (concat stages) < fuel \<Longrightarrow>
    \<exists>stages' ds'. kahn g fuel q ds stages = Some (stages', ds') \<and> loop_inv g (set (concat stages')) [] ds'
      \<and> distinct (concat stages') \<and> staged g {} stages' \<and> (\<forall>s\<in>set stages'. s \<noteq> [] \<and> sorted s)"
proof (induction fuel arbitrary: q ds stages)
  case (Suc fuel)
  show ?case
  proof (cases q)
    case Nil
    with Suc.prems show ?thesis by simp
  next
    case (Cons x r)
    define stage where "stage = sort q"
    obtain ds' nx where f: "fold (visit g) stage (ds, []) = (ds', nx)" by fastforce
    note inv = Suc.prems(1)
    have inv': "loop_inv g (set (concat (stages @ [stage]))) nx ds'"
      using loop_step [OF assms inv f [unfolded stage_def]] by (simp add: stage_def)
    have q: "set stage = set q" "distinct stage" using inv by (simp_all add: stage_def loop_inv_def)
    have "set q \<noteq> {}" using Cons by simp
    then have ne: "stage \<noteq> []" unfolding q(1) [symmetric] by auto
    have "set q \<subseteq> set (nodes g)" "set q \<inter> set (concat stages) = {}" using inv unfolding loop_inv_def by blast+
    note set = q ne this [folded q(1)]
    then have d: "distinct (concat (stages @ [stage]))" using Suc.prems(2) by auto
    have V: "set (concat stages) \<subseteq> set (nodes g)" using inv by (auto simp: loop_inv_def)
    have "set (deps_of g k) \<inter> set (nodes g) \<subseteq> set (concat stages)" if "k \<in> set stage" for k
      using that set inv V by (intro degree_zero_deps [of g _ ds k]) (auto simp: loop_inv_def)
    then have st: "staged g {} (stages @ [stage])" using Suc.prems(3) by (simp add: staged_snoc)
    have "length (concat (stages @ [stage])) \<le> length (nodes g)"
    proof -
      have "set (concat (stages @ [stage])) \<subseteq> set (nodes g)" using inv' by (auto simp: loop_inv_def)
      then have "card (set (concat (stages @ [stage]))) \<le> card (set (nodes g))" by (intro card_mono) simp_all
      with d card_length [of "nodes g"] show ?thesis by (metis distinct_card order_trans)
    qed
    with set(3) Suc.prems(5) have "length (nodes g) - length (concat (stages @ [stage])) < fuel" by (cases stage) auto
    moreover have "\<forall>s\<in>set (stages @ [stage]). s \<noteq> [] \<and> sorted s" using Suc.prems(4) ne by (simp add: stage_def)
    ultimately obtain stages' ds2 where "kahn g fuel nx ds' (stages @ [stage]) = Some (stages', ds2)"
      "loop_inv g (set (concat stages')) [] ds2" "distinct (concat stages')" "staged g {} stages'"
      "\<forall>s\<in>set stages'. s \<noteq> [] \<and> sorted s"
      using Suc.IH [OF inv' d st] by blast
    with f show ?thesis by (simp add: Cons stage_def Let_def)
  qed
qed (simp_all)

section \<open>Correctness\<close>

lemma loop_inv_initial:
  assumes "dict_wf g"
  shows "loop_inv g {} (map fst (filter (\<lambda>(k, deg). deg = 0) (initial_degrees g))) (initial_degrees g)"
proof -
  have m: "degree (initial_degrees g) k = int (length (filter (\<lambda>d. d \<in> set (nodes g)) (deps_of g k)))" if "k \<in> set (nodes g)" for k
  proof -
    from that obtain deps where d: "map_of g k = Some deps"
      by (metis map_of_eq_None_iff nodes_def not_None_eq set_map)
    have "map_of (initial_degrees g) k = map_option (\<lambda>deps. int (length (filter (\<lambda>d. d \<in> set (nodes g)) deps))) (map_of g k)"
      by (simp add: initial_degrees_def map_of_map)
    with d show ?thesis by (simp add: degree_def deps_of_def)
  qed
  have keys: "map fst (initial_degrees g) = nodes g" by (simp add: initial_degrees_def nodes_def comp_def case_prod_unfold)
  then have wf: "dict_wf (initial_degrees g)" using assms by (simp add: dict_wf_def nodes_def)
  have "k \<in> set (map fst (filter (\<lambda>(k, deg). deg = 0) (initial_degrees g))) \<longleftrightarrow> k \<in> set (nodes g) \<and> degree (initial_degrees g) k = 0" for k
  proof -
    have "k \<in> set (nodes g) \<longleftrightarrow> (\<exists>n. map_of (initial_degrees g) k = Some n)"
      by (metis keys map_of_eq_None_iff not_None_eq set_map)
    moreover have "k \<in> set (map fst (filter (\<lambda>(k, deg). deg = 0) (initial_degrees g))) \<longleftrightarrow> (k, 0) \<in> set (initial_degrees g)"
      by (force simp: image_iff)
    ultimately show ?thesis unfolding dict_wf_map_of [OF wf] by (auto simp: degree_def)
  qed
  moreover have "distinct (map fst (filter (\<lambda>(k, deg). deg = 0) (initial_degrees g)))"
    using wf by (simp add: dict_wf_def distinct_map_filter)
  ultimately show ?thesis using m by (auto simp: loop_inv_def degrees_at_def)
qed

lemma resolve_cases:
  assumes "dict_wf g"
  obtains stages ds where "loop_inv g (set (concat stages)) [] ds" "distinct (concat stages)" "staged g {} stages"
    "\<forall>s\<in>set stages. s \<noteq> [] \<and> sorted s"
    "resolve g = Some (if set (concat stages) = set (nodes g)
       then Inr \<lparr>dr_execution_order = concat stages, dr_stages = stages, dr_item_dependencies = g\<rparr>
       else Inl (CycleDetectedError (map fst (filter (\<lambda>(k, v). 0 < v) ds))))"
proof -
  obtain stages ds where k: "kahn g (Suc (length (nodes g))) (map fst (filter (\<lambda>(k, deg). deg = 0) (initial_degrees g))) (initial_degrees g) []
      = Some (stages, ds)" "loop_inv g (set (concat stages)) [] ds" "distinct (concat stages)" "staged g {} stages"
      "\<forall>s\<in>set stages. s \<noteq> [] \<and> sorted s"
    using kahn_correct [OF assms, of "[]" "map fst (filter (\<lambda>(k, deg). deg = 0) (initial_degrees g))" "initial_degrees g"
        "Suc (length (nodes g))"] loop_inv_initial [OF assms] by auto
  have "set (concat stages) \<subseteq> set (nodes g)" using k(2) by (auto simp: loop_inv_def)
  moreover have "distinct (nodes g)" using assms by (simp add: dict_wf_def nodes_def)
  ultimately have "length (concat stages) \<noteq> length (nodes g) \<longleftrightarrow> set (concat stages) \<noteq> set (nodes g)"
    using k(3) by (metis List.finite_set card_subset_eq distinct_card)
  with k show thesis by (intro that [OF k(2-5)]) (simp add: resolve_def)
qed

lemma staged_before:
  "staged g V stages \<Longrightarrow> concat stages = xs @ k # ys \<Longrightarrow> set (deps_of g k) \<inter> set (nodes g) \<subseteq> V \<union> set xs"
proof (induction stages arbitrary: V xs)
  case (Cons s ss)
  show ?case
  proof (cases "length xs < length s")
    case True
    then have "k \<in> set s" using Cons.prems(2) by (metis append_eq_append_conv2 concat.simps(2) in_set_conv_decomp length_append
          list.set_intros(1) not_add_less1 nth_append_length nth_append nth_mem)
    with Cons.prems(1) show ?thesis by auto
  next
    case False
    then obtain zs where z: "xs = s @ zs" "concat ss = zs @ k # ys"
      using Cons.prems(2) by (auto simp: append_eq_append_conv2)
    from Cons.IH [OF _ z(2), of "V \<union> set s"] Cons.prems(1) z(1) show ?thesis by auto
  qed
qed simp

text \<open>
  C21. Resolution terminates and its schedule is right: the loop ends within one stage per item and one
  more, and unless it reports a cycle, the order holds every item exactly once, is the
  concatenation of the stages, which are not empty and sorted, and every dependency that is an item of the
  catalogue comes before the items that need it, in an earlier stage.
\<close>

theorem resolve_schedule:
  assumes "dict_wf g"
  shows "\<exists>r. resolve g = Some r \<and> (\<forall>rep. r = Inr rep \<longrightarrow>
    distinct (dr_execution_order rep) \<and> set (dr_execution_order rep) = set (nodes g)
    \<and> dr_execution_order rep = concat (dr_stages rep) \<and> staged g {} (dr_stages rep)
    \<and> (\<forall>s\<in>set (dr_stages rep). s \<noteq> [] \<and> sorted s)
    \<and> (\<forall>xs k ys. dr_execution_order rep = xs @ k # ys \<longrightarrow> set (deps_of g k) \<inter> set (nodes g) \<subseteq> set xs))"
  using assms
proof (cases rule: resolve_cases)
  case (1 stages ds)
  have "set (deps_of g k) \<inter> set (nodes g) \<subseteq> set xs" if "concat stages = xs @ k # ys" for xs k ys
    using staged_before [OF 1(3) that] by simp
  then have "\<forall>xs k ys. concat stages = xs @ k # ys \<longrightarrow> set (deps_of g k) \<inter> set (nodes g) \<subseteq> set xs" by blast
  with 1 show ?thesis by (cases "set (concat stages) = set (nodes g)") (simp_all del: set_concat concat_eq_append_conv)
qed

definition edges :: "graph \<Rightarrow> (string \<times> string) set" where
  "edges g = {(k, d). k \<in> set (nodes g) \<and> d \<in> set (nodes g) \<and> d \<in> set (deps_of g k)}"

lemma finite_edges: "finite (edges g)"
  by (rule finite_subset [of _ "set (nodes g) \<times> set (nodes g)"]) (auto simp: edges_def)

lemma stuck_cyclic:
  assumes "loop_inv g V [] ds" "\<forall>k\<in>set (nodes g). distinct (deps_of g k)" "V \<noteq> set (nodes g)"
  shows "\<not> acyclic (edges g)"
proof
  assume "acyclic (edges g)"
  then have wf: "wf ((edges g)\<inverse>)" using finite_edges finite_acyclic_wf_converse by blast
  have V: "V = {k \<in> set (nodes g). degree ds k = 0}" "degrees_at g V ds" using assms(1) by (auto simp: loop_inv_def)
  then obtain k where k: "k \<in> set (nodes g) - V" using assms(3) by auto
  obtain z where z: "z \<in> set (nodes g) - V" "\<And>y. (y, z) \<in> (edges g)\<inverse> \<Longrightarrow> y \<notin> set (nodes g) - V"
    using wfE_min [OF wf k] by blast
  let ?f = "filter (\<lambda>d. d \<in> set (nodes g)) (deps_of g z)"
  have "set ?f \<subseteq> set (deps_of g z) \<inter> V" using z by (auto simp: edges_def)
  then have "card (set ?f) \<le> card (set (deps_of g z) \<inter> V)" by (intro card_mono) simp_all
  moreover have "card (set ?f) = length ?f" using assms(2) z(1) by (intro distinct_card) simp
  ultimately have "degree ds z \<le> 0" using V(2) z(1) by (simp add: degrees_at_def)
  moreover have "0 \<le> degree ds z"
    using V z(1) card_filter_ge [of V "nodes g" "deps_of g z"] by (auto simp: degrees_at_def)
  ultimately show False using z(1) V(1) by auto
qed

lemma scheduled_acyclic:
  assumes "staged g {} stages" "distinct (concat stages)" "set (concat stages) = set (nodes g)"
  shows "acyclic (edges g)"
proof -
  define p where "p k = length (takeWhile (\<lambda>j. j \<noteq> k) (concat stages))" for k
  have "p d < p k" if e: "(k, d) \<in> edges g" for k d
  proof -
    have "k \<in> set (concat stages)" using e assms(3) by (auto simp: edges_def)
    then obtain xs ys where s: "concat stages = xs @ k # ys" "k \<notin> set xs" by (meson split_list_first)
    have "d \<in> set xs" using staged_before [OF assms(1) s(1)] e by (auto simp: edges_def)
    then obtain us vs where u: "xs = us @ d # vs" "d \<notin> set us" by (meson split_list_first)
    then have "p d = length us" unfolding p_def s(1) by (simp add: takeWhile_append)
    then have "p d < length xs" using u(1) by simp
    moreover have "p k = length xs" unfolding p_def s(1) using s(2) by (simp add: takeWhile_append2 takeWhile_append)
    ultimately show ?thesis by simp
  qed
  then have "edges g \<subseteq> (measure p)\<inverse>" by auto
  moreover have "acyclic ((measure p)\<inverse>)" by (simp add: wf_acyclic)
  ultimately show ?thesis by (rule acyclic_subset [rotated])
qed

text \<open>
  C22. Cycles are detected exactly: if no dependency list repeats an entry, resolution fails with
  \<open>CycleDetectedError\<close> if and only if the dependencies among the items have a cycle.
\<close>

theorem cycle_detection_exact:
  assumes "dict_wf g" and "\<forall>k\<in>set (nodes g). distinct (deps_of g k)"
  shows "(\<exists>ks. resolve g = Some (Inl (CycleDetectedError ks))) \<longleftrightarrow> \<not> acyclic (edges g)"
  using assms(1)
proof (cases rule: resolve_cases)
  case (1 stages ds)
  show ?thesis
  proof (cases "set (concat stages) = set (nodes g)")
    case True
    with 1 scheduled_acyclic [OF 1(3,2)] show ?thesis by simp
  next
    case False
    with 1 stuck_cyclic [OF 1(1) assms(2) False] show ?thesis by simp
  qed
qed

text \<open>
  With a repeated entry in a dependency list resolution reports a cycle where there is none: the
  degree counts the entry twice and the set of dependents lowers it once.
\<close>

theorem repeated_dependency_false_cycle:
  "resolve [(''a'', []), (''b'', [''a'', ''a''])] = Some (Inl (CycleDetectedError [''b'']))
   \<and> acyclic (edges [(''a'', []), (''b'', [''a'', ''a''])])"
proof -
  let ?g = "[(''a'', []), (''b'', [''a'', ''a''])]"
  have "resolve ?g = Some (Inl (CycleDetectedError [''b'']))" by code_simp
  moreover have "edges ?g \<subseteq> {(''b'', ''a'')}" by (auto simp: edges_def nodes_def deps_of_def split: if_splits)
  moreover have "acyclic {(''b'', ''a'')}" by (simp add: acyclic_insert) (simp add: acyclic_def)
  ultimately show ?thesis using acyclic_subset by blast
qed

theorem resolve_schedule_witness:
  "\<exists>rep. resolve [(''c'', [''a'']), (''b'', [''a'']), (''a'', [])] = Some (Inr rep) \<and> distinct (dr_execution_order rep)
     \<and> dr_stages rep = [[''a''], [''b'', ''c'']] \<and> (\<forall>s\<in>set (dr_stages rep). sorted s)"
proof -
  let ?g = "[(''c'', [''a'']), (''b'', [''a'']), (''a'', [])]"
  have d: "dict_wf ?g" by code_simp
  have "case resolve ?g of Some (Inr rep) \<Rightarrow> dr_stages rep = [[''a''], [''b'', ''c'']] | _ \<Rightarrow> False" by code_simp
  with resolve_schedule [OF d] show ?thesis by (auto split: option.splits sum.splits)
qed

theorem cycle_detection_exact_witness:
  "(\<exists>ks. resolve [(''b'', [''a'']), (''a'', [''b''])] = Some (Inl (CycleDetectedError ks))) \<longleftrightarrow> \<not> acyclic (edges [(''b'', [''a'']), (''a'', [''b''])])"
proof -
  have "dict_wf [(''b'', [''a'']), (''a'', [''b''])]" by code_simp
  moreover have "\<forall>k\<in>set (nodes [(''b'', [''a'']), (''a'', [''b''])]). distinct (deps_of [(''b'', [''a'']), (''a'', [''b''])] k)" by code_simp
  ultimately show ?thesis by (rule cycle_detection_exact)
qed

section \<open>Readiness\<close>

lemma node_filter:
  assumes "dict_wf g"
  shows "k \<in> fst ` set (filter (\<lambda>(i, deps). P deps) g) \<longleftrightarrow> k \<in> set (nodes g) \<and> P (deps_of g k)"
proof
  assume "k \<in> fst ` set (filter (\<lambda>(i, deps). P deps) g)"
  then obtain ds where "(k, ds) \<in> set g" "P ds" by auto
  then show "k \<in> set (nodes g) \<and> P (deps_of g k)"
    using dict_wf_map_of [OF assms, of k ds] by (auto simp: nodes_def deps_of_def intro: image_eqI [of _ _ "(k, ds)"])
next
  assume k: "k \<in> set (nodes g) \<and> P (deps_of g k)"
  then obtain ds where d: "(k, ds) \<in> set g" by (auto simp: nodes_def)
  then have "P ds" using k dict_wf_map_of [OF assms, of k ds] by (simp add: deps_of_def)
  with d show "k \<in> fst ` set (filter (\<lambda>(i, deps). P deps) g)" by (intro image_eqI [of _ _ "(k, ds)"]) auto
qed

text \<open>
  Readiness against a set of completions: every item is either eligible or blocked and never
  both, it is eligible exactly when all its dependencies are completed, the eligible items are
  sorted, and a blocked item names exactly its missing dependencies, in their order.
\<close>

theorem readiness_exact:
  assumes "evaluate_readiness g completed = (eligible, blocked)" and "dict_wf g"
  shows "sorted eligible \<and> set eligible \<union> fst ` set blocked = set (nodes g) \<and> set eligible \<inter> fst ` set blocked = {}
    \<and> (\<forall>k\<in>set (nodes g). k \<in> set eligible \<longleftrightarrow> set (deps_of g k) \<subseteq> set completed)
    \<and> (\<forall>(k, missing)\<in>set blocked. missing = filter (\<lambda>d. d \<notin> set completed) (deps_of g k) \<and> missing \<noteq> [])"
proof -
  define miss where "miss deps = filter (\<lambda>d. d \<notin> set completed) deps" for deps :: "string list"
  have e: "eligible = sort (map fst (filter (\<lambda>(i, deps). miss deps = []) g))"
    and b: "blocked = map (\<lambda>(i, deps). (i, miss deps)) (filter (\<lambda>(i, deps). miss deps \<noteq> []) g)"
    using assms(1) by (simp_all add: evaluate_readiness_def miss_def Let_def)
  have dep: "deps_of g k = ds" if "(k, ds) \<in> set g" for k ds
    using that dict_wf_map_of [OF assms(2)] by (simp add: deps_of_def)
  have el: "k \<in> set eligible \<longleftrightarrow> k \<in> set (nodes g) \<and> miss (deps_of g k) = []" for k
    unfolding e using node_filter [OF assms(2), of k "\<lambda>deps. miss deps = []"] by simp
  have "fst ` set blocked = fst ` set (filter (\<lambda>(i, deps). miss deps \<noteq> []) g)"
    unfolding b set_map image_image by (simp add: case_prod_unfold)
  then have bl: "k \<in> fst ` set blocked \<longleftrightarrow> k \<in> set (nodes g) \<and> miss (deps_of g k) \<noteq> []" for k
    using node_filter [OF assms(2), of k "\<lambda>deps. miss deps \<noteq> []"] by simp
  have "miss ds = [] \<longleftrightarrow> set ds \<subseteq> set completed" for ds by (auto simp: miss_def filter_empty_conv)
  moreover have "\<forall>(k, missing)\<in>set blocked. missing = miss (deps_of g k) \<and> missing \<noteq> []" unfolding b using dep by auto
  moreover have "sorted eligible" by (simp add: e)
  moreover have "set eligible \<union> fst ` set blocked = set (nodes g)" "set eligible \<inter> fst ` set blocked = {}"
    using el bl by blast+
  ultimately show ?thesis using el unfolding miss_def by blast
qed

theorem readiness_exact_witness:
  "evaluate_readiness [(''b'', [''a'', ''x'']), (''a'', [])] [''a''] = ([''a''], [(''b'', [''x''])]) \<and> sorted [''a'']"
proof -
  have "evaluate_readiness [(''b'', [''a'', ''x'']), (''a'', [])] [''a''] = ([''a''], [(''b'', [''x''])])"
    "dict_wf [(''b'', [''a'', ''x'']), (''a'', [])]" by code_simp+
  with readiness_exact [OF this] show ?thesis by blast
qed

text \<open>
  The two readers of the ledger disagree on what a finished item is: a release whose result starts
  with BLOCK blocks the item in the queue and completes it for the resolver, and one whose result
  starts with REJECT completes it in the queue and not for the resolver.
\<close>

theorem ledger_readers_disagree:
  "(is_failed_result ''BLOCKED on review'' \<and> counts_as_done (JStr ''BLOCKED on review''))
   \<and> (\<not> is_failed_result ''REJECTED'' \<and> \<not> counts_as_done (JStr ''REJECTED''))
   \<and> load_completed_from_ledger (Some (event_line (release_event ''P1'' ''h'' ''BLOCKED on review'' ''2026-01-01T00:00:00Z''))) = [''P1'']"
  by (intro conjI) code_simp+

end
