(* ===== verification/Fencing.thy ===== *)
theory Fencing
  imports Json Complex_Main
begin

text \<open>
  Leases with fencing tokens: the contract as a locale, the file-backed lock manager
  (courier\_core/lock\_manager.py) and the lease manager with generations
  (courier\_core/fencing\_token.py), which both fulfil it. Clock readings are arguments; a section under
  the lock manager's mutex is one step. Besides the guarantees the theory shows where they end: two
  resource names that share a lock file, a write that is checked but not fenced, and two managers
  on one state file.
\<close>

section \<open>The contract\<close>

text \<open>
  \<open>issued\<close> is the latest token issued for a resource, \<open>accepts\<close> says that a token is honoured at a
  moment. Tokens never go back and only the latest is honoured, so a token that was superseded is
  refused for ever. \<open>legal\<close> restricts the operations the promise is made for.
\<close>

locale fencing =
  fixes step :: "'op \<Rightarrow> 's \<Rightarrow> 's"
    and issued :: "'s \<Rightarrow> 'r \<Rightarrow> int"
    and accepts :: "rat \<Rightarrow> 's \<Rightarrow> 'r \<Rightarrow> int \<Rightarrow> bool"
    and legal :: "'r \<Rightarrow> 'op \<Rightarrow> bool"
  assumes issued_mono: "legal r op \<Longrightarrow> issued s r \<le> issued (step op s) r"
    and accepts_latest: "accepts t s r k \<Longrightarrow> k = issued s r"
begin

lemma issued_run: "list_all (legal r) ops \<Longrightarrow> issued s r \<le> issued (fold step ops s) r"
proof (induction ops arbitrary: s)
  case (Cons op ops)
  then show ?case using issued_mono [of r op s] by (simp) (metis order_trans)
qed simp

lemma superseded_refused:
  assumes "k < issued s r" "list_all (legal r) ops"
  shows "\<not> accepts t (fold step ops s) r k"
  using assms accepts_latest issued_run [OF assms(2), of s] by fastforce

lemma one_token_accepted: "accepts t s r k \<Longrightarrow> accepts t' s r k' \<Longrightarrow> k = k'"
  using accepts_latest by metis

end

section \<open>The lock manager\<close>

record lock_state =
  ls_resource_id :: string
  ls_holder :: string
  ls_fencing_token :: int
  ls_expires_at :: rat
  ls_released :: bool

text \<open>A lock file holds a state that \<open>_save_state\<close> wrote, or something \<open>_load_state\<close> cannot read.\<close>

datatype lock_content = Saved lock_state | Garbled

type_synonym lock_store = "(string \<times> lock_content) list"

record lock_handle =
  lh_resource_id :: string
  lh_holder :: string
  lh_fencing_token :: int
  lh_expires_at :: rat
  lh_released :: bool

text \<open>\<open>str.isalnum\<close> below code point 256\<close>

definition is_alnum :: "char \<Rightarrow> bool" where
  "is_alnum c = (let n = char_code c in (48 \<le> n \<and> n \<le> 57) \<or> (65 \<le> n \<and> n \<le> 90) \<or> (97 \<le> n \<and> n \<le> 122)
     \<or> n \<in> {170, 178, 179, 181, 185, 186, 188, 189, 190} \<or> (192 \<le> n \<and> n \<noteq> 215 \<and> n \<noteq> 247))"

definition is_safe_char :: "char \<Rightarrow> bool" where
  "is_safe_char c \<longleftrightarrow> is_alnum c \<or> c = CHR ''-'' \<or> c = CHR ''_''"

definition sanitize :: "string \<Rightarrow> string" where
  "sanitize r = map (\<lambda>c. if is_safe_char c then c else CHR ''_'') r"

definition safe_id :: "(string \<Rightarrow> string) \<Rightarrow> string \<Rightarrow> string" where
  "safe_id H r = (if sanitize r \<noteq> r then sanitize r @ ''__'' @ take 12 (H r) else sanitize r)"

definition lock_file :: "(string \<Rightarrow> string) \<Rightarrow> string \<Rightarrow> string" where
  "lock_file H r = safe_id H r @ ''.lock.json''"

definition load_state :: "(string \<Rightarrow> string) \<Rightarrow> lock_store \<Rightarrow> string \<Rightarrow> lock_state option" where
  "load_state H st r = (case map_of st (lock_file H r) of
     Some (Saved state) \<Rightarrow> if ls_resource_id state \<noteq> r then None else Some state
   | _ \<Rightarrow> None)"

definition save_state :: "(string \<Rightarrow> string) \<Rightarrow> lock_state \<Rightarrow> lock_store \<Rightarrow> lock_store" where
  "save_state H state st = AList.update (lock_file H (ls_resource_id state)) (Saved state) st"

definition is_live :: "lock_state \<Rightarrow> rat \<Rightarrow> bool" where
  "is_live state now \<longleftrightarrow> \<not> ls_released state \<and> now < ls_expires_at state"

definition handle_of :: "lock_state \<Rightarrow> lock_handle" where
  "handle_of state = \<lparr>lh_resource_id = ls_resource_id state, lh_holder = ls_holder state,
     lh_fencing_token = ls_fencing_token state, lh_expires_at = ls_expires_at state, lh_released = False\<rparr>"

definition lock_acquire :: "(string \<Rightarrow> string) \<Rightarrow> string \<Rightarrow> string \<Rightarrow> rat \<Rightarrow> rat \<Rightarrow> lock_store \<Rightarrow> lock_handle option \<times> lock_store" where
  "lock_acquire H r holder ttl now st =
     (let fresh = (\<lambda>prev. let state = \<lparr>ls_resource_id = r, ls_holder = holder, ls_fencing_token = prev + 1,
            ls_expires_at = now + ttl, ls_released = False\<rparr> in (Some (handle_of state), save_state H state st))
      in case load_state H st r of
        None \<Rightarrow> fresh 0
      | Some state \<Rightarrow>
          (if is_live state now then
             (if ls_holder state = holder then
                (let state' = state\<lparr>ls_expires_at := now + ttl\<rparr> in (Some (handle_of state'), save_state H state' st))
              else (None, st))
           else fresh (ls_fencing_token state)))"

definition lock_renew :: "(string \<Rightarrow> string) \<Rightarrow> lock_handle \<Rightarrow> rat \<Rightarrow> rat \<Rightarrow> lock_store \<Rightarrow> (bool \<times> lock_handle) \<times> lock_store" where
  "lock_renew H handle ttl now st = (case load_state H st (lh_resource_id handle) of
     None \<Rightarrow> ((False, handle), st)
   | Some state \<Rightarrow>
       (if is_live state now \<and> ls_holder state = lh_holder handle \<and> ls_fencing_token state = lh_fencing_token handle
        then ((True, handle\<lparr>lh_expires_at := now + ttl\<rparr>), save_state H (state\<lparr>ls_expires_at := now + ttl\<rparr>) st)
        else ((False, handle), st)))"

definition lock_release :: "(string \<Rightarrow> string) \<Rightarrow> lock_handle \<Rightarrow> lock_store \<Rightarrow> (bool \<times> lock_handle) \<times> lock_store" where
  "lock_release H handle st = (case load_state H st (lh_resource_id handle) of
     None \<Rightarrow> ((False, handle), st)
   | Some state \<Rightarrow>
       (if \<not> ls_released state \<and> ls_holder state = lh_holder handle \<and> ls_fencing_token state = lh_fencing_token handle
        then ((True, handle\<lparr>lh_released := True\<rparr>), save_state H (state\<lparr>ls_released := True\<rparr>) st)
        else ((False, handle), st)))"

definition validate_token :: "(string \<Rightarrow> string) \<Rightarrow> string \<Rightarrow> int \<Rightarrow> rat \<Rightarrow> lock_store \<Rightarrow> bool" where
  "validate_token H r token now st = (case load_state H st r of
     None \<Rightarrow> False
   | Some state \<Rightarrow> (if ls_released state then False else if ls_expires_at state < now then False
       else ls_fencing_token state = token))"

definition is_active :: "(string \<Rightarrow> string) \<Rightarrow> lock_handle \<Rightarrow> rat \<Rightarrow> lock_store \<Rightarrow> bool" where
  "is_active H handle now st = (if lh_released handle then False
     else validate_token H (lh_resource_id handle) (lh_fencing_token handle) now st)"

text \<open>
  \<open>guard_write\<close> checks the token and then runs the action, not under the mutex: between the two
  other operations may change the store, here \<open>between\<close>.
\<close>

definition guard_write ::
  "(string \<Rightarrow> string) \<Rightarrow> string \<Rightarrow> int \<Rightarrow> rat \<Rightarrow> (lock_store \<Rightarrow> lock_store) \<Rightarrow> (lock_store \<Rightarrow> 'a) \<Rightarrow> lock_store \<Rightarrow> 'a result \<times> lock_store" where
  "guard_write H r token now between write st =
     (if \<not> validate_token H r token now st then (Inl (StaleFencingTokenError r), st)
      else (let st' = between st in (Inr (write st'), st')))"

subsection \<open>It is a fencing contract\<close>

datatype lock_op =
    LockAcquire string string rat rat
  | LockRenew lock_handle rat rat
  | LockRelease lock_handle

fun lock_step :: "(string \<Rightarrow> string) \<Rightarrow> lock_op \<Rightarrow> lock_store \<Rightarrow> lock_store" where
  "lock_step H (LockAcquire r holder ttl now) st = snd (lock_acquire H r holder ttl now st)"
| "lock_step H (LockRenew handle ttl now) st = snd (lock_renew H handle ttl now st)"
| "lock_step H (LockRelease handle) st = snd (lock_release H handle st)"

fun op_resource :: "lock_op \<Rightarrow> string" where
  "op_resource (LockAcquire r holder ttl now) = r"
| "op_resource (LockRenew handle ttl now) = lh_resource_id handle"
| "op_resource (LockRelease handle) = lh_resource_id handle"

definition issued_token :: "(string \<Rightarrow> string) \<Rightarrow> lock_store \<Rightarrow> string \<Rightarrow> int" where
  "issued_token H st r = (case load_state H st r of None \<Rightarrow> 0 | Some state \<Rightarrow> ls_fencing_token state)"

text \<open>An operation on the resource itself, or on one with another lock file.\<close>

definition separate :: "(string \<Rightarrow> string) \<Rightarrow> string \<Rightarrow> lock_op \<Rightarrow> bool" where
  "separate H r op \<longleftrightarrow> op_resource op = r \<or> lock_file H (op_resource op) \<noteq> lock_file H r"

lemma load_save_same: "ls_resource_id state = r \<Longrightarrow> load_state H (save_state H state st) r = Some state"
  by (simp add: load_state_def save_state_def)

lemma load_save_other: "lock_file H (ls_resource_id state) \<noteq> lock_file H r \<Longrightarrow> load_state H (save_state H state st) r = load_state H st r"
  by (simp add: load_state_def save_state_def)

lemma load_state_resource: "load_state H st r = Some state \<Longrightarrow> ls_resource_id state = r"
  by (auto simp: load_state_def split: option.splits lock_content.splits if_splits)

lemma lock_step_cases:
  obtains "lock_step H op st = st"
    | state where "lock_step H op st = save_state H state st" "ls_resource_id state = op_resource op"
      "issued_token H st (op_resource op) \<le> ls_fencing_token state"
proof (cases op)
  case (LockAcquire r holder ttl now)
  show thesis
  proof (cases "load_state H st r")
    case None
    then show thesis using LockAcquire that(2) by (simp add: lock_acquire_def issued_token_def Let_def)
  next
    case (Some state)
    then show thesis
      using LockAcquire that load_state_resource [OF Some]
      by (cases "is_live state now"; cases "ls_holder state = holder")
        (simp_all add: lock_acquire_def issued_token_def Let_def)
  qed
next
  case (LockRenew handle ttl now)
  show thesis
  proof (cases "load_state H st (lh_resource_id handle)")
    case None
    then show thesis using LockRenew that(1) by (simp add: lock_renew_def)
  next
    case (Some state)
    then show thesis
      using LockRenew that load_state_resource [OF Some]
      by (cases "is_live state now \<and> ls_holder state = lh_holder handle \<and> ls_fencing_token state = lh_fencing_token handle")
        (simp_all add: lock_renew_def issued_token_def)
  qed
next
  case (LockRelease handle)
  show thesis
  proof (cases "load_state H st (lh_resource_id handle)")
    case None
    then show thesis using LockRelease that(1) by (simp add: lock_release_def)
  next
    case (Some state)
    then show thesis
      using LockRelease that load_state_resource [OF Some]
      by (cases "\<not> ls_released state \<and> ls_holder state = lh_holder handle \<and> ls_fencing_token state = lh_fencing_token handle")
        (simp_all add: lock_release_def issued_token_def)
  qed
qed

interpretation locks: fencing "lock_step H" "issued_token H" "\<lambda>t st r k. validate_token H r k t st" "separate H" for H
proof
  fix r op st
  assume "separate H r op"
  then show "issued_token H st r \<le> issued_token H (lock_step H op st) r"
    by (cases rule: lock_step_cases [of H op st])
      (auto simp: separate_def issued_token_def load_save_same load_save_other)
next
  fix t st r k
  assume "validate_token H r k t st"
  then show "k = issued_token H st r"
    by (auto simp: validate_token_def issued_token_def split: option.splits if_splits)
qed

lemma lock_acquire_result:
  assumes "lock_acquire H r holder ttl now st = (Some h, st')"
  shows "load_state H st' r = Some \<lparr>ls_resource_id = r, ls_holder = holder,
      ls_fencing_token = lh_fencing_token h, ls_expires_at = lh_expires_at h, ls_released = False\<rparr>"
    and "lh_expires_at h = now + ttl" and "lh_resource_id h = r" and "lh_holder h = holder"
    and "issued_token H st r \<le> lh_fencing_token h"
    and "issued_token H st' r = lh_fencing_token h"
proof -
  show loaded: "load_state H st' r = Some \<lparr>ls_resource_id = r, ls_holder = holder,
      ls_fencing_token = lh_fencing_token h, ls_expires_at = lh_expires_at h, ls_released = False\<rparr>"
    using assms load_state_resource [of H st r]
    by (auto simp: lock_acquire_def Let_def handle_of_def load_save_same is_live_def intro!: load_save_same
      split: option.splits if_splits)
  show "lh_expires_at h = now + ttl" "lh_resource_id h = r" "lh_holder h = holder"
    using assms load_state_resource [of H st r]
    by (auto simp: lock_acquire_def Let_def handle_of_def split: option.splits if_splits)
  show "issued_token H st r \<le> lh_fencing_token h"
    using assms by (auto simp: lock_acquire_def Let_def handle_of_def issued_token_def split: option.splits if_splits)
  show "issued_token H st' r = lh_fencing_token h"
    by (simp add: issued_token_def loaded)
qed

subsection \<open>Exclusion\<close>

text \<open>
  What others may do to a lock that \<open>holder\<close> has until \<open>e\<close>: anything to a resource with another lock
  file, and to the resource itself any call that does not come from \<open>holder\<close>, an acquire before \<open>e\<close>.
\<close>

fun foreign :: "(string \<Rightarrow> string) \<Rightarrow> string \<Rightarrow> string \<Rightarrow> rat \<Rightarrow> lock_op \<Rightarrow> bool" where
  "foreign H r holder e (LockAcquire r' holder' ttl now) \<longleftrightarrow>
     (if r' = r then holder' \<noteq> holder \<and> now < e else lock_file H r' \<noteq> lock_file H r)"
| "foreign H r holder e (LockRenew handle ttl now) \<longleftrightarrow>
     (if lh_resource_id handle = r then lh_holder handle \<noteq> holder else lock_file H (lh_resource_id handle) \<noteq> lock_file H r)"
| "foreign H r holder e (LockRelease handle) \<longleftrightarrow>
     (if lh_resource_id handle = r then lh_holder handle \<noteq> holder else lock_file H (lh_resource_id handle) \<noteq> lock_file H r)"

lemma lock_step_elsewhere:
  assumes "lock_file H (op_resource op) \<noteq> lock_file H r"
  shows "load_state H (lock_step H op st) r = load_state H st r"
  using assms by (cases rule: lock_step_cases [of H op st]) (auto simp: load_save_other)

lemma foreign_step:
  assumes "load_state H st r = Some state" "\<not> ls_released state" "foreign H r (ls_holder state) (ls_expires_at state) op"
  shows "load_state H (lock_step H op st) r = Some state"
proof (cases "op_resource op = r")
  case True
  then show ?thesis
    using assms by (cases op) (auto simp: lock_acquire_def lock_renew_def lock_release_def is_live_def)
next
  case False
  then have "lock_file H (op_resource op) \<noteq> lock_file H r" using assms(3) by (cases op) simp_all
  then show ?thesis using assms(1) by (simp add: lock_step_elsewhere)
qed

lemma foreign_run:
  assumes "load_state H st r = Some state" "\<not> ls_released state"
    "list_all (foreign H r (ls_holder state) (ls_expires_at state)) ops"
  shows "load_state H (fold (lock_step H) ops st) r = Some state"
  using assms(1,3) by (induction ops arbitrary: st) (simp_all add: foreign_step assms(2))

text \<open>
  C23. A lock is exclusive until it expires: once \<open>acquire\<close> has given \<open>holder\<close> a handle, then after any calls of
  other holders on the same resource, acquires among them while the lock has not expired, and any calls on
  resources that have another lock file, the handle is valid up to its expiry, and every acquire by another
  holder before the expiry returns None and writes nothing. (Calls on another resource that shares the lock
  file, which different identifiers may, are not among these: see \<open>lock_file_shared\<close>.)
\<close>

theorem lock_exclusive:
  assumes "lock_acquire H r holder ttl now st = (Some h, st')"
    and "list_all (foreign H r holder (lh_expires_at h)) ops"
    and "t \<le> lh_expires_at h" and "t' < lh_expires_at h" and "other \<noteq> holder"
  shows "is_active H h t (fold (lock_step H) ops st')
    \<and> lock_acquire H r other ttl' t' (fold (lock_step H) ops st') = (None, fold (lock_step H) ops st')"
proof (intro conjI)
  note res = lock_acquire_result [OF assms(1)]
  have run: "load_state H (fold (lock_step H) ops st') r = Some \<lparr>ls_resource_id = r, ls_holder = holder,
      ls_fencing_token = lh_fencing_token h, ls_expires_at = lh_expires_at h, ls_released = False\<rparr>"
    using foreign_run [OF res(1)] assms(2) by simp
  have "\<not> lh_released h" using assms(1)
    by (auto simp: lock_acquire_def Let_def handle_of_def split: option.splits if_splits)
  then show "is_active H h t (fold (lock_step H) ops st')"
    using assms(3) by (simp add: is_active_def validate_token_def res(3) run)
  show "lock_acquire H r other ttl' t' (fold (lock_step H) ops st') = (None, fold (lock_step H) ops st')"
    using assms(4,5) by (simp add: lock_acquire_def run is_live_def)
qed

lemma repo_docs_apart: "lock_file id ''docs'' \<noteq> lock_file id ''repo''"
  by code_simp

theorem lock_exclusive_witness:
  "fst (lock_acquire id ''repo'' ''w2'' 30 129
    (fold (lock_step id) [LockAcquire ''repo'' ''w2'' 30 110, LockAcquire ''docs'' ''w2'' 5 111]
      (snd (lock_acquire id ''repo'' ''w1'' 30 100 [])))) = None"
proof -
  define st where "st = snd (lock_acquire id ''repo'' ''w1'' 30 100 [])"
  define h where "h = \<lparr>lh_resource_id = ''repo'', lh_holder = ''w1'', lh_fencing_token = 1,
    lh_expires_at = 130, lh_released = False\<rparr>"
  have acq: "lock_acquire id ''repo'' ''w1'' 30 100 [] = (Some h, st)"
    by (simp add: st_def h_def lock_acquire_def load_state_def handle_of_def Let_def)
  have "list_all (foreign id ''repo'' ''w1'' (lh_expires_at h))
      [LockAcquire ''repo'' ''w2'' 30 110, LockAcquire ''docs'' ''w2'' 5 111]"
    by (simp add: h_def repo_docs_apart)
  from lock_exclusive [OF acq this, of 100 129 "''w2''" 30] show ?thesis by (simp add: h_def st_def)
qed

text \<open>
  A superseded lock token is refused for ever: after a token above \<open>k\<close> was issued for a resource,
  \<open>guard_write\<close> with \<open>k\<close> raises at every later moment, whatever operations follow on the resource or on
  resources with another lock file.
\<close>

theorem stale_lock_token_refused:
  assumes "lock_acquire H r holder ttl now st = (Some h, st')" and "k < lh_fencing_token h"
    and "list_all (separate H r) ops"
  shows "fst (guard_write H r k t between write (fold (lock_step H) ops st')) = Inl (StaleFencingTokenError r)"
  using locks.superseded_refused [OF _ assms(3)] lock_acquire_result(6) [OF assms(1)] assms(2)
  by (simp add: guard_write_def)

theorem stale_lock_token_refused_witness:
  "fst (guard_write id ''repo'' 1 140 id (\<lambda>_. True) (snd (lock_acquire id ''repo'' ''w2'' 30 131
     (snd (lock_acquire id ''repo'' ''w1'' 30 100 []))))) = Inl (StaleFencingTokenError ''repo'')"
proof -
  define h where "h = \<lparr>lh_resource_id = ''repo'', lh_holder = ''w2'', lh_fencing_token = 2,
    lh_expires_at = 161, lh_released = False\<rparr>"
  define st where "st = snd (lock_acquire id ''repo'' ''w2'' 30 131 (snd (lock_acquire id ''repo'' ''w1'' 30 100 [])))"
  have "lock_acquire id ''repo'' ''w2'' 30 131 (snd (lock_acquire id ''repo'' ''w1'' 30 100 [])) = (Some h, st)"
    by (simp add: st_def h_def lock_acquire_def load_state_def save_state_def is_live_def handle_of_def Let_def)
  from stale_lock_token_refused [OF this, of 1 "[]" 140 id "\<lambda>_. True"] show ?thesis by (simp add: h_def st_def)
qed

subsection \<open>Where the promise ends\<close>

text \<open>
  The digest is appended only to names that needed sanitising, so the sanitised name with its digest is
  itself a legal resource id with the very same lock file. Each of the two then overwrites the
  other's state: the holder of the first loses its lock unexpired, and its fencing token starts again
  at 1.
\<close>

lemma sanitize_id: "list_all is_safe_char r \<Longrightarrow> sanitize r = r"
  by (induction r) (simp_all add: sanitize_def)

lemma sanitize_safe: "list_all is_safe_char (sanitize r)"
  by (auto simp: sanitize_def list_all_iff is_safe_char_def)

lemma safe_id_collides:
  assumes "sanitize r \<noteq> r" "list_all is_safe_char (take 12 (H r))"
  shows "lock_file H (safe_id H r) = lock_file H r" and "safe_id H r \<noteq> r"
proof -
  have "list_all is_safe_char (safe_id H r)"
    using assms by (simp add: safe_id_def sanitize_safe) (simp add: is_safe_char_def)
  then have san: "sanitize (safe_id H r) = safe_id H r" by (rule sanitize_id)
  then show "lock_file H (safe_id H r) = lock_file H r" by (simp add: lock_file_def safe_id_def [of H "safe_id H r"])
  show "safe_id H r \<noteq> r" using san assms(1) by metis
qed

theorem lock_file_shared:
  assumes "sanitize r \<noteq> r" "list_all is_safe_char (take 12 (H r))"
    and "lock_acquire H r holder ttl now st = (Some h, st')"
    and second: "snd (lock_acquire H (safe_id H r) other ttl' t st') = st''"
  shows "\<not> validate_token H r (lh_fencing_token h) t'' st''"
    and "map_option lh_fencing_token (fst (lock_acquire H r third ttl' t'' st'')) = Some 1"
proof -
  have col: "lock_file H (safe_id H r) = lock_file H r" "safe_id H r \<noteq> r" using safe_id_collides assms(1,2) by blast+
  have "load_state H st' (safe_id H r) = None"
    using lock_acquire_result(1) [OF assms(3)] col by (auto simp: load_state_def split: option.splits lock_content.splits if_splits)
  then have "load_state H st'' r = None"
    using col by (simp add: second [symmetric] lock_acquire_def Let_def load_state_def save_state_def)
  then show "\<not> validate_token H r (lh_fencing_token h) t'' st''"
    and "map_option lh_fencing_token (fst (lock_acquire H r third ttl' t'' st'')) = Some 1"
    by (simp_all add: validate_token_def lock_acquire_def Let_def handle_of_def)
qed

text \<open>
  \<open>guard_write\<close> validates before it writes and does not hold the mutex while it writes: when another
  holder acquires in between, after the lease ran out, the write is made under a superseded token.
\<close>

theorem guard_write_not_fenced:
  assumes "lock_acquire H r holder ttl now st = (Some h, st')" "t \<le> lh_expires_at h" "lh_expires_at h \<le> t'"
  shows "fst (guard_write H r (lh_fencing_token h) t (lock_step H (LockAcquire r other ttl' t'))
    (validate_token H r (lh_fencing_token h) t') st') = Inr False"
proof -
  have "load_state H (lock_step H (LockAcquire r other ttl' t') st') r = Some \<lparr>ls_resource_id = r, ls_holder = other,
      ls_fencing_token = lh_fencing_token h + 1, ls_expires_at = t' + ttl', ls_released = False\<rparr>"
    using lock_acquire_result(1) [OF assms(1)] assms(3) by (simp add: lock_acquire_def is_live_def Let_def load_save_same)
  moreover have "validate_token H r (lh_fencing_token h) t st'"
    using lock_acquire_result(1) [OF assms(1)] assms(2) by (simp add: validate_token_def)
  ultimately show ?thesis by (simp add: guard_write_def validate_token_def)
qed

section \<open>The lease manager with generations\<close>

record fence_record =
  fr_resource_id :: string
  fr_holder :: string
  fr_generation :: int
  fr_acquired_at :: rat
  fr_expires_at :: rat
  fr_highest_committed :: int

type_synonym fence_table = "(string \<times> fence_record) list"

text \<open>The state file: missing, not readable as a table, or a table that \<open>_save\<close> wrote.\<close>

datatype fence_file = NoFile | UnreadableTable | Table fence_table

record fence_manager =
  fm_resources :: fence_table
  fm_file :: fence_file

definition fm_load :: "fence_file \<Rightarrow> fence_manager" where
  "fm_load f = \<lparr>fm_resources = (case f of NoFile \<Rightarrow> [] | UnreadableTable \<Rightarrow> [] | Table rs \<Rightarrow> rs), fm_file = f\<rparr>"

definition fm_save :: "fence_table \<Rightarrow> fence_manager \<Rightarrow> fence_manager" where
  "fm_save rs m = \<lparr>fm_resources = rs, fm_file = Table rs\<rparr>"

definition name_ok :: "string \<Rightarrow> bool" where
  "name_ok s \<longleftrightarrow> strip s \<noteq> [] \<and> CHR 0x00 \<notin> set s"

definition fm_acquire :: "string \<Rightarrow> string \<Rightarrow> rat \<Rightarrow> rat \<Rightarrow> fence_manager \<Rightarrow> fence_record result \<times> fence_manager" where
  "fm_acquire r holder ttl now m =
     (if \<not> name_ok r then (Inl (FencingError ''resource_id must be a non-empty string without NUL''), m)
      else if \<not> name_ok holder then (Inl (FencingError ''holder must be a non-empty string without NUL''), m)
      else (let existing = map_of (fm_resources m) r in
        if (case existing of None \<Rightarrow> False | Some e \<Rightarrow> now < fr_expires_at e \<and> fr_holder e \<noteq> holder)
        then (Inl (LeaseConflictError r), m)
        else (let record = \<lparr>fr_resource_id = r, fr_holder = holder,
                 fr_generation = (case existing of None \<Rightarrow> 1 | Some e \<Rightarrow> fr_generation e + 1),
                 fr_acquired_at = now, fr_expires_at = now + ttl,
                 fr_highest_committed = (case existing of None \<Rightarrow> 0 | Some e \<Rightarrow> fr_highest_committed e)\<rparr>
              in (Inr record, fm_save (AList.update r record (fm_resources m)) m))))"

definition validate_and_commit :: "string \<Rightarrow> int \<Rightarrow> string option \<Rightarrow> rat \<Rightarrow> fence_manager \<Rightarrow> bool result \<times> fence_manager" where
  "validate_and_commit r generation holder now m = (case map_of (fm_resources m) r of
     None \<Rightarrow> (Inl (StaleFencingTokenError ''no active lease''), m)
   | Some e \<Rightarrow>
       (if holder \<noteq> None \<and> holder \<noteq> Some (fr_holder e) then (Inl (StaleFencingTokenError ''holder mismatch''), m)
        else if generation < fr_highest_committed e \<or> generation \<noteq> fr_generation e
        then (Inl (StaleFencingTokenError ''current committed generation''), m)
        else if fr_expires_at e \<le> now then (Inl (StaleFencingTokenError ''lease expired''), m)
        else (Inr True, fm_save (AList.update r (e\<lparr>fr_highest_committed := max (fr_highest_committed e) generation\<rparr>)
          (fm_resources m)) m)))"

definition fm_release :: "string \<Rightarrow> string \<Rightarrow> int option \<Rightarrow> fence_manager \<Rightarrow> bool \<times> fence_manager" where
  "fm_release r holder generation m = (case map_of (fm_resources m) r of
     None \<Rightarrow> (False, m)
   | Some e \<Rightarrow>
       (if fr_holder e = holder then
          (if generation \<noteq> None \<and> generation \<noteq> Some (fr_generation e) then (False, m)
           else (True, fm_save (AList.update r (e\<lparr>fr_expires_at := 0\<rparr>) (fm_resources m)) m))
        else (False, m)))"

definition fm_inspect :: "string \<Rightarrow> fence_manager \<Rightarrow> fence_record option" where
  "fm_inspect r m = map_of (fm_resources m) r"

datatype fence_op =
    FmAcquire string string rat rat
  | FmCommit string int "string option" rat
  | FmRelease string string "int option"

fun fm_step :: "fence_op \<Rightarrow> fence_manager \<Rightarrow> fence_manager" where
  "fm_step (FmAcquire r holder ttl now) m = snd (fm_acquire r holder ttl now m)"
| "fm_step (FmCommit r generation holder now) m = snd (validate_and_commit r generation holder now m)"
| "fm_step (FmRelease r holder generation) m = snd (fm_release r holder generation m)"

definition generation_of :: "fence_manager \<Rightarrow> string \<Rightarrow> int" where
  "generation_of m r = (case fm_inspect r m of None \<Rightarrow> 0 | Some e \<Rightarrow> fr_generation e)"

definition committed_of :: "fence_manager \<Rightarrow> string \<Rightarrow> int" where
  "committed_of m r = (case fm_inspect r m of None \<Rightarrow> 0 | Some e \<Rightarrow> fr_highest_committed e)"

definition commits :: "rat \<Rightarrow> fence_manager \<Rightarrow> string \<Rightarrow> int \<Rightarrow> bool" where
  "commits t m r k \<longleftrightarrow> fst (validate_and_commit r k None t m) = Inr True"

text \<open>Every step keeps the table or writes one record: the shape the invariants are proved over.\<close>

lemma fm_step_cases:
  obtains "fm_step op m = m"
    | r e where "fm_step op m = fm_save (AList.update r e (fm_resources m)) m"
      "generation_of m r \<le> fr_generation e" "committed_of m r \<le> fr_highest_committed e"
      "committed_of m r \<le> generation_of m r \<Longrightarrow> fr_highest_committed e \<le> fr_generation e"
proof (cases op)
  case (FmAcquire r holder ttl now)
  define e where "e = \<lparr>fr_resource_id = r, fr_holder = holder, fr_generation = generation_of m r + 1,
    fr_acquired_at = now, fr_expires_at = now + ttl, fr_highest_committed = committed_of m r\<rparr>"
  have "fm_step op m = m \<or> fm_step op m = fm_save (AList.update r e (fm_resources m)) m"
    unfolding FmAcquire by (cases "fm_inspect r m")
      (simp_all add: fm_acquire_def e_def generation_of_def committed_of_def fm_inspect_def Let_def)
  then show thesis using that(1) that(2) [of r e] by (auto simp: e_def)
next
  case (FmCommit r generation holder now)
  show thesis
  proof (cases "fm_inspect r m")
    case None
    then show thesis using FmCommit that(1) by (simp add: validate_and_commit_def fm_inspect_def)
  next
    case (Some e)
    define e' where "e' = e\<lparr>fr_highest_committed := max (fr_highest_committed e) (fr_generation e)\<rparr>"
    have "fm_step op m = m \<or> fm_step op m = fm_save (AList.update r e' (fm_resources m)) m"
      using Some unfolding FmCommit by (simp add: validate_and_commit_def fm_inspect_def e'_def)
    then show thesis
      using that(1) that(2) [of r e'] by (auto simp: e'_def generation_of_def committed_of_def Some)
  qed
next
  case (FmRelease r holder generation)
  show thesis
  proof (cases "fm_inspect r m")
    case None
    then show thesis using FmRelease that(1) by (simp add: fm_release_def fm_inspect_def)
  next
    case (Some e)
    have "fm_step op m = m \<or> fm_step op m = fm_save (AList.update r (e\<lparr>fr_expires_at := 0\<rparr>) (fm_resources m)) m"
      using Some unfolding FmRelease by (simp add: fm_release_def fm_inspect_def)
    then show thesis
      using that(1) that(2) [of r "e\<lparr>fr_expires_at := 0\<rparr>"] by (auto simp: generation_of_def committed_of_def Some)
  qed
qed

lemma inspect_save: "fm_inspect r' (fm_save (AList.update r e rs) m) = (if r' = r then Some e else map_of rs r')"
  by (simp add: fm_inspect_def fm_save_def update_conv')

lemma generation_save:
  "generation_of (fm_save (AList.update r e (fm_resources m)) m) r' = (if r' = r then fr_generation e else generation_of m r')"
  "committed_of (fm_save (AList.update r e (fm_resources m)) m) r' = (if r' = r then fr_highest_committed e else committed_of m r')"
  by (simp_all add: generation_of_def committed_of_def inspect_save) (simp_all add: fm_inspect_def)

interpretation leases: fencing fm_step generation_of commits "\<lambda>_ _. True"
proof
  fix r op m
  show "generation_of m r \<le> generation_of (fm_step op m) r"
    by (cases rule: fm_step_cases [of op m]) (simp_all add: generation_save)
next
  fix t m r k
  assume "commits t m r k"
  then show "k = generation_of m r"
    by (auto simp: commits_def validate_and_commit_def generation_of_def fm_inspect_def split: option.splits if_splits)
qed

text \<open>Commits are ordered too: what was committed never goes back, nor ahead of what was issued.\<close>

definition fenced :: "fence_manager \<Rightarrow> bool" where
  "fenced m \<longleftrightarrow> (\<forall>r. committed_of m r \<le> generation_of m r)"

lemma fenced_step: "fenced m \<Longrightarrow> fenced (fm_step op m)"
  by (cases rule: fm_step_cases [of op m]) (simp_all add: fenced_def generation_save)

lemma fenced_run: "fenced m \<Longrightarrow> fenced (fold fm_step ops m)"
  by (induction ops arbitrary: m) (simp_all add: fenced_step)

lemma committed_mono: "committed_of m r \<le> committed_of (fold fm_step ops m) r"
proof (induction ops arbitrary: m)
  case (Cons op ops)
  have "committed_of m r \<le> committed_of (fm_step op m) r"
    by (cases rule: fm_step_cases [of op m]) (simp_all add: generation_save)
  also have "\<dots> \<le> committed_of (fold fm_step ops (fm_step op m)) r" by (rule Cons.IH)
  finally show ?case by simp
qed simp

lemma committed_after: "commits t m r k \<Longrightarrow> committed_of (fm_step (FmCommit r k None t) m) r = max (committed_of m r) k"
  by (auto simp: commits_def validate_and_commit_def committed_of_def fm_save_def update_conv' fm_inspect_def
    split: option.splits if_splits)

text \<open>
  Commits through the lease manager are in order of their generations: a commit that is accepted
  carries the latest generation, and after it every commit with a smaller one is refused, whatever
  acquires, commits and releases came in between.
\<close>

theorem commits_in_generation_order:
  assumes "commits t m r k" and "commits t' (fold fm_step ops (fm_step (FmCommit r k None t) m)) r k'"
  shows "k \<le> k' \<and> k = generation_of m r
    \<and> k \<le> committed_of (fold fm_step ops (fm_step (FmCommit r k None t) m)) r"
proof (intro conjI)
  show gen: "k = generation_of m r" by (rule leases.accepts_latest [OF assms(1)])
  have "generation_of m r \<le> generation_of (fold fm_step (FmCommit r k None t # ops) m) r"
    by (rule leases.issued_run) (simp add: list_all_iff)
  then show "k \<le> k'" using leases.accepts_latest [OF assms(2)] gen by simp
  show "k \<le> committed_of (fold fm_step ops (fm_step (FmCommit r k None t) m)) r"
    using committed_mono [of "fm_step (FmCommit r k None t) m" r ops] committed_after [OF assms(1)] by simp
qed

definition two_commits :: "fence_op list" where
  "two_commits = [FmRelease ''repo'' ''w1'' (Some 1), FmAcquire ''repo'' ''w2'' 30 101]"

theorem commits_in_generation_order_witness:
  "(1::int) \<le> 2 \<and> (1::int) = generation_of (snd (fm_acquire ''repo'' ''w1'' 30 100 (fm_load NoFile))) ''repo''
    \<and> 1 \<le> committed_of (fold fm_step two_commits (fm_step (FmCommit ''repo'' 1 None 100)
      (snd (fm_acquire ''repo'' ''w1'' 30 100 (fm_load NoFile))))) ''repo''"
proof -
  have "commits 100 (snd (fm_acquire ''repo'' ''w1'' 30 100 (fm_load NoFile))) ''repo'' 1" by code_simp
  moreover have "commits 102 (fold fm_step two_commits (fm_step (FmCommit ''repo'' 1 None 100)
      (snd (fm_acquire ''repo'' ''w1'' 30 100 (fm_load NoFile))))) ''repo'' 2" by code_simp
  ultimately show ?thesis by (rule commits_in_generation_order)
qed

text \<open>What a manager holds is what it last saved, so a manager opened on the file later agrees with it.\<close>

definition saved :: "fence_manager \<Rightarrow> bool" where
  "saved m \<longleftrightarrow> fm_resources (fm_load (fm_file m)) = fm_resources m"

lemma saved_run: "saved m \<Longrightarrow> saved (fold fm_step ops m)"
proof (induction ops arbitrary: m)
  case (Cons op ops)
  then have "saved (fm_step op m)"
    by (cases rule: fm_step_cases [of op m]) (simp_all add: saved_def fm_load_def fm_save_def)
  then show ?case by (simp add: Cons.IH)
qed simp

text \<open>
  But the manager reads its file only once, in \<open>__init__\<close>: two managers opened on one file both grant
  the lease, with the same generation, and both accept commits under it.
\<close>

theorem two_managers_split_brain:
  assumes "name_ok r" "name_ok A" "name_ok B" "0 < ttl" "A \<noteq> B"
    and "fm_inspect r (fm_load f) = None"
  shows "\<exists>e e' m m'. fm_acquire r A ttl now (fm_load f) = (Inr e, m)
    \<and> fm_acquire r B ttl now (fm_load f) = (Inr e', m') \<and> fr_generation e = fr_generation e'
    \<and> commits now m r (fr_generation e) \<and> commits now m' r (fr_generation e')"
  using assms by (simp add: fm_acquire_def fm_inspect_def Let_def commits_def validate_and_commit_def fm_save_def)

end
