(* ===== verification/Work_Stealing.thy ===== *)
theory Work_Stealing
  imports Fencing "HOL-Library.Multiset"
begin

text \<open>
  The work-stealing cluster (courier\_core/work\_stealing.py): workers with a ready queue and running
  tasks, stealing from the tail of a peer's queue with a new fencing token, and rebalancing. The code
  keeps one object per task, shared by the registry and the queues; here the registry holds the task
  and the queues hold its id, so that a change of owner or token is seen by both, as in the code.
\<close>

section \<open>Cluster\<close>

record steal_task =
  k_owner :: string
  k_required :: "string list"
  k_token :: int
  k_payload :: payload

record worker_node =
  n_capacity :: int
  n_capabilities :: "string list"
  n_ready :: "string list"
  n_running :: "string list"

record cluster =
  c_workers :: "(string \<times> worker_node) list"
  c_registry :: "(string \<times> steal_task) list"

definition total_load :: "worker_node \<Rightarrow> nat" where
  "total_load n = length (n_ready n) + length (n_running n)"

definition register_worker :: "string \<Rightarrow> int \<Rightarrow> string list \<Rightarrow> cluster \<Rightarrow> cluster" where
  "register_worker w capacity capabilities c =
     (let node = (case map_of (c_workers c) w of
          Some existing \<Rightarrow> existing\<lparr>n_capacity := max 1 capacity, n_capabilities := capabilities\<rparr>
        | None \<Rightarrow> \<lparr>n_capacity = max 1 capacity, n_capabilities = capabilities, n_ready = [], n_running = []\<rparr>)
      in c\<lparr>c_workers := AList.update w node (c_workers c)\<rparr>)"

definition get_worker :: "string \<Rightarrow> cluster \<Rightarrow> worker_node result" where
  "get_worker w c = (case map_of (c_workers c) w of None \<Rightarrow> Inl (KeyError ''Unknown worker'') | Some n \<Rightarrow> Inr n)"

definition enqueue_task :: "string \<Rightarrow> string \<Rightarrow> steal_task \<Rightarrow> cluster \<Rightarrow> cluster result" where
  "enqueue_task w i task c =
     (if i \<in> set (map fst (c_registry c)) then Inl (KeyError ''Duplicate task_id'')
      else bind_result (get_worker w c) (\<lambda>worker.
        Inr (c\<lparr>c_registry := AList.update i (task\<lparr>k_owner := w\<rparr>) (c_registry c),
               c_workers := AList.update w (worker\<lparr>n_ready := n_ready worker @ [i]\<rparr>) (c_workers c)\<rparr>)))"

definition start_task :: "string \<Rightarrow> string \<Rightarrow> cluster \<Rightarrow> cluster result" where
  "start_task w i c = bind_result (get_worker w c) (\<lambda>worker.
     if i \<notin> set (n_ready worker) then Inl (KeyError ''not in ready queue'')
     else Inr (c\<lparr>c_workers := AList.update w (worker\<lparr>n_ready := remove1 i (n_ready worker),
       n_running := (if i \<in> set (n_running worker) then n_running worker else n_running worker @ [i])\<rparr>) (c_workers c)\<rparr>))"

definition complete_stolen :: "string \<Rightarrow> string \<Rightarrow> cluster \<Rightarrow> (bool \<times> cluster) result" where
  "complete_stolen w i c = bind_result (get_worker w c) (\<lambda>worker.
     if i \<in> set (n_running worker)
     then Inr (True, c\<lparr>c_workers := AList.update w (worker\<lparr>n_running := remove1 i (n_running worker)\<rparr>) (c_workers c),
       c_registry := AList.delete i (c_registry c)\<rparr>)
     else Inr (False, c))"

text \<open>The search from the tail: the last element with the property, and the list without it.\<close>

fun pop_last :: "('a \<Rightarrow> bool) \<Rightarrow> 'a list \<Rightarrow> ('a \<times> 'a list) option" where
  "pop_last p [] = None"
| "pop_last p (x # xs) = (case pop_last p xs of
     Some (y, ys) \<Rightarrow> Some (y, x # ys)
   | None \<Rightarrow> if p x then Some (x, xs) else None)"

definition eligible :: "cluster \<Rightarrow> worker_node \<Rightarrow> string \<Rightarrow> bool" where
  "eligible c stealer i = (case map_of (c_registry c) i of
     None \<Rightarrow> False | Some t \<Rightarrow> set (k_required t) \<subseteq> set (n_capabilities stealer))"

definition move_task :: "string \<Rightarrow> string \<Rightarrow> worker_node \<Rightarrow> string \<Rightarrow> string list \<Rightarrow> cluster \<Rightarrow> cluster" where
  "move_task s v victim i rest c =
     (let workers = AList.update v (victim\<lparr>n_ready := rest\<rparr>) (c_workers c);
          registry = (case map_of (c_registry c) i of None \<Rightarrow> c_registry c
            | Some t \<Rightarrow> AList.update i (t\<lparr>k_owner := s, k_token := k_token t + 1\<rparr>) (c_registry c))
      in c\<lparr>c_registry := registry,
           c_workers := (case map_of workers s of None \<Rightarrow> workers
             | Some stealer \<Rightarrow> AList.update s (stealer\<lparr>n_ready := n_ready stealer @ [i]\<rparr>) workers)\<rparr>)"

definition steal :: "string \<Rightarrow> string \<Rightarrow> cluster \<Rightarrow> (string \<times> cluster) result" where
  "steal s v c = bind_result (get_worker s c) (\<lambda>stealer. bind_result (get_worker v c) (\<lambda>victim.
     if n_capacity stealer \<le> int (total_load stealer) then Inl (WorkStealingError ''CapacityExceeded'')
     else if n_ready victim = [] then Inl (WorkStealingError ''NoStealableTask'')
     else (case pop_last (eligible c stealer) (n_ready victim) of
         None \<Rightarrow> Inl (WorkStealingError ''IncompatibleCapability'')
       | Some (i, rest) \<Rightarrow> Inr (i, move_task s v victim i rest c))))"

definition verify_execution_token :: "string \<Rightarrow> string \<Rightarrow> int \<Rightarrow> cluster \<Rightarrow> bool result" where
  "verify_execution_token i w token c = (case map_of (c_registry c) i of
     None \<Rightarrow> Inl (KeyError ''Task not found'')
   | Some t \<Rightarrow> (if k_owner t \<noteq> w \<or> k_token t \<noteq> token then Inl (StaleFencingTokenError i) else Inr True))"

text \<open>
  One round of \<open>rebalance\<close>: None when the loop ends, the workers being few, even enough or stuck, or the
  theft being refused.
\<close>

definition active_nodes :: "cluster \<Rightarrow> (string \<times> worker_node) list" where
  "active_nodes c = sort_key (\<lambda>(w, n). - int (total_load n)) (filter (\<lambda>(w, n). 0 < n_capacity n) (c_workers c))"

definition rebalance_round :: "cluster \<Rightarrow> cluster option" where
  "rebalance_round c =
     (if length (active_nodes c) < 2 then None
      else (let (mw, most) = hd (active_nodes c); (lw, least) = last (active_nodes c) in
        if total_load least + 1 < total_load most \<and> int (total_load least) < n_capacity least \<and> n_ready most \<noteq> []
        then (case steal lw mw c of Inl _ \<Rightarrow> None | Inr (_, c') \<Rightarrow> Some c')
        else None))"

text \<open>The loop, with the number of transfers; None when the fuel runs out.\<close>

fun rebalance_loop :: "nat \<Rightarrow> cluster \<Rightarrow> nat \<Rightarrow> (nat \<times> cluster) option" where
  "rebalance_loop 0 c transferred = None"
| "rebalance_loop (Suc fuel) c transferred = (case rebalance_round c of
     None \<Rightarrow> Some (transferred, c)
   | Some c' \<Rightarrow> rebalance_loop fuel c' (transferred + 1))"

text \<open>The sum of the squared loads, which every transfer lowers, bounds the rounds.\<close>

definition spread :: "cluster \<Rightarrow> nat" where
  "spread c = sum_list (map (\<lambda>(w, n). (total_load n)\<^sup>2) (c_workers c))"

definition rebalance :: "cluster \<Rightarrow> (nat \<times> cluster) option" where
  "rebalance c = rebalance_loop (Suc (spread c)) c 0"

section \<open>Every task in one queue, that of its owner\<close>

definition held_by :: "string \<Rightarrow> worker_node \<Rightarrow> (string \<times> string) multiset" where
  "held_by w n = mset (map (\<lambda>i. (i, w)) (n_ready n @ n_running n))"

definition queued :: "(string \<times> worker_node) list \<Rightarrow> (string \<times> string) multiset" where
  "queued ws = sum_list (map (\<lambda>(w, n). held_by w n) ws)"

definition owned :: "(string \<times> steal_task) list \<Rightarrow> (string \<times> string) multiset" where
  "owned r = mset (map (\<lambda>(i, t). (i, k_owner t)) r)"

definition cluster_ok :: "cluster \<Rightarrow> bool" where
  "cluster_ok c \<longleftrightarrow> dict_wf (c_workers c) \<and> dict_wf (c_registry c) \<and> queued (c_workers c) = owned (c_registry c)"

lemma sum_update:
  fixes f :: "string \<times> 'n \<Rightarrow> 'b :: cancel_comm_monoid_add"
  assumes "dict_wf ws" "map_of ws w = Some n"
  shows "sum_list (map f (AList.update w n' ws)) + f (w, n) = sum_list (map f ws) + f (w, n')"
  using assms
proof (induction ws)
  case (Cons p ws)
  obtain k m where p: "p = (k, m)" by force
  show ?case
  proof (cases "k = w")
    case True
    then show ?thesis using Cons.prems(2) by (simp add: p ac_simps)
  next
    case False
    then have "sum_list (map f (AList.update w n' ws)) + f (w, n) = sum_list (map f ws) + f (w, n')"
      using Cons by (simp add: p dict_wf_def)
    then show ?thesis using False by (simp add: p ac_simps)
  qed
qed simp

lemma sum_insert:
  fixes f :: "string \<times> 'n \<Rightarrow> 'b :: cancel_comm_monoid_add"
  shows "map_of ws w = None \<Longrightarrow> sum_list (map f (AList.update w n' ws)) = sum_list (map f ws) + f (w, n')"
  by (induction ws) (auto simp: ac_simps split: if_splits)

lemma owned_sum: "owned r = sum_list (map (\<lambda>(i, t). {#(i, k_owner t)#}) r)"
  by (induction r) (auto simp: owned_def)

lemma queued_update: "dict_wf ws \<Longrightarrow> map_of ws w = Some n \<Longrightarrow>
    queued (AList.update w n' ws) + held_by w n = queued ws + held_by w n'"
  using sum_update [where f = "\<lambda>(w, n). held_by w n"] by (simp add: queued_def)

lemma queued_insert: "map_of ws w = None \<Longrightarrow> queued (AList.update w n' ws) = queued ws + held_by w n'"
  using sum_insert [where f = "\<lambda>(w, n). held_by w n"] by (simp add: queued_def)

lemma owned_update: "dict_wf r \<Longrightarrow> map_of r i = Some t \<Longrightarrow>
    owned (AList.update i t' r) + {#(i, k_owner t)#} = owned r + {#(i, k_owner t')#}"
  using sum_update [where f = "\<lambda>(i, t). {#(i, k_owner t)#}"] by (simp add: owned_sum)

lemma owned_insert: "map_of r i = None \<Longrightarrow> owned (AList.update i t r) = owned r + {#(i, k_owner t)#}"
  using sum_insert [where f = "\<lambda>(i, t). {#(i, k_owner t)#}"] by (simp add: owned_sum)

lemma owned_delete: "dict_wf r \<Longrightarrow> map_of r i = Some t \<Longrightarrow> owned r = owned (AList.delete i r) + {#(i, k_owner t)#}"
proof (induction r)
  case (Cons p r)
  obtain k u where p: "p = (k, u)" by force
  show ?case
  proof (cases "k = i")
    case True
    then have "i \<notin> fst ` set r" using Cons.prems(1) by (auto simp: dict_wf_def p)
    then have "AList.delete i r = r" by (rule AList.delete_id)
    then show ?thesis using Cons.prems(2) True by (simp add: p owned_def)
  next
    case False
    then show ?thesis using Cons by (simp add: p owned_def dict_wf_def)
  qed
qed simp

lemma pop_last_props: "pop_last p xs = Some (y, ys) \<Longrightarrow> p y \<and> mset xs = add_mset y (mset ys)"
  by (induction xs arbitrary: ys) (auto split: option.splits prod.splits if_splits)

lemma pop_last_none: "pop_last p xs = None \<longleftrightarrow> (\<forall>x \<in> set xs. \<not> p x)"
  by (induction xs) (auto split: option.splits)

lemma held_by_simps [simp]:
  "held_by w (n\<lparr>n_capacity := k\<rparr>) = held_by w n" "held_by w (n\<lparr>n_capabilities := caps\<rparr>) = held_by w n"
  by (simp_all add: held_by_def)

lemma queued_mem: "(i, w) \<in># queued ws \<longleftrightarrow> (\<exists>n. (w, n) \<in> set ws \<and> i \<in> set (n_ready n @ n_running n))"
  by (induction ws) (auto simp: queued_def held_by_def)

lemma registered:
  assumes "cluster_ok c" "map_of (c_workers c) w = Some n" "i \<in> set (n_ready n @ n_running n)"
  obtains t where "map_of (c_registry c) i = Some t" "k_owner t = w"
proof -
  have "(i, w) \<in># queued (c_workers c)" using assms(2,3) by (auto simp: queued_mem dest: map_of_SomeD)
  then have "(i, w) \<in># owned (c_registry c)" using assms(1) by (simp add: cluster_ok_def)
  then obtain t where "(i, t) \<in> set (c_registry c)" "k_owner t = w" by (auto simp: owned_def)
  then show thesis using assms(1) that by (auto simp: cluster_ok_def dict_wf_map_of)
qed

lemma queue_distinct:
  assumes "cluster_ok c" "map_of (c_workers c) w = Some n"
  shows "distinct (n_ready n @ n_running n)"
proof -
  let ?own = "map (\<lambda>(i, t). (i, k_owner t)) (c_registry c)" and ?held = "map (\<lambda>i. (i, w)) (n_ready n @ n_running n)"
  have "map fst ?own = map fst (c_registry c)" by auto
  then have "distinct ?own" using assms(1) by (metis cluster_ok_def dict_wf_def distinct_map)
  then have one: "count (mset ?own) a \<le> 1" for a unfolding distinct_count_atmost_1 by (metis le_refl zero_le_one)
  have "queued (AList.update w (n\<lparr>n_ready := [], n_running := []\<rparr>) (c_workers c)) + mset ?held = mset ?own"
    using queued_update [of "c_workers c" w n "n\<lparr>n_ready := [], n_running := []\<rparr>"] assms
    by (simp add: cluster_ok_def owned_def held_by_def)
  then have "mset ?held \<subseteq># mset ?own" by (metis mset_subset_eq_add_right)
  then have "count (mset ?held) a \<le> 1" for a using one [of a] by (meson le_trans subseteq_mset_def)
  then have "distinct ?held" unfolding distinct_count_atmost_1
    by (metis One_nat_def count_greater_eq_one_iff count_inI dual_order.antisym set_mset_mset)
  then show ?thesis by (rule conjunct1 [OF iffD1 [OF distinct_map]])
qed

text \<open>Rewriting one worker, or one worker and one registry entry, with the same change on both sides.\<close>

lemma cluster_ok_worker:
  assumes "cluster_ok c" "map_of (c_workers c) w = Some n" "held_by w n' = held_by w n"
  shows "cluster_ok (c\<lparr>c_workers := AList.update w n' (c_workers c)\<rparr>)"
  using assms queued_update [of "c_workers c" w n n'] by (simp add: cluster_ok_def)

lemma register_worker_ok: "cluster_ok c \<Longrightarrow> cluster_ok (register_worker w k caps c)"
proof (cases "map_of (c_workers c) w")
  case None
  assume "cluster_ok c"
  then show ?thesis using None by (simp add: register_worker_def cluster_ok_def queued_insert held_by_def)
next
  case (Some n)
  assume "cluster_ok c"
  then show ?thesis using cluster_ok_worker [OF _ Some] Some by (simp add: register_worker_def Let_def)
qed

lemma enqueue_task_ok:
  assumes "cluster_ok c" "enqueue_task w i t c = Inr c'"
  shows "cluster_ok c'"
proof -
  obtain n where n: "map_of (c_workers c) w = Some n" and fresh: "map_of (c_registry c) i = None"
    and c': "c' = c\<lparr>c_registry := AList.update i (t\<lparr>k_owner := w\<rparr>) (c_registry c),
      c_workers := AList.update w (n\<lparr>n_ready := n_ready n @ [i]\<rparr>) (c_workers c)\<rparr>"
    using assms(2) by (auto simp: enqueue_task_def get_worker_def map_of_eq_None_iff split: if_splits option.splits)
  have "queued (AList.update w (n\<lparr>n_ready := n_ready n @ [i]\<rparr>) (c_workers c)) + held_by w n
      = queued (c_workers c) + held_by w (n\<lparr>n_ready := n_ready n @ [i]\<rparr>)"
    using assms(1) n by (intro queued_update) (simp_all add: cluster_ok_def)
  then have "queued (AList.update w (n\<lparr>n_ready := n_ready n @ [i]\<rparr>) (c_workers c)) = queued (c_workers c) + {#(i, w)#}"
    by (simp add: held_by_def)
  then show ?thesis using assms(1) owned_insert [OF fresh] by (simp add: c' cluster_ok_def)
qed

lemma start_task_ok:
  assumes "cluster_ok c" "start_task w i c = Inr c'"
  shows "cluster_ok c'"
proof -
  obtain n where n: "map_of (c_workers c) w = Some n" and i: "i \<in> set (n_ready n)"
    and c': "c' = c\<lparr>c_workers := AList.update w (n\<lparr>n_ready := remove1 i (n_ready n),
       n_running := (if i \<in> set (n_running n) then n_running n else n_running n @ [i])\<rparr>) (c_workers c)\<rparr>"
    using assms(2) by (auto simp: start_task_def get_worker_def bind_result_eq_Inr split: if_splits option.splits)
  have "i \<notin> set (n_running n)" using queue_distinct [OF assms(1) n] i by auto
  moreover have "mset (n_ready n) = add_mset i (mset (remove1 i (n_ready n)))" using i by simp
  ultimately show ?thesis unfolding c'
    by (intro cluster_ok_worker [OF assms(1) n]) (simp add: held_by_def del: mset_remove1)
qed

lemma complete_stolen_ok:
  assumes "cluster_ok c" "complete_stolen w i c = Inr (b, c')"
  shows "cluster_ok c'"
proof -
  obtain n where n: "map_of (c_workers c) w = Some n"
    and c': "i \<notin> set (n_running n) \<and> c' = c \<or> i \<in> set (n_running n) \<and>
      c' = c\<lparr>c_workers := AList.update w (n\<lparr>n_running := remove1 i (n_running n)\<rparr>) (c_workers c),
        c_registry := AList.delete i (c_registry c)\<rparr>"
    using assms(2) by (auto simp: complete_stolen_def get_worker_def bind_result_eq_Inr split: if_splits option.splits)
  show ?thesis
  proof (cases "i \<in> set (n_running n)")
    case True
    obtain t where t: "map_of (c_registry c) i = Some t" "k_owner t = w" using registered [OF assms(1) n, of i] True by auto
    let ?n = "n\<lparr>n_running := remove1 i (n_running n)\<rparr>"
    have wf: "dict_wf (c_workers c)" "dict_wf (c_registry c)" using assms(1) by (simp_all add: cluster_ok_def)
    have m: "mset (n_running n) = add_mset i (mset (remove1 i (n_running n)))" using True by simp
    have h: "held_by w n = held_by w ?n + {#(i, w)#}" by (simp add: held_by_def m del: mset_remove1)
    have "queued (AList.update w ?n (c_workers c)) + held_by w n = queued (c_workers c) + held_by w ?n"
      by (rule queued_update [OF wf(1) n])
    then have "queued (AList.update w ?n (c_workers c)) + {#(i, w)#} = queued (c_workers c)" by (simp add: h)
    moreover have "owned (c_registry c) = owned (AList.delete i (c_registry c)) + {#(i, w)#}"
      using owned_delete [OF wf(2) t(1)] t(2) by simp
    ultimately show ?thesis using c' True assms(1) by (simp add: cluster_ok_def)
  next
    case False
    then show ?thesis using c' assms(1) by simp
  qed
qed

lemma steal_forms:
  assumes "steal s v c = Inr (i, c')"
  obtains stealer victim rest where "map_of (c_workers c) s = Some stealer" "map_of (c_workers c) v = Some victim"
    "int (total_load stealer) < n_capacity stealer" "pop_last (eligible c stealer) (n_ready victim) = Some (i, rest)"
    "mset (n_ready victim) = add_mset i (mset rest)" "c' = move_task s v victim i rest c"
proof -
  obtain stealer victim where a: "map_of (c_workers c) s = Some stealer" "map_of (c_workers c) v = Some victim"
    using assms by (auto simp: steal_def get_worker_def bind_result_eq_Inr split: option.splits)
  then have b: "int (total_load stealer) < n_capacity stealer"
    and p: "\<exists>rest. pop_last (eligible c stealer) (n_ready victim) = Some (i, rest) \<and> c' = move_task s v victim i rest c"
    using assms by (auto simp: steal_def get_worker_def split: option.splits if_splits)
  from p obtain rest where r: "pop_last (eligible c stealer) (n_ready victim) = Some (i, rest)" "c' = move_task s v victim i rest c"
    by blast
  from pop_last_props [OF r(1)] have "mset (n_ready victim) = add_mset i (mset rest)" ..
  from that [OF a b r(1) this r(2)] show thesis .
qed

lemma move_task_ok:
  assumes ok: "cluster_ok c" and s: "map_of (c_workers c) s = Some stealer" and v: "map_of (c_workers c) v = Some victim"
    and m: "mset (n_ready victim) = add_mset i (mset rest)"
  shows "cluster_ok (move_task s v victim i rest c)"
proof -
  have wf: "dict_wf (c_workers c)" "dict_wf (c_registry c)" "queued (c_workers c) = owned (c_registry c)"
    using ok by (simp_all add: cluster_ok_def)
  have "i \<in> set (n_ready victim)" using m by (metis set_mset_mset union_single_eq_member)
  then obtain t where t: "map_of (c_registry c) i = Some t" "k_owner t = v" using registered [OF ok v, of i] by auto
  let ?ws = "AList.update v (victim\<lparr>n_ready := rest\<rparr>) (c_workers c)"
  let ?r = "AList.update i (t\<lparr>k_owner := s, k_token := k_token t + 1\<rparr>) (c_registry c)"
  have "queued ?ws + held_by v victim = queued (c_workers c) + held_by v (victim\<lparr>n_ready := rest\<rparr>)"
    by (rule queued_update [OF wf(1) v])
  then have q1: "queued ?ws + {#(i, v)#} = queued (c_workers c)" by (simp add: held_by_def m)
  obtain st where st: "map_of ?ws s = Some st" using s by (cases "s = v") auto
  let ?ws2 = "AList.update s (st\<lparr>n_ready := n_ready st @ [i]\<rparr>) ?ws"
  have "queued ?ws2 + held_by s st = queued ?ws + held_by s (st\<lparr>n_ready := n_ready st @ [i]\<rparr>)"
    using wf(1) st by (intro queued_update) simp_all
  then have q2: "queued ?ws2 = queued ?ws + {#(i, s)#}" by (simp add: held_by_def)
  have o: "owned ?r + {#(i, v)#} = owned (c_registry c) + {#(i, s)#}"
    using owned_update [OF wf(2) t(1), of "t\<lparr>k_owner := s, k_token := k_token t + 1\<rparr>"] t(2) by simp
  have "queued ?ws2 + {#(i, v)#} = owned ?r + {#(i, v)#}" using q1 q2 o wf(3) by (simp add: add_mset_commute)
  then have "queued ?ws2 = owned ?r" by simp
  then show ?thesis using wf st t(1) by (simp add: move_task_def cluster_ok_def Let_def)
qed

lemma steal_ok: "cluster_ok c \<Longrightarrow> steal s v c = Inr (i, c') \<Longrightarrow> cluster_ok c'"
  by (elim steal_forms) (simp add: move_task_ok)

section \<open>A stolen task is fenced\<close>

datatype cluster_op =
    Register string int "string list"
  | EnqueueTask string string steal_task
  | StartTask string string
  | CompleteTask string string
  | Steal string string

fun cluster_step :: "cluster_op \<Rightarrow> cluster \<Rightarrow> cluster" where
  "cluster_step (Register w k caps) c = register_worker w k caps c"
| "cluster_step (EnqueueTask w i t) c = (case enqueue_task w i t c of Inl _ \<Rightarrow> c | Inr c' \<Rightarrow> c')"
| "cluster_step (StartTask w i) c = (case start_task w i c of Inl _ \<Rightarrow> c | Inr c' \<Rightarrow> c')"
| "cluster_step (CompleteTask w i) c = (case complete_stolen w i c of Inl _ \<Rightarrow> c | Inr (_, c') \<Rightarrow> c')"
| "cluster_step (Steal s v) c = (case steal s v c of Inl _ \<Rightarrow> c | Inr (_, c') \<Rightarrow> c')"

lemma cluster_step_ok: "cluster_ok c \<Longrightarrow> cluster_ok (cluster_step op c)"
  by (cases op) (auto simp: register_worker_ok split: sum.splits prod.splits
    dest: enqueue_task_ok start_task_ok complete_stolen_ok steal_ok)

definition token_of :: "cluster \<Rightarrow> string \<Rightarrow> int" where
  "token_of c i = (case map_of (c_registry c) i of None \<Rightarrow> 0 | Some t \<Rightarrow> k_token t)"

text \<open>The life of one task: it is neither completed nor, since ids are free again then, enqueued anew.\<close>

fun same_life :: "string \<Rightarrow> cluster_op \<Rightarrow> bool" where
  "same_life i (EnqueueTask w j t) \<longleftrightarrow> j \<noteq> i"
| "same_life i (CompleteTask w j) \<longleftrightarrow> j \<noteq> i"
| "same_life i _ \<longleftrightarrow> True"

definition executes :: "rat \<Rightarrow> cluster \<Rightarrow> string \<Rightarrow> int \<Rightarrow> bool" where
  "executes t c i k \<longleftrightarrow> (\<exists>w. verify_execution_token i w k c = Inr True)"

lemma token_move: "token_of c j \<le> token_of (move_task s v victim i rest c) j"
  by (auto simp: token_of_def move_task_def Let_def split: option.splits)

interpretation stolen: fencing cluster_step token_of executes same_life
proof
  fix i op c
  assume "same_life i op"
  then show "token_of c i \<le> token_of (cluster_step op c) i"
  proof (cases op)
    case (Steal s v)
    then show ?thesis by (auto split: sum.splits elim!: steal_forms simp: token_move)
  qed (auto simp: token_of_def register_worker_def enqueue_task_def start_task_def complete_stolen_def get_worker_def Let_def
      split: sum.splits option.splits if_splits)
next
  fix t c i k
  assume "executes t c i k"
  then show "k = token_of c i"
    by (auto simp: executes_def verify_execution_token_def token_of_def split: option.splits if_splits)
qed

lemma steal_token:
  assumes "cluster_ok c" "steal s v c = Inr (i, c')"
  shows "token_of c' i = token_of c i + 1" "verify_execution_token i s (token_of c' i) c' = Inr True"
proof -
  from assms(2) obtain victim rest where v: "map_of (c_workers c) v = Some victim"
    and m: "mset (n_ready victim) = add_mset i (mset rest)" and c': "c' = move_task s v victim i rest c" by (elim steal_forms)
  have "i \<in> set (n_ready victim)" using m by (metis set_mset_mset union_single_eq_member)
  then obtain t where t: "map_of (c_registry c) i = Some t" using registered [OF assms(1) v, of i] by auto
  then show "token_of c' i = token_of c i + 1" "verify_execution_token i s (token_of c' i) c' = Inr True"
    by (simp_all add: c' move_task_def Let_def token_of_def verify_execution_token_def)
qed

text \<open>
  A theft fences the victim off: after a task was stolen, the stealer may execute it with the new
  token, and every token issued before is refused, to whoever presents it, for the rest of the task's
  life, whatever the cluster does.
\<close>

theorem stolen_task_fenced:
  assumes "cluster_ok c" "steal s v c = Inr (i, c')" "k \<le> token_of c i" "list_all (same_life i) ops"
  shows "verify_execution_token i s (token_of c i + 1) c' = Inr True
    \<and> verify_execution_token i w k (fold cluster_step ops c') \<noteq> Inr True"
proof -
  note new = steal_token [OF assms(1,2)]
  have "\<not> executes 0 (fold cluster_step ops c') i k"
    using stolen.superseded_refused [of k c' i ops 0] assms(3,4) new(1) by simp
  then show ?thesis using new by (simp add: executes_def)
qed

section \<open>Rebalancing\<close>

lemma spread_update:
  fixes ws :: "(string \<times> worker_node) list"
  assumes "dict_wf ws" "map_of ws w = Some n"
  shows "sum_list (map (\<lambda>(w, n). (total_load n)\<^sup>2) (AList.update w n' ws)) + (total_load n)\<^sup>2
    = sum_list (map (\<lambda>(w, n). (total_load n)\<^sup>2) ws) + (total_load n')\<^sup>2"
  using sum_update [OF assms, where f = "\<lambda>(w, n). (total_load n)\<^sup>2"] by simp

lemma spread_move:
  assumes "dict_wf (c_workers c)" "map_of (c_workers c) s = Some stealer" "map_of (c_workers c) v = Some victim" "s \<noteq> v"
    "mset (n_ready victim) = add_mset i (mset rest)" "total_load stealer + 1 < total_load victim"
  shows "spread (move_task s v victim i rest c) < spread c"
proof -
  let ?ws = "AList.update v (victim\<lparr>n_ready := rest\<rparr>) (c_workers c)"
  have len: "length (n_ready victim) = Suc (length rest)" using arg_cong [OF assms(5), of size] by simp
  obtain a where a: "total_load victim = Suc (total_load stealer + Suc a)"
    using assms(6) by (metis add.commute add_Suc_right less_iff_Suc_add plus_1_eq_Suc)
  have l: "total_load (victim\<lparr>n_ready := rest\<rparr>) = total_load stealer + Suc a"
    using a len by (simp add: total_load_def)
  have l2: "total_load (stealer\<lparr>n_ready := n_ready stealer @ [i]\<rparr>) = Suc (total_load stealer)" by (simp add: total_load_def)
  have st: "map_of ?ws s = Some stealer" using assms(2,4) by simp
  have "spread (move_task s v victim i rest c) + (total_load stealer)\<^sup>2
      = sum_list (map (\<lambda>(w, n). (total_load n)\<^sup>2) ?ws) + (Suc (total_load stealer))\<^sup>2"
    using spread_update [OF _ st, of "stealer\<lparr>n_ready := n_ready stealer @ [i]\<rparr>"] assms(1) st
    by (simp add: spread_def move_task_def Let_def l2)
  moreover have "sum_list (map (\<lambda>(w, n). (total_load n)\<^sup>2) ?ws) + (Suc (total_load stealer + Suc a))\<^sup>2
      = spread c + (total_load stealer + Suc a)\<^sup>2"
    using spread_update [OF assms(1,3), of "victim\<lparr>n_ready := rest\<rparr>"] by (simp only: l a spread_def)
  moreover have "(Suc (total_load stealer))\<^sup>2 + (total_load stealer + Suc a)\<^sup>2
      < (Suc (total_load stealer + Suc a))\<^sup>2 + (total_load stealer)\<^sup>2"
    by (simp add: power2_eq_square algebra_simps)
  ultimately show ?thesis by linarith
qed

lemma active_nodes_mem: "dict_wf (c_workers c) \<Longrightarrow> (w, n) \<in> set (active_nodes c) \<longleftrightarrow> map_of (c_workers c) w = Some n \<and> 0 < n_capacity n"
  by (auto simp: active_nodes_def dict_wf_map_of)

lemma active_nodes_extremes:
  assumes "active_nodes c \<noteq> []" "(w, n) \<in> set (active_nodes c)"
  shows "total_load n \<le> total_load (snd (hd (active_nodes c)))" "total_load (snd (last (active_nodes c))) \<le> total_load n"
proof -
  let ?f = "\<lambda>(w, n). - int (total_load n)"
  have srt: "sorted (map ?f (active_nodes c))" by (simp add: active_nodes_def)
  obtain k where k: "k < length (active_nodes c)" "active_nodes c ! k = (w, n)" using assms(2) by (metis in_set_conv_nth)
  have "map ?f (active_nodes c) ! 0 \<le> map ?f (active_nodes c) ! k" using srt k(1) by (intro sorted_nth_mono) simp_all
  then show "total_load n \<le> total_load (snd (hd (active_nodes c)))"
    using k assms(1) by (simp add: hd_conv_nth split: prod.splits)
  have "map ?f (active_nodes c) ! k \<le> map ?f (active_nodes c) ! (length (active_nodes c) - 1)"
    using srt k(1) by (intro sorted_nth_mono) simp_all
  then show "total_load (snd (last (active_nodes c))) \<le> total_load n"
    using k assms(1) by (simp add: last_conv_nth split: prod.splits)
qed

lemma rebalance_round_forms:
  assumes "cluster_ok c" "rebalance_round c = Some c'"
  obtains s v i where "steal s v c = Inr (i, c')" "spread c' < spread c"
proof -
  have wf: "dict_wf (c_workers c)" using assms(1) by (simp add: cluster_ok_def)
  obtain v most where hd: "hd (active_nodes c) = (v, most)" by force
  obtain s least where last: "last (active_nodes c) = (s, least)" by force
  have ne: "active_nodes c \<noteq> []" using assms(2) by (auto simp: rebalance_round_def)
  have maps: "map_of (c_workers c) v = Some most" "map_of (c_workers c) s = Some least"
    using hd_in_set [OF ne] last_in_set [OF ne] hd last active_nodes_mem [OF wf] by auto
  obtain i where st: "steal s v c = Inr (i, c')" and less: "total_load least + 1 < total_load most"
    using assms(2) by (auto simp: rebalance_round_def hd last split: if_splits sum.splits)
  have "s \<noteq> v" using less maps by auto
  from st show thesis
  proof (rule steal_forms)
    fix stealer victim rest
    assume a: "map_of (c_workers c) s = Some stealer" "map_of (c_workers c) v = Some victim"
      and m: "mset (n_ready victim) = add_mset i (mset rest)" and c': "c' = move_task s v victim i rest c"
    have "spread c' < spread c"
      unfolding c' using less maps a by (intro spread_move [OF wf a \<open>s \<noteq> v\<close> m]) simp
    then show thesis using that [OF st] by simp
  qed
qed

text \<open>
  Why the loop ended: the active workers' loads differ by one at most, or the least loaded worker is
  full, or the most loaded one has nothing ready that the least loaded could do.
\<close>

definition at_rest :: "cluster \<Rightarrow> bool" where
  "at_rest c \<longleftrightarrow>
     (\<forall>p \<in> set (active_nodes c). \<forall>q \<in> set (active_nodes c). total_load (snd p) \<le> total_load (snd q) + 1)
     \<or> (let least = snd (last (active_nodes c)); most = snd (hd (active_nodes c)) in
        n_capacity least \<le> int (total_load least) \<or> (\<forall>i \<in> set (n_ready most). \<not> eligible c least i))"

lemma rebalance_round_none:
  assumes "cluster_ok c" "rebalance_round c = None"
  shows "at_rest c"
proof (cases "length (active_nodes c) < 2")
  case True
  then have "p = q" if "p \<in> set (active_nodes c)" "q \<in> set (active_nodes c)" for p q
    using that by (cases "active_nodes c"; cases "tl (active_nodes c)") auto
  then show ?thesis unfolding at_rest_def by (metis le_add1)
next
  case False
  have wf: "dict_wf (c_workers c)" using assms(1) by (simp add: cluster_ok_def)
  obtain v most where hd: "hd (active_nodes c) = (v, most)" by force
  obtain s least where last: "last (active_nodes c) = (s, least)" by force
  have ne: "active_nodes c \<noteq> []" using False by auto
  have maps: "map_of (c_workers c) v = Some most" "map_of (c_workers c) s = Some least"
    using hd_in_set [OF ne] last_in_set [OF ne] hd last active_nodes_mem [OF wf] by auto
  show ?thesis
  proof (cases "total_load least + 1 < total_load most")
    case True
    have "n_capacity least \<le> int (total_load least) \<or> n_ready most = [] \<or> (\<exists>e. steal s v c = Inl e)"
      using assms(2) False True by (auto simp: rebalance_round_def hd last not_less split: if_splits sum.splits)
    then have "n_capacity least \<le> int (total_load least) \<or> (\<forall>i \<in> set (n_ready most). \<not> eligible c least i)"
      using maps by (auto simp: steal_def get_worker_def pop_last_none split: if_splits option.splits)
    then show ?thesis by (simp add: at_rest_def hd last Let_def)
  next
    case even: False
    have "total_load (snd p) \<le> total_load (snd q) + 1" if "p \<in> set (active_nodes c)" "q \<in> set (active_nodes c)" for p q
      using active_nodes_extremes [OF ne, of "fst p" "snd p"] active_nodes_extremes [OF ne, of "fst q" "snd q"] that even
      by (simp add: hd last)
    then show ?thesis by (simp add: at_rest_def)
  qed
qed

lemma owned_keys_move:
  assumes "map_of (c_registry c) i = Some t"
  shows "map fst (c_registry (move_task s v victim i rest c)) = map fst (c_registry c)"
proof -
  have "i \<in> fst ` set (c_registry c)" using assms by (metis map_of_eq_None_iff option.distinct(1))
  then show ?thesis using assms by (simp add: move_task_def Let_def update_keys)
qed

lemma steal_keys:
  assumes "cluster_ok c" "steal s v c = Inr (i, c')"
  shows "map fst (c_registry c') = map fst (c_registry c)"
  using assms(2)
proof (rule steal_forms)
  fix stealer victim rest
  assume v: "map_of (c_workers c) v = Some victim" and m: "mset (n_ready victim) = add_mset i (mset rest)"
    and c': "c' = move_task s v victim i rest c"
  have "i \<in> set (n_ready victim)" using m by (metis set_mset_mset union_single_eq_member)
  then obtain t where "map_of (c_registry c) i = Some t" using registered [OF assms(1) v, of i] by auto
  then show ?thesis unfolding c' by (rule owned_keys_move)
qed

lemma rebalance_loop_ends:
  assumes "cluster_ok c" "spread c < fuel"
  shows "\<exists>k c'. rebalance_loop fuel c n = Some (k, c') \<and> cluster_ok c' \<and> at_rest c'
    \<and> map fst (c_registry c') = map fst (c_registry c) \<and> spread c' + (k - n) \<le> spread c \<and> n \<le> k"
  using assms
proof (induction fuel arbitrary: c n)
  case (Suc fuel)
  show ?case
  proof (cases "rebalance_round c")
    case None
    then show ?thesis using rebalance_round_none [OF Suc.prems(1)] Suc.prems(1) by simp
  next
    case (Some c1)
    from rebalance_round_forms [OF Suc.prems(1) this] obtain s v i
      where st: "steal s v c = Inr (i, c1)" and less: "spread c1 < spread c" .
    have "cluster_ok c1" "spread c1 < fuel" using steal_ok [OF Suc.prems(1) st] less Suc.prems(2) by simp_all
    from Suc.IH [OF this, of "n + 1"] obtain k c' where "rebalance_loop fuel c1 (n + 1) = Some (k, c')"
      "cluster_ok c'" "at_rest c'" "map fst (c_registry c') = map fst (c_registry c1)"
      "spread c' + (k - (n + 1)) \<le> spread c1" "n + 1 \<le> k" by blast
    then show ?thesis using Some less steal_keys [OF Suc.prems(1) st] by auto
  qed
qed simp

text \<open>
  C27. \<open>rebalance\<close> always ends, after at most as many transfers as the sum of the squared loads, with
  every task still registered and in exactly one queue, that of its owner; and when it ends, the loads of the
  active workers are even to one task, or the emptiest of them is full or can take none of the ready tasks of
  the fullest. (Another pair of workers may then still have a task to transfer: the code tries that pair only.)
\<close>

theorem rebalance_ends_at_rest:
  assumes "cluster_ok c"
  shows "\<exists>k c'. rebalance c = Some (k, c') \<and> k \<le> spread c \<and> cluster_ok c' \<and> at_rest c'
    \<and> map fst (c_registry c') = map fst (c_registry c)"
  using rebalance_loop_ends [OF assms, of "Suc (spread c)" 0] by (auto simp: rebalance_def)

definition demo_cluster :: cluster where
  "demo_cluster = fold cluster_step
     [Register ''a'' 4 [''py''], Register ''b'' 4 [''py''],
      EnqueueTask ''a'' ''t1'' \<lparr>k_owner = [], k_required = [''py''], k_token = 0, k_payload = []\<rparr>,
      EnqueueTask ''a'' ''t2'' \<lparr>k_owner = [], k_required = [], k_token = 0, k_payload = []\<rparr>]
     \<lparr>c_workers = [], c_registry = []\<rparr>"

lemma cluster_run_ok: "cluster_ok c \<Longrightarrow> cluster_ok (fold cluster_step ops c)"
  by (induction ops arbitrary: c) (simp_all add: cluster_step_ok)

lemma demo_cluster_ok: "cluster_ok demo_cluster"
  unfolding demo_cluster_def by (rule cluster_run_ok) (simp add: cluster_ok_def queued_def owned_def)

theorem rebalance_ends_at_rest_witness:
  "map_option fst (rebalance demo_cluster) = Some 1
   \<and> (\<exists>k c'. rebalance demo_cluster = Some (k, c') \<and> k \<le> spread demo_cluster \<and> cluster_ok c' \<and> at_rest c'
     \<and> map fst (c_registry c') = map fst (c_registry demo_cluster))"
proof
  show "map_option fst (rebalance demo_cluster) = Some 1" by code_simp
qed (rule rebalance_ends_at_rest [OF demo_cluster_ok])

theorem stolen_task_fenced_witness:
  "verify_execution_token ''t2'' ''b'' 1 (cluster_step (Steal ''b'' ''a'') demo_cluster) = Inr True
   \<and> verify_execution_token ''t2'' ''a'' 0 (fold cluster_step [StartTask ''b'' ''t2'']
       (cluster_step (Steal ''b'' ''a'') demo_cluster)) \<noteq> Inr True"
proof -
  have st: "steal ''b'' ''a'' demo_cluster = Inr (''t2'', cluster_step (Steal ''b'' ''a'') demo_cluster)" by code_simp
  have tok: "token_of demo_cluster ''t2'' = 0" by code_simp
  from stolen_task_fenced [OF demo_cluster_ok st, of 0 "[StartTask ''b'' ''t2'']" "''a''"] show ?thesis by (simp add: tok)
qed

end
