(* ===== verification/Rate_Limiter.thy ===== *)
theory Rate_Limiter
  imports Prelude Complex_Main
begin

text \<open>
  The rate limiters of courier\_core/rate\_limiter.py: the token bucket with its blocking acquire, the
  sliding window and the multi-tier limiter. Floats are exact rationals and every \<open>time.time()\<close> is an
  argument. A section under a limiter's lock is one step, so that a list of steps is any interleaving
  of threads. The theorems bound what is granted over any stretch of time.
\<close>

section \<open>The token bucket\<close>

record bucket =
  tb_rate :: rat
  tb_capacity :: rat
  tb_tokens :: rat
  tb_last_refill :: rat

definition new_bucket :: "rat \<Rightarrow> rat \<Rightarrow> rat \<Rightarrow> bucket result" where
  "new_bucket rate capacity now =
     (if rate \<le> 0 then Inl (ValueError ''Rate must be greater than 0'')
      else if capacity \<le> 0 then Inl (ValueError ''Capacity must be greater than 0'')
      else Inr \<lparr>tb_rate = rate, tb_capacity = capacity, tb_tokens = capacity, tb_last_refill = now\<rparr>)"

definition refill :: "rat \<Rightarrow> bucket \<Rightarrow> bucket" where
  "refill now b = (let elapsed = now - tb_last_refill b in
     if 0 < elapsed
     then b\<lparr>tb_tokens := min (tb_capacity b) (tb_tokens b + elapsed * tb_rate b), tb_last_refill := now\<rparr>
     else b)"

text \<open>One section under the lock: refill, and take the tokens when they are there.\<close>

definition try_take :: "rat \<Rightarrow> rat \<Rightarrow> bucket \<Rightarrow> bool \<times> bucket" where
  "try_take tokens now b = (let b1 = refill now b in
     if tokens \<le> tb_tokens b1 then (True, b1\<lparr>tb_tokens := tb_tokens b1 - tokens\<rparr>) else (False, b1))"

definition sleep_chunk :: "rat \<Rightarrow> rat option \<Rightarrow> rat" where
  "sleep_chunk needed_wait remaining = max (1 / 1000)
     (case remaining of None \<Rightarrow> min needed_wait (5 / 100) | Some r \<Rightarrow> min needed_wait (min r (5 / 100)))"

text \<open>
  The loop of \<open>acquire\<close>. \<open>clock i\<close> is the \<open>i\<close>-th reading of the clock: one in \<open>_refill\<close> and one after the
  lock was left, in each round. The sleeps show in the result and in the readings that follow; None is
  a loop that did not end within the fuel.
\<close>

fun acquire_loop :: "nat \<Rightarrow> (nat \<Rightarrow> rat) \<Rightarrow> nat \<Rightarrow> rat \<Rightarrow> bool \<Rightarrow> rat option \<Rightarrow> rat \<Rightarrow> rat list \<Rightarrow> bucket \<Rightarrow>
    (bool \<times> rat list \<times> bucket) option" where
  "acquire_loop 0 clock i tokens block timeout start naps b = None"
| "acquire_loop (Suc fuel) clock i tokens block timeout start naps b =
     (let (taken, b1) = try_take tokens (clock i) b in
      if taken then Some (True, naps, b1)
      else if \<not> block then Some (False, naps, b1)
      else
        (let needed_wait = (tokens - tb_tokens b1) / tb_rate b1; elapsed = clock (i + 1) - start in
         case timeout of
           None \<Rightarrow> acquire_loop fuel clock (i + 2) tokens block timeout start (naps @ [sleep_chunk needed_wait None]) b1
         | Some limit \<Rightarrow>
             (let remaining = limit - elapsed in
              if remaining \<le> 0 then Some (False, naps, b1)
              else if remaining < needed_wait then Some (False, naps @ [max (1 / 1000) remaining], b1)
              else acquire_loop fuel clock (i + 2) tokens block timeout start
                (naps @ [sleep_chunk needed_wait (Some remaining)]) b1)))"

definition bucket_acquire :: "nat \<Rightarrow> (nat \<Rightarrow> rat) \<Rightarrow> rat \<Rightarrow> bool \<Rightarrow> rat option \<Rightarrow> bucket \<Rightarrow>
    (bool \<times> rat list \<times> bucket) option result" where
  "bucket_acquire fuel clock tokens block timeout b =
     (if tokens \<le> 0 then Inl (ValueError ''Tokens to acquire must be positive'')
      else if tb_capacity b < tokens then Inl (ValueError ''exceeds capacity'')
      else Inr (acquire_loop fuel clock 1 tokens block timeout (clock 0) [] b))"

subsection \<open>The bucket's invariant\<close>

definition bucket_ok :: "bucket \<Rightarrow> bool" where
  "bucket_ok b \<longleftrightarrow> 0 < tb_rate b \<and> 0 < tb_capacity b \<and> 0 \<le> tb_tokens b \<and> tb_tokens b \<le> tb_capacity b"

lemma new_bucket_ok: "new_bucket rate capacity now = Inr b \<Longrightarrow> bucket_ok b"
  by (auto simp: new_bucket_def bucket_ok_def split: if_splits)

lemma refill_fixed [simp]: "tb_rate (refill now b) = tb_rate b" "tb_capacity (refill now b) = tb_capacity b"
  by (simp_all add: refill_def Let_def)

lemma refill_last: "tb_last_refill (refill now b) = max now (tb_last_refill b)"
  by (simp add: refill_def Let_def)

lemma refill_ok:
  assumes "bucket_ok b"
  shows "bucket_ok (refill now b)"
proof -
  have "0 \<le> tb_rate b" "0 \<le> tb_tokens b" using assms by (simp_all add: bucket_ok_def)
  then have "0 < now - tb_last_refill b \<Longrightarrow> 0 \<le> tb_tokens b + (now - tb_last_refill b) * tb_rate b" by simp
  then show ?thesis using assms by (simp add: bucket_ok_def refill_def Let_def)
qed

lemma refill_tokens_le:
  "tb_tokens (refill now b) \<le> tb_tokens b + (tb_last_refill (refill now b) - tb_last_refill b) * tb_rate b"
  by (simp add: refill_def Let_def)

lemma try_take_fixed [simp]:
  "tb_rate (snd (try_take tokens now b)) = tb_rate b" "tb_capacity (snd (try_take tokens now b)) = tb_capacity b"
  by (simp_all add: try_take_def Let_def)

lemma try_take_ok: "bucket_ok b \<Longrightarrow> 0 \<le> tokens \<Longrightarrow> bucket_ok (snd (try_take tokens now b))"
  using refill_ok [of b now] by (simp add: try_take_def Let_def bucket_ok_def)

lemma try_take_last: "tb_last_refill (snd (try_take tokens now b)) = max now (tb_last_refill b)"
  by (simp add: try_take_def Let_def refill_last)

subsection \<open>What a bucket grants\<close>

text \<open>The steps of all threads, as pairs of the amount asked and the clock reading.\<close>

fun takes :: "(rat \<times> rat) list \<Rightarrow> bucket \<Rightarrow> rat \<times> bucket" where
  "takes [] b = (0, b)"
| "takes ((tokens, now) # steps) b = (let (taken, b1) = try_take tokens now b; (sum, b2) = takes steps b1 in
     ((if taken then tokens else 0) + sum, b2))"

lemma try_take_pays:
  "tb_tokens (snd (try_take tokens now b)) + (if fst (try_take tokens now b) then tokens else 0)
   \<le> tb_tokens b + (tb_last_refill (snd (try_take tokens now b)) - tb_last_refill b) * tb_rate b"
  using refill_tokens_le [of now b] by (simp add: try_take_def Let_def)

lemma takes_pay:
  assumes "bucket_ok b" "list_all (\<lambda>s. 0 \<le> fst s) steps"
  shows "fst (takes steps b) + tb_tokens (snd (takes steps b))
      \<le> tb_tokens b + (tb_last_refill (snd (takes steps b)) - tb_last_refill b) * tb_rate b
    \<and> bucket_ok (snd (takes steps b)) \<and> tb_last_refill b \<le> tb_last_refill (snd (takes steps b))
    \<and> tb_rate (snd (takes steps b)) = tb_rate b"
  using assms
proof (induction steps arbitrary: b)
  case (Cons s steps)
  obtain tokens now where s: "s = (tokens, now)" by force
  obtain taken b1 where b1: "try_take tokens now b = (taken, b1)" by force
  obtain sum b2 where b2: "takes steps b1 = (sum, b2)" by force
  have ok1: "bucket_ok b1" using try_take_ok [of b tokens now] Cons.prems b1 by (simp add: s)
  have IH: "sum + tb_tokens b2 \<le> tb_tokens b1 + (tb_last_refill b2 - tb_last_refill b1) * tb_rate b1"
      "bucket_ok b2" "tb_last_refill b1 \<le> tb_last_refill b2" "tb_rate b2 = tb_rate b1"
    using Cons.IH [OF ok1] Cons.prems b2 by simp_all
  have step: "tb_tokens b1 + (if taken then tokens else 0) \<le> tb_tokens b + (tb_last_refill b1 - tb_last_refill b) * tb_rate b"
    using try_take_pays [of tokens now b] by (simp add: b1)
  have same: "tb_rate b1 = tb_rate b" "tb_last_refill b \<le> tb_last_refill b1"
    using try_take_fixed(1) [of tokens now b] try_take_last [of tokens now b] by (simp_all add: b1)
  have "(tb_last_refill b2 - tb_last_refill b) * tb_rate b
      = (tb_last_refill b2 - tb_last_refill b1) * tb_rate b + (tb_last_refill b1 - tb_last_refill b) * tb_rate b"
    by (simp add: algebra_simps)
  then show ?case using IH step same by (simp add: s b1 b2)
qed simp

text \<open>
  C24. A token bucket never grants more than its burst and its rate allow: over any interleaving of
  acquires, the tokens granted are at most the capacity and the rate times the time that passed on the
  bucket's clock, even when the readings of the clock go back.
\<close>

theorem token_bucket_bound:
  assumes "bucket_ok b" and "list_all (\<lambda>s. 0 \<le> fst s) steps"
  shows "fst (takes steps b) \<le> tb_capacity b
    + tb_rate b * (tb_last_refill (snd (takes steps b)) - tb_last_refill b)"
proof -
  have "0 \<le> tb_tokens (snd (takes steps b))" using takes_pay [OF assms] by (simp add: bucket_ok_def)
  then have "fst (takes steps b) \<le> tb_tokens b + (tb_last_refill (snd (takes steps b)) - tb_last_refill b) * tb_rate b"
    using takes_pay [OF assms] by linarith
  then show ?thesis using assms(1) by (simp add: bucket_ok_def mult.commute)
qed

definition two_per_second :: bucket where
  "two_per_second = \<lparr>tb_rate = 2, tb_capacity = 5, tb_tokens = 5, tb_last_refill = 100\<rparr>"

theorem token_bucket_bound_witness:
  "fst (takes [(5, 100), (1, 100), (2, 101)] two_per_second) = 7
   \<and> fst (takes [(5, 100), (1, 100), (2, 101)] two_per_second) \<le> tb_capacity two_per_second
     + tb_rate two_per_second * (tb_last_refill (snd (takes [(5, 100), (1, 100), (2, 101)] two_per_second))
       - tb_last_refill two_per_second)"
proof
  show "fst (takes [(5, 100), (1, 100), (2, 101)] two_per_second) = 7" by code_simp
  show "fst (takes [(5, 100), (1, 100), (2, 101)] two_per_second) \<le> tb_capacity two_per_second
     + tb_rate two_per_second * (tb_last_refill (snd (takes [(5, 100), (1, 100), (2, 101)] two_per_second))
       - tb_last_refill two_per_second)"
    by (rule token_bucket_bound) (simp_all add: bucket_ok_def two_per_second_def)
qed

subsection \<open>The blocking acquire returns\<close>

text \<open>
  A reading after a sleep of at least a millisecond is a millisecond later at least; between the two
  readings of a round the clock does not go back.
\<close>

definition clock_runs :: "(nat \<Rightarrow> rat) \<Rightarrow> bool" where
  "clock_runs clock \<longleftrightarrow> (\<forall>i. clock i \<le> clock (i + 1)) \<and> (\<forall>i. clock (2 * i + 2) + 1 / 1000 \<le> clock (2 * i + 3))"

lemma sleep_chunk_least: "1 / 1000 \<le> sleep_chunk needed remaining"
  by (simp add: sleep_chunk_def)

lemma refill_gains:
  assumes "bucket_ok b" "tb_last_refill b + 1 / 1000 \<le> now" "tb_tokens (refill now b) < tb_capacity b"
  shows "tb_tokens b + tb_rate b / 1000 \<le> tb_tokens (refill now b)"
proof -
  have "1 / 1000 * tb_rate b \<le> (now - tb_last_refill b) * tb_rate b"
    using assms(1,2) by (intro mult_right_mono) (auto simp: bucket_ok_def)
  then show ?thesis using assms(2,3) by (auto simp: refill_def Let_def min_def split: if_splits)
qed

text \<open>The call comes back; without a timeout, with the tokens.\<close>

definition returns :: "bool \<Rightarrow> rat option \<Rightarrow> (bool \<times> rat list \<times> bucket) option \<Rightarrow> bool" where
  "returns block timeout result = (case result of
     None \<Rightarrow> False
   | Some (taken, naps, b) \<Rightarrow> (block \<and> timeout = None \<longrightarrow> taken))"

lemma returns_Some [simp]: "returns block timeout (Some (taken, naps, b)) \<longleftrightarrow> (block \<and> timeout = None \<longrightarrow> taken)"
  by (simp add: returns_def)

lemma acquire_loop_round:
  assumes "try_take tokens (clock i) b = (False, b1)"
    and "\<And>naps. returns block timeout (acquire_loop fuel clock (i + 2) tokens block timeout start naps b1)"
  shows "returns block timeout (acquire_loop (Suc fuel) clock i tokens block timeout start naps b)"
  using assms by (cases block; cases timeout) (simp_all add: Let_def)

lemma acquire_loop_returns:
  assumes "clock_runs clock" "bucket_ok b" "0 < tokens" "tokens \<le> tb_capacity b"
    and "tb_last_refill b + 1 / 1000 \<le> clock (2 * i + 1)" "tokens \<le> tb_tokens b + of_nat (Suc n) * tb_rate b / 1000"
  shows "returns block timeout (acquire_loop (Suc n) clock (2 * i + 1) tokens block timeout start naps b)"
  using assms(2-)
proof (induction n arbitrary: b i naps)
  case 0
  have "tokens \<le> tb_tokens (refill (clock (2 * i + 1)) b)"
  proof (rule ccontr)
    assume "\<not> ?thesis"
    then show False using refill_gains [OF 0(1,4)] 0 by simp
  qed
  then show ?case by (simp add: try_take_def Let_def returns_def)
next
  case (Suc n)
  define b1 where "b1 = refill (clock (2 * i + 1)) b"
  show ?case
  proof (cases "tokens \<le> tb_tokens b1")
    case True
    then show ?thesis by (simp add: try_take_def Let_def b1_def returns_def)
  next
    case False
    then have gain: "tb_tokens b + tb_rate b / 1000 \<le> tb_tokens b1"
      using refill_gains [OF Suc.prems(1,4)] Suc.prems(3) by (simp add: b1_def)
    have last: "tb_last_refill b1 = clock (2 * i + 1)" using Suc.prems(4) by (simp add: b1_def refill_last)
    have "clock (2 * i + 1) \<le> clock (2 * i + 2)" "clock (2 * i + 2) + 1 / 1000 \<le> clock (2 * i + 3)"
      using assms(1) by (simp_all add: clock_runs_def)
    then have later: "tb_last_refill b1 + 1 / 1000 \<le> clock (2 * Suc i + 1)" by (simp add: last numeral_3_eq_3)
    have enough: "tokens \<le> tb_tokens b1 + of_nat (Suc n) * tb_rate b1 / 1000"
      using gain Suc.prems(5) by (simp add: b1_def algebra_simps add_divide_distrib)
    have IH: "returns block timeout (acquire_loop (Suc n) clock (2 * Suc i + 1) tokens block timeout start naps2 b1)" for naps2
      using Suc.prems(1-3) by (intro Suc.IH refill_ok later enough) (simp_all add: b1_def refill_ok)
    have taken: "try_take tokens (clock (2 * i + 1)) b = (False, b1)"
      using False by (simp add: try_take_def Let_def b1_def)
    show ?thesis by (rule acquire_loop_round, rule taken) (use IH in simp)
  qed
qed

text \<open>
  A blocking acquire on an otherwise idle bucket comes back, within a number of rounds that the
  request and the rate bound, and without a timeout it comes back with the tokens: the sleeps are
  long enough for the refill to catch up and the capacity is never in the way.
\<close>

theorem bucket_acquire_returns:
  assumes "clock_runs clock" "bucket_ok b" "0 < tokens" "tokens \<le> tb_capacity b"
    and "tb_last_refill b \<le> clock 0" and "tokens * 1000 / tb_rate b \<le> of_nat rounds"
  shows "\<exists>result. bucket_acquire (rounds + 2) clock tokens block timeout b = Inr result \<and> returns block timeout result"
proof -
  define b1 where "b1 = refill (clock 1) b"
  have rate: "0 < tb_rate b" using assms(2) by (simp add: bucket_ok_def)
  have ok1: "bucket_ok b1" by (simp add: b1_def refill_ok assms(2))
  have mono: "clock i \<le> clock (i + 1)" and nap: "clock (2 * i + 2) + 1 / 1000 \<le> clock (2 * i + 3)" for i
    using assms(1) by (auto simp only: clock_runs_def)
  have c: "clock 0 \<le> clock 1" "clock 1 \<le> clock 2" "clock 2 + 1 / 1000 \<le> clock 3"
    using mono [of 0] mono [of 1] nap [of 0] by (simp_all only: add_0 mult_0_right one_add_one)
  have later: "tb_last_refill b1 + 1 / 1000 \<le> clock (2 * 1 + 1)"
  proof -
    have "tb_last_refill b1 = clock 1" using c(1) assms(5) by (simp add: b1_def refill_last max_def)
    then have "tb_last_refill b1 + 1 / 1000 \<le> clock 3" using c(2,3) by linarith
    then show ?thesis by simp
  qed
  have "tokens * 1000 \<le> of_nat rounds * tb_rate b" using assms(6) rate by (simp add: field_simps)
  moreover have "0 \<le> tb_tokens b1" using ok1 by (simp add: bucket_ok_def)
  ultimately have enough: "tokens \<le> tb_tokens b1 + of_nat (Suc rounds) * tb_rate b1 / 1000"
    using rate by (simp add: b1_def algebra_simps add_divide_distrib)
  have next_round: "returns block timeout (acquire_loop (Suc rounds) clock (2 * 1 + 1) tokens block timeout start naps b1)" for start naps
    using assms(1,3,4) ok1 by (intro acquire_loop_returns later enough) (simp_all add: b1_def)
  have "returns block timeout (acquire_loop (Suc (Suc rounds)) clock 1 tokens block timeout (clock 0) [] b)"
  proof (cases "tokens \<le> tb_tokens b1")
    case True
    then show ?thesis by (simp add: try_take_def Let_def b1_def returns_def)
  next
    case False
    then have taken: "try_take tokens (clock 1) b = (False, b1)" by (simp add: try_take_def Let_def b1_def)
    show ?thesis by (rule acquire_loop_round, rule taken) (use next_round in \<open>simp add: numeral_3_eq_3\<close>)
  qed
  then show ?thesis using assms(3,4) by (simp add: bucket_acquire_def del: acquire_loop.simps)
qed

definition ticking :: "nat \<Rightarrow> rat" where
  "ticking i = of_nat i / 100 + 100"

theorem bucket_acquire_returns_witness:
  "\<exists>result. bucket_acquire (1000 + 2) ticking 2 True None (two_per_second\<lparr>tb_tokens := 1\<rparr>) = Inr result \<and> returns True None result"
proof (rule bucket_acquire_returns)
  show "clock_runs ticking" by (simp add: clock_runs_def ticking_def add_divide_distrib)
qed (simp_all add: bucket_ok_def two_per_second_def ticking_def)

section \<open>The sliding window\<close>

record window =
  sw_window_seconds :: rat
  sw_max_requests :: nat
  sw_timestamps :: "rat list"

definition new_window :: "rat \<Rightarrow> int \<Rightarrow> window result" where
  "new_window window_seconds max_requests =
     (if window_seconds \<le> 0 then Inl (ValueError ''Window must be positive'')
      else if max_requests \<le> 0 then Inl (ValueError ''Max requests must be positive'')
      else Inr \<lparr>sw_window_seconds = window_seconds, sw_max_requests = nat max_requests, sw_timestamps = []\<rparr>)"

definition allow_request :: "rat \<Rightarrow> window \<Rightarrow> bool \<times> window" where
  "allow_request now w =
     (let kept = dropWhile (\<lambda>t. t \<le> now - sw_window_seconds w) (sw_timestamps w) in
      if length kept < sw_max_requests w then (True, w\<lparr>sw_timestamps := kept @ [now]\<rparr>)
      else (False, w\<lparr>sw_timestamps := kept\<rparr>))"

text \<open>The times of the requests that were allowed.\<close>

fun allowed :: "rat list \<Rightarrow> window \<Rightarrow> rat list" where
  "allowed [] w = []"
| "allowed (now # stamps) w = (let (ok, w1) = allow_request now w in (if ok then [now] else []) @ allowed stamps w1)"

definition in_window :: "rat \<Rightarrow> rat \<Rightarrow> rat list \<Rightarrow> nat" where
  "in_window width t stamps = length (filter (\<lambda>x. t - width < x \<and> x \<le> t) stamps)"

text \<open>
  What the limiter knows of the log of allowed requests: every allowed time is still in the deque or
  is out of every window that ends now or later.
\<close>

definition window_ok :: "rat \<Rightarrow> rat list \<Rightarrow> window \<Rightarrow> bool" where
  "window_ok now granted w \<longleftrightarrow> (\<exists>old. granted = old @ sw_timestamps w \<and> (\<forall>x \<in> set old. x \<le> now - sw_window_seconds w))
     \<and> sorted granted \<and> (\<forall>x \<in> set granted. x \<le> now)
     \<and> (\<forall>t. in_window (sw_window_seconds w) t granted \<le> sw_max_requests w)"

lemma in_window_old: "(\<forall>x \<in> set old. x \<le> t - width) \<Longrightarrow> in_window width t (old @ xs) = in_window width t xs"
  by (auto simp: in_window_def filter_empty_conv not_less)

lemma window_slide:
  assumes "window_ok now granted w" "now \<le> now'"
  shows "window_ok now' granted (w\<lparr>sw_timestamps := dropWhile (\<lambda>t. t \<le> now' - sw_window_seconds w) (sw_timestamps w)\<rparr>)"
proof -
  let ?p = "\<lambda>t. t \<le> now' - sw_window_seconds w"
  from assms(1) obtain old where old: "granted = old @ sw_timestamps w" "\<forall>x \<in> set old. x \<le> now - sw_window_seconds w"
    by (auto simp: window_ok_def)
  have "granted = (old @ takeWhile ?p (sw_timestamps w)) @ dropWhile ?p (sw_timestamps w)" by (simp add: old(1))
  moreover have "\<forall>x \<in> set (old @ takeWhile ?p (sw_timestamps w)). x \<le> now' - sw_window_seconds w"
    using old(2) assms(2) by (auto dest: set_takeWhileD)
  ultimately have "\<exists>old. granted = old @ dropWhile ?p (sw_timestamps w) \<and> (\<forall>x \<in> set old. x \<le> now' - sw_window_seconds w)"
    by blast
  moreover have "\<forall>x \<in> set granted. x \<le> now'" using assms by (auto simp: window_ok_def)
  ultimately show ?thesis using assms(1) by (simp add: window_ok_def)
qed

lemma window_grant:
  assumes "window_ok now granted w" "length (sw_timestamps w) < sw_max_requests w"
  shows "window_ok now (granted @ [now]) (w\<lparr>sw_timestamps := sw_timestamps w @ [now]\<rparr>)"
proof -
  from assms(1) obtain old where old: "granted = old @ sw_timestamps w" "\<forall>x \<in> set old. x \<le> now - sw_window_seconds w"
    by (auto simp: window_ok_def)
  have "in_window (sw_window_seconds w) t (granted @ [now]) \<le> sw_max_requests w" for t
  proof (cases "now \<le> t")
    case True
    then have "\<forall>x \<in> set old. x \<le> t - sw_window_seconds w" using old(2) by force
    then have "in_window (sw_window_seconds w) t (granted @ [now]) \<le> length (sw_timestamps w @ [now])"
      by (simp only: old(1) append_assoc in_window_old) (simp only: in_window_def length_filter_le)
    then show ?thesis using assms(2) by simp
  next
    case False
    then show ?thesis using assms(1) by (simp add: window_ok_def in_window_def)
  qed
  then show ?thesis using assms(1) old by (auto simp: window_ok_def sorted_append)
qed

lemma allowed_bound:
  assumes "window_ok now granted w" "sorted (now # stamps)"
  shows "in_window (sw_window_seconds w) t (granted @ allowed stamps w) \<le> sw_max_requests w"
  using assms
proof (induction stamps arbitrary: now granted w)
  case Nil
  then show ?case by (simp add: window_ok_def)
next
  case (Cons now' stamps)
  define w1 where "w1 = w\<lparr>sw_timestamps := dropWhile (\<lambda>t. t \<le> now' - sw_window_seconds w) (sw_timestamps w)\<rparr>"
  have w1: "window_ok now' granted w1" using window_slide [OF Cons.prems(1)] Cons.prems(2) by (simp add: w1_def)
  have rest: "sorted (now' # stamps)" using Cons.prems(2) by simp
  show ?case
  proof (cases "length (sw_timestamps w1) < sw_max_requests w1")
    case True
    then have "allow_request now' w = (True, w1\<lparr>sw_timestamps := sw_timestamps w1 @ [now']\<rparr>)"
      by (simp add: allow_request_def w1_def Let_def)
    then show ?thesis using Cons.IH [OF window_grant [OF w1 True] rest] by (simp add: w1_def)
  next
    case False
    then have "allow_request now' w = (False, w1)" by (simp add: allow_request_def w1_def Let_def)
    then show ?thesis using Cons.IH [OF w1 rest] by (simp add: w1_def)
  qed
qed

text \<open>
  The sliding window is exact: as long as the clock does not go back, no interval of the window's
  width, wherever it starts, holds more than \<open>max_requests\<close> allowed requests.
\<close>

theorem sliding_window_bound:
  assumes "new_window width limit = Inr w" and "sorted stamps"
  shows "int (in_window width t (allowed stamps w)) \<le> limit"
proof (cases stamps)
  case Nil
  then show ?thesis using assms(1) by (simp add: in_window_def new_window_def split: if_splits)
next
  case (Cons now rest)
  have w: "0 < limit" "w = \<lparr>sw_window_seconds = width, sw_max_requests = nat limit, sw_timestamps = []\<rparr>"
    using assms(1) by (auto simp: new_window_def split: if_splits)
  have "window_ok now [] w" by (simp add: w window_ok_def in_window_def)
  moreover have "sorted (now # stamps)" using assms(2) by (simp add: Cons)
  ultimately have "in_window (sw_window_seconds w) t ([] @ allowed stamps w) \<le> sw_max_requests w" by (rule allowed_bound)
  then show ?thesis using w by simp
qed

theorem sliding_window_bound_witness:
  "int (in_window 10 20 (allowed [11, 12, 13, 14, 20, 22]
     \<lparr>sw_window_seconds = 10, sw_max_requests = 3, sw_timestamps = []\<rparr>)) \<le> 3"
  by (rule sliding_window_bound) (simp_all add: new_window_def)

section \<open>The multi-tier limiter\<close>

record rate_limit_rule =
  rl_name :: string
  rl_rate :: rat
  rl_capacity :: rat

type_synonym tiers = "(string \<times> bucket) list"

fun new_multi_tier :: "rate_limit_rule list \<Rightarrow> rat \<Rightarrow> tiers \<Rightarrow> tiers result" where
  "new_multi_tier [] now tiers = Inr tiers"
| "new_multi_tier (r # rules) now tiers = (case new_bucket (rl_rate r) (rl_capacity r) now of
     Inl e \<Rightarrow> Inl e
   | Inr b \<Rightarrow> new_multi_tier rules now (AList.update (rl_name r) b tiers))"

text \<open>The first pass: refill tier by tier until one is short; \<open>clock\<close> gives each refill its reading.\<close>

fun check_tiers :: "rat \<Rightarrow> (nat \<Rightarrow> rat) \<Rightarrow> tiers \<Rightarrow> bool \<times> tiers" where
  "check_tiers tokens clock [] = (True, [])"
| "check_tiers tokens clock ((n, b) # tiers) = (let b1 = refill (clock 0) b in
     if tb_tokens b1 < tokens then (False, (n, b1) # tiers)
     else (let (ok, tiers1) = check_tiers tokens (\<lambda>i. clock (i + 1)) tiers in (ok, (n, b1) # tiers1)))"

definition multi_acquire :: "rat \<Rightarrow> (nat \<Rightarrow> rat) \<Rightarrow> tiers \<Rightarrow> bool \<times> tiers" where
  "multi_acquire tokens clock tiers = (let (ok, tiers1) = check_tiers tokens clock tiers in
     if ok then (True, map (\<lambda>(n, b). (n, b\<lparr>tb_tokens := tb_tokens b - tokens\<rparr>)) tiers1) else (False, tiers1))"

lemma check_tiers_refills: "list_all2 (\<lambda>(n, b) (n', b'). n' = n \<and> (b' = b \<or> (\<exists>now. b' = refill now b)))
    tiers (snd (check_tiers tokens clock tiers))"
  by (induction tokens clock tiers rule: check_tiers.induct)
    (auto simp: Let_def list_all2_refl split: prod.splits if_splits)

lemma check_tiers_enough: "fst (check_tiers tokens clock tiers) \<Longrightarrow>
    list_all2 (\<lambda>(n, b) (n', b'). n' = n \<and> (\<exists>now. b' = refill now b) \<and> tokens \<le> tb_tokens b') tiers (snd (check_tiers tokens clock tiers))"
  by (induction tokens clock tiers rule: check_tiers.induct)
    (auto simp: Let_def not_less split: prod.splits if_splits)

text \<open>
  All or nothing: a refused request takes no tokens from any tier, a granted one takes them from
  every tier, which all had them.
\<close>

theorem multi_tier_all_or_nothing:
  "list_all2 (\<lambda>(n, b) (n', b'). n' = n \<and>
     (if fst (multi_acquire tokens clock tiers)
      then (\<exists>now. tokens \<le> tb_tokens (refill now b) \<and> b' = (refill now b)\<lparr>tb_tokens := tb_tokens (refill now b) - tokens\<rparr>)
      else b' = b \<or> (\<exists>now. b' = refill now b)))
   tiers (snd (multi_acquire tokens clock tiers))"
proof (cases "check_tiers tokens clock tiers")
  case (Pair ok tiers1)
  show ?thesis
  proof (cases ok)
    case True
    then have "list_all2 (\<lambda>(n, b) (n', b'). n' = n \<and> (\<exists>now. b' = refill now b) \<and> tokens \<le> tb_tokens b') tiers tiers1"
      using check_tiers_enough [of tokens clock tiers] Pair by simp
    then show ?thesis
      using True Pair by (auto simp: multi_acquire_def list.rel_map elim!: list_all2_mono)
  next
    case False
    then show ?thesis using check_tiers_refills [of tiers tokens clock] Pair by (simp add: multi_acquire_def)
  qed
qed

text \<open>
  Unlike the bucket's own acquire, the multi-tier one does not check the amount: a negative request is
  granted and fills every tier above its capacity, which then grants more than the bound of a bucket.
\<close>

theorem multi_tier_negative_request:
  "fst (multi_acquire 15 (\<lambda>_. 100) (snd (multi_acquire (-10) (\<lambda>_. 100) [(''burst'', two_per_second)])))"
  by code_simp

end
