(* ===== verification/Py_Float.thy ===== *)
theory Py_Float
  imports Complex_Main
begin

text \<open>
  Float arithmetic of the sources over exact rationals: rounding to the nearest integer, ties to even,
  and to a number of decimals.
\<close>

definition round_half_even :: "rat \<Rightarrow> int" where
  "round_half_even x = (let f = \<lfloor>x\<rfloor>; d = x - of_int f in
     if d < 1 / 2 then f else if 1 / 2 < d then f + 1 else if even f then f else f + 1)"

definition round_digits :: "rat \<Rightarrow> nat \<Rightarrow> rat" where
  "round_digits x n = of_int (round_half_even (x * 10 ^ n)) / 10 ^ n"

lemma round_half_even_int [simp]: "round_half_even (of_int k) = k"
  by (simp add: round_half_even_def)

lemma round_half_even_near: "\<bar>of_int (round_half_even x) - x\<bar> \<le> 1 / 2"
proof -
  define f where "f = rat_of_int \<lfloor>x\<rfloor>"
  have "f \<le> x" "x < f + 1" unfolding f_def by (rule of_int_floor_le, linarith)
  then show ?thesis by (simp add: round_half_even_def Let_def f_def [symmetric] abs_if)
qed

end
