(* ===== verification/Dead_Letter_Queue.thy ===== *)
theory Dead_Letter_Queue
  imports Py_Time Py_Float
begin

text \<open>
  The dead-letter queue (courier\_core/dead\_letter\_queue.py): failed tasks with their backoff,
  quarantine, replay and audit. Moments are microseconds, as in the theory of times; floats are exact
  rationals. The file is a table that \<open>_save\<close> wrote, or one on which loading fails.
\<close>

section \<open>Times\<close>

text \<open>
  \<open>datetime.strptime(ts, "%Y-%m-%dT%H:%M:%SZ")\<close>, more lenient than the printed form: a field but the
  year may have one digit, a day below ten a leading space, and the letters either case. None is
  \<open>ValueError\<close>.
\<close>

fun split_when :: "(char \<Rightarrow> bool) \<Rightarrow> string \<Rightarrow> (string \<times> string) option" where
  "split_when p [] = None"
| "split_when p (c # s) = (if p c then Some ([], s) else map_option (\<lambda>(a, b). (c # a, b)) (split_when p s))"

definition number_in :: "int \<Rightarrow> int \<Rightarrow> string \<Rightarrow> int option" where
  "number_in lo hi s = (if (length s = 1 \<or> length s = 2) \<and> list_all is_digit s
       \<and> lo \<le> int (digits_value s) \<and> int (digits_value s) \<le> hi
     then Some (int (digits_value s)) else None)"

definition day_in :: "string \<Rightarrow> int option" where
  "day_in s = (case s of
     [a, b] \<Rightarrow> if a = CHR '' '' then number_in 1 9 [b] else number_in 1 31 s
   | _ \<Rightarrow> number_in 1 31 s)"

definition strptime :: "string \<Rightarrow> int option" where
  "strptime ts =
     Option.bind (split_when (\<lambda>c. c = CHR ''-'') ts) (\<lambda>(ys, s1).
     Option.bind (split_when (\<lambda>c. c = CHR ''-'') s1) (\<lambda>(ms, s2).
     Option.bind (split_when (\<lambda>c. c = CHR ''T'' \<or> c = CHR ''t'') s2) (\<lambda>(ds, s3).
     Option.bind (split_when (\<lambda>c. c = CHR '':'') s3) (\<lambda>(hs, s4).
     Option.bind (split_when (\<lambda>c. c = CHR '':'') s4) (\<lambda>(mins, s5).
     Option.bind (split_when (\<lambda>c. c = CHR ''Z'' \<or> c = CHR ''z'') s5) (\<lambda>(secs, s6).
     if \<not> (length ys = 4 \<and> list_all is_digit ys \<and> s6 = []) then None
     else Option.bind (number_in 1 12 ms) (\<lambda>m.
       Option.bind (day_in ds) (\<lambda>d.
       Option.bind (number_in 0 23 hs) (\<lambda>h.
       Option.bind (number_in 0 59 mins) (\<lambda>mi.
       Option.bind (number_in 0 59 secs) (\<lambda>sec.
       let y = int (digits_value ys) in
       if valid_date y m d
       then Some ((day_number y m d * SECONDS_PER_DAY + h * 3600 + mi * 60 + sec) * MICROS_PER_SECOND)
       else None)))))))))))"

text \<open>\<open>base ** attempts\<close> for an integer exponent\<close>

definition py_pow :: "rat \<Rightarrow> int \<Rightarrow> rat result" where
  "py_pow base n = (if 0 \<le> n then Inr (base ^ nat n)
     else if base = 0 then Inl (ZeroDivisionError ''0.0 cannot be raised to a negative power'')
     else Inr (1 / base ^ nat (- n)))"

text \<open>\<open>cur_now + timedelta(seconds=seconds)\<close>\<close>

definition add_delay :: "int \<Rightarrow> rat \<Rightarrow> int result" where
  "add_delay now seconds = (let t = now + round_half_even (seconds * of_int MICROS_PER_SECOND) in
     if in_range t then Inr t else Inl (OverflowError ''date value out of range''))"

section \<open>The queue\<close>

record dlq_entry =
  de_item_id :: string
  de_error_reason :: string
  de_attempts :: int
  de_state :: string
  de_last_failed_at :: string
  de_retry_after :: "string option"

type_synonym dlq_table = "(string \<times> dlq_entry) list"

text \<open>A symbolic link comes with whether its target exists.\<close>

datatype dlq_file = DlqMissing | DlqSymlink bool | DlqCorrupt | DlqTable dlq_table

record dlq =
  dq_file :: dlq_file
  dq_max_attempts :: int
  dq_backoff_base_sec :: rat
  dq_entries :: dlq_table

definition open_dlq :: "dlq_file \<Rightarrow> int \<Rightarrow> rat \<Rightarrow> dlq result" where
  "open_dlq f max_attempts backoff_base_sec =
     (let q = \<lparr>dq_file = f, dq_max_attempts = max_attempts, dq_backoff_base_sec = backoff_base_sec, dq_entries = []\<rparr> in
      case f of
        DlqMissing \<Rightarrow> Inr q
      | DlqSymlink False \<Rightarrow> Inr q
      | DlqSymlink True \<Rightarrow> Inl (CorruptDLQError ''is a symlink: refusing insecure load'')
      | DlqCorrupt \<Rightarrow> Inl (CorruptDLQError ''Corrupt DLQ file'')
      | DlqTable t \<Rightarrow> Inr (q\<lparr>dq_entries := t\<rparr>))"

text \<open>The entry is in memory before the file is written, so it stays there when the write is refused.\<close>

fun is_symlink :: "dlq_file \<Rightarrow> bool" where
  "is_symlink (DlqSymlink _) = True"
| "is_symlink _ = False"

definition put :: "dlq_entry \<Rightarrow> dlq \<Rightarrow> dlq_entry result \<times> dlq" where
  "put entry q = (let q1 = q\<lparr>dq_entries := AList.update (de_item_id entry) entry (dq_entries q)\<rparr> in
     if is_symlink (dq_file q) then (Inl (CorruptDLQError ''is a symlink: refusing insecure write''), q1)
     else (Inr entry, q1\<lparr>dq_file := DlqTable (dq_entries q1)\<rparr>))"

definition failure_entry :: "string \<Rightarrow> string \<Rightarrow> int \<Rightarrow> int option \<Rightarrow> int \<Rightarrow> bool \<Rightarrow> dlq \<Rightarrow> dlq_entry result" where
  "failure_entry item_id error_reason attempts max_attempts now idempotent q =
     (let limit = (case max_attempts of Some n \<Rightarrow> n | None \<Rightarrow> dq_max_attempts q);
          entry = \<lparr>de_item_id = item_id, de_error_reason = error_reason, de_attempts = attempts, de_state = ''QUARANTINED'',
            de_last_failed_at = stamp now, de_retry_after = None\<rparr>
      in if idempotent \<and> attempts < limit then
           bind_result (py_pow (dq_backoff_base_sec q) attempts) (\<lambda>backoff_seconds.
           bind_result (add_delay now backoff_seconds) (\<lambda>retry_dt.
           Inr (entry\<lparr>de_state := ''RETRYABLE'', de_retry_after := Some (stamp retry_dt)\<rparr>)))
         else Inr entry)"

definition record_failure :: "string \<Rightarrow> string \<Rightarrow> int \<Rightarrow> int option \<Rightarrow> int \<Rightarrow> bool \<Rightarrow> dlq \<Rightarrow> dlq_entry result \<times> dlq" where
  "record_failure item_id error_reason attempts max_attempts now idempotent q =
     (case failure_entry item_id error_reason attempts max_attempts now idempotent q of
        Inl e \<Rightarrow> (Inl e, q)
      | Inr entry \<Rightarrow> put entry q)"

definition ready_at :: "int \<Rightarrow> dlq_entry \<Rightarrow> bool" where
  "ready_at now entry = (de_state entry = ''RETRYABLE'' \<and> (case de_retry_after entry of
     None \<Rightarrow> False
   | Some ts \<Rightarrow> ts \<noteq> [] \<and> (case strptime ts of None \<Rightarrow> False | Some retry_dt \<Rightarrow> retry_dt \<le> now)))"

definition get_retryable_items :: "int \<Rightarrow> dlq \<Rightarrow> dlq_entry list" where
  "get_retryable_items now q = filter (ready_at now) (map snd (dq_entries q))"

definition quarantine_item :: "string \<Rightarrow> string \<Rightarrow> int \<Rightarrow> dlq \<Rightarrow> dlq_entry result \<times> dlq" where
  "quarantine_item item_id reason now q = put
     \<lparr>de_item_id = item_id, de_error_reason = reason,
      de_attempts = (case map_of (dq_entries q) item_id of Some e \<Rightarrow> de_attempts e | None \<Rightarrow> 1),
      de_state = ''QUARANTINED'', de_last_failed_at = stamp now, de_retry_after = None\<rparr> q"

definition replay_item :: "string \<Rightarrow> int \<Rightarrow> dlq \<Rightarrow> dlq_entry result \<times> dlq" where
  "replay_item item_id now q = put
     \<lparr>de_item_id = item_id,
      de_error_reason = (case map_of (dq_entries q) item_id of Some e \<Rightarrow> de_error_reason e | None \<Rightarrow> ''Replayed by operator''),
      de_attempts = 0, de_state = ''RETRYABLE'', de_last_failed_at = stamp now, de_retry_after = Some (stamp now)\<rparr> q"

record dlq_audit =
  da_total_entries :: nat
  da_quarantined_count :: nat
  da_retryable_count :: nat
  da_reasons :: "(string \<times> nat) list"

definition count_reason :: "dlq_entry \<Rightarrow> (string \<times> nat) list \<Rightarrow> (string \<times> nat) list" where
  "count_reason e reasons = AList.update (de_error_reason e)
     ((case map_of reasons (de_error_reason e) of None \<Rightarrow> 0 | Some n \<Rightarrow> n) + 1) reasons"

definition audit :: "dlq \<Rightarrow> dlq_audit" where
  "audit q = (let es = map snd (dq_entries q) in
     \<lparr>da_total_entries = length es,
      da_quarantined_count = length (filter (\<lambda>e. de_state e = ''QUARANTINED'') es),
      da_retryable_count = length (filter (\<lambda>e. de_state e = ''RETRYABLE'') es),
      da_reasons = fold count_reason es []\<rparr>)"

section \<open>What was printed is read back\<close>

lemma split_when_found: "list_all (\<lambda>c. \<not> p c) a \<Longrightarrow> p c \<Longrightarrow> split_when p (a @ c # b) = Some (a, b)"
  by (induction a) simp_all

lemma time_match_chars:
  assumes "time_match s"
  obtains y m d h mi sec where "s = y @ CHR ''-'' # m @ CHR ''-'' # d @ CHR ''T'' # h @ CHR '':'' # mi @ CHR '':'' # sec @ ''Z''"
    "length y = 4" "length m = 2" "length d = 2" "length h = 2" "length mi = 2" "length sec = 2"
    "list_all is_digit (y @ m @ d @ h @ mi @ sec)"
proof -
  obtain y1 y2 y3 y4 m1 m2 d1 d2 h1 h2 i1 i2 s1 s2 where
    s: "s = [y1, y2, y3, y4, CHR ''-'', m1, m2, CHR ''-'', d1, d2, CHR ''T'', h1, h2, CHR '':'', i1, i2, CHR '':'', s1, s2, CHR ''Z'']"
    and d: "list_all is_digit [y1, y2, y3, y4, m1, m2, d1, d2, h1, h2, i1, i2, s1, s2]"
    using assms unfolding time_match_def by (auto simp: list_all2_Cons1)
  show thesis using s d by (intro that [of "[y1, y2, y3, y4]" "[m1, m2]" "[d1, d2]" "[h1, h2]" "[i1, i2]" "[s1, s2]"]) simp_all
qed

lemma digits_no_sep:
  assumes "list_all is_digit s"
  shows "list_all (\<lambda>c. c \<noteq> CHR ''-'') s" "list_all (\<lambda>c. c \<noteq> CHR '':'') s"
    "list_all (\<lambda>c. c \<noteq> CHR ''T'' \<and> c \<noteq> CHR ''t'') s" "list_all (\<lambda>c. c \<noteq> CHR ''Z'' \<and> c \<noteq> CHR ''z'') s"
    "list_all (\<lambda>c. c \<noteq> CHR '' '') s"
  using assms by (auto simp: list_all_iff is_digit_def char_code_def)

lemma number_in_ok: "length s = 2 \<Longrightarrow> list_all is_digit s \<Longrightarrow> lo \<le> int (digits_value s) \<Longrightarrow> int (digits_value s) \<le> hi
    \<Longrightarrow> number_in lo hi s = Some (int (digits_value s))"
  by (simp add: number_in_def)

lemma day_in_ok:
  assumes "length s = 2" "list_all is_digit s" "1 \<le> int (digits_value s)" "int (digits_value s) \<le> 31"
  shows "day_in s = Some (int (digits_value s))"
proof -
  obtain a b where s: "s = [a, b]" using assms(1) by (auto simp: length_Suc_conv numeral_2_eq_2)
  then have "a \<noteq> CHR '' ''" using digits_no_sep(5) [OF assms(2)] by simp
  then show ?thesis using number_in_ok [OF assms] by (simp add: day_in_def s)
qed

lemma valid_date_day: "valid_date y m d \<Longrightarrow> d \<le> 31"
proof -
  assume v: "valid_date y m d"
  have "set (month_lengths y) \<subseteq> {28, 29, 30, 31}" by (simp add: month_lengths_def)
  moreover have "nat (m - 1) < length (month_lengths y)" using v by (auto simp: valid_date_def month_lengths_def)
  ultimately have "month_lengths y ! nat (m - 1) \<in> {28, 29, 30, 31}" using nth_mem by blast
  with v show ?thesis by (auto simp: valid_date_def)
qed

lemma strptime_parse_time:
  assumes "parse_time s = Some t"
  shows "strptime s = Some t"
proof -
  have tm: "time_match s" using assms by (simp add: parse_time_def split: if_splits)
  from time_match_chars [OF tm] obtain y m d h mi sec
    where s: "s = y @ CHR ''-'' # m @ CHR ''-'' # d @ CHR ''T'' # h @ CHR '':'' # mi @ CHR '':'' # sec @ ''Z''"
    and len: "length y = 4" "length m = 2" "length d = 2" "length h = 2" "length mi = 2" "length sec = 2"
    and dig: "list_all is_digit (y @ m @ d @ h @ mi @ sec)" .
  have digs: "list_all is_digit y" "list_all is_digit m" "list_all is_digit d" "list_all is_digit h"
    "list_all is_digit mi" "list_all is_digit sec" using dig by simp_all
  have fields: "field 0 4 s = int (digits_value y)" "field 5 2 s = int (digits_value m)" "field 8 2 s = int (digits_value d)"
    "field 11 2 s = int (digits_value h)" "field 14 2 s = int (digits_value mi)" "field 17 2 s = int (digits_value sec)"
    by (simp_all add: field_def s len)
  have v: "valid_date (int (digits_value y)) (int (digits_value m)) (int (digits_value d))"
    and b: "int (digits_value h) < 24" "int (digits_value mi) < 60" "int (digits_value sec) < 60"
    and t: "t = (day_number (int (digits_value y)) (int (digits_value m)) (int (digits_value d)) * SECONDS_PER_DAY
      + int (digits_value h) * 3600 + int (digits_value mi) * 60 + int (digits_value sec)) * MICROS_PER_SECOND"
    using assms tm unfolding parse_time_def fields Let_def by (auto split: if_splits)
  have nums: "number_in 1 12 m = Some (int (digits_value m))" "day_in d = Some (int (digits_value d))"
    "number_in 0 23 h = Some (int (digits_value h))" "number_in 0 59 mi = Some (int (digits_value mi))"
    "number_in 0 59 sec = Some (int (digits_value sec))"
    using v b valid_date_day [OF v] digs len by (auto intro!: number_in_ok day_in_ok simp: valid_date_def)
  have splits: "split_when (\<lambda>c. c = CHR ''-'') (y @ CHR ''-'' # r) = Some (y, r)"
    "split_when (\<lambda>c. c = CHR ''-'') (m @ CHR ''-'' # r) = Some (m, r)"
    "split_when (\<lambda>c. c = CHR ''T'' \<or> c = CHR ''t'') (d @ CHR ''T'' # r) = Some (d, r)"
    "split_when (\<lambda>c. c = CHR '':'') (h @ CHR '':'' # r) = Some (h, r)"
    "split_when (\<lambda>c. c = CHR '':'') (mi @ CHR '':'' # r) = Some (mi, r)"
    "split_when (\<lambda>c. c = CHR ''Z'' \<or> c = CHR ''z'') (sec @ CHR ''Z'' # r) = Some (sec, r)" for r
    using digits_no_sep digs by (simp_all add: split_when_found)
  show ?thesis
    unfolding strptime_def s splits bind.simps prod.case nums
    using v digs len by (simp add: t)
qed

lemma strptime_stamp: "printable t \<Longrightarrow> strptime (stamp t) = Some (whole_second t)"
  by (rule strptime_parse_time) (rule parse_stamp)

section \<open>Invariants of the table\<close>

text \<open>Every entry is under its own item id, its state is one of the two, and only a retryable one has a retry time.\<close>

definition dlq_ok :: "dlq_table \<Rightarrow> bool" where
  "dlq_ok t \<longleftrightarrow> dict_wf t \<and> (\<forall>(k, e) \<in> set t. de_item_id e = k
     \<and> (de_state e = ''RETRYABLE'' \<and> de_retry_after e \<noteq> None \<or> de_state e = ''QUARANTINED'' \<and> de_retry_after e = None))"

datatype dlq_op =
    RecordFailure string string int "int option" int bool
  | Quarantine string string int
  | Replay string int

fun dlq_step :: "dlq_op \<Rightarrow> dlq \<Rightarrow> dlq_entry result \<times> dlq" where
  "dlq_step (RecordFailure i r n bnd now idem) q = record_failure i r n bnd now idem q"
| "dlq_step (Quarantine i r now) q = quarantine_item i r now q"
| "dlq_step (Replay i now) q = replay_item i now q"

fun dlq_item :: "dlq_op \<Rightarrow> string" where
  "dlq_item (RecordFailure i r n bnd now idem) = i"
| "dlq_item (Quarantine i r now) = i"
| "dlq_item (Replay i now) = i"

text \<open>The operations that take a task out of circulation: no retry is safe or none is left, or a decision.\<close>

fun parks :: "int \<Rightarrow> dlq_op \<Rightarrow> bool" where
  "parks limit (RecordFailure i r n bnd now idem) \<longleftrightarrow> \<not> (idem \<and> n < (case bnd of Some l \<Rightarrow> l | None \<Rightarrow> limit))"
| "parks limit (Quarantine i r now) \<longleftrightarrow> True"
| "parks limit (Replay i now) \<longleftrightarrow> False"

lemma put_simps [simp]:
  "dq_entries (snd (put e q)) = AList.update (de_item_id e) e (dq_entries q)"
  "dq_max_attempts (snd (put e q)) = dq_max_attempts q" "dq_backoff_base_sec (snd (put e q)) = dq_backoff_base_sec q"
  by (simp_all add: put_def Let_def)

lemma failure_entry_form:
  assumes "failure_entry i r n bnd now idem q = Inr e"
  shows "de_item_id e = i" "de_state e = (if parks (dq_max_attempts q) (RecordFailure i r n bnd now idem) then ''QUARANTINED'' else ''RETRYABLE'')"
    "de_retry_after e = None \<longleftrightarrow> parks (dq_max_attempts q) (RecordFailure i r n bnd now idem)"
  using assms by (auto simp: failure_entry_def Let_def bind_result_eq_Inr split: if_splits option.splits)

lemma dlq_step_cases:
  obtains e where "dlq_step op q = put e q" "de_item_id e = dlq_item op"
      "de_state e = (if parks (dq_max_attempts q) op then ''QUARANTINED'' else ''RETRYABLE'')"
      "de_retry_after e = None \<longleftrightarrow> parks (dq_max_attempts q) op"
    | err where "dlq_step op q = (Inl err, q)" "\<not> parks (dq_max_attempts q) op"
proof (cases op)
  case (RecordFailure i r n bnd now idem)
  show thesis
  proof (cases "failure_entry i r n bnd now idem q")
    case (Inl err)
    then have "\<not> parks (dq_max_attempts q) op"
      by (auto simp: RecordFailure failure_entry_def Let_def split: if_splits option.splits)
    then show thesis using Inl by (intro that(2)) (simp_all add: RecordFailure record_failure_def)
  next
    case (Inr e)
    then show thesis
      using failure_entry_form [OF Inr] by (intro that(1) [of e]) (simp_all add: RecordFailure record_failure_def)
  qed
next
  case (Quarantine i r now)
  show thesis by (rule that(1)) (simp_all only: Quarantine dlq_step.simps quarantine_item_def, simp_all)
next
  case (Replay i now)
  show thesis by (rule that(1)) (simp_all only: Replay dlq_step.simps replay_item_def, simp_all)
qed

lemma dlq_ok_update:
  assumes "dlq_ok t" "de_item_id e = k" "de_state e = ''RETRYABLE'' \<and> de_retry_after e \<noteq> None \<or> de_state e = ''QUARANTINED'' \<and> de_retry_after e = None"
  shows "dlq_ok (AList.update k e t)"
  using assms by (auto simp: dlq_ok_def set_update_distinct)

lemma dlq_step_ok: "dlq_ok (dq_entries q) \<Longrightarrow> dlq_ok (dq_entries (snd (dlq_step op q)))"
  by (cases rule: dlq_step_cases [of op q]) (auto intro!: dlq_ok_update)

lemma dlq_step_max: "dq_max_attempts (snd (dlq_step op q)) = dq_max_attempts q"
  by (cases rule: dlq_step_cases [of op q]) simp_all

lemma dlq_run_ok:
  "dlq_ok (dq_entries q) \<Longrightarrow> dlq_ok (dq_entries (fold (\<lambda>op q. snd (dlq_step op q)) ops q))"
  by (induction ops arbitrary: q) (simp_all add: dlq_step_ok)

abbreviation dlq_run :: "dlq_op list \<Rightarrow> dlq \<Rightarrow> dlq" where
  "dlq_run \<equiv> fold (\<lambda>op q. snd (dlq_step op q))"

section \<open>Quarantine holds\<close>

definition quarantined :: "string \<Rightarrow> dlq \<Rightarrow> bool" where
  "quarantined i q \<longleftrightarrow> (\<exists>e. map_of (dq_entries q) i = Some e \<and> de_state e = ''QUARANTINED'')"

lemma parks_quarantines: "parks (dq_max_attempts q) op \<Longrightarrow> dlq_item op = i \<Longrightarrow> quarantined i (snd (dlq_step op q))"
  by (cases rule: dlq_step_cases [of op q]) (auto simp: quarantined_def)

lemma quarantined_step:
  assumes "quarantined i q" "dlq_item op = i \<longrightarrow> parks (dq_max_attempts q) op"
  shows "quarantined i (snd (dlq_step op q))"
proof (cases "dlq_item op = i")
  case True
  then show ?thesis using assms(2) parks_quarantines by blast
next
  case False
  then show ?thesis
    using assms(1) by (cases rule: dlq_step_cases [of op q]) (auto simp: quarantined_def)
qed

lemma quarantined_run:
  "quarantined i q \<Longrightarrow> list_all (\<lambda>op. dlq_item op = i \<longrightarrow> parks (dq_max_attempts q) op) ops \<Longrightarrow> quarantined i (dlq_run ops q)"
proof (induction ops arbitrary: q)
  case (Cons op ops)
  then show ?case using quarantined_step [of i q op] by (simp add: dlq_step_max)
qed simp

lemma quarantined_not_ready:
  assumes "quarantined i q" "dlq_ok (dq_entries q)" "e \<in> set (get_retryable_items now q)"
  shows "de_item_id e \<noteq> i"
proof
  assume i: "de_item_id e = i"
  from assms(3) obtain k where ke: "(k, e) \<in> set (dq_entries q)" "de_state e = ''RETRYABLE''"
    by (auto simp: get_retryable_items_def ready_at_def)
  then have "k = i" using assms(2) i by (auto simp: dlq_ok_def)
  then have "map_of (dq_entries q) i = Some e" using ke(1) assms(2) by (simp add: dlq_ok_def dict_wf_map_of)
  then show False using assms(1) ke(2) by (simp add: quarantined_def)
qed

text \<open>
  Quarantine holds: once a failure was not safe to retry or used up its attempts, or an operator
  quarantined the task, the queue offers the task for retry at no later time, whatever happens to
  other tasks and however often this one fails again in the same way, until someone replays it or
  reports a failure that may be retried.
\<close>

theorem dlq_quarantine_holds:
  assumes "dlq_ok (dq_entries q)" "parks (dq_max_attempts q) op" "dlq_item op = i"
    and "list_all (\<lambda>op. dlq_item op = i \<longrightarrow> parks (dq_max_attempts q) op) ops"
    and "e \<in> set (get_retryable_items now (dlq_run (op # ops) q))"
  shows "de_item_id e \<noteq> i"
proof (rule quarantined_not_ready [OF _ _ assms(5)])
  show "quarantined i (dlq_run (op # ops) q)"
    using quarantined_run [OF parks_quarantines [OF assms(2,3)]] assms(4) by (simp add: dlq_step_max)
  show "dlq_ok (dq_entries (dlq_run (op # ops) q))" by (rule dlq_run_ok) (rule assms(1))
qed

definition sample_dlq :: dlq where
  "sample_dlq = \<lparr>dq_file = DlqMissing, dq_max_attempts = 3, dq_backoff_base_sec = 2, dq_entries = []\<rparr>"

definition sample_now :: int where
  "sample_now = 63000000000000000"

lemma sample_printable: "printable (sample_now + k * MICROS_PER_SECOND)" if "0 \<le> k" "k \<le> 9"
  using that by (simp add: printable_def in_range_def sample_now_def days_before_year_def SECONDS_PER_DAY_def MICROS_PER_SECOND_def)

lemma sample_whole: "whole_second (sample_now + k * MICROS_PER_SECOND) = sample_now + k * MICROS_PER_SECOND"
  by (simp add: whole_second_def sample_now_def MICROS_PER_SECOND_def)

theorem dlq_quarantine_holds_witness:
  "\<exists>e \<in> set (get_retryable_items sample_now
     (dlq_run [Quarantine ''a'' ''bad input'' sample_now, Replay ''b'' sample_now] sample_dlq)). de_item_id e \<noteq> ''a''"
proof -
  define e where "e = \<lparr>de_item_id = ''b'', de_error_reason = ''Replayed by operator'', de_attempts = 0, de_state = ''RETRYABLE'',
    de_last_failed_at = stamp sample_now, de_retry_after = Some (stamp sample_now)\<rparr>"
  have "stamp sample_now \<noteq> []" by (simp add: stamp_def Let_def split: prod.splits)
  moreover have "strptime (stamp sample_now) = Some sample_now"
    using strptime_stamp [OF sample_printable [of 0]] sample_whole [of 0] by simp
  ultimately have mem: "e \<in> set (get_retryable_items sample_now
      (dlq_run [Quarantine ''a'' ''bad input'' sample_now, Replay ''b'' sample_now] sample_dlq))"
    by (simp add: get_retryable_items_def quarantine_item_def replay_item_def sample_dlq_def e_def ready_at_def)
  have "de_item_id e \<noteq> ''a''"
    by (rule dlq_quarantine_holds [OF _ _ _ _ mem]) (simp_all add: sample_dlq_def dlq_ok_def)
  then show ?thesis using mem by blast
qed

section \<open>Backoff\<close>

lemma record_failure_retryable:
  assumes "idem" "n < (case bnd of Some l \<Rightarrow> l | None \<Rightarrow> dq_max_attempts q)"
    and "py_pow (dq_backoff_base_sec q) n = Inr s" "add_delay now s = Inr r"
  shows "record_failure i reason n bnd now idem q = put \<lparr>de_item_id = i, de_error_reason = reason, de_attempts = n,
    de_state = ''RETRYABLE'', de_last_failed_at = stamp now, de_retry_after = Some (stamp r)\<rparr> q"
  using assms by (simp add: record_failure_def failure_entry_def Let_def)

lemma ready_after_put:
  assumes "dlq_ok (dq_entries q)" "de_item_id e = i"
  shows "(\<exists>e' \<in> set (get_retryable_items t (snd (put e q))). de_item_id e' = i) \<longleftrightarrow> ready_at t e"
  using assms by (auto simp: get_retryable_items_def set_update_distinct dlq_ok_def)

text \<open>
  Backoff is kept to the second: after the \<open>n\<close>-th failure of a task that may be retried, the queue
  offers the task exactly from the whole second on in which \<open>backoff_base_sec ** n\<close> seconds have
  passed.
\<close>

theorem dlq_backoff_exact:
  assumes "dlq_ok (dq_entries q)" "idem" "n < (case bnd of Some l \<Rightarrow> l | None \<Rightarrow> dq_max_attempts q)"
    and "py_pow (dq_backoff_base_sec q) n = Inr s" "add_delay now s = Inr r" "printable r"
  shows "(\<exists>e \<in> set (get_retryable_items t (snd (record_failure i reason n bnd now idem q))). de_item_id e = i)
    \<longleftrightarrow> whole_second (now + round_half_even (s * of_int MICROS_PER_SECOND)) \<le> t"
proof -
  have r: "r = now + round_half_even (s * of_int MICROS_PER_SECOND)"
    using assms(5) by (auto simp: add_delay_def Let_def split: if_splits)
  have "stamp r \<noteq> []" by (simp add: stamp_def Let_def split: prod.splits)
  then show ?thesis
    unfolding record_failure_retryable [OF assms(2-5)] r [symmetric]
    by (subst ready_after_put [OF assms(1)]) (simp_all add: ready_at_def strptime_stamp [OF assms(6)])
qed

theorem dlq_backoff_exact_witness:
  "(\<exists>e \<in> set (get_retryable_items (sample_now + 5 * MICROS_PER_SECOND) (snd (record_failure ''a'' ''timeout'' 2 None sample_now True sample_dlq))). de_item_id e = ''a'')
    \<longleftrightarrow> whole_second (sample_now + round_half_even (4 * of_int MICROS_PER_SECOND)) \<le> sample_now + 5 * MICROS_PER_SECOND"
proof (rule dlq_backoff_exact)
  show "add_delay sample_now 4 = Inr (sample_now + 4 * MICROS_PER_SECOND)"
  proof -
    have "round_half_even (4 * of_int MICROS_PER_SECOND) = 4 * MICROS_PER_SECOND"
      by (simp add: round_half_even_def MICROS_PER_SECOND_def)
    then show ?thesis using sample_printable [of 4] by (simp add: add_delay_def printable_def)
  qed
  show "printable (sample_now + 4 * MICROS_PER_SECOND)" by (rule sample_printable) simp_all
qed (simp_all add: sample_dlq_def dlq_ok_def py_pow_def)

section \<open>Persistence and audit\<close>

text \<open>A queue opened on the file that an operation wrote has the same entries.\<close>

theorem dlq_reopen:
  assumes "dlq_step op q = (Inr e, q')"
  shows "\<exists>p. open_dlq (dq_file q') limit base = Inr p \<and> dq_entries p = dq_entries q'"
  using assms by (cases rule: dlq_step_cases [of op q]) (auto simp: put_def Let_def open_dlq_def split: if_splits)

lemma count_reason_sum: "dict_wf d \<Longrightarrow> dict_wf (count_reason e d) \<and> sum_list (map snd (count_reason e d)) = Suc (sum_list (map snd d))"
proof -
  have "sum_list (map snd (AList.update k (Suc (case map_of d k of None \<Rightarrow> 0 | Some n \<Rightarrow> n)) d)) = Suc (sum_list (map snd d))"
    if "dict_wf d" for k and d :: "(string \<times> nat) list"
    using that by (induction d) (auto simp: dict_wf_def map_of_eq_None_iff split: option.splits)
  then show "dict_wf d \<Longrightarrow> ?thesis" by (simp add: count_reason_def)
qed

lemma fold_count_reason: "dict_wf d \<Longrightarrow> sum_list (map snd (fold count_reason es d)) = length es + sum_list (map snd d)"
  using count_reason_sum by (induction es arbitrary: d) simp_all

text \<open>The audit accounts for every entry once, by state and by reason.\<close>

theorem audit_accounts:
  assumes "dlq_ok (dq_entries q)"
  shows "da_quarantined_count (audit q) + da_retryable_count (audit q) = da_total_entries (audit q)"
    and "sum_list (map snd (da_reasons (audit q))) = da_total_entries (audit q)"
proof -
  have "de_state e = ''RETRYABLE'' \<longleftrightarrow> de_state e \<noteq> ''QUARANTINED''" if "e \<in> set (map snd (dq_entries q))" for e
    using assms that by (auto simp: dlq_ok_def)
  then have "filter (\<lambda>e. de_state e = ''RETRYABLE'') (map snd (dq_entries q))
      = filter (\<lambda>e. de_state e \<noteq> ''QUARANTINED'') (map snd (dq_entries q))"
    by (intro filter_cong) auto
  then show "da_quarantined_count (audit q) + da_retryable_count (audit q) = da_total_entries (audit q)"
    using sum_length_filter_compl [of "\<lambda>e. de_state e = ''QUARANTINED''" "map snd (dq_entries q)"]
    by (simp add: audit_def Let_def)
  show "sum_list (map snd (da_reasons (audit q))) = da_total_entries (audit q)"
    by (simp add: audit_def Let_def fold_count_reason)
qed

end
