(* ===== verification/Priority_Scheduler.thy ===== *)
theory Priority_Scheduler
  imports Json Complex_Main "HOL-Library.Product_Lexorder" "HOL-Library.Multiset"
begin

text \<open>
  The preemptive scheduler (courier\_core/priority\_scheduler.py): slots, a ready queue sorted by
  effective priority with aging, preemption of what ran before the tick, and the state file. Moments
  are microseconds since the epoch and floats are exact rationals. A task is a value: the code shares
  its task objects between the lists, but changes one only where the model writes it back.
\<close>

section \<open>Tasks\<close>

datatype priority = BACKGROUND | NORMAL | HIGH | CRITICAL

fun priority_value :: "priority \<Rightarrow> int" where
  "priority_value BACKGROUND = 10"
| "priority_value NORMAL = 20"
| "priority_value HIGH = 50"
| "priority_value CRITICAL = 100"

datatype sched_state = PENDING | RUNNING | PREEMPTED | COMPLETED | CANCELLED

record sched_task =
  t_task_id :: string
  t_priority :: priority
  t_lane :: string
  t_preemptible :: bool
  t_checkpoint :: "payload option"
  t_enqueued_at :: "int option"
  t_started_at :: "int option"
  t_state :: sched_state
  t_preemptions_count :: int

text \<open>The state file holds what \<open>_save_state\<close> wrote.\<close>

record snapshot =
  sn_max_slots :: int
  sn_threshold :: rat
  sn_running :: "sched_task list"
  sn_ready :: "sched_task list"

text \<open>\<open>running_tasks\<close>, a dict whose keys are the ids of its tasks, is the list of its values.\<close>

record scheduler =
  sc_max_slots :: int
  sc_threshold :: rat
  sc_ready :: "sched_task list"
  sc_running :: "sched_task list"
  sc_state_file :: bool
  sc_saved :: "snapshot option"

fun put_running :: "sched_task \<Rightarrow> sched_task list \<Rightarrow> sched_task list" where
  "put_running t [] = [t]"
| "put_running t (r # rs) = (if t_task_id r = t_task_id t then t # rs else r # put_running t rs)"

definition drop_running :: "string \<Rightarrow> sched_task list \<Rightarrow> sched_task list" where
  "drop_running i rs = filter (\<lambda>r. t_task_id r \<noteq> i) rs"

definition sched_save_state :: "scheduler \<Rightarrow> scheduler" where
  "sched_save_state s = (if \<not> sc_state_file s then s
     else s\<lparr>sc_saved := Some \<lparr>sn_max_slots = sc_max_slots s, sn_threshold = sc_threshold s,
       sn_running = sc_running s, sn_ready = sc_ready s\<rparr>\<rparr>)"

fun dedupe :: "string list \<Rightarrow> sched_task list \<Rightarrow> sched_task list" where
  "dedupe seen [] = []"
| "dedupe seen (t # ts) = (if t_task_id t \<in> set seen then dedupe seen ts else t # dedupe (t_task_id t # seen) ts)"

definition sched_load_state :: "snapshot \<Rightarrow> scheduler \<Rightarrow> scheduler" where
  "sched_load_state f s =
     (let running = fold put_running (sn_running f) [] in
      s\<lparr>sc_max_slots := sn_max_slots f, sc_threshold := sn_threshold f, sc_running := running,
        sc_ready := dedupe (map t_task_id running) (sn_ready f)\<rparr>)"

definition new_scheduler :: "int \<Rightarrow> rat \<Rightarrow> bool \<Rightarrow> snapshot option \<Rightarrow> scheduler" where
  "new_scheduler max_slots threshold state_file saved =
     (let s = \<lparr>sc_max_slots = max 1 max_slots, sc_threshold = max 1 threshold, sc_ready = [], sc_running = [],
        sc_state_file = state_file, sc_saved = saved\<rparr>
      in case saved of Some f \<Rightarrow> if state_file then sched_load_state f s else s | None \<Rightarrow> s)"

section \<open>Operations\<close>

fun raise_priority :: "sched_task \<Rightarrow> sched_task list \<Rightarrow> sched_task list" where
  "raise_priority task [] = []"
| "raise_priority task (e # es) =
     (if t_task_id e = t_task_id task
      then (if priority_value (t_priority e) < priority_value (t_priority task) then e\<lparr>t_priority := t_priority task\<rparr> else e) # es
      else e # raise_priority task es)"

definition enqueue :: "sched_task \<Rightarrow> int \<Rightarrow> scheduler \<Rightarrow> scheduler" where
  "enqueue task now s =
     (if t_task_id task \<in> set (map t_task_id (sc_running s)) then s
      else if t_task_id task \<in> set (map t_task_id (sc_ready s))
      then sched_save_state (s\<lparr>sc_ready := raise_priority task (sc_ready s)\<rparr>)
      else (let task1 = task\<lparr>t_enqueued_at := Some (case t_enqueued_at task of None \<Rightarrow> now | Some t \<Rightarrow> t)\<rparr>;
                task2 = (if t_state task1 \<noteq> PREEMPTED then task1\<lparr>t_state := PENDING\<rparr> else task1)
            in sched_save_state (s\<lparr>sc_ready := sc_ready s @ [task2]\<rparr>)))"

definition effective_priority :: "rat \<Rightarrow> int \<Rightarrow> sched_task \<Rightarrow> rat" where
  "effective_priority threshold now t =
     (let base_score = of_int (priority_value (t_priority t)) in
      case t_enqueued_at t of
        None \<Rightarrow> base_score
      | Some enqueued_at \<Rightarrow>
          (let wait_seconds = max 0 (of_int (now - enqueued_at) / 1000000) in
           if threshold < wait_seconds then base_score + (wait_seconds - threshold) * 2 else base_score))"

text \<open>The key of the ready queue, whose descending stable sort is an ascending one on the negated key.\<close>

definition ready_key :: "rat \<Rightarrow> int \<Rightarrow> sched_task \<Rightarrow> rat \<times> rat" where
  "ready_key threshold now t = (- effective_priority threshold now t,
     (case t_enqueued_at t of None \<Rightarrow> 0 | Some e \<Rightarrow> of_int e / 1000000))"

definition started :: "int \<Rightarrow> sched_task \<Rightarrow> sched_task" where
  "started now t = t\<lparr>t_state := RUNNING, t_started_at := Some now\<rparr>"

definition preempted :: "sched_task \<Rightarrow> sched_task" where
  "preempted t = t\<lparr>t_state := PREEMPTED, t_preemptions_count := t_preemptions_count t + 1\<rparr>"

definition candidates :: "sched_task list \<Rightarrow> scheduler \<Rightarrow> sched_task list" where
  "candidates dispatched s = filter (\<lambda>t. t_preemptible t \<and> t \<notin> set dispatched) (sc_running s)"

text \<open>One round of \<open>tick\<close>'s loop on a ready queue that is not empty; the flag says whether the loop goes on.\<close>

definition tick_round :: "int \<Rightarrow> scheduler \<Rightarrow> sched_task list \<Rightarrow> bool \<times> scheduler \<times> sched_task list" where
  "tick_round now s dispatched =
     (let eff = effective_priority (sc_threshold s) now;
          ready = sort_key (ready_key (sc_threshold s) now) (sc_ready s);
          highest = hd ready; rest = tl ready; task = started now highest
      in if int (length (sc_running s)) < sc_max_slots s
         then (True, s\<lparr>sc_ready := rest, sc_running := put_running task (sc_running s)\<rparr>, dispatched @ [task])
         else (case sort_key eff (candidates dispatched s) of
             [] \<Rightarrow> (False, s\<lparr>sc_ready := ready\<rparr>, dispatched)
           | lowest # _ \<Rightarrow>
               (if eff lowest < eff highest
                then (True, s\<lparr>sc_ready := rest @ [preempted lowest],
                    sc_running := put_running task (drop_running (t_task_id lowest) (sc_running s))\<rparr>,
                  dispatched @ [task])
                else (False, s\<lparr>sc_ready := ready\<rparr>, dispatched))))"

text \<open>The loop ends: a round takes a task off the ready queue, or it uses up one that could be preempted.\<close>

lemma length_filter_mono: "(\<And>x. P x \<Longrightarrow> Q x) \<Longrightarrow> length (filter P xs) \<le> length (filter Q xs)"
  by (induction xs) (auto intro: le_SucI)

lemma candidates_put: "length (filter (\<lambda>x. t_preemptible x \<and> x \<notin> insert t D) (put_running t rs))
    \<le> length (filter (\<lambda>x. t_preemptible x \<and> x \<notin> D) rs)"
proof (induction rs)
  case (Cons r rs)
  have "length (filter (\<lambda>x. t_preemptible x \<and> x \<notin> insert t D) rs) \<le> length (filter (\<lambda>x. t_preemptible x \<and> x \<notin> D) rs)"
    by (rule length_filter_mono) simp
  then show ?case using Cons by auto
qed simp

lemma candidates_drop:
  assumes "l \<in> set rs" "P l"
  shows "length (filter P (drop_running (t_task_id l) rs)) < length (filter P rs)"
proof -
  have "filter P (drop_running (t_task_id l) rs) = filter (\<lambda>x. t_task_id x \<noteq> t_task_id l) (filter P rs)"
    by (auto simp: drop_running_def intro: filter_cong)
  then show ?thesis using length_filter_less [of l "filter P rs" "\<lambda>x. t_task_id x \<noteq> t_task_id l"] assms by simp
qed

lemma tick_round_decreases:
  assumes "tick_round now s d = (True, s', d')" "sc_ready s \<noteq> []"
  shows "length (sc_ready s') + length (candidates d' s') < length (sc_ready s) + length (candidates d s)"
proof (cases "int (length (sc_running s)) < sc_max_slots s")
  case True
  then have s': "sc_ready s' = tl (sort_key (ready_key (sc_threshold s) now) (sc_ready s))"
      "\<exists>t. sc_running s' = put_running t (sc_running s) \<and> d' = d @ [t]"
    using assms(1) by (auto simp: tick_round_def Let_def)
  then have "length (candidates d' s') \<le> length (candidates d s)"
    using candidates_put [of _ "set d" "sc_running s"] by (auto simp: candidates_def)
  then show ?thesis using assms(2) s'(1) by (cases "sc_ready s") simp_all
next
  case False
  from False assms(1) obtain l ls t where c: "sort_key (effective_priority (sc_threshold s) now) (candidates d s) = l # ls"
    and s': "sc_ready s' = tl (sort_key (ready_key (sc_threshold s) now) (sc_ready s)) @ [preempted l]"
      "sc_running s' = put_running t (drop_running (t_task_id l) (sc_running s))" "d' = d @ [t]"
    by (auto simp: tick_round_def Let_def split: list.splits if_splits)
  have "l \<in> set (candidates d s)" using c by (metis list.set_intros(1) set_sort)
  then have l: "l \<in> set (sc_running s)" "t_preemptible l \<and> l \<notin> set d" by (auto simp: candidates_def)
  have "length (candidates d' s') \<le> length (filter (\<lambda>x. t_preemptible x \<and> x \<notin> set d) (drop_running (t_task_id l) (sc_running s)))"
    using candidates_put [of t "set d" "drop_running (t_task_id l) (sc_running s)"] by (simp add: candidates_def s')
  also have "\<dots> < length (candidates d s)" using candidates_drop [of l "sc_running s" "\<lambda>x. t_preemptible x \<and> x \<notin> set d"] l by (simp add: candidates_def)
  finally have "length (candidates d' s') < length (candidates d s)" .
  moreover have "length (sc_ready s') = length (sc_ready s)" using assms(2) s'(1) by (cases "sc_ready s") simp_all
  ultimately show ?thesis by simp
qed

function tick_loop :: "int \<Rightarrow> scheduler \<Rightarrow> sched_task list \<Rightarrow> scheduler \<times> sched_task list" where
  "tick_loop now s dispatched =
     (if sc_ready s = [] then (s, dispatched)
      else (case tick_round now s dispatched of
          (True, s', dispatched') \<Rightarrow> tick_loop now s' dispatched'
        | (False, s', dispatched') \<Rightarrow> (s', dispatched')))"
  by auto
termination
  by (relation "measure (\<lambda>(now, s, d). length (sc_ready s) + length (candidates d s))")
    (auto dest!: tick_round_decreases [OF sym])

declare tick_loop.simps [simp del]

definition tick :: "int \<Rightarrow> scheduler \<Rightarrow> sched_task list \<times> scheduler" where
  "tick now s = (let (s', dispatched) = tick_loop now s [] in (dispatched, sched_save_state s'))"

definition sched_complete_task :: "string \<Rightarrow> scheduler \<Rightarrow> bool \<times> scheduler" where
  "sched_complete_task i s = (if i \<in> set (map t_task_id (sc_running s))
     then (True, sched_save_state (s\<lparr>sc_running := drop_running i (sc_running s)\<rparr>)) else (False, s))"

fun remove_ready :: "string \<Rightarrow> sched_task list \<Rightarrow> sched_task list" where
  "remove_ready i [] = []"
| "remove_ready i (t # ts) = (if t_task_id t = i then ts else t # remove_ready i ts)"

definition sched_cancel_task :: "string \<Rightarrow> scheduler \<Rightarrow> bool \<times> scheduler" where
  "sched_cancel_task i s =
     (if i \<in> set (map t_task_id (sc_running s)) then (True, sched_save_state (s\<lparr>sc_running := drop_running i (sc_running s)\<rparr>))
      else if i \<in> set (map t_task_id (sc_ready s)) then (True, sched_save_state (s\<lparr>sc_ready := remove_ready i (sc_ready s)\<rparr>))
      else (False, s))"

record sched_status =
  ss_max_slots :: int
  ss_active_slots :: nat
  ss_ready_count :: nat
  ss_running :: "sched_task list"
  ss_ready :: "sched_task list"

definition get_status :: "scheduler \<Rightarrow> sched_status" where
  "get_status s = \<lparr>ss_max_slots = sc_max_slots s, ss_active_slots = length (sc_running s),
     ss_ready_count = length (sc_ready s), ss_running = sc_running s, ss_ready = sc_ready s\<rparr>"

section \<open>The invariant\<close>

definition sched_ok :: "scheduler \<Rightarrow> bool" where
  "sched_ok s \<longleftrightarrow> distinct (map t_task_id (sc_ready s @ sc_running s))
     \<and> (\<forall>t \<in> set (sc_running s). t_state t = RUNNING) \<and> (\<forall>t \<in> set (sc_ready s). t_state t = PENDING \<or> t_state t = PREEMPTED)
     \<and> 1 \<le> sc_max_slots s \<and> int (length (sc_running s)) \<le> sc_max_slots s"

definition task_ids :: "scheduler \<Rightarrow> string multiset" where
  "task_ids s = mset (map t_task_id (sc_ready s @ sc_running s))"

lemma put_running_fresh: "t_task_id t \<notin> set (map t_task_id rs) \<Longrightarrow> put_running t rs = rs @ [t]"
  by (induction rs) auto

lemma task_id_kept [simp]: "t_task_id (started now t) = t_task_id t" "t_task_id (preempted t) = t_task_id t"
    "t_state (started now t) = RUNNING" "t_state (preempted t) = PREEMPTED"
  by (simp_all add: started_def preempted_def)

lemma drop_running_split:
  assumes "distinct (map t_task_id rs)" "l \<in> set rs"
  shows "mset rs = add_mset l (mset (drop_running (t_task_id l) rs))"
  using assms
proof (induction rs)
  case (Cons r rs)
  show ?case
  proof (cases "r = l")
    case True
    then have "drop_running (t_task_id l) rs = rs"
      unfolding drop_running_def using Cons.prems(1) by (intro filter_True) (metis distinct.simps(2) image_eqI list.simps(9) set_map)
    then show ?thesis using True by (simp add: drop_running_def)
  next
    case False
    then have "l \<in> set rs" "t_task_id r \<noteq> t_task_id l" using Cons.prems by auto
    then show ?thesis using Cons by (simp add: drop_running_def)
  qed
qed simp

lemma sort_key_hd_least: "sort_key f xs = y # ys \<Longrightarrow> x \<in> set xs \<Longrightarrow> f y \<le> f x"
proof -
  assume s: "sort_key f xs = y # ys" and x: "x \<in> set xs"
  have "sorted (map f (y # ys))" using sorted_sort_key [of f xs] s by simp
  moreover have "x \<in> set (y # ys)" using x s by (metis set_sort)
  ultimately show ?thesis by auto
qed

text \<open>The three ways a round can go, on a state that satisfies the invariant.\<close>

lemma tick_round_cases:
  assumes "sched_ok s" "sc_ready s \<noteq> []"
  obtains t rest where "mset (sc_ready s) = add_mset t (mset rest)" "int (length (sc_running s)) < sc_max_slots s"
      "tick_round now s d = (True, s\<lparr>sc_ready := rest, sc_running := sc_running s @ [started now t]\<rparr>, d @ [started now t])"
    | t rest l where "mset (sc_ready s) = add_mset t (mset rest)" "l \<in> set (candidates d s)"
      "tick_round now s d = (True, s\<lparr>sc_ready := rest @ [preempted l],
         sc_running := drop_running (t_task_id l) (sc_running s) @ [started now t]\<rparr>, d @ [started now t])"
    | ready where "mset ready = mset (sc_ready s)" "\<not> int (length (sc_running s)) < sc_max_slots s"
      "tick_round now s d = (False, s\<lparr>sc_ready := ready\<rparr>, d)"
      "\<forall>h \<in> set ready. \<forall>c \<in> set (candidates d s).
         effective_priority (sc_threshold s) now h \<le> effective_priority (sc_threshold s) now c"
proof -
  let ?eff = "effective_priority (sc_threshold s) now"
  define ready where "ready = sort_key (ready_key (sc_threshold s) now) (sc_ready s)"
  have mready: "mset ready = mset (sc_ready s)" by (simp add: ready_def)
  have "ready \<noteq> []" using assms(2) mready by force
  then obtain t rest where tr: "ready = t # rest" by (cases ready) auto
  have mt: "mset (sc_ready s) = add_mset t (mset rest)" using mready tr by simp
  have tin: "t \<in> set (sc_ready s)" using mready tr by (metis list.set_intros(1) set_mset_mset)
  then have fresh: "t_task_id t \<notin> set (map t_task_id (sc_running s))" using assms(1) by (auto simp: sched_ok_def)
  have best: "?eff h \<le> ?eff t" if "h \<in> set ready" for h
  proof -
    have "h \<in> set (sc_ready s)" using that by (simp add: ready_def)
    then have "ready_key (sc_threshold s) now t \<le> ready_key (sc_threshold s) now h"
      using sort_key_hd_least tr by (metis ready_def)
    then show ?thesis by (auto simp: ready_key_def less_eq_prod_def)
  qed
  show thesis
  proof (cases "int (length (sc_running s)) < sc_max_slots s")
    case True
    then show thesis
      using mt fresh by (intro that(1) [of t rest])
        (simp_all add: tick_round_def Let_def ready_def [symmetric] tr put_running_fresh)
  next
    case False
    show thesis
    proof (cases "sort_key ?eff (candidates d s)")
      case Nil
      then have "candidates d s = []" by (metis set_empty set_sort)
      then show thesis
        using False Nil mready by (intro that(3) [of ready]) (simp_all add: tick_round_def Let_def ready_def [symmetric])
    next
      case (Cons l ls)
      then have l: "l \<in> set (candidates d s)" by (metis list.set_intros(1) set_sort)
      show thesis
      proof (cases "?eff l < ?eff t")
        case True
        have "t_task_id t \<notin> set (map t_task_id (drop_running (t_task_id l) (sc_running s)))"
          using fresh by (auto simp: drop_running_def)
        then show thesis
          using False Cons True mt l by (intro that(2) [of t rest l])
            (simp_all add: tick_round_def Let_def ready_def [symmetric] tr put_running_fresh)
      next
        case low: False
        have "?eff h \<le> ?eff c" if "h \<in> set ready" "c \<in> set (candidates d s)" for h c
          using best [OF that(1)] sort_key_hd_least [OF Cons that(2)] low by linarith
        then show thesis
          using False Cons low mready by (intro that(3) [of ready])
            (simp_all add: tick_round_def Let_def ready_def [symmetric] tr)
      qed
    qed
  qed
qed

text \<open>What a whole tick keeps: the invariant, the set of tasks, the settings, and every task it started.\<close>

lemma ok_of_parts:
  assumes "sched_ok s" "mset (map t_task_id (sc_ready s' @ sc_running s')) = task_ids s"
    "\<forall>t \<in> set (sc_running s'). t_state t = RUNNING" "\<forall>t \<in> set (sc_ready s'). t_state t = PENDING \<or> t_state t = PREEMPTED"
    "sc_max_slots s' = sc_max_slots s" "int (length (sc_running s')) \<le> sc_max_slots s"
  shows "sched_ok s'"
proof -
  have "distinct (map t_task_id (sc_ready s @ sc_running s))" using assms(1) by (simp add: sched_ok_def)
  then have "distinct (map t_task_id (sc_ready s' @ sc_running s'))"
    using assms(2) unfolding task_ids_def by (metis mset_eq_imp_distinct_iff)
  then show ?thesis using assms by (simp add: sched_ok_def)
qed

lemma set_of_mset: "mset xs = add_mset t (mset ys) \<Longrightarrow> set xs = insert t (set ys)"
  by (metis set_mset_add_mset_insert set_mset_mset)

lemma tick_round_keeps:
  assumes ok: "sched_ok s" and ne: "sc_ready s \<noteq> []" and d: "set d \<subseteq> set (sc_running s)"
    and r: "tick_round now s d = (go, s', d')"
  shows "sched_ok s'" "task_ids s' = task_ids s" "set d' \<subseteq> set (sc_running s')"
    "sc_threshold s' = sc_threshold s" "sc_max_slots s' = sc_max_slots s"
proof -
  have run: "\<forall>t \<in> set (sc_running s). t_state t = RUNNING"
    and rdy: "\<forall>t \<in> set (sc_ready s). t_state t = PENDING \<or> t_state t = PREEMPTED"
    and len: "int (length (sc_running s)) \<le> sc_max_slots s" and dis: "distinct (map t_task_id (sc_running s))"
    using ok by (simp_all add: sched_ok_def)
  have "sched_ok s' \<and> task_ids s' = task_ids s \<and> set d' \<subseteq> set (sc_running s')
    \<and> sc_threshold s' = sc_threshold s \<and> sc_max_slots s' = sc_max_slots s"
  proof (cases rule: tick_round_cases [OF ok ne, of now d])
    case (1 t rest)
    have s': "s' = s\<lparr>sc_ready := rest, sc_running := sc_running s @ [started now t]\<rparr>" "d' = d @ [started now t]"
      using r 1(3) by simp_all
    have ids: "mset (map t_task_id (sc_ready s' @ sc_running s')) = task_ids s"
      using arg_cong [OF 1(1), of "image_mset t_task_id"] by (simp add: s' task_ids_def)
    moreover have "sched_ok s'"
      using run rdy 1(2) set_of_mset [OF 1(1)] by (intro ok_of_parts [OF ok ids]) (auto simp: s')
    ultimately show ?thesis using d by (auto simp: s' task_ids_def)
  next
    case (2 t rest l)
    have s': "s' = s\<lparr>sc_ready := rest @ [preempted l], sc_running := drop_running (t_task_id l) (sc_running s) @ [started now t]\<rparr>"
        "d' = d @ [started now t]"
      using r 2(3) by simp_all
    have l: "l \<in> set (sc_running s)" "l \<notin> set d" using 2(2) by (auto simp: candidates_def)
    note split = drop_running_split [OF dis l(1)]
    have ids: "mset (map t_task_id (sc_ready s' @ sc_running s')) = task_ids s"
      using arg_cong [OF 2(1), of "image_mset t_task_id"] arg_cong [OF split, of "image_mset t_task_id"]
      by (simp add: s' task_ids_def)
    have "length (sc_running s) = Suc (length (drop_running (t_task_id l) (sc_running s)))"
      using arg_cong [OF split, of size] by simp
    then have "sched_ok s'"
      using run rdy len set_of_mset [OF 2(1)] by (intro ok_of_parts [OF ok ids]) (auto simp: s' drop_running_def)
    moreover have "set d \<subseteq> set (drop_running (t_task_id l) (sc_running s))"
      using d l(2) set_of_mset [OF split] by auto
    ultimately show ?thesis using ids by (auto simp: s' task_ids_def)
  next
    case (3 ready)
    have s': "s' = s\<lparr>sc_ready := ready\<rparr>" "d' = d" using r 3(3) by simp_all
    have ids: "mset (map t_task_id (sc_ready s' @ sc_running s')) = task_ids s"
      using arg_cong [OF 3(1), of "image_mset t_task_id"] by (simp add: s' task_ids_def)
    moreover have "sched_ok s'"
      using run rdy len mset_eq_setD [OF 3(1)] by (intro ok_of_parts [OF ok ids]) (auto simp: s')
    ultimately show ?thesis using d by (auto simp: s' task_ids_def)
  qed
  then show "sched_ok s'" "task_ids s' = task_ids s" "set d' \<subseteq> set (sc_running s')"
    "sc_threshold s' = sc_threshold s" "sc_max_slots s' = sc_max_slots s" by simp_all
qed

text \<open>
  Nothing is left to do: no task waits while a slot is free, and no waiting task has a higher effective
  priority than a running one that may still be preempted.
\<close>

definition settled :: "int \<Rightarrow> sched_task list \<Rightarrow> scheduler \<Rightarrow> bool" where
  "settled now dispatched s \<longleftrightarrow> sc_ready s = [] \<or>
     (int (length (sc_running s)) = sc_max_slots s \<and>
      (\<forall>h \<in> set (sc_ready s). \<forall>c \<in> set (candidates dispatched s).
        effective_priority (sc_threshold s) now h \<le> effective_priority (sc_threshold s) now c))"

lemma settled_stop:
  assumes "sched_ok s" "sc_ready s \<noteq> []" "tick_round now s d = (False, s', d')"
  shows "settled now d' s'"
  using assms(3)
proof (cases rule: tick_round_cases [OF assms(1,2), of now d])
  case (3 ready)
  have "int (length (sc_running s)) = sc_max_slots s" using 3(2) assms(1) by (simp add: sched_ok_def)
  then show ?thesis using 3 assms(3) by (auto simp: settled_def candidates_def)
qed simp_all

lemma tick_loop_keeps:
  assumes "sched_ok s" "set d \<subseteq> set (sc_running s)" "tick_loop now s d = (s', d')"
  shows "sched_ok s' \<and> task_ids s' = task_ids s \<and> set d' \<subseteq> set (sc_running s') \<and> settled now d' s'
    \<and> sc_max_slots s' = sc_max_slots s \<and> sc_threshold s' = sc_threshold s"
  using assms
proof (induction now s d arbitrary: s' d' rule: tick_loop.induct)
  case (1 now s d)
  show ?case
  proof (cases "sc_ready s = []")
    case True
    then show ?thesis using 1(2-) by (simp add: tick_loop.simps [of now s d] settled_def)
  next
    case False
    obtain go s1 d1 where r: "tick_round now s d = (go, s1, d1)" by (metis prod_cases3)
    note keep = tick_round_keeps [OF 1(2) False 1(3) r]
    show ?thesis
    proof (cases go)
      case True
      then have "tick_loop now s1 d1 = (s', d')" using 1(4) False r by (simp add: tick_loop.simps [of now s d])
      from 1(1) [OF False r [symmetric] _ _ keep(1,3) this] True show ?thesis using keep(2,4,5) by auto
    next
      case stop: False
      then have "tick_loop now s d = (s1, d1)" using False r by (simp add: tick_loop.simps [of now s d])
      then have "s' = s1" "d' = d1" using 1(4) by simp_all
      then show ?thesis using settled_stop [OF 1(2) False] r stop keep by simp
    qed
  qed
qed

subsection \<open>Every operation keeps the invariant and the file\<close>

datatype sched_op = Enqueue sched_task int | Tick int | Complete string | Cancel string

fun sched_step :: "sched_op \<Rightarrow> scheduler \<Rightarrow> scheduler" where
  "sched_step (Enqueue t now) s = enqueue t now s"
| "sched_step (Tick now) s = snd (tick now s)"
| "sched_step (Complete i) s = snd (sched_complete_task i s)"
| "sched_step (Cancel i) s = snd (sched_cancel_task i s)"

definition snapshot_of :: "scheduler \<Rightarrow> snapshot" where
  "snapshot_of s = \<lparr>sn_max_slots = sc_max_slots s, sn_threshold = sc_threshold s, sn_running = sc_running s, sn_ready = sc_ready s\<rparr>"

definition in_sync :: "scheduler \<Rightarrow> bool" where
  "in_sync s \<longleftrightarrow> (sc_state_file s \<longrightarrow> sc_saved s = Some (snapshot_of s))"

lemma sched_save_fields [simp]:
  "sc_max_slots (sched_save_state s) = sc_max_slots s" "sc_threshold (sched_save_state s) = sc_threshold s"
  "sc_ready (sched_save_state s) = sc_ready s" "sc_running (sched_save_state s) = sc_running s" "sc_state_file (sched_save_state s) = sc_state_file s"
  by (simp_all add: sched_save_state_def)

lemma sched_ok_save [simp]: "sched_ok (sched_save_state s) = sched_ok s"
  by (simp add: sched_ok_def)

lemma in_sync_save [simp]: "in_sync (sched_save_state s)"
  by (simp add: in_sync_def sched_save_state_def snapshot_of_def)

lemma raise_priority_ids [simp]: "map t_task_id (raise_priority task es) = map t_task_id es"
    "map t_state (raise_priority task es) = map t_state es"
  by (induction es) simp_all

lemma states_raise: "(\<forall>t \<in> set (raise_priority task es). P (t_state t)) = (\<forall>t \<in> set es. P (t_state t))"
  by (induction es) auto

lemma enqueue_ok: "sched_ok s \<Longrightarrow> sched_ok (enqueue t now s)"
  by (auto simp: enqueue_def Let_def sched_ok_def states_raise [of _ _ "\<lambda>x. x = PENDING \<or> x = PREEMPTED"]
    simp del: set_map simp flip: set_map)

lemma remove_ready_set: "set (remove_ready i ts) \<subseteq> set ts"
  by (induction ts) auto

lemma remove_ready_distinct: "distinct (map t_task_id (ts @ rs)) \<Longrightarrow> distinct (map t_task_id (remove_ready i ts @ rs))"
  using remove_ready_set [of i] by (induction ts) (auto, blast)

lemma drop_running_ok: "sched_ok s \<Longrightarrow> sched_ok (s\<lparr>sc_running := drop_running i (sc_running s)\<rparr>)"
proof -
  assume ok: "sched_ok s"
  have "int (length (sc_running s)) \<le> sc_max_slots s" using ok by (simp add: sched_ok_def)
  then have "int (length (drop_running i (sc_running s))) \<le> sc_max_slots s"
    using length_filter_le [of "\<lambda>r. t_task_id r \<noteq> i" "sc_running s"] unfolding drop_running_def by linarith
  moreover have "distinct (map t_task_id (drop_running i (sc_running s)))"
    using ok by (simp add: sched_ok_def drop_running_def distinct_map_filter)
  moreover have "set (drop_running i (sc_running s)) \<subseteq> set (sc_running s)" by (auto simp: drop_running_def)
  ultimately show ?thesis using ok by (auto simp: sched_ok_def)
qed

lemma cancel_ready_ok: "sched_ok s \<Longrightarrow> sched_ok (s\<lparr>sc_ready := remove_ready i (sc_ready s)\<rparr>)"
  using remove_ready_distinct [of "sc_ready s" "sc_running s" i] remove_ready_set [of i "sc_ready s"]
  by (auto simp: sched_ok_def)

lemma tick_keeps:
  assumes "sched_ok s" "tick now s = (d, s')"
  shows "sched_ok s' \<and> task_ids s' = task_ids s \<and> set d \<subseteq> set (sc_running s') \<and> settled now d s'
    \<and> sc_max_slots s' = sc_max_slots s"
proof -
  obtain s1 where l: "tick_loop now s [] = (s1, d)" "s' = sched_save_state s1"
    using assms(2) by (auto simp: tick_def Let_def split: prod.splits)
  have same: "task_ids s' = task_ids s1" "settled now d s' = settled now d s1"
    by (simp_all add: l(2) task_ids_def settled_def candidates_def)
  show ?thesis unfolding same using tick_loop_keeps [OF assms(1) _ l(1)] by (simp add: l(2))
qed

lemma sched_step_ok: "sched_ok s \<Longrightarrow> sched_ok (sched_step op s)"
  using tick_keeps [of s] by (cases op)
    (auto simp: enqueue_ok sched_complete_task_def sched_cancel_task_def drop_running_ok cancel_ready_ok intro: prod.exhaust_sel)

lemma sched_step_max: "sched_ok s \<Longrightarrow> sc_max_slots (sched_step op s) = sc_max_slots s"
  using tick_keeps [of s] by (cases op)
    (auto simp: enqueue_def sched_complete_task_def sched_cancel_task_def Let_def intro: prod.exhaust_sel)

lemma sched_step_sync: "in_sync s \<Longrightarrow> in_sync (sched_step op s)"
  by (cases op) (auto simp: enqueue_def tick_def sched_complete_task_def sched_cancel_task_def Let_def split: prod.splits)

lemma new_scheduler_ok: "sched_ok (new_scheduler m th f None)"
  by (simp add: new_scheduler_def sched_ok_def)

lemma sched_run_ok: "sched_ok s \<Longrightarrow> sched_ok (fold sched_step ops s) \<and> sc_max_slots (fold sched_step ops s) = sc_max_slots s"
  by (induction ops arbitrary: s) (simp_all add: sched_step_ok sched_step_max)

lemma sched_run_sync: "in_sync s \<Longrightarrow> in_sync (fold sched_step ops s)"
  by (induction ops arbitrary: s) (simp_all add: sched_step_sync)

text \<open>
  C25. Whatever is enqueued, ticked, completed and cancelled, the scheduler never runs more tasks than
  it has slots, a task is either ready or running and there only once, and its state says which.
\<close>

theorem scheduler_invariant:
  "sched_ok (fold sched_step ops (new_scheduler m th f None))
   \<and> int (length (sc_running (fold sched_step ops (new_scheduler m th f None)))) \<le> max 1 m"
proof -
  have "sc_max_slots (new_scheduler m th f None) = max 1 m" by (simp add: new_scheduler_def)
  then show ?thesis
    using sched_run_ok [OF new_scheduler_ok [of m th f], of ops] by (simp add: sched_ok_def)
qed

text \<open>
  C26. A tick loses no task and leaves nothing undone: what it dispatched is running, no task waits
  while a slot is free, and no waiting task has a higher effective priority than a preemptible task
  that was running before the tick.
\<close>

theorem tick_settles:
  assumes "sched_ok s" and "tick now s = (dispatched, s')"
  shows "task_ids s' = task_ids s \<and> set dispatched \<subseteq> set (sc_running s') \<and> settled now dispatched s'"
  using tick_keeps [OF assms] by simp

definition demo_task :: "string \<Rightarrow> priority \<Rightarrow> sched_task" where
  "demo_task i p = \<lparr>t_task_id = i, t_priority = p, t_lane = ''default'', t_preemptible = True, t_checkpoint = None,
     t_enqueued_at = None, t_started_at = None, t_state = PENDING, t_preemptions_count = 0\<rparr>"

definition demo_scheduler :: scheduler where
  "demo_scheduler = fold sched_step [Enqueue (demo_task ''slow'' NORMAL) 0, Tick 0, Enqueue (demo_task ''urgent'' CRITICAL) 5]
     (new_scheduler 1 60 True None)"

theorem tick_settles_witness:
  "map t_task_id (fst (tick 6 demo_scheduler)) = [''urgent'']
   \<and> task_ids (snd (tick 6 demo_scheduler)) = task_ids demo_scheduler
   \<and> set (fst (tick 6 demo_scheduler)) \<subseteq> set (sc_running (snd (tick 6 demo_scheduler)))
   \<and> settled 6 (fst (tick 6 demo_scheduler)) (snd (tick 6 demo_scheduler))"
proof
  show "map t_task_id (fst (tick 6 demo_scheduler)) = [''urgent'']" by code_simp
  have "sched_ok demo_scheduler" unfolding demo_scheduler_def by (rule conjunct1 [OF sched_run_ok]) (rule new_scheduler_ok)
  then show "task_ids (snd (tick 6 demo_scheduler)) = task_ids demo_scheduler
   \<and> set (fst (tick 6 demo_scheduler)) \<subseteq> set (sc_running (snd (tick 6 demo_scheduler)))
   \<and> settled 6 (fst (tick 6 demo_scheduler)) (snd (tick 6 demo_scheduler))"
    by (rule tick_settles) simp
qed

section \<open>Restart\<close>

lemma fold_put_running: "distinct (map t_task_id (ds @ ts)) \<Longrightarrow> fold put_running ts ds = ds @ ts"
  by (induction ts arbitrary: ds) (auto simp: put_running_fresh)

lemma dedupe_id: "distinct (map t_task_id ts) \<Longrightarrow> set seen \<inter> set (map t_task_id ts) = {} \<Longrightarrow> dedupe seen ts = ts"
  by (induction ts arbitrary: seen) auto

text \<open>A scheduler started on the file goes on with exactly the state that was saved last.\<close>

theorem restart_resumes:
  assumes "sched_ok s" "in_sync s" "sc_state_file s"
  shows "new_scheduler m th True (sc_saved s) = s"
proof -
  have d: "distinct (map t_task_id (sc_running s))" "distinct (map t_task_id (sc_ready s))"
    "set (map t_task_id (sc_running s)) \<inter> set (map t_task_id (sc_ready s)) = {}"
    using assms(1) by (auto simp: sched_ok_def)
  then show ?thesis
    using assms(2,3) fold_put_running [of "[]" "sc_running s"]
    by (simp add: new_scheduler_def sched_load_state_def in_sync_def snapshot_of_def dedupe_id Let_def)
qed

section \<open>Aging\<close>

text \<open>
  Waiting beats priority: a task that waited 45 seconds longer than the threshold is ahead of every
  task, of whatever priority, that has not waited longer than the threshold.
\<close>

theorem aging_beats_priority:
  assumes "t_enqueued_at a = Some e" "threshold + 45 < of_int (now - e) / 1000000" "0 \<le> threshold"
    and "t_enqueued_at b = Some f" "of_int (now - f) / 1000000 \<le> threshold"
  shows "effective_priority threshold now b < effective_priority threshold now a"
proof -
  have "effective_priority threshold now b = of_int (priority_value (t_priority b))"
    using assms(3-5) by (simp add: effective_priority_def Let_def max_def)
  moreover have "of_int (priority_value (t_priority a)) + 90 < effective_priority threshold now a"
  proof -
    define w where "w = rat_of_int (now - e) / 1000000"
    then have w: "threshold + 45 < w" using assms(2) by simp
    then have "threshold < w" "max 0 w = w" using assms(3) by simp_all
    then have "effective_priority threshold now a = of_int (priority_value (t_priority a)) + (w - threshold) * 2"
      by (simp only: effective_priority_def Let_def assms(1) option.case w_def [symmetric] if_True)
    then show ?thesis using w by (simp add: algebra_simps)
  qed
  moreover have "(of_int (priority_value (t_priority b)) :: rat) \<le> of_int (priority_value (t_priority a)) + 90"
    by (cases "t_priority a"; cases "t_priority b") simp_all
  ultimately show ?thesis by linarith
qed

end
