(* ===== verification/Quorum.thy ===== *)
theory Quorum
  imports Ledger_Text Py_Float
begin

text \<open>
  The quorum verifier (courier\_core/quorum\_verifier.py): proposals of workers, votes grouped by
  digest, the three policies, reputation and slashing. SHA-256 is a parameter \<open>H\<close> on the text; floats
  are exact rationals. The main result characterises when consensus is reached, and on what.
\<close>

section \<open>Proposals\<close>

definition canonical_digest :: "(string \<Rightarrow> string) \<Rightarrow> payload \<Rightarrow> string" where
  "canonical_digest H p = H (dumps_ascii (canonical (JObj p)))"

record proposal =
  p_task_id :: string
  p_worker_id :: string
  p_output_payload :: payload
  p_result_digest :: string
  p_timestamp :: string

definition new_proposal ::
  "(string \<Rightarrow> string) \<Rightarrow> string \<Rightarrow> string \<Rightarrow> payload \<Rightarrow> string option \<Rightarrow> string option \<Rightarrow> string \<Rightarrow> proposal result" where
  "new_proposal H task worker output digest timestamp now =
     (let expected = canonical_digest H output in
      if digest \<noteq> None \<and> digest \<noteq> Some expected then Inl (QuorumError ''Forged result_digest'')
      else Inr \<lparr>p_task_id = task, p_worker_id = worker, p_output_payload = output, p_result_digest = expected,
        p_timestamp = (case timestamp of Some t \<Rightarrow> t | None \<Rightarrow> now)\<rparr>)"

section \<open>The verifier\<close>

datatype quorum_policy = STRICT_MAJORITY | SUPERMAJORITY_TWO_THIRDS | UNANIMOUS

record reputation =
  rp_total_votes :: nat
  rp_conforming_count :: nat
  rp_byzantine_count :: nat
  rp_trust_score :: rat
  rp_is_untrusted :: bool

record verifier =
  qv_min_participants :: int
  qv_policy :: quorum_policy
  qv_slash_threshold :: int
  qv_proposals :: "(string \<times> (string \<times> proposal) list) list"
  qv_reputation :: "(string \<times> reputation) list"

record quorum_result =
  qr_task_id :: string
  qr_achieved :: bool
  qr_policy :: quorum_policy
  qr_winning_digest :: "string option"
  qr_consensus_output :: "payload option"
  qr_agreement_ratio :: rat
  qr_participating :: "string list"
  qr_conforming :: "string list"
  qr_byzantine :: "string list"

definition new_verifier :: "int \<Rightarrow> quorum_policy \<Rightarrow> int \<Rightarrow> verifier" where
  "new_verifier min_participants policy slash_threshold =
     \<lparr>qv_min_participants = max 1 min_participants, qv_policy = policy, qv_slash_threshold = max 1 slash_threshold,
      qv_proposals = [], qv_reputation = []\<rparr>"

definition fresh_reputation :: reputation where
  "fresh_reputation = \<lparr>rp_total_votes = 0, rp_conforming_count = 0, rp_byzantine_count = 0, rp_trust_score = 1, rp_is_untrusted = False\<rparr>"

definition reputation_of :: "string \<Rightarrow> verifier \<Rightarrow> reputation" where
  "reputation_of w v = (case map_of (qv_reputation v) w of None \<Rightarrow> fresh_reputation | Some r \<Rightarrow> r)"

definition votes_for :: "string \<Rightarrow> verifier \<Rightarrow> (string \<times> proposal) list" where
  "votes_for task v = (case map_of (qv_proposals v) task of None \<Rightarrow> [] | Some ps \<Rightarrow> ps)"

definition submit_proposal :: "proposal \<Rightarrow> verifier \<Rightarrow> unit result \<times> verifier" where
  "submit_proposal p v =
     (if rp_is_untrusted (reputation_of (p_worker_id p) v) then (Inl (QuorumError ''untrusted/slashed''), v)
      else (let votes = votes_for (p_task_id p) v in
        if p_worker_id p \<in> set (map fst votes)
        then (Inl (DuplicateVoteError (p_worker_id p)), v\<lparr>qv_proposals := AList.update (p_task_id p) votes (qv_proposals v)\<rparr>)
        else (Inr (), v\<lparr>qv_proposals := AList.update (p_task_id p) (AList.update (p_worker_id p) p votes) (qv_proposals v)\<rparr>)))"

definition add_vote :: "proposal \<Rightarrow> (string \<times> proposal list) list \<Rightarrow> (string \<times> proposal list) list" where
  "add_vote p groups = AList.update (p_result_digest p)
     ((case map_of groups (p_result_digest p) of None \<Rightarrow> [] | Some ps \<Rightarrow> ps) @ [p]) groups"

definition group_votes :: "proposal list \<Rightarrow> (string \<times> proposal list) list" where
  "group_votes ps = fold add_vote ps []"

fun reached :: "quorum_policy \<Rightarrow> nat \<Rightarrow> nat \<Rightarrow> bool" where
  "reached STRICT_MAJORITY conforming voters \<longleftrightarrow> of_nat voters / 2 < (of_nat conforming :: rat)"
| "reached SUPERMAJORITY_TWO_THIRDS conforming voters \<longleftrightarrow> 2 * of_nat voters / 3 - 1 / 10 ^ 9 \<le> (of_nat conforming :: rat)"
| "reached UNANIMOUS conforming voters \<longleftrightarrow> conforming = voters"

definition trust :: "reputation \<Rightarrow> reputation" where
  "trust r = r\<lparr>rp_trust_score := round_digits (of_nat (rp_conforming_count r) / of_nat (rp_total_votes r)) 4\<rparr>"

definition reward :: "string \<Rightarrow> verifier \<Rightarrow> verifier" where
  "reward w v = (let r = reputation_of w v in
     v\<lparr>qv_reputation := AList.update w (trust (r\<lparr>rp_total_votes := rp_total_votes r + 1,
       rp_conforming_count := rp_conforming_count r + 1\<rparr>)) (qv_reputation v)\<rparr>)"

definition blame :: "string \<Rightarrow> verifier \<Rightarrow> verifier" where
  "blame w v =
     (let r = reputation_of w v;
          r1 = trust (r\<lparr>rp_total_votes := rp_total_votes r + 1, rp_byzantine_count := rp_byzantine_count r + 1\<rparr>);
          r2 = (if qv_slash_threshold v \<le> int (rp_byzantine_count r1) then r1\<lparr>rp_is_untrusted := True\<rparr> else r1)
      in v\<lparr>qv_reputation := AList.update w r2 (qv_reputation v)\<rparr>)"

definition evaluate_quorum :: "string \<Rightarrow> verifier \<Rightarrow> quorum_result result \<times> verifier" where
  "evaluate_quorum task v =
     (let proposals = map snd (votes_for task v); voters = length proposals in
      if int voters < qv_min_participants v then (Inl (InsufficientParticipantsError task), v)
      else
        (let workers = sort (map p_worker_id proposals);
             (digest, winners) = hd (sort_key (\<lambda>g. - int (length (snd g))) (group_votes proposals));
             ratio = round_digits (of_nat (length winners) / of_nat voters) 4
         in if reached (qv_policy v) (length winners) voters
            then (let conforming = sort (map p_worker_id winners);
                      byzantine = sort (map p_worker_id (filter (\<lambda>p. p_result_digest p \<noteq> digest) proposals))
                  in (Inr \<lparr>qr_task_id = task, qr_achieved = True, qr_policy = qv_policy v, qr_winning_digest = Some digest,
                        qr_consensus_output = Some (p_output_payload (hd winners)), qr_agreement_ratio = ratio,
                        qr_participating = workers, qr_conforming = conforming, qr_byzantine = byzantine\<rparr>,
                      fold blame byzantine (fold reward conforming v)))
            else (Inr \<lparr>qr_task_id = task, qr_achieved = False, qr_policy = qv_policy v, qr_winning_digest = None,
                    qr_consensus_output = None, qr_agreement_ratio = ratio, qr_participating = workers,
                    qr_conforming = [], qr_byzantine = []\<rparr>, v)))"

section \<open>Counting votes\<close>

definition agreeing :: "string \<Rightarrow> proposal list \<Rightarrow> proposal list" where
  "agreeing d ps = filter (\<lambda>p. p_result_digest p = d) ps"

lemma group_votes_spec:
  "dict_wf (group_votes ps) \<and> (\<forall>d. map_of (group_votes ps) d = (if agreeing d ps = [] then None else Some (agreeing d ps)))"
proof (induction ps rule: rev_induct)
  case Nil
  then show ?case by (simp add: group_votes_def agreeing_def)
next
  case (snoc p ps)
  have "group_votes (ps @ [p]) = add_vote p (group_votes ps)" by (simp add: group_votes_def)
  then show ?case using snoc by (auto simp: add_vote_def agreeing_def split: option.splits if_splits)
qed

lemma top_group:
  assumes "ps \<noteq> []" "hd (sort_key (\<lambda>g. - int (length (snd g))) (group_votes ps)) = (d, winners)"
  shows "winners = agreeing d ps" "winners \<noteq> []" "length (agreeing e ps) \<le> length winners"
proof -
  let ?f = "\<lambda>g. - int (length (snd g))"
  have wf: "dict_wf (group_votes ps)"
    and grp: "map_of (group_votes ps) e = (if agreeing e ps = [] then None else Some (agreeing e ps))" for e
    using group_votes_spec [of ps] by simp_all
  obtain p where p: "p \<in> set ps" using assms(1) by (cases ps) auto
  then have "map_of (group_votes ps) (p_result_digest p) \<noteq> None" by (auto simp: grp agreeing_def filter_empty_conv)
  then have "sort_key ?f (group_votes ps) \<noteq> []" by (metis length_0_conv length_sort map_of.simps(1))
  then obtain rest where srt: "sort_key ?f (group_votes ps) = (d, winners) # rest"
    using assms(2) by (metis list.collapse)
  then have "(d, winners) \<in> set (group_votes ps)" by (metis list.set_intros(1) set_sort)
  then have "map_of (group_votes ps) d = Some winners" using wf by (simp add: dict_wf_map_of)
  then show t: "winners = agreeing d ps" "winners \<noteq> []" using grp [of d] by (auto split: if_splits)
  show "length (agreeing e ps) \<le> length winners"
  proof (cases "agreeing e ps = []")
    case False
    then have "(e, agreeing e ps) \<in> set (group_votes ps)" using grp [of e] wf by (simp add: dict_wf_map_of)
    then have "(e, agreeing e ps) \<in> set ((d, winners) # rest)" using srt by (metis set_sort)
    moreover have "sorted (map ?f ((d, winners) # rest))" using sorted_sort_key [of ?f "group_votes ps"] srt by simp
    ultimately show ?thesis by force
  qed simp
qed

text \<open>Every policy asks for more than half of the votes, so that no two digests can satisfy it.\<close>

lemma reached_two_thirds: "reached SUPERMAJORITY_TWO_THIRDS c n \<longleftrightarrow> 2 * n \<le> 3 * c"
proof -
  have scale: "2 * x / 3 - e \<le> y \<longleftrightarrow> 2 * x - 3 * e \<le> 3 * y" for x y e :: rat by (auto simp: field_simps)
  have "reached SUPERMAJORITY_TWO_THIRDS c n \<longleftrightarrow> 2 * rat_of_nat n - 3 / 10 ^ 9 \<le> 3 * rat_of_nat c"
    using scale [of "rat_of_nat n" "1 / 10 ^ 9" "rat_of_nat c"]
    by (simp only: reached.simps mult_1_right times_divide_eq_right)
  also have "\<dots> \<longleftrightarrow> rat_of_int (2 * int n - 3 * int c) \<le> 3 / 10 ^ 9"
    by (simp only: of_int_diff of_int_mult of_int_of_nat_eq of_int_numeral diff_le_eq add.commute)
  also have "\<dots> \<longleftrightarrow> 2 * int n - 3 * int c \<le> 0"
  proof
    assume "rat_of_int (2 * int n - 3 * int c) \<le> 3 / 10 ^ 9"
    then have "rat_of_int (2 * int n - 3 * int c) < 1" by simp
    then have "2 * int n - 3 * int c < 1" by (simp only: of_int_less_1_iff)
    then show "2 * int n - 3 * int c \<le> 0" by simp
  next
    assume "2 * int n - 3 * int c \<le> 0"
    then have "rat_of_int (2 * int n - 3 * int c) \<le> 0" by (simp only: of_int_le_0_iff)
    then show "rat_of_int (2 * int n - 3 * int c) \<le> 3 / 10 ^ 9" by (rule order_trans) simp
  qed
  also have "\<dots> \<longleftrightarrow> 2 * n \<le> 3 * c" by linarith
  finally show ?thesis .
qed

lemma reached_strict: "reached STRICT_MAJORITY c n \<longleftrightarrow> n < 2 * c"
proof -
  have "rat_of_nat n / 2 < rat_of_nat c \<longleftrightarrow> rat_of_nat n < rat_of_nat (2 * c)" by (simp add: field_simps)
  then show ?thesis by (simp only: reached.simps of_nat_less_iff)
qed

lemmas reached_iff = reached_strict reached_two_thirds reached.simps(3)

declare reached.simps [simp del]

lemma reached_majority: "reached policy c n \<Longrightarrow> 0 < n \<Longrightarrow> n < 2 * c"
  by (cases policy) (auto simp: reached_iff)

lemma reached_mono: "reached policy c n \<Longrightarrow> c \<le> c' \<Longrightarrow> c' \<le> n \<Longrightarrow> reached policy c' n"
  by (cases policy) (auto simp: reached_iff)

lemma agreeing_disjoint: "d \<noteq> e \<Longrightarrow> length (agreeing d ps) + length (agreeing e ps) \<le> length ps"
  by (induction ps) (auto simp: agreeing_def)

lemma length_agreeing: "length (agreeing d ps) \<le> length ps"
  by (simp add: agreeing_def)

section \<open>Consensus\<close>

abbreviation ballots :: "string \<Rightarrow> verifier \<Rightarrow> proposal list" where
  "ballots task v \<equiv> map snd (votes_for task v)"

lemma evaluate_winner:
  assumes "evaluate_quorum task v = (Inr r, v')" "1 \<le> qv_min_participants v"
  obtains d where "qr_achieved r = reached (qv_policy v) (length (agreeing d (ballots task v))) (length (ballots task v))"
    "ballots task v \<noteq> []" "agreeing d (ballots task v) \<noteq> []"
    "\<And>e. length (agreeing e (ballots task v)) \<le> length (agreeing d (ballots task v))"
    "qr_achieved r \<Longrightarrow> qr_winning_digest r = Some d
      \<and> qr_consensus_output r = Some (p_output_payload (hd (agreeing d (ballots task v))))
      \<and> qr_conforming r = sort (map p_worker_id (agreeing d (ballots task v)))
      \<and> qr_byzantine r = sort (map p_worker_id (filter (\<lambda>p. p_result_digest p \<noteq> d) (ballots task v)))"
proof -
  let ?ps = "ballots task v"
  have ne: "?ps \<noteq> []" using assms by (auto simp: evaluate_quorum_def Let_def split: if_splits)
  obtain d winners where dt: "hd (sort_key (\<lambda>g. - int (length (snd g))) (group_votes ?ps)) = (d, winners)" by force
  note t = top_group [OF ne dt]
  show thesis
  proof (rule that [of d])
    show "qr_achieved r = reached (qv_policy v) (length (agreeing d ?ps)) (length ?ps)"
      using assms(1) unfolding evaluate_quorum_def Let_def dt prod.case t(1) by (auto split: if_splits)
    show "qr_winning_digest r = Some d \<and> qr_consensus_output r = Some (p_output_payload (hd (agreeing d ?ps)))
      \<and> qr_conforming r = sort (map p_worker_id (agreeing d ?ps))
      \<and> qr_byzantine r = sort (map p_worker_id (filter (\<lambda>p. p_result_digest p \<noteq> d) ?ps))" if "qr_achieved r"
      using assms(1) that unfolding evaluate_quorum_def Let_def dt prod.case t(1) by (auto split: if_splits)
  qed (use ne t in auto)
qed

text \<open>
  C28. Consensus is reached exactly when some digest has the share of the votes that the policy asks
  for; then that digest is the only one with a majority, it is the one announced, the announced output
  was proposed by a conforming worker, and the voters are split exactly into those who voted for it and
  those who did not.
\<close>

theorem quorum_exact:
  assumes "evaluate_quorum task v = (Inr r, v')" and "1 \<le> qv_min_participants v"
  shows "(qr_achieved r \<longleftrightarrow> (\<exists>d. reached (qv_policy v) (length (agreeing d (ballots task v))) (length (ballots task v))))
    \<and> (qr_achieved r \<longrightarrow> (\<exists>d. qr_winning_digest r = Some d
        \<and> length (ballots task v) < 2 * length (agreeing d (ballots task v))
        \<and> (\<forall>e. reached (qv_policy v) (length (agreeing e (ballots task v))) (length (ballots task v)) \<longrightarrow> e = d)
        \<and> (\<exists>p \<in> set (agreeing d (ballots task v)). qr_consensus_output r = Some (p_output_payload p))
        \<and> set (qr_conforming r) = p_worker_id ` set (agreeing d (ballots task v))
        \<and> set (qr_byzantine r) = p_worker_id ` {p \<in> set (ballots task v). p_result_digest p \<noteq> d}))"
proof -
  let ?ps = "ballots task v" and ?n = "length (ballots task v)"
  from evaluate_winner [OF assms] obtain d where ach: "qr_achieved r = reached (qv_policy v) (length (agreeing d ?ps)) ?n"
    and ne: "?ps \<noteq> []" "agreeing d ?ps \<noteq> []" and best: "\<And>e. length (agreeing e ?ps) \<le> length (agreeing d ?ps)"
    and res: "qr_achieved r \<Longrightarrow> qr_winning_digest r = Some d
      \<and> qr_consensus_output r = Some (p_output_payload (hd (agreeing d ?ps)))
      \<and> qr_conforming r = sort (map p_worker_id (agreeing d ?ps))
      \<and> qr_byzantine r = sort (map p_worker_id (filter (\<lambda>p. p_result_digest p \<noteq> d) ?ps))" by blast
  have pos: "0 < ?n" using ne by simp
  have iff: "qr_achieved r \<longleftrightarrow> (\<exists>e. reached (qv_policy v) (length (agreeing e ?ps)) ?n)"
    using ach reached_mono [OF _ best length_agreeing] by blast
  have "e = d" if "reached (qv_policy v) (length (agreeing e ?ps)) ?n" "qr_achieved r" for e
  proof (rule ccontr)
    assume "e \<noteq> d"
    then show False
      using agreeing_disjoint [of e d ?ps] reached_majority [OF that(1) pos] reached_majority [OF _ pos] ach that(2) by fastforce
  qed
  moreover have "?n < 2 * length (agreeing d ?ps)" if "qr_achieved r" using reached_majority [OF _ pos] ach that by blast
  moreover have "hd (agreeing d ?ps) \<in> set (agreeing d ?ps)" using ne(2) by simp
  ultimately show ?thesis using iff res by auto
qed

definition ballot :: "string \<Rightarrow> string \<Rightarrow> proposal" where
  "ballot w d = \<lparr>p_task_id = ''t'', p_worker_id = w, p_output_payload = [(''answer'', JStr d)], p_result_digest = d, p_timestamp = []\<rparr>"

definition three_votes :: verifier where
  "three_votes = fold (\<lambda>p v. snd (submit_proposal p v)) [ballot ''w1'' ''x'', ballot ''w2'' ''y'', ballot ''w3'' ''x'']
     (new_verifier 3 SUPERMAJORITY_TWO_THIRDS 3)"

definition three_result :: quorum_result where
  "three_result = \<lparr>qr_task_id = ''t'', qr_achieved = True, qr_policy = SUPERMAJORITY_TWO_THIRDS, qr_winning_digest = Some ''x'',
     qr_consensus_output = Some [(''answer'', JStr ''x'')], qr_agreement_ratio = 6667 / 10000,
     qr_participating = [''w1'', ''w2'', ''w3''], qr_conforming = [''w1'', ''w3''], qr_byzantine = [''w2'']\<rparr>"

theorem quorum_exact_witness:
  "qr_achieved three_result \<longleftrightarrow> (\<exists>d. reached (qv_policy three_votes) (length (agreeing d (ballots ''t'' three_votes)))
     (length (ballots ''t'' three_votes)))"
proof -
  have "fst (evaluate_quorum ''t'' three_votes) = Inr three_result" by code_simp
  then have "evaluate_quorum ''t'' three_votes = (Inr three_result, snd (evaluate_quorum ''t'' three_votes))"
    by (simp add: prod_eq_iff)
  moreover have "1 \<le> qv_min_participants three_votes" by code_simp
  ultimately show ?thesis by (rule conjunct1 [OF quorum_exact])
qed

section \<open>Reputation\<close>

text \<open>The counters add up, and a worker is untrusted exactly from the threshold of deviations on.\<close>

definition rep_ok :: "verifier \<Rightarrow> bool" where
  "rep_ok v \<longleftrightarrow> 1 \<le> qv_slash_threshold v \<and> (\<forall>w. let r = reputation_of w v in
     rp_total_votes r = rp_conforming_count r + rp_byzantine_count r
     \<and> (rp_is_untrusted r \<longleftrightarrow> qv_slash_threshold v \<le> int (rp_byzantine_count r)))"

datatype quorum_op = Submit proposal | Evaluate string

fun quorum_step :: "quorum_op \<Rightarrow> verifier \<Rightarrow> verifier" where
  "quorum_step (Submit p) v = snd (submit_proposal p v)"
| "quorum_step (Evaluate t) v = snd (evaluate_quorum t v)"

lemma trust_simps [simp]: "rp_total_votes (trust r) = rp_total_votes r" "rp_conforming_count (trust r) = rp_conforming_count r"
    "rp_byzantine_count (trust r) = rp_byzantine_count r" "rp_is_untrusted (trust r) = rp_is_untrusted r"
  by (simp_all add: trust_def)

lemma reputation_update: "reputation_of w' (v\<lparr>qv_reputation := AList.update w r (qv_reputation v)\<rparr>) = (if w' = w then r else reputation_of w' v)"
  by (simp add: reputation_of_def)

lemma reward_ok: "rep_ok v \<Longrightarrow> rep_ok (reward w v)"
  by (simp add: rep_ok_def reward_def Let_def reputation_update)

lemma blame_ok: "rep_ok v \<Longrightarrow> rep_ok (blame w v)"
  by (auto simp: rep_ok_def blame_def Let_def reputation_update)

lemma fold_rep_ok: "(\<And>w v. rep_ok v \<Longrightarrow> rep_ok (f w v)) \<Longrightarrow> rep_ok v \<Longrightarrow> rep_ok (fold f ws v)"
  by (induction ws arbitrary: v) simp_all

lemma reputation_proposals [simp]: "reputation_of w (v\<lparr>qv_proposals := ps\<rparr>) = reputation_of w v"
  by (simp add: reputation_of_def)

lemma submit_rep_ok: "rep_ok v \<Longrightarrow> rep_ok (snd (submit_proposal p v))"
  by (simp add: submit_proposal_def Let_def rep_ok_def)

lemma evaluate_rep_ok: "rep_ok v \<Longrightarrow> rep_ok (snd (evaluate_quorum t v))"
  by (simp add: evaluate_quorum_def Let_def fold_rep_ok reward_ok blame_ok split: prod.split)

lemma quorum_step_ok: "rep_ok v \<Longrightarrow> rep_ok (quorum_step op v)"
  by (cases op) (simp_all add: submit_rep_ok evaluate_rep_ok)

lemma quorum_run_ok: "rep_ok v \<Longrightarrow> rep_ok (fold quorum_step ops v)"
  by (induction ops arbitrary: v) (simp_all add: quorum_step_ok)

lemma new_verifier_ok: "rep_ok (new_verifier n policy k)"
  by (simp add: rep_ok_def new_verifier_def reputation_of_def fresh_reputation_def)

text \<open>
  A worker is barred exactly when it deviated as often as the threshold says: in every history of
  votes and evaluations, \<open>submit_proposal\<close> refuses a worker as untrusted if and only if its count of
  deviations has reached the threshold, and its counters add up.
\<close>

theorem slashing_exact:
  "let v = fold quorum_step ops (new_verifier n policy k); r = reputation_of (p_worker_id p) v in
   rp_total_votes r = rp_conforming_count r + rp_byzantine_count r
   \<and> (fst (submit_proposal p v) = Inl (QuorumError ''untrusted/slashed'')
      \<longleftrightarrow> qv_slash_threshold v \<le> int (rp_byzantine_count r))"
proof -
  have "rep_ok (fold quorum_step ops (new_verifier n policy k))" by (rule quorum_run_ok) (rule new_verifier_ok)
  then show ?thesis by (simp add: rep_ok_def Let_def submit_proposal_def)
qed

text \<open>
  The counters count evaluations and not tasks: evaluating one task again counts its votes again, so
  that a single deviating vote, evaluated three times, gets its worker barred.
\<close>

theorem reevaluation_slashes:
  "\<not> rp_is_untrusted (reputation_of ''w2'' (fold quorum_step [Evaluate ''t''] three_votes))
   \<and> rp_is_untrusted (reputation_of ''w2'' (fold quorum_step [Evaluate ''t'', Evaluate ''t'', Evaluate ''t''] three_votes))"
  by code_simp

end
