(* ===== verification/Shared_Ring.thy ===== *)
theory Shared_Ring
  imports Prelude "HOL-Library.Word" "HOL-Library.Code_Target_Nat"
begin

text \<open>
  The shared-memory ring buffer (courier\_core/shared\_memory\_ring.py) down to its bytes: a header of
  big-endian fields and a circular data area with length-prefixed frames. The segment is a list of
  8-bit words, and the operations are the byte copies of the code. They implement a first-in first-out
  queue of messages, also when a read happens between the two halves of a write.
\<close>

section \<open>A queue interface\<close>

text \<open>
  \<open>rep s q\<close> says that the state \<open>s\<close> holds the messages \<open>q\<close>. A put appends or is refused, a get takes the
  first message or says that there is none. \<open>left s\<close> is the number of puts the implementation has numbers for.
\<close>

datatype 'a fifo_op = Put 'a | Get

text \<open>A run, with the messages that were accepted and those that were delivered.\<close>

fun fifo_run :: "('a \<Rightarrow> 's \<Rightarrow> ('e + nat) \<times> 's) \<Rightarrow> ('s \<Rightarrow> ('e + 'a option) \<times> 's) \<Rightarrow> 'a fifo_op list \<Rightarrow> 's
    \<Rightarrow> 'a list \<times> 'a list \<times> 's" where
  "fifo_run put get [] s = ([], [], s)"
| "fifo_run put get (Put x # ops) s = (case put x s of
     (Inr n, s') \<Rightarrow> (let (accepted, delivered, s'') = fifo_run put get ops s' in (x # accepted, delivered, s''))
   | (Inl e, s') \<Rightarrow> fifo_run put get ops s')"
| "fifo_run put get (Get # ops) s = (case get s of
     (Inr (Some x), s') \<Rightarrow> (let (accepted, delivered, s'') = fifo_run put get ops s' in (accepted, x # delivered, s''))
   | (_, s') \<Rightarrow> fifo_run put get ops s')"

locale fifo =
  fixes rep :: "'s \<Rightarrow> 'a list \<Rightarrow> bool"
    and put :: "'a \<Rightarrow> 's \<Rightarrow> ('e + nat) \<times> 's"
    and get :: "'s \<Rightarrow> ('e + 'a option) \<times> 's"
    and left :: "'s \<Rightarrow> nat"
  assumes put_ok: "rep s q \<Longrightarrow> put x s = (Inr n, s') \<Longrightarrow> rep s' (q @ [x]) \<and> left s \<le> Suc (left s')"
    and put_refused: "rep s q \<Longrightarrow> 0 < left s \<Longrightarrow> put x s = (Inl e, s') \<Longrightarrow> s' = s"
    and get_none: "rep s [] \<Longrightarrow> get s = (Inr None, s)"
    and get_some: "rep s (x # q) \<Longrightarrow> \<exists>s'. get s = (Inr (Some x), s') \<and> rep s' q \<and> left s' = left s"
begin

lemma run_fifo:
  assumes "rep s q" "length ops \<le> left s"
  shows "\<exists>q'. rep (snd (snd (fifo_run put get ops s))) q' \<and> fst (snd (fifo_run put get ops s)) @ q' = q @ fst (fifo_run put get ops s)"
  using assms
proof (induction ops arbitrary: s q)
  case (Cons op ops)
  show ?case
  proof (cases op)
    case (Put x)
    obtain r s' where p: "put x s = (r, s')" by force
    show ?thesis
    proof (cases r)
      case (Inl e)
      then have "s' = s" using put_refused [of s q x e s'] Cons.prems p by simp
      then show ?thesis using Cons.IH [of s q] Cons.prems Put p Inl by simp
    next
      case (Inr n)
      then have "rep s' (q @ [x])" "length ops \<le> left s'"
        using put_ok [of s q x n s'] Cons.prems p by auto
      then show ?thesis using Cons.IH [of s' "q @ [x]"] Put p Inr by (auto simp: Let_def split: prod.splits)
    qed
  next
    case Get
    show ?thesis
    proof (cases q)
      case Nil
      then have "get s = (Inr None, s)" using get_none Cons.prems by simp
      then show ?thesis using Cons.IH [of s q] Cons.prems Get by simp
    next
      case (Cons x q')
      then obtain s' where "get s = (Inr (Some x), s')" "rep s' q'" "length ops \<le> left s'"
        using get_some [of s x q'] Cons.prems \<open>q = x # q'\<close> by auto
      then show ?thesis using Cons.IH [of s' q'] Get Cons by (auto simp: Let_def split: prod.splits)
    qed
  qed
qed auto

text \<open>Delivered messages are the accepted ones, in order, none twice and none left out.\<close>

lemma delivered_prefix: "rep s [] \<Longrightarrow> length ops \<le> left s \<Longrightarrow> \<exists>rest. fst (fifo_run put get ops s) = fst (snd (fifo_run put get ops s)) @ rest \<and> rep (snd (snd (fifo_run put get ops s))) rest"
  using run_fifo [of s "[]" ops] by (metis append_Nil)

end

section \<open>Bytes\<close>

type_synonym byte = "8 word"

text \<open>\<open>struct.pack\<close> and \<open>struct.unpack\<close> of big-endian unsigned integers of \<open>n\<close> bytes\<close>

fun be_bytes :: "nat \<Rightarrow> nat \<Rightarrow> byte list" where
  "be_bytes 0 v = []"
| "be_bytes (Suc n) v = be_bytes n (v div 256) @ [word_of_nat v]"

definition be_value :: "byte list \<Rightarrow> nat" where
  "be_value bs = foldl (\<lambda>a b. a * 256 + unat b) 0 bs"

definition pack :: "nat \<Rightarrow> nat \<Rightarrow> byte list result" where
  "pack n v = (if v < 256 ^ n then Inr (be_bytes n v) else Inl StructError)"

lemma length_be_bytes [simp]: "length (be_bytes n v) = n"
  by (induction n arbitrary: v) simp_all

lemma be_value_bytes: "v < 256 ^ n \<Longrightarrow> be_value (be_bytes n v) = v"
proof (induction n arbitrary: v)
  case (Suc n)
  then have "v div 256 < 256 ^ n" by (simp add: less_mult_imp_div_less mult.commute)
  then have "be_value (be_bytes n (v div 256)) = v div 256" by (rule Suc.IH)
  moreover have "unat (word_of_nat v :: byte) = v mod 256" by (simp add: unat_of_nat take_bit_eq_mod)
  ultimately show ?case by (simp add: be_value_def)
qed (simp add: be_value_def)

text \<open>A slice of the buffer, and the assignment to a slice, which must have the length of the bytes.\<close>

definition slice :: "nat \<Rightarrow> nat \<Rightarrow> byte list \<Rightarrow> byte list" where
  "slice a n buf = take n (drop a buf)"

definition overwrite :: "nat \<Rightarrow> byte list \<Rightarrow> byte list \<Rightarrow> byte list" where
  "overwrite a bs buf = take a buf @ bs @ drop (a + length bs) buf"

definition assign :: "nat \<Rightarrow> nat \<Rightarrow> byte list \<Rightarrow> byte list \<Rightarrow> byte list result" where
  "assign a n bs buf = (if length (slice a n buf) = length bs then Inr (overwrite a bs buf)
     else Inl (ValueError ''lvalue and rvalue have different structures''))"

text \<open>\<open>bs[:k]\<close> and \<open>bs[k:]\<close>, where a negative \<open>k\<close> counts from the end.\<close>

definition py_take :: "int \<Rightarrow> 'a list \<Rightarrow> 'a list" where
  "py_take k xs = take (nat (if 0 \<le> k then k else int (length xs) + k)) xs"

definition py_drop :: "int \<Rightarrow> 'a list \<Rightarrow> 'a list" where
  "py_drop k xs = drop (nat (if 0 \<le> k then k else int (length xs) + k)) xs"

lemma length_overwrite [simp]: "a + length bs \<le> length buf \<Longrightarrow> length (overwrite a bs buf) = length buf"
  by (simp add: overwrite_def)

lemma nth_overwrite:
  "a + length bs \<le> length buf \<Longrightarrow> i < length buf \<Longrightarrow>
   overwrite a bs buf ! i = (if a \<le> i \<and> i < a + length bs then bs ! (i - a) else buf ! i)"
  by (auto simp: overwrite_def nth_append)

lemma slice_nth: "i < n \<Longrightarrow> a + n \<le> length buf \<Longrightarrow> slice a n buf ! i = buf ! (a + i)"
  by (simp add: slice_def)

lemma length_slice: "a + n \<le> length buf \<Longrightarrow> length (slice a n buf) = n"
  by (simp add: slice_def)

lemma slice_overwrite_same: "a + length bs \<le> length buf \<Longrightarrow> n = length bs \<Longrightarrow> slice a n (overwrite a bs buf) = bs"
  by (rule nth_equalityI) (simp_all add: length_slice slice_nth nth_overwrite)

lemma slice_overwrite_other:
  assumes "a + length bs \<le> length buf" "b + n \<le> length buf" "b + n \<le> a \<or> a + length bs \<le> b"
  shows "slice b n (overwrite a bs buf) = slice b n buf"
  using assms by (intro nth_equalityI) (auto simp: length_slice slice_nth nth_overwrite)

section \<open>The segment\<close>

definition MAGIC :: "byte list" where "MAGIC = map (\<lambda>c. word_of_nat (char_code c)) ''CSRB''"
definition RING_VERSION :: nat where "RING_VERSION = 1"
definition HEADER_RAW_SIZE :: nat where "HEADER_RAW_SIZE = 26"
definition HEADER_SIZE :: nat where "HEADER_SIZE = 32"

text \<open>The fields of the header: capacity, head, tail and sequence number.\<close>

definition ring_capacity :: "byte list \<Rightarrow> nat" where "ring_capacity buf = be_value (slice 6 4 buf)"
definition ring_head :: "byte list \<Rightarrow> nat" where "ring_head buf = be_value (slice 10 4 buf)"
definition ring_tail :: "byte list \<Rightarrow> nat" where "ring_tail buf = be_value (slice 14 4 buf)"
definition ring_seq :: "byte list \<Rightarrow> nat" where "ring_seq buf = be_value (slice 18 8 buf)"

text \<open>\<open>create\<close> on a fresh segment: zeros, at least as many as were asked for.\<close>

definition init_header :: "nat \<Rightarrow> byte list \<Rightarrow> byte list result" where
  "init_header capacity buf = bind_result (pack 4 capacity) (\<lambda>cap.
     bind_result (assign 0 HEADER_RAW_SIZE (MAGIC @ be_bytes 2 RING_VERSION @ cap @ be_bytes 4 0 @ be_bytes 4 0 @ be_bytes 8 0) buf)
       (assign HEADER_RAW_SIZE (HEADER_SIZE - HEADER_RAW_SIZE) (replicate (HEADER_SIZE - HEADER_RAW_SIZE) 0)))"

definition create_ring :: "nat \<Rightarrow> nat \<Rightarrow> byte list result" where
  "create_ring capacity extra = init_header capacity (replicate (HEADER_SIZE + capacity + extra) 0)"

definition validate_header :: "byte list \<Rightarrow> error option" where
  "validate_header buf =
     (if length buf < HEADER_SIZE then Some (CorruptRingBufferError ''segment too small for ring header'')
      else if slice 0 4 buf \<noteq> MAGIC then Some (CorruptRingBufferError ''Invalid magic'')
      else if be_value (slice 4 2 buf) \<noteq> RING_VERSION then Some (CorruptRingBufferError ''Unsupported version'')
      else None)"

definition connect_ring :: "byte list \<Rightarrow> byte list result" where
  "connect_ring buf = (case validate_header buf of Some e \<Rightarrow> Inl e | None \<Rightarrow> Inr buf)"

text \<open>A head and a tail fit their fields; the sequence number can outgrow its one, after the head was written.\<close>

definition update_head :: "nat \<Rightarrow> nat \<Rightarrow> byte list \<Rightarrow> error option \<times> byte list" where
  "update_head head seq buf = (case pack 4 head of
     Inl e \<Rightarrow> (Some e, buf)
   | Inr hb \<Rightarrow> (let buf1 = overwrite 10 hb buf in
       case pack 8 seq of Inl e \<Rightarrow> (Some e, buf1) | Inr sb \<Rightarrow> (None, overwrite 18 sb buf1)))"

definition update_tail :: "nat \<Rightarrow> byte list \<Rightarrow> error option \<times> byte list" where
  "update_tail tail buf = (case pack 4 tail of Inl e \<Rightarrow> (Some e, buf) | Inr tb \<Rightarrow> (None, overwrite 14 tb buf))"

definition available_read_bytes :: "byte list \<Rightarrow> int" where
  "available_read_bytes buf =
     (if ring_tail buf \<le> ring_head buf then int (ring_head buf) - int (ring_tail buf)
      else int (ring_capacity buf) - (int (ring_tail buf) - int (ring_head buf)))"

definition available_write_bytes :: "byte list \<Rightarrow> int" where
  "available_write_bytes buf = max 0 (int (ring_capacity buf) - 1 - available_read_bytes buf)"

section \<open>Writing and reading\<close>

text \<open>The two halves of \<open>write\<close>: the frame is copied, then the head is moved.\<close>

definition put_frame :: "nat \<Rightarrow> nat \<Rightarrow> byte list \<Rightarrow> byte list \<Rightarrow> byte list result" where
  "put_frame capacity head frame buf =
     (if head + length frame \<le> capacity then assign (HEADER_SIZE + head) (length frame) frame buf
      else (let part1 = int capacity - int head; part2 = int (length frame) - part1 in
        bind_result (assign (HEADER_SIZE + head) (nat part1) (py_take part1 frame) buf)
          (assign HEADER_SIZE (nat part2) (py_drop part1 frame))))"

definition write_frame :: "byte list \<Rightarrow> byte list \<Rightarrow> (nat \<times> nat \<times> byte list) result" where
  "write_frame data buf =
     (let size = 4 + length data; capacity = ring_capacity buf; head = ring_head buf in
      if int capacity - 1 < int size then Inl MessageTooLargeError
      else if available_write_bytes buf < int size then Inl BufferFullError
      else bind_result (pack 4 (length data)) (\<lambda>len.
        bind_result (put_frame capacity head (len @ data) buf) (\<lambda>buf1.
        Inr ((head + size) mod capacity, ring_seq buf + 1, buf1))))"

definition ring_write :: "byte list \<Rightarrow> byte list \<Rightarrow> nat result \<times> byte list" where
  "ring_write data buf = (case write_frame data buf of
     Inl e \<Rightarrow> (Inl e, buf)
   | Inr (new_head, new_seq, buf1) \<Rightarrow> (case update_head new_head new_seq buf1 of
       (Some e, buf2) \<Rightarrow> (Inl e, buf2) | (None, buf2) \<Rightarrow> (Inr new_seq, buf2)))"

definition read_circular :: "nat \<Rightarrow> nat \<Rightarrow> nat \<Rightarrow> byte list \<Rightarrow> byte list" where
  "read_circular offset len capacity buf =
     (if offset + len \<le> capacity then slice (HEADER_SIZE + offset) len buf
      else slice (HEADER_SIZE + offset) (capacity - offset) buf @ slice HEADER_SIZE (offset + len - capacity) buf)"

definition ring_read :: "byte list \<Rightarrow> byte list option result \<times> byte list" where
  "ring_read buf =
     (let capacity = ring_capacity buf; tail = ring_tail buf in
      if ring_head buf = tail then (Inr None, buf)
      else (let len_bytes = read_circular tail 4 capacity buf in
        if length len_bytes \<noteq> 4 then (Inl StructError, buf)
        else if capacity = 0 then (Inl (ZeroDivisionError ''integer modulo by zero''), buf)
        else (let msg_len = be_value len_bytes;
                  payload = read_circular ((tail + 4) mod capacity) msg_len capacity buf
              in case update_tail ((tail + 4 + msg_len) mod capacity) buf of
                   (Some e, buf1) \<Rightarrow> (Inl e, buf1) | (None, buf1) \<Rightarrow> (Inr (Some payload), buf1))))"

definition read_or_raise :: "byte list \<Rightarrow> byte list result \<times> byte list" where
  "read_or_raise buf = (case ring_read buf of
     (Inl e, b) \<Rightarrow> (Inl e, b) | (Inr None, b) \<Rightarrow> (Inl BufferEmptyError, b) | (Inr (Some m), b) \<Rightarrow> (Inr m, b))"

section \<open>The ring holds a queue\<close>

definition frame :: "byte list \<Rightarrow> byte list" where
  "frame m = be_bytes 4 (length m) @ m"

text \<open>\<open>n\<close> bytes of the data area from \<open>off\<close> on, around the end.\<close>

definition circ :: "nat \<Rightarrow> nat \<Rightarrow> nat \<Rightarrow> byte list \<Rightarrow> byte list" where
  "circ cap off n buf = map (\<lambda>k. buf ! (HEADER_SIZE + (off + k) mod cap)) [0..<n]"

definition used_bytes :: "byte list \<Rightarrow> nat" where
  "used_bytes buf = (if ring_tail buf \<le> ring_head buf then ring_head buf - ring_tail buf
     else ring_capacity buf - (ring_tail buf - ring_head buf))"

definition ring_shape :: "byte list \<Rightarrow> bool" where
  "ring_shape buf \<longleftrightarrow> HEADER_SIZE + ring_capacity buf \<le> length buf
     \<and> ring_head buf < ring_capacity buf \<and> ring_tail buf < ring_capacity buf \<and> ring_capacity buf < 256 ^ 4"

definition ring_rep :: "byte list \<Rightarrow> byte list list \<Rightarrow> bool" where
  "ring_rep buf q \<longleftrightarrow> ring_shape buf
     \<and> circ (ring_capacity buf) (ring_tail buf) (used_bytes buf) buf = concat (map frame q)
     \<and> (\<forall>m \<in> set q. length m < ring_capacity buf)"

lemma mod_wrap: "p < 2 * cap \<Longrightarrow> 0 < cap \<Longrightarrow> p mod cap = (if p < cap then p else p - (cap::nat))"
  by (simp add: mod_if)

lemma length_circ [simp]: "length (circ cap off n buf) = n"
  by (simp add: circ_def)

lemma nth_circ: "k < n \<Longrightarrow> circ cap off n buf ! k = buf ! (HEADER_SIZE + (off + k) mod cap)"
  by (simp add: circ_def)

lemma read_circular_circ:
  assumes "off < cap" "n \<le> cap" "HEADER_SIZE + cap \<le> length buf"
  shows "read_circular off n cap buf = circ cap off n buf"
proof (rule nth_equalityI)
  show len: "length (read_circular off n cap buf) = length (circ cap off n buf)"
    using assms by (simp add: read_circular_def slice_def)
  fix i
  assume "i < length (read_circular off n cap buf)"
  then have i: "i < n" by (simp add: len)
  show "read_circular off n cap buf ! i = circ cap off n buf ! i"
  proof (cases "off + i < cap")
    case True
    then show ?thesis using i assms by (auto simp: read_circular_def slice_def nth_circ nth_append add.assoc)
  next
    case False
    then have "(off + i) mod cap = off + i - cap" using i assms by (subst mod_wrap) auto
    then show ?thesis using i assms False by (auto simp: read_circular_def slice_def nth_circ nth_append ac_simps)
  qed
qed

lemma circ_split: "circ cap off (m + n) buf = circ cap off m buf @ circ cap (off + m) n buf"
  by (rule nth_equalityI) (auto simp: nth_circ nth_append add.assoc)

lemma circ_mod: "circ cap (off mod cap) n buf = circ cap off n buf"
  by (simp add: circ_def mod_add_left_eq)

text \<open>Bytes of the data area are not touched by the header fields and the other way round.\<close>

lemma circ_header:
  assumes "a + length bs \<le> HEADER_SIZE" "HEADER_SIZE + cap \<le> length buf" "0 < cap"
  shows "circ cap off n (overwrite a bs buf) = circ cap off n buf"
proof -
  have "overwrite a bs buf ! (HEADER_SIZE + p mod cap) = buf ! (HEADER_SIZE + p mod cap)" for p
  proof -
    have "HEADER_SIZE + p mod cap < length buf" using assms(2,3) mod_less_divisor [of cap p] by linarith
    then show ?thesis using assms by (subst nth_overwrite) auto
  qed
  then show ?thesis by (simp add: circ_def)
qed

text \<open>What the copy of a frame does: its bytes around the end, and nothing else.\<close>

definition in_frame :: "nat \<Rightarrow> nat \<Rightarrow> nat \<Rightarrow> nat \<Rightarrow> bool" where
  "in_frame cap head n i \<longleftrightarrow> (HEADER_SIZE + head \<le> i \<and> i < HEADER_SIZE + head + n \<and> i < HEADER_SIZE + cap)
     \<or> (HEADER_SIZE \<le> i \<and> i + cap < HEADER_SIZE + head + n)"

lemma put_frame_spec:
  assumes "head < cap" "length fr \<le> cap" "HEADER_SIZE + cap \<le> length buf"
  obtains buf1 where "put_frame cap head fr buf = Inr buf1" "length buf1 = length buf"
    "circ cap head (length fr) buf1 = fr"
    "\<And>i. i < length buf \<Longrightarrow> \<not> in_frame cap head (length fr) i \<Longrightarrow> buf1 ! i = buf ! i"
proof (cases "head + length fr \<le> cap")
  case True
  let ?b = "overwrite (HEADER_SIZE + head) fr buf"
  have fits: "HEADER_SIZE + head + length fr \<le> length buf" using True assms by simp
  show thesis
  proof (rule that [of ?b])
    show "put_frame cap head fr buf = Inr ?b" using True fits by (simp add: put_frame_def assign_def length_slice)
    show "length ?b = length buf" using fits by simp
    show "circ cap head (length fr) ?b = fr"
      using True fits assms by (intro nth_equalityI) (auto simp: nth_circ nth_overwrite add.assoc)
    fix i
    assume "i < length buf" "\<not> in_frame cap head (length fr) i"
    then show "?b ! i = buf ! i" using True fits by (auto simp: nth_overwrite in_frame_def)
  qed
next
  case False
  define p where "p = cap - head"
  have p: "head + p = cap" "p < length fr" "length fr - p \<le> head" using False assms by (auto simp: p_def)
  let ?b1 = "overwrite (HEADER_SIZE + head) (take p fr) buf"
  let ?b = "overwrite HEADER_SIZE (drop p fr) ?b1"
  have fits: "HEADER_SIZE + head + length (take p fr) \<le> length buf" using p assms by simp
  then have len1: "length ?b1 = length buf" by simp
  have fits2: "HEADER_SIZE + length (drop p fr) \<le> length ?b1" using p assms len1 by simp
  show thesis
  proof (rule that [of ?b])
    have "int cap - int head = int p" using p(1) by simp
    moreover have "nat (int (length fr) - int p) = length fr - p" by simp
    moreover have "length (slice (HEADER_SIZE + head) p buf) = length (take p fr)"
      using fits p by (simp add: length_slice)
    moreover have "length (slice HEADER_SIZE (length fr - p) ?b1) = length (drop p fr)"
      using fits2 by (simp add: length_slice)
    ultimately show "put_frame cap head fr buf = Inr ?b"
      using False unfolding put_frame_def py_take_def py_drop_def assign_def Let_def by simp
    show "length ?b = length buf" using fits2 len1 by simp
    show "circ cap head (length fr) ?b = fr"
    proof (rule nth_equalityI)
      fix k
      assume "k < length (circ cap head (length fr) ?b)"
      then have k: "k < length fr" by simp
      show "circ cap head (length fr) ?b ! k = fr ! k"
      proof (cases "k < p")
        case True
        then have m: "(head + k) mod cap = head + k" using p by simp
        have "\<not> HEADER_SIZE + (head + k) < HEADER_SIZE + length (drop p fr)" using p by simp
        moreover have "HEADER_SIZE + (head + k) < length buf" using True p assms by simp
        ultimately show ?thesis
          using k True m fits fits2 len1 by (simp add: nth_circ nth_overwrite)
      next
        case False
        then have m: "(head + k) mod cap = k - p" using k p assms by (subst mod_wrap) auto
        have "HEADER_SIZE + (k - p) < length ?b1" using k False p assms len1 by auto
        moreover have "HEADER_SIZE + (k - p) < HEADER_SIZE + length (drop p fr)" using k False by simp
        ultimately have "?b ! (HEADER_SIZE + (k - p)) = drop p fr ! (k - p)"
          using fits2 by (subst nth_overwrite) auto
        then show ?thesis using k False m by (simp add: nth_circ)
      qed
    qed simp
    fix i
    assume "i < length buf" "\<not> in_frame cap head (length fr) i"
    then show "?b ! i = buf ! i" using p fits fits2 len1 by (auto simp: nth_overwrite in_frame_def)
  qed
qed

lemma slice_cong: "(\<And>i. a \<le> i \<Longrightarrow> i < a + n \<Longrightarrow> buf1 ! i = buf ! i) \<Longrightarrow> length buf1 = length buf \<Longrightarrow> a + n \<le> length buf
    \<Longrightarrow> slice a n buf1 = slice a n buf"
  by (intro nth_equalityI) (simp_all add: length_slice slice_nth)

text \<open>Outside the data area nothing changes, so the header fields are those from before.\<close>

lemma header_kept:
  assumes "length buf1 = length buf" "HEADER_SIZE \<le> length buf" "\<And>i. i < HEADER_SIZE \<Longrightarrow> buf1 ! i = buf ! i"
  shows "ring_capacity buf1 = ring_capacity buf" "ring_head buf1 = ring_head buf"
    "ring_tail buf1 = ring_tail buf" "ring_seq buf1 = ring_seq buf"
  using assms by (auto simp: ring_capacity_def ring_head_def ring_tail_def ring_seq_def HEADER_SIZE_def
    intro!: arg_cong [of _ _ be_value] slice_cong)

text \<open>The readable bytes and the frame that is being written do not meet.\<close>

lemma readable_disjoint:
  assumes "ring_shape buf" "used_bytes buf + n < ring_capacity buf" "j < used_bytes buf"
  shows "\<not> in_frame (ring_capacity buf) (ring_head buf) n (HEADER_SIZE + (ring_tail buf + j) mod ring_capacity buf)"
proof -
  let ?cap = "ring_capacity buf" and ?h = "ring_head buf" and ?t = "ring_tail buf"
  have b: "?h < ?cap" "?t < ?cap" using assms(1) by (simp_all add: ring_shape_def)
  show ?thesis
  proof (cases "?t \<le> ?h")
    case True
    then have "(?t + j) mod ?cap = ?t + j" using assms(3) b by (simp add: used_bytes_def)
    then show ?thesis using True assms(2,3) b by (auto simp: used_bytes_def in_frame_def)
  next
    case False
    then have "?t + j < 2 * ?cap" "0 < ?cap" using assms(2,3) b by (auto simp: used_bytes_def)
    then show ?thesis
      using False assms(2,3) b by (subst mod_wrap) (auto simp: used_bytes_def in_frame_def split: if_splits)
  qed
qed

lemma head_is_end:
  assumes "ring_shape buf"
  shows "ring_head buf = (ring_tail buf + used_bytes buf) mod ring_capacity buf" "used_bytes buf < ring_capacity buf"
  using assms by (auto simp: ring_shape_def used_bytes_def mod_if)


section \<open>Moving the head and the tail\<close>

lemma header_bounds [simp]: "HEADER_SIZE = 32"
  by (simp add: HEADER_SIZE_def)

lemma ring_shapeD:
  assumes "ring_shape buf"
  shows "32 + ring_capacity buf \<le> length buf" "ring_head buf < ring_capacity buf"
    "ring_tail buf < ring_capacity buf" "ring_capacity buf < 4294967296"
  using assms by (simp_all add: ring_shape_def)

lemmas field_defs = ring_capacity_def ring_head_def ring_tail_def ring_seq_def

lemma update_head_ok:
  assumes "ring_shape buf" "h < ring_capacity buf" "n < 256 ^ 8"
  obtains buf' where "update_head h n buf = (None, buf')" "length buf' = length buf"
    "ring_capacity buf' = ring_capacity buf" "ring_head buf' = h" "ring_tail buf' = ring_tail buf" "ring_seq buf' = n"
    "\<forall>off k. circ (ring_capacity buf) off k buf' = circ (ring_capacity buf) off k buf"
proof -
  note b = ring_shapeD [OF assms(1)]
  let ?b1 = "overwrite 10 (be_bytes 4 h) buf"
  let ?b2 = "overwrite 18 (be_bytes 8 n) ?b1"
  have h: "h < 256 ^ 4" using assms(2) b by simp
  show thesis
  proof (rule that [of ?b2])
    show "update_head h n buf = (None, ?b2)" using h assms(3) by (simp add: update_head_def pack_def)
    show "length ?b2 = length buf" using b by simp
    show "ring_capacity ?b2 = ring_capacity buf" using b by (simp add: field_defs slice_overwrite_other)
    show "ring_tail ?b2 = ring_tail buf" using b by (simp add: field_defs slice_overwrite_other)
    show "ring_head ?b2 = h"
      using b h by (simp add: field_defs slice_overwrite_other slice_overwrite_same be_value_bytes)
    show "ring_seq ?b2 = n" using b assms(3) by (simp add: field_defs slice_overwrite_same be_value_bytes)
    show "\<forall>off k. circ (ring_capacity buf) off k ?b2 = circ (ring_capacity buf) off k buf"
      using b by (simp add: circ_header)
  qed
qed

lemma update_tail_ok:
  assumes "ring_shape buf" "t < ring_capacity buf"
  obtains buf' where "update_tail t buf = (None, buf')" "length buf' = length buf"
    "ring_capacity buf' = ring_capacity buf" "ring_head buf' = ring_head buf" "ring_tail buf' = t"
    "ring_seq buf' = ring_seq buf"
    "\<forall>off k. circ (ring_capacity buf) off k buf' = circ (ring_capacity buf) off k buf"
proof -
  note b = ring_shapeD [OF assms(1)]
  let ?b1 = "overwrite 14 (be_bytes 4 t) buf"
  have t: "t < 256 ^ 4" using assms(2) b by simp
  show thesis
  proof (rule that [of ?b1])
    show "update_tail t buf = (None, ?b1)" using t by (simp add: update_tail_def pack_def)
    show "length ?b1 = length buf" using b by simp
    show "ring_capacity ?b1 = ring_capacity buf" using b by (simp add: field_defs slice_overwrite_other)
    show "ring_head ?b1 = ring_head buf" using b by (simp add: field_defs slice_overwrite_other)
    show "ring_seq ?b1 = ring_seq buf" using b by (simp add: field_defs slice_overwrite_other)
    show "ring_tail ?b1 = t" using b t by (simp add: field_defs slice_overwrite_same be_value_bytes)
    show "\<forall>off k. circ (ring_capacity buf) off k ?b1 = circ (ring_capacity buf) off k buf"
      using b by (simp add: circ_header)
  qed
qed

text \<open>The number of readable bytes determines the distance between head and tail.\<close>

lemma used_bytes_eq:
  assumes "ring_shape buf" "u < ring_capacity buf" "ring_head buf = (ring_tail buf + u) mod ring_capacity buf"
  shows "used_bytes buf = u"
  using assms ring_shapeD [OF assms(1)] mod_wrap [of "ring_tail buf + u" "ring_capacity buf"]
  by (auto simp: used_bytes_def split: if_splits)

lemma available_read_used: "ring_shape buf \<Longrightarrow> available_read_bytes buf = int (used_bytes buf)"
  by (auto simp: available_read_bytes_def used_bytes_def ring_shape_def)

lemma available_write_used:
  assumes "ring_shape buf"
  shows "available_write_bytes buf = int (ring_capacity buf) - 1 - int (used_bytes buf)"
  using head_is_end(2) [OF assms] by (simp add: available_write_bytes_def available_read_used [OF assms])

section \<open>The two halves of a write\<close>

text \<open>A frame that was copied but not yet published: the queue is the old one, and the bytes after the head are the frame.\<close>

definition pending :: "byte list \<Rightarrow> byte list list \<Rightarrow> byte list \<Rightarrow> bool" where
  "pending buf q x \<longleftrightarrow> ring_rep buf q \<and> length x < ring_capacity buf
     \<and> used_bytes buf + length (frame x) < ring_capacity buf
     \<and> circ (ring_capacity buf) (ring_head buf) (length (frame x)) buf = frame x"

lemma length_frame [simp]: "length (frame m) = 4 + length m"
  by (simp add: frame_def)

lemma ring_rep_shape: "ring_rep buf q \<Longrightarrow> ring_shape buf"
  by (simp add: ring_rep_def)

lemma write_frame_pending:
  assumes r: "ring_rep buf q" and w: "write_frame x buf = Inr (h, n, buf1)"
  shows "pending buf1 q x" "h = (ring_head buf1 + length (frame x)) mod ring_capacity buf1" "n = Suc (ring_seq buf1)"
    "ring_seq buf1 = ring_seq buf"
proof -
  let ?cap = "ring_capacity buf" and ?h = "ring_head buf" and ?t = "ring_tail buf"
  note sh = ring_rep_shape [OF r]
  note b = ring_shapeD [OF sh]
  have room: "used_bytes buf + length (frame x) < ?cap" and small: "length x < 256 ^ 4"
    and copied: "put_frame ?cap ?h (frame x) buf = Inr buf1"
    and hn: "h = (?h + length (frame x)) mod ?cap" "n = Suc (ring_seq buf)"
    using w b available_write_used [OF sh]
    by (auto simp: write_frame_def Let_def pack_def frame_def add.assoc elim!: bind_resultE split: if_splits)
  have fits: "length (frame x) \<le> ?cap" "HEADER_SIZE + ?cap \<le> length buf" using room b by auto
  from put_frame_spec [OF b(2) fits] copied have
    len: "length buf1 = length buf" and fr: "circ ?cap ?h (length (frame x)) buf1 = frame x"
    and same: "\<And>i. i < length buf \<Longrightarrow> \<not> in_frame ?cap ?h (length (frame x)) i \<Longrightarrow> buf1 ! i = buf ! i"
    by auto
  have hd: "ring_capacity buf1 = ?cap" "ring_head buf1 = ?h" "ring_tail buf1 = ?t" "ring_seq buf1 = ring_seq buf"
    using len b same by (auto intro!: header_kept simp: in_frame_def)
  have us: "used_bytes buf1 = used_bytes buf" by (simp add: used_bytes_def hd)
  have "circ ?cap ?t (used_bytes buf) buf1 = circ ?cap ?t (used_bytes buf) buf"
  proof (rule nth_equalityI)
    fix j
    assume "j < length (circ ?cap ?t (used_bytes buf) buf1)"
    then have j: "j < used_bytes buf" by simp
    have "(?t + j) mod ?cap < ?cap" using b by (intro mod_less_divisor) linarith
    then have "HEADER_SIZE + (?t + j) mod ?cap < length buf" unfolding header_bounds using b by linarith
    then show "circ ?cap ?t (used_bytes buf) buf1 ! j = circ ?cap ?t (used_bytes buf) buf ! j"
      using same readable_disjoint [OF sh room j] j by (simp add: nth_circ)
  qed simp
  then show "pending buf1 q x" using r room fr len
    by (simp add: pending_def ring_rep_def ring_shape_def hd us)
  show "h = (ring_head buf1 + length (frame x)) mod ring_capacity buf1" "n = Suc (ring_seq buf1)"
    "ring_seq buf1 = ring_seq buf" by (simp_all add: hn hd)
qed

text \<open>Moving the head publishes the frame.\<close>

lemma publish:
  assumes p: "pending buf q x" and n: "n < 256 ^ 8"
  obtains buf' where "update_head ((ring_head buf + length (frame x)) mod ring_capacity buf) n buf = (None, buf')"
    "ring_rep buf' (q @ [x])" "ring_seq buf' = n"
proof -
  let ?cap = "ring_capacity buf" and ?h = "ring_head buf" and ?t = "ring_tail buf"
  let ?u = "used_bytes buf" and ?k = "length (frame x)"
  have r: "ring_rep buf q" and room: "?u + ?k < ?cap" and fr: "circ ?cap ?h ?k buf = frame x" and xl: "length x < ?cap"
    using p by (auto simp: pending_def)
  note sh = ring_rep_shape [OF r]
  note b = ring_shapeD [OF sh]
  have hb: "(?h + ?k) mod ?cap < ?cap" using b by simp
  from update_head_ok [OF sh hb n] obtain buf' where
    u: "update_head ((?h + ?k) mod ?cap) n buf = (None, buf')" and len: "length buf' = length buf"
    and f: "ring_capacity buf' = ?cap" "ring_head buf' = (?h + ?k) mod ?cap" "ring_tail buf' = ?t" "ring_seq buf' = n"
    and c: "\<forall>off k. circ ?cap off k buf' = circ ?cap off k buf" .
  have sh': "ring_shape buf'" using sh hb by (simp add: ring_shape_def f len)
  have "ring_head buf' = (ring_tail buf' + (?u + ?k)) mod ring_capacity buf'"
    using head_is_end(1) [OF sh] by (simp add: f mod_add_left_eq add.assoc)
  then have us: "used_bytes buf' = ?u + ?k" using used_bytes_eq [OF sh'] room by (simp add: f)
  have "circ ?cap (?t + ?u) ?k buf = frame x"
    using fr head_is_end(1) [OF sh] circ_mod [of ?cap "?t + ?u" ?k buf] by simp
  then have "circ ?cap ?t (?u + ?k) buf = concat (map frame (q @ [x]))"
    using r by (simp add: ring_rep_def circ_split)
  then have "ring_rep buf' (q @ [x])" using r sh' xl by (auto simp: ring_rep_def f us c)
  then show thesis using that u f by blast
qed

section \<open>Reading\<close>

lemma ring_read_empty:
  assumes "ring_rep buf []"
  shows "ring_read buf = (Inr None, buf)"
proof -
  have "used_bytes buf = length (circ (ring_capacity buf) (ring_tail buf) (used_bytes buf) buf)" by simp
  also have "\<dots> = 0" using assms unfolding ring_rep_def by simp
  finally have "used_bytes buf = 0" .
  then have "ring_head buf = ring_tail buf"
    using ring_shapeD [OF ring_rep_shape [OF assms]] by (auto simp: used_bytes_def split: if_splits)
  then show ?thesis by (simp add: ring_read_def)
qed

lemma circ_prefix:
  assumes "circ cap off n buf = xs @ ys"
  shows "circ cap off (length xs) buf = xs" "circ cap (off + length xs) (length ys) buf = ys" "n = length xs + length ys"
proof -
  have n: "n = length xs + length ys" using arg_cong [OF assms, of length] by simp
  then show "n = length xs + length ys" .
  have "circ cap off (length xs) buf @ circ cap (off + length xs) (length ys) buf = xs @ ys"
    using assms by (simp add: n circ_split)
  then show "circ cap off (length xs) buf = xs" "circ cap (off + length xs) (length ys) buf = ys" by simp_all
qed

text \<open>
  A read returns the first message, moves the tail behind it and leaves the data area and the rest of the header
  alone.
\<close>

lemma ring_read_first:
  assumes r: "ring_rep buf (m # q)"
  obtains buf' where "ring_read buf = (Inr (Some m), buf')" "ring_rep buf' q"
    "ring_capacity buf' = ring_capacity buf" "ring_head buf' = ring_head buf" "ring_seq buf' = ring_seq buf"
    "used_bytes buf = length (frame m) + used_bytes buf'"
    "\<forall>off k. circ (ring_capacity buf) off k buf' = circ (ring_capacity buf) off k buf"
proof -
  let ?cap = "ring_capacity buf" and ?h = "ring_head buf" and ?t = "ring_tail buf" and ?u = "used_bytes buf"
  note sh = ring_rep_shape [OF r]
  note b = ring_shapeD [OF sh]
  have "circ ?cap ?t ?u buf = frame m @ concat (map frame q)" using r by (simp add: ring_rep_def)
  note c1 = circ_prefix [OF this]
  have ul: "?u < ?cap" by (rule head_is_end(2) [OF sh])
  have ml: "4 + length m < ?cap" using c1(3) ul by simp
  note c2 = circ_prefix [OF c1(1) [unfolded frame_def]]
  have lenb: "read_circular ?t 4 ?cap buf = be_bytes 4 (length m)"
    using c2(1) ml b by (subst read_circular_circ) simp_all
  have mv: "be_value (be_bytes 4 (length m)) = length m" using ml b by (intro be_value_bytes) simp
  have "circ ?cap ((?t + 4) mod ?cap) (length m) buf = m" using c2(2) by (simp add: circ_mod)
  then have pay: "read_circular ((?t + 4) mod ?cap) (length m) ?cap buf = m"
    using ml b by (subst read_circular_circ) simp_all
  let ?t' = "(?t + 4 + length m) mod ?cap"
  have tb: "?t' < ?cap" using b by simp
  from update_tail_ok [OF sh tb] obtain buf' where
    u: "update_tail ?t' buf = (None, buf')" and len: "length buf' = length buf"
    and f: "ring_capacity buf' = ?cap" "ring_head buf' = ?h" "ring_tail buf' = ?t'" "ring_seq buf' = ring_seq buf"
    and c: "\<forall>off k. circ ?cap off k buf' = circ ?cap off k buf" .
  have ne: "?h \<noteq> ?t" using c1(3) by (auto simp: used_bytes_def)
  have rd: "ring_read buf = (Inr (Some m), buf')"
    using ne ml by (simp add: ring_read_def Let_def lenb mv pay u)
  have sh': "ring_shape buf'" using sh tb by (simp add: ring_shape_def f len)
  let ?rest = "length (concat (map frame q))"
  have "?h = (?t + (length (frame m) + ?rest)) mod ?cap" using head_is_end(1) [OF sh] c1(3) by simp
  then have "?h = (?t' + ?rest) mod ?cap" by (simp add: mod_add_left_eq add.assoc)
  then have us: "used_bytes buf' = ?rest" using used_bytes_eq [OF sh'] c1(3) ul by (simp add: f)
  have "circ ?cap ?t' ?rest buf = concat (map frame q)"
    using c1(2) circ_mod [of ?cap "?t + length (frame m)" ?rest buf] by (simp add: add.assoc)
  then have rep': "ring_rep buf' q" using r sh' by (auto simp: ring_rep_def f us c)
  have "?u = length (frame m) + used_bytes buf'" using c1(3) us by simp
  from that [OF rd rep' f(1,2,4) this c] show thesis .
qed

lemma pending_read:
  assumes "pending buf (m # q) x"
  obtains buf' where "ring_read buf = (Inr (Some m), buf')" "pending buf' q x"
    "ring_capacity buf' = ring_capacity buf" "ring_head buf' = ring_head buf"
proof -
  have "ring_rep buf (m # q)" using assms by (simp add: pending_def)
  from ring_read_first [OF this] obtain buf' where
    rd: "ring_read buf = (Inr (Some m), buf')" and rep': "ring_rep buf' q"
    and f: "ring_capacity buf' = ring_capacity buf" "ring_head buf' = ring_head buf" and "ring_seq buf' = ring_seq buf"
    and us: "used_bytes buf = length (frame m) + used_bytes buf'"
    and c: "\<forall>off k. circ (ring_capacity buf) off k buf' = circ (ring_capacity buf) off k buf" .
  have "pending buf' q x" using assms rep' us by (simp add: pending_def f c)
  from that [OF rd this f(1,2)] show thesis .
qed

section \<open>The queue the ring implements\<close>

text \<open>The sequence numbers that are left: a write past the last one raises after it has moved the head.\<close>

definition seq_left :: "byte list \<Rightarrow> nat" where
  "seq_left buf = 2 ^ 64 - 1 - ring_seq buf"

lemma ring_write_ok:
  assumes r: "ring_rep buf q" and w: "ring_write x buf = (Inr n, buf')"
  shows "ring_rep buf' (q @ [x])" "n = Suc (ring_seq buf)" "ring_seq buf' = n"
proof -
  obtain h k buf1 where wf: "write_frame x buf = Inr (h, k, buf1)" and u: "update_head h k buf1 = (None, buf')" and k: "k = n"
    using w by (auto simp: ring_write_def split: sum.splits prod.splits option.splits)
  note p = write_frame_pending [OF r wf]
  have "k < 256 ^ 8" using u by (auto simp: update_head_def pack_def Let_def split: sum.splits if_splits)
  from publish [OF p(1) this] u p(2) show "ring_rep buf' (q @ [x])" "ring_seq buf' = n"
    by (metis k prod.inject)+
  show "n = Suc (ring_seq buf)" using p(3,4) k by simp
qed

lemma ring_write_refused:
  assumes r: "ring_rep buf q" and s: "0 < seq_left buf" and w: "ring_write x buf = (Inl e, buf')"
  shows "buf' = buf"
proof (cases "write_frame x buf")
  case (Inr t)
  then obtain h k buf1 where wf: "write_frame x buf = Inr (h, k, buf1)" by (cases t) auto
  note p = write_frame_pending [OF r wf]
  have "k < 256 ^ 8" using s p(3,4) by (simp add: seq_left_def)
  from publish [OF p(1) this] p(2) obtain buf2 where "update_head h k buf1 = (None, buf2)" by metis
  then show ?thesis using w wf by (simp add: ring_write_def)
qed (use w in \<open>simp add: ring_write_def\<close>)

interpretation ring: fifo ring_rep ring_write ring_read seq_left
proof (unfold_locales, goal_cases)
  case (1 s q x n s')
  from ring_write_ok [OF this] show ?case by (simp add: seq_left_def)
next
  case (2 s q x e s')
  then show ?case by (rule ring_write_refused)
next
  case (3 s)
  then show ?case by (rule ring_read_empty)
next
  case (4 s x q)
  from ring_read_first [OF this] obtain s' where
    "ring_read s = (Inr (Some x), s')" "ring_rep s' q" "ring_seq s' = ring_seq s" by metis
  then show ?case by (auto simp: seq_left_def)
qed

text \<open>A new segment holds no message.\<close>

lemma slice_append: "length xs = a \<Longrightarrow> slice a n (xs @ ys) = take n ys"
  by (simp add: slice_def)

lemma create_ring_ok:
  assumes "0 < capacity" "capacity < 2 ^ 32"
  obtains buf where "create_ring capacity extra = Inr buf" "ring_rep buf []" "ring_capacity buf = capacity"
    "ring_seq buf = 0" "length buf = 32 + capacity + extra" "connect_ring buf = Inr buf"
proof -
  let ?b = "MAGIC @ be_bytes 2 RING_VERSION @ be_bytes 4 capacity @ be_bytes 4 0 @ be_bytes 4 0 @ be_bytes 8 0
    @ replicate 6 0 @ replicate (capacity + extra) 0"
  have m: "length MAGIC = 4" by (simp add: MAGIC_def)
  have cr: "create_ring capacity extra = Inr ?b"
    using assms(2) m by (simp add: create_ring_def init_header_def pack_def assign_def slice_def overwrite_def HEADER_RAW_SIZE_def)
  have f: "slice 0 4 ?b = MAGIC" "slice 4 2 ?b = be_bytes 2 RING_VERSION" "slice 6 4 ?b = be_bytes 4 capacity"
    "slice 10 4 ?b = be_bytes 4 0" "slice 14 4 ?b = be_bytes 4 0" "slice 18 8 ?b = be_bytes 8 0"
    using m by (simp_all add: slice_def)
  have v: "ring_capacity ?b = capacity" "ring_head ?b = 0" "ring_tail ?b = 0" "ring_seq ?b = 0"
    unfolding field_defs f using assms by (simp_all add: be_value_bytes)
  have rep: "ring_rep ?b []"
    using assms m by (simp add: ring_rep_def ring_shape_def used_bytes_def v circ_def)
  have "be_value (be_bytes 2 RING_VERSION) = RING_VERSION" by (rule be_value_bytes) (simp add: RING_VERSION_def)
  then have "connect_ring ?b = Inr ?b" using m unfolding connect_ring_def validate_header_def f by simp
  then show thesis using that [OF cr rep v(1,4)] m by simp
qed

section \<open>What a producer and a consumer see\<close>

text \<open>\<open>k\<close> reads in a row\<close>

fun reads :: "nat \<Rightarrow> byte list \<Rightarrow> byte list option result list \<times> byte list" where
  "reads 0 buf = ([], buf)"
| "reads (Suc k) buf = (let (r, buf1) = ring_read buf; (rs, buf2) = reads k buf1 in (r # rs, buf2))"

lemma reads_pending:
  assumes "pending buf q x"
  shows "\<exists>buf'. reads k buf = (map (Inr \<circ> Some) (take k q) @ replicate (k - length q) (Inr None), buf')
    \<and> pending buf' (drop k q) x \<and> ring_capacity buf' = ring_capacity buf \<and> ring_head buf' = ring_head buf"
  using assms
proof (induction k arbitrary: buf q)
  case (Suc k)
  show ?case
  proof (cases q)
    case Nil
    then have "ring_read buf = (Inr None, buf)" using Suc.prems ring_read_empty by (simp add: pending_def)
    then show ?thesis using Suc.IH [OF Suc.prems] Nil by auto
  next
    case (Cons m q')
    with Suc.prems obtain buf1 where "ring_read buf = (Inr (Some m), buf1)" "pending buf1 q' x"
      "ring_capacity buf1 = ring_capacity buf" "ring_head buf1 = ring_head buf" by (auto elim: pending_read)
    then show ?thesis using Suc.IH [of buf1 q'] Cons by auto
  qed
qed simp

text \<open>
  C29. A new ring of any capacity, and any sequence of fewer than two to the 64 writes and reads on its bytes: what the
  reads deliver is what the accepted writes put in, byte for byte, in order, none twice and none left out, and what is
  not yet delivered is still in the ring.
\<close>

theorem ring_delivers_in_order:
  assumes "0 < capacity" "capacity < 2 ^ 32" "create_ring capacity extra = Inr buf" "length ops < 2 ^ 64"
    and "fifo_run ring_write ring_read ops buf = (accepted, delivered, buf')"
  shows "\<exists>rest. accepted = delivered @ rest \<and> ring_rep buf' rest"
proof -
  obtain b where "create_ring capacity extra = Inr b" "ring_rep b []" "ring_seq b = 0"
    using create_ring_ok [OF assms(1,2)] by metis
  then have "ring_rep buf []" "length ops \<le> seq_left buf" using assms(3,4) by (simp_all add: seq_left_def)
  from ring.delivered_prefix [OF this] show ?thesis by (simp add: assms(5))
qed

definition sample_ring :: "byte list" where
  "sample_ring = (case create_ring 12 0 of Inr b \<Rightarrow> b | Inl _ \<Rightarrow> [])"

definition sample_ops :: "byte list fifo_op list" where
  "sample_ops = [Put [7, 8, 9], Put [1], Get, Put [2, 3, 4], Get, Get, Put [5]]"

definition sample_run :: "byte list list \<times> byte list list \<times> byte list" where
  "sample_run = fifo_run ring_write ring_read sample_ops sample_ring"

lemma sample_ring_created: "create_ring 12 0 = Inr sample_ring"
  by code_simp

lemma ring_delivers_in_order_witness:
  "fst sample_run = [[7, 8, 9], [2, 3, 4], [5]] \<and> fst (snd sample_run) = [[7, 8, 9], [2, 3, 4]]
   \<and> (\<exists>rest. fst sample_run = fst (snd sample_run) @ rest \<and> ring_rep (snd (snd sample_run)) rest)"
proof (intro conjI)
  show "fst sample_run = [[7, 8, 9], [2, 3, 4], [5]]" "fst (snd sample_run) = [[7, 8, 9], [2, 3, 4]]"
    by code_simp+
  have "length sample_ops < 2 ^ 64" by (simp add: sample_ops_def)
  moreover have "fifo_run ring_write ring_read sample_ops sample_ring = (fst sample_run, fst (snd sample_run), snd (snd sample_run))"
    by (simp add: sample_run_def)
  ultimately show "\<exists>rest. fst sample_run = fst (snd sample_run) @ rest \<and> ring_rep (snd (snd sample_run)) rest"
    by (rule ring_delivers_in_order [OF _ _ sample_ring_created, rotated 2]) simp_all
qed

text \<open>
  One producer and one consumer need no lock: the consumer may read any number of messages while a producer has
  copied its frame and not yet moved the head. The consumer sees the messages that were there, never a part of the new
  one, and when the head is moved afterwards the ring holds what is left and the new message.
\<close>

theorem reads_between_the_halves_of_a_write:
  assumes "ring_rep buf q" "ring_seq buf < 2 ^ 64 - 1" "write_frame x buf = Inr (h, n, buf1)"
    and "reads k buf1 = (results, buf2)"
  shows "results = map (Inr \<circ> Some) (take k q) @ replicate (k - length q) (Inr None)
    \<and> (\<exists>buf3. update_head h n buf2 = (None, buf3) \<and> ring_rep buf3 (drop k q @ [x]) \<and> ring_seq buf3 = n)"
proof -
  note p = write_frame_pending [OF assms(1,3)]
  from reads_pending [OF p(1), of k] assms(4) have
    "results = map (Inr \<circ> Some) (take k q) @ replicate (k - length q) (Inr None)"
    and p2: "pending buf2 (drop k q) x" and f: "ring_capacity buf2 = ring_capacity buf1" "ring_head buf2 = ring_head buf1"
    by auto
  moreover have "n < 256 ^ 8" using assms(2) p(3,4) by simp
  from publish [OF p2 this] p(2) f obtain buf3 where
    "update_head h n buf2 = (None, buf3)" "ring_rep buf3 (drop k q @ [x])" "ring_seq buf3 = n" by metis
  ultimately show ?thesis by blast
qed

text \<open>A ring with one message of which the frame of a second one, around the end, is already copied.\<close>

definition sample_half :: "byte list \<times> nat \<times> nat \<times> byte list" where
  "sample_half = (let b = snd (snd (fifo_run ring_write ring_read [Put [1, 2], Get, Put [6]] sample_ring)) in
     case write_frame [] b of Inr t \<Rightarrow> (b, t) | Inl _ \<Rightarrow> (b, 0, 0, []))"

lemma sample_half_facts:
  "ring_rep (fst sample_half) [[6]]" "ring_seq (fst sample_half) < 2 ^ 64 - 1"
  "write_frame [] (fst sample_half) = Inr (snd sample_half)"
  by code_simp+

lemma reads_between_the_halves_of_a_write_witness:
  "ring_rep (fst sample_half) [[6]] \<and>
   (case sample_half of (b, h, n, b1) \<Rightarrow> fst (reads 2 b1) = [Inr (Some [6]), Inr None]
     \<and> (\<exists>buf3. update_head h n (snd (reads 2 b1)) = (None, buf3) \<and> ring_rep buf3 [[]] \<and> ring_seq buf3 = n))"
proof -
  obtain b h n b1 where s: "sample_half = (b, h, n, b1)" by (cases sample_half) auto
  note f = sample_half_facts [unfolded s fst_conv snd_conv]
  obtain rs b2 where d: "reads 2 b1 = (rs, b2)" by force
  from reads_between_the_halves_of_a_write [OF f(1,2,3) d]
  have "rs = [Inr (Some [6]), Inr None]" "\<exists>buf3. update_head h n b2 = (None, buf3) \<and> ring_rep buf3 [[]] \<and> ring_seq buf3 = n"
    by (simp_all add: numeral_2_eq_2)
  then show ?thesis using f(1) by (simp add: s d del: reads.simps)
qed

text \<open>
  What a write answers depends on the sizes alone: a message whose frame does not fit an empty ring is too large,
  one that does not fit the free bytes finds the buffer full, and both leave every byte of the ring alone; any other
  message is accepted and gets the next sequence number.
\<close>

theorem ring_write_answers:
  assumes "ring_rep buf q" "ring_seq buf < 2 ^ 64 - 1"
  shows "if ring_capacity buf \<le> 4 + length x then ring_write x buf = (Inl MessageTooLargeError, buf)
    else if ring_capacity buf \<le> sum_list (map (\<lambda>m. 4 + length m) q) + 4 + length x
      then ring_write x buf = (Inl BufferFullError, buf)
    else \<exists>buf'. ring_write x buf = (Inr (Suc (ring_seq buf)), buf') \<and> ring_rep buf' (q @ [x])"
proof -
  let ?cap = "ring_capacity buf"
  note sh = ring_rep_shape [OF assms(1)]
  note b = ring_shapeD [OF sh]
  have "used_bytes buf = length (concat (map frame q))"
    using assms(1) length_circ [of ?cap "ring_tail buf" "used_bytes buf" buf] by (simp add: ring_rep_def)
  then have us: "used_bytes buf = sum_list (map (\<lambda>m. 4 + length m) q)" by (simp add: length_concat o_def)
  show ?thesis
  proof (cases "used_bytes buf + 4 + length x < ?cap")
    case False
    then show ?thesis
      using b by (auto simp: ring_write_def write_frame_def Let_def available_write_used [OF sh] us)
  next
    case True
    have "length (frame x) \<le> ?cap" "HEADER_SIZE + ?cap \<le> length buf" using True b by auto
    from put_frame_spec [OF b(2) this] obtain buf1 where "put_frame ?cap (ring_head buf) (frame x) buf = Inr buf1" by blast
    then have "write_frame x buf = Inr ((ring_head buf + (4 + length x)) mod ?cap, ring_seq buf + 1, buf1)"
      using True b by (simp add: write_frame_def Let_def available_write_used [OF sh] pack_def frame_def)
    note wf = this and p = write_frame_pending [OF assms(1) this]
    have "ring_seq buf + 1 < 256 ^ 8" using assms(2) by simp
    from publish [OF p(1) this] p(2) obtain buf2 where
      "update_head ((ring_head buf + (4 + length x)) mod ?cap) (ring_seq buf + 1) buf1 = (None, buf2)"
      "ring_rep buf2 (q @ [x])" by metis
    then have "\<exists>buf'. ring_write x buf = (Inr (Suc (ring_seq buf)), buf') \<and> ring_rep buf' (q @ [x])"
      using wf by (simp add: ring_write_def)
    then show ?thesis using True us by simp
  qed
qed

lemma ring_write_answers_witness:
  "ring_write (replicate 8 0) (fst sample_half) = (Inl MessageTooLargeError, fst sample_half)
   \<and> ring_write [1, 2, 3] (fst sample_half) = (Inl BufferFullError, fst sample_half)"
proof (intro conjI)
  have c: "ring_capacity (fst sample_half) = 12" by code_simp
  show "ring_write (replicate 8 0) (fst sample_half) = (Inl MessageTooLargeError, fst sample_half)"
    using ring_write_answers [OF sample_half_facts(1,2), of "replicate 8 0"] c by simp
  show "ring_write [1, 2, 3] (fst sample_half) = (Inl BufferFullError, fst sample_half)"
    using ring_write_answers [OF sample_half_facts(1,2), of "[1, 2, 3]"] c by simp
qed

end
