(* ===== verification/Delta_Patcher.thy ===== *)
theory Delta_Patcher
  imports Prelude "HOL-Library.Word" "HOL-Library.AList" "HOL-Library.Code_Target_Nat"
begin

text \<open>
  The artifact delta patcher (courier\_core/delta\_patcher.py): a patch is a list of copies from the base
  file and inserted bytes in base64. Files are a map from paths to bytes, SHA-256 is the parameter \<open>H\<close>. The
  patch that \<open>create_patch\<close> computes turns the base into the target, and \<open>apply_patch\<close> writes nothing that
  does not have the recorded hash.
\<close>

section \<open>Base64\<close>

type_synonym bytes = "8 word list"

definition b64_alphabet :: string where
  "b64_alphabet = ''ABCDEFGHIJKLMNOPQRSTUVWXYZabcdefghijklmnopqrstuvwxyz0123456789+/''"

definition b64_char :: "nat \<Rightarrow> char" where
  "b64_char v = b64_alphabet ! v"

fun b64_encode :: "bytes \<Rightarrow> string" where
  "b64_encode [] = []"
| "b64_encode [a] = [b64_char (unat a div 4), b64_char (unat a mod 4 * 16), CHR ''='', CHR ''='']"
| "b64_encode [a, b] = [b64_char (unat a div 4), b64_char (unat a mod 4 * 16 + unat b div 16),
     b64_char (unat b mod 16 * 4), CHR ''='']"
| "b64_encode (a # b # c # bs) = b64_char (unat a div 4) # b64_char (unat a mod 4 * 16 + unat b div 16)
     # b64_char (unat b mod 16 * 4 + unat c div 64) # b64_char (unat c mod 64) # b64_encode bs"

text \<open>The value of a character of the alphabet.\<close>

fun position :: "'a \<Rightarrow> 'a list \<Rightarrow> nat option" where
  "position x [] = None"
| "position x (y # ys) = (if x = y then Some 0 else map_option Suc (position x ys))"

text \<open>
  The lenient decoder of \<open>binascii\<close>: \<open>quad\<close> counts the characters of the current group of four, \<open>left\<close> holds the
  bits not yet written, \<open>pads\<close> the equals signs since the last data character. Characters outside the
  alphabet are skipped; a complete padding ends the data.
\<close>

fun b64_scan :: "nat \<Rightarrow> nat \<Rightarrow> nat \<Rightarrow> bytes \<Rightarrow> string \<Rightarrow> bytes result" where
  "b64_scan quad left pads out [] =
     (if quad = 0 then Inr out
      else if quad = 1 then Inl (BinasciiError ''number of data characters cannot be 1 more than a multiple of 4'')
      else Inl (BinasciiError ''Incorrect padding''))"
| "b64_scan quad left pads out (c # cs) =
     (if c = CHR ''='' then
        (if 2 \<le> quad \<and> 4 \<le> quad + Suc pads then Inr out
         else b64_scan quad left (if 2 \<le> quad then Suc pads else pads) out cs)
      else case position c b64_alphabet of
        None \<Rightarrow> b64_scan quad left pads out cs
      | Some v \<Rightarrow>
          if quad = 0 then b64_scan 1 v 0 out cs
          else if quad = 1 then b64_scan 2 (v mod 16) 0 (out @ [word_of_nat (left * 4 + v div 16)]) cs
          else if quad = 2 then b64_scan 3 (v mod 4) 0 (out @ [word_of_nat (left * 16 + v div 4)]) cs
          else b64_scan 0 0 0 (out @ [word_of_nat (left * 64 + v)]) cs)"

definition b64_decode :: "string \<Rightarrow> bytes result" where
  "b64_decode s = (if list_all (\<lambda>c. char_code c < 128) s then b64_scan 0 0 0 [] s
     else Inl (ValueError ''string argument should contain only ASCII characters''))"

lemma length_b64_alphabet: "length b64_alphabet = 64"
  by (simp add: b64_alphabet_def)

lemma distinct_b64_alphabet: "distinct b64_alphabet"
  by (simp add: b64_alphabet_def)

lemma position_nth: "distinct xs \<Longrightarrow> i < length xs \<Longrightarrow> position (xs ! i) xs = Some i"
  by (induction xs arbitrary: i) (auto simp: nth_Cons split: nat.splits)

lemma b64_char_facts:
  assumes "v < 64"
  shows "position (b64_char v) b64_alphabet = Some v" "b64_char v \<noteq> CHR ''=''" "char_code (b64_char v) < 128"
proof -
  show "position (b64_char v) b64_alphabet = Some v"
    using assms by (simp add: b64_char_def position_nth distinct_b64_alphabet length_b64_alphabet)
  have "b64_char v \<in> set b64_alphabet" using assms by (simp add: b64_char_def length_b64_alphabet)
  moreover have "list_all (\<lambda>c. c \<noteq> CHR ''='' \<and> char_code c < 128) b64_alphabet" by code_simp
  ultimately show "b64_char v \<noteq> CHR ''=''" "char_code (b64_char v) < 128" by (auto simp: list_all_iff)
qed

lemma unat_byte: "unat (a :: 8 word) < 256"
  using unsigned_less [of a] by simp

text \<open>Three bytes and the four groups of six bits they are cut into.\<close>

lemma byte_groups:
  fixes a b c :: nat
  assumes "a < 256" "b < 256" "c < 256"
  shows "a div 4 < 64" "a mod 4 * 16 + b div 16 < 64" "b mod 16 * 4 + c div 64 < 64" "c mod 64 < 64"
    "a div 4 * 4 + (a mod 4 * 16 + b div 16) div 16 = a"
    "(a mod 4 * 16 + b div 16) mod 16 * 16 + (b mod 16 * 4 + c div 64) div 4 = b"
    "(b mod 16 * 4 + c div 64) mod 4 * 64 + c mod 64 = c"
proof -
  have h: "b div 16 < 16" "c div 64 < 4" "a mod 4 < 4" "b mod 16 < 16" using assms by (simp_all add: less_mult_imp_div_less)
  show "a div 4 < 64" using assms by (simp add: less_mult_imp_div_less)
  show "a mod 4 * 16 + b div 16 < 64" "b mod 16 * 4 + c div 64 < 64" using h by linarith+
  show "c mod 64 < 64" by simp
  show "a div 4 * 4 + (a mod 4 * 16 + b div 16) div 16 = a"
    "(a mod 4 * 16 + b div 16) mod 16 * 16 + (b mod 16 * 4 + c div 64) div 4 = b"
    "(b mod 16 * 4 + c div 64) mod 4 * 64 + c mod 64 = c" using h by simp_all
qed

lemma word_of_unat: "n = unat a \<Longrightarrow> word_of_nat n = (a :: 8 word)"
  by simp

lemma b64_scan_group:
  assumes "v0 < 64" "v1 < 64" "v2 < 64" "v3 < 64"
    and "v0 * 4 + v1 div 16 = unat a" "v1 mod 16 * 16 + v2 div 4 = unat b" "v2 mod 4 * 64 + v3 = unat c"
  shows "b64_scan 0 0 0 out (b64_char v0 # b64_char v1 # b64_char v2 # b64_char v3 # cs) = b64_scan 0 0 0 (out @ [a, b, c]) cs"
    "b64_scan 0 0 0 out [b64_char v0, b64_char v1, b64_char v2, CHR ''=''] = Inr (out @ [a, b])"
    "b64_scan 0 0 0 out [b64_char v0, b64_char v1, CHR ''='', CHR ''=''] = Inr (out @ [a])"
  using assms(1-4) assms(5-7) [THEN word_of_unat]
  by (simp_all add: b64_char_facts del: of_nat_add of_nat_mult)

lemma b64_scan_encode: "b64_scan 0 0 0 out (b64_encode bs) = Inr (out @ bs)"
proof (induction bs arbitrary: out rule: b64_encode.induct)
  case (2 a)
  note g = byte_groups [of "unat a" "unat (0 :: 8 word)" "unat (0 :: 8 word)", OF unat_byte unat_byte unat_byte]
  show ?case using b64_scan_group(3) [OF g(1-7)] by simp
next
  case (3 a b)
  note g = byte_groups [of "unat a" "unat b" "unat (0 :: 8 word)", OF unat_byte unat_byte unat_byte]
  show ?case using b64_scan_group(2) [OF g(1-7)] by simp
next
  case (4 a b c bs)
  note g = byte_groups [of "unat a" "unat b" "unat c", OF unat_byte unat_byte unat_byte]
  show ?case using 4 b64_scan_group(1) [OF g(1-7)] by simp
qed simp

lemma b64_encode_ascii: "list_all (\<lambda>c. char_code c < 128) (b64_encode bs)"
proof -
  have pad: "char_code (CHR ''='') < 128" by code_simp
  show ?thesis
  proof (induction bs rule: b64_encode.induct)
    case (2 a)
    note g = byte_groups [of "unat a" 0 0]
    show ?case using g unat_byte [of a] pad by (simp add: b64_char_facts(3))
  next
    case (3 a b)
    note g = byte_groups [of "unat a" "unat b" 0]
    show ?case using g unat_byte [of a] unat_byte [of b] pad by (simp add: b64_char_facts(3))
  next
    case (4 a b c bs)
    note g = byte_groups [of "unat a" "unat b" "unat c", OF unat_byte unat_byte unat_byte]
    show ?case using 4 by (simp add: b64_char_facts(3) g)
  qed simp
qed

lemma b64_decode_encode [simp]: "b64_decode (b64_encode bs) = Inr bs"
  by (simp add: b64_decode_def b64_encode_ascii b64_scan_encode)

section \<open>Patches\<close>

text \<open>\<open>xs[a:b]\<close>\<close>

definition slice_index :: "int \<Rightarrow> nat \<Rightarrow> nat" where
  "slice_index k n = nat (if k < 0 then max 0 (k + int n) else min k (int n))"

definition py_slice :: "int \<Rightarrow> int \<Rightarrow> 'a list \<Rightarrow> 'a list" where
  "py_slice a b xs = take (slice_index b (length xs) - slice_index a (length xs)) (drop (slice_index a (length xs)) xs)"

datatype patch_op = COPY (op_offset: int) (op_length: int) | INSERT (op_data_b64: string) | OTHER_OP string

record delta_patch =
  dp_base_sha256 :: string
  dp_base_size :: nat
  dp_target_sha256 :: string
  dp_target_size :: nat
  dp_chunk_size :: int
  dp_operations :: "patch_op list"

definition new_patcher :: "int \<Rightarrow> int" where
  "new_patcher chunk_size = max 8 chunk_size"

text \<open>The index of the chunks of the base: the first offset of each, in steps of half a chunk.\<close>

definition chunk_starts :: "int \<Rightarrow> nat \<Rightarrow> int list" where
  "chunk_starts cs n = filter (\<lambda>i. i mod max 1 (cs div 2) = 0) [0..int n - cs]"

definition add_chunk :: "int \<Rightarrow> bytes \<Rightarrow> (bytes \<times> int) list \<Rightarrow> int \<Rightarrow> (bytes \<times> int) list" where
  "add_chunk cs base index i = (let chunk = py_slice i (i + cs) base in
     if map_of index chunk = None then AList.update chunk i index else index)"

definition chunk_index :: "int \<Rightarrow> bytes \<Rightarrow> (bytes \<times> int) list" where
  "chunk_index cs base = (if cs \<le> int (length base) then foldl (add_chunk cs base) [] (chunk_starts cs (length base)) else [])"

definition flush_insert :: "bytes \<Rightarrow> patch_op list \<Rightarrow> patch_op list" where
  "flush_insert pending ops = (if pending = [] then ops else ops @ [INSERT (b64_encode pending)])"

function extend_match :: "bytes \<Rightarrow> bytes \<Rightarrow> nat \<Rightarrow> nat \<Rightarrow> nat \<Rightarrow> nat" where
  "extend_match base target off pos m =
     (if pos + m < length target \<and> off + m < length base \<and> target ! (pos + m) = base ! (off + m)
      then extend_match base target off pos (Suc m) else m)"
  by pat_completeness auto
termination by (relation "measure (\<lambda>(base, target, off, pos, m). length target - (pos + m))") auto

declare extend_match.simps [simp del]

text \<open>The loop over the target. It need not end, so that not returning is the value \<open>None\<close>.\<close>

partial_function (option) diff_loop ::
  "int \<Rightarrow> bytes \<Rightarrow> bytes \<Rightarrow> (bytes \<times> int) list \<Rightarrow> nat \<Rightarrow> bytes \<Rightarrow> patch_op list \<Rightarrow> patch_op list option" where
  "diff_loop cs base target index pos pending ops =
     (if length target \<le> pos then Some (flush_insert pending ops)
      else let block = py_slice (int pos) (int pos + cs) target in
        case (if int (length block) = cs then map_of index block else None) of
          Some off \<Rightarrow> (let m = extend_match base target (nat off) pos (nat cs) in
            diff_loop cs base target index (pos + m) [] (flush_insert pending ops @ [COPY off (int m)]))
        | None \<Rightarrow> diff_loop cs base target index (Suc pos) (pending @ [target ! pos]) ops)"

declare diff_loop.simps [code]

type_synonym files = "string \<rightharpoonup> bytes"

definition create_patch :: "int \<Rightarrow> (bytes \<Rightarrow> string) \<Rightarrow> files \<Rightarrow> string \<Rightarrow> string \<Rightarrow> delta_patch result option" where
  "create_patch cs H fs base_file target_file = (case fs base_file of
     None \<Rightarrow> Some (Inl (FileNotFoundError ''Base file not found''))
   | Some base \<Rightarrow> (case fs target_file of
       None \<Rightarrow> Some (Inl (FileNotFoundError ''Target file not found''))
     | Some target \<Rightarrow> map_option
         (\<lambda>ops. Inr \<lparr>dp_base_sha256 = H base, dp_base_size = length base, dp_target_sha256 = H target,
            dp_target_size = length target, dp_chunk_size = cs, dp_operations = ops\<rparr>)
         (if base = target then Some (if 0 < length base then [COPY 0 (int (length base))] else [])
          else diff_loop cs base target (chunk_index cs base) 0 [] [])))"

text \<open>Applying a patch: the bytes go to a temporary file, which replaces the target when its hash is the recorded one.\<close>

fun run_op :: "bytes \<Rightarrow> patch_op \<Rightarrow> bytes result" where
  "run_op base (COPY off len) = Inr (py_slice off (off + len) base)"
| "run_op base (INSERT s) = b64_decode s"
| "run_op base (OTHER_OP t) = Inl (InvalidPatchError ''Unsupported patch operation'')"

fun run_ops :: "bytes \<Rightarrow> patch_op list \<Rightarrow> bytes result" where
  "run_ops base [] = Inr []"
| "run_ops base (op # ops) = bind_result (run_op base op) (\<lambda>d. bind_result (run_ops base ops) (\<lambda>r. Inr (d @ r)))"

definition apply_patch :: "(bytes \<Rightarrow> string) \<Rightarrow> files \<Rightarrow> string \<Rightarrow> delta_patch \<Rightarrow> string \<Rightarrow> string result \<times> files" where
  "apply_patch H fs base_file patch target_file = (case fs base_file of
     None \<Rightarrow> (Inl (FileNotFoundError ''Base file not found''), fs)
   | Some base \<Rightarrow>
       if H base \<noteq> dp_base_sha256 patch then (Inl (BaseFileMismatchError ''Base file mismatch''), fs)
       else (case run_ops base (dp_operations patch) of
         Inl e \<Rightarrow> (Inl e, fs)
       | Inr data \<Rightarrow>
           if H data \<noteq> dp_target_sha256 patch then (Inl (TargetCorruptError ''Reconstructed target mismatch''), fs)
           else (Inr target_file, fs(target_file \<mapsto> data))))"

section \<open>The loop computes the target\<close>

lemma run_ops_append: "run_ops base (xs @ ys) = bind_result (run_ops base xs) (\<lambda>a. bind_result (run_ops base ys) (\<lambda>b. Inr (a @ b)))"
  by (induction xs) (simp_all add: bind_result_assoc bind_result_right)

lemma py_slice_inside: "0 \<le> a \<Longrightarrow> 0 \<le> l \<Longrightarrow> a + l \<le> int (length xs) \<Longrightarrow> py_slice a (a + l) xs = take (nat l) (drop (nat a) xs)"
  by (simp add: py_slice_def slice_index_def nat_add_distrib)

lemma py_slice_block:
  assumes "0 < cs" "int (length (py_slice (int pos) (int pos + cs) xs)) = cs"
  shows "int pos + cs \<le> int (length xs)"
  using assms by (auto simp: py_slice_def slice_index_def split: if_splits)

text \<open>An entry of the index is a chunk of the base.\<close>

definition index_ok :: "int \<Rightarrow> bytes \<Rightarrow> (bytes \<times> int) list \<Rightarrow> bool" where
  "index_ok cs base index \<longleftrightarrow> (\<forall>chunk off. map_of index chunk = Some off \<longrightarrow>
     0 \<le> off \<and> off + cs \<le> int (length base) \<and> chunk = py_slice off (off + cs) base)"

lemma index_ok_add:
  assumes "index_ok cs base index" "0 \<le> i" "i + cs \<le> int (length base)"
  shows "index_ok cs base (add_chunk cs base index i)"
  using assms by (auto simp: index_ok_def add_chunk_def Let_def update_conv' split: if_splits)

lemma index_ok_chunks: "index_ok cs base (chunk_index cs base)"
proof -
  have "index_ok cs base (foldl (add_chunk cs base) index is)"
    if "index_ok cs base index" "\<forall>i \<in> set is. 0 \<le> i \<and> i + cs \<le> int (length base)" for index "is"
    using that by (induction "is" arbitrary: index) (auto intro: index_ok_add)
  then show ?thesis by (auto simp: chunk_index_def chunk_starts_def index_ok_def [of _ _ "[]"])
qed

lemma extend_match_ok:
  assumes "pos + m \<le> length target" "off + m \<le> length base" "take m (drop pos target) = take m (drop off base)"
  shows "m \<le> extend_match base target off pos m" "pos + extend_match base target off pos m \<le> length target"
    "off + extend_match base target off pos m \<le> length base"
    "take (extend_match base target off pos m) (drop pos target) = take (extend_match base target off pos m) (drop off base)"
proof -
  have "let k = extend_match base target off pos m in m \<le> k \<and> pos + k \<le> length target \<and> off + k \<le> length base
      \<and> take k (drop pos target) = take k (drop off base)"
    using assms
  proof (induction base target off pos m rule: extend_match.induct)
    case (1 base target off pos m)
    show ?case
    proof (cases "pos + m < length target \<and> off + m < length base \<and> target ! (pos + m) = base ! (off + m)")
      case True
      then have b: "m < length (drop pos target)" "m < length (drop off base)" by auto
      have "take (Suc m) (drop pos target) = take (Suc m) (drop off base)"
        using 1(4) True by (simp only: take_Suc_conv_app_nth [OF b(1)] take_Suc_conv_app_nth [OF b(2)]) (use b in simp)
      then show ?thesis using 1(1) [OF True] True by (subst extend_match.simps) (simp add: Let_def)
    next
      case False
      then show ?thesis using 1 by (subst extend_match.simps) (auto simp: Let_def)
    qed
  qed
  then show "m \<le> extend_match base target off pos m" "pos + extend_match base target off pos m \<le> length target"
    "off + extend_match base target off pos m \<le> length base"
    "take (extend_match base target off pos m) (drop pos target) = take (extend_match base target off pos m) (drop off base)"
    by (simp_all add: Let_def)
qed

text \<open>With chunks of at least one byte the loop returns, and its operations rebuild the target.\<close>

lemma diff_loop_ok:
  assumes cs: "0 < cs" and idx: "index_ok cs base index"
  shows "pos \<le> length target \<Longrightarrow> run_ops base (flush_insert pending ops) = Inr (take pos target) \<Longrightarrow>
    \<exists>ops'. diff_loop cs base target index pos pending ops = Some ops' \<and> run_ops base ops' = Inr target"
proof (induction "length target - pos" arbitrary: pos pending ops rule: less_induct)
  case less
  show ?case
  proof (cases "length target \<le> pos")
    case True
    then show ?thesis using less.prems by (subst diff_loop.simps) simp
  next
    case False
    define block where "block = py_slice (int pos) (int pos + cs) target"
    define hit where "hit = (if int (length block) = cs then map_of index block else None)"
    show ?thesis
    proof (cases hit)
      case None
      have "run_ops base (flush_insert (pending @ [target ! pos]) ops) = Inr (take (Suc pos) target)"
        using less.prems(2) False
        by (auto simp: flush_insert_def run_ops_append bind_result_eq_Inr take_Suc_conv_app_nth split: if_splits)
      then obtain ops' where "diff_loop cs base target index (Suc pos) (pending @ [target ! pos]) ops = Some ops'"
        "run_ops base ops' = Inr target"
        using less.hyps [of "Suc pos" "pending @ [target ! pos]" ops] False diff_less_mono2 [of pos "Suc pos" "length target"]
        by (metis Suc_leI lessI not_le)
      then show ?thesis using False None
        by (subst diff_loop.simps) (simp add: Let_def block_def [symmetric] hit_def [symmetric])
    next
      case (Some off)
      then have len: "int (length block) = cs" and off: "map_of index block = Some off"
        by (auto simp: hit_def split: if_splits)
      from idx off have o: "0 \<le> off" "off + cs \<le> int (length base)" "block = py_slice off (off + cs) base"
        by (auto simp: index_ok_def)
      have in_t: "int pos + cs \<le> int (length target)" using py_slice_block [OF cs] len by (simp add: block_def)
      have eq: "take (nat cs) (drop pos target) = take (nat cs) (drop (nat off) base)"
        using py_slice_inside [of "int pos" cs target] py_slice_inside [of off cs base] cs in_t o by (simp add: block_def)
      define m where "m = extend_match base target (nat off) pos (nat cs)"
      have "pos + nat cs \<le> length target" "nat off + nat cs \<le> length base" using in_t o cs by linarith+
      note x = extend_match_ok [OF this eq, folded m_def]
      have mpos: "0 < m" using x(1) cs by simp
      have "py_slice off (off + int m) base = take m (drop (nat off) base)"
        using x(3) o(1) by (subst py_slice_inside) simp_all
      then have "run_ops base (flush_insert [] (flush_insert pending ops @ [COPY off (int m)])) = Inr (take (pos + m) target)"
        using less.prems(2) x(4) by (simp add: flush_insert_def [of "[]"] run_ops_append take_add)
      moreover have smaller: "length target - (pos + m) < length target - pos" using False mpos by simp
      ultimately obtain ops' where
        "diff_loop cs base target index (pos + m) [] (flush_insert pending ops @ [COPY off (int m)]) = Some ops'"
        "run_ops base ops' = Inr target"
        using less.hyps [of "pos + m" "[]" "flush_insert pending ops @ [COPY off (int m)]"] smaller x(2) by blast
      then show ?thesis using False Some
        by (subst diff_loop.simps) (simp add: Let_def block_def [symmetric] hit_def [symmetric] m_def [symmetric])
    qed
  qed
qed


section \<open>What patches promise\<close>

lemma create_patch_ok:
  assumes "0 < cs" "fs base_file = Some base" "fs target_file = Some target"
  obtains patch where "create_patch cs H fs base_file target_file = Some (Inr patch)" "dp_base_sha256 patch = H base"
    "dp_target_sha256 patch = H target" "run_ops base (dp_operations patch) = Inr target"
proof -
  obtain ops where ops: "(if base = target then Some (if 0 < length base then [COPY 0 (int (length base))] else [])
      else diff_loop cs base target (chunk_index cs base) 0 [] []) = Some ops" "run_ops base ops = Inr target"
  proof (cases "base = target")
    case True
    then show thesis
      by (intro that [of "if 0 < length base then [COPY 0 (int (length base))] else []"])
        (simp_all add: py_slice_def slice_index_def)
  next
    case False
    have "run_ops base (flush_insert [] []) = Inr (take 0 target)" by (simp add: flush_insert_def)
    from diff_loop_ok [OF assms(1) index_ok_chunks _ this] show thesis using False that by auto
  qed
  then show thesis using assms(2,3) that by (simp add: create_patch_def)
qed

text \<open>
  C30. Round trip: for a chunk size of at least one byte, \<open>create_patch\<close> on two existing files returns a patch, and
  applying that patch to the base file, under whatever path it is then stored, writes exactly the bytes of the
  target file and changes no other file.
\<close>

theorem delta_roundtrip:
  assumes "0 < cs" "fs base_file = Some base" "fs target_file = Some target" "fs' base_copy = Some base"
  shows "\<exists>patch. create_patch cs H fs base_file target_file = Some (Inr patch)
    \<and> apply_patch H fs' base_copy patch out = (Inr out, fs'(out \<mapsto> target))"
proof -
  obtain patch where "create_patch cs H fs base_file target_file = Some (Inr patch)" "dp_base_sha256 patch = H base"
    "dp_target_sha256 patch = H target" "run_ops base (dp_operations patch) = Inr target"
    using create_patch_ok [OF assms(1-3), of H] .
  then show ?thesis using assms(4) by (simp add: apply_patch_def)
qed

text \<open>
  A patch never corrupts a file: applied to any file, it is refused without a change to any file, or it writes
  exactly the bytes of the original target, or the two files it tells apart by SHA-256 collide.
\<close>

theorem patch_never_corrupts:
  assumes "0 < cs" "fs base_file = Some base" "fs target_file = Some target"
    and "create_patch cs H fs base_file target_file = Some (Inr patch)"
    and "apply_patch H fs' some_file patch out = (r, fs'')"
  shows "(\<exists>e. r = Inl e) \<and> fs'' = fs' \<or> r = Inr out \<and> fs'' = fs'(out \<mapsto> target)
    \<or> (\<exists>other. fs' some_file = Some other \<and> other \<noteq> base \<and> H other = H base)"
proof -
  obtain p' where "create_patch cs H fs base_file target_file = Some (Inr p')" "dp_base_sha256 p' = H base"
    "dp_target_sha256 p' = H target" "run_ops base (dp_operations p') = Inr target"
    using create_patch_ok [OF assms(1-3), of H] .
  with assms(4) have p: "dp_base_sha256 patch = H base"
    "dp_target_sha256 patch = H target" "run_ops base (dp_operations patch) = Inr target" by simp_all
  show ?thesis
  proof (cases "fs' some_file = Some base")
    case True
    then show ?thesis using assms(5) p by (simp add: apply_patch_def)
  next
    case False
    then show ?thesis using assms(5) p(1) by (auto simp: apply_patch_def split: option.splits if_splits sum.splits)
  qed
qed

text \<open>A chunk size of zero, which the command line passes on unchecked: the loop need not end.\<close>

lemma zero_index: "map_of (chunk_index 0 base) [] = Some 0"
proof -
  have keep: "map_of (foldl (add_chunk 0 base) index is) [] = Some 0" if "map_of index [] = Some 0" for index "is"
    using that by (induction "is" arbitrary: index) (auto simp: add_chunk_def Let_def update_conv')
  have "[0..int (length base)] = 0 # [1..int (length base)]" by (simp add: upto_rec1)
  moreover have "py_slice 0 0 base = []" by (simp add: py_slice_def slice_index_def)
  ultimately show ?thesis
    by (simp add: chunk_index_def chunk_starts_def add_chunk_def [of 0 base "[]" 0] keep)
qed

lemma diff_loop_stuck:
  "diff_loop cs base target index pos pending ops = Some ops' \<Longrightarrow>
   \<not> (cs = 0 \<and> pos = 0 \<and> map_of index [] = Some 0 \<and> target \<noteq> [] \<and> base \<noteq> [] \<and> hd base \<noteq> hd target)"
proof (rule diff_loop.raw_induct [where P = "\<lambda>cs base target index pos pending ops ops'.
    \<not> (cs = 0 \<and> pos = 0 \<and> map_of index [] = Some 0 \<and> target \<noteq> [] \<and> base \<noteq> [] \<and> hd base \<noteq> hd target)", rotated], assumption)
  fix loop cs base target index pos pending ops ops'
  assume IH: "\<And>cs base target index pos pending ops ops'. loop cs base target index pos pending ops = Some ops' \<Longrightarrow>
      \<not> (cs = (0::int) \<and> pos = (0::nat) \<and> map_of index [] = Some (0::int) \<and> target \<noteq> [] \<and> base \<noteq> ([]::bytes) \<and> hd base \<noteq> hd target)"
    and body: "(if length target \<le> pos then Some (flush_insert pending ops)
      else let block = py_slice (int pos) (int pos + cs) target in
        case (if int (length block) = cs then map_of index block else None) of
          Some off \<Rightarrow> (let m = extend_match base target (nat off) pos (nat cs) in
            loop cs base target index (pos + m) [] (flush_insert pending ops @ [COPY off (int m)]))
        | None \<Rightarrow> loop cs base target index (Suc pos) (pending @ [target ! pos]) ops) = Some ops'"
  show "\<not> (cs = 0 \<and> pos = 0 \<and> map_of index [] = Some 0 \<and> target \<noteq> [] \<and> base \<noteq> [] \<and> hd base \<noteq> hd target)"
  proof
    assume a: "cs = 0 \<and> pos = 0 \<and> map_of index [] = Some 0 \<and> target \<noteq> [] \<and> base \<noteq> [] \<and> hd base \<noteq> hd target"
    have "py_slice 0 0 target = []" by (simp add: py_slice_def slice_index_def)
    moreover have "extend_match base target 0 0 0 = 0"
      using a by (subst extend_match.simps) (auto simp: hd_conv_nth)
    ultimately have "loop 0 base target index 0 [] (flush_insert pending ops @ [COPY 0 0]) = Some ops'"
      using body a by (simp add: Let_def)
    from IH [OF this] a show False by simp
  qed
qed

theorem zero_chunk_size_never_returns:
  assumes "fs base_file = Some (b # base)" "fs target_file = Some (t # target)" "b \<noteq> t"
  shows "create_patch 0 H fs base_file target_file = None"
proof -
  have "diff_loop 0 (b # base) (t # target) (chunk_index 0 (b # base)) 0 [] [] = None"
    using diff_loop_stuck [of 0 "b # base" "t # target" "chunk_index 0 (b # base)" 0 "[]" "[]"] zero_index [of "b # base"] assms(3)
    by fastforce
  then show ?thesis using assms by (simp add: create_patch_def)
qed

text \<open>A patch with a copy that is longer than a chunk and an insertion.\<close>

definition sample_base :: bytes where "sample_base = [1, 2, 3, 4, 5, 6, 7, 8, 9, 10, 11, 12, 13, 14]"
definition sample_target :: bytes where "sample_target = [99, 98, 1, 2, 3, 4, 5, 6, 7, 8, 9, 10, 97]"
definition sample_files :: files where "sample_files = [''old'' \<mapsto> sample_base, ''new'' \<mapsto> sample_target]"

lemma sample_patch:
  "case create_patch (new_patcher 4) (\<lambda>bs. ''h'') sample_files ''old'' ''new'' of
     Some (Inr p) \<Rightarrow> dp_operations p = [INSERT ''Y2I='', COPY 0 10, INSERT ''YQ=='']
   | _ \<Rightarrow> False"
  by code_simp

lemma delta_roundtrip_witness:
  "\<exists>patch. create_patch (new_patcher 4) (\<lambda>bs. ''h'') sample_files ''old'' ''new'' = Some (Inr patch)
    \<and> apply_patch (\<lambda>bs. ''h'') [''copy'' \<mapsto> sample_base] ''copy'' patch ''out''
      = (Inr ''out'', [''copy'' \<mapsto> sample_base, ''out'' \<mapsto> sample_target])"
  using delta_roundtrip [of "new_patcher 4" sample_files "''old''" sample_base "''new''" sample_target
      "[''copy'' \<mapsto> sample_base]" "''copy''" "\<lambda>bs. ''h''" "''out''"]
  by (simp add: new_patcher_def sample_files_def)

definition count_hash :: "bytes \<Rightarrow> string" where
  "count_hash bs = replicate (length bs) CHR ''x''"

definition sample_delta :: delta_patch where
  "sample_delta = (case create_patch 8 count_hash sample_files ''old'' ''new'' of Some (Inr p) \<Rightarrow> p)"

lemma patch_never_corrupts_witness:
  "apply_patch count_hash [''f'' \<mapsto> [1, 2, 3]] ''f'' sample_delta ''out'' = (Inl (BaseFileMismatchError ''Base file mismatch''), [''f'' \<mapsto> [1, 2, 3]])
   \<and> apply_patch count_hash [''f'' \<mapsto> sample_base] ''f'' sample_delta ''out'' = (Inr ''out'', [''f'' \<mapsto> sample_base, ''out'' \<mapsto> sample_target])"
proof -
  have f: "sample_files ''old'' = Some sample_base" "sample_files ''new'' = Some sample_target" by (simp_all add: sample_files_def)
  have "0 < (8 :: int)" by simp
  obtain p where p: "create_patch 8 count_hash sample_files ''old'' ''new'' = Some (Inr p)"
    "dp_base_sha256 p = count_hash sample_base" "dp_target_sha256 p = count_hash sample_target"
    "run_ops sample_base (dp_operations p) = Inr sample_target"
    using create_patch_ok [OF \<open>0 < 8\<close> f, of count_hash] .
  then have s: "sample_delta = p" by (simp add: sample_delta_def)
  have "apply_patch count_hash [''f'' \<mapsto> sample_base] ''f'' p ''out'' = (Inr ''out'', [''f'' \<mapsto> sample_base, ''out'' \<mapsto> sample_target])"
    using patch_never_corrupts [OF _ f p(1), of "[''f'' \<mapsto> sample_base]" "''f''" "''out''"] p by (simp add: apply_patch_def)
  moreover have "count_hash [1, 2, 3] \<noteq> count_hash sample_base" by (simp add: count_hash_def sample_base_def)
  ultimately show ?thesis using p(2) by (simp add: s apply_patch_def)
qed

end
