(* ===== verification/Json_Spaced.thy ===== *)
theory Json_Spaced
  imports Ledger_Text
begin

text \<open>
  The two ASCII encodings of \<open>json.dumps\<close> read back: with the default separators, as the worker writes its
  files and requests (courier\_worker/host.py, adapter\_bridge.py, service.py), and with compact ones, as
  the controller's front end answers (courier\_core/serve.py). \<open>json.loads\<close> reads such a text as the value
  that was printed, and the text is ASCII without control characters.
\<close>

section \<open>Printing and reading back\<close>

text \<open>A printer with any white space \<open>g\<close> after commas and colons; both printers are instances.\<close>

fun dumps_gap :: "string \<Rightarrow> json \<Rightarrow> string" and gap_elems :: "string \<Rightarrow> json list \<Rightarrow> string"
  and gap_members :: "string \<Rightarrow> payload \<Rightarrow> string" where
  "dumps_gap g JNull = ''null''"
| "dumps_gap g (JBool b) = (if b then ''true'' else ''false'')"
| "dumps_gap g (JInt i) = show_int i"
| "dumps_gap g (JFloat t) = t"
| "dumps_gap g JNaN = ''NaN''"
| "dumps_gap g (JStr s) = ascii_quote s"
| "dumps_gap g (JList xs) = CHR ''['' # gap_elems g xs @ '']''"
| "dumps_gap g (JObj kvs) = CHR ''{'' # gap_members g kvs @ ''}''"
| "gap_elems g [] = []"
| "gap_elems g [x] = dumps_gap g x"
| "gap_elems g (x # y # xs) = dumps_gap g x @ CHR '','' # g @ gap_elems g (y # xs)"
| "gap_members g [] = []"
| "gap_members g [(k, v)] = ascii_quote k @ CHR '':'' # g @ dumps_gap g v"
| "gap_members g ((k, v) # m # ms) = ascii_quote k @ CHR '':'' # g @ dumps_gap g v @ CHR '','' # g @ gap_members g (m # ms)"

lemma skip_gap [simp]: "list_all is_ws g \<Longrightarrow> skip_ws (g @ s) = skip_ws s"
  by (induction g) (simp_all add: skip_ws_def)

lemma starts_value_gap: "wf_json v \<Longrightarrow> starts_value (dumps_gap g v)"
proof (cases v)
  case (JInt i)
  then show ?thesis
    using parse_number_head [OF parse_number_show_int [of i]] by (auto simp: starts_value_def)
next
  case (JFloat t)
  moreover assume "wf_json v"
  ultimately have "parse_number t = Some (JFloat t, [])" by (simp add: float_text_def)
  from parse_number_head [OF this] JFloat show ?thesis by (auto simp: starts_value_def)
qed (auto simp: starts_value_def ascii_quote_def is_ws_def char_code_def)

lemma starts_value_gap_elems: "xs \<noteq> [] \<Longrightarrow> wf_list xs \<Longrightarrow> starts_value (gap_elems g xs)"
proof -
  assume "xs \<noteq> []" "wf_list xs"
  then obtain x ys where xs: "xs = x # ys" and x: "starts_value (dumps_gap g x)"
    by (cases xs) (auto simp: starts_value_gap)
  then show ?thesis by (cases ys) (auto simp: starts_value_def)
qed

lemma starts_value_gap_members: "kvs \<noteq> [] \<Longrightarrow> starts_value (gap_members g kvs)"
  by (cases "(g, kvs)" rule: gap_members.cases) (auto simp: starts_value_def ascii_quote_def)

lemma length_gap_pos: "wf_json v \<Longrightarrow> 0 < length (dumps_gap g v)"
  using starts_value_gap by (auto simp: starts_value_def)

lemma parse_value_gap:
  shows "list_all is_ws g \<Longrightarrow> wf_json v \<Longrightarrow> delim r \<Longrightarrow> 2 * length (dumps_gap g v) \<le> f \<Longrightarrow>
      parse_value f (dumps_gap g v @ r) = Some (v, r)"
    and "list_all is_ws g \<Longrightarrow> wf_list xs \<Longrightarrow> xs \<noteq> [] \<Longrightarrow> 2 * length (gap_elems g xs) < f \<Longrightarrow>
      parse_elems f (gap_elems g xs @ CHR '']'' # r) = Some (xs, r)"
    and "list_all is_ws g \<Longrightarrow> wf_members kvs \<Longrightarrow> kvs \<noteq> [] \<Longrightarrow> 2 * length (gap_members g kvs) < f \<Longrightarrow>
      parse_members f (gap_members g kvs @ CHR ''}'' # r) = Some (kvs, r)"
proof (induction g v and g xs and g kvs arbitrary: f r and f r and f r
    rule: dumps_gap_gap_elems_gap_members.induct)
  case (1 g)
  then show ?case by (cases f) (auto simp: numeral_eq_Suc)
next
  case (2 g b)
  then show ?case by (cases f; cases b) (auto simp: numeral_eq_Suc)
next
  case (3 g i)
  have "parse_number (show_int i @ r) = Some (JInt i, r)"
    by (rule parse_number_delim [OF parse_number_show_int]) (rule 3)
  with 3 show ?case
    using length_gap_pos [of "JInt i" g] parse_value_number by (cases f) auto
next
  case (4 g t)
  then have "parse_number (t @ r) = Some (JFloat t, r)"
    by (intro parse_number_delim) (simp_all add: float_text_def)
  with 4 show ?case
    using length_gap_pos [of "JFloat t" g] parse_value_number by (cases f) auto
next
  case (6 g t)
  then show ?case by (cases f) (auto simp: ascii_quote_def parse_chars_ascii_quoted)
next
  case (7 g xs)
  then obtain f' where f: "f = Suc f'" by (cases f) auto
  show ?case
  proof (cases "xs = []")
    case False
    with 7 have "starts_value (gap_elems g xs)" by (simp add: starts_value_gap_elems)
    moreover have "parse_elems f' (gap_elems g xs @ CHR '']'' # r) = Some (xs, r)"
      using 7 f False by auto
    ultimately show ?thesis
      using f starts_value_not_close [of "gap_elems g xs" "CHR '']'' # r"] by simp
  qed (use f in simp)
next
  case (8 g kvs)
  then obtain f' where f: "f = Suc f'" by (cases f) auto
  show ?case
  proof (cases "kvs = []")
    case False
    then have "starts_value (gap_members g kvs)" by (rule starts_value_gap_members)
    moreover have "parse_members f' (gap_members g kvs @ CHR ''}'' # r) = Some (kvs, r)"
      using 8 f False by auto
    moreover have "fold (\<lambda>(k, v). AList.update k v) kvs [] = kvs"
      using 8 fold_update_distinct [of "[]" kvs] by simp
    ultimately show ?thesis
      using f starts_value_not_close [of "gap_members g kvs" "CHR ''}'' # r"] by simp
  qed (use f in simp)
next
  case (10 g x)
  then obtain f' where f: "f = Suc f'" by (cases f) auto
  with 10 have "parse_value f' (dumps_gap g x @ CHR '']'' # r) = Some (x, CHR '']'' # r)" by auto
  with f show ?case by simp
next
  case (11 g x y xs)
  then obtain f' where f: "f = Suc f'" by (cases f) auto
  let ?rest = "gap_elems g (y # xs) @ CHR '']'' # r"
  have "parse_value f' (dumps_gap g x @ CHR '','' # g @ ?rest) = Some (x, CHR '','' # g @ ?rest)"
    using 11 f by (intro "11.IH"(1)) auto
  moreover have "parse_elems f' ?rest = Some (y # xs, r)"
    using 11 f by (intro "11.IH"(2)) auto
  moreover have "skip_ws ?rest = ?rest"
    using "11.prems" by (intro starts_value_append starts_value_gap_elems) auto
  ultimately show ?case using f "11.prems"(1) by simp
next
  case (13 g k v)
  then obtain f' where f: "f = Suc f'" by (cases f) auto
  have "parse_value f' (dumps_gap g v @ CHR ''}'' # r) = Some (v, CHR ''}'' # r)"
    using 13 f by (intro "13.IH") (auto simp: ascii_quote_def)
  moreover have "skip_ws (dumps_gap g v @ CHR ''}'' # r) = dumps_gap g v @ CHR ''}'' # r"
    using "13.prems" by (intro starts_value_append starts_value_gap) auto
  ultimately show ?case
    using f "13.prems"(1) by (simp add: ascii_quote_def parse_chars_ascii_quoted)
next
  case (14 g k v m kvs)
  then obtain f' where f: "f = Suc f'" by (cases f) auto
  let ?rest = "gap_members g (m # kvs) @ CHR ''}'' # r"
  have "parse_value f' (dumps_gap g v @ CHR '','' # g @ ?rest) = Some (v, CHR '','' # g @ ?rest)"
    using 14 f by (intro "14.IH"(1)) (auto simp: ascii_quote_def)
  moreover have "parse_members f' ?rest = Some (m # kvs, r)"
    using 14 f by (intro "14.IH"(2)) (auto simp: ascii_quote_def)
  moreover have "skip_ws (dumps_gap g v @ CHR '','' # g @ ?rest) = dumps_gap g v @ CHR '','' # g @ ?rest"
    using "14.prems" by (intro starts_value_append starts_value_gap) auto
  moreover have "skip_ws ?rest = ?rest"
    by (intro starts_value_append starts_value_gap_members) simp
  ultimately show ?case
    using f "14.prems"(1) by (simp add: ascii_quote_def parse_chars_ascii_quoted)
qed simp_all


lemma loads_gap:
  assumes "list_all is_ws g" "wf_json v"
  shows "loads (dumps_gap g v) = Inr v"
proof -
  have "skip_ws (dumps_gap g v) = dumps_gap g v"
    using starts_value_append [OF starts_value_gap [OF assms(2), of g], of "[]"] by simp
  moreover have "parse_value (Suc (2 * length (dumps_gap g v))) (dumps_gap g v @ []) = Some (v, [])"
    by (rule parse_value_gap(1) [OF assms(1)]) (use assms(2) in simp_all)
  ultimately show ?thesis by (simp add: loads_def)
qed

text \<open>Default separators, as in \<open>json.dumps(value, sort_keys=True)\<close>.\<close>

fun dumps_spaced :: "json \<Rightarrow> string" and spaced_elems :: "json list \<Rightarrow> string" and spaced_members :: "payload \<Rightarrow> string" where
  "dumps_spaced JNull = ''null''"
| "dumps_spaced (JBool b) = (if b then ''true'' else ''false'')"
| "dumps_spaced (JInt i) = show_int i"
| "dumps_spaced (JFloat t) = t"
| "dumps_spaced JNaN = ''NaN''"
| "dumps_spaced (JStr s) = ascii_quote s"
| "dumps_spaced (JList xs) = CHR ''['' # spaced_elems xs @ '']''"
| "dumps_spaced (JObj kvs) = CHR ''{'' # spaced_members kvs @ ''}''"
| "spaced_elems [] = []"
| "spaced_elems [x] = dumps_spaced x"
| "spaced_elems (x # y # xs) = dumps_spaced x @ CHR '','' # CHR '' '' # spaced_elems (y # xs)"
| "spaced_members [] = []"
| "spaced_members [(k, v)] = ascii_quote k @ CHR '':'' # CHR '' '' # dumps_spaced v"
| "spaced_members ((k, v) # m # ms) =
     ascii_quote k @ CHR '':'' # CHR '' '' # dumps_spaced v @ CHR '','' # CHR '' '' # spaced_members (m # ms)"

definition dumps_sorted :: "json \<Rightarrow> string" where
  "dumps_sorted v = dumps_spaced (canonical v)"

lemma spaced_gap: "dumps_spaced v = dumps_gap '' '' v" "spaced_elems xs = gap_elems '' '' xs" "spaced_members kvs = gap_members '' '' kvs"
  by (induction v and xs and kvs rule: dumps_spaced_spaced_elems_spaced_members.induct) simp_all

lemma ascii_gap: "dumps_ascii v = dumps_gap [] v" "ascii_elems xs = gap_elems [] xs" "ascii_members kvs = gap_members [] kvs"
  by (induction v and xs and kvs rule: dumps_ascii_ascii_elems_ascii_members.induct) simp_all

lemma starts_value_spaced: "wf_json v \<Longrightarrow> starts_value (dumps_spaced v)"
  by (simp add: spaced_gap(1) starts_value_gap)

lemma length_spaced_pos: "wf_json v \<Longrightarrow> 0 < length (dumps_spaced v)"
  by (metis length_gap_pos spaced_gap(1))

lemma loads_spaced: "wf_json v \<Longrightarrow> loads (dumps_spaced v) = Inr v"
  by (simp add: spaced_gap(1) loads_gap is_ws_def char_code_def)

lemma loads_ascii: "wf_json v \<Longrightarrow> loads (dumps_ascii v) = Inr v"
  by (simp add: ascii_gap(1) loads_gap)

lemma loads_dumps_sorted: "wf_json v \<Longrightarrow> loads (dumps_sorted v) = Inr (canonical v)"
  by (simp add: dumps_sorted_def loads_spaced wf_json_canonical)

section \<open>The printed text is ASCII without control characters\<close>

lemma digits_printable: "list_all printable_ascii (takeWhile is_digit s)"
  by (induction s) (simp_all add: is_digit_def printable_ascii_def)

lemma printable_marks: "list_all printable_ascii [CHR ''.'', CHR ''e'', CHR ''E'', CHR ''+'', CHR ''-'', CHR 0x22, CHR '','', CHR '':'',
    CHR ''['', CHR '']'', CHR ''{'', CHR ''}'', CHR ''0'']"
  by (simp add: printable_ascii_def char_code_def)

lemma split_int_printable: "split_int s = Some (ip, r) \<Longrightarrow> list_all printable_ascii ip"
  using digits_printable printable_marks by (cases s) (auto simp: split_int_def is_digit_def printable_ascii_def split: if_splits)

lemma split_frac_printable: "split_frac s = (fr, r) \<Longrightarrow> list_all printable_ascii fr"
  using digits_printable printable_marks by (cases s) (auto simp: split_frac_def split: if_splits)

lemma split_sign_printable: "split_sign s = (sg, r) \<Longrightarrow> list_all printable_ascii sg"
  using printable_marks by (cases s) (auto simp: split_sign_def split: if_splits)

lemma split_exp_printable: "split_exp s = (ex, r) \<Longrightarrow> list_all printable_ascii ex"
  using digits_printable printable_marks split_sign_printable
  by (cases s) (auto simp: split_exp_def split: if_splits prod.splits)

lemma float_text_printable:
  assumes "float_text t"
  shows "list_all printable_ascii t"
proof -
  have p: "parse_number t = Some (JFloat t, [])" using assms by (simp add: float_text_def)
  obtain ip r1 where ip: "split_int (if take 1 t = ''-'' then drop 1 t else t) = Some (ip, r1)"
    and n: "number_tail (take 1 t = ''-'') ip r1 = (JFloat t, [])"
    using p by (auto simp: parse_number_def Let_def split: option.splits if_splits)
  obtain fr r2 where fr: "split_frac r1 = (fr, r2)" by fastforce
  obtain ex r3 where ex: "split_exp r2 = (ex, r3)" by fastforce
  have "t = (if take 1 t = ''-'' then ''-'' else []) @ ip @ fr @ ex"
    using n fr ex by (auto simp: number_tail_def split: if_splits)
  moreover have "list_all printable_ascii ((if take 1 t = ''-'' then ''-'' else []) @ ip @ fr @ ex)"
    using split_int_printable [OF ip] split_frac_printable [OF fr] split_exp_printable [OF ex] printable_marks by simp
  ultimately show ?thesis by metis
qed

lemma show_int_printable: "list_all printable_ascii (show_int i)"
proof -
  have "list_all printable_ascii (show_nat n)" for n
    using show_nat_digits [of n] by (auto simp: list_all_iff is_digit_def printable_ascii_def)
  then show ?thesis using printable_marks by (simp add: show_int_def)
qed

lemma ascii_quote_printable: "list_all printable_ascii (ascii_quote s)"
proof -
  have "list_all printable_ascii (concat (map ascii_escape s))" using ascii_escape_printable by (induction s) auto
  then show ?thesis by (simp add: ascii_quote_def printable_ascii_def [of "CHR 0x22"])
qed

lemma printable_words: "list_all printable_ascii ''nulltruefalse''"
  by (simp add: printable_ascii_def char_code_def)

lemma dumps_gap_printable:
  "list_all printable_ascii g \<Longrightarrow> wf_json v \<Longrightarrow> list_all printable_ascii (dumps_gap g v)"
  "list_all printable_ascii g \<Longrightarrow> wf_list xs \<Longrightarrow> list_all printable_ascii (gap_elems g xs)"
  "list_all printable_ascii g \<Longrightarrow> wf_members kvs \<Longrightarrow> list_all printable_ascii (gap_members g kvs)"
  using printable_marks printable_words
  by (induction g v and g xs and g kvs rule: dumps_gap_gap_elems_gap_members.induct)
    (simp_all add: show_int_printable ascii_quote_printable float_text_printable)

lemma dumps_ascii_printable: "wf_json v \<Longrightarrow> list_all printable_ascii (dumps_ascii v)"
  by (simp add: ascii_gap(1) dumps_gap_printable)

lemma dumps_spaced_printable: "wf_json v \<Longrightarrow> list_all printable_ascii (dumps_spaced v)"
  by (simp add: spaced_gap(1) dumps_gap_printable printable_ascii_def char_code_def)

end
