(* ===== verification/Ledger_Sync.thy ===== *)
theory Ledger_Sync
  imports Json_Spaced
begin

text \<open>
  The bridge between ledgers (courier\_core/ledger\_sync.py): events of a source ledger are appended to a
  target, once each, with conflict detection and a watermark. A ledger is its text, read line by line and
  appended to; SHA-256 is the parameter \<open>H\<close>. A synchronised target agrees with its source, a second pass does
  nothing, and after a reconciliation in both directions two ledgers whose texts end in a newline hold the same
  events. An unterminated last line merges with what is appended, and the ledger cannot be read any more.
\<close>

section \<open>Events\<close>

text \<open>\<open>a or b\<close>\<close>

definition py_or :: "json \<Rightarrow> json \<Rightarrow> json" where
  "py_or a b = (if truthy a then a else b)"

definition canonical_text :: "payload \<Rightarrow> string" where
  "canonical_text ev = dumps_ascii (canonical (JObj ev))"

definition work_queue_id :: "(string \<Rightarrow> string) \<Rightarrow> payload \<Rightarrow> string option" where
  "work_queue_id H ev =
     (let ev_type = py_or (get ev ''type'') (get ev ''event_type'');
          item_id = py_or (get ev ''item_id'') (get ev ''task_id'');
          at_ts = py_or (py_or (get ev ''at'') (get ev ''created_at'')) (get ev ''ts_utc'')
      in if truthy ev_type \<and> truthy item_id \<and> truthy at_ts
         then Some (''wq-'' @ py_str item_id @ ''-'' @ take 24 (H (canonical_text ev))) else None)"

definition derive_event_id :: "(string \<Rightarrow> string) \<Rightarrow> payload \<Rightarrow> string option" where
  "derive_event_id H ev = (case get ev ''event_id'' of
     JStr s \<Rightarrow> if strip s \<noteq> [] then Some (strip s) else work_queue_id H ev
   | _ \<Rightarrow> work_queue_id H ev)"

definition with_id :: "payload \<Rightarrow> string \<Rightarrow> payload" where
  "with_id ev eid = (if has_key ev ''event_id'' then ev else AList.update ''event_id'' (JStr eid) ev)"

text \<open>The identifier of an event and the text it is compared by; events without an identifier are ignored.\<close>

definition keyed :: "(string \<Rightarrow> string) \<Rightarrow> payload \<Rightarrow> (string \<times> string) option" where
  "keyed H ev = map_option (\<lambda>eid. (eid, canonical_text (with_id ev eid))) (derive_event_id H ev)"

section \<open>A pass\<close>

record sync_result =
  sy_synced :: nat
  sy_skipped :: nat
  sy_last :: "string option"

type_synonym index = "(string \<times> string) list"

definition add_to_index :: "(string \<Rightarrow> string) \<Rightarrow> index \<Rightarrow> payload \<Rightarrow> index" where
  "add_to_index H index ev = (case keyed H ev of None \<Rightarrow> index | Some (eid, c) \<Rightarrow> AList.update eid c index)"

definition target_index :: "(string \<Rightarrow> string) \<Rightarrow> payload list \<Rightarrow> index" where
  "target_index H evs = foldl (add_to_index H) [] evs"

text \<open>The loop over the source: the events to append, how many were there already, and the last one appended.\<close>

fun sync_events :: "(string \<Rightarrow> string) \<Rightarrow> string option \<Rightarrow> bool \<Rightarrow> index \<Rightarrow> string option \<Rightarrow> payload list
    \<Rightarrow> (payload list \<times> nat \<times> string option) result" where
  "sync_events H watermark reached index last_id [] = Inr ([], 0, last_id)"
| "sync_events H watermark reached index last_id (ev # evs) = (case keyed H ev of
     None \<Rightarrow> sync_events H watermark reached index last_id evs
   | Some (eid, canon) \<Rightarrow> (case map_of index eid of
       Some c \<Rightarrow>
         if c \<noteq> canon then Inl (ValueError ''Ledger conflict or tamper detected'')
         else bind_result (sync_events H watermark (reached \<or> watermark = Some eid) index last_id evs)
           (\<lambda>(new, skipped, l). Inr (new, Suc skipped, l))
     | None \<Rightarrow>
         if \<not> reached then sync_events H watermark (watermark = Some eid) index last_id evs
         else bind_result (sync_events H watermark reached (AList.update eid canon index) (Some eid) evs)
           (\<lambda>(new, skipped, l). Inr (with_id ev eid # new, skipped, l))))"

text \<open>
  The watermark file: \<open>None\<close> without a path, \<open>Some None\<close> when the file does not exist. An empty file counts as
  no watermark.
\<close>

type_synonym watermark_file = "string option option"

definition read_watermark :: "watermark_file \<Rightarrow> string option" where
  "read_watermark w = (case w of Some (Some t) \<Rightarrow> if strip t \<noteq> [] then Some (strip t) else None | _ \<Rightarrow> None)"

definition write_watermark :: "string \<Rightarrow> watermark_file \<Rightarrow> watermark_file" where
  "write_watermark eid w = (case w of None \<Rightarrow> None | Some _ \<Rightarrow> Some (Some eid))"

definition sync_pass :: "(string \<Rightarrow> string) \<Rightarrow> payload list \<Rightarrow> payload list \<Rightarrow> watermark_file
    \<Rightarrow> (payload list \<times> nat \<times> string option) result" where
  "sync_pass H source target w =
     (let watermark = read_watermark w;
          reached = (watermark = None \<or> watermark \<notin> set (map (derive_event_id H) source))
      in sync_events H watermark reached (target_index H target) watermark source)"

section \<open>Ledger files\<close>

text \<open>
  \<open>_read_ledger\<close>: a file that does not exist is empty; each line is stripped and read unless nothing is left of it.
\<close>

fun parse_lines :: "string list \<Rightarrow> json list result" where
  "parse_lines [] = Inr []"
| "parse_lines (l # ls) = (if strip l = [] then parse_lines ls
     else bind_result (loads (strip l)) (\<lambda>v. bind_result (parse_lines ls) (\<lambda>vs. Inr (v # vs))))"

definition bridge_read :: "string option \<Rightarrow> json list result" where
  "bridge_read f = (case f of None \<Rightarrow> Inr [] | Some t \<Rightarrow> parse_lines (split_lines [] t))"

text \<open>\<open>ev.get\<close> of every value in turn, which a value that is no object does not have.\<close>

fun event_dicts :: "json list \<Rightarrow> payload list result" where
  "event_dicts [] = Inr []"
| "event_dicts (v # vs) = (case v of
     JObj ev \<Rightarrow> bind_result (event_dicts vs) (\<lambda>evs. Inr (ev # evs)) | _ \<Rightarrow> Inl (AttributeError ''get''))"

definition ledger_line :: "payload \<Rightarrow> string" where
  "ledger_line ev = dumps_spaced (JObj ev) @ [CHR 0x0A]"

definition append_events :: "payload list \<Rightarrow> string option \<Rightarrow> string option" where
  "append_events new f = (if new = [] then f
     else Some ((case f of None \<Rightarrow> [] | Some t \<Rightarrow> t) @ concat (map ledger_line new)))"

definition sync_forward :: "(string \<Rightarrow> string) \<Rightarrow> string option \<Rightarrow> string option \<Rightarrow> watermark_file
    \<Rightarrow> sync_result result \<times> string option \<times> watermark_file" where
  "sync_forward H source target w =
     (case bind_result (bridge_read source) (\<lambda>sv. bind_result (bridge_read target) (\<lambda>tv.
           bind_result (event_dicts tv) (\<lambda>tes. bind_result (event_dicts sv) (\<lambda>ses. sync_pass H ses tes w)))) of
        Inl e \<Rightarrow> (Inl e, target, w)
      | Inr (new, skipped, last_id) \<Rightarrow>
          (Inr \<lparr>sy_synced = length new, sy_skipped = skipped, sy_last = last_id\<rparr>, append_events new target,
           case last_id of None \<Rightarrow> w | Some eid \<Rightarrow> if eid = [] then w else write_watermark eid w))"

definition sync_ledgers :: "(string \<Rightarrow> string) \<Rightarrow> string option \<Rightarrow> string option \<Rightarrow> sync_result result \<times> string option" where
  "sync_ledgers H source target = (let (r, target', w) = sync_forward H source target None in (r, target'))"

definition reconcile_bidirectional :: "(string \<Rightarrow> string) \<Rightarrow> string option \<Rightarrow> string option
    \<Rightarrow> (sync_result \<times> sync_result) result \<times> string option \<times> string option" where
  "reconcile_bidirectional H a b = (case sync_ledgers H a b of
     (Inl e, b') \<Rightarrow> (Inl e, a, b')
   | (Inr ra, b') \<Rightarrow> (case sync_ledgers H b' a of
       (Inl e, a') \<Rightarrow> (Inl e, a', b') | (Inr rb, a') \<Rightarrow> (Inr (ra, rb), a', b')))"

text \<open>The same on the events the files say, which is what a pass does to them.\<close>

definition sync_lists :: "(string \<Rightarrow> string) \<Rightarrow> payload list \<Rightarrow> payload list \<Rightarrow> sync_result result \<times> payload list" where
  "sync_lists H source target = (case sync_pass H source target None of
     Inl e \<Rightarrow> (Inl e, target)
   | Inr (new, skipped, last_id) \<Rightarrow> (Inr \<lparr>sy_synced = length new, sy_skipped = skipped, sy_last = last_id\<rparr>, target @ new))"

section \<open>What a ledger says\<close>

text \<open>The identifiers of a ledger with their texts; a later line wins.\<close>

definition view :: "(string \<Rightarrow> string) \<Rightarrow> payload list \<Rightarrow> string \<rightharpoonup> string" where
  "view H evs = map_of (rev (List.map_filter (keyed H) evs))"

text \<open>A hexadecimal digest has no white space.\<close>

definition no_space :: "(string \<Rightarrow> string) \<Rightarrow> bool" where
  "no_space H \<longleftrightarrow> (\<forall>t. \<forall>c \<in> set (H t). \<not> is_space c)"

lemma view_simps [simp]:
  "view H [] = Map.empty"
  "view H (xs @ ys) = view H xs ++ view H ys"
  by (simp_all add: view_def map_filter_def)

lemma view_Cons: "view H (ev # evs) = (case keyed H ev of None \<Rightarrow> Map.empty | Some (eid, c) \<Rightarrow> [eid \<mapsto> c]) ++ view H evs"
  by (simp add: view_def map_filter_def split: option.split)

lemma map_of_index: "map_of (target_index H evs) = view H evs"
proof -
  have "map_of (foldl (add_to_index H) index evs) = map_of index ++ view H evs" for index
  proof (induction evs arbitrary: index)
    case (Cons ev evs)
    then show ?case by (auto simp: view_Cons add_to_index_def update_conv' map_add_assoc split: option.split prod.split)
  qed simp
  then show ?thesis by (simp add: target_index_def)
qed

lemma view_mem: "view H evs eid = Some c \<Longrightarrow> \<exists>ev \<in> set evs. keyed H ev = Some (eid, c)"
  by (induction evs) (auto simp: view_Cons split: option.splits if_splits)

lemma view_keyed: "ev \<in> set evs \<Longrightarrow> keyed H ev = Some (eid, c) \<Longrightarrow> view H evs eid \<noteq> None"
  by (induction evs) (auto simp: view_Cons map_add_Some_iff split: option.splits)

section \<open>One pass brings the source into the target\<close>

lemma strip_unchanged:
  assumes "s \<noteq> []" "\<not> is_space (hd s)" "\<not> is_space (last s)"
  shows "strip s = s"
proof -
  have "dropWhile is_space s = s" using assms by (cases s) auto
  moreover have "dropWhile is_space (rev s) = rev s" using assms by (cases s rule: rev_cases) auto
  ultimately show ?thesis by (simp add: strip_def)
qed

lemma strip_work_queue_id:
  assumes "no_space H" "work_queue_id H ev = Some eid"
  shows "strip eid = eid" "eid \<noteq> []"
proof -
  obtain x t where e: "eid = ''wq-'' @ x @ ''-'' @ take 24 (H t)"
    using assms(2) by (auto simp: work_queue_id_def Let_def split: if_splits)
  have sp: "\<not> is_space (CHR ''w'')" "\<not> is_space (CHR ''-'')" by code_simp+
  have "\<not> is_space (last eid)"
  proof (cases "take 24 (H t) = []")
    case True
    then show ?thesis using sp by (simp add: e)
  next
    case False
    then have "last eid \<in> set (H t)" using last_in_set [OF False] set_take_subset by (fastforce simp: e)
    then show ?thesis using assms(1) by (auto simp: no_space_def)
  qed
  then show "strip eid = eid" using sp by (intro strip_unchanged) (simp_all add: e)
  show "eid \<noteq> []" by (simp add: e)
qed

text \<open>An event that was written with its identifier has the same identifier and the same text.\<close>

lemma keyed_with_id:
  assumes "no_space H" "keyed H ev = Some (eid, c)"
  shows "keyed H (with_id ev eid) = Some (eid, c)"
proof (cases "has_key ev ''event_id''")
  case True
  then show ?thesis using assms by (simp add: with_id_def)
next
  case False
  then have "get ev ''event_id'' = JNull" by (simp add: has_key_def get_def)
  then have wq: "work_queue_id H ev = Some eid" and c: "c = canonical_text (with_id ev eid)"
    using assms(2) by (auto simp: keyed_def derive_event_id_def)
  have w: "with_id ev eid = AList.update ''event_id'' (JStr eid) ev" using False by (simp add: with_id_def)
  have g: "get (with_id ev eid) ''event_id'' = JStr eid" "has_key (with_id ev eid) ''event_id''"
    by (simp_all add: w get_def has_key_def update_conv')
  have "derive_event_id H (with_id ev eid) = Some eid"
    using strip_work_queue_id [OF assms(1) wq] by (simp add: derive_event_id_def g)
  moreover have "with_id (with_id ev eid) eid = with_id ev eid" using g(2) by (simp add: with_id_def)
  ultimately show ?thesis by (simp add: keyed_def c)
qed

text \<open>A pass that starts to write at once: every event of the source is in the extended target, with the same text.\<close>

lemma sync_events_complete:
  assumes "no_space H" "sync_events H w True index l0 evs = Inr (new, skipped, l)"
  shows "(\<forall>ev \<in> set evs. \<forall>eid c. keyed H ev = Some (eid, c) \<longrightarrow> (map_of index ++ view H new) eid = Some c)
    \<and> (\<forall>ev \<in> set new. \<exists>ev0 \<in> set evs. \<exists>eid c. ev = with_id ev0 eid \<and> keyed H ev0 = Some (eid, c) \<and> map_of index eid = None)
    \<and> distinct (map (\<lambda>ev. the (derive_event_id H ev)) new)"
  using assms(2)
proof (induction evs arbitrary: index l0 new skipped l)
  case (Cons ev evs)
  show ?case
  proof (cases "keyed H ev")
    case None
    then show ?thesis using Cons.IH [of index l0 new skipped l] Cons.prems by auto
  next
    case (Some p)
    obtain eid c where p: "p = (eid, c)" by force
    show ?thesis
    proof (cases "map_of index eid")
      case (Some c')
      have "c' = c" using Cons.prems Some \<open>keyed H ev = Some p\<close> by (simp add: p split: if_splits)
      then obtain sk where r: "sync_events H w True index l0 evs = Inr (new, sk, l)"
        using Cons.prems Some \<open>keyed H ev = Some p\<close> by (auto simp: p bind_result_eq_Inr)
      note ih = Cons.IH [OF this]
      have "view H new eid = None"
      proof (rule ccontr)
        assume "view H new eid \<noteq> None"
        then obtain d where "view H new eid = Some d" by auto
        from view_mem [OF this] obtain e1 where "e1 \<in> set new" "keyed H e1 = Some (eid, d)" by blast
        with ih obtain e0 k c0 where "e1 = with_id e0 k" "keyed H e0 = Some (k, c0)" "map_of index k = None" by blast
        with keyed_with_id [OF assms(1), of e0 k c0] \<open>keyed H e1 = Some (eid, d)\<close> Some show False by simp
      qed
      then have "(map_of index ++ view H new) eid = Some c" using Some \<open>c' = c\<close> by (simp add: map_add_def)
      then show ?thesis using ih \<open>keyed H ev = Some p\<close> by (auto simp: p)
    next
      case None
      then obtain new' sk where r: "sync_events H w True (AList.update eid c index) (Some eid) evs = Inr (new', sk, l)"
        and new: "new = with_id ev eid # new'"
        using Cons.prems \<open>keyed H ev = Some p\<close> by (auto simp: p bind_result_eq_Inr)
      note ih = Cons.IH [OF r]
      have k: "keyed H (with_id ev eid) = Some (eid, c)" using keyed_with_id [OF assms(1)] \<open>keyed H ev = Some p\<close> by (simp add: p)
      have v: "map_of (AList.update eid c index) ++ view H new' = map_of index ++ view H new"
        by (simp add: new view_Cons k update_conv' map_add_assoc)
      have fresh: "the (derive_event_id H e1) \<noteq> eid" if "e1 \<in> set new'" for e1
      proof -
        from ih that obtain e0 i c0 where "e1 = with_id e0 i" "keyed H e0 = Some (i, c0)"
          "map_of (AList.update eid c index) i = None" by blast
        with keyed_with_id [OF assms(1), of e0 i c0] show ?thesis by (auto simp: keyed_def update_conv' split: if_splits)
      qed
      have self: "(map_of index ++ view H new) eid = Some c"
      proof -
        have "view H new' eid = None"
        proof (rule ccontr)
          assume "view H new' eid \<noteq> None"
          then obtain d where "view H new' eid = Some d" by auto
          from view_mem [OF this] obtain e1 where "e1 \<in> set new'" "keyed H e1 = Some (eid, d)" by blast
          with fresh [of e1] show False by (auto simp: keyed_def)
        qed
        then show ?thesis by (simp add: new view_Cons k map_add_def)
      qed
      have "derive_event_id H (with_id ev eid) = Some eid" using k by (auto simp: keyed_def)
      then have "distinct (map (\<lambda>ev. the (derive_event_id H ev)) new)" using ih fresh by (auto simp: new)
      moreover have "\<exists>ev0 \<in> set (ev # evs). \<exists>i d. e1 = with_id ev0 i \<and> keyed H ev0 = Some (i, d) \<and> map_of index i = None"
        if "e1 \<in> set new" for e1
      proof (cases "e1 = with_id ev eid")
        case True
        then show ?thesis using None \<open>keyed H ev = Some p\<close> by (auto simp: p)
      next
        case False
        then have "e1 \<in> set new'" using that by (simp add: new)
        with ih obtain e0 i d where "e0 \<in> set evs" "e1 = with_id e0 i" "keyed H e0 = Some (i, d)"
          "map_of (AList.update eid c index) i = None" by blast
        moreover from this have "map_of index i = None" by (simp add: update_conv' split: if_splits)
        ultimately show ?thesis by (intro bexI [of _ e0]) auto
      qed
      moreover have "(map_of index ++ view H new) i = Some d" if "e1 \<in> set (ev # evs)" "keyed H e1 = Some (i, d)" for e1 i d
      proof (cases "e1 = ev")
        case True
        then show ?thesis using that(2) self \<open>keyed H ev = Some p\<close> by (simp add: p)
      next
        case False
        then have "e1 \<in> set evs" using that(1) by simp
        then show ?thesis using ih that(2) unfolding v by blast
      qed
      ultimately show ?thesis by blast
    qed
  qed
qed simp

text \<open>A pass over events that are all there already.\<close>

lemma sync_events_nothing:
  "(\<And>ev eid c. ev \<in> set evs \<Longrightarrow> keyed H ev = Some (eid, c) \<Longrightarrow> map_of index eid = Some c) \<Longrightarrow>
   \<exists>n. sync_events H w reached index l0 evs = Inr ([], n, l0)"
proof (induction evs arbitrary: reached)
  case (Cons ev evs)
  have rest: "\<exists>n. sync_events H w r index l0 evs = Inr ([], n, l0)" for r
    by (rule Cons.IH) (rule Cons.prems, auto)
  show ?case
  proof (cases "keyed H ev")
    case None
    then show ?thesis using rest by simp
  next
    case (Some p)
    obtain eid c where p: "p = (eid, c)" by force
    have "map_of index eid = Some c" using Cons.prems [of ev eid c] Some p by simp
    then show ?thesis using Some p rest [of "reached \<or> w = Some eid"] by auto
  qed
qed simp

lemma sync_lists_cases:
  "sync_lists H source target = (Inr r, target') \<Longrightarrow> \<exists>new skipped l.
     sync_events H None True (target_index H target) None source = Inr (new, skipped, l)
     \<and> target' = target @ new \<and> r = \<lparr>sy_synced = length new, sy_skipped = skipped, sy_last = l\<rparr>"
  by (auto simp: sync_lists_def sync_pass_def read_watermark_def Let_def split: sum.splits prod.splits)

text \<open>What a pass without a watermark establishes.\<close>

lemma sync_lists_complete:
  assumes "no_space H" "sync_lists H source target = (Inr r, target')"
  shows "\<exists>new. target' = target @ new \<and> length new = sy_synced r \<and> distinct (map (\<lambda>ev. the (derive_event_id H ev)) new)"
    and "ev \<in> set source \<Longrightarrow> keyed H ev = Some (eid, c) \<Longrightarrow> view H target' eid = Some c"
    and "view H target \<subseteq>\<^sub>m view H target'"
    and "view H target' eid \<noteq> None \<Longrightarrow> view H target eid \<noteq> None \<or> view H source eid \<noteq> None"
    and "\<exists>n. sync_lists H source target' = (Inr \<lparr>sy_synced = 0, sy_skipped = n, sy_last = None\<rparr>, target')"
proof -
  obtain new skipped l where s: "sync_events H None True (target_index H target) None source = Inr (new, skipped, l)"
    and t: "target' = target @ new" and r: "r = \<lparr>sy_synced = length new, sy_skipped = skipped, sy_last = l\<rparr>"
    using sync_lists_cases [OF assms(2)] by blast
  note c = sync_events_complete [OF assms(1) s, unfolded map_of_index]
  show "\<exists>new. target' = target @ new \<and> length new = sy_synced r \<and> distinct (map (\<lambda>ev. the (derive_event_id H ev)) new)"
    using c by (simp add: t r)
  have there: "view H target' eid = Some c" if "ev \<in> set source" "keyed H ev = Some (eid, c)" for ev eid c
    using c that by (simp add: t)
  then show "ev \<in> set source \<Longrightarrow> keyed H ev = Some (eid, c) \<Longrightarrow> view H target' eid = Some c" .
  have fresh: "view H target eid = None \<and> view H source eid \<noteq> None" if "view H new eid \<noteq> None" for eid
  proof -
    from that obtain d where "view H new eid = Some d" by auto
    from view_mem [OF this] obtain e1 where "e1 \<in> set new" "keyed H e1 = Some (eid, d)" by blast
    with c obtain e0 i c0 where e0: "e1 = with_id e0 i" "e0 \<in> set source" "keyed H e0 = Some (i, c0)" "view H target i = None"
      by blast
    with keyed_with_id [OF assms(1), of e0 i c0] \<open>keyed H e1 = Some (eid, d)\<close> have "i = eid" by simp
    then show ?thesis using e0 view_keyed by blast
  qed
  show "view H target \<subseteq>\<^sub>m view H target'"
    unfolding map_le_def t view_simps using fresh by (metis domIff map_add_None map_add_dom_app_simps(3) option.distinct(1))
  show "view H target' eid \<noteq> None \<Longrightarrow> view H target eid \<noteq> None \<or> view H source eid \<noteq> None"
    using fresh [of eid] by (auto simp: t map_add_None)
  have "\<exists>n. sync_events H None True (target_index H target') None source = Inr ([], n, None)"
    by (rule sync_events_nothing) (simp add: map_of_index there)
  then show "\<exists>n. sync_lists H source target' = (Inr \<lparr>sy_synced = 0, sy_skipped = n, sy_last = None\<rparr>, target')"
    by (auto simp: sync_lists_def sync_pass_def read_watermark_def Let_def)
qed


section \<open>What synchronisation promises\<close>

text \<open>
  A pass without a watermark that returns has only appended to the target, one event per new identifier; the target
  then has every event of the source, with the same identifier and text, keeps all it had, and a second pass of the
  same source appends nothing and raises nothing.
\<close>

theorem sync_is_complete_and_idempotent:
  assumes "no_space H" "sync_lists H source target = (Inr r, target')"
  shows "\<exists>new. target' = target @ new \<and> length new = sy_synced r \<and> distinct (map (\<lambda>ev. the (derive_event_id H ev)) new)
    \<and> (\<forall>ev \<in> set source. \<forall>eid c. keyed H ev = Some (eid, c) \<longrightarrow> view H target' eid = Some c)
    \<and> view H target \<subseteq>\<^sub>m view H target'
    \<and> (\<exists>n. sync_lists H source target' = (Inr \<lparr>sy_synced = 0, sy_skipped = n, sy_last = None\<rparr>, target'))"
  using sync_lists_complete(1,3,5) [OF assms] sync_lists_complete(2) [OF assms] by blast

text \<open>The text of a source event is the one the target gives its identifier, so two ledgers that took from each other agree.\<close>

lemma reconciled_views:
  assumes "no_space H" "sync_lists H a b = (Inr ra, b')" "sync_lists H b' a = (Inr rb, a')"
  shows "view H a' = view H b'"
proof
  fix eid
  note ab = sync_lists_complete [OF assms(1,2)] and ba = sync_lists_complete [OF assms(1,3)]
  show "view H a' eid = view H b' eid"
  proof (cases "view H b' eid")
    case (Some c)
    then obtain ev where "ev \<in> set b'" "keyed H ev = Some (eid, c)" using view_mem by blast
    then show ?thesis using ba(2) Some by simp
  next
    case None
    have "view H a eid = None"
    proof (rule ccontr)
      assume "view H a eid \<noteq> None"
      then obtain c where "view H a eid = Some c" by auto
      then obtain ev where "ev \<in> set a" "keyed H ev = Some (eid, c)" using view_mem by blast
      then show False using ab(2) None by simp
    qed
    then have "view H a' eid = None" using ba(4) [of eid] None by blast
    then show ?thesis by (simp add: None)
  qed
qed

lemma parity_lists:
  assumes "no_space H" "sync_lists H a b = (Inr ra, b')" "sync_lists H b' a = (Inr rb, a')"
  shows "view H a' = view H b' \<and> view H a \<subseteq>\<^sub>m view H a' \<and> view H b \<subseteq>\<^sub>m view H b'"
    "\<exists>m. sync_lists H a' b' = (Inr \<lparr>sy_synced = 0, sy_skipped = m, sy_last = None\<rparr>, b')"
    "\<exists>n. sync_lists H b' a' = (Inr \<lparr>sy_synced = 0, sy_skipped = n, sy_last = None\<rparr>, a')"
proof -
  note ab = assms(2) and ba = assms(3)
  note v = reconciled_views [OF assms(1) ab ba]
  note ab' = sync_lists_complete [OF assms(1) ab] and ba' = sync_lists_complete [OF assms(1) ba]
  have all: "view H b' eid = Some c" if "ev \<in> set a'" "keyed H ev = Some (eid, c)" for ev eid c
  proof -
    obtain new k l where s: "sync_events H None True (target_index H a) None b' = Inr (new, k, l)" "a' = a @ new"
      using sync_lists_cases [OF ba] by blast
    from that(1) s(2) consider "ev \<in> set a" | "ev \<in> set new" by auto
    then show ?thesis
    proof cases
      case 1
      then show ?thesis using ab'(2) that(2) by blast
    next
      case 2
      with sync_events_complete [OF assms(1) s(1)] obtain e0 i d where
        e0: "e0 \<in> set b'" "ev = with_id e0 i" "keyed H e0 = Some (i, d)" by blast
      then have "keyed H ev = Some (i, d)" using keyed_with_id [OF assms(1)] by blast
      then have "keyed H e0 = Some (eid, c)" using e0(3) that(2) by simp
      then have "view H a' eid = Some c" using ba'(2) e0(1) by blast
      then show ?thesis by (simp add: v)
    qed
  qed
  have "\<exists>m. sync_events H None True (target_index H b') None a' = Inr ([], m, None)"
    by (rule sync_events_nothing) (simp add: map_of_index all)
  then show "\<exists>m. sync_lists H a' b' = (Inr \<lparr>sy_synced = 0, sy_skipped = m, sy_last = None\<rparr>, b')"
    by (auto simp: sync_lists_def sync_pass_def read_watermark_def Let_def)
  show "\<exists>n. sync_lists H b' a' = (Inr \<lparr>sy_synced = 0, sy_skipped = n, sy_last = None\<rparr>, a')" by (rule ba'(5))
  show "view H a' = view H b' \<and> view H a \<subseteq>\<^sub>m view H a' \<and> view H b \<subseteq>\<^sub>m view H b'" using v ab'(3) ba'(3) by simp
qed

section \<open>What the files say\<close>

text \<open>The file holds these events, one object per line, without \<open>NaN\<close> and infinities; and its last line is ended.\<close>

definition says :: "string option \<Rightarrow> payload list \<Rightarrow> bool" where
  "says f evs \<longleftrightarrow> bridge_read f = Inr (map JObj evs) \<and> (\<forall>ev\<in>set evs. wf_json (JObj ev))"

definition file_text :: "string option \<Rightarrow> string" where
  "file_text f = (case f of None \<Rightarrow> [] | Some t \<Rightarrow> t)"

definition terminated :: "string option \<Rightarrow> bool" where
  "terminated f \<longleftrightarrow> file_text f = [] \<or> last (file_text f) = CHR 0x0A"

lemma bridge_read_text: "bridge_read f = parse_lines (split_lines [] (file_text f))"
  by (simp add: bridge_read_def file_text_def split: option.split)

lemma append_text: "file_text (append_events new f) = file_text f @ concat (map ledger_line new)"
  by (simp add: append_events_def file_text_def split: option.split)

lemma append_none [simp]: "append_events [] f = f"
  by (simp add: append_events_def)

lemma event_dicts_objects [simp]: "event_dicts (map JObj evs) = Inr evs"
  by (induction evs) simp_all

lemma parse_lines_append:
  "parse_lines (xs @ ys) = bind_result (parse_lines xs) (\<lambda>vs. bind_result (parse_lines ys) (\<lambda>ws. Inr (vs @ ws)))"
  by (induction xs) (simp_all add: bind_result_def split: sum.split)

lemma printed_line:
  assumes "wf_json (JObj ev)"
  shows "split_lines [] (ledger_line ev @ t) = dumps_spaced (JObj ev) # split_lines [] t"
    "strip (dumps_spaced (JObj ev)) = dumps_spaced (JObj ev)" "dumps_spaced (JObj ev) \<noteq> []"
proof -
  have "\<not> printable_ascii (CHR 0x0A)" "\<not> printable_ascii (CHR 0x0D)" by code_simp+
  then have "no_break (dumps_spaced (JObj ev))"
    using dumps_spaced_printable [OF assms] by (auto simp: no_break_def list_all_iff)
  then show "split_lines [] (ledger_line ev @ t) = dumps_spaced (JObj ev) # split_lines [] t"
    using split_lines_append [of "[]" "dumps_spaced (JObj ev)" t] split_lines_one [of "dumps_spaced (JObj ev)" "[]"]
    by (simp add: ledger_line_def del: dumps_spaced.simps)
  have "\<not> is_space (CHR ''{'')" "\<not> is_space (CHR ''}'')" by code_simp+
  then show "strip (dumps_spaced (JObj ev)) = dumps_spaced (JObj ev)" by (intro strip_unchanged) simp_all
qed simp

lemma parse_printed:
  "\<forall>ev\<in>set evs. wf_json (JObj ev) \<Longrightarrow> parse_lines (split_lines [] (concat (map ledger_line evs))) = Inr (map JObj evs)"
proof (induction evs)
  case (Cons ev evs)
  then have ev: "wf_json (JObj ev)" by simp
  have "parse_lines (dumps_spaced (JObj ev) # split_lines [] (concat (map ledger_line evs))) = Inr (map JObj (ev # evs))"
    using Cons printed_line(2,3) [OF ev] loads_spaced [OF ev] by (simp del: dumps_spaced.simps)
  then show ?case using printed_line(1) [OF ev] by (simp del: dumps_spaced.simps parse_lines.simps)
qed simp

lemma says_append:
  assumes "says f evs" "terminated f" "\<forall>ev\<in>set new. wf_json (JObj ev)"
  shows "says (append_events new f) (evs @ new)" "terminated (append_events new f)"
proof -
  have f: "file_text f = [] \<or> (\<exists>s. file_text f = s @ [CHR 0x0A])"
    using assms(2) by (metis append_butlast_last_id terminated_def)
  then have "split_lines [] (file_text f @ t) = split_lines [] (file_text f) @ split_lines [] t" for t
    using split_lines_append [of "[]" _ t] by auto
  then show "says (append_events new f) (evs @ new)"
    using assms(1,3) parse_printed [OF assms(3)] by (auto simp: says_def bridge_read_text append_text parse_lines_append)
  show "terminated (append_events new f)"
  proof (cases new rule: rev_cases)
    case (snoc evs ev)
    then show ?thesis by (simp add: terminated_def append_text ledger_line_def)
  qed (use assms(2) in simp)
qed

lemma with_id_wf: "wf_json (JObj ev) \<Longrightarrow> wf_json (JObj (with_id ev eid))"
proof -
  assume wf: "wf_json (JObj ev)"
  have "wf_members (AList.update ''event_id'' (JStr eid) ev)" using wf by (induction ev) auto
  then show ?thesis using wf by (simp add: with_id_def distinct_update)
qed

text \<open>A pass over files is the pass over the events they say.\<close>

lemma sync_ledgers_eq:
  assumes "says a ea" "says b eb"
  shows "sync_ledgers H a b = (case sync_pass H ea eb None of
     Inl e \<Rightarrow> (Inl e, b)
   | Inr (new, skipped, l) \<Rightarrow> (Inr \<lparr>sy_synced = length new, sy_skipped = skipped, sy_last = l\<rparr>, append_events new b))"
  using assms by (simp add: sync_ledgers_def sync_forward_def says_def split: sum.split prod.split)

lemma sync_ledgers_refines:
  assumes "no_space H" "says a ea" "says b eb" "terminated b" "sync_ledgers H a b = (Inr r, b')"
  obtains eb' s where "sync_lists H ea eb = (Inr r, eb')" "says b' eb'" "terminated b'" "file_text b' = file_text b @ s"
proof -
  obtain new skipped l where s: "sync_pass H ea eb None = Inr (new, skipped, l)" "b' = append_events new b"
    "r = \<lparr>sy_synced = length new, sy_skipped = skipped, sy_last = l\<rparr>"
    using assms(5) sync_ledgers_eq [OF assms(2,3), of H] by (auto split: sum.splits prod.splits)
  then have "sync_events H None True (target_index H eb) None ea = Inr (new, skipped, l)"
    by (simp add: sync_pass_def read_watermark_def)
  note new = sync_events_complete [OF assms(1) this, THEN conjunct2, THEN conjunct1]
  have "\<forall>ev\<in>set new. wf_json (JObj ev)"
  proof
    fix ev assume "ev \<in> set new"
    with new obtain e0 eid where "e0 \<in> set ea" "ev = with_id e0 eid" by blast
    moreover have "wf_json (JObj e0)" using assms(2) \<open>e0 \<in> set ea\<close> unfolding says_def by blast
    ultimately show "wf_json (JObj ev)" using with_id_wf by blast
  qed
  note app = says_append [OF assms(3,4) this]
  show thesis
    by (rule that [of "eb @ new" "concat (map ledger_line new)"]) (use app s append_text in \<open>simp_all add: sync_lists_def\<close>)
qed

lemma sync_ledgers_nothing:
  assumes "says a ea" "says b eb" "sync_lists H ea eb = (Inr \<lparr>sy_synced = 0, sy_skipped = n, sy_last = l\<rparr>, eb)"
  shows "sync_ledgers H a b = (Inr \<lparr>sy_synced = 0, sy_skipped = n, sy_last = l\<rparr>, b)"
  using assms(3) sync_ledgers_eq [OF assms(1,2), of H] by (auto simp: sync_lists_def split: sum.splits prod.splits)

text \<open>
  C31. Parity: when the reconciliation of two ledgers returns, whose files hold one finite JSON object per line and
  end in a newline (or are empty or missing), both files can be read, hold the same identifiers with the same
  texts, have only been appended to, nothing they said was changed, and reconciling again changes neither.
\<close>

theorem reconcile_parity:
  assumes "no_space H" and "says a ea" and "says b eb" and "terminated a" and "terminated b"
    and "reconcile_bidirectional H a b = (Inr (ra, rb), a', b')"
  shows "\<exists>ea' eb'. says a' ea' \<and> says b' eb' \<and> view H ea' = view H eb' \<and> view H ea \<subseteq>\<^sub>m view H ea' \<and> view H eb \<subseteq>\<^sub>m view H eb'
    \<and> (\<exists>s. file_text a' = file_text a @ s) \<and> (\<exists>s. file_text b' = file_text b @ s)
    \<and> (\<exists>m n. reconcile_bidirectional H a' b'
        = (Inr (\<lparr>sy_synced = 0, sy_skipped = m, sy_last = None\<rparr>, \<lparr>sy_synced = 0, sy_skipped = n, sy_last = None\<rparr>), a', b'))"
proof -
  have ab: "sync_ledgers H a b = (Inr ra, b')" and ba: "sync_ledgers H b' a = (Inr rb, a')"
    using assms(6) by (auto simp: reconcile_bidirectional_def split: prod.splits sum.splits)
  obtain eb' sb where b': "sync_lists H ea eb = (Inr ra, eb')" "says b' eb'" "terminated b'" "file_text b' = file_text b @ sb"
    by (rule sync_ledgers_refines [OF assms(1-3,5) ab])
  obtain ea' sa where a': "sync_lists H eb' ea = (Inr rb, ea')" "says a' ea'" "file_text a' = file_text a @ sa"
    by (rule sync_ledgers_refines [OF assms(1) b'(2) assms(2,4) ba])
  note lists = parity_lists [OF assms(1) b'(1) a'(1)]
  obtain m n where "sync_ledgers H a' b' = (Inr \<lparr>sy_synced = 0, sy_skipped = m, sy_last = None\<rparr>, b')"
    "sync_ledgers H b' a' = (Inr \<lparr>sy_synced = 0, sy_skipped = n, sy_last = None\<rparr>, a')"
    using lists(2,3) sync_ledgers_nothing [OF a'(2) b'(2)] sync_ledgers_nothing [OF b'(2) a'(2)] by blast
  then have "reconcile_bidirectional H a' b'
      = (Inr (\<lparr>sy_synced = 0, sy_skipped = m, sy_last = None\<rparr>, \<lparr>sy_synced = 0, sy_skipped = n, sy_last = None\<rparr>), a', b')"
    by (simp add: reconcile_bidirectional_def)
  then show ?thesis using lists(1) a' b' by blast
qed

text \<open>Two ledgers with one common event, one without an identifier and one that is known under another type of name.\<close>

definition sample_a :: "payload list" where
  "sample_a = [[(''event_id'', JStr ''e1''), (''v'', JInt 1)],
     [(''type'', JStr ''CLAIM''), (''item_id'', JStr ''i''), (''at'', JStr ''t'')], [(''note'', JStr ''x'')]]"

definition sample_b :: "payload list" where
  "sample_b = [[(''event_id'', JStr '' e2 '')], [(''v'', JInt 1), (''event_id'', JStr ''e1'')]]"

definition sample_hash :: "string \<Rightarrow> string" where "sample_hash t = ''0f''"

lemma sample_hash_no_space: "no_space sample_hash"
  by (simp add: no_space_def sample_hash_def is_space_def char_code_def)

definition file_a :: "string option" where "file_a = append_events sample_a None"
definition file_b :: "string option" where "file_b = append_events sample_b None"

lemma sample_files: "says file_a sample_a" "says file_b sample_b" "terminated file_a" "terminated file_b"
proof -
  have "list_all (\<lambda>ev. wf_json (JObj ev)) (sample_a @ sample_b)" by code_simp
  then have wf: "\<forall>ev\<in>set sample_a. wf_json (JObj ev)" "\<forall>ev\<in>set sample_b. wf_json (JObj ev)" by (simp_all add: list_all_iff)
  have none: "says None []" "terminated None" by (simp_all add: says_def bridge_read_def terminated_def file_text_def)
  show "says file_a sample_a" "terminated file_a" "says file_b sample_b" "terminated file_b"
    using says_append [OF none wf(1)] says_append [OF none wf(2)] by (simp_all add: file_a_def file_b_def)
qed

lemma sample_reconciled:
  "reconcile_bidirectional sample_hash file_a file_b = (Inr (\<lparr>sy_synced = 1, sy_skipped = 1, sy_last = Some ''wq-i-0f''\<rparr>,
     \<lparr>sy_synced = 1, sy_skipped = 2, sy_last = Some ''e2''\<rparr>),
     append_events [[(''event_id'', JStr '' e2 '')]] file_a,
     append_events [[(''type'', JStr ''CLAIM''), (''item_id'', JStr ''i''), (''at'', JStr ''t''), (''event_id'', JStr ''wq-i-0f'')]] file_b)"
  by code_simp

lemma reconcile_parity_witness:
  "\<exists>ea eb. says (append_events [[(''event_id'', JStr '' e2 '')]] file_a) ea
    \<and> says (append_events [[(''type'', JStr ''CLAIM''), (''item_id'', JStr ''i''), (''at'', JStr ''t''), (''event_id'', JStr ''wq-i-0f'')]] file_b) eb
    \<and> view sample_hash ea = view sample_hash eb"
  using reconcile_parity [OF sample_hash_no_space sample_files sample_reconciled] by blast

text \<open>
  The proviso is needed. A last line without its newline merges with the first event that is appended. Here the
  reconciliation returns, and the first ledger cannot be read any more.
\<close>

definition unended :: "string option" where
  "unended = Some (dumps_spaced (JObj [(''event_id'', JStr ''e1'')]))"

theorem unterminated_line_merges:
  "bridge_read unended = Inr [JObj [(''event_id'', JStr ''e1'')]]
   \<and> reconcile_bidirectional sample_hash unended (append_events [[(''event_id'', JStr ''e1'')], [(''event_id'', JStr ''e2'')]] None)
     = (Inr (\<lparr>sy_synced = 0, sy_skipped = 1, sy_last = None\<rparr>, \<lparr>sy_synced = 1, sy_skipped = 1, sy_last = Some ''e2''\<rparr>),
        append_events [[(''event_id'', JStr ''e2'')]] unended,
        append_events [[(''event_id'', JStr ''e1'')], [(''event_id'', JStr ''e2'')]] None)
   \<and> bridge_read (append_events [[(''event_id'', JStr ''e2'')]] unended) = Inl (ValueError ''JSONDecodeError'')"
  by code_simp

lemma sample_synced:
  "sync_lists sample_hash sample_a sample_b = (Inr \<lparr>sy_synced = 1, sy_skipped = 1, sy_last = Some ''wq-i-0f''\<rparr>,
     sample_b @ [[(''type'', JStr ''CLAIM''), (''item_id'', JStr ''i''), (''at'', JStr ''t''), (''event_id'', JStr ''wq-i-0f'')]])"
  by code_simp

lemma sync_is_complete_and_idempotent_witness:
  "no_space sample_hash \<and> (\<exists>n. sync_lists sample_hash sample_a
     (sample_b @ [[(''type'', JStr ''CLAIM''), (''item_id'', JStr ''i''), (''at'', JStr ''t''), (''event_id'', JStr ''wq-i-0f'')]])
     = (Inr \<lparr>sy_synced = 0, sy_skipped = n, sy_last = None\<rparr>,
     sample_b @ [[(''type'', JStr ''CLAIM''), (''item_id'', JStr ''i''), (''at'', JStr ''t''), (''event_id'', JStr ''wq-i-0f'')]]))"
  using sync_is_complete_and_idempotent [OF sample_hash_no_space sample_synced] sample_hash_no_space by blast

text \<open>
  With a watermark the events up to it count as delivered: a target that lost them does not get them back, the event
  of the watermark included.
\<close>

theorem watermark_hides_earlier_events:
  "sync_forward sample_hash file_a None (Some (Some ''wq-i-0f'')) =
     (Inr \<lparr>sy_synced = 0, sy_skipped = 0, sy_last = Some ''wq-i-0f''\<rparr>, None, Some (Some ''wq-i-0f''))"
  by code_simp

end
