(* ===== verification/Provider_Failover.thy ===== *)
theory Provider_Failover
  imports Prelude Py_Float "HOL-Library.Log_Nat" "HOL-Library.AList"
begin

text \<open>
  The cost guard (courier\_core/provider\_cost\_guard.py) and the failover router that calls it before every
  provider (courier\_core/provider\_failover.py). A handler is a function on the world that succeeds or raises,
  the clock another one, so that a theorem about the world says which handlers ran. No handler runs whose
  cost the guard did not approve or whose circuit is open, and a failed handler that is not idempotent is the last.
\<close>

section \<open>The cost guard\<close>

datatype float_value = Finite rat | NegZero | PosInf | NegInf | NotANumber

text \<open>What a cost estimate or a limit can be in Python: \<open>None\<close> or absent, a bool, an int, a float, anything else.\<close>

datatype cost = NoCost | BoolCost bool | IntCost int | FloatCost float_value | OtherCost

text \<open>\<open>float(i)\<close>: the nearest double, ties to even; an integer beyond the range raises \<open>OverflowError\<close>.\<close>

definition float_of_int :: "int \<Rightarrow> float_value result" where
  "float_of_int i =
     (if \<bar>i\<bar> < 2 ^ 53 then Inr (Finite (of_int i))
      else let unit = 2 ^ nat (bitlen \<bar>i\<bar> - 53); r = round_half_even (of_int i / of_int unit) * unit in
        if 2 ^ 1024 \<le> \<bar>r\<bar> then Inl (OverflowError ''int too large to convert to float'') else Inr (Finite (of_int r)))"

fun float_of_cost :: "cost \<Rightarrow> float_value result" where
  "float_of_cost (IntCost i) = float_of_int i"
| "float_of_cost (FloatCost f) = Inr f"
| "float_of_cost _ = Inl (TypeError ''float() argument'')"

text \<open>\<open>x < 0.0\<close> and \<open>x > y\<close> with Python's exact comparison of integers and floats; comparisons with NaN are false.\<close>

fun float_negative :: "float_value \<Rightarrow> bool" where
  "float_negative (Finite x) = (x < 0)"
| "float_negative NegInf = True"
| "float_negative _ = False"

fun float_finite :: "float_value \<Rightarrow> bool" where
  "float_finite (Finite x) = True"
| "float_finite NegZero = True"
| "float_finite _ = False"

fun limit_valid :: "cost \<Rightarrow> bool" where
  "limit_valid (IntCost i) = (0 \<le> i)"
| "limit_valid (FloatCost f) = (f \<noteq> NotANumber \<and> \<not> float_negative f)"
| "limit_valid _ = False"

fun exact_value :: "float_value \<Rightarrow> rat" where
  "exact_value (Finite x) = x"
| "exact_value _ = 0"

fun above_limit :: "rat \<Rightarrow> cost \<Rightarrow> bool" where
  "above_limit x (IntCost i) = (of_int i < x)"
| "above_limit x (FloatCost PosInf) = False"
| "above_limit x (FloatCost f) = (exact_value f < x)"
| "above_limit x _ = False"

record cost_verdict =
  cv_allowed :: bool
  cv_reason :: string
  cv_cost_eur :: "float_value option"
  cv_provider :: string
  cv_model :: string

record cost_spec =
  cs_provider :: string
  cs_model :: string
  cs_cost_estimate_eur :: cost

definition blocked_verdict :: "string \<Rightarrow> float_value option \<Rightarrow> string \<Rightarrow> string \<Rightarrow> cost_verdict" where
  "blocked_verdict reason c provider model = \<lparr>cv_allowed = False, cv_reason = reason, cv_cost_eur = c, cv_provider = provider, cv_model = model\<rparr>"

text \<open>A specification is \<open>None\<close> when it is not a dict or empty.\<close>

definition evaluate_cost_gate :: "cost_spec option \<Rightarrow> cost \<Rightarrow> cost_verdict result" where
  "evaluate_cost_gate spec_opt limit = (case spec_opt of None \<Rightarrow> Inr (blocked_verdict ''INVALID_SPEC'' None [] [])
   | Some spec \<Rightarrow>
     (let provider = strip (cs_provider spec); model = strip (cs_model spec); raw_cost = cs_cost_estimate_eur spec in
      if provider = [] \<or> model = [] then Inr (blocked_verdict ''INVALID_SPEC'' None provider model)
      else if raw_cost = NoCost then Inr (blocked_verdict ''UNKNOWN_COST_BLOCKED'' None provider model)
      else case raw_cost of
        BoolCost _ \<Rightarrow> Inr (blocked_verdict ''INVALID_SPEC'' None provider model)
      | OtherCost \<Rightarrow> Inr (blocked_verdict ''INVALID_SPEC'' None provider model)
      | _ \<Rightarrow> bind_result (float_of_cost raw_cost) (\<lambda>cost_val.
          if float_negative cost_val \<or> cost_val = NegZero \<or> \<not> float_finite cost_val
          then Inr (blocked_verdict ''INVALID_SPEC'' (Some cost_val) provider model)
          else if \<not> limit_valid limit then Inr (blocked_verdict ''INVALID_SPEC'' (Some cost_val) provider model)
          else if above_limit (exact_value cost_val) limit
          then Inr (blocked_verdict ''AUTONOMOUS_SPEND_LIMIT_EXCEEDED'' (Some cost_val) provider model)
          else Inr \<lparr>cv_allowed = True, cv_reason = ''ZERO_COST_APPROVED'', cv_cost_eur = Some cost_val,
            cv_provider = provider, cv_model = model\<rparr>)))"

section \<open>The circuit breaker\<close>

datatype breaker_state = CLOSED | OPEN | HALF_OPEN

record circuit =
  cb_failure_threshold :: int
  cb_cooldown_seconds :: rat
  cb_failure_count :: int
  cb_last_failure_time :: rat
  cb_state :: breaker_state

definition new_circuit :: "int \<Rightarrow> rat \<Rightarrow> circuit" where
  "new_circuit threshold cooldown = \<lparr>cb_failure_threshold = threshold, cb_cooldown_seconds = cooldown,
     cb_failure_count = 0, cb_last_failure_time = 0, cb_state = CLOSED\<rparr>"

definition can_attempt :: "rat \<Rightarrow> circuit \<Rightarrow> bool \<times> circuit" where
  "can_attempt now cb = (case cb_state cb of
     CLOSED \<Rightarrow> (True, cb)
   | OPEN \<Rightarrow> if cb_cooldown_seconds cb \<le> now - cb_last_failure_time cb then (True, cb\<lparr>cb_state := HALF_OPEN\<rparr>) else (False, cb)
   | HALF_OPEN \<Rightarrow> (True, cb))"

definition record_success :: "circuit \<Rightarrow> circuit" where
  "record_success cb = cb\<lparr>cb_failure_count := 0, cb_state := CLOSED\<rparr>"

definition breaker_failure :: "rat \<Rightarrow> circuit \<Rightarrow> circuit" where
  "breaker_failure now cb =
     (let cb' = cb\<lparr>cb_failure_count := cb_failure_count cb + 1, cb_last_failure_time := now\<rparr> in
      if cb_failure_threshold cb' \<le> cb_failure_count cb' then cb'\<lparr>cb_state := OPEN\<rparr> else cb')"

section \<open>The router\<close>

text \<open>A handler runs in the world and returns an output or the text of an exception.\<close>

record ('w, 'o) candidate =
  ca_provider_id :: string
  ca_cost_estimate_eur :: cost
  ca_model :: string
  ca_handler :: "('w \<Rightarrow> (string + 'o) \<times> 'w) option"

datatype attempt_status = COST_GATE_BLOCKED string | CIRCUIT_OPEN_SKIPPED | SELECTED | SUCCESS | FAILED string

type_synonym attempts = "(string \<times> attempt_status) list"

record 'o routing_result =
  rr_success :: bool
  rr_chosen_provider :: "string option"
  rr_output :: "'o option"
  rr_error :: "string option"
  rr_attempts :: attempts

record router =
  ro_spend_limit_eur :: cost
  ro_failure_threshold :: int
  ro_cooldown_seconds :: rat
  ro_circuits :: "(string \<times> circuit) list"

definition new_router :: "cost \<Rightarrow> int \<Rightarrow> rat \<Rightarrow> router" where
  "new_router limit threshold cooldown = \<lparr>ro_spend_limit_eur = limit, ro_failure_threshold = threshold,
     ro_cooldown_seconds = cooldown, ro_circuits = []\<rparr>"

definition get_circuit :: "string \<Rightarrow> router \<Rightarrow> circuit" where
  "get_circuit p ro = (case map_of (ro_circuits ro) p of Some cb \<Rightarrow> cb
     | None \<Rightarrow> new_circuit (ro_failure_threshold ro) (ro_cooldown_seconds ro))"

definition put_circuit :: "string \<Rightarrow> circuit \<Rightarrow> router \<Rightarrow> router" where
  "put_circuit p cb ro = ro\<lparr>ro_circuits := AList.update p cb (ro_circuits ro)\<rparr>"

definition get_circuit_state :: "rat \<Rightarrow> string \<Rightarrow> router \<Rightarrow> breaker_state \<times> router" where
  "get_circuit_state now p ro = (let cb = snd (can_attempt now (get_circuit p ro)) in (cb_state cb, put_circuit p cb ro))"

definition spec_of :: "('w, 'o) candidate \<Rightarrow> cost_spec" where
  "spec_of c = \<lparr>cs_provider = ca_provider_id c, cs_model = ca_model c, cs_cost_estimate_eur = ca_cost_estimate_eur c\<rparr>"

definition routed :: "string \<Rightarrow> 'o option \<Rightarrow> attempts \<Rightarrow> 'o routing_result" where
  "routed p out as = \<lparr>rr_success = True, rr_chosen_provider = Some p, rr_output = out, rr_error = None, rr_attempts = as\<rparr>"

definition not_routed :: "string \<Rightarrow> attempts \<Rightarrow> 'o routing_result" where
  "not_routed e as = \<lparr>rr_success = False, rr_chosen_provider = None, rr_output = None, rr_error = Some e, rr_attempts = as\<rparr>"

fun failover :: "('w \<Rightarrow> rat \<times> 'w) \<Rightarrow> bool \<Rightarrow> attempts \<Rightarrow> ('w, 'o) candidate list \<Rightarrow> router \<Rightarrow> 'w
    \<Rightarrow> 'o routing_result result \<times> router \<times> 'w" where
  "failover clock idempotent as [] ro w = (Inr (not_routed ''ALL_PROVIDERS_EXHAUSTED_OR_BLOCKED'' as), ro, w)"
| "failover clock idempotent as (c # cs) ro w = (let p = ca_provider_id c in
     case evaluate_cost_gate (Some (spec_of c)) (ro_spend_limit_eur ro) of
       Inl e \<Rightarrow> (Inl e, ro, w)
     | Inr v \<Rightarrow>
        if \<not> cv_allowed v then failover clock idempotent (as @ [(p, COST_GATE_BLOCKED (cv_reason v))]) cs ro w
        else (let (now, w1) = clock w; (ok, cb) = can_attempt now (get_circuit p ro); ro1 = put_circuit p cb ro in
          if \<not> ok then failover clock idempotent (as @ [(p, CIRCUIT_OPEN_SKIPPED)]) cs ro1 w1
          else case ca_handler c of
            None \<Rightarrow> (Inr (routed p None (as @ [(p, SELECTED)])), ro1, w1)
          | Some h \<Rightarrow> (case h w1 of
              (Inr out, w2) \<Rightarrow> (Inr (routed p (Some out) (as @ [(p, SUCCESS)])), put_circuit p (record_success cb) ro1, w2)
            | (Inl e, w2) \<Rightarrow> (let (now2, w3) = clock w2; ro2 = put_circuit p (breaker_failure now2 cb) ro1;
                as' = as @ [(p, FAILED e)] in
                if \<not> idempotent then (Inr (not_routed ''NON_IDEMPOTENT_HANDLER_FAILED_NO_FAILOVER'' as'), ro2, w3)
                else failover clock idempotent as' cs ro2 w3))))"

definition execute_with_failover :: "('w \<Rightarrow> rat \<times> 'w) \<Rightarrow> ('w, 'o) candidate list \<Rightarrow> bool \<Rightarrow> router \<Rightarrow> 'w
    \<Rightarrow> 'o routing_result result \<times> router \<times> 'w" where
  "execute_with_failover clock candidates idempotent ro w = failover clock idempotent [] candidates ro w"

section \<open>Which handlers run\<close>

text \<open>A cost the guard approves: a finite number that is not negative and not above a valid limit.\<close>

definition affordable :: "cost \<Rightarrow> ('w, 'o) candidate \<Rightarrow> bool" where
  "affordable limit c \<longleftrightarrow> (\<exists>x. float_of_cost (ca_cost_estimate_eur c) = Inr (Finite x) \<and> 0 \<le> x \<and> limit_valid limit
     \<and> \<not> above_limit x limit)"

lemma gate_allows_affordable:
  assumes "evaluate_cost_gate (Some (spec_of c)) limit = Inr v" "cv_allowed v"
  shows "affordable limit c"
proof -
  obtain f where f: "float_of_cost (ca_cost_estimate_eur c) = Inr f" "\<not> float_negative f" "f \<noteq> NegZero" "float_finite f"
    "limit_valid limit" "\<not> above_limit (exact_value f) limit"
    using assms by (auto simp: evaluate_cost_gate_def Let_def blocked_verdict_def spec_of_def
        split: if_splits cost.splits elim!: bind_resultE)
  then show ?thesis by (cases f) (auto simp: affordable_def)
qed

lemma put_circuit_simps [simp]:
  "ro_spend_limit_eur (put_circuit p cb ro) = ro_spend_limit_eur ro"
  "map_of (ro_circuits (put_circuit p cb ro)) = (map_of (ro_circuits ro))(p \<mapsto> cb)"
  by (simp_all add: put_circuit_def update_conv')

text \<open>
  One round of the router by its four ways: blocked or skipped, selected, done, or failed. The rules for runs follow from
  it by induction.
\<close>

lemma failover_round:
  assumes blocked: "\<And>v. evaluate_cost_gate (Some (spec_of c)) (ro_spend_limit_eur ro) = Inr v \<Longrightarrow> \<not> cv_allowed v \<Longrightarrow>
      P (failover clock idem (as @ [(ca_provider_id c, COST_GATE_BLOCKED (cv_reason v))]) cs ro w)"
    and raised: "\<And>e. P (Inl e, ro, w)"
    and skipped: "\<And>now w1 cb. affordable (ro_spend_limit_eur ro) c \<Longrightarrow> clock w = (now, w1) \<Longrightarrow>
      can_attempt now (get_circuit (ca_provider_id c) ro) = (False, cb) \<Longrightarrow>
      P (failover clock idem (as @ [(ca_provider_id c, CIRCUIT_OPEN_SKIPPED)]) cs (put_circuit (ca_provider_id c) cb ro) w1)"
    and selected: "\<And>now w1 cb. clock w = (now, w1) \<Longrightarrow>
      can_attempt now (get_circuit (ca_provider_id c) ro) = (True, cb) \<Longrightarrow> ca_handler c = None \<Longrightarrow>
      P (Inr (routed (ca_provider_id c) None (as @ [(ca_provider_id c, SELECTED)])), put_circuit (ca_provider_id c) cb ro, w1)"
    and succeeded: "\<And>now w1 cb h out w2. affordable (ro_spend_limit_eur ro) c \<Longrightarrow> clock w = (now, w1) \<Longrightarrow>
      can_attempt now (get_circuit (ca_provider_id c) ro) = (True, cb) \<Longrightarrow> ca_handler c = Some h \<Longrightarrow> h w1 = (Inr out, w2) \<Longrightarrow>
      P (Inr (routed (ca_provider_id c) (Some out) (as @ [(ca_provider_id c, SUCCESS)])),
         put_circuit (ca_provider_id c) (record_success cb) (put_circuit (ca_provider_id c) cb ro), w2)"
    and failed: "\<And>now w1 cb h e w2 now2 w3 ro2 as'. affordable (ro_spend_limit_eur ro) c \<Longrightarrow> clock w = (now, w1) \<Longrightarrow>
      can_attempt now (get_circuit (ca_provider_id c) ro) = (True, cb) \<Longrightarrow> ca_handler c = Some h \<Longrightarrow> h w1 = (Inl e, w2) \<Longrightarrow>
      clock w2 = (now2, w3) \<Longrightarrow> as' = as @ [(ca_provider_id c, FAILED e)] \<Longrightarrow>
      ro2 = put_circuit (ca_provider_id c) (breaker_failure now2 cb) (put_circuit (ca_provider_id c) cb ro) \<Longrightarrow>
      P (if idem then failover clock idem as' cs ro2 w3
         else (Inr (not_routed ''NON_IDEMPOTENT_HANDLER_FAILED_NO_FAILOVER'' as'), ro2, w3))"
  shows "P (failover clock idem as (c # cs) ro w)"
proof (cases "evaluate_cost_gate (Some (spec_of c)) (ro_spend_limit_eur ro)")
  case (Inl e)
  then show ?thesis using raised by (simp add: Let_def)
next
  case (Inr v)
  show ?thesis
  proof (cases "cv_allowed v")
    case False
    then show ?thesis using blocked [OF Inr] Inr by (simp add: Let_def)
  next
    case True
    note aff = gate_allows_affordable [OF Inr True]
    obtain now w1 where clk: "clock w = (now, w1)" by force
    obtain ok cb where att: "can_attempt now (get_circuit (ca_provider_id c) ro) = (ok, cb)" by force
    note d = Inr True clk att
    show ?thesis
    proof (cases ok)
      case False
      then show ?thesis using skipped [OF aff clk] d by (simp add: Let_def)
    next
      case ok: True
      show ?thesis
      proof (cases "ca_handler c")
        case None
        then show ?thesis using selected [OF clk] d ok by (simp add: Let_def)
      next
        case (Some h)
        obtain r w2 where h: "h w1 = (r, w2)" by force
        obtain now2 w3 where clk2: "clock w2 = (now2, w3)" by force
        show ?thesis
        proof (cases r)
          case (Inl e)
          then have h': "h w1 = (Inl e, w2)" using h by simp
          have "can_attempt now (get_circuit (ca_provider_id c) ro) = (True, cb)" using att ok by simp
          from failed [OF aff clk this Some h' clk2 refl refl] show ?thesis
            using d ok Some h' clk2 by (cases idem) (simp_all add: Let_def)
        next
          case (Inr out)
          then show ?thesis using succeeded [OF aff clk _ Some] d ok Some h by (simp add: Let_def)
        qed
      qed
    qed
  qed
qed


text \<open>
  C32. Nothing that the cost guard does not approve is ever executed: whatever holds of the world, and is kept by
  reading the clock and by the handlers of those candidates whose cost is a finite number between zero and the
  limit, still holds after the router returned or raised.
\<close>

theorem unapproved_handlers_never_run:
  assumes "Q w" "\<And>u. Q u \<Longrightarrow> Q (snd (clock u))"
    and "\<And>c h u. c \<in> set candidates \<Longrightarrow> affordable (ro_spend_limit_eur ro) c \<Longrightarrow> ca_handler c = Some h \<Longrightarrow> Q u \<Longrightarrow> Q (snd (h u))"
  shows "Q (snd (snd (execute_with_failover clock candidates idempotent ro w)))"
proof -
  have "Q (snd (snd (failover clock idempotent as candidates ro w)))" for as
    using assms(1,3)
  proof (induction candidates arbitrary: as ro w)
    case (Cons c cs)
    have clk: "Q w1" if "clock u = (now, w1)" "Q u" for u now w1 using assms(2) [OF that(2)] that(1) by simp
    have hand: "Q w2" if "ca_handler c = Some h" "affordable (ro_spend_limit_eur ro) c" "h u = (r, w2)" "Q u" for h u r w2
      using Cons.prems(2) [of c h u] that by simp
    have rest: "Q (snd (snd (failover clock idempotent as cs ro' u)))"
      if "Q u" "ro_spend_limit_eur ro' = ro_spend_limit_eur ro" for as ro' u
      by (rule Cons.IH [OF that(1)]) (use Cons.prems(2) that(2) in auto)
    show ?case
    proof (rule failover_round [where P = "\<lambda>t. Q (snd (snd t))"], goal_cases)
      case (3 now w1 cb)
      then show ?case using clk [of w] Cons.prems(1) by (intro rest) auto
    next
      case (4 now w1 cb)
      then show ?case using clk [of w] Cons.prems(1) by auto
    next
      case (5 now w1 cb h out w2)
      then show ?case using hand [of h w1] clk [of w] Cons.prems(1) by auto
    next
      case (6 now w1 cb h e w2 now2 w3 ro2 as')
      then have "Q w3" using clk [of w2] hand [of h w1] clk [of w] Cons.prems(1) by auto
      moreover have "Q (snd (snd (failover clock idempotent as' cs ro2 w3)))" using \<open>Q w3\<close> 6 by (intro rest) auto
      ultimately show ?case by (cases idempotent) simp_all
    qed (use Cons.prems(1) rest in auto)
  qed simp
  then show ?thesis by (simp add: execute_with_failover_def)
qed

text \<open>A run of a handler, as the attempts report it.\<close>

fun is_run :: "attempt_status \<Rightarrow> bool" where
  "is_run SUCCESS = True"
| "is_run (FAILED _) = True"
| "is_run _ = False"

definition runs :: "attempts \<Rightarrow> nat" where
  "runs as = length (filter (is_run \<circ> snd) as)"

lemma runs_simps [simp]: "runs [] = 0" "runs (as @ [a]) = runs as + (if is_run (snd a) then 1 else 0)"
  by (simp_all add: runs_def)

text \<open>What the attempts made so far look like while the router goes on, and those of the result.\<close>

definition going_on :: "bool \<Rightarrow> attempts \<Rightarrow> bool" where
  "going_on idempotent as \<longleftrightarrow> (\<forall>a \<in> set as. snd a \<noteq> SUCCESS \<and> snd a \<noteq> SELECTED) \<and> (\<not> idempotent \<longrightarrow> runs as = 0)"

definition accounted :: "bool \<Rightarrow> 'o routing_result \<Rightarrow> bool" where
  "accounted idempotent r \<longleftrightarrow> (\<forall>a \<in> set (butlast (rr_attempts r)). snd a \<noteq> SUCCESS \<and> snd a \<noteq> SELECTED)
    \<and> (rr_success r \<longleftrightarrow> rr_attempts r \<noteq> [] \<and> snd (last (rr_attempts r)) \<in> {SUCCESS, SELECTED})
    \<and> (rr_success r \<longrightarrow> rr_chosen_provider r = Some (fst (last (rr_attempts r))))
    \<and> (\<not> idempotent \<longrightarrow> runs (rr_attempts r) \<le> 1)"

lemma accounted_routed: "going_on idempotent as \<Longrightarrow> st \<in> {SUCCESS, SELECTED} \<Longrightarrow> accounted idempotent (routed p out (as @ [(p, st)]))"
  by (auto simp: going_on_def accounted_def routed_def)

lemma accounted_not_routed:
  "going_on idempotent as \<Longrightarrow> accounted idempotent (not_routed e as)"
  "going_on idempotent as \<Longrightarrow> accounted idempotent (not_routed e (as @ [(p, FAILED t)]))"
  by (auto simp: going_on_def accounted_def not_routed_def dest: in_set_butlastD last_in_set)

lemma failover_accounts:
  fixes calls :: "'w \<Rightarrow> nat"
  assumes "\<And>u. calls (snd (clock u)) = calls u"
    and "\<And>c h u. c \<in> set candidates \<Longrightarrow> ca_handler c = Some h \<Longrightarrow> calls (snd (h u)) = Suc (calls u)"
    and "going_on idempotent as" "calls w = n + runs as"
  shows "case failover clock idempotent as candidates ro w of
      (Inr r, ro', w') \<Rightarrow> calls w' = n + runs (rr_attempts r) \<and> accounted idempotent r | _ \<Rightarrow> True"
  using assms(2-4)
proof (induction candidates arbitrary: as ro w)
  case Nil
  then show ?case using accounted_not_routed(1) [of idempotent as] by (auto simp: not_routed_def)
next
  case (Cons c cs)
  let ?P = "\<lambda>t. case t of (Inr r, ro', w') \<Rightarrow> calls w' = n + runs (rr_attempts r) \<and> accounted idempotent r | _ \<Rightarrow> True"
  have clk: "calls w1 = calls u" if "clock u = (now, w1)" for u now w1 using assms(1) [of u] that by simp
  have hand: "calls w2 = Suc (calls u)" if "ca_handler c = Some h" "h u = (res, w2)" for h u res w2
    using Cons.prems(1) [of c h u] that by simp
  have rest: "?P (failover clock idempotent as' cs ro' u)" if "going_on idempotent as'" "calls u = n + runs as'" for as' ro' u
    by (rule Cons.IH [OF _ that]) (use Cons.prems(1) in auto)
  show ?case
  proof (rule failover_round [where P = ?P], goal_cases)
    case (1 v)
    show ?case by (rule rest) (use Cons.prems in \<open>auto simp: going_on_def\<close>)
  next
    case (3 now w1 cb)
    show ?case by (rule rest) (use Cons.prems clk 3 in \<open>auto simp: going_on_def\<close>)
  next
    case (4 now w1 cb)
    have "accounted idempotent (routed (ca_provider_id c) None (as @ [(ca_provider_id c, SELECTED)]))"
      by (rule accounted_routed [OF Cons.prems(2)]) simp
    then show ?case using Cons.prems(3) clk [OF 4(1)] by (simp add: routed_def)
  next
    case (5 now w1 cb h out w2)
    have "accounted idempotent (routed (ca_provider_id c) (Some out) (as @ [(ca_provider_id c, SUCCESS)]))"
      by (rule accounted_routed [OF Cons.prems(2)]) simp
    then show ?case using Cons.prems(3) clk [OF 5(2)] hand [OF 5(4,5)] by (simp add: routed_def)
  next
    case (6 now w1 cb h e w2 now2 w3 ro2 as')
    have n: "calls w3 = n + runs as'" using clk [OF 6(2)] clk [OF 6(6)] hand [OF 6(4,5)] Cons.prems(3) 6(7) by simp
    show ?case
    proof (cases idempotent)
      case True
      then have "going_on idempotent as'" using Cons.prems(2) 6(7) by (auto simp: going_on_def)
      from rest [OF this n] show ?thesis using True by simp
    next
      case False
      then show ?thesis using n accounted_not_routed(2) [OF Cons.prems(2)] 6(7) by (simp add: not_routed_def)
    qed
  qed simp
qed

text \<open>
  The audit is exact. Let \<open>calls\<close> count handler calls in the world: then the attempts of the result report
  exactly the calls that were made; a success is the last attempt and names the chosen provider, no attempt before
  the last is one, and when the work is not idempotent at most one call was made.
\<close>

theorem attempts_report_the_calls:
  fixes calls :: "'w \<Rightarrow> nat"
  assumes "\<And>u. calls (snd (clock u)) = calls u"
    and "\<And>c h u. c \<in> set candidates \<Longrightarrow> ca_handler c = Some h \<Longrightarrow> calls (snd (h u)) = Suc (calls u)"
    and "execute_with_failover clock candidates idempotent ro w = (Inr r, ro', w')"
  shows "calls w' = calls w + runs (rr_attempts r)
    \<and> (\<forall>a \<in> set (butlast (rr_attempts r)). snd a \<noteq> SUCCESS \<and> snd a \<noteq> SELECTED)
    \<and> (rr_success r \<longleftrightarrow> rr_attempts r \<noteq> [] \<and> snd (last (rr_attempts r)) \<in> {SUCCESS, SELECTED})
    \<and> (rr_success r \<longrightarrow> rr_chosen_provider r = Some (fst (last (rr_attempts r))))
    \<and> (\<not> idempotent \<longrightarrow> calls w' \<le> Suc (calls w))"
proof -
  have "case failover clock idempotent [] candidates ro w of
      (Inr r, ro', w') \<Rightarrow> calls w' = calls w + runs (rr_attempts r) \<and> accounted idempotent r | _ \<Rightarrow> True"
    by (rule failover_accounts) (simp_all add: assms(1,2) going_on_def)
  with assms(3) have "calls w' = calls w + runs (rr_attempts r)" "accounted idempotent r" by (simp_all add: execute_with_failover_def)
  then show ?thesis by (auto simp: accounted_def)
qed

section \<open>Circuits\<close>

text \<open>A circuit opens with the failure that reaches the threshold, and refuses until the cooldown is over.\<close>

lemma breaker_opens:
  "cb_failure_threshold cb \<le> cb_failure_count cb + 1 \<Longrightarrow> cb_state (breaker_failure now cb) = OPEN"
  by (simp add: breaker_failure_def Let_def)

lemma open_refuses: "cb_state cb = OPEN \<Longrightarrow> now - cb_last_failure_time cb < cb_cooldown_seconds cb \<Longrightarrow> can_attempt now cb = (False, cb)"
  by (simp add: can_attempt_def)

text \<open>
  C33. An open circuit isolates its provider: as long as the clock shows less than the cooldown after the last
  failure, no run of the router calls a handler of that provider, whatever the other handlers do, and the circuit
  stays as it is.
\<close>

theorem open_circuit_isolates:
  assumes "map_of (ro_circuits ro) p = Some cb" "cb_state cb = OPEN" "Q w"
    and "\<And>u. Q u \<Longrightarrow> fst (clock u) < cb_last_failure_time cb + cb_cooldown_seconds cb \<and> Q (snd (clock u))"
    and "\<And>c h u. c \<in> set candidates \<Longrightarrow> ca_provider_id c \<noteq> p \<Longrightarrow> ca_handler c = Some h \<Longrightarrow> Q u \<Longrightarrow> Q (snd (h u))"
    and "execute_with_failover clock candidates idempotent ro w = (r, ro', w')"
  shows "Q w' \<and> map_of (ro_circuits ro') p = Some cb"
proof -
  let ?P = "\<lambda>t. Q (snd (snd t)) \<and> map_of (ro_circuits (fst (snd t))) p = Some cb"
  have "?P (failover clock idempotent as candidates ro w)" for as
    using assms(1,3,5)
  proof (induction candidates arbitrary: as ro w)
    case (Cons c cs)
    have clk: "Q w1" "now < cb_last_failure_time cb + cb_cooldown_seconds cb" if "clock u = (now, w1)" "Q u" for u now w1
      using assms(4) [OF that(2)] that(1) by simp_all
    have other: "ca_provider_id c \<noteq> p" if "clock w = (now, w1)" "can_attempt now (get_circuit (ca_provider_id c) ro) = (True, cb')" for now w1 cb'
    proof
      assume "ca_provider_id c = p"
      then have "can_attempt now cb = (True, cb')" using that(2) Cons.prems(1) by (simp add: get_circuit_def)
      moreover have "can_attempt now cb = (False, cb)"
        using clk(2) [OF that(1) Cons.prems(2)] by (intro open_refuses [OF assms(2)]) linarith
      ultimately show False by simp
    qed
    have same: "cb' = cb" if "ca_provider_id c = p" "can_attempt now (get_circuit p ro) = (False, cb')" for now cb'
      using that Cons.prems(1) assms(2) by (auto simp: get_circuit_def can_attempt_def split: if_splits)
    have hand: "Q w2" if "ca_handler c = Some h" "ca_provider_id c \<noteq> p" "h u = (res, w2)" "Q u" for h u res w2
      using Cons.prems(3) [of c h u] that by simp
    have rest: "?P (failover clock idempotent as' cs ro' u)" if "Q u" "map_of (ro_circuits ro') p = Some cb" for as' ro' u
      by (rule Cons.IH [OF that(2,1)]) (use Cons.prems(3) in auto)
    show ?case
    proof (rule failover_round [where P = ?P], goal_cases)
      case (1 v)
      then show ?case by (intro rest Cons.prems)
    next
      case (2 e)
      then show ?case using Cons.prems by simp
    next
      case (3 now w1 cb')
      then show ?case using Cons.prems(1,2) same clk(1) by (intro rest) auto
    next
      case (4 now w1 cb')
      then show ?case using Cons.prems(1,2) other clk(1) by auto
    next
      case (5 now w1 cb' h out w2)
      then show ?case using Cons.prems(1,2) other [OF 5(2,3)] hand [OF 5(4) _ 5(5)] clk(1) [OF 5(2)] by auto
    next
      case (6 now w1 cb' h e w2 now2 w3 ro2 as')
      have ne: "ca_provider_id c \<noteq> p" by (rule other [OF 6(2,3)])
      have q: "Q w3" using clk(1) [OF 6(6)] hand [OF 6(4) ne 6(5)] clk(1) [OF 6(2) Cons.prems(2)] by blast
      have m: "map_of (ro_circuits ro2) p = Some cb" using ne Cons.prems(1) 6(8) by simp
      show ?case using rest [OF q m, of as'] q m by (cases idempotent) simp_all
    qed
  qed simp
  from this [of "[]"] show ?thesis using assms(6) by (simp add: execute_with_failover_def)
qed


section \<open>Samples\<close>

text \<open>The world is the list of the handlers called so far; the clock stands at five.\<close>

definition sample_clock :: "string list \<Rightarrow> rat \<times> string list" where
  "sample_clock u = (5, u)"

definition sample_candidate :: "string \<Rightarrow> cost \<Rightarrow> (string + nat) \<Rightarrow> (string list, nat) candidate" where
  "sample_candidate name c r = \<lparr>ca_provider_id = name, ca_cost_estimate_eur = c, ca_model = ''m'',
     ca_handler = Some (\<lambda>u. (r, u @ [name]))\<rparr>"

definition sample_candidates :: "(string list, nat) candidate list" where
  "sample_candidates = [sample_candidate ''paid'' (FloatCost (Finite (1 / 2))) (Inr 1),
     sample_candidate ''unknown'' NoCost (Inr 2), sample_candidate ''broken'' (IntCost 0) (Inl ''down''),
     sample_candidate ''free'' (FloatCost (Finite 0)) (Inr 3)]"

definition sample_router :: router where
  "sample_router = new_router (FloatCost (Finite 0)) 1 30"

definition sample_routing where
  "sample_routing = execute_with_failover sample_clock sample_candidates True sample_router []"

lemma sample_routing_value:
  "case sample_routing of (Inr r, ro, w) \<Rightarrow> w = [''broken'', ''free''] \<and> rr_output r = Some 3
      \<and> rr_attempts r = [(''paid'', COST_GATE_BLOCKED ''AUTONOMOUS_SPEND_LIMIT_EXCEEDED''),
        (''unknown'', COST_GATE_BLOCKED ''UNKNOWN_COST_BLOCKED''), (''broken'', FAILED ''down''), (''free'', SUCCESS)]
      \<and> map_option cb_state (map_of (ro_circuits ro) ''broken'') = Some OPEN | _ \<Rightarrow> False"
  by code_simp

lemma sample_affordable:
  "c \<in> set sample_candidates \<Longrightarrow> affordable (FloatCost (Finite 0)) c \<Longrightarrow> ca_provider_id c \<in> {''broken'', ''free''}"
  by (auto simp: sample_candidates_def sample_candidate_def affordable_def)

lemma sample_handlers:
  "c \<in> set sample_candidates \<Longrightarrow> ca_handler c = Some h \<Longrightarrow> snd (h u) = u @ [ca_provider_id c]"
  by (auto simp: sample_candidates_def sample_candidate_def)

lemma unapproved_handlers_never_run_witness:
  "''paid'' \<notin> set (snd (snd (execute_with_failover sample_clock sample_candidates True sample_router [])))"
proof (rule unapproved_handlers_never_run [where Q = "\<lambda>u. ''paid'' \<notin> set u"])
  fix c h and u :: "string list"
  assume a: "c \<in> set sample_candidates" "affordable (ro_spend_limit_eur sample_router) c" "ca_handler c = Some h" "''paid'' \<notin> set u"
  then have "ca_provider_id c \<in> {''broken'', ''free''}" by (intro sample_affordable) (simp_all add: sample_router_def new_router_def)
  then show "''paid'' \<notin> set (snd (h u))" using a sample_handlers [OF a(1,3), of u] by auto
qed (simp_all add: sample_clock_def)

lemma attempts_report_the_calls_witness:
  "\<exists>r ro w. sample_routing = (Inr r, ro, w) \<and> length w = runs (rr_attempts r) \<and> rr_success r
     \<and> rr_chosen_provider r = Some ''free''"
proof -
  obtain x ro w where x: "sample_routing = (x, ro, w)" by (metis prod_cases3)
  obtain r where r: "x = Inr r" using sample_routing_value [unfolded x] by (cases x) auto
  then have s: "sample_routing = (Inr r, ro, w)" using x r by simp
  have v: "snd (last (rr_attempts r)) = SUCCESS" "rr_attempts r \<noteq> []" "fst (last (rr_attempts r)) = ''free''"
    using sample_routing_value by (auto simp: s)
  have "length (snd (sample_clock u)) = length u" for u by (simp add: sample_clock_def)
  moreover have "length (snd (h u)) = Suc (length u)" if "c \<in> set sample_candidates" "ca_handler c = Some h" for c h u
    using sample_handlers [OF that, of u] by simp
  ultimately have "length w = length ([] :: string list) + runs (rr_attempts r) \<and> rr_success r \<and> rr_chosen_provider r = Some ''free''"
    using attempts_report_the_calls [where calls = length and clock = sample_clock and candidates = sample_candidates and w = "[]",
        OF _ _ s [unfolded sample_routing_def]] v by auto
  then show ?thesis using s by (intro exI [of _ r] exI [of _ ro] exI [of _ w]) simp
qed

definition sample_open :: circuit where
  "sample_open = \<lparr>cb_failure_threshold = 1, cb_cooldown_seconds = 30, cb_failure_count = 1, cb_last_failure_time = 2, cb_state = OPEN\<rparr>"

lemma open_circuit_isolates_witness:
  "case execute_with_failover sample_clock sample_candidates True (put_circuit ''broken'' sample_open sample_router) [] of
    (r, ro', w') \<Rightarrow> ''broken'' \<notin> set w' \<and> map_of (ro_circuits ro') ''broken'' = Some sample_open"
proof -
  obtain r ro' w' where e: "execute_with_failover sample_clock sample_candidates True
      (put_circuit ''broken'' sample_open sample_router) [] = (r, ro', w')" by (metis prod_cases3)
  have "''broken'' \<notin> set w' \<and> map_of (ro_circuits ro') ''broken'' = Some sample_open"
  proof (rule open_circuit_isolates [where Q = "\<lambda>u. ''broken'' \<notin> set u", OF _ _ _ _ _ e])
    fix c h and u :: "string list"
    assume "c \<in> set sample_candidates" "ca_provider_id c \<noteq> ''broken''" "ca_handler c = Some h" "''broken'' \<notin> set u"
    then show "''broken'' \<notin> set (snd (h u))" using sample_handlers [of c h u] by auto
  qed (simp_all add: sample_open_def sample_clock_def)
  then show ?thesis by (simp add: e)
qed

text \<open>An integer cost beyond the doubles is not answered with a verdict but raises.\<close>

lemma huge_cost_raises:
  "evaluate_cost_gate (Some \<lparr>cs_provider = ''p'', cs_model = ''m'', cs_cost_estimate_eur = IntCost (2 ^ 1024)\<rparr>) limit
     = Inl (OverflowError ''int too large to convert to float'')"
proof -
  have "bitlen (2 ^ 1024) = 1025" using bitlen_pow2 [of 1 1024] by (simp add: bitlen_def floorlog_def)
  then have "float_of_int (2 ^ 1024) = Inl (OverflowError ''int too large to convert to float'')"
    using round_half_even_int [of 4503599627370496] by (simp add: float_of_int_def Let_def)
  then show ?thesis by (simp add: evaluate_cost_gate_def Let_def strip_def is_space_def char_code_def)
qed

end
