(* ===== verification/Ephemeral_Cache.thy ===== *)
theory Ephemeral_Cache
  imports Ledger_Text Py_Float
begin

text \<open>
  The ephemeral cache (courier\_core/ephemeral\_cache.py): least-recently-used eviction, time to live,
  checksums and the file. The ordered dictionary is an association list from the least to the most
  recently used key; values are JSON, SHA-256 is the parameter \<open>H\<close>, the clock an argument. The theorems say
  that no cache outgrows its limit or, where a file gave it more entries than that, their number, that a key in
  use is kept, and that \<open>get\<close> answers what was set.
\<close>

section \<open>State\<close>

record entry =
  ce_key :: string
  ce_value :: json
  ce_created_at :: rat
  ce_expires_at :: "rat option"
  ce_checksum_sha256 :: string
  ce_access_count :: nat
  ce_last_accessed :: rat

text \<open>What \<open>\_persist\<close> writes, as a typed record.\<close>

record cache_file =
  cf_hits :: nat
  cf_misses :: nat
  cf_evictions :: nat
  cf_expirations :: nat
  cf_entries :: "(string \<times> entry) list"

record cache =
  ec_max_items :: int
  ec_default_ttl :: "rat option"
  ec_persistent :: bool
  ec_file :: "cache_file option"
  ec_entries :: "(string \<times> entry) list"
  ec_hits :: nat
  ec_misses :: nat
  ec_evictions :: nat
  ec_expirations :: nat

definition value_hash :: "(string \<Rightarrow> string) \<Rightarrow> json \<Rightarrow> string" where
  "value_hash H v = H (dumps_ascii (canonical v))"

definition new_cache :: "int \<Rightarrow> rat option \<Rightarrow> bool \<Rightarrow> cache_file option \<Rightarrow> cache" where
  "new_cache max_items default_ttl persistent file = \<lparr>ec_max_items = max_items, ec_default_ttl = default_ttl,
     ec_persistent = persistent, ec_file = file, ec_entries = [], ec_hits = 0, ec_misses = 0, ec_evictions = 0,
     ec_expirations = 0\<rparr>"

definition persist :: "cache \<Rightarrow> cache" where
  "persist c = (if ec_persistent c then c\<lparr>ec_file := Some \<lparr>cf_hits = ec_hits c, cf_misses = ec_misses c,
     cf_evictions = ec_evictions c, cf_expirations = ec_expirations c, cf_entries = ec_entries c\<rparr>\<rparr> else c)"

definition load_from_disk :: "int \<Rightarrow> rat option \<Rightarrow> cache_file option \<Rightarrow> cache" where
  "load_from_disk max_items default_ttl file = (let c = new_cache max_items default_ttl True file in
     case file of None \<Rightarrow> c
     | Some f \<Rightarrow> c\<lparr>ec_hits := cf_hits f, ec_misses := cf_misses f, ec_evictions := cf_evictions f,
         ec_expirations := cf_expirations f, ec_entries := cf_entries f\<rparr>)"

section \<open>Operations\<close>

definition expired :: "rat \<Rightarrow> entry \<Rightarrow> bool" where
  "expired now e = (case ce_expires_at e of None \<Rightarrow> False | Some x \<Rightarrow> x < now)"

definition move_to_end :: "string \<Rightarrow> entry \<Rightarrow> (string \<times> entry) list \<Rightarrow> (string \<times> entry) list" where
  "move_to_end key e es = AList.delete key es @ [(key, e)]"

text \<open>A lookup: \<open>None\<close> stands for the default of the caller.\<close>

definition cache_get :: "(string \<Rightarrow> string) \<Rightarrow> string \<Rightarrow> rat \<Rightarrow> cache \<Rightarrow> json option result \<times> cache" where
  "cache_get H key now c = (case map_of (ec_entries c) key of
     None \<Rightarrow> (Inr None, c\<lparr>ec_misses := Suc (ec_misses c)\<rparr>)
   | Some e \<Rightarrow>
       if expired now e then (Inr None, persist (c\<lparr>ec_entries := AList.delete key (ec_entries c),
         ec_expirations := Suc (ec_expirations c), ec_misses := Suc (ec_misses c)\<rparr>))
       else if value_hash H (ce_value e) \<noteq> ce_checksum_sha256 e then (Inl (CacheIntegrityError ''Integrity check failed''), c)
       else (Inr (Some (ce_value e)), c\<lparr>ec_entries := move_to_end key (e\<lparr>ce_access_count := Suc (ce_access_count e),
         ce_last_accessed := now\<rparr>) (ec_entries c), ec_hits := Suc (ec_hits c)\<rparr>))"

text \<open>\<open>popitem(last=False)\<close> of an empty dictionary raises.\<close>

definition cache_set :: "(string \<Rightarrow> string) \<Rightarrow> string \<Rightarrow> json \<Rightarrow> rat option \<Rightarrow> rat \<Rightarrow> cache \<Rightarrow> unit result \<times> cache" where
  "cache_set H key v ttl_seconds now c =
     (let ttl = (case ttl_seconds of Some t \<Rightarrow> Some t | None \<Rightarrow> ec_default_ttl c);
          e = \<lparr>ce_key = key, ce_value = v, ce_created_at = now, ce_expires_at = map_option (\<lambda>t. now + t) ttl,
            ce_checksum_sha256 = value_hash H v, ce_access_count = 0, ce_last_accessed = now\<rparr>
      in if map_of (ec_entries c) key \<noteq> None
         then (Inr (), persist (c\<lparr>ec_entries := move_to_end key e (ec_entries c)\<rparr>))
         else if ec_max_items c \<le> int (length (ec_entries c)) then
           (case ec_entries c of [] \<Rightarrow> (Inl (KeyError ''dictionary is empty''), c)
            | _ # es \<Rightarrow> (Inr (), persist (c\<lparr>ec_entries := es @ [(key, e)], ec_evictions := Suc (ec_evictions c)\<rparr>)))
         else (Inr (), persist (c\<lparr>ec_entries := ec_entries c @ [(key, e)]\<rparr>)))"

definition purge_expired :: "rat \<Rightarrow> cache \<Rightarrow> nat \<times> cache" where
  "purge_expired now c =
     (let keys = map fst (filter (\<lambda>(k, e). expired now e) (ec_entries c));
          c' = c\<lparr>ec_entries := fold AList.delete keys (ec_entries c), ec_expirations := ec_expirations c + length keys\<rparr>
      in (length keys, if keys \<noteq> [] then persist c' else c'))"

record cache_stats =
  cs_hits :: nat
  cs_misses :: nat
  cs_evictions :: nat
  cs_expirations :: nat
  cs_total_items :: nat
  cs_hit_ratio :: rat

definition get_stats :: "cache \<Rightarrow> cache_stats" where
  "get_stats c = (let total_lookups = ec_hits c + ec_misses c in
     \<lparr>cs_hits = ec_hits c, cs_misses = ec_misses c, cs_evictions = ec_evictions c, cs_expirations = ec_expirations c,
      cs_total_items = length (ec_entries c),
      cs_hit_ratio = round_digits (if 0 < total_lookups then of_nat (ec_hits c) / of_nat total_lookups else 0) 4\<rparr>)"

text \<open>
  A run. \<open>Tamper\<close> is not an operation of the cache: a value is shared with its caller, who may change it in
  place.
\<close>

datatype cache_op = Get string rat | Set string json "rat option" rat | Purge rat | Tamper string json

definition tamper :: "string \<Rightarrow> json \<Rightarrow> cache \<Rightarrow> cache" where
  "tamper key v c = c\<lparr>ec_entries := map (\<lambda>(k, e). (k, if k = key then e\<lparr>ce_value := v\<rparr> else e)) (ec_entries c)\<rparr>"

fun cache_step :: "(string \<Rightarrow> string) \<Rightarrow> cache_op \<Rightarrow> cache \<Rightarrow> cache" where
  "cache_step H (Get key now) c = snd (cache_get H key now c)"
| "cache_step H (Set key v ttl now) c = snd (cache_set H key v ttl now c)"
| "cache_step H (Purge now) c = snd (purge_expired now c)"
| "cache_step H (Tamper key v) c = tamper key v c"

definition cache_run :: "(string \<Rightarrow> string) \<Rightarrow> cache_op list \<Rightarrow> cache \<Rightarrow> cache" where
  "cache_run H ops c = fold (cache_step H) ops c"

section \<open>The entries after a step\<close>

lemma persist_simps [simp]:
  "ec_entries (persist c) = ec_entries c" "ec_max_items (persist c) = ec_max_items c"
  "ec_default_ttl (persist c) = ec_default_ttl c"
  by (simp_all add: persist_def)

lemma fold_delete: "fold AList.delete ks es = filter (\<lambda>(k, e). k \<notin> set ks) es"
  by (induction ks arbitrary: es) (auto simp: AList.delete_eq intro!: filter_cong)

lemma purge_entries:
  assumes "dict_wf (ec_entries c)"
  shows "ec_entries (snd (purge_expired now c)) = filter (\<lambda>(k, e). \<not> expired now e) (ec_entries c)"
proof -
  define ks where "ks = map fst (filter (\<lambda>(k, e). expired now e) (ec_entries c))"
  have "ec_entries (snd (purge_expired now c)) = fold AList.delete ks (ec_entries c)"
    by (simp add: purge_expired_def ks_def [symmetric] Let_def)
  also have "\<dots> = filter (\<lambda>(k, e). k \<notin> set ks) (ec_entries c)" by (rule fold_delete)
  also have "\<dots> = filter (\<lambda>(k, e). \<not> expired now e) (ec_entries c)"
    using assms by (intro filter_cong) (force simp: dict_wf_map_of ks_def)+
  finally show ?thesis .
qed

text \<open>
  Every step keeps the limit and the keys apart, and the number of entries within the limit or, where it is
  above that, from growing.
\<close>

definition cache_ok :: "cache \<Rightarrow> bool" where
  "cache_ok c \<longleftrightarrow> dict_wf (ec_entries c) \<and> 1 \<le> ec_max_items c"

definition size_bound :: "cache \<Rightarrow> int" where
  "size_bound c = max (ec_max_items c) (int (length (ec_entries c)))"

lemma dict_wf_filter: "dict_wf es \<Longrightarrow> dict_wf (filter P es)"
  by (simp add: dict_wf_def distinct_map_filter)

lemma dict_wf_move: "dict_wf es \<Longrightarrow> dict_wf (move_to_end key e es)"
  by (auto simp: move_to_end_def dict_wf_def distinct_map_filter AList.delete_eq)

lemma length_move: "dict_wf es \<Longrightarrow> map_of es key = Some e0 \<Longrightarrow> length (move_to_end key e es) = length es"
proof -
  assume a: "dict_wf es" "map_of es key = Some e0"
  have "length (AList.delete key es) = card (set (map fst (AList.delete key es)))"
    using a(1) by (metis dict_wf_def distinct_card distinct_delete length_map)
  also have "\<dots> = card (set (map fst es) - {key})" by (simp add: delete_keys)
  also have "\<dots> = length es - 1"
    using a by (metis card_Diff_singleton dict_wf_def distinct_card dom_map_of_conv_image_fst domI length_map list.set_map)
  finally show ?thesis using a(2) by (cases es) (simp_all add: move_to_end_def)
qed


lemma cache_step_max [simp]: "ec_max_items (cache_step H op c) = ec_max_items c"
  by (cases op) (auto simp: cache_get_def cache_set_def purge_expired_def tamper_def Let_def split: option.splits list.splits)

text \<open>The entries after a step: dropped, moved to the end, appended, or changed in place.\<close>

lemma get_entries:
  "ec_entries (snd (cache_get H key now c)) = (case map_of (ec_entries c) key of None \<Rightarrow> ec_entries c
    | Some e \<Rightarrow> if expired now e then AList.delete key (ec_entries c)
        else if value_hash H (ce_value e) \<noteq> ce_checksum_sha256 e then ec_entries c
        else move_to_end key (e\<lparr>ce_access_count := Suc (ce_access_count e), ce_last_accessed := now\<rparr>) (ec_entries c))"
  by (simp add: cache_get_def split: option.split)

definition set_entry :: "(string \<Rightarrow> string) \<Rightarrow> string \<Rightarrow> json \<Rightarrow> rat option \<Rightarrow> rat \<Rightarrow> cache \<Rightarrow> entry" where
  "set_entry H key v ttl now c = \<lparr>ce_key = key, ce_value = v, ce_created_at = now,
     ce_expires_at = map_option (\<lambda>t. now + t) (case ttl of Some t \<Rightarrow> Some t | None \<Rightarrow> ec_default_ttl c),
     ce_checksum_sha256 = value_hash H v, ce_access_count = 0, ce_last_accessed = now\<rparr>"

lemma set_entries:
  assumes "cache_ok c"
  shows "cache_set H key v ttl now c = (Inr (), snd (cache_set H key v ttl now c))"
    "ec_entries (snd (cache_set H key v ttl now c)) =
      (if map_of (ec_entries c) key \<noteq> None then move_to_end key (set_entry H key v ttl now c) (ec_entries c)
       else (if ec_max_items c \<le> int (length (ec_entries c)) then tl (ec_entries c) else ec_entries c)
         @ [(key, set_entry H key v ttl now c)])"
  using assms by (auto simp: cache_set_def set_entry_def Let_def cache_ok_def split: list.split)

lemma tamper_entries: "ec_entries (tamper key v c) = map (\<lambda>(k, e). (k, if k = key then e\<lparr>ce_value := v\<rparr> else e)) (ec_entries c)"
  by (simp add: tamper_def)

lemma keys_tamper: "map fst (ec_entries (tamper key v c)) = map fst (ec_entries c)"
  by (simp add: tamper_entries case_prod_beta o_def)

lemma cache_step_entries:
  assumes "cache_ok c"
  shows "dict_wf (ec_entries (cache_step H op c)) \<and> int (length (ec_entries (cache_step H op c))) \<le> size_bound c"
proof -
  have wf: "dict_wf (ec_entries c)" and m: "1 \<le> ec_max_items c" using assms by (simp_all add: cache_ok_def)
  have len: "int (length (ec_entries c)) \<le> size_bound c" by (simp add: size_bound_def)
  show ?thesis
  proof (cases op)
    case (Get key now)
    then show ?thesis
      using wf len length_delete_le [of key "ec_entries c"]
      by (auto simp: get_entries dict_wf_move length_move simp del: length_delete_le split: option.split)
  next
    case (Set key v ttl now)
    show ?thesis
    proof (cases "map_of (ec_entries c) key")
      case None
      then have "key \<notin> fst ` set (ec_entries c)" by (simp add: map_of_eq_None_iff)
      moreover have "set (tl (ec_entries c)) \<subseteq> set (ec_entries c)" by (cases "ec_entries c") auto
      moreover have "distinct (map fst (tl (ec_entries c)))" using wf by (simp add: dict_wf_def map_tl distinct_tl)
      ultimately have "dict_wf (tl (ec_entries c) @ [(key, e)])" "dict_wf (ec_entries c @ [(key, e)])" for e
        using wf by (auto simp: dict_wf_def)
      then show ?thesis using None Set m by (auto simp: set_entries(2) [OF assms] size_bound_def)
    next
      case (Some e)
      then show ?thesis using Set len wf by (simp add: set_entries(2) [OF assms] dict_wf_move length_move)
    qed
  next
    case (Purge now)
    have "int (length (filter P (ec_entries c))) \<le> size_bound c" for P
      using len length_filter_le [of P "ec_entries c"] by linarith
    then show ?thesis using Purge wf by (simp add: purge_entries dict_wf_filter)
  next
    case (Tamper key v)
    have "length (ec_entries (tamper key v c)) = length (ec_entries c)" by (simp add: tamper_entries)
    then show ?thesis using Tamper wf len keys_tamper [of key v c] by (simp add: dict_wf_def)
  qed
qed

lemma cache_ok_step: "cache_ok c \<Longrightarrow> cache_ok (cache_step H op c)"
  using cache_step_entries [of c H op] by (simp add: cache_ok_def)

lemma size_bound_step: "cache_ok c \<Longrightarrow> size_bound (cache_step H op c) \<le> size_bound c"
  using cache_step_entries [of c H op] by (simp add: size_bound_def)

lemma cache_run_snoc: "cache_run H (ops @ [op]) c = cache_step H op (cache_run H ops c)"
  by (simp add: cache_run_def)

lemma cache_run_ok: "cache_ok c \<Longrightarrow> cache_ok (cache_run H ops c)"
  by (induction ops arbitrary: c) (auto simp: cache_run_def intro: cache_ok_step)

lemma cache_run_size: "cache_ok c \<Longrightarrow> size_bound (cache_run H ops c) \<le> size_bound c"
proof (induction ops arbitrary: c)
  case (Cons op ops)
  from Cons.IH [OF cache_ok_step [OF Cons.prems]] size_bound_step [OF Cons.prems] show ?case
    by (simp add: cache_run_def) (meson order_trans)
qed (simp add: cache_run_def)

lemma new_cache_ok: "1 \<le> m \<Longrightarrow> cache_ok (new_cache m ttl persistent file)"
  by (simp add: cache_ok_def new_cache_def)

section \<open>A key in use is kept\<close>

fun used :: "cache_op \<Rightarrow> string set" where
  "used (Get key now) = {key}"
| "used (Set key v ttl now) = {key}"
| "used _ = {}"

text \<open>The steps that may take a live value away from its key: another set, a change in place, a time past its end.\<close>

fun harmless :: "string \<Rightarrow> rat option \<Rightarrow> cache_op \<Rightarrow> bool" where
  "harmless k x (Get key now) = (key \<noteq> k \<or> (case x of None \<Rightarrow> True | Some t \<Rightarrow> now \<le> t))"
| "harmless k x (Set key v ttl now) = (key \<noteq> k)"
| "harmless k x (Purge now) = (case x of None \<Rightarrow> True | Some t \<Rightarrow> now \<le> t)"
| "harmless k x (Tamper key v) = (key \<noteq> k)"

text \<open>The entry of \<open>k\<close> is good, and every key behind it in the order has been used since.\<close>

definition recent :: "(string \<Rightarrow> string) \<Rightarrow> string \<Rightarrow> json \<Rightarrow> rat option \<Rightarrow> string set \<Rightarrow> (string \<times> entry) list \<Rightarrow> bool" where
  "recent H k v x U es \<longleftrightarrow> (\<exists>before e after. es = before @ (k, e) # after \<and> fst ` set after \<subseteq> U \<and> ce_value e = v
     \<and> ce_checksum_sha256 e = value_hash H v \<and> ce_expires_at e = x)"

lemma recentI: "es = before @ (k, e) # after \<Longrightarrow> fst ` set after \<subseteq> U \<Longrightarrow> ce_value e = v \<Longrightarrow>
    ce_checksum_sha256 e = value_hash H v \<Longrightarrow> ce_expires_at e = x \<Longrightarrow> recent H k v x U es"
  unfolding recent_def by blast

lemma recent_filter:
  assumes "recent H k v x U es" "\<And>e. ce_expires_at e = x \<Longrightarrow> P (k, e)"
  shows "recent H k v x U (filter P es)"
proof -
  obtain before e after where e: "es = before @ (k, e) # after" "fst ` set after \<subseteq> U" "ce_value e = v"
    "ce_checksum_sha256 e = value_hash H v" "ce_expires_at e = x" using assms(1) by (auto simp: recent_def)
  show ?thesis
    by (rule recentI [where before = "filter P before" and e = e and after = "filter P after"]) (use e assms(2) in auto)
qed

lemma recent_snoc:
  assumes "recent H k v x U es"
  shows "recent H k v x (insert j U) (es @ [(j, e')])"
proof -
  obtain before e after where e: "es = before @ (k, e) # after" "fst ` set after \<subseteq> U" "ce_value e = v"
    "ce_checksum_sha256 e = value_hash H v" "ce_expires_at e = x" using assms by (auto simp: recent_def)
  show ?thesis
    by (rule recentI [where before = before and e = e and after = "after @ [(j, e')]"]) (use e in auto)
qed

lemma recent_move: "recent H k v x U es \<Longrightarrow> j \<noteq> k \<Longrightarrow> recent H k v x (insert j U) (move_to_end j e' es)"
  unfolding move_to_end_def AList.delete_eq by (intro recent_snoc recent_filter) auto

text \<open>Eviction takes the first entry. It is not that of \<open>k\<close>, for then all the others were used since.\<close>

lemma recent_evict:
  assumes "recent H k v x U es" "dict_wf es" "finite U" "j \<notin> fst ` set es" "m \<le> int (length es)" "int (card (insert j U)) < m"
  shows "recent H k v x U (tl es)"
proof -
  obtain before e after where e: "es = before @ (k, e) # after" "fst ` set after \<subseteq> U" "ce_value e = v"
    "ce_checksum_sha256 e = value_hash H v" "ce_expires_at e = x" using assms(1) by (auto simp: recent_def)
  have "before \<noteq> []"
  proof
    assume b: "before = []"
    have "length after = card (fst ` set after)"
      using assms(2) e(1) by (metis dict_wf_def distinct.simps(2) distinct_append distinct_card length_map list.set_map list.simps(9) map_append)
    also have "\<dots> \<le> card (U - {j})" using e(1,2) assms(3,4) by (intro card_mono) auto
    also have "\<dots> \<le> card (insert j U) - 1" using assms(3) by (simp add: card_insert_if card_Diff_singleton_if)
    finally have "length after \<le> card (insert j U) - 1" .
    moreover have "0 < card (insert j U)" using assms(3) by (simp add: card_gt_0_iff)
    ultimately show False using assms(5,6) b e(1) by simp
  qed
  then show ?thesis using e by (intro recentI [where before = "tl before" and e = e and after = after]) simp_all
qed

lemma recent_step:
  assumes "cache_ok c" "recent H k v x U (ec_entries c)" "finite U" "harmless k x op"
    and "int (card ((used op - {k}) \<union> U)) < ec_max_items c"
  shows "recent H k v x ((used op - {k}) \<union> U) (ec_entries (cache_step H op c))"
proof -
  have wf: "dict_wf (ec_entries c)" using assms(1) by (simp add: cache_ok_def)
  obtain before e after where e: "ec_entries c = before @ (k, e) # after" "fst ` set after \<subseteq> U" "ce_value e = v"
    "ce_checksum_sha256 e = value_hash H v" "ce_expires_at e = x" using assms(2) by (auto simp: recent_def)
  have ke: "map_of (ec_entries c) k = Some e" using wf e(1) dict_wf_map_of [of "ec_entries c" k e] by simp
  have wider: "recent H k v x U' es" if "recent H k v x U es" "U \<subseteq> U'" for U U' es
    using that unfolding recent_def by blast
  show ?thesis
  proof (cases op)
    case (Get j now)
    show ?thesis
    proof (cases "j = k")
      case True
      have "\<not> expired now e" using assms(4) Get True e(5) by (auto simp: expired_def split: option.splits)
      then have "ec_entries (cache_step H op c) = AList.delete k (ec_entries c) @
          [(k, e\<lparr>ce_access_count := Suc (ce_access_count e), ce_last_accessed := now\<rparr>)]"
        using Get True ke e(3,4) by (simp add: get_entries move_to_end_def)
      then show ?thesis by (rule recentI) (use e in auto)
    next
      case False
      have "recent H k v x (insert j U) (AList.delete j (ec_entries c))"
        using wider [OF recent_filter [OF assms(2)]] False by (simp add: AList.delete_eq subset_insertI)
      then show ?thesis
        using Get False wider [OF assms(2), of "insert j U"] recent_move [OF assms(2) False]
        by (simp add: get_entries subset_insertI split: option.split)
    qed
  next
    case (Set j w ttl now)
    then have jk: "j \<noteq> k" using assms(4) by simp
    show ?thesis
    proof (cases "map_of (ec_entries c) j")
      case (Some e')
      then show ?thesis using Set jk recent_move [OF assms(2) jk] by (simp add: set_entries(2) [OF assms(1)])
    next
      case None
      then have fresh: "j \<notin> fst ` set (ec_entries c)" by (simp add: map_of_eq_None_iff)
      have "recent H k v x U (tl (ec_entries c))" if "ec_max_items c \<le> int (length (ec_entries c))"
        using recent_evict [OF assms(2) wf assms(3) fresh that] assms(5) Set jk by simp
      then show ?thesis
        using Set jk None assms(2) recent_snoc by (simp add: set_entries(2) [OF assms(1)])
    qed
  next
    case (Purge now)
    have "\<not> expired now e'" if "ce_expires_at e' = x" for e'
      using assms(4) Purge that by (auto simp: expired_def split: option.splits)
    then show ?thesis using recent_filter [OF assms(2)] Purge by (simp add: purge_entries [OF wf])
  next
    case (Tamper j w)
    let ?f = "\<lambda>(key, e). (key, if key = j then e\<lparr>ce_value := w\<rparr> else e)"
    have "ec_entries (cache_step H op c) = map ?f before @ (k, e) # map ?f after"
      using Tamper assms(4) e(1) by (simp add: tamper_entries)
    then show ?thesis by (rule recentI) (use e Tamper in \<open>auto simp: image_image case_prod_beta\<close>)
  qed
qed


lemma recent_run:
  assumes "cache_ok c" "recent H k v x U (ec_entries c)" "finite U" "\<forall>op \<in> set ops. harmless k x op"
    and "int (card ((\<Union>op \<in> set ops. used op - {k}) \<union> U)) < ec_max_items c"
  shows "recent H k v x ((\<Union>op \<in> set ops. used op - {k}) \<union> U) (ec_entries (cache_run H ops c))"
  using assms
proof (induction ops arbitrary: c U)
  case (Cons op ops)
  let ?U' = "(used op - {k}) \<union> U"
  have fu: "finite (used op)" for op by (cases op) simp_all
  then have fin: "finite ?U'" using Cons.prems(3) by simp
  have u: "(\<Union>op \<in> set (op # ops). used op - {k}) \<union> U = (\<Union>op \<in> set ops. used op - {k}) \<union> ?U'" by auto
  have "card ?U' \<le> card ((\<Union>op \<in> set (op # ops). used op - {k}) \<union> U)"
    using fin fu unfolding u by (intro card_mono) auto
  then have small: "int (card ?U') < ec_max_items c" using Cons.prems(5) by simp
  have "recent H k v x ?U' (ec_entries (cache_step H op c))"
    using recent_step [OF Cons.prems(1,2,3) _ small] Cons.prems(4) by simp
  from Cons.IH [OF cache_ok_step [OF Cons.prems(1)] this fin] show ?case
    using Cons.prems(4,5) unfolding u by (simp add: cache_run_def)
qed (simp add: cache_run_def)

lemma recent_hit:
  assumes "cache_ok c" "recent H k v x U (ec_entries c)" "case x of None \<Rightarrow> True | Some t \<Rightarrow> now \<le> t"
  shows "fst (cache_get H k now c) = Inr (Some v)"
proof -
  obtain before e after where e: "ec_entries c = before @ (k, e) # after" "ce_value e = v"
    "ce_checksum_sha256 e = value_hash H v" "ce_expires_at e = x" using assms(2) by (auto simp: recent_def)
  have "map_of (ec_entries c) k = Some e" using assms(1) e(1) dict_wf_map_of [of "ec_entries c" k e] by (simp add: cache_ok_def)
  moreover have "\<not> expired now e" using assms(3) e(4) by (auto simp: expired_def split: option.splits)
  ultimately show ?thesis using e(2,3) by (simp add: cache_get_def)
qed

section \<open>What the cache promises\<close>

lemma cache_run_fixed:
  "ec_default_ttl (cache_run H ops c) = ec_default_ttl c \<and> ec_max_items (cache_run H ops c) = ec_max_items c"
proof (induction ops arbitrary: c)
  case (Cons op ops)
  have "ec_default_ttl (cache_step H op c) = ec_default_ttl c"
    by (cases op) (auto simp: cache_get_def cache_set_def purge_expired_def tamper_def Let_def split: option.splits list.splits)
  then show ?case using Cons by (simp add: cache_run_def)
qed (simp add: cache_run_def)

text \<open>
  C34. Least recently used: in any cache with a positive limit, new or loaded from a file, a value that was set
  stays available for its time to live as long as fewer than \<open>max_items\<close> other keys are used in between, however
  often they are used and whatever else is purged or expires; and the cache never holds more than \<open>max_items\<close>
  entries, or the number it held before the set if that was more.
\<close>

theorem recently_used_is_kept:
  assumes "1 \<le> ec_max_items c" and "dict_wf (ec_entries c)"
    and "life = (case ttl of Some t \<Rightarrow> Some t | None \<Rightarrow> ec_default_ttl c)"
    and "\<forall>op \<in> set later. harmless k (map_option (\<lambda>t. t0 + t) life) op"
    and "case life of None \<Rightarrow> True | Some t \<Rightarrow> now \<le> t0 + t"
    and "int (card (\<Union>op \<in> set later. used op - {k})) < ec_max_items c"
  shows "fst (cache_get H k now (cache_run H (Set k v ttl t0 # later) c)) = Inr (Some v)
    \<and> int (length (ec_entries (cache_run H (Set k v ttl t0 # later) c))) \<le> max (ec_max_items c) (int (length (ec_entries c)))"
proof -
  have ok: "cache_ok c" using assms(1,2) by (simp add: cache_ok_def)
  let ?c1 = "cache_step H (Set k v ttl t0) c"
  have ok1: "cache_ok ?c1" by (rule cache_ok_step [OF ok])
  have m: "ec_max_items ?c1 = ec_max_items c" by (rule cache_step_max)
  have "\<exists>before. ec_entries ?c1 = before @ [(k, set_entry H k v ttl t0 c)]"
    by (simp add: set_entries(2) [OF ok] move_to_end_def)
  then obtain before where "ec_entries ?c1 = before @ [(k, set_entry H k v ttl t0 c)]" ..
  then have "recent H k v (map_option (\<lambda>t. t0 + t) life) {} (ec_entries ?c1)"
    by (rule recentI) (simp_all add: set_entry_def assms(3) split: option.split)
  from recent_run [OF ok1 this _ assms(4)] assms(6) m
  have r: "recent H k v (map_option (\<lambda>t. t0 + t) life) (\<Union>op \<in> set later. used op - {k}) (ec_entries (cache_run H later ?c1))"
    by simp
  have run: "cache_run H (Set k v ttl t0 # later) c = cache_run H later ?c1" by (simp add: cache_run_def)
  have okr: "cache_ok (cache_run H later ?c1)" by (rule cache_run_ok [OF ok1])
  have "case map_option (\<lambda>t. t0 + t) life of None \<Rightarrow> True | Some t \<Rightarrow> now \<le> t" using assms(5) by (cases life) simp_all
  from recent_hit [OF okr r this] cache_run_size [OF ok, of H "Set k v ttl t0 # later"] show ?thesis
    unfolding run by (simp add: size_bound_def del: cache_step.simps)
qed

text \<open>
  A file is loaded with all its entries: \<open>max_items\<close> does not bound a cache that was loaded with more of them,
  and a set evicts one entry only.
\<close>

theorem loaded_cache_over_limit:
  "int (length (ec_entries (load_from_disk 1 None (Some \<lparr>cf_hits = 0, cf_misses = 0, cf_evictions = 0, cf_expirations = 0, cf_entries = [(''a'', e), (''b'', f)]\<rparr>)))) = 2
   \<and> int (length (ec_entries (cache_run H [Set ''c'' v ttl t] (load_from_disk 1 None
       (Some \<lparr>cf_hits = 0, cf_misses = 0, cf_evictions = 0, cf_expirations = 0, cf_entries = [(''a'', e), (''b'', f)]\<rparr>))))) = 2"
  by (simp add: load_from_disk_def new_cache_def Let_def cache_run_def cache_set_def)

text \<open>Where an entry comes from: the last set of its key, whose checksum and end of life it carries.\<close>

definition sourced :: "(string \<Rightarrow> string) \<Rightarrow> rat option \<Rightarrow> cache_op list \<Rightarrow> string \<times> entry \<Rightarrow> bool" where
  "sourced H default_ttl ops ke \<longleftrightarrow> (\<exists>pre v ttl t post. ops = pre @ Set (fst ke) v ttl t # post
     \<and> (\<forall>w l u. Set (fst ke) w l u \<notin> set post) \<and> ce_checksum_sha256 (snd ke) = value_hash H v
     \<and> ce_expires_at (snd ke) = map_option (\<lambda>s. t + s) (case ttl of Some s \<Rightarrow> Some s | None \<Rightarrow> default_ttl))"

lemma sourced_snoc:
  "sourced H d ops (k, e) \<Longrightarrow> (\<forall>w l u. op \<noteq> Set k w l u) \<Longrightarrow> ce_checksum_sha256 e' = ce_checksum_sha256 e \<Longrightarrow>
    ce_expires_at e' = ce_expires_at e \<Longrightarrow> sourced H d (ops @ [op]) (k, e')"
  unfolding sourced_def by (clarsimp, rule_tac x = pre in exI, rule_tac x = v in exI, rule_tac x = ttl in exI) auto


lemma step_origin:
  assumes "cache_ok c" "(j, e') \<in> set (ec_entries (cache_step H op c))"
  shows "(\<exists>v ttl t. op = Set j v ttl t \<and> e' = set_entry H j v ttl t c)
    \<or> ((\<forall>w l u. op \<noteq> Set j w l u) \<and> (\<exists>e. (j, e) \<in> set (ec_entries c)
        \<and> ce_checksum_sha256 e' = ce_checksum_sha256 e \<and> ce_expires_at e' = ce_expires_at e))"
proof (cases op)
  case (Get key now)
  then show ?thesis
    using assms(2) map_of_SomeD [of "ec_entries c" key]
    by (auto simp: get_entries move_to_end_def AList.delete_eq split: option.splits if_splits)
next
  case (Set key v ttl now)
  have "set (tl (ec_entries c)) \<subseteq> set (ec_entries c)" by (cases "ec_entries c") auto
  then show ?thesis
    using assms(2) Set by (auto simp: set_entries(2) [OF assms(1)] move_to_end_def AList.delete_eq map_of_eq_None_iff image_iff
        split: if_splits) force+
next
  case (Purge now)
  then show ?thesis using assms by (auto simp: purge_entries cache_ok_def)
next
  case (Tamper key v)
  then show ?thesis using assms(2) by (auto simp: tamper_entries split: if_splits)
qed

lemma cache_run_ttl: "ec_default_ttl (cache_run H ops d) = ec_default_ttl d"
proof (induction ops arbitrary: d)
  case (Cons op ops)
  have "ec_default_ttl (cache_step H op d) = ec_default_ttl d"
    by (cases op) (auto simp: cache_get_def cache_set_def purge_expired_def tamper_def Let_def split: option.splits list.splits)
  then show ?case using Cons by (simp add: cache_run_def)
qed (simp add: cache_run_def)

lemma run_sourced:
  assumes "1 \<le> max_items" "ke \<in> set (ec_entries (cache_run H ops (new_cache max_items default_ttl persistent file)))"
  shows "sourced H default_ttl ops ke"
  using assms(2)
proof (induction ops arbitrary: ke rule: rev_induct)
  case Nil
  then show ?case by (simp add: cache_run_def new_cache_def)
next
  case (snoc op ops)
  let ?c = "cache_run H ops (new_cache max_items default_ttl persistent file)"
  have ok: "cache_ok ?c" by (rule cache_run_ok [OF new_cache_ok [OF assms(1)]])
  obtain j e' where ke: "ke = (j, e')" by force
  have m: "(j, e') \<in> set (ec_entries (cache_step H op ?c))" using snoc.prems by (simp add: cache_run_snoc ke)
  have d: "ec_default_ttl ?c = default_ttl" by (simp add: cache_run_ttl new_cache_def)
  from step_origin [OF ok m] show ?case
  proof
    assume "\<exists>v ttl t. op = Set j v ttl t \<and> e' = set_entry H j v ttl t ?c"
    then obtain v ttl t where "op = Set j v ttl t" "e' = set_entry H j v ttl t ?c" by blast
    then have "ops @ [op] = ops @ Set j v ttl t # []" "\<forall>w l u. Set j w l u \<notin> set []"
      "ce_checksum_sha256 e' = value_hash H v"
      "ce_expires_at e' = map_option (\<lambda>s. t + s) (case ttl of Some s \<Rightarrow> Some s | None \<Rightarrow> default_ttl)"
      by (simp_all add: set_entry_def d split: option.split)
    then show ?thesis unfolding sourced_def ke fst_conv snd_conv by blast
  next
    assume "(\<forall>w l u. op \<noteq> Set j w l u) \<and> (\<exists>e. (j, e) \<in> set (ec_entries ?c)
        \<and> ce_checksum_sha256 e' = ce_checksum_sha256 e \<and> ce_expires_at e' = ce_expires_at e)"
    then show ?thesis using snoc.IH sourced_snoc [of H default_ttl ops j _ op e'] by (auto simp: ke)
  qed
qed

text \<open>
  What a lookup answers is the value of the last set of that key, up to a collision of SHA-256, within its time to
  live: no value of an earlier set, no expired one, and no value that its owner changed in place, is ever answered.
\<close>

theorem get_answers_last_set:
  assumes "1 \<le> max_items"
    and "fst (cache_get H k now (cache_run H ops (new_cache max_items default_ttl persistent file))) = Inr (Some v)"
  shows "\<exists>pre v0 ttl t post. ops = pre @ Set k v0 ttl t # post \<and> (\<forall>w l u. Set k w l u \<notin> set post)
    \<and> value_hash H v = value_hash H v0
    \<and> (case (case ttl of Some s \<Rightarrow> Some s | None \<Rightarrow> default_ttl) of None \<Rightarrow> True | Some s \<Rightarrow> now \<le> t + s)"
proof -
  let ?c = "cache_run H ops (new_cache max_items default_ttl persistent file)"
  obtain e where e: "map_of (ec_entries ?c) k = Some e" "\<not> expired now e" "value_hash H (ce_value e) = ce_checksum_sha256 e"
    "v = ce_value e"
    using assms(2) by (auto simp: cache_get_def split: option.splits if_splits)
  from run_sourced [OF assms(1) map_of_SomeD [OF e(1)]] obtain pre v0 ttl t post where
    s: "ops = pre @ Set k v0 ttl t # post" "\<forall>w l u. Set k w l u \<notin> set post" "ce_checksum_sha256 e = value_hash H v0"
    "ce_expires_at e = map_option (\<lambda>s. t + s) (case ttl of Some s \<Rightarrow> Some s | None \<Rightarrow> default_ttl)"
    by (auto simp: sourced_def)
  have "case (case ttl of Some s \<Rightarrow> Some s | None \<Rightarrow> default_ttl) of None \<Rightarrow> True | Some s \<Rightarrow> now \<le> t + s"
    using e(2) s(4) by (auto simp: expired_def split: option.splits)
  moreover have "value_hash H v = value_hash H v0" using s(3) e(3,4) by simp
  ultimately show ?thesis using s(1,2) by blast
qed

text \<open>A cache for nothing: the first set raises.\<close>

lemma empty_cache_set_raises:
  "max_items \<le> 0 \<Longrightarrow> fst (cache_set H k v ttl now (new_cache max_items default_ttl persistent file)) = Inl (KeyError ''dictionary is empty'')"
  by (simp add: cache_set_def new_cache_def Let_def)

text \<open>A cache of two entries: b is used often, c pushes a out, the owner of b changes it.\<close>

definition plain_hash :: "string \<Rightarrow> string" where "plain_hash t = t"

definition sample_later :: "cache_op list" where
  "sample_later = [Set ''b'' (JInt 2) None 1, Get ''b'' 2, Get ''a'' 3, Get ''b'' 4, Purge 5]"

lemma sample_cache:
  "fst (cache_get plain_hash ''a'' 6 (cache_run plain_hash (Set ''a'' (JInt 1) (Some 10) 0 # sample_later) (new_cache 2 None True None)))
    = Inr (Some (JInt 1))
   \<and> fst (cache_get plain_hash ''a'' 6 (cache_run plain_hash (Set ''a'' (JInt 1) (Some 10) 0 # sample_later @ [Get ''b'' 5, Set ''c'' JNull None 5]) (new_cache 2 None True None)))
    = Inr None
   \<and> fst (cache_get plain_hash ''b'' 6 (cache_run plain_hash (sample_later @ [Tamper ''b'' (JInt 3)]) (new_cache 2 None True None)))
    = Inl (CacheIntegrityError ''Integrity check failed'')"
  by code_simp

definition sample_loaded :: cache where
  "sample_loaded = load_from_disk 2 None (Some \<lparr>cf_hits = 0, cf_misses = 0, cf_evictions = 0, cf_expirations = 0,
     cf_entries = map (\<lambda>k. (k, set_entry plain_hash k JNull None 0 (new_cache 2 None True None))) [''x'', ''y'', ''z'']\<rparr>)"

lemma recently_used_is_kept_witness:
  "fst (cache_get plain_hash ''a'' 6 (cache_run plain_hash (Set ''a'' (JInt 1) (Some 10) 0 # sample_later) (new_cache 2 None True None)))
    = Inr (Some (JInt 1))
   \<and> fst (cache_get plain_hash ''a'' 6 (cache_run plain_hash (Set ''a'' (JInt 1) (Some 10) 0 # sample_later) sample_loaded))
    = Inr (Some (JInt 1))"
proof -
  have u: "(\<Union>op \<in> set sample_later. used op - {''a''}) = {''b''}" by (auto simp: sample_later_def)
  have kept: "fst (cache_get plain_hash ''a'' 6 (cache_run plain_hash (Set ''a'' (JInt 1) (Some 10) 0 # sample_later) c)) = Inr (Some (JInt 1))"
    if "ec_max_items c = 2" "dict_wf (ec_entries c)" for c
    using recently_used_is_kept [of c "Some 10" "Some 10" sample_later "''a''" 0 6 plain_hash "JInt 1"] that u
    by (simp add: sample_later_def)
  have "ec_max_items sample_loaded = 2 \<and> dict_wf (ec_entries sample_loaded)"
    by (simp add: sample_loaded_def load_from_disk_def new_cache_def Let_def dict_wf_def)
  then show ?thesis using kept by (simp add: new_cache_def)
qed

lemma get_answers_last_set_witness:
  "\<exists>pre v0 ttl t post. Set ''a'' (JInt 1) (Some 10) 0 # sample_later = pre @ Set ''a'' v0 ttl t # post
    \<and> value_hash plain_hash (JInt 1) = value_hash plain_hash v0"
  using get_answers_last_set [of 2 plain_hash "''a''" 6 "Set ''a'' (JInt 1) (Some 10) 0 # sample_later" None True None "JInt 1"]
    sample_cache by fastforce

end
