(* ===== verification/Replica_Coordinator.thy ===== *)
theory Replica_Coordinator
  imports Json_Spaced
begin

text \<open>
  The replica coordinator (courier\_core/replica\_coordinator.py): a leader commits mutations with a majority
  of active nodes, followers take deltas in any batches, and the log is chained by hashes. SHA-256 is the
  parameter \<open>H\<close>, the clock an argument. A follower is always a prefix of its leader and catches up to it,
  and equal last hashes mean equal histories.
\<close>

section \<open>State\<close>

datatype replica_error = QuorumUnavailableError nat nat | StaleDeltaError int string

datatype peer_status = ACTIVE | DEGRADED | UNREACHABLE

record peer =
  pn_url :: string
  pn_status :: peer_status
  pn_last_heartbeat :: string
  pn_last_known_sequence :: int

record mutation =
  mu_sequence_id :: int
  mu_fence_token :: int
  mu_payload :: payload
  mu_commit_hash :: string
  mu_ack_count :: nat
  mu_committed :: bool
  mu_timestamp :: string

text \<open>What \<open>save\<close> writes, as a typed record.\<close>

record replica_file =
  rf_node_id :: string
  rf_current_sequence :: int
  rf_peers :: "(string \<times> peer) list"
  rf_log :: "mutation list"

record coordinator =
  rc_node_id :: string
  rc_has_store :: bool
  rc_store :: "replica_file option"
  rc_peers :: "(string \<times> peer) list"
  rc_log :: "mutation list"
  rc_current_sequence :: int

definition rc_save :: "coordinator \<Rightarrow> coordinator" where
  "rc_save st = (if rc_has_store st then st\<lparr>rc_store := Some \<lparr>rf_node_id = rc_node_id st,
     rf_current_sequence = rc_current_sequence st, rf_peers = rc_peers st, rf_log = rc_log st\<rparr>\<rparr> else st)"

definition rc_load :: "coordinator \<Rightarrow> coordinator" where
  "rc_load st = (if \<not> rc_has_store st then st else case rc_store st of None \<Rightarrow> st
     | Some f \<Rightarrow> st\<lparr>rc_node_id := rf_node_id f, rc_current_sequence := rf_current_sequence f, rc_peers := rf_peers f,
         rc_log := rf_log f\<rparr>)"

definition new_coordinator :: "string \<Rightarrow> bool \<Rightarrow> replica_file option \<Rightarrow> coordinator" where
  "new_coordinator node has_store store = rc_load \<lparr>rc_node_id = node, rc_has_store = has_store, rc_store = store,
     rc_peers = [], rc_log = [], rc_current_sequence = 0\<rparr>"

section \<open>Peers and quorum\<close>

definition register_peer :: "string \<Rightarrow> string \<Rightarrow> string \<Rightarrow> coordinator \<Rightarrow> coordinator" where
  "register_peer pid url now st = st\<lparr>rc_peers := AList.update pid \<lparr>pn_url = url, pn_status = ACTIVE, pn_last_heartbeat = now,
     pn_last_known_sequence = 0\<rparr> (rc_peers st)\<rparr>"

definition set_peer_status :: "string \<Rightarrow> peer_status \<Rightarrow> coordinator \<Rightarrow> coordinator" where
  "set_peer_status pid status st = (case map_of (rc_peers st) pid of None \<Rightarrow> st
     | Some p \<Rightarrow> st\<lparr>rc_peers := AList.update pid (p\<lparr>pn_status := status\<rparr>) (rc_peers st)\<rparr>)"

definition calculate_quorum :: "coordinator \<Rightarrow> nat" where
  "calculate_quorum st = (1 + length (rc_peers st)) div 2 + 1"

definition active_node_count :: "coordinator \<Rightarrow> nat" where
  "active_node_count st = 1 + length (filter (\<lambda>(pid, p). pn_status p = ACTIVE) (rc_peers st))"

section \<open>The log\<close>

text \<open>\<open>json.dumps(payload, sort_keys=True)\<close>\<close>

definition payload_text :: "payload \<Rightarrow> string" where
  "payload_text p = dumps_spaced (canonical (JObj p))"

definition chain_content :: "int \<Rightarrow> int \<Rightarrow> string \<Rightarrow> payload \<Rightarrow> string" where
  "chain_content seq fence prev p = show_int seq @ '':'' @ show_int fence @ '':'' @ prev @ '':'' @ payload_text p"

definition last_hash :: "mutation list \<Rightarrow> string" where
  "last_hash log = (if log = [] then ''GENESIS'' else mu_commit_hash (last log))"

text \<open>The acknowledging nodes are those the caller names, or all active ones.\<close>

definition propose_mutation :: "(string \<Rightarrow> string) \<Rightarrow> payload \<Rightarrow> int \<Rightarrow> string list option \<Rightarrow> string \<Rightarrow> coordinator
    \<Rightarrow> (replica_error + mutation) \<times> coordinator" where
  "propose_mutation H p fence mock_ack_nodes now st =
     (let quorum = calculate_quorum st; active = active_node_count st in
      if active < quorum then (Inl (QuorumUnavailableError active quorum), st)
      else (let new_seq = rc_current_sequence st + 1;
                commit_hash = H (chain_content new_seq fence (last_hash (rc_log st)) p);
                acks = (case mock_ack_nodes of Some nodes \<Rightarrow> length nodes | None \<Rightarrow> active)
            in if acks < quorum then (Inl (QuorumUnavailableError acks quorum), st)
               else (let m = \<lparr>mu_sequence_id = new_seq, mu_fence_token = fence, mu_payload = p, mu_commit_hash = commit_hash,
                       mu_ack_count = acks, mu_committed = True, mu_timestamp = now\<rparr>
                     in (Inr m, rc_save (st\<lparr>rc_log := rc_log st @ [m], rc_current_sequence := new_seq\<rparr>)))))"

definition get_delta_catchup :: "int \<Rightarrow> coordinator \<Rightarrow> mutation list" where
  "get_delta_catchup from_sequence st = filter (\<lambda>m. from_sequence < mu_sequence_id m) (rc_log st)"

text \<open>The loop over the deltas: how many were applied, the error that ended it, and the state.\<close>

fun apply_loop :: "(string \<Rightarrow> string) \<Rightarrow> nat \<Rightarrow> mutation list \<Rightarrow> coordinator \<Rightarrow> (replica_error + nat) \<times> coordinator" where
  "apply_loop H n [] st = (Inr n, st)"
| "apply_loop H n (d # ds) st =
     (if mu_sequence_id d \<noteq> rc_current_sequence st + 1 then apply_loop H n ds st
      else if rc_log st \<noteq> [] \<and> mu_fence_token d < mu_fence_token (last (rc_log st))
        then (Inl (StaleDeltaError (mu_sequence_id d) ''carries stale fence''), st)
      else if H (chain_content (mu_sequence_id d) (mu_fence_token d) (last_hash (rc_log st)) (mu_payload d)) \<noteq> mu_commit_hash d
        then (Inl (StaleDeltaError (mu_sequence_id d) ''breaks the hash chain''), st)
      else apply_loop H (Suc n) ds (st\<lparr>rc_log := rc_log st @ [d], rc_current_sequence := mu_sequence_id d\<rparr>))"

definition apply_deltas :: "(string \<Rightarrow> string) \<Rightarrow> mutation list \<Rightarrow> coordinator \<Rightarrow> (replica_error + nat) \<times> coordinator" where
  "apply_deltas H deltas st = (case apply_loop H 0 deltas st of
     (Inr n, st') \<Rightarrow> (Inr n, if 0 < n then rc_save st' else st') | (Inl e, st') \<Rightarrow> (Inl e, st'))"

text \<open>Strings are compared as Python does, by code points.\<close>

fun str_less :: "string \<Rightarrow> string \<Rightarrow> bool" where
  "str_less [] ys = (ys \<noteq> [])"
| "str_less (x # xs) [] = False"
| "str_less (x # xs) (y # ys) = (char_code x < char_code y \<or> x = y \<and> str_less xs ys)"

definition resolve_divergence :: "mutation \<Rightarrow> mutation \<Rightarrow> mutation" where
  "resolve_divergence here there =
     (if mu_fence_token here < mu_fence_token there then there
      else if mu_fence_token there < mu_fence_token here then here
      else if str_less (mu_commit_hash here) (mu_commit_hash there) then there else here)"

section \<open>Chained logs\<close>

text \<open>Numbered from one, each entry hashed with the hash of the one before.\<close>

definition chained :: "(string \<Rightarrow> string) \<Rightarrow> mutation list \<Rightarrow> bool" where
  "chained H log \<longleftrightarrow> (\<forall>i < length log. mu_sequence_id (log ! i) = int i + 1 \<and>
     mu_commit_hash (log ! i) = H (chain_content (int i + 1) (mu_fence_token (log ! i)) (last_hash (take i log)) (mu_payload (log ! i))))"

definition rc_ok :: "(string \<Rightarrow> string) \<Rightarrow> coordinator \<Rightarrow> bool" where
  "rc_ok H st \<longleftrightarrow> rc_current_sequence st = int (length (rc_log st)) \<and> chained H (rc_log st)"

lemma rc_save_simps [simp]:
  "rc_log (rc_save st) = rc_log st" "rc_current_sequence (rc_save st) = rc_current_sequence st" "rc_peers (rc_save st) = rc_peers st"
  by (simp_all add: rc_save_def)

lemma rc_ok_save [simp]: "rc_ok H (rc_save st) = rc_ok H st"
  by (simp add: rc_ok_def)

lemma chained_snoc:
  "chained H (log @ [m]) \<longleftrightarrow> chained H log \<and> mu_sequence_id m = int (length log) + 1
     \<and> mu_commit_hash m = H (chain_content (int (length log) + 1) (mu_fence_token m) (last_hash log) (mu_payload m))"
  by (auto simp: chained_def nth_append less_Suc_eq all_conj_distrib)

lemma rc_ok_append:
  assumes "rc_ok H st" "mu_sequence_id m = rc_current_sequence st + 1"
    "mu_commit_hash m = H (chain_content (mu_sequence_id m) (mu_fence_token m) (last_hash (rc_log st)) (mu_payload m))"
  shows "rc_ok H (st\<lparr>rc_log := rc_log st @ [m], rc_current_sequence := mu_sequence_id m\<rparr>)"
  using assms by (simp add: rc_ok_def chained_snoc)

section \<open>Leader and follower\<close>

datatype leader_op = Register string string string | Status string peer_status
  | Propose payload int "string list option" string

fun leader_step :: "(string \<Rightarrow> string) \<Rightarrow> leader_op \<Rightarrow> coordinator \<Rightarrow> coordinator" where
  "leader_step H (Register pid url now) st = register_peer pid url now st"
| "leader_step H (Status pid status) st = set_peer_status pid status st"
| "leader_step H (Propose p fence nodes now) st = snd (propose_mutation H p fence nodes now st)"

definition leader_run :: "(string \<Rightarrow> string) \<Rightarrow> leader_op list \<Rightarrow> coordinator \<Rightarrow> coordinator" where
  "leader_run H ops st = fold (leader_step H) ops st"

text \<open>Batches of deltas; a batch that ends in an error keeps what was applied before.\<close>

definition deliver :: "(string \<Rightarrow> string) \<Rightarrow> mutation list list \<Rightarrow> coordinator \<Rightarrow> coordinator" where
  "deliver H batches st = fold (\<lambda>ds st. snd (apply_deltas H ds st)) batches st"

lemma new_coordinator_ok: "rc_ok H (new_coordinator node has_store None)"
  by (simp add: rc_ok_def new_coordinator_def rc_load_def chained_def)

text \<open>A commit is the next entry of the chain, made with a majority of the nodes; a refusal changes nothing.\<close>

lemma propose_cases:
  assumes "propose_mutation H p fence nodes now st = (r, st')"
  shows "(\<exists>m. r = Inr m \<and> rc_log st' = rc_log st @ [m] \<and> rc_current_sequence st' = mu_sequence_id m
      \<and> mu_sequence_id m = rc_current_sequence st + 1 \<and> mu_fence_token m = fence \<and> mu_payload m = p
      \<and> mu_commit_hash m = H (chain_content (mu_sequence_id m) (mu_fence_token m) (last_hash (rc_log st)) (mu_payload m))
      \<and> 1 + length (rc_peers st) < 2 * mu_ack_count m)
    \<or> (\<exists>e. r = Inl e \<and> st' = st)"
proof -
  have q: "1 + n < 2 * k" if "(1 + n) div 2 + 1 \<le> k" for n k :: nat using that by presburger
  show ?thesis
    using assms q [of "length (rc_peers st)"]
    by (auto simp: propose_mutation_def Let_def calculate_quorum_def split: if_splits option.splits)
qed

lemma leader_step_ok: "rc_ok H st \<Longrightarrow> rc_ok H (leader_step H op st)"
proof (induction op)
  case (Propose p fence nodes now)
  obtain r st' where s: "propose_mutation H p fence nodes now st = (r, st')" by force
  from propose_cases [OF this] Propose show ?case by (auto simp: s rc_ok_def chained_snoc)
qed (auto simp: register_peer_def set_peer_status_def rc_ok_def split: option.split)

lemma leader_run_ok: "rc_ok H st \<Longrightarrow> rc_ok H (leader_run H ops st)"
  by (induction ops arbitrary: st) (auto simp: leader_run_def intro: leader_step_ok)

text \<open>A log in the number range: an entry is known by its number.\<close>

lemma chained_entry: "chained H log \<Longrightarrow> m \<in> set log \<Longrightarrow> mu_sequence_id m = int n + 1 \<Longrightarrow> n < length log \<and> m = log ! n"
  by (auto simp: chained_def in_set_conv_nth)

lemma apply_loop_prefix:
  assumes "chained H L" "set ds \<subseteq> set L" "rc_log st = take n L" "rc_current_sequence st = int n" "n \<le> length L"
  shows "\<exists>n' \<le> length L. rc_log (snd (apply_loop H k ds st)) = take n' L \<and> rc_current_sequence (snd (apply_loop H k ds st)) = int n'"
  using assms(2-5)
proof (induction ds arbitrary: k st n)
  case Nil
  then show ?case by auto
next
  case (Cons d ds)
  show ?case
  proof (cases "mu_sequence_id d = rc_current_sequence st + 1")
    case True
    then have d: "n < length L" "d = L ! n" using chained_entry [OF assms(1), of d n] Cons.prems by simp_all
    let ?st = "st\<lparr>rc_log := rc_log st @ [d], rc_current_sequence := mu_sequence_id d\<rparr>"
    have next_ok: "\<exists>n' \<le> length L. rc_log (snd (apply_loop H k' ds ?st)) = take n' L \<and> rc_current_sequence (snd (apply_loop H k' ds ?st)) = int n'" for k'
      by (rule Cons.IH [where n = "Suc n"]) (use Cons.prems d True in \<open>simp_all add: take_Suc_conv_app_nth\<close>)
    have here: "\<exists>n' \<le> length L. rc_log st = take n' L \<and> rc_current_sequence st = int n'" using Cons.prems by auto
    have "snd (apply_loop H k (d # ds) st) = st \<or> snd (apply_loop H k (d # ds) st) = snd (apply_loop H (Suc k) ds ?st)"
      using True by simp
    then show ?thesis using next_ok [of "Suc k"] here by (elim disjE) simp_all
  next
    case False
    then show ?thesis using Cons.IH [of st n k] Cons.prems by simp
  qed
qed

lemma apply_deltas_prefix:
  assumes "chained H L" "set ds \<subseteq> set L" "\<exists>n \<le> length L. rc_log st = take n L \<and> rc_current_sequence st = int n"
  shows "\<exists>n \<le> length L. rc_log (snd (apply_deltas H ds st)) = take n L \<and> rc_current_sequence (snd (apply_deltas H ds st)) = int n"
proof -
  from assms(3) obtain n where "n \<le> length L" "rc_log st = take n L" "rc_current_sequence st = int n" by blast
  from apply_loop_prefix [OF assms(1,2) this(2,3,1), of 0] show ?thesis
    by (auto simp: apply_deltas_def split: sum.splits prod.splits)
qed

lemma deliver_prefix:
  "chained H L \<Longrightarrow> \<forall>b \<in> set batches. set b \<subseteq> set L \<Longrightarrow> \<exists>n \<le> length L. rc_log st = take n L \<and> rc_current_sequence st = int n \<Longrightarrow>
   \<exists>n \<le> length L. rc_log (deliver H batches st) = take n L \<and> rc_current_sequence (deliver H batches st) = int n"
proof (induction batches arbitrary: st)
  case (Cons b batches)
  then show ?case using apply_deltas_prefix [of H L b st] by (simp add: deliver_def)
qed (simp add: deliver_def)

text \<open>Catching up: the missing entries, in order, pass every check when the fences do not decrease.\<close>

lemma apply_loop_all:
  assumes "chained H L" "sorted (map mu_fence_token L)"
  shows "n \<le> length L \<Longrightarrow> rc_log st = take n L \<Longrightarrow> rc_current_sequence st = int n \<Longrightarrow>
    \<exists>st'. apply_loop H k (drop n L) st = (Inr (k + (length L - n)), st') \<and> rc_log st' = L \<and> rc_current_sequence st' = int (length L)"
proof (induction "length L - n" arbitrary: n k st)
  case 0
  then show ?case by simp
next
  case (Suc l)
  then have n: "n < length L" by simp
  let ?d = "L ! n" and ?st = "st\<lparr>rc_log := rc_log st @ [L ! n], rc_current_sequence := mu_sequence_id (L ! n)\<rparr>"
  have d: "mu_sequence_id ?d = int n + 1"
    "mu_commit_hash ?d = H (chain_content (int n + 1) (mu_fence_token ?d) (last_hash (take n L)) (mu_payload ?d))"
    using assms(1) n by (auto simp: chained_def)
  have f: "mu_fence_token (last (take n L)) \<le> mu_fence_token ?d" if "take n L \<noteq> []"
  proof -
    have "last (take n L) = L ! (n - 1)" using that n by (cases n) (auto simp: take_Suc_conv_app_nth)
    then show ?thesis using sorted_nth_mono [OF assms(2), of "n - 1" n] n by simp
  qed
  have "drop n L = ?d # drop (Suc n) L" using n by (simp add: Cons_nth_drop_Suc)
  moreover have "\<not> (take n L \<noteq> [] \<and> mu_fence_token ?d < mu_fence_token (last (take n L)))" using f by auto
  ultimately have "apply_loop H k (drop n L) st = apply_loop H (Suc k) (drop (Suc n) L) ?st"
    using Suc.prems d by (simp only: apply_loop.simps if_False) simp
  moreover have "\<exists>st'. apply_loop H (Suc k) (drop (Suc n) L) ?st = (Inr (Suc k + (length L - Suc n)), st')
      \<and> rc_log st' = L \<and> rc_current_sequence st' = int (length L)"
    by (rule Suc.hyps(1)) (use Suc n d in \<open>simp_all add: take_Suc_conv_app_nth\<close>)
  ultimately show ?case using n by (simp add: Suc_diff_Suc)
qed

lemma catchup_drop: "chained H (rc_log st) \<Longrightarrow> get_delta_catchup (int n) st = drop n (rc_log st)"
proof (unfold get_delta_catchup_def, induction "rc_log st" arbitrary: st rule: rev_induct)
  case Nil
  then show ?case by simp
next
  case (snoc m log)
  have e: "rc_log st = log @ [m]" using snoc(2) by simp
  from snoc(1) [of "st\<lparr>rc_log := log\<rparr>"] snoc(3) show ?case by (simp add: e [symmetric] chained_snoc) (simp add: e chained_snoc)
qed

text \<open>
  C35. Whatever batches of its leader's entries a follower receives, in any order, repeated, incomplete or from
  earlier times, its log is a prefix of the leader's log with the sequence number of its last entry; and when the
  leader's fences did not decrease, one catch-up from that number makes the logs equal.
\<close>

theorem replica_catches_up:
  assumes "leader = leader_run H ops (new_coordinator leader_id s1 None)"
    and "\<forall>b \<in> set batches. set b \<subseteq> set (rc_log leader)"
    and "follower = deliver H batches (new_coordinator follower_id s2 None)"
  shows "\<exists>n \<le> length (rc_log leader). rc_log follower = take n (rc_log leader) \<and> rc_current_sequence follower = int n
    \<and> (sorted (map mu_fence_token (rc_log leader)) \<longrightarrow>
        (case apply_deltas H (get_delta_catchup (rc_current_sequence follower) leader) follower of
           (r, follower') \<Rightarrow> r = Inr (length (rc_log leader) - n) \<and> rc_log follower' = rc_log leader
             \<and> rc_current_sequence follower' = rc_current_sequence leader))"
proof -
  have l: "rc_ok H leader" unfolding assms(1) by (rule leader_run_ok [OF new_coordinator_ok])
  then have c: "chained H (rc_log leader)" and q: "rc_current_sequence leader = int (length (rc_log leader))"
    by (simp_all add: rc_ok_def)
  have "\<exists>n \<le> length (rc_log leader). rc_log (new_coordinator follower_id s2 None) = take n (rc_log leader)
      \<and> rc_current_sequence (new_coordinator follower_id s2 None) = int n"
    by (intro exI [of _ 0]) (simp add: new_coordinator_def rc_load_def)
  from deliver_prefix [OF c assms(2) this, folded assms(3)] obtain n where n: "n \<le> length (rc_log leader)"
    "rc_log follower = take n (rc_log leader)" "rc_current_sequence follower = int n" by blast
  have "case apply_deltas H (get_delta_catchup (rc_current_sequence follower) leader) follower of
      (r, follower') \<Rightarrow> r = Inr (length (rc_log leader) - n) \<and> rc_log follower' = rc_log leader
        \<and> rc_current_sequence follower' = rc_current_sequence leader" if fences: "sorted (map mu_fence_token (rc_log leader))"
  proof -
    obtain st' where s: "apply_loop H 0 (drop n (rc_log leader)) follower = (Inr (0 + (length (rc_log leader) - n)), st')"
      "rc_log st' = rc_log leader" "rc_current_sequence st' = int (length (rc_log leader))"
      using apply_loop_all [OF c fences n, of 0] by blast
    then show ?thesis by (simp add: apply_deltas_def n(3) catchup_drop [OF c] q)
  qed
  then show ?thesis by (intro exI [of _ n] conjI impI n)
qed

text \<open>A leader with one peer and three entries; the follower gets the last before the first, and the first twice.\<close>

definition plain :: "string \<Rightarrow> string" where "plain t = t"

definition sample_ops :: "leader_op list" where
  "sample_ops = [Register ''p'' ''u'' ''t'', Propose [(''a'', JInt 1)] 5 None ''t'', Propose [] 5 (Some [''x'']) ''t'',
     Propose [(''b'', JNull)] 6 (Some [''x'', ''p'']) ''t'', Status ''p'' DEGRADED, Propose [] 7 None ''t'',
     Status ''p'' ACTIVE, Propose [] 7 None ''t'']"

definition sample_leader :: coordinator where
  "sample_leader = leader_run plain sample_ops (new_coordinator ''l'' True None)"

definition sample_batches :: "mutation list list" where
  "sample_batches = (case rc_log sample_leader of [m1, m2, m3] \<Rightarrow> [[m3, m1], [m1, m3]] | _ \<Rightarrow> [])"

definition sample_follower :: coordinator where
  "sample_follower = deliver plain sample_batches (new_coordinator ''f'' True None)"

lemma sample_replicas:
  "map mu_sequence_id (rc_log sample_leader) = [1, 2, 3]" "map mu_fence_token (rc_log sample_leader) = [5, 6, 7]"
  "length (rc_log sample_follower) = 1"
  "map (\<lambda>b. length b) sample_batches = [2, 2]"
  by code_simp+

lemma replica_catches_up_witness:
  "length (rc_log sample_follower) = 1 \<and>
   (case apply_deltas plain (get_delta_catchup (rc_current_sequence sample_follower) sample_leader) sample_follower of
      (r, follower') \<Rightarrow> r = Inr 2 \<and> rc_log follower' = rc_log sample_leader)"
proof -
  have b: "\<forall>b \<in> set sample_batches. set b \<subseteq> set (rc_log sample_leader)"
  proof -
    obtain m1 m2 m3 where "rc_log sample_leader = [m1, m2, m3]" using sample_replicas(1) by (auto simp: map_eq_Cons_conv)
    then show ?thesis by (simp add: sample_batches_def)
  qed
  have len: "length (rc_log sample_leader) = 3" using arg_cong [OF sample_replicas(1), of length] by simp
  obtain n where n: "n \<le> 3 \<and> rc_log sample_follower = take n (rc_log sample_leader)
      \<and> rc_current_sequence sample_follower = int n \<and> (sorted (map mu_fence_token (rc_log sample_leader)) \<longrightarrow>
      (case apply_deltas plain (get_delta_catchup (rc_current_sequence sample_follower) sample_leader) sample_follower of
        (r, follower') \<Rightarrow> r = Inr (3 - n) \<and> rc_log follower' = rc_log sample_leader
          \<and> rc_current_sequence follower' = rc_current_sequence sample_leader))"
    using replica_catches_up [OF sample_leader_def b sample_follower_def] unfolding len ..
  have "n = 1" using n sample_replicas(3) len by simp
  have fences: "sorted (map mu_fence_token (rc_log sample_leader))" by (simp add: sample_replicas(2))
  have "case apply_deltas plain (get_delta_catchup (rc_current_sequence sample_follower) sample_leader) sample_follower of
      (r, follower') \<Rightarrow> r = Inr (3 - n) \<and> rc_log follower' = rc_log sample_leader
        \<and> rc_current_sequence follower' = rc_current_sequence sample_leader"
    using n fences by (elim conjE) (erule mp)
  then show ?thesis using \<open>n = 1\<close> sample_replicas(3) by (simp add: case_prod_beta)
qed

text \<open>
  \<open>propose_mutation\<close> does not look at the fence: a proposal with a lower one is committed, and from then on no
  follower takes it.
\<close>

definition stale_leader :: coordinator where
  "stale_leader = leader_run plain [Propose [] 7 None ''t'', Propose [] 3 None ''t''] (new_coordinator ''l'' False None)"

lemma stale_commit_blocks_catchup:
  "fst (apply_deltas plain (get_delta_catchup 0 stale_leader) (new_coordinator ''f'' False None)) = Inl (StaleDeltaError 2 ''carries stale fence'')
   \<and> map mu_committed (rc_log stale_leader) = [True, True]"
  by code_simp

section \<open>Equal heads\<close>

lemma colon_split:
  "CHR '':'' \<notin> set xs \<Longrightarrow> CHR '':'' \<notin> set ys \<Longrightarrow> xs @ CHR '':'' # us = ys @ CHR '':'' # vs \<longleftrightarrow> xs = ys \<and> us = vs"
proof (induction xs arbitrary: ys)
  case (Cons x xs)
  then show ?case by (cases ys) auto
qed (auto simp: Cons_eq_append_conv)

lemma show_int_colon: "CHR '':'' \<notin> set (show_int i)"
proof -
  have "\<not> is_digit (CHR '':'')" by code_simp
  then show ?thesis using show_nat_digits by (auto simp: show_int_def list_all_iff)
qed

lemma show_int_inject [simp]: "show_int a = show_int b \<longleftrightarrow> a = b"
proof
  assume s: "show_int a = show_int b"
  have "\<not> is_digit (CHR ''-'')" by code_simp
  then have "hd (show_nat n) \<noteq> CHR ''-''" for n
    using show_nat_digits [of n] hd_in_set [OF show_nat_nonempty [of n]] by metis
  then have "show_nat m \<noteq> CHR ''-'' # xs" for m xs by (metis list.sel(1))
  then have "show_nat m = CHR ''-'' # xs \<longleftrightarrow> False" "CHR ''-'' # xs = show_nat m \<longleftrightarrow> False" for m xs by metis+
  then show "a = b" using s by (auto simp: show_int_def split: if_splits)
qed simp

text \<open>A digest has no colon, so that the hashed text can be taken apart.\<close>

definition no_colon :: "(string \<Rightarrow> string) \<Rightarrow> bool" where
  "no_colon H \<longleftrightarrow> (\<forall>t. CHR '':'' \<notin> set (H t))"

lemma chain_content_inject:
  "CHR '':'' \<notin> set h1 \<Longrightarrow> CHR '':'' \<notin> set h2 \<Longrightarrow> chain_content s1 f1 h1 p1 = chain_content s2 f2 h2 p2 \<longleftrightarrow>
    s1 = s2 \<and> f1 = f2 \<and> h1 = h2 \<and> payload_text p1 = payload_text p2"
  by (simp add: chain_content_def colon_split show_int_colon)

lemma last_hash_colon: "no_colon H \<Longrightarrow> chained H log \<Longrightarrow> CHR '':'' \<notin> set (last_hash log)"
  by (cases log rule: rev_cases) (auto simp: last_hash_def no_colon_def chained_snoc)

definition said :: "mutation \<Rightarrow> int \<times> int \<times> string" where
  "said m = (mu_sequence_id m, mu_fence_token m, payload_text (mu_payload m))"

text \<open>
  Two chained logs of the same length with the same last hash say the same in every entry, or two texts collide under
  SHA-256.
\<close>

lemma equal_heads_equal_histories:
  assumes "no_colon H" "chained H log1" "chained H log2" "log1 \<noteq> []" "log2 \<noteq> []" "last_hash log1 = last_hash log2"
  shows "map said log1 = map said log2 \<or> (\<exists>x y. x \<noteq> y \<and> H x = H y)"
proof (rule disjCI)
  assume "\<nexists>x y. x \<noteq> y \<and> H x = H y"
  then have inj: "\<And>x y. H x = H y \<Longrightarrow> x = y" by blast
  show "map said log1 = map said log2"
    using assms(2-6)
  proof (induction log1 arbitrary: log2 rule: rev_induct)
  case (snoc m1 log1)
  then obtain log2' m2 where l2: "log2 = log2' @ [m2]" by (cases log2 rule: rev_cases) auto
  note c = snoc.prems(1,2)[unfolded l2 chained_snoc]
  have "mu_commit_hash m1 = mu_commit_hash m2" using snoc.prems(5) by (simp add: l2 last_hash_def)
  then have "chain_content (mu_sequence_id m1) (mu_fence_token m1) (last_hash log1) (mu_payload m1)
      = chain_content (mu_sequence_id m2) (mu_fence_token m2) (last_hash log2') (mu_payload m2)"
    using c inj by metis
  then have e: "mu_sequence_id m1 = mu_sequence_id m2" "mu_fence_token m1 = mu_fence_token m2"
    "last_hash log1 = last_hash log2'" "payload_text (mu_payload m1) = payload_text (mu_payload m2)"
    using chain_content_inject last_hash_colon [OF assms(1)] c by blast+
  have len: "length log1 = length log2'" using c e(1) by simp
  have "map said log1 = map said log2'"
  proof (cases "log1 = []")
    case True
    then show ?thesis using len by simp
  next
    case False
    then have "log2' \<noteq> []" using len by auto
    then show ?thesis using snoc.IH [of log2'] c e(3) False by simp
  qed
  moreover have "said m1 = said m2" using e by (simp add: said_def)
  ultimately show ?case by (simp add: l2)
  qed simp
qed

text \<open>Both sides of a divergence choose the same entry, unless the entries have the same fence and hash.\<close>

lemma str_less_total: "x \<noteq> y \<Longrightarrow> str_less x y \<or> str_less y x"
proof (induction x y rule: str_less.induct)
  case (3 x xs y ys)
  then show ?case using char_eq_code [of x y] by (cases "x = y") auto
qed auto

lemma str_less_asym: "str_less x y \<Longrightarrow> \<not> str_less y x"
proof (induction x y rule: str_less.induct)
  case (1 ys)
  then show ?case by (cases ys) auto
qed auto

lemma resolve_divergence_agrees:
  "mu_fence_token a \<noteq> mu_fence_token b \<or> mu_commit_hash a \<noteq> mu_commit_hash b \<Longrightarrow> resolve_divergence a b = resolve_divergence b a"
  using str_less_total [of "mu_commit_hash a" "mu_commit_hash b"] str_less_asym [of "mu_commit_hash a" "mu_commit_hash b"]
    str_less_asym [of "mu_commit_hash b" "mu_commit_hash a"]
  by (auto simp: resolve_divergence_def)

end
