(* ===== verification/Content_Store.thy ===== *)
theory Content_Store
  imports Prelude Py_Float "HOL-Library.Word" "HOL-Library.AList"
begin

text \<open>
  The content-addressed store (courier\_core/content\_dedup.py): files are cut into chunks that are stored once
  under their SHA-256, manifests rebuild them, and the garbage collector keeps what active manifests name.
  SHA-256 is the parameter \<open>H\<close>; the object directory is an association list from digests to bytes, the other
  files a map. A stored file survives everything the store does as long as its manifest is active.
\<close>

section \<open>State\<close>

type_synonym blob = "8 word list"

datatype cas_error = CASIntegrityError string | CASSecurityError string | CASFileNotFoundError string

type_synonym 'a cas_result = "cas_error + 'a"

record manifest =
  mf_file_name :: string
  mf_root_hash :: string
  mf_total_size :: nat
  mf_chunk_size :: int
  mf_chunks :: "string list"

record cas =
  cas_chunk_size :: int
  cas_objects :: "(string \<times> blob) list"

definition new_store :: "int \<Rightarrow> (string \<times> blob) list \<Rightarrow> cas" where
  "new_store chunk_size objects = \<lparr>cas_chunk_size = chunk_size, cas_objects = objects\<rparr>"

text \<open>\<open>^[0-9a-f]{64}$\<close>, which also lets a final newline through.\<close>

definition is_hex :: "char \<Rightarrow> bool" where
  "is_hex c = (let n = char_code c in (48 \<le> n \<and> n \<le> 57) \<or> (97 \<le> n \<and> n \<le> 102))"

definition hex_digest :: "string \<Rightarrow> bool" where
  "hex_digest s \<longleftrightarrow> list_all is_hex (take 64 s) \<and> (length s = 64 \<or> length s = 65 \<and> last s = CHR 0x0A)"

definition validate_digest :: "string \<Rightarrow> string cas_result" where
  "validate_digest d = (if hex_digest d then Inr d else Inl (CASSecurityError ''Invalid or unsafe SHA-256 digest''))"

section \<open>Objects\<close>

definition has_object :: "string \<Rightarrow> cas \<Rightarrow> bool" where
  "has_object d st = (case validate_digest d of Inl _ \<Rightarrow> False | Inr p \<Rightarrow> map_of (cas_objects st) p \<noteq> None)"

definition store_bytes :: "(blob \<Rightarrow> string) \<Rightarrow> blob \<Rightarrow> cas \<Rightarrow> string cas_result \<times> cas" where
  "store_bytes H data st = (let digest = H data in case validate_digest digest of
     Inl e \<Rightarrow> (Inl e, st)
   | Inr p \<Rightarrow> if map_of (cas_objects st) p \<noteq> None then (Inr digest, st)
       else (Inr digest, st\<lparr>cas_objects := AList.update p data (cas_objects st)\<rparr>))"

definition retrieve_bytes :: "(blob \<Rightarrow> string) \<Rightarrow> string \<Rightarrow> bool \<Rightarrow> cas \<Rightarrow> blob cas_result" where
  "retrieve_bytes H digest verify_integrity st = bind_result (validate_digest digest) (\<lambda>p.
     case map_of (cas_objects st) p of
       None \<Rightarrow> Inl (CASFileNotFoundError ''CAS object not found'')
     | Some data \<Rightarrow> if verify_integrity \<and> H data \<noteq> digest then Inl (CASIntegrityError ''Integrity check failed'') else Inr data)"

section \<open>Files\<close>

text \<open>The blocks that repeated \<open>f.read(n)\<close> returns until the first empty one: a negative size reads everything.\<close>

function read_blocks :: "int \<Rightarrow> blob \<Rightarrow> blob list" where
  "read_blocks n data =
     (if data = [] \<or> n = 0 then []
      else if n < 0 then [data]
      else take (nat n) data # read_blocks n (drop (nat n) data))"
  by pat_completeness auto
termination by (relation "measure (\<lambda>(n, data). length data)") auto

declare read_blocks.simps [simp del]

definition path_name :: "string \<Rightarrow> string" where
  "path_name p = rev (takeWhile (\<lambda>c. c \<noteq> CHR ''/'') (rev p))"

fun store_blocks :: "(blob \<Rightarrow> string) \<Rightarrow> blob list \<Rightarrow> cas \<Rightarrow> string list cas_result \<times> cas" where
  "store_blocks H [] st = (Inr [], st)"
| "store_blocks H (b # bs) st = (case store_bytes H b st of
     (Inl e, st1) \<Rightarrow> (Inl e, st1)
   | (Inr d, st1) \<Rightarrow> (case store_blocks H bs st1 of
       (Inl e, st2) \<Rightarrow> (Inl e, st2) | (Inr ds, st2) \<Rightarrow> (Inr (d # ds), st2)))"

definition store_file :: "(blob \<Rightarrow> string) \<Rightarrow> (string \<rightharpoonup> blob) \<Rightarrow> string \<Rightarrow> cas \<Rightarrow> manifest cas_result \<times> cas" where
  "store_file H fs path st = (case fs path of
     None \<Rightarrow> (Inl (CASFileNotFoundError ''Source file not found''), st)
   | Some data \<Rightarrow> (let blocks = read_blocks (cas_chunk_size st) data in case store_blocks H blocks st of
       (Inl e, st') \<Rightarrow> (Inl e, st')
     | (Inr ds, st') \<Rightarrow> (Inr \<lparr>mf_file_name = path_name path, mf_root_hash = H (concat blocks),
         mf_total_size = length (concat blocks), mf_chunk_size = cas_chunk_size st, mf_chunks = ds\<rparr>, st')))"

fun retrieve_all :: "(blob \<Rightarrow> string) \<Rightarrow> bool \<Rightarrow> string list \<Rightarrow> cas \<Rightarrow> blob cas_result" where
  "retrieve_all H verify [] st = Inr []"
| "retrieve_all H verify (d # ds) st =
     bind_result (retrieve_bytes H d verify st) (\<lambda>b. bind_result (retrieve_all H verify ds st) (\<lambda>bs. Inr (b @ bs)))"

definition restore_file :: "(blob \<Rightarrow> string) \<Rightarrow> manifest \<Rightarrow> string \<Rightarrow> bool \<Rightarrow> cas \<Rightarrow> (string \<rightharpoonup> blob) \<Rightarrow> string cas_result \<times> (string \<rightharpoonup> blob)" where
  "restore_file H m target verify_integrity st fs = (case retrieve_all H verify_integrity (mf_chunks m) st of
     Inl e \<Rightarrow> (Inl e, fs)
   | Inr data \<Rightarrow>
       if verify_integrity \<and> H data \<noteq> mf_root_hash m then (Inl (CASIntegrityError ''Manifest reconstruction mismatch''), fs)
       else (Inr target, fs(target \<mapsto> data)))"

section \<open>Statistics and garbage collection\<close>

record cas_stats =
  st_unique_chunks :: nat
  st_stored_bytes :: nat
  st_total_raw_bytes :: nat
  st_bytes_saved :: nat
  st_dedup_ratio :: rat
  st_savings_percent :: rat

definition cas_get_stats :: "manifest list option \<Rightarrow> cas \<Rightarrow> cas_stats" where
  "cas_get_stats manifests st =
     (let stored_bytes = sum_list (map (length \<circ> snd) (cas_objects st));
          raw = (case manifests of None \<Rightarrow> stored_bytes | Some [] \<Rightarrow> stored_bytes | Some ms \<Rightarrow> sum_list (map mf_total_size ms));
          saved = raw - stored_bytes
      in \<lparr>st_unique_chunks = length (cas_objects st), st_stored_bytes = stored_bytes, st_total_raw_bytes = raw,
          st_bytes_saved = saved,
          st_dedup_ratio = (if 0 < stored_bytes then round_digits (of_nat raw / of_nat stored_bytes) 4 else 1),
          st_savings_percent = (if 0 < raw then round_digits (of_nat saved / of_nat raw * 100) 2 else 0)\<rparr>)"

definition garbage_collect :: "manifest list \<Rightarrow> cas \<Rightarrow> nat \<times> cas" where
  "garbage_collect active st =
     (let digests = concat (map mf_chunks active);
          kept = filter (\<lambda>(d, b). d \<in> set digests) (cas_objects st)
      in (length (cas_objects st) - length kept, st\<lparr>cas_objects := kept\<rparr>))"

section \<open>A file survives\<close>

text \<open>What the store does in between: it takes in other bytes and files and collects garbage.\<close>

datatype cas_op = Store_bytes blob | Store_file blob | Collect "manifest list"

fun cas_step :: "(blob \<Rightarrow> string) \<Rightarrow> cas_op \<Rightarrow> cas \<Rightarrow> cas" where
  "cas_step H (Store_bytes b) st = snd (store_bytes H b st)"
| "cas_step H (Store_file b) st = snd (store_file H [''f'' \<mapsto> b] ''f'' st)"
| "cas_step H (Collect ms) st = snd (garbage_collect ms st)"

definition cas_run :: "(blob \<Rightarrow> string) \<Rightarrow> cas_op list \<Rightarrow> cas \<Rightarrow> cas" where
  "cas_run H ops st = fold (cas_step H) ops st"

lemma concat_read_blocks: "n \<noteq> 0 \<Longrightarrow> concat (read_blocks n data) = data"
  by (induction n data rule: read_blocks.induct) (subst read_blocks.simps, auto)

text \<open>Every object is stored under its own digest, and the digests of \<open>ds\<close> are all there.\<close>

definition store_ok :: "(blob \<Rightarrow> string) \<Rightarrow> cas \<Rightarrow> bool" where
  "store_ok H st \<longleftrightarrow> (\<forall>d b. map_of (cas_objects st) d = Some b \<longrightarrow> H b = d)"

definition holds :: "string list \<Rightarrow> cas \<Rightarrow> bool" where
  "holds ds st \<longleftrightarrow> (\<forall>d \<in> set ds. map_of (cas_objects st) d \<noteq> None)"

lemma store_bytes_ok:
  assumes "store_ok H st" "store_bytes H b st = (r, st')"
  shows "store_ok H st'" "holds ds st \<Longrightarrow> holds ds st'" "r = Inr d \<Longrightarrow> d = H b \<and> map_of (cas_objects st') d \<noteq> None"
    "hex_digest (H b) \<Longrightarrow> r = Inr (H b)"
  using assms by (auto simp: store_bytes_def validate_digest_def store_ok_def holds_def Let_def update_conv' split: if_splits)

lemma store_blocks_ok:
  "store_ok H st \<Longrightarrow> store_blocks H bs st = (r, st') \<Longrightarrow> store_ok H st' \<and> (\<forall>ds. holds ds st \<longrightarrow> holds ds st')
    \<and> (\<forall>ds. r = Inr ds \<longrightarrow> ds = map H bs \<and> holds ds st')
    \<and> ((\<forall>b \<in> set bs. hex_digest (H b)) \<longrightarrow> r = Inr (map H bs))"
proof (induction bs arbitrary: st r st')
  case (Cons b bs)
  obtain r1 st1 where s1: "store_bytes H b st = (r1, st1)" by force
  obtain r2 st2 where s2: "store_blocks H bs st1 = (r2, st2)" by force
  note ok1 = store_bytes_ok [OF Cons.prems(1) s1]
  note ih = Cons.IH [OF ok1(1) s2]
  show ?case
  proof (cases r1)
    case (Inl e)
    then show ?thesis using Cons.prems(2) s1 ok1 by auto
  next
    case (Inr d)
    then have d: "d = H b" "map_of (cas_objects st1) d \<noteq> None" using ok1(3) by auto
    then have "holds [d] st1" by (simp add: holds_def)
    then have "holds [d] st2" using ih by blast
    have r: "r = (case r2 of Inl e \<Rightarrow> Inl e | Inr ds \<Rightarrow> Inr (d # ds))" "st' = st2"
      using Cons.prems(2) s1 s2 Inr by (auto split: sum.splits)
    have kept: "holds ds st2" if "holds ds st" for ds using ok1(2) [OF that] ih by blast
    show ?thesis
    proof (cases r2)
      case (Inl e)
      then show ?thesis using r ih kept by auto
    next
      case (Inr ds)
      then have "holds (d # ds) st2" using ih \<open>holds [d] st2\<close> by (simp add: holds_def)
      then show ?thesis using r ih kept Inr d(1) by auto
    qed
  qed
qed (auto simp: holds_def)

lemma map_of_kept: "map_of (filter (\<lambda>(d, b). d \<in> D) xs) d = (if d \<in> D then map_of xs d else None)"
  by (induction xs) auto

lemma collect_objects:
  "map_of (cas_objects (snd (garbage_collect ms st))) d = (if d \<in> (\<Union>m \<in> set ms. set (mf_chunks m)) then map_of (cas_objects st) d else None)"
proof -
  have "map_of (cas_objects (snd (garbage_collect ms st))) d
      = map_of (filter (\<lambda>(d, b). d \<in> set (concat (map mf_chunks ms))) (cas_objects st)) d"
    by (simp add: garbage_collect_def Let_def del: set_concat)
  also have "\<dots> = (if d \<in> set (concat (map mf_chunks ms)) then map_of (cas_objects st) d else None)" by (rule map_of_kept)
  finally show ?thesis by simp
qed

lemma store_file_ok:
  assumes "store_ok H st" "store_file H fs path st = (r, st')"
  shows "store_ok H st' \<and> (\<forall>ds. holds ds st \<longrightarrow> holds ds st')"
  using assms store_blocks_ok [OF assms(1)]
  by (fastforce simp: store_file_def Let_def split: option.splits sum.splits prod.splits)

lemma cas_step_ok:
  assumes "store_ok H st" "holds (mf_chunks m) st" "\<And>ms. op = Collect ms \<Longrightarrow> m \<in> set ms"
  shows "store_ok H (cas_step H op st) \<and> holds (mf_chunks m) (cas_step H op st)"
proof (cases op)
  case (Store_bytes b)
  obtain r st' where "store_bytes H b st = (r, st')" by force
  with store_bytes_ok [OF assms(1) this] assms(2) Store_bytes show ?thesis by simp
next
  case (Store_file b)
  obtain r st' where "store_file H [''f'' \<mapsto> b] ''f'' st = (r, st')" by force
  with store_file_ok [OF assms(1) this] assms(2) Store_file show ?thesis by simp
next
  case (Collect ms)
  then have "m \<in> set ms" using assms(3) by simp
  then show ?thesis using assms(1,2) Collect by (auto simp: store_ok_def holds_def collect_objects split: if_splits)
qed

lemma cas_run_ok:
  "store_ok H st \<Longrightarrow> holds (mf_chunks m) st \<Longrightarrow> (\<And>ms. Collect ms \<in> set ops \<Longrightarrow> m \<in> set ms) \<Longrightarrow>
   store_ok H (cas_run H ops st) \<and> holds (mf_chunks m) (cas_run H ops st)"
proof (induction ops arbitrary: st)
  case (Cons op ops)
  have "store_ok H (cas_step H op st) \<and> holds (mf_chunks m) (cas_step H op st)"
    by (rule cas_step_ok [OF Cons.prems(1,2)]) (use Cons.prems(3) in auto)
  then show ?case using Cons.IH [of "cas_step H op st"] Cons.prems(3) by (simp add: cas_run_def)
qed (simp add: cas_run_def)

lemma retrieve_exact:
  assumes "\<forall>b. hex_digest (H b)"
  shows "\<forall>b\<in>set bs. map_of (cas_objects st) (H b) = Some b \<Longrightarrow> retrieve_all H verify (map H bs) st = Inr (concat bs)"
  by (induction bs) (simp_all add: retrieve_bytes_def validate_digest_def assms)

section \<open>What the store promises\<close>

text \<open>An object of the store that is not the chunk \<open>x\<close> but has its digest.\<close>

definition stored_collision :: "(blob \<Rightarrow> string) \<Rightarrow> blob list \<Rightarrow> cas \<Rightarrow> bool" where
  "stored_collision H bs st \<longleftrightarrow> (\<exists>x\<in>set bs. \<exists>(d, y)\<in>set (cas_objects st). y \<noteq> x \<and> H y = H x)"

text \<open>
  C36. A file that was stored with a chunk size other than 0, into a store whose objects are under their own
  digests (an empty one, say), is restored byte for byte, without a change to any other file, whatever else was
  stored and however often garbage was collected in between with its manifest among the active ones; the only
  exception is that the store holds an object that is not one of the file's chunks but has the digest of one.
\<close>

theorem stored_file_survives:
  assumes "store_ok H st" "\<forall>b. hex_digest (H b)" "cas_chunk_size st \<noteq> 0" "fs path = Some data"
    and "store_file H fs path st = (Inr m, st')" "\<And>ms. Collect ms \<in> set ops \<Longrightarrow> m \<in> set ms"
  shows "restore_file H m target True (cas_run H ops st') fs' = (Inr target, fs'(target \<mapsto> data))
    \<or> stored_collision H (read_blocks (cas_chunk_size st) data) (cas_run H ops st')"
proof (rule disjCI)
  let ?bs = "read_blocks (cas_chunk_size st) data" and ?st = "cas_run H ops st'"
  assume none: "\<not> stored_collision H ?bs ?st"
  have cb: "concat ?bs = data" by (rule concat_read_blocks [OF assms(3)])
  obtain r1 where b: "store_blocks H ?bs st = (r1, st')" and m: "r1 = Inr (mf_chunks m)" "mf_root_hash m = H data"
    using assms(4,5) cb by (auto simp: store_file_def Let_def split: sum.splits prod.splits)
  from store_blocks_ok [OF assms(1) b] m have st': "store_ok H st'" "mf_chunks m = map H ?bs" "holds (mf_chunks m) st'" by auto
  from cas_run_ok [OF st'(1,3) assms(6)] have ok: "store_ok H ?st" "holds (map H ?bs) ?st"
    by (simp_all add: st'(2))
  have "map_of (cas_objects ?st) (H x) = Some x" if x: "x \<in> set ?bs" for x
  proof -
    obtain y where y: "map_of (cas_objects ?st) (H x) = Some y" using ok(2) x by (auto simp: holds_def)
    then have "H y = H x" "(H x, y) \<in> set (cas_objects ?st)" using ok(1) by (auto simp: store_ok_def dest: map_of_SomeD)
    with none x have "y = x" unfolding stored_collision_def by blast
    with y show ?thesis by simp
  qed
  then have "retrieve_all H True (map H ?bs) ?st = Inr data"
    using retrieve_exact [OF assms(2), of ?bs ?st True] cb by simp
  then show "restore_file H m target True ?st fs' = (Inr target, fs'(target \<mapsto> data))"
    by (simp add: restore_file_def st'(2) m(2))
qed

text \<open>
  Whatever happened to the objects, a verified restore that succeeds wrote bytes with the digest of the manifest, and
  one that fails wrote nothing.
\<close>

lemma restore_verified:
  "restore_file H m target True st fs = (r, fs') \<Longrightarrow> (\<exists>e. r = Inl e) \<and> fs' = fs
    \<or> r = Inr target \<and> (\<exists>data. fs' = fs(target \<mapsto> data) \<and> H data = mf_root_hash m)"
  by (auto simp: restore_file_def split: sum.splits if_splits)

text \<open>A chunk size of zero, which nothing forbids, stores an empty file in place of every file.\<close>

lemma zero_chunk_size_loses_the_file:
  "fs path = Some data \<Longrightarrow> store_file H fs path (new_store 0 objects)
    = (Inr \<lparr>mf_file_name = path_name path, mf_root_hash = H [], mf_total_size = 0, mf_chunk_size = 0, mf_chunks = []\<rparr>, new_store 0 objects)"
  by (subst store_file_def) (simp add: new_store_def read_blocks.simps)

text \<open>A digest of the right shape for the sample: the first sixteen bytes in hexadecimal, padded.\<close>

definition shape_hash :: "blob \<Rightarrow> string" where
  "shape_hash bs = (let s = concat (map (\<lambda>b. if unat b < 8 then ''0'' @ [''01234567'' ! unat b] else ''ff'') bs) in
     take 64 (s @ replicate 64 CHR ''a''))"

lemma shape_hash_hex: "hex_digest (shape_hash b)"
proof -
  have h: "list_all is_hex ''01234567'' \<and> is_hex CHR ''f'' \<and> is_hex CHR ''a''" by code_simp
  have "is_hex (''01234567'' ! n)" if "n < 8" for n
  proof -
    have "''01234567'' ! n \<in> set ''01234567''" using that by (intro nth_mem) simp
    then show ?thesis using h unfolding list_all_iff by blast
  qed
  then have "list_all is_hex (concat (map (\<lambda>b. if unat b < 8 then ''0'' @ [''01234567'' ! unat b] else ''ff'') b) @ replicate 64 CHR ''a'')"
    using h by (auto simp: list_all_iff split: if_splits)
  then have "list_all is_hex (shape_hash b)"
    unfolding shape_hash_def Let_def list_all_iff using set_take_subset by fastforce
  moreover have "length (shape_hash b) = 64" by (simp add: shape_hash_def Let_def)
  ultimately show ?thesis by (simp add: hex_digest_def)
qed

definition sample_store :: cas where
  "sample_store = new_store 2 []"

definition sample_manifest :: manifest where
  "sample_manifest = (case store_file shape_hash [''d/a'' \<mapsto> [1, 2, 1, 2, 3]] ''d/a'' sample_store of (Inr m, st) \<Rightarrow> m)"

definition sample_ops :: "cas_op list" where
  "sample_ops = [Store_bytes [7], Collect [sample_manifest], Store_file [5, 6]]"

definition sample_stored :: cas where
  "sample_stored = snd (store_file shape_hash [''d/a'' \<mapsto> [1, 2, 1, 2, 3]] ''d/a'' sample_store)"

lemma sample_restored:
  "store_file shape_hash [''d/a'' \<mapsto> [1, 2, 1, 2, 3]] ''d/a'' sample_store = (Inr sample_manifest, sample_stored)"
  "length (cas_objects (cas_run shape_hash sample_ops sample_stored)) = 3"
  "map_prod id (\<lambda>f. f ''out'') (restore_file shape_hash sample_manifest ''out'' True (cas_run shape_hash sample_ops sample_stored) Map.empty)
    = (Inr ''out'', Some [1, 2, 1, 2, 3])"
  by code_simp+

lemma sample_no_collision:
  "list_all (\<lambda>x. list_all (\<lambda>(d, y). y = x \<or> shape_hash y \<noteq> shape_hash x) (cas_objects (cas_run shape_hash sample_ops sample_stored)))
     (read_blocks 2 [1, 2, 1, 2, 3])"
  by code_simp

lemma stored_file_survives_witness:
  "store_ok shape_hash sample_store \<and> restore_file shape_hash sample_manifest ''out'' True (cas_run shape_hash sample_ops sample_stored) Map.empty
      = (Inr ''out'', [''out'' \<mapsto> [1, 2, 1, 2, 3]])"
proof -
  have ok: "store_ok shape_hash sample_store" and n: "cas_chunk_size sample_store = 2"
    by (simp_all add: store_ok_def sample_store_def new_store_def)
  have m: "sample_manifest \<in> set ms" if "Collect ms \<in> set sample_ops" for ms using that by (simp add: sample_ops_def)
  have "\<not> stored_collision shape_hash (read_blocks 2 [1, 2, 1, 2, 3]) (cas_run shape_hash sample_ops sample_stored)"
    using sample_no_collision by (fastforce simp: stored_collision_def list_all_iff)
  then show ?thesis
    using stored_file_survives [OF ok _ _ _ sample_restored(1) m, of "[1, 2, 1, 2, 3]" sample_ops "''out''" Map.empty] shape_hash_hex ok n
    by simp
qed

end
