(* ===== verification/Http_Front.thy ===== *)
theory Http_Front
  imports Controller_Safety Ledger_Text
begin

text \<open>
  The HTTP front end of the controller (courier\_core/serve.py): authorisation, reading the body,
  routing, and the answers. A request is what the standard library's server hands to the handler; the
  event stream is opened here and its records are printed, the waiting loop around them is not modelled.
  Of an error body the code is kept, of the log nothing. \<open>repr\<close> prints a float.
\<close>

section \<open>Requests and answers\<close>

definition MAX_BODY_BYTES :: nat where "MAX_BODY_BYTES = 1024 * 1024"

text \<open>
  \<open>rq_path\<close> is \<open>urlsplit(self.path).path\<close>; missing headers are empty strings, but for \<open>Content-Length\<close>.
  \<open>rq_text\<close> is the body read, \<open>None\<close> if it is not UTF-8. \<open>rq_resume\<close> is \<open>Last-Event-ID\<close> or the query's
  \<open>after\<close> or \<open>0\<close>, \<open>rq_stream_free\<close> whether the bounded semaphore of streams lets one in.
\<close>

record http_request =
  rq_verb :: string
  rq_path :: string
  rq_token :: string
  rq_transfer_encoding :: string
  rq_content_length :: "string option"
  rq_text :: "string option"
  rq_resume :: string
  rq_stream_free :: bool

record server =
  sv_ctl :: controller
  sv_token :: string
  sv_stopping :: bool

text \<open>A status and the body, if there is one.\<close>

type_synonym http_answer = "int \<times> json option"

text \<open>
  \<open>str.isdigit\<close> below 256 accepts the superscripts 1, 2 and 3, which \<open>int\<close> refuses, as it refuses more
  than 4300 digits.
\<close>

definition py_isdigit :: "string \<Rightarrow> bool" where
  "py_isdigit s \<longleftrightarrow> s \<noteq> [] \<and> list_all (\<lambda>c. is_digit c \<or> char_code c \<in> {178, 179, 185}) s"

definition py_int :: "string \<Rightarrow> nat result" where
  "py_int s = (if s \<noteq> [] \<and> list_all is_digit s \<and> length s \<le> 4300 then Inr (digits_value s) else Inl (ValueError ''invalid literal for int()''))"

definition read_body :: "http_request \<Rightarrow> json result" where
  "read_body rq = (if rq_transfer_encoding rq \<noteq> [] then Inl (ApiError 411 ''length_required'')
     else case rq_content_length rq of
       None \<Rightarrow> Inr (JObj [])
     | Some l \<Rightarrow>
         (if \<not> py_isdigit l then Inl (ApiError 411 ''length_required'')
          else bind_result (py_int l) (\<lambda>n.
            if MAX_BODY_BYTES < n then Inl (ApiError 413 ''too_large'')
            else if n = 0 then Inr (JObj [])
            else case rq_text rq of
              None \<Rightarrow> Inl (ApiError 400 ''invalid_json'')
            | Some t \<Rightarrow> (if t = [] then Inr (JObj []) else case loads t of
                Inr v \<Rightarrow> Inr v | Inl _ \<Rightarrow> Inl (ApiError 400 ''invalid_json'')))))"

section \<open>Paths\<close>

definition is_id_char :: "char \<Rightarrow> bool" where
  "is_id_char c = (let n = char_code c in
     (65 \<le> n \<and> n \<le> 90) \<or> (97 \<le> n \<and> n \<le> 122) \<or> (48 \<le> n \<and> n \<le> 57) \<or> c \<in> {CHR ''_'', CHR ''.'', CHR '':'', CHR ''-''})"

text \<open>\<open>^/v1/tasks/([A-Za-z0-9_.:-]{1,200})<suffix>$\<close>; a request path holds no newline.\<close>

definition match_task :: "string \<Rightarrow> string \<Rightarrow> string option" where
  "match_task suffix path = (let pre = ''/v1/tasks/''; n = length path - length pre - length suffix; m = take n (drop (length pre) path) in
     if path = pre @ m @ suffix \<and> m \<noteq> [] \<and> length m \<le> 200 \<and> list_all is_id_char m then Some m else None)"

section \<open>Answers as JSON\<close>

fun mode_text :: "mode \<Rightarrow> string" where
  "mode_text Booting = ''booting''"
| "mode_text Normal = ''normal''"
| "mode_text Degraded = ''degraded_readonly''"

definition health_json :: "env \<Rightarrow> controller \<Rightarrow> json" where
  "health_json x c = (case health c of (m, seq, leases, bad) \<Rightarrow> JObj ([(''mode'', JStr (mode_text m)), (''head_seq'', JInt seq),
     (''active_leases'', JInt (int leases)), (''build'', x_build x)]
     @ (case bad of None \<Rightarrow> [] | Some (first, reason) \<Rightarrow> [(''first_bad_seq'', opt_int first), (''reason'', opt_str reason)])))"

fun opt_bool :: "bool option \<Rightarrow> json" where
  "opt_bool None = JNull"
| "opt_bool (Some b) = JBool b"

definition task_record_json :: "task_state \<Rightarrow> payload" where
  "task_record_json s = [(''task_id'', JStr (t_task_id s)), (''status'', JStr (status_value (t_status s))), (''adapter'', JStr (t_adapter s)),
     (''params'', t_params s), (''effect_class'', JStr (t_effect_class s)), (''max_attempts'', JInt (t_max_attempts s)),
     (''lease_ttl_s'', JInt (t_lease_ttl_s s)), (''timeout_s'', opt_int (t_timeout_s s)), (''attempt'', JInt (t_attempt s)),
     (''dispatch_id'', opt_str (t_dispatch_id s)), (''worker_id'', opt_str (t_worker_id s)), (''started'', JBool (t_started s)),
     (''pending_result_id'', opt_str (t_pending_result_id s)), (''accepted_result_id'', opt_str (t_accepted_result_id s)),
     (''cancel_requested'', JBool (t_cancel_requested s)), (''failure_kind'', opt_str (t_failure_kind s)),
     (''retryable'', opt_bool (t_retryable s)), (''last_reason'', opt_str (t_last_reason s)), (''late_results'', JInt (t_late_results s)),
     (''resolution'', opt_str (t_resolution s)), (''decided_by'', opt_str (t_decided_by s)), (''depends_on'', opt_str (t_depends_on s)),
     (''input'', case t_input s of None \<Rightarrow> JNull | Some v \<Rightarrow> v), (''created_seq'', opt_int (t_created_seq s)),
     (''updated_seq'', opt_int (t_updated_seq s))]"

definition claim_json :: "(rat \<Rightarrow> string) \<Rightarrow> claim_response \<Rightarrow> json" where
  "claim_json repr r = JObj [(''task_id'', JStr (cl_task_id r)), (''attempt'', JInt (cl_attempt r)), (''dispatch_id'', JStr (cl_dispatch_id r)),
     (''worker_id'', JStr (cl_worker_id r)), (''ttl_s'', JInt (cl_ttl_s r)), (''heartbeat_s'', JFloat (repr (cl_heartbeat_s r))),
     (''spec'', cl_spec r)]"

definition id_list :: "string list \<Rightarrow> json" where
  "id_list xs = JList (map JStr xs)"

definition error_json :: "string \<Rightarrow> json" where
  "error_json code = JObj [(''error'', JStr code)]"

section \<open>Dispatch\<close>

definition answer :: "'a op \<Rightarrow> ('a \<Rightarrow> http_answer) \<Rightarrow> http_answer op" where
  "answer m f = op_bind m (\<lambda>a. op_return (f a))"

text \<open>The event stream: the resume position must be a number, and a stream must be free.\<close>

definition stream_events :: "http_request \<Rightarrow> http_answer op" where
  "stream_events rq = (if \<not> py_isdigit (strip (rq_resume rq)) then invalid_request
     else op_bind (op_lift (py_int (strip (rq_resume rq)))) (\<lambda>_.
       if rq_stream_free rq then op_return (200, None) else api 503 ''too_many_streams''))"

definition route_get :: "env \<Rightarrow> http_request \<Rightarrow> http_answer op" where
  "route_get x rq =
     (if rq_path rq = ''/v1/health'' then answer (op_get (\<lambda>c. c)) (\<lambda>c. (200, Some (health_json x c)))
      else if rq_path rq = ''/v1/events'' then stream_events rq
      else case match_task [] (rq_path rq) of
        Some tid \<Rightarrow> answer (task_view x tid) (\<lambda>(s, k). (200, Some (JObj (task_record_json s @ [(''effect_key'', JStr k)]))))
      | None \<Rightarrow> api 404 ''not_found'')"

definition route_post :: "env \<Rightarrow> (rat \<Rightarrow> string) \<Rightarrow> rat \<Rightarrow> string \<Rightarrow> json \<Rightarrow> http_answer op" where
  "route_post x repr now path body =
     (if path = ''/v1/tasks'' then answer (create_task x body) (\<lambda>(st, tid, dup). (st, Some (JObj [(''task_id'', JStr tid), (''duplicate'', JBool dup)])))
      else if path = ''/v1/claim'' then answer (ctl_claim x now body) (\<lambda>r. case r of None \<Rightarrow> (204, None) | Some l \<Rightarrow> (200, Some (claim_json repr l)))
      else if path = ''/v1/start'' then answer (ctl_start x body) (\<lambda>(st, tid). (200, Some (JObj [(''status'', JStr st), (''task_id'', JStr tid)])))
      else if path = ''/v1/heartbeat'' then answer (heartbeat x now body)
        (\<lambda>(stop, cancel). (200, Some (JObj [(''ok'', JBool True), (''stop'', id_list stop), (''cancel'', id_list cancel)])))
      else if path = ''/v1/result'' then answer (ctl_result x body)
        (\<lambda>(st, tid, seq). (200, Some (JObj [(''status'', JStr st), (''task_id'', opt_str tid), (''seq'', opt_int seq)])))
      else if path = ''/v1/shutdown'' then op_return (200, Some (JObj [(''status'', JStr ''STOPPING'')]))
      else case match_task ''/cancel'' path of
        Some tid \<Rightarrow> answer (ctl_cancel x tid body) (\<lambda>st. (200, Some (JObj [(''status'', JStr st), (''cancel_requested'', JBool True)])))
      | None \<Rightarrow> (case match_task ''/resolve'' path of
          Some tid \<Rightarrow> answer (ctl_resolve x tid body)
            (\<lambda>(st, dec, dup). (200, Some (JObj [(''status'', JStr st), (''decision'', JStr dec), (''duplicate'', JBool dup)])))
        | None \<Rightarrow> api 404 ''not_found''))"

definition authorized :: "http_request \<Rightarrow> server \<Rightarrow> bool" where
  "authorized rq sv \<longleftrightarrow> rq_token rq = sv_token sv"

definition route :: "env \<Rightarrow> (rat \<Rightarrow> string) \<Rightarrow> rat \<Rightarrow> http_request \<Rightarrow> http_answer op" where
  "route x repr now rq = (if rq_verb rq = ''GET'' then route_get x rq
     else op_bind (op_lift (read_body rq)) (\<lambda>body. route_post x repr now (rq_path rq) body))"

text \<open>\<open>ApiError\<close> becomes its status, any other exception 500.\<close>

definition error_answer :: "error \<Rightarrow> http_answer" where
  "error_answer err = (case err of ApiError st code \<Rightarrow> (st, Some (error_json code)) | _ \<Rightarrow> (500, Some (error_json ''internal'')))"

text \<open>A refused body is read and dropped; a length that only looks like a number makes that raise.\<close>

definition discard_body :: "http_request \<Rightarrow> unit result" where
  "discard_body rq = (case rq_content_length rq of
     Some l \<Rightarrow> (if py_isdigit l then bind_result (py_int l) (\<lambda>_. Inr ()) else Inr ()) | None \<Rightarrow> Inr ())"

definition dispatch :: "env \<Rightarrow> (rat \<Rightarrow> string) \<Rightarrow> rat \<Rightarrow> http_request \<Rightarrow> server \<Rightarrow> http_answer \<times> server" where
  "dispatch x repr now rq sv =
     (if \<not> authorized rq sv then
        (case discard_body rq of Inl err \<Rightarrow> error_answer err | Inr _ \<Rightarrow> (401, Some (error_json ''unauthorized'')), sv)
      else case route x repr now rq (sv_ctl sv) of
        (Inl err, c) \<Rightarrow> (error_answer err, sv\<lparr>sv_ctl := c\<rparr>)
      | (Inr a, c) \<Rightarrow> (a, sv\<lparr>sv_ctl := c, sv_stopping := sv_stopping sv
          \<or> (rq_verb rq \<noteq> ''GET'' \<and> rq_path rq = ''/v1/shutdown'')\<rparr>))"

text \<open>\<open>do_GET\<close>, \<open>do_POST\<close>, \<open>do_PUT\<close> and its aliases; another verb is answered by the library with 501.\<close>

definition handle_request :: "env \<Rightarrow> (rat \<Rightarrow> string) \<Rightarrow> rat \<Rightarrow> http_request \<Rightarrow> server \<Rightarrow> http_answer \<times> server" where
  "handle_request x repr now rq sv = (if rq_verb rq \<in> {''GET'', ''POST''} then dispatch x repr now rq sv
     else if rq_verb rq \<in> {''PUT'', ''DELETE'', ''PATCH''} then ((405, Some (error_json ''method_not_allowed'')), sv)
     else ((501, None), sv))"

section \<open>Event records and the token file\<close>

definition event_json :: "event \<Rightarrow> json" where
  "event_json e = JObj [(''seq'', opt_int (ev_seq e)), (''event_id'', JStr (ev_event_id e)), (''type'', JStr (type_value (ev_type e))),
     (''task_id'', opt_str (ev_task_id e)), (''attempt'', opt_int (ev_attempt e)), (''dispatch_id'', opt_str (ev_dispatch_id e)),
     (''worker_id'', opt_str (ev_worker_id e)), (''result_id'', opt_str (ev_result_id e)), (''ts_utc'', JStr (ev_ts_utc e)),
     (''payload'', JObj (ev_payload e)), (''hash'', opt_str (ev_hash e))]"

definition sse_record :: "event \<Rightarrow> string" where
  "sse_record e = ''id: '' @ show_opt_int (ev_seq e) @ [CHR 0x0A] @ ''event: '' @ type_value (ev_type e) @ [CHR 0x0A]
     @ ''data: '' @ dumps_ascii (event_json e) @ [CHR 0x0A, CHR 0x0A]"

text \<open>The file before (\<open>None\<close> if missing), a fresh token; the token used and the file after.\<close>

definition load_or_create_token :: "string option \<Rightarrow> string \<Rightarrow> string \<times> string option" where
  "load_or_create_token file fresh = (case file of
     Some text \<Rightarrow> (if 32 \<le> length (strip text) then (strip text, file) else (fresh, Some (fresh @ [CHR 0x0A])))
   | None \<Rightarrow> (fresh, Some (fresh @ [CHR 0x0A])))"

section \<open>Parsed bodies are Python values\<close>

definition no_digit_first :: "string \<Rightarrow> bool" where
  "no_digit_first s \<longleftrightarrow> (case s of [] \<Rightarrow> True | c # _ \<Rightarrow> \<not> is_digit c)"

lemma digits_then: "\<forall>c\<in>set ds. is_digit c \<Longrightarrow> no_digit_first r \<Longrightarrow> takeWhile is_digit (ds @ r) = ds \<and> dropWhile is_digit (ds @ r) = r"
  by (cases r) (simp_all add: no_digit_first_def takeWhile_append2 dropWhile_append2 takeWhile_tail)

lemma digit_marks: "\<not> is_digit CHR ''.''" "\<not> is_digit CHR ''e''" "\<not> is_digit CHR ''E''"
  by (simp_all add: is_digit_def char_code_def)

lemma digits_taken:
  assumes "no_digit_first q"
  shows "takeWhile is_digit (takeWhile is_digit s @ q) = takeWhile is_digit s" "dropWhile is_digit (takeWhile is_digit s @ q) = q"
proof -
  have "\<forall>c\<in>set (takeWhile is_digit s). is_digit c" by (auto dest: set_takeWhileD)
  from digits_then [OF this assms]
  show "takeWhile is_digit (takeWhile is_digit s @ q) = takeWhile is_digit s" "dropWhile is_digit (takeWhile is_digit s @ q) = q"
    by blast+
qed

lemma split_int_again: "split_int s = Some (ip, r) \<Longrightarrow> no_digit_first q \<Longrightarrow> split_int (ip @ q) = Some (ip, q)"
  by (cases s) (auto simp: split_int_def digits_taken split: if_splits)

lemma split_frac_again:
  assumes "split_frac s = (fr, r)" "no_digit_first q" "take 1 q \<noteq> ''.''"
  shows "split_frac (fr @ q) = (fr, q) \<and> no_digit_first (fr @ q)"
proof (cases "fr = []")
  case True
  with assms(2,3) show ?thesis by (cases q) (auto simp: split_frac_def)
next
  case False
  then obtain cs where "fr = CHR ''.'' # takeWhile is_digit cs" "takeWhile is_digit cs \<noteq> []"
    using assms(1) by (cases s) (auto simp: split_frac_def split: if_splits)
  then show ?thesis using digits_taken [OF assms(2)] digit_marks by (simp add: split_frac_def no_digit_first_def)
qed

lemma split_exp_again:
  assumes "split_exp s = (ex, r)"
  shows "split_exp ex = (ex, []) \<and> no_digit_first ex \<and> take 1 ex \<noteq> ''.''"
proof (cases s)
  case (Cons c cs)
  obtain sg ds where sg: "split_sign cs = (sg, ds)" by fastforce
  show ?thesis
  proof (cases "(c = CHR ''e'' \<or> c = CHR ''E'') \<and> takeWhile is_digit ds \<noteq> []")
    case True
    let ?ds = "takeWhile is_digit ds"
    have ex: "ex = c # sg @ ?ds" using assms Cons sg True by (simp add: split_exp_def)
    have d: "\<forall>x\<in>set ?ds. is_digit x" by (auto dest: set_takeWhileD)
    then have "\<not> (hd ?ds = CHR ''+'' \<or> hd ?ds = CHR ''-'')"
      using True by (cases ?ds) (auto simp: is_digit_def char_code_def)
    then have "split_sign (sg @ ?ds) = (sg, ?ds)"
      using sg True by (cases ?ds; cases cs) (auto simp: split_sign_def split: if_splits)
    then show ?thesis
      using True d ex digit_marks digits_then [OF d, of "[]"] by (auto simp: split_exp_def no_digit_first_def)
  next
    case False
    then have "ex = []" using assms Cons sg by (auto simp: split_exp_def)
    then show ?thesis by (simp add: split_exp_def no_digit_first_def)
  qed
qed (use assms in \<open>simp add: split_exp_def no_digit_first_def\<close>)

lemma parsed_float:
  assumes "parse_number s = Some (JFloat t, r)"
  shows "float_text t"
proof -
  define neg where "neg = (take 1 s = ''-'')"
  obtain ip r1 where ip: "split_int (if neg then drop 1 s else s) = Some (ip, r1)" and n: "number_tail neg ip r1 = (JFloat t, r)"
    using assms by (auto simp: parse_number_def neg_def Let_def)
  obtain fr r2 where fr: "split_frac r1 = (fr, r2)" by fastforce
  obtain ex r3 where ex: "split_exp r2 = (ex, r3)" by fastforce
  note e = split_exp_again [OF ex]
  note f = split_frac_again [OF fr, of ex]
  have i: "split_int (ip @ fr @ ex) = Some (ip, fr @ ex)" using split_int_again [OF ip] e f by simp
  have t: "t = (if neg then ''-'' else []) @ ip @ fr @ ex" "\<not> (fr = [] \<and> ex = [])"
    using n fr ex by (auto simp: number_tail_def split: if_splits)
  have "take 1 (ip @ fr @ ex) \<noteq> ''-''"
    using ip by (auto simp: split_int_def is_digit_def char_code_def split: list.splits if_splits)
  then show ?thesis
    using t i e f by (auto simp: float_text_def parse_number_def number_tail_def Let_def)
qed

lemma parsed_object: "distinct (map fst d) \<Longrightarrow> py_members d \<Longrightarrow> py_members kvs \<Longrightarrow>
    distinct (map fst (fold (\<lambda>(k, v). AList.update k v) kvs d)) \<and> py_members (fold (\<lambda>(k, v). AList.update k v) kvs d)"
  by (induction kvs arbitrary: d) (auto simp: distinct_update py_members_update)

lemma number_tail_value: "number_tail neg ip r = (v, q) \<Longrightarrow> (\<exists>i. v = JInt i) \<or> (\<exists>t. v = JFloat t)"
  by (auto simp: number_tail_def Let_def split: prod.splits if_splits)

lemma parse_number_value: "parse_number s = Some (v, r) \<Longrightarrow> py_value v"
proof -
  assume p: "parse_number s = Some (v, r)"
  then have "(\<exists>i. v = JInt i) \<or> (\<exists>t. v = JFloat t)"
    by (auto simp: parse_number_def Let_def dest: number_tail_value)
  then show ?thesis using p parsed_float by auto
qed

lemma parsed_value:
  "parse_value f s = Some (v, r) \<Longrightarrow> py_value v"
  "parse_elems f s = Some (vs, r) \<Longrightarrow> py_values vs"
  "parse_members f s = Some (kvs, r) \<Longrightarrow> py_members kvs"
proof (induction f s and f s and f s arbitrary: v r and vs r and kvs r rule: parse_value_parse_elems_parse_members.induct)
  case (2 f s)
  then show ?case
    using parsed_object [of "[]"] parse_number_value [of s v r]
    by (auto simp: Let_def split: list.splits if_splits)
next
  case (4 f s)
  from "4.prems" obtain w r1 where w: "parse_value f s = Some (w, r1)" by (auto split: option.splits)
  with "4.IH"(1) have "py_value w" by blast
  with "4.prems" w "4.IH"(2) [OF w] show ?case by (auto simp: Let_def split: if_splits)
next
  case (6 f s)
  then show ?case by (auto simp: Let_def split: option.splits if_splits)
qed simp_all

lemma loads_value: "loads s = Inr v \<Longrightarrow> py_value v"
proof -
  assume "loads s = Inr v"
  then obtain r where "parse_value (Suc (2 * length s)) (skip_ws s) = Some (v, r)"
    unfolding loads_def by (simp only: split: option.splits prod.splits if_splits) auto
  then show ?thesis by (rule parsed_value(1))
qed

lemma read_json_value: "read_body rq = Inr v \<Longrightarrow> py_value v"
  by (auto simp: read_body_def bind_result_eq_Inr split: if_splits option.splits sum.splits dest: loads_value)

section \<open>What a request can do to the controller\<close>

text \<open>
  The state after answering a request is the state after one request of the controller's own, or
  none: the front end adds no way to change it.
\<close>

definition by_requests :: "env \<Rightarrow> controller \<Rightarrow> controller \<Rightarrow> bool" where
  "by_requests x c c' \<longleftrightarrow> c' = c \<or> (\<exists>r. legal_request r \<and> c' = snd (run_request x r c))"

lemma answer_snd: "snd (answer m f c) = snd (m c)"
  by (auto simp: answer_def op_bind_def op_return_def split: prod.splits sum.splits)

lemma stream_events_state: "snd (stream_events rq c) = c"
  by (auto simp: stream_events_def op_bind_def op_return_def op_lift_def api_def op_raise_def invalid_request_def split: sum.splits)

lemma task_view_state: "snd (task_view x tid c) = c"
  using ctl_task_state(1) [of "Some tid" c]
  by (auto simp: task_view_def op_bind_def op_get_def op_return_def api_def op_raise_def split: prod.splits sum.splits option.splits)

lemma route_get_state: "snd (route_get x rq c) = c"
  by (auto simp: route_get_def answer_snd stream_events_state task_view_state op_get_def api_def op_raise_def split: option.splits)

lemma route_post_state:
  assumes "py_value body"
  shows "by_requests x c (snd (route_post x repr now path body c))"
proof -
  have r: "by_requests x c (snd (create_task x body c))" "by_requests x c (snd (ctl_claim x now body c))"
    "by_requests x c (snd (ctl_start x body c))" "by_requests x c (snd (heartbeat x now body c))"
    "by_requests x c (snd (ctl_result x body c))" "by_requests x c (snd (ctl_cancel x tid body c))"
    "by_requests x c (snd (ctl_resolve x tid body c))" for tid
    using assms
    by (auto simp: by_requests_def intro: exI [of _ "CreateTask body"] exI [of _ "Claim now body"] exI [of _ "Start body"]
        exI [of _ "Heartbeat now body"] exI [of _ "Result body"] exI [of _ "CancelTask tid body"] exI [of _ "ResolveTask tid body"])
  have "by_requests x c c" by (simp add: by_requests_def)
  with r show ?thesis
    by (simp add: route_post_def answer_snd op_return_def api_def op_raise_def split: option.split)
qed

lemma route_state: "by_requests x (c :: controller) (snd (route x repr now rq c))"
proof (cases "read_body rq")
  case (Inr body)
  from route_post_state [OF read_json_value [OF Inr]] show ?thesis
    by (simp add: route_def route_get_state by_requests_def op_bind_def op_lift_def Inr)
qed (simp add: route_def route_get_state by_requests_def op_bind_def op_lift_def)

lemma dispatch_state: "by_requests x (sv_ctl sv) (sv_ctl (snd (dispatch x repr now rq sv)))"
  using route_state [of x "sv_ctl sv" repr now rq]
  by (auto simp: dispatch_def split: prod.splits sum.splits) (simp_all add: by_requests_def)

lemma handle_request_state: "by_requests x (sv_ctl sv) (sv_ctl (snd (handle_request x repr now rq sv)))"
  using dispatch_state [of x sv repr now rq] by (simp add: handle_request_def by_requests_def)

lemma discard_refusal: "discard_body rq = Inl err \<Longrightarrow> fst (error_answer err) = 500"
  by (auto simp: discard_body_def py_int_def error_answer_def split: option.splits if_splits)

text \<open>
  C40. Whatever requests arrive, the controller's state is one its own requests lead to; a request
  without the token, or of an unknown verb, changes nothing at all and learns no more than that.
\<close>

theorem requests_reach_only_requests:
  "(\<exists>r. legal_request r \<and> sv_ctl (snd (handle_request x repr now rq sv)) \<in> {sv_ctl sv, snd (run_request x r (sv_ctl sv))})
   \<and> sv_token (snd (handle_request x repr now rq sv)) = sv_token sv
   \<and> (rq_token rq \<noteq> sv_token sv \<or> rq_verb rq \<notin> {''GET'', ''POST''} \<longrightarrow>
        snd (handle_request x repr now rq sv) = sv \<and> fst (fst (handle_request x repr now rq sv)) \<in> {401, 405, 500, 501})"
proof -
  have "legal_request StopController" by simp
  with handle_request_state [of x sv repr now rq]
  have "\<exists>r. legal_request r \<and> sv_ctl (snd (handle_request x repr now rq sv)) \<in> {sv_ctl sv, snd (run_request x r (sv_ctl sv))}"
    unfolding by_requests_def by blast
  moreover have "sv_token (snd (handle_request x repr now rq sv)) = sv_token sv"
    by (auto simp: handle_request_def dispatch_def split: prod.splits sum.splits)
  moreover have "snd (handle_request x repr now rq sv) = sv \<and> fst (fst (handle_request x repr now rq sv)) \<in> {401, 405, 500, 501}"
    if "rq_token rq \<noteq> sv_token sv \<or> rq_verb rq \<notin> {''GET'', ''POST''}"
    using that by (auto simp: handle_request_def dispatch_def authorized_def discard_refusal split: sum.split)
  ultimately show ?thesis by blast
qed

definition sample_server :: server where
  "sample_server = \<lparr>sv_ctl = init_controller None, sv_token = ''t'', sv_stopping = False\<rparr>"

definition sample_request :: http_request where
  "sample_request = \<lparr>rq_verb = ''POST'', rq_path = ''/v1/boot'', rq_token = ''guess'', rq_transfer_encoding = [], rq_content_length = None,
     rq_text = Some [], rq_resume = ''0'', rq_stream_free = True\<rparr>"

theorem requests_reach_only_requests_witness:
  "\<forall>x repr now. snd (handle_request x repr now sample_request sample_server) = sample_server"
proof -
  have "rq_token sample_request \<noteq> sv_token sample_server" by (simp add: sample_request_def sample_server_def)
  then show ?thesis using requests_reach_only_requests [where rq = sample_request and sv = sample_server] by blast
qed

end
