(* ===== verification/Worker_Outbox.thy ===== *)
theory Worker_Outbox
  imports Json_Spaced Complex_Main
begin

text \<open>
  The durable outbox of a worker host (courier\_worker/host.py): one file per undelivered result in
  \<open>outbox/\<close>, written before the first delivery attempt, removed once the controller answered, or
  moved to \<open>outbox/quarantine/\<close>. A write goes to a temporary file first and is put in place by
  \<open>os.replace\<close>, so a file is there with its whole text or not at all; the file system itself does
  not fail. File names and texts are strings, modification times come from the caller's clock.
\<close>

section \<open>The directory\<close>

definition MAX_RESULT_PAYLOAD_BYTES :: nat where "MAX_RESULT_PAYLOAD_BYTES = 1024 * 1024"
definition OUTBOX_CAP :: nat where "OUTBOX_CAP = 32"

record outbox_file =
  of_mtime :: rat
  of_text :: string

text \<open>A quarantined payload, or the note written beside it (\<open>json.dumps(..., indent=2)\<close> of the object).\<close>

datatype quarantine_file = QText string | QMeta payload

text \<open>\<open>d_outbox\<close> lists the \<open>*.json\<close> files of \<open>outbox/\<close>, \<open>d_quarantine\<close> those of \<open>outbox/quarantine/\<close>.\<close>

record disk =
  d_outbox :: "(string \<times> outbox_file) list"
  d_quarantine :: "(string \<times> quarantine_file) list"

definition empty_disk :: disk where
  "empty_disk = \<lparr>d_outbox = [], d_quarantine = []\<rparr>"

section \<open>Dispatch identifiers as file names\<close>

definition is_dispatch_char :: "char \<Rightarrow> bool" where
  "is_dispatch_char c = (let n = char_code c in
     (65 \<le> n \<and> n \<le> 90) \<or> (97 \<le> n \<and> n \<le> 122) \<or> (48 \<le> n \<and> n \<le> 57) \<or> c = CHR ''_'' \<or> c = CHR ''.'' \<or> c = CHR ''-'')"

text \<open>\<open>re.match("^[A-Za-z0-9_.-]+$", s)\<close>: \<open>$\<close> also matches before a trailing newline.\<close>

definition safe_match :: "string \<Rightarrow> bool" where
  "safe_match s = (let t = (if s \<noteq> [] \<and> last s = CHR 0x0A then butlast s else s) in t \<noteq> [] \<and> list_all is_dispatch_char t)"

text \<open>The test \<open>outbox_write\<close>, \<open>outbox_remove\<close> and \<open>outbox_quarantine\<close> make before they build a path.\<close>

definition safe_dispatch_id :: "string \<Rightarrow> bool" where
  "safe_dispatch_id s \<longleftrightarrow> s \<noteq> [] \<and> safe_match s \<and> \<not> str_contains s ''..'' \<and> CHR ''/'' \<notin> set s \<and> CHR 0x5C \<notin> set s"

definition entry_name :: "string \<Rightarrow> string" where
  "entry_name did = did @ ''.json''"

section \<open>Operations\<close>

definition outbox_write :: "rat \<Rightarrow> payload \<Rightarrow> disk \<Rightarrow> unit result \<times> disk" where
  "outbox_write now p d = (case get p ''dispatch_id'' of
     JStr did \<Rightarrow>
       (if \<not> safe_dispatch_id did then (Inl (SpecError ''dispatch_id''), d)
        else if MAX_RESULT_PAYLOAD_BYTES < length (dumps_sorted (JObj p)) then (Inl (SpecError ''size limit''), d)
        else if OUTBOX_CAP \<le> length (d_outbox d) \<and> entry_name did \<notin> fst ` set (d_outbox d) then (Inl OutboxFull, d)
        else (Inr (), d\<lparr>d_outbox := AList.update (entry_name did)
               \<lparr>of_mtime = now, of_text = dumps_sorted (JObj p)\<rparr> (d_outbox d)\<rparr>))
   | _ \<Rightarrow> (Inl (SpecError ''dispatch_id''), d))"

text \<open>Oldest first, ties by name; a file that does not parse is skipped.\<close>

definition parsed_entry :: "string \<times> outbox_file \<Rightarrow> (string \<times> json) option" where
  "parsed_entry e = (case loads (of_text (snd e)) of Inr v \<Rightarrow> Some (fst e, v) | Inl _ \<Rightarrow> None)"

definition outbox_read_all :: "disk \<Rightarrow> (string \<times> json) list" where
  "outbox_read_all d = List.map_filter parsed_entry (sort_key (\<lambda>(n, f). (of_mtime f, n)) (d_outbox d))"

definition outbox_remove :: "json \<Rightarrow> disk \<Rightarrow> disk" where
  "outbox_remove v d = (case v of
     JStr did \<Rightarrow> if safe_dispatch_id did then d\<lparr>d_outbox := AList.delete (entry_name did) (d_outbox d)\<rparr> else d
   | _ \<Rightarrow> d)"

text \<open>
  The file moves with its text; a nonempty reason is noted in \<open><id>.meta.json\<close> (of the note the
  identifier and the reason are kept, not the time stamp).
\<close>

definition outbox_quarantine :: "string \<Rightarrow> string \<Rightarrow> disk \<Rightarrow> disk" where
  "outbox_quarantine did reason d =
     (if \<not> safe_dispatch_id did then d
      else case map_of (d_outbox d) (entry_name did) of
        None \<Rightarrow> d
      | Some f \<Rightarrow>
          (let q = AList.update (entry_name did) (QText (of_text f)) (d_quarantine d) in
           d\<lparr>d_outbox := AList.delete (entry_name did) (d_outbox d),
             d_quarantine := (if reason = [] then q
               else AList.update (did @ ''.meta.json'') (QMeta [(''dispatch_id'', JStr did), (''reason'', JStr reason)]) q)\<rparr>))"

section \<open>What the operations keep\<close>

text \<open>An entry is named after the dispatch of the payload it holds, and its text reads back.\<close>

definition entry_ok :: "string \<times> outbox_file \<Rightarrow> bool" where
  "entry_ok e \<longleftrightarrow> (\<exists>p did. of_text (snd e) = dumps_sorted (JObj p) \<and> wf_json (JObj p)
     \<and> get p ''dispatch_id'' = JStr did \<and> safe_dispatch_id did \<and> fst e = entry_name did)"

definition disk_ok :: "disk \<Rightarrow> bool" where
  "disk_ok d \<longleftrightarrow> dict_wf (d_outbox d) \<and> length (d_outbox d) \<le> OUTBOX_CAP \<and> (\<forall>e\<in>set (d_outbox d). entry_ok e)"

lemma entry_name_inject [simp]: "entry_name a = entry_name b \<longleftrightarrow> a = b"
  by (simp add: entry_name_def)

lemma entry_name_meta: "d @ ''.meta.json'' = entry_name did \<longleftrightarrow> did = d @ ''.meta''"
proof -
  have "d @ ''.meta.json'' = (d @ ''.meta'') @ ''.json''" by simp
  then show ?thesis unfolding entry_name_def by (metis append_same_eq)
qed

lemma set_update_wf: "dict_wf d \<Longrightarrow> e \<in> set (AList.update k v d) \<Longrightarrow> e = (k, v) \<or> e \<in> set d"
  by (induction d) (auto simp: dict_wf_def split: if_splits)

lemma length_update: "length (AList.update k v d) = (if k \<in> fst ` set d then length d else Suc (length d))"
  by (induction d) auto

lemma set_delete_sub: "set (AList.delete k d) \<subseteq> set d"
  by (auto simp: AList.delete_eq)

lemma length_delete_le: "length (AList.delete k d) \<le> length d"
  by (simp add: AList.delete_eq)

lemma disk_ok_delete: "disk_ok d \<Longrightarrow> disk_ok (d\<lparr>d_outbox := AList.delete n (d_outbox d), d_quarantine := q\<rparr>)"
  using length_delete_le [of n "d_outbox d"] set_delete_sub [of n "d_outbox d"] by (auto simp: disk_ok_def)

lemma disk_ok_remove: "disk_ok d \<Longrightarrow> disk_ok (outbox_remove v d)"
  using disk_ok_delete [where q = "d_quarantine d" and d = d] by (auto simp: outbox_remove_def split: json.split)

lemma disk_ok_quarantine: "disk_ok d \<Longrightarrow> disk_ok (outbox_quarantine did reason d)"
  by (auto simp: outbox_quarantine_def Let_def disk_ok_delete split: option.split)

lemma disk_ok_write:
  assumes "disk_ok d" "wf_json (JObj p)"
  shows "disk_ok (snd (outbox_write now p d))"
proof (cases "get p ''dispatch_id''")
  case (JStr did)
  let ?f = "\<lparr>of_mtime = now, of_text = dumps_sorted (JObj p)\<rparr>"
  have "entry_ok (entry_name did, ?f)" if "safe_dispatch_id did"
    unfolding entry_ok_def using that assms(2) JStr by (intro exI [of _ p] exI [of _ did]) simp
  moreover have "length (AList.update (entry_name did) ?f (d_outbox d)) \<le> OUTBOX_CAP"
    if "\<not> (OUTBOX_CAP \<le> length (d_outbox d) \<and> entry_name did \<notin> fst ` set (d_outbox d))"
    using that assms(1) by (auto simp: length_update disk_ok_def)
  ultimately show ?thesis
    using assms(1) JStr by (auto simp: outbox_write_def disk_ok_def dest: set_update_wf)
qed (use assms in \<open>simp_all add: outbox_write_def\<close>)

section \<open>Reading back\<close>

lemma set_map_filter: "set (List.map_filter f xs) = {y. \<exists>x\<in>set xs. f x = Some y}"
  by (force simp: List.map_filter_def)

lemma read_all_iff:
  "(n, v) \<in> set (outbox_read_all d) \<longleftrightarrow> (\<exists>f. (n, f) \<in> set (d_outbox d) \<and> loads (of_text f) = Inr v)"
proof -
  have "parsed_entry e = Some (n, v) \<longleftrightarrow> fst e = n \<and> loads (of_text (snd e)) = Inr v" for e
    by (auto simp: parsed_entry_def split: sum.splits)
  then have "(n, v) \<in> set (outbox_read_all d) \<longleftrightarrow> (\<exists>e\<in>set (d_outbox d). fst e = n \<and> loads (of_text (snd e)) = Inr v)"
    by (simp add: outbox_read_all_def set_map_filter)
  then show ?thesis by (metis fst_conv prod.collapse snd_conv)
qed

lemma entry_reads_back:
  assumes "entry_ok (n, f)"
  obtains p did where "loads (of_text f) = Inr (canonical (JObj p))" "wf_json (JObj p)"
    "get p ''dispatch_id'' = JStr did" "safe_dispatch_id did" "n = entry_name did" "of_text f = dumps_sorted (JObj p)"
  using assms loads_dumps_sorted unfolding entry_ok_def by fastforce

text \<open>The members of an object survive sorting and canonisation.\<close>

lemma map_of_canonical_members: "map_of (canonical_members kvs) k = map_option canonical (map_of kvs k)"
  by (induction kvs) auto

lemma map_of_sort_key: "distinct (map fst kvs) \<Longrightarrow> map_of (sort_key fst kvs) = map_of kvs"
proof
  fix k
  assume d: "distinct (map fst kvs)"
  then have "dict_wf kvs" "dict_wf (sort_key fst kvs)" by (simp_all add: dict_wf_def)
  then have "map_of (sort_key fst kvs) k = Some v \<longleftrightarrow> map_of kvs k = Some v" for v
    by (simp flip: dict_wf_map_of)
  then show "map_of (sort_key fst kvs) k = map_of kvs k" by (metis not_None_eq)
qed

lemma get_canonical:
  "distinct (map fst p) \<Longrightarrow> canonical (JObj p) = JObj q \<Longrightarrow> get q k = canonical (get p k)"
  by (auto simp: get_def map_of_sort_key map_of_canonical_members split: option.splits)

end
