(* ===== verification/Controller_Evidence.thy ===== *)
theory Controller_Evidence
  imports Controller_Safety Worker_Outbox
begin

text \<open>
  What the answers of the controller prove. An acknowledged result is a row of the journal with exactly
  the reported content, an acknowledged start is the \<open>TASK_STARTED\<close> of that dispatch; rows stay, so a
  result delivered again, whatever happened in between, is acknowledged and changes nothing.
\<close>

section \<open>Runs of the small operations\<close>

lemma run_return: "op_return v c = (Inr u, c') \<longleftrightarrow> u = v \<and> c' = c"
  by (auto simp: op_return_def)

lemma run_raise: "op_raise err c \<noteq> (Inr u, c')" "api st code c \<noteq> (Inr u, c')" "invalid_request c \<noteq> (Inr u, c')"
  by (simp_all add: op_raise_def api_def invalid_request_def)

lemma run_get: "op_get f c = (Inr u, c') \<longleftrightarrow> u = f c \<and> c' = c"
  by (auto simp: op_get_def)

lemma run_lift: "op_lift r c = (Inr u, c') \<longleftrightarrow> r = Inr u \<and> c' = c"
  by (auto simp: op_lift_def)

lemma run_modify: "op_modify f c = (Inr u, c') \<longleftrightarrow> c' = f c"
  by (auto simp: op_modify_def)

lemmas run_simps = op_bind_Inr run_return run_raise run_get run_lift run_modify

lemma run_require_writable: "require_writable c = (Inr u, c') \<longleftrightarrow> c' = c \<and> \<not> k_stopping c \<and> k_mode c = Normal"
  by (auto simp: require_writable_def run_simps split: if_splits)

lemma run_only_fields:
  "only_fields v fs c = (Inr p, c') \<longleftrightarrow> v = JObj p \<and> c' = c \<and> list_all (\<lambda>(k, v). k \<in> set fs) p"
  by (auto simp: only_fields_def run_simps split: json.splits if_splits)

lemma run_require_id: "require_id p n c = (Inr s, c') \<longleftrightarrow> get p n = JStr s \<and> valid_id s \<and> c' = c"
  by (auto simp: require_id_def run_simps split: json.splits if_splits)

lemma run_require_member: "require_member p n ns c = (Inr s, c') \<longleftrightarrow> get p n = JStr s \<and> s \<in> set ns \<and> c' = c"
  by (auto simp: require_member_def run_simps split: json.splits if_splits)

lemma run_api_if: "api_if b st code c = (Inr u, c') \<longleftrightarrow> \<not> b \<and> c' = c"
  by (simp add: api_if_def run_simps)

lemma run_the_journal: "the_journal c = (Inr j, c') \<longleftrightarrow> k_attached c \<and> k_file c = Some j \<and> c' = c"
  by (auto simp: the_journal_def run_simps split: option.splits)

lemma run_ctl_task: "ctl_task tid c = (Inr t, c') \<longleftrightarrow>
    (\<exists>j. k_attached c \<and> k_file c = Some j \<and> journal_task j tid = Inr t \<and> c' = c)"
  by (auto simp: ctl_task_def run_simps run_the_journal)

lemma run_the_task: "the_task tid c = (Inr t, c') \<longleftrightarrow>
    (\<exists>j. k_attached c \<and> k_file c = Some j \<and> journal_task j tid = Inr (Some t) \<and> c' = c)"
  by (auto simp: the_task_def run_simps run_ctl_task split: option.splits)

lemma run_claim_of: "claim_of did c = (Inr cl, c') \<longleftrightarrow>
    (\<exists>j. k_attached c \<and> k_file c = Some j \<and> claim_for_dispatch j did = Inr (Some cl) \<and> c' = c)"
  by (auto simp: claim_of_def run_simps run_the_journal split: option.splits)

definition draft :: "env \<Rightarrow> controller \<Rightarrow> event_type \<Rightarrow> string option \<Rightarrow> int option \<Rightarrow> string option \<Rightarrow> string option
    \<Rightarrow> string option \<Rightarrow> payload \<Rightarrow> string option \<Rightarrow> event" where
  "draft x c t tid att did wid rid p key = \<lparr>ev_type = t, ev_task_id = tid, ev_attempt = att, ev_dispatch_id = did,
     ev_worker_id = wid, ev_result_id = rid, ev_payload = p, ev_event_id = x_uuid x (k_draws c), ev_ts_utc = x_utc x (k_draws c),
     ev_dedupe_key = key, ev_schema_v = SCHEMA_VERSION, ev_seq = None, ev_prev_hash = None, ev_hash = None\<rparr>"

lemma run_new_event: "new_event x t tid att did wid rid p key c = (r, c') \<longleftrightarrow>
    post_init (draft x c t tid att did wid rid p key) = r \<and> c' = c\<lparr>k_draws := Suc (k_draws c)\<rparr>"
  by (auto simp: new_event_def draft_def op_bind_def draw_def op_lift_def)

lemma run_catch_invalid: "op_catch m as_invalid_request c = (Inr u, c') \<longleftrightarrow> m c = (Inr u, c')"
  by (auto simp: op_catch_def as_invalid_request_def run_simps split: prod.splits sum.splits option.splits error.splits)

lemmas run_reads = run_require_writable run_only_fields run_require_id run_require_member run_api_if run_the_journal
  run_ctl_task run_the_task run_claim_of run_new_event run_catch_invalid

section \<open>A result on record\<close>

text \<open>What \<open>existing_event\<close> compares with, when a report of \<open>did\<close> and \<open>rid\<close> arrives.\<close>

definition result_content :: "event \<Rightarrow> string \<Rightarrow> string \<Rightarrow> payload \<Rightarrow> event_type \<times> string option \<times> int option \<times> string option
    \<times> string option \<times> string option \<times> string" where
  "result_content cl did rid body = (RESULT_READY, ev_task_id cl, ev_attempt cl, Some did, ev_worker_id cl, Some rid,
     dumps (canonical (JObj (result_payload body))))"

definition result_recorded :: "(string \<Rightarrow> string) \<Rightarrow> payload \<Rightarrow> string option \<Rightarrow> int option \<Rightarrow> controller \<Rightarrow> bool" where
  "result_recorded H body tid seq c \<longleftrightarrow> (\<exists>j es cl old did rid. k_file c = Some j \<and> journal_of H es j
     \<and> get body ''dispatch_id'' = JStr did \<and> get body ''result_id'' = JStr rid
     \<and> find (\<lambda>e. ev_dispatch_id e = Some did \<and> ev_type e = TASK_CLAIMED) es = Some cl
     \<and> find (\<lambda>e. ev_dedupe_key e = Some (result_dedupe_key did rid)) es = Some old
     \<and> content old = result_content cl did rid body \<and> ev_seq old = seq \<and> ev_task_id cl = tid)"

lemma result_recordedI:
  "k_file c = Some j \<Longrightarrow> journal_of H es j \<Longrightarrow> get body ''dispatch_id'' = JStr did \<Longrightarrow> get body ''result_id'' = JStr rid \<Longrightarrow>
   find (\<lambda>e. ev_dispatch_id e = Some did \<and> ev_type e = TASK_CLAIMED) es = Some cl \<Longrightarrow>
   find (\<lambda>e. ev_dedupe_key e = Some (result_dedupe_key did rid)) es = Some old \<Longrightarrow>
   content old = result_content cl did rid body \<Longrightarrow> result_recorded H body (ev_task_id cl) (ev_seq old) c"
  unfolding result_recorded_def by blast

lemma claim_for_dispatch_of:
  assumes "journal_of H es j"
  shows "claim_for_dispatch j did = Inr (find (\<lambda>e. ev_dispatch_id e = Some did \<and> ev_type e = TASK_CLAIMED) es)"
proof -
  have t: "r_type (row_of e) = ''TASK_CLAIMED'' \<longleftrightarrow> ev_type e = TASK_CLAIMED" for e
    using type_value_inject [of "ev_type e" TASK_CLAIMED] by (simp add: row_of_def)
  have d: "r_dispatch_id (row_of e) = ev_dispatch_id e" for e by (simp add: row_of_def)
  have "rows_by_seq j = j_events j" using rows_by_seq_of [OF assms] journal_ofD(2) [OF assms] by simp
  then have "find (\<lambda>r. r_dispatch_id r = Some did \<and> r_type r = ''TASK_CLAIMED'') (rows_by_seq j)
      = map_option row_of (find (\<lambda>e. ev_dispatch_id e = Some did \<and> ev_type e = TASK_CLAIMED) es)"
    using find_row_of [OF assms, of "\<lambda>r. r_dispatch_id r = Some did \<and> r_type r = ''TASK_CLAIMED''"] by (simp add: t d)
  then show ?thesis
    using wf_log_from_row [OF journal_ofD(1) [OF assms]]
    by (auto simp: claim_for_dispatch_def split: option.split dest: find_SomeD)
qed

lemma claim_has_task: "validate e = None \<Longrightarrow> ev_type e = TASK_CLAIMED \<Longrightarrow> ev_task_id e \<noteq> None"
  by (auto simp: validate_def check_simps has_field_def)

lemma claimed_task:
  assumes "journal_of H es j" "claim_for_dispatch j did = Inr (Some cl)" "journal_task j (ev_task_id cl) = Inr (Some task)"
  shows "ev_task_id cl = Some (t_task_id task)" "history (task_log (t_task_id task) es) task" "cl \<in> set es"
proof -
  have "cl \<in> set es" "ev_type cl = TASK_CLAIMED"
    using assms(2) claim_for_dispatch_of [OF assms(1)] by (auto dest: find_SomeD)
  moreover from this have "validate cl = None" using journal_ofD(4) [OF assms(1)] by (simp add: wf_event_def)
  ultimately obtain k where k: "ev_task_id cl = Some k" "cl \<in> set es" using claim_has_task by blast
  with journal_task_history [OF assms(1), of k] assms(3)
  show "ev_task_id cl = Some (t_task_id task)" "history (task_log (t_task_id task) es) task" "cl \<in> set es" by auto
qed

lemma find_append: "find P (xs @ ys) = (case find P xs of None \<Rightarrow> find P ys | Some v \<Rightarrow> Some v)"
  by (induction xs) auto

lemma result_content_of: "post_init (draft x c RESULT_READY (ev_task_id cl) (ev_attempt cl) (Some did) (ev_worker_id cl) (Some rid)
    (result_payload body) None) = Inr cand \<Longrightarrow> wf_json (JObj (result_payload body)) \<Longrightarrow>
    content cand = result_content cl did rid body \<and> ev_dedupe_key cand = Some (result_dedupe_key did rid)"
proof -
  assume p: "post_init (draft x c RESULT_READY (ev_task_id cl) (ev_attempt cl) (Some did) (ev_worker_id cl) (Some rid)
    (result_payload body) None) = Inr cand" and wf: "wf_json (JObj (result_payload body))"
  have "ev_payload cand = sort_key fst (canonical_members (result_payload body))"
    using post_init_wf(2) [OF _ p] wf by (simp add: draft_def)
  moreover have "canonical (JObj (result_payload body)) = JObj (sort_key fst (canonical_members (result_payload body)))" by simp
  ultimately have "payload_json cand = dumps (canonical (JObj (result_payload body)))"
    unfolding payload_json_def using canonical_idem [of "JObj (result_payload body)"] by simp
  then show ?thesis
    using post_init_fields [OF p] by (simp add: content_def result_content_def draft_def show_opt_def)
qed

lemma wf_result_payload: "wf_json (JObj body) \<Longrightarrow> wf_json (JObj (result_payload body))"
proof -
  assume "wf_json (JObj body)"
  then have "wf_json (get body k)" for k
    by (auto simp: get_def wf_members_iff split: option.splits dest!: map_of_SomeD)
  then show ?thesis by (simp add: result_payload_def)
qed

text \<open>The end of \<open>result\<close>, after the checks, which change neither the file nor the leases.\<close>

definition result_tail :: "env \<Rightarrow> payload \<Rightarrow> string \<Rightarrow> string \<Rightarrow> event \<Rightarrow> event \<Rightarrow> event option
    \<Rightarrow> (string \<times> string option \<times> int option) op" where
  "result_tail x body did rid cl cand ex = (case ex of
       Some old \<Rightarrow> (if content old = content cand then op_return (''ACK_DUPLICATE'', ev_task_id cl, ev_seq old)
                    else api 409 ''result_conflict'')
     | None \<Rightarrow>
       op_bind (the_task (ev_task_id cl)) (\<lambda>task.
         if t_dispatch_id task = Some did \<and> t_status task = RUNNING then
           op_bind (api_if (t_cancel_requested task) 409 ''cancel_requested'') (\<lambda>_.
           op_bind (ctl_append x cand) (\<lambda>ar.
           op_bind (op_modify (\<lambda>c. c\<lparr>k_leases := AList.delete did (k_leases c),
             k_verify_queue := k_verify_queue c @ [t_task_id task]\<rparr>)) (\<lambda>_.
           op_return (''ACCEPTED_FOR_VERIFY'', Some (t_task_id task), ev_seq (a_event ar)))))
         else if t_dispatch_id task = Some did \<and> t_status task = CLAIMED then api 409 ''not_started''
         else discard_late x did rid (result_payload body) cl task))"

definition result_checks :: "payload \<Rightarrow> string \<Rightarrow> string \<Rightarrow> bool" where
  "result_checks body did rid \<longleftrightarrow> list_all (\<lambda>(k, v). k \<in> set RESULT_FIELDS) body
     \<and> get body ''dispatch_id'' = JStr did \<and> valid_id did \<and> get body ''result_id'' = JStr rid \<and> valid_id rid
     \<and> small_list (get body ''artifacts'') MAX_ARTIFACTS \<and> (\<exists>out\<in>set RESULT_OUTCOMES. get body ''outcome'' = JStr out)
     \<and> (has_key body ''reason'' \<longrightarrow> short_text (get body ''reason'') MAX_REASON_CHARS)"

definition result_draft :: "env \<Rightarrow> controller \<Rightarrow> payload \<Rightarrow> string \<Rightarrow> string \<Rightarrow> event \<Rightarrow> event" where
  "result_draft x c body did rid cl = draft x c RESULT_READY (ev_task_id cl) (ev_attempt cl) (Some did) (ev_worker_id cl) (Some rid)
     (result_payload body) None"

text \<open>Once the checks pass, \<open>result\<close> is its tail, in both directions.\<close>

lemma ctl_result_tail:
  assumes "\<not> k_stopping c" "k_mode c = Normal" "k_attached c" "k_file c = Some j" "result_checks body did rid"
    "claim_for_dispatch j did = Inr (Some cl)" "post_init (result_draft x c body did rid cl) = Inr cand"
    "existing_event j cand = Inr ex"
  shows "ctl_result x (JObj body) c = result_tail x body did rid cl cand ex (c\<lparr>k_draws := Suc (k_draws c)\<rparr>)"
proof -
  let ?d = "c\<lparr>k_draws := Suc (k_draws c)\<rparr>"
  from assms(5) obtain out where out: "get body ''outcome'' = JStr out" "out \<in> set RESULT_OUTCOMES"
    by (auto simp: result_checks_def)
  have checks: "require_writable c = (Inr (), c)" "only_fields (JObj body) RESULT_FIELDS c = (Inr body, c)"
    "require_id body ''dispatch_id'' c = (Inr did, c)" "require_id body ''result_id'' c = (Inr rid, c)"
    "require_member body ''outcome'' RESULT_OUTCOMES c = (Inr out, c)" "claim_of did c = (Inr cl, c)"
    using assms out by (simp_all add: run_reads result_checks_def)
  have guards: "(if small_list (get body ''artifacts'') MAX_ARTIFACTS then op_return () else invalid_request) c = (Inr (), c)"
    "(if has_key body ''reason'' \<and> \<not> short_text (get body ''reason'') MAX_REASON_CHARS then invalid_request else op_return ()) c = (Inr (), c)"
    using assms(5) by (auto simp: op_return_def result_checks_def)
  have new: "op_catch (new_event x RESULT_READY (ev_task_id cl) (ev_attempt cl) (Some did) (ev_worker_id cl) (Some rid)
       (result_payload body) None) as_invalid_request c = (Inr cand, ?d)"
    using assms(7) by (simp add: run_reads result_draft_def)
  have reads: "the_journal ?d = (Inr j, ?d)" "op_lift (existing_event j cand) ?d = (Inr ex, ?d)"
    using assms by (simp_all add: run_reads run_lift)
  show ?thesis
    unfolding ctl_result_def result_tail_def
    by (simp only: op_bind_def checks guards new reads prod.case sum.case)
qed

lemma ctl_result_InrD:
  assumes "ctl_result x v c = (Inr r, c')"
  obtains body did rid j cl cand ex where "v = JObj body" "\<not> k_stopping c" "k_mode c = Normal" "k_attached c" "k_file c = Some j"
    "result_checks body did rid" "claim_for_dispatch j did = Inr (Some cl)"
    "post_init (result_draft x c body did rid cl) = Inr cand" "existing_event j cand = Inr ex"
    "result_tail x body did rid cl cand ex (c\<lparr>k_draws := Suc (k_draws c)\<rparr>) = (Inr r, c')"
proof -
  note run = assms [unfolded ctl_result_def]
  from run obtain body where w: "\<not> k_stopping c" "k_mode c = Normal" "v = JObj body"
    by (auto simp: op_bind_Inr run_require_writable run_only_fields)
  from run w obtain did rid where ids: "get body ''dispatch_id'' = JStr did" "get body ''result_id'' = JStr rid"
    by (auto simp: op_bind_Inr run_require_writable run_only_fields run_require_id)
  from run w ids have ch: "result_checks body did rid"
    by (auto simp: result_checks_def op_bind_Inr run_require_writable run_only_fields run_require_id run_require_member
        run_raise split: if_splits)
  from run w ids obtain j cl where j: "k_attached c" "k_file c = Some j" "claim_for_dispatch j did = Inr (Some cl)"
    by (auto simp: op_bind_Inr run_require_writable run_only_fields run_require_id run_require_member run_claim_of
        run_return run_raise split: if_splits)
  from run w ids j obtain cand where cand: "post_init (result_draft x c body did rid cl) = Inr cand"
    by (auto simp: op_bind_Inr run_require_writable run_only_fields run_require_id run_require_member run_claim_of
        run_return run_raise run_catch_invalid run_new_event result_draft_def split: if_splits)
  from run w ids j cand obtain ex where ex: "existing_event j cand = Inr ex"
    by (auto simp: op_bind_Inr run_require_writable run_only_fields run_require_id run_require_member run_claim_of
        run_return run_raise run_catch_invalid run_new_event result_draft_def run_the_journal run_lift split: if_splits)
  show thesis
    using that [OF w(3,1,2) j(1,2) ch j(3) cand ex] ctl_result_tail [OF w(1,2) j(1,2) ch j(3) cand ex] assms w(3) by simp
qed

lemma ctl_result_recorded:
  assumes inv: "sound_rows.inv x c" and wf: "wf_json (JObj body)"
    and run: "ctl_result x (JObj body) c = (Inr (status, tid, seq), c')"
  shows "result_recorded (x_H x) body tid seq c'"
proof -
  let ?c = "c\<lparr>k_draws := Suc (k_draws c)\<rparr>"
  obtain did rid cl cand j ex where j: "k_attached c" "k_file c = Some j" and ch: "result_checks body did rid"
    and cl: "claim_for_dispatch j did = Inr (Some cl)" and cand: "post_init (result_draft x c body did rid cl) = Inr cand"
    and ex: "existing_event j cand = Inr ex" and tl: "result_tail x body did rid cl cand ex ?c = (Inr (status, tid, seq), c')"
    using run by (rule ctl_result_InrD) simp
  have did: "get body ''dispatch_id'' = JStr did" and rid: "get body ''result_id'' = JStr rid"
    using ch by (simp_all add: result_checks_def)
  note rest = tl [unfolded result_tail_def] and cand = cand [unfolded result_draft_def]
  obtain es where es: "journal_of (x_H x) es j" using inv j(2) by (auto simp: sound_rows.inv_def wf_journal_def)
  have claim: "find (\<lambda>e. ev_dispatch_id e = Some did \<and> ev_type e = TASK_CLAIMED) es = Some cl"
    using cl claim_for_dispatch_of [OF es] by simp
  note content = result_content_of [OF cand wf_result_payload [OF wf]]
  have key: "ex = find (\<lambda>e. ev_dedupe_key e = Some (result_dedupe_key did rid)) es"
    using ex existing_event_of [OF es] content by simp
  show ?thesis
  proof (cases ex)
    case (Some old)
    then have c: "content old = content cand" "ev_seq old = seq" "ev_task_id cl = tid" "k_file c' = Some j"
      using rest j(2) by (auto simp: run_simps split: if_splits)
    have old: "find (\<lambda>e. ev_dedupe_key e = Some (result_dedupe_key did rid)) es = Some old" using key Some by simp
    from result_recordedI [OF c(4) es did rid claim old] c content show ?thesis by simp
  next
    case None
    with rest j(2) obtain ar c1 task where a: "ctl_append x cand ?c = (Inr ar, c1)" and c': "k_file c' = k_file c1" "seq = ev_seq (a_event ar)"
      and task: "journal_task j (ev_task_id cl) = Inr (Some task)" "tid = Some (t_task_id task)"
      by (auto simp: run_simps run_reads discard_late_def op_when_def split: if_splits)
    have tid: "ev_task_id cl = tid" using claimed_task [OF es cl task(1)] task(2) by simp
    from a obtain j' where j': "journal_append (x_H x) False j cand = Inr (ar, j')" "k_file c1 = Some j'"
      using j by (auto simp: ctl_append_def run_simps run_the_journal op_when_def split: sum.splits if_splits)
    have "submittable cand"
      using submittable_post_init [OF cand] wf_result_payload [OF wf] by (simp add: draft_def)
    from append_cases [OF es this j'(1)] None key content
    have new: "a_event ar = seal (x_H x) cand (1 + int (length es)) (last_hash GENESIS_HASH es)"
      "journal_of (x_H x) (es @ [a_event ar]) j'"
      by (auto simp: find_None_iff)
    then have "ev_dedupe_key (a_event ar) = ev_dedupe_key cand" "content (a_event ar) = content cand"
      by (simp_all add: seal_def Let_def content_def payload_json_def)
    moreover from this new(2) key None claim content
    have "find (\<lambda>e. ev_dispatch_id e = Some did \<and> ev_type e = TASK_CLAIMED) (es @ [a_event ar]) = Some cl"
      "find (\<lambda>e. ev_dedupe_key e = Some (result_dedupe_key did rid)) (es @ [a_event ar]) = Some (a_event ar)"
      by (simp_all add: find_append)
    ultimately show ?thesis
      using result_recordedI [of c' j', OF _ new(2) did rid, of cl "a_event ar"] c' j'(2) content tid [symmetric] by simp
  qed
qed

section \<open>Evidence stays\<close>

text \<open>The file of \<open>c'\<close> continues the file of \<open>c\<close>.\<close>

definition continues :: "(string \<Rightarrow> string) \<Rightarrow> controller \<Rightarrow> controller \<Rightarrow> bool" where
  "continues H c c' \<longleftrightarrow> (\<forall>j. k_file c = Some j \<longrightarrow> wf_journal H j \<longrightarrow>
     (\<exists>j' rows. k_file c' = Some j' \<and> wf_journal H j' \<and> j_events j' = j_events j @ rows))"

lemma continues_refl: "continues H c c"
  by (auto simp: continues_def)

lemma continues_trans: "continues H c c1 \<Longrightarrow> continues H c1 c' \<Longrightarrow> continues H c c'"
  by (fastforce simp: continues_def)

lemma requests_continue:
  assumes "env_values x" "list_all legal_request rs"
  shows "continues (x_H x) c (run_requests x rs c)"
  unfolding continues_def
proof (intro allI impI)
  fix j assume j: "k_file c = Some j" "wf_journal (x_H x) j"
  then have "extended_rows.inv x (j_events j) c" by (simp add: extended_rows.inv_def)
  from extended_rows.run_requests_inv [OF assms this]
  show "\<exists>j' rows. k_file (run_requests x rs c) = Some j' \<and> wf_journal (x_H x) j' \<and> j_events j' = j_events j @ rows"
    by (auto simp: extended_rows.inv_def split: option.splits)
qed

lemma request_continues: "env_values x \<Longrightarrow> legal_request r \<Longrightarrow> continues (x_H x) c (snd (run_request x r c))"
  using requests_continue [of x "[r]" c] by (simp add: run_requests_def)

lemma continued_log:
  assumes "continues H c c'" "k_file c = Some j" "journal_of H es j"
  obtains j' fs where "k_file c' = Some j'" "journal_of H (es @ fs) j'"
proof -
  obtain j' rows es' where j': "k_file c' = Some j'" "journal_of H es' j'" "j_events j' = j_events j @ rows"
    using assms by (auto simp: continues_def wf_journal_def)
  then have rows: "map row_of es' = map row_of es @ rows" using journal_ofD(2) assms(3) by metis
  then have "map row_of (take (length es) es') = map row_of es" by (metis append_eq_conv_conj length_map take_map)
  then have "map (\<lambda>e. from_row (row_of e)) (take (length es) es') = map (\<lambda>e. from_row (row_of e)) es"
    by (metis (no_types, lifting) comp_def map_map map_eq_conv)
  moreover have "from_row (row_of e) = Inr e" if "e \<in> set es'" for e
    using wf_log_from_row [OF journal_ofD(1) [OF j'(2)] that] .
  moreover have "from_row (row_of e) = Inr e" if "e \<in> set es" for e
    using wf_log_from_row [OF journal_ofD(1) [OF assms(3)] that] .
  ultimately have "map Inr (take (length es) es') = (map Inr es :: event result list)"
    by (metis (no_types, lifting) in_set_takeD map_eq_conv)
  then have "take (length es) es' = es" by (simp add: inj_map_eq_map inj_def)
  then have "es' = es @ drop (length es) es'" by (metis append_take_drop_id)
  then show thesis using that j' by metis
qed

lemma result_recorded_stable:
  assumes "continues H c c'" "result_recorded H body tid seq c"
  shows "result_recorded H body tid seq c'"
proof -
  obtain j es cl old did rid where r: "k_file c = Some j" "journal_of H es j"
    "get body ''dispatch_id'' = JStr did" "get body ''result_id'' = JStr rid"
    "find (\<lambda>e. ev_dispatch_id e = Some did \<and> ev_type e = TASK_CLAIMED) es = Some cl"
    "find (\<lambda>e. ev_dedupe_key e = Some (result_dedupe_key did rid)) es = Some old"
    "content old = result_content cl did rid body" "ev_seq old = seq" "ev_task_id cl = tid"
    using assms(2) by (auto simp: result_recorded_def)
  obtain j' fs where f: "k_file c' = Some j'" "journal_of H (es @ fs) j'"
    using continued_log [OF assms(1) r(1,2)] .
  show ?thesis
    using result_recordedI [OF f r(3,4), of cl old] r by (simp add: find_append)
qed

section \<open>A start on record\<close>

definition start_on_record :: "(string \<Rightarrow> string) \<Rightarrow> string \<Rightarrow> controller \<Rightarrow> bool" where
  "start_on_record H did c \<longleftrightarrow> (\<exists>j es. k_file c = Some j \<and> journal_of H es j
     \<and> (\<exists>e\<in>set es. ev_type e = TASK_STARTED \<and> ev_dispatch_id e = Some did))"

lemma start_on_record_stable: "continues H c c' \<Longrightarrow> start_on_record H did c \<Longrightarrow> start_on_record H did c'"
proof -
  assume c: "continues H c c'" and "start_on_record H did c"
  then obtain j es e where e: "k_file c = Some j" "journal_of H es j" "e \<in> set es" "ev_type e = TASK_STARTED" "ev_dispatch_id e = Some did"
    by (auto simp: start_on_record_def)
  obtain j' fs where "k_file c' = Some j'" "journal_of H (es @ fs) j'" using continued_log [OF c e(1,2)] .
  moreover have "e \<in> set (es @ fs)" using e by simp
  ultimately show ?thesis using e unfolding start_on_record_def by blast
qed

lemma running_transition:
  assumes "transition s e = Inr s'" "t_status s' = RUNNING"
  shows "t_status s = RUNNING \<and> t_dispatch_id s' = t_dispatch_id s \<or> ev_type e = TASK_STARTED \<and> ev_dispatch_id e = t_dispatch_id s'"
  by (insert transition_split [OF assms(1)] assms(2), elim disjE conjE; drule transitionDs;
      (elim conjE disjE exE)?; simp add: fence_None_iff)

lemma running_was_started:
  "history es s \<Longrightarrow> t_status s = RUNNING \<Longrightarrow> \<exists>e\<in>set es. ev_type e = TASK_STARTED \<and> ev_dispatch_id e = t_dispatch_id s"
proof (induction rule: history.induct)
  case (step es s e s')
  then obtain n where n: "transition s e = Inr n" "s' = n\<lparr>t_updated_seq := ev_seq e\<rparr>" by (auto elim: sm_apply_SomeD)
  from running_transition [OF n(1)] step.IH step.prems n(2) show ?case by auto
qed (auto simp: sm_apply_def created_state_def fail_def Let_def elim!: bind_resultE split: if_splits)

lemma ctl_start_recorded:
  assumes inv: "sound_rows.inv x c" and run: "ctl_start x (JObj body) c = (Inr r, c')" and did: "get body ''dispatch_id'' = JStr did"
  shows "start_on_record (x_H x) did c'"
proof -
  let ?c = "c\<lparr>k_draws := Suc (k_draws c)\<rparr>"
  from run did obtain j cl task where j: "k_attached c" "k_file c = Some j" "claim_for_dispatch j did = Inr (Some cl)"
    "journal_task j (ev_task_id cl) = Inr (Some task)" "t_dispatch_id task = Some did"
    and rest: "(if t_status task = RUNNING then op_return (''ALREADY_STARTED'', t_task_id task)
       else op_bind (new_event x TASK_STARTED (Some (t_task_id task)) (ev_attempt cl) (Some did) (ev_worker_id cl) None [] None) (\<lambda>e.
            op_bind (ctl_append x e) (\<lambda>_. op_return (''STARTED'', t_task_id task)))) c = (Inr r, c')"
    by (auto simp: ctl_start_def op_bind_Inr run_reads)
  obtain es where es: "journal_of (x_H x) es j" using inv j(2) by (auto simp: sound_rows.inv_def wf_journal_def)
  note task = claimed_task [OF es j(3,4)]
  show ?thesis
  proof (cases "t_status task = RUNNING")
    case True
    from running_was_started [OF task(2) True] obtain e where "e \<in> set es" "ev_type e = TASK_STARTED" "ev_dispatch_id e = Some did"
      using j(5) by (auto simp: task_log_def)
    moreover have "k_file c' = Some j" using rest True j(2) by (simp add: run_return)
    ultimately show ?thesis using es by (auto simp: start_on_record_def)
  next
    case False
    with rest obtain e ar where e: "post_init (draft x c TASK_STARTED (Some (t_task_id task)) (ev_attempt cl) (Some did)
        (ev_worker_id cl) None [] None) = Inr e" and a: "ctl_append x e ?c = (Inr ar, c')"
      by (auto simp: run_simps run_new_event)
    from a obtain j' where j': "journal_append (x_H x) False j e = Inr (ar, j')" "k_file c' = Some j'"
      using j by (auto simp: ctl_append_def run_simps run_the_journal op_when_def split: sum.splits if_splits)
    have "submittable e" using submittable_post_init [OF e] by (simp add: draft_def)
    note cases = append_cases [OF es this j'(1)]
    have f: "ev_type e = TASK_STARTED" "ev_dispatch_id e = Some did" using post_init_fields [OF e] by (simp_all add: draft_def)
    from cases obtain es' where "journal_of (x_H x) es' j'" "a_event ar \<in> set es'" "content (a_event ar) = content e"
      using es by (fastforce simp: seal_def Let_def content_def payload_json_def)
    with f j'(2) show ?thesis by (auto simp: start_on_record_def content_def)
  qed
qed

section \<open>Delivering again\<close>

text \<open>UUIDs and timestamps are well formed: \<open>uuid4().hex\<close> and an ISO time in UTC.\<close>

definition env_ids :: "env \<Rightarrow> bool" where
  "env_ids x \<longleftrightarrow> (\<forall>n. valid_id (x_uuid x n) \<and> endswith (x_utc x n) ''Z'')"

lemma validate_renamed:
  assumes "validate e = None" "valid_id u" "endswith t ''Z''"
  shows "validate (e\<lparr>ev_event_id := u, ev_ts_utc := t\<rparr>) = None"
proof -
  have "validate_payload (e\<lparr>ev_event_id := u, ev_ts_utc := t\<rparr>) = validate_payload e"
    by (cases "ev_type e"; simp add: validate_payload_def validate_created_def)
  moreover have "has_field (e\<lparr>ev_event_id := u, ev_ts_utc := t\<rparr>) = has_field e"
    by (auto simp: has_field_def fun_eq_iff)
  ultimately show ?thesis using assms by (simp add: validate_def check_simps check_id_def)
qed

text \<open>Reports that are equal up to the order of members pass the same checks.\<close>

lemma canonical_shapes: "canonical v = JStr s \<longleftrightarrow> v = JStr s" "canonical v = JNull \<longleftrightarrow> v = JNull"
  "is_obj (canonical v) = is_obj v" "(\<exists>xs. canonical v = JList xs \<and> length xs \<le> n) \<longleftrightarrow> (\<exists>xs. v = JList xs \<and> length xs \<le> n)"
  by (cases v; simp add: canonical_list_map)+

lemma small_list_iff: "small_list v n \<longleftrightarrow> (\<exists>xs. v = JList xs \<and> length xs \<le> n)"
  by (auto simp: small_list_def split: json.split)

lemma short_text_iff: "short_text v n \<longleftrightarrow> (\<exists>s. v = JStr s \<and> length s \<le> n)"
  by (auto simp: short_text_def split: json.split)

lemma same_members:
  assumes "canonical (JObj p) = canonical (JObj q)" "distinct (map fst p)" "distinct (map fst q)"
  shows "canonical (get p k) = canonical (get q k)" "has_key p k = has_key q k" "fst ` set p = fst ` set q"
proof -
  obtain r where r: "canonical (JObj p) = JObj r" by simp
  with assms(1) have "canonical (JObj q) = JObj r" by simp
  with get_canonical [OF assms(2) r] get_canonical [OF assms(3)] show "canonical (get p k) = canonical (get q k)" by simp
  have "sort_key fst (canonical_members p) = sort_key fst (canonical_members q)" using assms(1) by simp
  then have "fst ` set (sort_key fst (canonical_members p)) = fst ` set (sort_key fst (canonical_members q))" by simp
  then show keys: "fst ` set p = fst ` set q" by (metis set_map set_sort map_fst_canonical_members)
  have "k \<in> fst ` set s \<longleftrightarrow> map_of s k \<noteq> None" for s :: payload by (force simp: map_of_eq_None_iff)
  with keys show "has_key p k = has_key q k" unfolding has_key_def by (metis (no_types))
qed

lemma same_result_payload:
  assumes "canonical (JObj p) = canonical (JObj q)" "distinct (map fst p)" "distinct (map fst q)"
  shows "canonical (JObj (result_payload p)) = canonical (JObj (result_payload q))"
  using same_members [OF assms] by (simp add: result_payload_def canonical_members_map)

lemma same_result_checks:
  assumes "canonical (JObj p) = canonical (JObj q)" "distinct (map fst p)" "distinct (map fst q)" "result_checks q did rid"
  shows "result_checks p did rid"
proof -
  note m = same_members [OF assms(1-3)]
  have str: "get p k = JStr s \<longleftrightarrow> get q k = JStr s" for k s using m(1) [of k] canonical_shapes(1) by metis
  have keys: "list_all (\<lambda>(k, v). k \<in> S) s \<longleftrightarrow> fst ` set s \<subseteq> S" for s :: payload and S by (auto simp: list_all_iff)
  have lists: "small_list (get p k) n \<longleftrightarrow> small_list (get q k) n" for k n
    unfolding small_list_iff using m(1) [of k] canonical_shapes(4) by metis
  show ?thesis
    using assms(4) m(2,3) str by (simp add: result_checks_def keys lists short_text_iff)
qed

lemma recorded_candidate:
  assumes old: "wf_event old" "ev_dedupe_key old = Some (result_dedupe_key did rid)" "content old = result_content cl did rid p"
    and ids: "env_ids x" and wf: "wf_json (JObj (result_payload p))"
  shows "\<exists>cand. post_init (result_draft x c p did rid cl) = Inr cand"
proof -
  let ?d = "result_draft x c p did rid cl"
  let ?rp = "JObj (result_payload p)"
  let ?cand = "?d\<lparr>ev_payload := ev_payload old, ev_dedupe_key := Some (result_dedupe_key did rid)\<rparr>"
  have "dumps (JObj (ev_payload old)) = dumps (canonical ?rp)"
    using old(3) wf_eventD(2) [OF old(1)] by (simp add: content_def payload_json_def result_content_def)
  then have pay: "canonical ?rp = JObj (ev_payload old)"
    using loads_dumps [OF wf_eventD(1) [OF old(1)]] loads_dumps [OF wf_json_canonical [OF wf]] by simp
  have "ev_schema_v old = SCHEMA_VERSION" using wf_eventD(3) [OF old(1)] by (simp add: validate_def check_simps)
  then have "?cand = old\<lparr>ev_event_id := x_uuid x (k_draws c), ev_ts_utc := x_utc x (k_draws c)\<rparr>
      \<lparr>ev_seq := None, ev_prev_hash := None, ev_hash := None\<rparr>"
    using old(2,3) by (simp add: result_draft_def draft_def content_def result_content_def)
  moreover have "validate (old\<lparr>ev_event_id := x_uuid x (k_draws c), ev_ts_utc := x_utc x (k_draws c)\<rparr>) = None"
    using validate_renamed [OF wf_eventD(3) [OF old(1)]] ids by (simp add: env_ids_def)
  ultimately have "validate ?cand = None" by simp
  moreover have "bind_result (canonical_json (JObj (ev_payload ?d))) loads = Inr (JObj (ev_payload old))"
    using canonical_loads [OF wf] pay by (simp add: result_draft_def draft_def)
  ultimately show ?thesis by (simp add: post_init_def result_draft_def draft_def Let_def show_opt_def)
qed

lemma recorded_acks:
  assumes rec: "result_recorded (x_H x) body tid seq c" and ch: "result_checks body did rid" and ids: "env_ids x"
    and wf: "wf_json (JObj body)" "wf_json (JObj p)" and same: "canonical (JObj p) = canonical (JObj body)"
    and writable: "\<not> k_stopping c" "k_mode c = Normal" "k_attached c"
  shows "ctl_result x (JObj p) c = (Inr (''ACK_DUPLICATE'', tid, seq), c\<lparr>k_draws := Suc (k_draws c)\<rparr>)"
proof -
  obtain j es cl old where j: "k_file c = Some j" "journal_of (x_H x) es j"
    and cl: "find (\<lambda>e. ev_dispatch_id e = Some did \<and> ev_type e = TASK_CLAIMED) es = Some cl"
    and old: "find (\<lambda>e. ev_dedupe_key e = Some (result_dedupe_key did rid)) es = Some old"
    "content old = result_content cl did rid body" and seq: "ev_seq old = seq" "ev_task_id cl = tid"
    using rec ch by (auto simp: result_recorded_def result_checks_def)
  have d: "distinct (map fst p)" "distinct (map fst body)" using wf by simp_all
  have c: "content old = result_content cl did rid p"
    using old(2) same_result_payload [OF same d] by (simp add: result_content_def)
  have o: "old \<in> set es" "ev_dedupe_key old = Some (result_dedupe_key did rid)" using old(1) by (auto dest: find_SomeD)
  obtain cand where cand: "post_init (result_draft x c p did rid cl) = Inr cand"
    using recorded_candidate [OF journal_ofD(4) [OF j(2) o(1)] o(2) c ids wf_result_payload [OF wf(2)]] by blast
  note k = result_content_of [OF cand [unfolded result_draft_def] wf_result_payload [OF wf(2)]]
  have "existing_event j cand = Inr (Some old)" using existing_event_of [OF j(2)] k old(1) by simp
  from ctl_result_tail [OF writable j(1) same_result_checks [OF same d ch] _ cand this] claim_for_dispatch_of [OF j(2)] cl
  show ?thesis using c k seq by (simp add: result_tail_def op_return_def)
qed

text \<open>
  C3. A lost answer does no harm: once a result was acknowledged, the same report, its members in any
  order, sent again after any further requests, is acknowledged with the same sequence number, and
  nothing but the count of drawn identifiers changes.
\<close>

theorem redelivery_acknowledged:
  assumes "env_values x" and "env_ids x" and "k_file c = Some j" and "wf_journal (x_H x) j" and "wf_json (JObj body)"
    and "ctl_result x (JObj body) c = (Inr (status, tid, seq), c1)" and "list_all legal_request rs"
    and "run_requests x rs c1 = c2" and "\<not> k_stopping c2" and "k_mode c2 = Normal" and "k_attached c2"
    and "wf_json (JObj p)" and "canonical (JObj p) = canonical (JObj body)"
  shows "ctl_result x (JObj p) c2 = (Inr (''ACK_DUPLICATE'', tid, seq), c2\<lparr>k_draws := Suc (k_draws c2)\<rparr>)"
proof -
  have inv: "sound_rows.inv x c" using assms(3,4) by (simp add: sound_rows.inv_def)
  obtain did rid where ch: "result_checks body did rid" using assms(6) by (rule ctl_result_InrD) simp
  have "result_recorded (x_H x) body tid seq c2"
    using result_recorded_stable [OF requests_continue [OF assms(1,7)] ctl_result_recorded [OF inv assms(5,6)]] assms(8) by simp
  from recorded_acks [OF this ch assms(2,5,12,13,9-11)] show ?thesis .
qed

text \<open>A report for the current dispatch of a task that was claimed but not started is refused and leaves no trace.\<close>

lemma unstarted_refused:
  assumes "\<not> k_stopping c" "k_mode c = Normal" "k_attached c" "k_file c = Some j" "result_checks body did rid"
    and "claim_for_dispatch j did = Inr (Some cl)" "journal_task j (ev_task_id cl) = Inr (Some task)"
    and "t_dispatch_id task = Some did" "t_status task = CLAIMED"
    and "post_init (result_draft x c body did rid cl) = Inr cand" "existing_event j cand = Inr None"
  shows "ctl_result x (JObj body) c = (Inl (ApiError 409 ''not_started''), c\<lparr>k_draws := Suc (k_draws c)\<rparr>)"
proof -
  let ?c = "c\<lparr>k_draws := Suc (k_draws c)\<rparr>"
  have "the_task (ev_task_id cl) ?c = (Inr task, ?c)" using assms(3,4,7) by (simp add: run_the_task)
  then show ?thesis
    using ctl_result_tail [OF assms(1-6,10,11)] assms(8,9) by (simp add: result_tail_def op_bind_def api_def op_raise_def)
qed

section \<open>Refusals are never 200\<close>

text \<open>The exceptions of the layers below the controller are not \<open>ApiError\<close>.\<close>

named_theorems plain_intros \<open>operations that raise no ApiError of their own\<close>
named_theorems refuse_intros \<open>operations whose refusals are not 200\<close>

definition low_level :: "error \<Rightarrow> bool" where
  "low_level err \<longleftrightarrow> (\<forall>st code. err \<noteq> ApiError st code)"

definition plain_opt :: "error option \<Rightarrow> bool" where
  "plain_opt r \<longleftrightarrow> (\<forall>err. r = Some err \<longrightarrow> low_level err)"

definition plain_result :: "'a result \<Rightarrow> bool" where
  "plain_result r \<longleftrightarrow> (\<forall>err. r = Inl err \<longrightarrow> low_level err)"

lemma plain_errors [simp]: "low_level (EventValidationError m)" "low_level (TransitionError m)" "low_level (ValueError m)" "low_level (TypeError m)"
  "low_level DedupeConflict" "low_level (JournalError m)" "low_level (IntegrityError m)" "low_level (ProjectionError m)" "low_level (OverflowError m)"
  "low_level (KeyError m)"
  by (simp_all add: low_level_def)

lemma plain_first_error: "(\<forall>c\<in>set cs. plain_opt c) \<Longrightarrow> plain_opt (first_error cs)"
  by (induction cs rule: first_error.induct) (auto simp: plain_opt_def)

lemma plain_checks [simp]: "low_level e \<Longrightarrow> plain_opt (require b e)" "plain_opt c \<Longrightarrow> plain_opt (guarded b c)" "plain_opt None"
  "low_level e \<Longrightarrow> plain_opt (check_in v names e)" "plain_opt (check_id n s)" "plain_opt (check_json_id n v)" "plain_opt (check_opt_id n z)"
  "plain_opt (check_positive_int n v u)"
  by (auto simp: plain_opt_def require_def guarded_def check_in_def check_id_def check_json_id_def check_opt_id_def check_positive_int_def
      low_level_def split: sum.splits if_splits option.splits elim: in_str_set.elims)

lemma plain_artifacts [simp]: "plain_opt (check_artifacts v)"
  by (auto simp: check_artifacts_def split: json.split) (auto simp: plain_opt_def)

lemma plain_input [simp]: "plain_opt (validate_input v)"
  by (auto simp: validate_input_def split: json.split intro!: plain_first_error) (auto simp: plain_opt_def)

lemma plain_validate: "plain_opt (validate e)"
proof -
  have "plain_opt (validate_by_type (ev_type e) e)"
    by (cases "ev_type e") (auto simp: validate_created_def Let_def intro!: plain_first_error)
  then have "plain_opt (validate_payload e)"
    by (auto simp: validate_payload_def Let_def intro!: plain_first_error)
  then show ?thesis
    by (auto simp: validate_def intro!: plain_first_error split: option.split)
qed

lemma plain_bind [plain_intros]: "plain_result r \<Longrightarrow> (\<And>v. plain_result (f v)) \<Longrightarrow> plain_result (bind_result r f)"
  by (cases r) (simp_all add: plain_result_def)

lemma plain_Inr [plain_intros, simp]: "plain_result (Inr v)" "low_level err \<Longrightarrow> plain_result (Inl err)"
  by (simp_all add: plain_result_def)

lemma plain_texts [plain_intros]: "plain_result (loads s)" "plain_result (canonical_json v)"
proof -
  have "(\<exists>v. loads s = Inr v) \<or> loads s = Inl (ValueError ''JSONDecodeError'')"
    unfolding loads_def by (cases "parse_value (Suc (2 * length s)) (skip_ws s)") (auto simp only: option.case prod.case split: prod.split if_split)
  then show "plain_result (loads s)" by (metis plain_Inr plain_errors(3))
  show "plain_result (canonical_json v)" by (simp add: canonical_json_def)
qed

lemma plain_post_init [plain_intros]: "plain_result (post_init e)"
  unfolding plain_result_def
proof (intro allI impI)
  fix err
  assume "post_init e = Inl err"
  then have "err = EventValidationError ''payload is not canonical JSON'' \<or> (\<exists>e'. validate e' = Some err)"
    unfolding post_init_def Let_def by (auto split: sum.splits json.splits option.splits)
  then show "low_level err" using plain_validate by (auto simp: plain_opt_def)
qed

lemma plain_from_row [plain_intros]: "plain_result (from_row r)"
  unfolding from_row_def by (intro plain_intros) (auto split: option.split json.split intro: plain_intros)

lemma plain_load [plain_intros]: "plain_result (load_task p tid)"
  unfolding load_task_def proj_from_row_def
  by (auto split: option.split intro!: plain_intros)

lemma plain_reads [plain_intros]: "plain_result (get_event_by_dedupe_key j k)" "plain_result (existing_event j e)"
  "plain_result (claim_for_dispatch j d)" "plain_result (journal_task j tid)"
  by (auto simp: get_event_by_dedupe_key_def existing_event_def claim_for_dispatch_def journal_task_def split: option.split
      intro!: plain_intros)

lemma plain_fence: "fence s e w = Some err \<Longrightarrow> low_level err"
proof -
  have "plain_opt (fence s e w)" by (auto simp: fence_def intro!: plain_first_error)
  then show "fence s e w = Some err \<Longrightarrow> low_level err" by (simp add: plain_opt_def)
qed

lemma plain_apply:
  assumes "ev_type e \<in> {RESULT_READY, TASK_STARTED, LATE_RESULT_DISCARDED}"
  shows "plain_result (sm_apply st e)"
proof -
  have "plain_result (transition s e)" for s
    using assms plain_fence
    by (auto simp: transition_def fail_def on_result_ready_def on_started_def on_late_result_def split: option.split)
  then show ?thesis
    using assms by (auto simp: sm_apply_def fail_def SYSTEM_EVENTS_def split: option.split intro!: plain_intros)
qed

lemma plain_append:
  assumes "ev_type e \<in> {RESULT_READY, TASK_STARTED, LATE_RESULT_DISCARDED}"
  shows "plain_result (journal_append H False j e)"
proof -
  have st: "plain_result (store p s q)" for p s q
    by (auto simp: store_def proj_to_row_def split: option.split intro!: plain_intros)
  have ap: "plain_result (apply_event p s)" if "sealed H e q h = Inr s" for p q h s
  proof -
    have "ev_type s = ev_type e"
      using that by (auto simp: sealed_def dest!: post_init_fields(1) elim!: bind_resultE)
    then show ?thesis
      unfolding apply_event_def using assms by (auto split: option.split intro!: plain_intros st plain_apply)
  qed
  have "plain_result (append_new H j e)"
  proof (cases "sealed H e (fst (head j) + 1) (snd (head j))")
    case (Inl err)
    moreover have "plain_result (sealed H e q h)" for q h unfolding sealed_def by (intro plain_intros)
    ultimately have "low_level err" unfolding plain_result_def by blast
    with Inl show ?thesis by (simp add: append_new_def case_prod_beta)
  next
    case (Inr s)
    then show ?thesis
      using ap [OF Inr] Inr by (cases "head j") (auto simp: append_new_def insert_row_def intro!: plain_intros)
  qed
  then show ?thesis
    unfolding journal_append_def by (auto split: option.split intro!: plain_intros)
qed

definition refuses :: "'a op \<Rightarrow> bool" where
  "refuses m \<longleftrightarrow> (\<forall>c err c'. m c = (Inl err, c') \<longrightarrow> (\<forall>code. err \<noteq> ApiError 200 code))"

lemma refuses_bind [refuse_intros]: "refuses m \<Longrightarrow> (\<And>v. refuses (k v)) \<Longrightarrow> refuses (op_bind m k)"
  unfolding refuses_def op_bind_def by (auto split: prod.splits sum.splits)

lemma refuses_basic [refuse_intros]: "refuses (op_return v)" "refuses (op_get f)" "refuses (op_modify g)" "refuses draw"
  by (auto simp: refuses_def op_return_def op_get_def op_modify_def draw_def)

lemma refuses_raise [refuse_intros]: "low_level err \<Longrightarrow> refuses (op_raise err)"
  by (auto simp: refuses_def op_raise_def low_level_def)

lemma refuses_api [refuse_intros]: "st \<noteq> 200 \<Longrightarrow> refuses (api st code)" "refuses invalid_request"
  by (auto simp: refuses_def api_def invalid_request_def op_raise_def)

lemma refuses_api_if [refuse_intros]: "st \<noteq> 200 \<Longrightarrow> refuses (api_if b st code)"
  unfolding api_if_def by (auto intro: refuse_intros)

lemma refuses_lift [refuse_intros]: "plain_result r \<Longrightarrow> refuses (op_lift r)"
  by (auto simp: refuses_def op_lift_def plain_result_def low_level_def)

lemma refuses_if [refuse_intros]: "refuses m \<Longrightarrow> refuses n \<Longrightarrow> refuses (if b then m else n)"
  by simp

lemma refuses_option [refuse_intros]: "refuses m \<Longrightarrow> (\<And>v. refuses (k v)) \<Longrightarrow> refuses (case y of None \<Rightarrow> m | Some v \<Rightarrow> k v)"
  by (cases y) auto

lemma refuses_catch: "refuses m \<Longrightarrow> (\<And>err k. h err = Some k \<Longrightarrow> refuses k) \<Longrightarrow> refuses (op_catch m h)"
  unfolding refuses_def op_catch_def by (auto split: prod.splits sum.splits option.splits)

lemma refuses_catch_invalid [refuse_intros]: "refuses m \<Longrightarrow> refuses (op_catch m as_invalid_request)"
  by (rule refuses_catch) (auto simp: as_invalid_request_def split: error.splits intro: refuse_intros)

lemma refuses_requests [refuse_intros]: "refuses require_writable" "refuses (only_fields v fs)" "refuses (require_id p n)"
  "refuses the_journal" "refuses (ctl_task tid)" "refuses (the_task tid)" "refuses (claim_of did)"
  unfolding require_writable_def only_fields_def require_id_def the_journal_def ctl_task_def the_task_def claim_of_def
  by (auto split: json.split intro!: refuse_intros plain_intros)

lemma refuses_member [refuse_intros]: "refuses (require_member p n names)"
proof -
  have "plain_result (in_str_set v names)" for v by (cases v) auto
  then show ?thesis unfolding require_member_def by (auto split: json.split intro!: refuse_intros)
qed

lemma refuses_new_event [refuse_intros]: "refuses (new_event x t tid att did wid rid p key)"
  unfolding new_event_def by (intro refuse_intros plain_intros)

lemma refuses_append [refuse_intros]:
  "ev_type e \<in> {RESULT_READY, TASK_STARTED, LATE_RESULT_DISCARDED} \<Longrightarrow> refuses (ctl_append x e)"
proof -
  assume t: "ev_type e \<in> {RESULT_READY, TASK_STARTED, LATE_RESULT_DISCARDED}"
  have "refuses (case journal_append (x_H x) False j e of Inl err \<Rightarrow> op_raise err
     | Inr (ar, j') \<Rightarrow> op_bind (op_modify (\<lambda>c. c\<lparr>k_file := Some j'\<rparr>)) (\<lambda>_.
       op_bind (op_when (\<not> a_duplicate ar) (op_modify (\<lambda>c. c\<lparr>k_head_seq := the (ev_seq (a_event ar))\<rparr>)))
         (\<lambda>_. op_return ar)))" for j
    using plain_append [OF t, of "x_H x" j]
    by (auto simp: plain_result_def op_when_def split: sum.split intro!: refuse_intros)
  then show ?thesis unfolding ctl_append_def by (intro refuse_intros)
qed

text \<open>An event that was just built is appended.\<close>

definition builds :: "event_type \<Rightarrow> event op \<Rightarrow> bool" where
  "builds t m \<longleftrightarrow> refuses m \<and> (\<forall>c e c'. m c = (Inr e, c') \<longrightarrow> ev_type e = t)"

lemma builds_new [refuse_intros]: "builds t (new_event x t tid att did wid rid p key)"
  using post_init_fields(1) refuses_new_event by (fastforce simp: builds_def run_new_event draft_def)

lemma builds_catch [refuse_intros]: "builds t m \<Longrightarrow> builds t (op_catch m as_invalid_request)"
  by (simp add: builds_def run_catch_invalid refuses_catch_invalid)

lemma refuses_built: "builds t m \<Longrightarrow> (\<And>e. ev_type e = t \<Longrightarrow> refuses (k e)) \<Longrightarrow> refuses (op_bind m k)"
  unfolding refuses_def builds_def op_bind_def by (auto split: prod.splits sum.splits) blast+

lemma refuses_start: "refuses (ctl_start x v)"
  unfolding ctl_start_def by (intro refuse_intros refuses_built [OF builds_new]) simp_all

lemma refuses_discard: "refuses (discard_late x did rid p cl task)"
  unfolding discard_late_def
  by (intro refuses_built [OF builds_new] refuses_bind refuses_catch) (auto split: if_splits intro!: refuse_intros)

lemma refuses_result: "refuses (ctl_result x v)"
  unfolding ctl_result_def
  by (intro refuse_intros refuses_built [OF builds_catch [OF builds_new]] refuses_discard plain_intros) simp_all

end
