(* ===== verification/Worker_Client.thy ===== *)
theory Worker_Client
  imports Worker_Outbox
begin

text \<open>
  The worker's side of the controller API (courier\_worker/service.py): \<open>ControllerClient\<close>, which
  makes one attempt per call and turns answers into values or exceptions, and the two operations
  that deliver results, \<open>_deliver_payload\<close> and \<open>flush_outbox\<close>. Everything behind the HTTP
  connection is a state \<open>'c\<close> and a function from a request to an answer and the next state; a call may
  also go unanswered, or the worker process may die in it.
\<close>

section \<open>The connection\<close>

text \<open>
  \<open>NoReply\<close>: the connection failed or timed out with this message, whether or not the request
  arrived. \<open>Reply\<close>: a status and the raw body. \<open>Killed\<close>: the worker process ends during the call.
\<close>

datatype http_reply = NoReply string | Reply int string | Killed

type_synonym 'c http = "string \<Rightarrow> string \<Rightarrow> json option \<Rightarrow> 'c \<Rightarrow> http_reply \<times> 'c"

text \<open>\<open>json.loads(raw)\<close>, with \<open>None\<close> for an empty body and for one that is not JSON.\<close>

definition reply_body :: "string \<Rightarrow> json" where
  "reply_body raw = (if raw = [] then JNull else case loads raw of Inr v \<Rightarrow> v | Inl _ \<Rightarrow> JNull)"

definition client_call :: "'c http \<Rightarrow> string \<Rightarrow> string \<Rightarrow> json option \<Rightarrow> 'c \<Rightarrow> (int \<times> json) result \<times> 'c" where
  "client_call http verb path body c = (case http verb (''/v1'' @ path) body c of
     (NoReply msg, c') \<Rightarrow> (Inl (ControllerError (verb @ '' '' @ path @ '': '' @ msg)), c')
   | (Reply status raw, c') \<Rightarrow>
       (if 500 \<le> status then (Inl (ControllerError (verb @ '' '' @ path @ '': status '' @ show_int status)), c')
        else (Inr (status, reply_body raw), c'))
   | (Killed, c') \<Rightarrow> (Inl ProcessKilled, c'))"

fun is_controller_error :: "error \<Rightarrow> bool" where
  "is_controller_error (ControllerError _) = True"
| "is_controller_error (StaleDispatch _) = True"
| "is_controller_error (AuthenticationError _) = True"
| "is_controller_error (ControllerUnreachable _) = True"
| "is_controller_error _ = False"

fun error_text :: "error \<Rightarrow> string" where
  "error_text (ControllerError m) = m"
| "error_text (StaleDispatch m) = m"
| "error_text (AuthenticationError m) = m"
| "error_text (ControllerUnreachable m) = m"
| "error_text _ = []"

section \<open>The client\<close>

text \<open>\<open>str(build["version"]).split(".")[0]\<close>\<close>

definition version_major :: "json \<Rightarrow> string" where
  "version_major v = takeWhile (\<lambda>c. c \<noteq> CHR ''.'') (py_str v)"

definition healthy :: "int \<Rightarrow> json \<Rightarrow> bool" where
  "healthy status v = (case v of
     JObj p \<Rightarrow> status = 200 \<and> (get p ''mode'' = JStr ''normal'' \<or> get p ''mode'' = JNull)
       \<and> (case get p ''build'' of
            JObj b \<Rightarrow> has_key b ''version'' \<longrightarrow> version_major (get b ''version'') \<in> {[], ''1''}
          | _ \<Rightarrow> True)
   | _ \<Rightarrow> False)"

definition client_health :: "'c http \<Rightarrow> 'c \<Rightarrow> bool result \<times> 'c" where
  "client_health http c = (case client_call http ''GET'' ''/health'' None c of
     (Inr (status, v), c') \<Rightarrow> (Inr (healthy status v), c')
   | (Inl err, c') \<Rightarrow> (if is_controller_error err then Inr False else Inl err, c'))"

definition client_claim :: "'c http \<Rightarrow> string \<Rightarrow> string \<Rightarrow> 'c \<Rightarrow> payload option result \<times> 'c" where
  "client_claim http wid resource c =
     (case client_call http ''POST'' ''/claim'' (Some (JObj [(''worker_id'', JStr wid), (''resource_state'', JStr resource)])) c of
        (Inl err, c') \<Rightarrow> (if is_controller_error err then Inr None else Inl err, c')
      | (Inr (status, v), c') \<Rightarrow>
          (if status \<in> {401, 403} then Inl (AuthenticationError ''claim rejected'')
           else if status = 204 then Inr None
           else case v of JObj p \<Rightarrow> Inr (if status = 200 then Some p else None) | _ \<Rightarrow> Inr None, c'))"

definition client_start :: "'c http \<Rightarrow> string \<Rightarrow> 'c \<Rightarrow> unit result \<times> 'c" where
  "client_start http did c =
     (case client_call http ''POST'' ''/start'' (Some (JObj [(''dispatch_id'', JStr did)])) c of
        (Inl err, c') \<Rightarrow> (Inl (if is_controller_error err then StaleDispatch (error_text err) else err), c')
      | (Inr (status, v), c') \<Rightarrow>
          (if status \<in> {401, 403} then Inl (AuthenticationError ''start rejected'')
           else if status = 200 then Inr () else Inl (StaleDispatch (show_int status)), c'))"

definition client_heartbeat :: "'c http \<Rightarrow> string \<Rightarrow> string list \<Rightarrow> string \<Rightarrow> 'c \<Rightarrow> json result \<times> 'c" where
  "client_heartbeat http wid dids resource c =
     (case client_call http ''POST'' ''/heartbeat'' (Some (JObj [(''worker_id'', JStr wid),
         (''dispatch_ids'', JList (map JStr dids)), (''resource_state'', JStr resource)])) c of
        (Inl err, c') \<Rightarrow> (Inl err, c')
      | (Inr (status, v), c') \<Rightarrow>
          (if status \<in> {401, 403} then Inl (AuthenticationError ''heartbeat rejected'')
           else if status \<noteq> 200 then Inl (ControllerError (''heartbeat: status '' @ show_int status))
           else Inr (if truthy v then v else JObj []), c'))"

datatype delivery = Accepted | Stale

definition client_deliver :: "'c http \<Rightarrow> json \<Rightarrow> 'c \<Rightarrow> delivery result \<times> 'c" where
  "client_deliver http v c = (case client_call http ''POST'' ''/result'' (Some v) c of
     (Inl err, c') \<Rightarrow> (Inl err, c')
   | (Inr (status, b), c') \<Rightarrow>
       (if status \<in> {404, 409} then Inr Stale
        else if status = 200 then Inr Accepted
        else Inl (ControllerError (''result: status '' @ show_int status)), c'))"

section \<open>The worker's state\<close>

text \<open>
  \<open>w_attempts\<close> is \<open>_outbox_attempts\<close>, in memory only; \<open>w_far\<close> is what lies behind the connection.
  \<open>w_durable\<close> is a history: the payloads \<open>_deliver_payload\<close> put on disk, oldest first.
\<close>

record 'c world =
  w_disk :: disk
  w_attempts :: "(string \<times> int) list"
  w_durable :: "payload list"
  w_far :: 'c

type_synonym ('c, 'a) act = "'c world \<Rightarrow> 'a result \<times> 'c world"

definition act_return :: "'a \<Rightarrow> ('c, 'a) act" where
  "act_return x = (\<lambda>w. (Inr x, w))"

definition act_bind :: "('c, 'a) act \<Rightarrow> ('a \<Rightarrow> ('c, 'b) act) \<Rightarrow> ('c, 'b) act" where
  "act_bind m k = (\<lambda>w. case m w of (Inl err, w') \<Rightarrow> (Inl err, w') | (Inr x, w') \<Rightarrow> k x w')"

text \<open>\<open>try: m except (matching) as exc: handler else: k\<close>\<close>

definition act_try :: "('c, 'a) act \<Rightarrow> ('a \<Rightarrow> ('c, 'b) act) \<Rightarrow> (error \<Rightarrow> ('c, 'b) act option) \<Rightarrow> ('c, 'b) act" where
  "act_try m k h = (\<lambda>w. case m w of (Inr x, w') \<Rightarrow> k x w'
     | (Inl err, w') \<Rightarrow> (case h err of None \<Rightarrow> (Inl err, w') | Some a \<Rightarrow> a w'))"

definition act_modify :: "('c world \<Rightarrow> 'c world) \<Rightarrow> ('c, unit) act" where
  "act_modify f = (\<lambda>w. (Inr (), f w))"

definition act_far :: "('c \<Rightarrow> 'a result \<times> 'c) \<Rightarrow> ('c, 'a) act" where
  "act_far f = (\<lambda>w. case f (w_far w) of (r, c) \<Rightarrow> (r, w\<lparr>w_far := c\<rparr>))"

section \<open>Delivering results\<close>

definition MAX_OUTBOX_DELIVERY_ATTEMPTS :: int where "MAX_OUTBOX_DELIVERY_ATTEMPTS = 5"

definition is_poison :: "error \<Rightarrow> bool" where
  "is_poison err = (let m = lower (error_text err) in str_contains m ''status 400'' \<or> str_contains m ''bad request'')"

definition pop_attempts :: "string \<Rightarrow> 'c world \<Rightarrow> 'c world" where
  "pop_attempts did w = w\<lparr>w_attempts := AList.delete did (w_attempts w)\<rparr>"

definition failed_attempts :: "string \<Rightarrow> 'c world \<Rightarrow> int" where
  "failed_attempts did w = (case map_of (w_attempts w) did of None \<Rightarrow> 0 | Some n \<Rightarrow> n)"

definition quarantine :: "string \<Rightarrow> string \<Rightarrow> 'c world \<Rightarrow> 'c world" where
  "quarantine did reason w = pop_attempts did (w\<lparr>w_disk := outbox_quarantine did reason (w_disk w)\<rparr>)"

text \<open>\<open>str(payload.get("dispatch_id", ""))\<close>\<close>

definition id_text :: "payload \<Rightarrow> string" where
  "id_text p = (if has_key p ''dispatch_id'' then py_str (get p ''dispatch_id'') else [])"

text \<open>\<open>outbox_remove(self.home, payload["dispatch_id"])\<close>\<close>

definition remove_delivered :: "payload \<Rightarrow> ('c, unit) act" where
  "remove_delivered p = (\<lambda>w. if has_key p ''dispatch_id''
     then (Inr (), w\<lparr>w_disk := outbox_remove (get p ''dispatch_id'') (w_disk w)\<rparr>) else (Inl (KeyError ''dispatch_id''), w))"

text \<open>The handler of a failed delivery in the flush: 1 if the result stays in the outbox.\<close>

definition flush_failed :: "string \<Rightarrow> error \<Rightarrow> ('c, nat) act" where
  "flush_failed did err = (\<lambda>w. let n = failed_attempts did w + 1; w1 = w\<lparr>w_attempts := AList.update did n (w_attempts w)\<rparr> in
     if is_poison err then (Inr 0, quarantine did (''poison_400: '' @ error_text err) w1)
     else if MAX_OUTBOX_DELIVERY_ATTEMPTS \<le> n
       then (Inr 0, quarantine did (''max_attempts_exceeded ('' @ show_int n @ ''): '' @ error_text err) w1)
     else (Inr 1, w1))"

definition deliver_act :: "'c http \<Rightarrow> json \<Rightarrow> string \<Rightarrow> ('c, unit) act" where
  "deliver_act http v did = act_bind (act_far (client_deliver http v)) (\<lambda>_. act_modify (pop_attempts did))"

definition flush_one :: "'c http \<Rightarrow> json \<Rightarrow> ('c, nat) act" where
  "flush_one http v = (case v of
     JObj p \<Rightarrow> act_try (deliver_act http v (id_text p))
       (\<lambda>_. act_bind (remove_delivered p) (\<lambda>_. act_return 0))
       (\<lambda>err. if is_controller_error err then Some (flush_failed (id_text p) err) else None)
   | _ \<Rightarrow> (\<lambda>w. (Inl (AttributeError ''get''), w)))"

fun flush_loop :: "'c http \<Rightarrow> json list \<Rightarrow> ('c, nat) act" where
  "flush_loop http [] = act_return 0"
| "flush_loop http (v # vs) = act_bind (flush_one http v) (\<lambda>n. act_bind (flush_loop http vs) (\<lambda>m. act_return (n + m)))"

definition flush_outbox :: "'c http \<Rightarrow> ('c, nat) act" where
  "flush_outbox http = (\<lambda>w. flush_loop http (map snd (outbox_read_all (w_disk w))) w)"

definition write_act :: "rat \<Rightarrow> payload \<Rightarrow> ('c, unit) act" where
  "write_act now p = (\<lambda>w. case outbox_write now p (w_disk w) of
     (Inr u, d) \<Rightarrow> (Inr u, w\<lparr>w_disk := d, w_durable := w_durable w @ [p]\<rparr>) | (Inl err, d) \<Rightarrow> (Inl err, w\<lparr>w_disk := d\<rparr>))"

text \<open>The handler of a failed first delivery: the result stays in the outbox unless it is poison.\<close>

definition first_failed :: "string \<Rightarrow> error \<Rightarrow> ('c, unit) act" where
  "first_failed did err = (\<lambda>w. let w1 = w\<lparr>w_attempts := AList.update did (failed_attempts did w + 1) (w_attempts w)\<rparr> in
     (Inr (), if is_poison err then quarantine did (''poison_400: '' @ error_text err) w1 else w1))"

definition deliver_first :: "'c http \<Rightarrow> payload \<Rightarrow> ('c, unit) act" where
  "deliver_first http p = act_try (deliver_act http (JObj p) (id_text p)) (\<lambda>_. remove_delivered p)
     (\<lambda>err. if is_controller_error err then Some (first_failed (id_text p) err) else None)"

definition write_and_deliver :: "'c http \<Rightarrow> rat \<Rightarrow> payload \<Rightarrow> ('c, unit) act \<Rightarrow> ('c, unit) act" where
  "write_and_deliver http now p on_full = act_try (write_act now p) (\<lambda>_. deliver_first http p)
     (\<lambda>err. if err = OutboxFull then Some on_full else None)"

text \<open>\<open>except Exception: pass\<close> around the flush catches all but the end of the process.\<close>

definition deliver_payload :: "'c http \<Rightarrow> rat \<Rightarrow> payload \<Rightarrow> ('c, unit) act" where
  "deliver_payload http now p = (let again = write_and_deliver http now p (act_return ()) in
     write_and_deliver http now p
       (act_try (flush_outbox http) (\<lambda>_. again) (\<lambda>err. if err = ProcessKilled then None else Some again)))"

end
