(* ===== verification/Worker_Delivery.thy ===== *)
theory Worker_Delivery
  imports Worker_Client
begin

text \<open>
  What delivery promises. A result on disk stays accounted for: it is in the outbox, or it was
  quarantined, or the far side has settled it. The far side is any endpoint whose answers settle
  what was delivered to it; the locale states that contract, the composition with the controller
  interprets it.
\<close>

section \<open>Results on disk\<close>

definition result_dispatch :: "payload \<Rightarrow> string" where
  "result_dispatch p = (case get p ''dispatch_id'' of JStr s \<Rightarrow> s | _ \<Rightarrow> [])"

definition storable :: "payload \<Rightarrow> bool" where
  "storable p \<longleftrightarrow> wf_json (JObj p) \<and> get p ''dispatch_id'' = JStr (result_dispatch p) \<and> safe_dispatch_id (result_dispatch p)"

definition in_outbox :: "payload \<Rightarrow> disk \<Rightarrow> bool" where
  "in_outbox p d \<longleftrightarrow> (\<exists>f. map_of (d_outbox d) (entry_name (result_dispatch p)) = Some f \<and> of_text f = dumps_sorted (JObj p))"

definition quarantined_result :: "payload \<Rightarrow> disk \<Rightarrow> bool" where
  "quarantined_result p d \<longleftrightarrow> map_of (d_quarantine d) (entry_name (result_dispatch p)) = Some (QText (dumps_sorted (JObj p)))"

text \<open>
  The note of a quarantined dispatch \<open>x\<close> is the file \<open>x.meta.json\<close>, which is also the name of the quarantined
  result of a dispatch called \<open>x.meta\<close>: the note may have replaced it.
\<close>

definition note_over :: "payload \<Rightarrow> disk \<Rightarrow> bool" where
  "note_over p d \<longleftrightarrow> (\<exists>did reason. result_dispatch p = did @ ''.meta''
     \<and> map_of (d_quarantine d) (entry_name (result_dispatch p)) = Some (QMeta [(''dispatch_id'', JStr did), (''reason'', JStr reason)]))"

definition in_custody :: "payload \<Rightarrow> disk \<Rightarrow> bool" where
  "in_custody p d \<longleftrightarrow> in_outbox p d \<or> quarantined_result p d \<or> note_over p d"

text \<open>The result of a dispatch that was put on disk last; a later one overwrites the entry of an earlier one.\<close>

definition stored_for :: "string \<Rightarrow> payload list \<Rightarrow> payload option" where
  "stored_for did ps = find (\<lambda>q. result_dispatch q = did) (rev ps)"

definition latest :: "payload \<Rightarrow> 'c world \<Rightarrow> bool" where
  "latest p w \<longleftrightarrow> stored_for (result_dispatch p) (w_durable w) = Some p"

text \<open>Every entry is the last result put on disk for a dispatch, under the name of the dispatch.\<close>

definition worker_ok :: "'c world \<Rightarrow> bool" where
  "worker_ok w \<longleftrightarrow> dict_wf (d_outbox (w_disk w)) \<and> (\<forall>q\<in>set (w_durable w). storable q)
     \<and> (\<forall>(n, f)\<in>set (d_outbox (w_disk w)). \<exists>q. latest q w \<and> n = entry_name (result_dispatch q) \<and> of_text f = dumps_sorted (JObj q))"

lemma stored_for_snoc [simp]:
  "stored_for did (ps @ [q]) = (if result_dispatch q = did then Some q else stored_for did ps)"
  by (simp add: stored_for_def)

lemma stored_for_Some: "stored_for did ps = Some q \<Longrightarrow> q \<in> set ps \<and> result_dispatch q = did"
  by (induction ps rule: rev_induct) (auto simp: stored_for_def split: if_splits)

lemma stored_for_stored: "q \<in> set ps \<Longrightarrow> \<exists>p. stored_for (result_dispatch q) ps = Some p"
  by (induction ps rule: rev_induct) auto

lemma latest_durable: "latest q w \<Longrightarrow> q \<in> set (w_durable w)"
  by (auto simp: latest_def dest: stored_for_Some)

lemma latest_unique: "latest q w \<Longrightarrow> latest p w \<Longrightarrow> result_dispatch q = result_dispatch p \<Longrightarrow> q = p"
  by (simp add: latest_def)

lemma latest_frame: "w_durable w' = w_durable w \<Longrightarrow> latest p w' = latest p w"
  by (simp add: latest_def)

lemma set_update_other:
  assumes "dict_wf d" "(n, f) \<in> set (AList.update k v d)"
  shows "n = k \<and> f = v \<or> n \<noteq> k \<and> (n, f) \<in> set d"
proof -
  have "dict_wf (AList.update k v d)" using assms(1) by simp
  then have "map_of (AList.update k v d) n = Some f" using assms(2) by (simp add: dict_wf_map_of)
  then show ?thesis using assms(1) by (auto simp: dict_wf_map_of split: if_splits)
qed

lemma stored_value:
  assumes "storable q"
  obtains q' where "canonical (JObj q) = JObj q'" "get q' ''dispatch_id'' = JStr (result_dispatch q)"
    "loads (dumps_sorted (JObj q)) = Inr (JObj q')" "has_key q' ''dispatch_id''" "id_text q' = result_dispatch q"
proof -
  obtain q' where q': "canonical (JObj q) = JObj q'" by simp
  have "get q' ''dispatch_id'' = JStr (result_dispatch q)"
    using get_canonical [OF _ q', of "''dispatch_id''"] assms by (simp add: storable_def)
  moreover from this have "has_key q' ''dispatch_id''" by (auto simp: get_def has_key_def split: option.splits)
  ultimately show ?thesis
    using that [OF q'] assms loads_dumps_sorted [of "JObj q"] q' by (simp add: storable_def id_text_def)
qed

lemma outbox_values:
  assumes "worker_ok w" "v \<in> snd ` set (outbox_read_all (w_disk w))"
  obtains q where "latest q w" "v = canonical (JObj q)"
proof -
  from assms(2) obtain n where n: "(n, v) \<in> set (outbox_read_all (w_disk w))" by auto
  then obtain f where f: "(n, f) \<in> set (d_outbox (w_disk w))" "loads (of_text f) = Inr v" by (auto simp: read_all_iff)
  with assms(1) obtain q where q: "latest q w" "of_text f = dumps_sorted (JObj q)"
    by (fastforce simp: worker_ok_def)
  then have "storable q" using assms(1) latest_durable by (auto simp: worker_ok_def)
  then show thesis using that [OF q(1)] q(2) f(2) loads_dumps_sorted [of "JObj q"] by (simp add: storable_def)
qed

text \<open>A change to the files of another dispatch leaves the custody of a result alone.\<close>

lemma quarantine_custody:
  assumes "result_dispatch p \<noteq> did" "in_custody p d"
  shows "in_custody p (outbox_quarantine did reason d)"
proof (cases "did @ ''.meta.json'' = entry_name (result_dispatch p)")
  case True
  then have "result_dispatch p = did @ ''.meta''" by (simp add: entry_name_meta)
  with True assms show ?thesis
    by (auto simp: in_custody_def outbox_quarantine_def in_outbox_def quarantined_result_def note_over_def Let_def split: option.split)
next
  case False
  with assms show ?thesis
    by (auto simp: in_custody_def outbox_quarantine_def in_outbox_def quarantined_result_def note_over_def Let_def split: option.split)
qed

lemma quarantine_keeps_custody:
  assumes "in_custody p d" "safe_dispatch_id (result_dispatch p)"
    "\<And>f. map_of (d_outbox d) (entry_name (result_dispatch p)) = Some f \<Longrightarrow> of_text f = dumps_sorted (JObj p)"
  shows "in_custody p (outbox_quarantine (result_dispatch p) reason d)"
proof -
  have "result_dispatch p @ ''.meta.json'' \<noteq> entry_name (result_dispatch p)" by (simp add: entry_name_meta)
  with assms show ?thesis
    by (auto simp: in_custody_def outbox_quarantine_def in_outbox_def quarantined_result_def note_over_def Let_def split: option.split)
qed

lemma worker_ok_delete:
  "worker_ok w \<Longrightarrow> worker_ok (w\<lparr>w_disk := (w_disk w)\<lparr>d_outbox := AList.delete n (d_outbox (w_disk w)), d_quarantine := q\<rparr>\<rparr>)"
  using set_delete_sub [of n "d_outbox (w_disk w)"] by (fastforce simp: worker_ok_def latest_def)

lemma worker_ok_frame:
  "d_outbox (w_disk w') = d_outbox (w_disk w) \<Longrightarrow> w_durable w' = w_durable w \<Longrightarrow> worker_ok w' = worker_ok w"
  by (simp add: worker_ok_def latest_def)

lemma worker_ok_quarantine: "worker_ok w \<Longrightarrow> worker_ok (w\<lparr>w_disk := outbox_quarantine did reason (w_disk w)\<rparr>)"
  by (auto simp: outbox_quarantine_def Let_def worker_ok_delete split: option.split)

lemma worker_ok_remove: "worker_ok w \<Longrightarrow> worker_ok (w\<lparr>w_disk := outbox_remove v (w_disk w)\<rparr>)"
  using worker_ok_delete [where q = "d_quarantine (w_disk w)" and w = w] by (auto simp: outbox_remove_def split: json.split)

section \<open>The contract of the far side\<close>

text \<open>
  \<open>settled v c\<close>: in the state \<open>c\<close> the far side has answered for the result \<open>v\<close>. In its good states
  (\<open>far_ok\<close>), which calls keep, an answered delivery settles its result, no later call unsettles one, and
  only the JSON value counts, not the order of its members.
\<close>

locale result_endpoint =
  fixes http :: "'c http"
    and far_ok :: "'c \<Rightarrow> bool"
    and settled :: "json \<Rightarrow> 'c \<Rightarrow> bool"
  assumes far_ok_kept: "far_ok c \<Longrightarrow> far_ok (snd (http verb path body c))"
    and delivery_settles: "far_ok c \<Longrightarrow> wf_json v \<Longrightarrow> client_deliver http v c = (Inr a, c') \<Longrightarrow> settled v c'"
    and settled_stable: "far_ok c \<Longrightarrow> settled v c \<Longrightarrow> settled v (snd (http verb path body c))"
    and settled_canonical: "settled (canonical v) c = settled v c"
begin

definition answered_for :: "payload \<Rightarrow> 'c world \<Rightarrow> bool" where
  "answered_for p w \<longleftrightarrow> in_custody p (w_disk w) \<or> settled (JObj p) (w_far w)"

definition inv :: "payload \<Rightarrow> 'c world \<Rightarrow> bool" where
  "inv p w \<longleftrightarrow> far_ok (w_far w) \<and> worker_ok w \<and> (latest p w \<longrightarrow> answered_for p w)"

lemma deliver_far_ok: "far_ok c \<Longrightarrow> far_ok (snd (client_deliver http u c))"
  using far_ok_kept [of c "''POST''" "''/v1/result''" "Some u"]
  by (auto simp: client_deliver_def client_call_def split: prod.splits sum.splits http_reply.splits)

lemma deliver_stable: "far_ok c \<Longrightarrow> settled v c \<Longrightarrow> settled v (snd (client_deliver http u c))"
  using settled_stable [of c v "''POST''" "''/v1/result''" "Some u"]
  by (auto simp: client_deliver_def client_call_def split: prod.splits sum.splits http_reply.splits)

lemma inv_far:
  "inv p w \<Longrightarrow> far_ok c \<Longrightarrow> (settled (JObj p) (w_far w) \<Longrightarrow> settled (JObj p) c) \<Longrightarrow> inv p (w\<lparr>w_far := c\<rparr>)"
  by (auto simp: inv_def answered_for_def latest_def worker_ok_def)

lemma inv_attempts: "inv p (w\<lparr>w_attempts := a\<rparr>) = inv p w"
  by (simp add: inv_def answered_for_def latest_def worker_ok_def)

text \<open>Quarantining the entry of any dispatch.\<close>

lemma inv_quarantine: "inv p w \<Longrightarrow> inv p (quarantine did reason w)"
proof -
  assume i: "inv p w"
  let ?w = "w\<lparr>w_disk := outbox_quarantine did reason (w_disk w)\<rparr>"
  have ok: "worker_ok w" and "worker_ok ?w" using i worker_ok_quarantine by (auto simp: inv_def)
  moreover have "answered_for p ?w" if s: "latest p w" and a: "answered_for p w"
  proof (cases "did = result_dispatch p")
    case True
    have "storable p" using ok latest_durable [OF s] by (auto simp: worker_ok_def)
    moreover have "of_text f = dumps_sorted (JObj p)"
      if f: "map_of (d_outbox (w_disk w)) (entry_name (result_dispatch p)) = Some f" for f
    proof -
      obtain q where "latest q w" "result_dispatch q = result_dispatch p" "of_text f = dumps_sorted (JObj q)"
        using map_of_SomeD [OF f] ok by (fastforce simp: worker_ok_def)
      with latest_unique [OF _ s] show ?thesis by auto
    qed
    ultimately show ?thesis
      using a quarantine_keeps_custody [of p "w_disk w" reason] True by (auto simp: answered_for_def storable_def)
  next
    case False
    then show ?thesis
      using a quarantine_custody [of p did "w_disk w" reason] by (auto simp: answered_for_def)
  qed
  ultimately have "inv p ?w" using i latest_frame [of ?w w] by (auto simp: inv_def)
  then show ?thesis by (simp add: quarantine_def pop_attempts_def inv_attempts)
qed

lemma inv_flush_failed: "inv p w \<Longrightarrow> inv p (snd (flush_failed did err w))"
  by (auto simp: flush_failed_def Let_def inv_attempts intro: inv_quarantine)

lemma inv_first_failed: "inv p w \<Longrightarrow> inv p (snd (first_failed did err w))"
  by (auto simp: first_failed_def Let_def inv_attempts intro: inv_quarantine)

text \<open>Removing the entry of a delivered result.\<close>

lemma inv_remove_delivered:
  assumes "inv p w" "get q ''dispatch_id'' = JStr did"
    and "did = result_dispatch p \<Longrightarrow> latest p w \<Longrightarrow> settled (JObj p) (w_far w)"
  shows "inv p (snd (remove_delivered q w))"
proof -
  let ?w = "w\<lparr>w_disk := outbox_remove (JStr did) (w_disk w)\<rparr>"
  have "worker_ok ?w" using assms(1) worker_ok_remove by (auto simp: inv_def)
  moreover have "in_outbox p (outbox_remove (JStr did) (w_disk w)) = in_outbox p (w_disk w)" if "did \<noteq> result_dispatch p"
    using that by (auto simp: outbox_remove_def in_outbox_def)
  moreover have "quarantined_result p (outbox_remove (JStr did) (w_disk w)) = quarantined_result p (w_disk w)"
    by (simp add: outbox_remove_def quarantined_result_def)
  moreover have "note_over p (outbox_remove (JStr did) (w_disk w)) = note_over p (w_disk w)"
    by (simp add: outbox_remove_def note_over_def)
  ultimately have "inv p ?w"
    using assms(1,3) latest_frame [of ?w w] by (auto simp: inv_def answered_for_def in_custody_def)
  then show ?thesis using assms by (simp add: remove_delivered_def)
qed

lemma inv_deliver_act:
  "inv p w \<Longrightarrow> inv p (snd (deliver_act http v did w))"
proof -
  assume "inv p w"
  then have "inv p (w\<lparr>w_far := snd (client_deliver http v (w_far w))\<rparr>)"
    by (rule inv_far) (use \<open>inv p w\<close> in \<open>auto simp: inv_def intro: deliver_far_ok deliver_stable\<close>)
  then show ?thesis
    by (auto simp: deliver_act_def act_bind_def act_far_def act_modify_def pop_attempts_def inv_attempts
        split: prod.splits sum.splits)
qed

lemma deliver_act_settles: "far_ok (w_far w) \<Longrightarrow> wf_json v \<Longrightarrow> deliver_act http v did w = (Inr u, w') \<Longrightarrow> settled v (w_far w') \<and> w_durable w' = w_durable w"
  using delivery_settles by (auto simp: deliver_act_def act_bind_def act_far_def act_modify_def pop_attempts_def
      split: prod.splits sum.splits)

lemma deliver_act_durable: "w_durable (snd (deliver_act http v did w)) = w_durable w"
  by (auto simp: deliver_act_def act_bind_def act_far_def act_modify_def pop_attempts_def split: prod.splits sum.splits)

text \<open>Sending a stored result and acting on the answer, in the flush and the first time.\<close>

lemma inv_send:
  assumes "inv p w" "latest q w" "get q' ''dispatch_id'' = JStr (result_dispatch q)"
    and "canonical (JObj q') = canonical (JObj q)" "wf_json (JObj q')"
    and "\<And>w. inv p w \<Longrightarrow> inv p (snd (k w))"
    and "\<And>err a w. h err = Some a \<Longrightarrow> inv p w \<Longrightarrow> inv p (snd (a w))"
  shows "inv p (snd (act_try (deliver_act http (JObj q') did) (\<lambda>_. act_bind (remove_delivered q') (\<lambda>_. k)) h w))"
proof (cases "deliver_act http (JObj q') did w")
  case (Pair r w')
  then have i: "inv p w'" using inv_deliver_act [OF assms(1), of "JObj q'" did] by simp
  show ?thesis
  proof (cases r)
    case (Inl err)
    with Pair i assms(7) show ?thesis by (auto simp: act_try_def split: option.split)
  next
    case (Inr u)
    have "settled (JObj p) (w_far w')" if "result_dispatch q = result_dispatch p" "latest p w'"
    proof -
      have d: "w_durable w' = w_durable w" "settled (JObj q') (w_far w')"
        using deliver_act_settles [OF _ assms(5)] assms(1) Pair Inr unfolding inv_def by blast+
      then have "q = p" using that latest_unique [OF assms(2), of p] latest_frame [OF d(1)] by simp
      then show ?thesis using d(2) assms(4) settled_canonical by metis
    qed
    then have "inv p (snd (remove_delivered q' w'))" by (rule inv_remove_delivered [OF i assms(3)])
    then show ?thesis
      using Pair Inr assms(6) by (auto simp: act_try_def act_bind_def split: prod.splits sum.splits)
  qed
qed

lemma inv_flush_one:
  assumes "inv p w" "latest q w"
  shows "inv p (snd (flush_one http (canonical (JObj q)) w))"
proof -
  have "storable q" using assms latest_durable by (auto simp: inv_def worker_ok_def)
  then obtain q' where q': "canonical (JObj q) = JObj q'" "get q' ''dispatch_id'' = JStr (result_dispatch q)"
    by (rule stored_value)
  have c: "canonical (JObj q') = canonical (JObj q)" using q'(1) canonical_idem [of "JObj q"] by simp
  have wf: "wf_json (JObj q')"
    using wf_json_canonical [of "JObj q"] \<open>storable q\<close> unfolding q'(1) by (simp only: storable_def)
  show ?thesis
    unfolding flush_one_def q'(1) json.case
    by (rule inv_send [OF assms q'(2) c wf]) (auto simp: act_return_def split: if_splits intro: inv_flush_failed)
qed

end

lemma flush_one_durable: "w_durable (snd (flush_one http v w)) = w_durable w"
  by (auto simp: flush_one_def act_try_def act_bind_def deliver_act_def act_far_def act_modify_def pop_attempts_def
      remove_delivered_def act_return_def flush_failed_def quarantine_def Let_def split: json.splits prod.splits sum.splits if_splits option.splits)

context result_endpoint
begin

lemma inv_flush_loop:
  assumes "inv p w" "\<forall>v\<in>set vs. \<exists>q. latest q w \<and> v = canonical (JObj q)"
  shows "inv p (snd (flush_loop http vs w)) \<and> w_durable (snd (flush_loop http vs w)) = w_durable w"
  using assms
proof (induction vs arbitrary: w)
  case (Cons v vs)
  obtain q where q: "latest q w" "v = canonical (JObj q)" using Cons.prems(2) by auto
  obtain r w' where w': "flush_one http v w = (r, w')" by fastforce
  have i: "inv p w'" "w_durable w' = w_durable w"
    using inv_flush_one [OF Cons.prems(1) q(1)] flush_one_durable [of http v w] q(2) w' by auto
  then have "inv p (snd (flush_loop http vs w')) \<and> w_durable (snd (flush_loop http vs w')) = w_durable w"
    using Cons.IH [of w'] Cons.prems(2) latest_frame [OF i(2)] by simp
  with i w' show ?case
    by (cases r; cases "flush_loop http vs w'") (auto simp: act_bind_def act_return_def split: sum.split)
qed (simp add: act_return_def)

lemma inv_flush_outbox: "inv p w \<Longrightarrow> inv p (snd (flush_outbox http w)) \<and> w_durable (snd (flush_outbox http w)) = w_durable w"
proof -
  assume i: "inv p w"
  have "\<exists>q. latest q w \<and> v = canonical (JObj q)" if v: "v \<in> snd ` set (outbox_read_all (w_disk w))" for v
  proof -
    obtain q where "latest q w" "v = canonical (JObj q)"
      using outbox_values [OF _ v] i unfolding inv_def by blast
    then show ?thesis by blast
  qed
  then have "\<forall>v\<in>set (map snd (outbox_read_all (w_disk w))). \<exists>q. latest q w \<and> v = canonical (JObj q)" by simp
  then show ?thesis unfolding flush_outbox_def by (rule inv_flush_loop [OF i])
qed


lemma inv_write_act:
  assumes "inv p w" "wf_json (JObj q)"
  shows "inv p (snd (write_act now q w))"
proof (cases "outbox_write now q (w_disk w)")
  case (Pair r d)
  show ?thesis
  proof (cases r)
    case (Inl err)
    then have "d = w_disk w" using Pair by (auto simp: outbox_write_def split: json.splits if_splits)
    with Pair Inl assms(1) show ?thesis by (simp add: write_act_def)
  next
    case (Inr u)
    define did where "did = result_dispatch q"
    let ?f = "\<lparr>of_mtime = now, of_text = dumps_sorted (JObj q)\<rparr>"
    let ?w = "w\<lparr>w_disk := d, w_durable := w_durable w @ [q]\<rparr>"
    have q: "get q ''dispatch_id'' = JStr did" "safe_dispatch_id did"
      and d: "d = (w_disk w)\<lparr>d_outbox := AList.update (entry_name did) ?f (d_outbox (w_disk w))\<rparr>"
      using Pair Inr by (auto simp: outbox_write_def did_def result_dispatch_def split: json.splits if_splits)
    have ok: "worker_ok w" using assms(1) by (simp add: inv_def)
    have "worker_ok ?w"
    proof -
      have "storable q" using q assms(2) by (simp add: storable_def did_def)
      moreover have "\<exists>q'. latest q' ?w \<and> n = entry_name (result_dispatch q') \<and> of_text f = dumps_sorted (JObj q')"
        if nf: "(n, f) \<in> set (d_outbox d)" for n f
      proof (cases "n = entry_name did")
        case True
        then have "f = ?f" using set_update_other [of "d_outbox (w_disk w)" n f "entry_name did" ?f] nf ok d by (auto simp: worker_ok_def)
        moreover have "latest q ?w" by (simp add: latest_def)
        ultimately show ?thesis using True unfolding did_def by (intro exI [of _ q]) simp
      next
        case False
        then have "(n, f) \<in> set (d_outbox (w_disk w))"
          using set_update_other [of "d_outbox (w_disk w)" n f "entry_name did" ?f] nf ok d by (auto simp: worker_ok_def)
        then obtain q' where q': "latest q' w" "n = entry_name (result_dispatch q')" "of_text f = dumps_sorted (JObj q')"
          using ok by (fastforce simp: worker_ok_def)
        with False have "latest q' ?w" by (simp add: latest_def did_def)
        with q' show ?thesis by blast
      qed
      moreover have "dict_wf (d_outbox d)" using ok d by (simp add: worker_ok_def)
      moreover have "\<forall>q\<in>set (w_durable w). storable q" using ok by (simp add: worker_ok_def)
      ultimately show ?thesis unfolding worker_ok_def by simp blast
    qed
    moreover have "answered_for p ?w" if s: "latest p ?w"
    proof (cases "did = result_dispatch p")
      case True
      then have "q = p" using s by (simp add: latest_def did_def)
      then show ?thesis using d True by (simp add: answered_for_def in_custody_def in_outbox_def)
    next
      case False
      then have "latest p w" using s by (auto simp: latest_def did_def)
      then have "answered_for p w" using assms(1) by (simp add: inv_def)
      then show ?thesis using d False
        by (simp add: answered_for_def in_custody_def in_outbox_def quarantined_result_def note_over_def)
    qed
    ultimately show ?thesis using Pair Inr assms(1) by (simp add: write_act_def inv_def)
  qed
qed

lemma inv_deliver_first:
  assumes "inv p w" "latest q w"
  shows "inv p (snd (deliver_first http q w))"
proof -
  have q: "get q ''dispatch_id'' = JStr (result_dispatch q)" "wf_json (JObj q)"
    using assms latest_durable by (auto simp: inv_def worker_ok_def storable_def)
  then have "inv p (snd (act_try (deliver_act http (JObj q) (id_text q)) (\<lambda>_. act_bind (remove_delivered q) (\<lambda>_. act_return ()))
      (\<lambda>err. if is_controller_error err then Some (first_failed (id_text q) err) else None) w))"
    by (intro inv_send [OF assms q(1) refl q(2)]) (auto simp: act_return_def split: if_splits intro: inv_first_failed)
  moreover have "act_bind (remove_delivered q) (\<lambda>_. act_return ()) = (remove_delivered q :: ('c, unit) act)"
    by (auto simp: act_bind_def act_return_def fun_eq_iff split: prod.splits sum.splits)
  ultimately show ?thesis by (simp add: deliver_first_def)
qed

lemma inv_write_and_deliver:
  assumes "inv p w" "wf_json (JObj q)" "\<And>w. inv p w \<Longrightarrow> inv p (snd (on_full w))"
  shows "inv p (snd (write_and_deliver http now q on_full w))"
proof (cases "write_act now q w")
  case (Pair r w')
  have i: "inv p w'" using inv_write_act [OF assms(1,2), of now] Pair by simp
  have "latest q w'" if "r = Inr u" for u
    using Pair that by (auto simp: write_act_def latest_def split: prod.splits sum.splits)
  with i Pair assms(3) show ?thesis
    by (cases r) (auto simp: write_and_deliver_def act_try_def intro: inv_deliver_first)
qed

lemma inv_deliver_payload:
  assumes "inv p w" "wf_json (JObj q)"
  shows "inv p (snd (deliver_payload http now q w))"
proof -
  have again: "inv p (snd (write_and_deliver http now q (act_return ()) w))" if "inv p w" for w
    by (rule inv_write_and_deliver [OF that assms(2)]) (simp add: act_return_def)
  have "inv p (snd (act_try (flush_outbox http) (\<lambda>_. write_and_deliver http now q (act_return ()))
      (\<lambda>err. if err = ProcessKilled then None else Some (write_and_deliver http now q (act_return ()))) w))" if "inv p w" for w
  proof (cases "flush_outbox http w")
    case (Pair r w')
    then have "inv p w'" using inv_flush_outbox [OF that] by simp
    with Pair again show ?thesis by (cases r) (auto simp: act_try_def)
  qed
  then show ?thesis
    unfolding deliver_payload_def Let_def by (intro inv_write_and_deliver [OF assms]) simp
qed

end

end
