(* ===== verification/Worker_Spec.thy ===== *)
theory Worker_Spec
  imports Worker_Outbox Events
begin

text \<open>
  From a claim to an execution spec (\<open>resolve_spec\<close> of courier\_worker/service.py, \<open>validate_request\<close> and
  \<open>request_input\<close> of adapter\_bridge.py, \<open>ExecutionSpec\<close> of host.py), and from a finished run to the result
  payload. The adapters' own parameter checks (modules loaded by name) and the paths of the interpreter and
  of the runner script are parameters. Numbers are exact rationals; a NaN or infinite \<open>ttl_s\<close>, which the
  controller never sends, is refused here and accepted by the code.
\<close>

section \<open>Bounds\<close>

definition MAX_TIMEOUT_S_host :: rat where "MAX_TIMEOUT_S_host = 3600"
definition DEFAULT_TIMEOUT_S :: rat where "DEFAULT_TIMEOUT_S = 300"
definition MIN_HEARTBEAT_S :: rat where "MIN_HEARTBEAT_S = 1 / 5"
definition MAX_HEARTBEAT_S :: rat where "MAX_HEARTBEAT_S = 30"
definition MAX_ARGV :: nat where "MAX_ARGV = 256"
definition MAX_ARGV_BYTES :: nat where "MAX_ARGV_BYTES = 64 * 1024"
definition MAX_PARAMS_BYTES :: nat where "MAX_PARAMS_BYTES = 64 * 1024"
definition MAX_INPUT_ARTIFACTS :: nat where "MAX_INPUT_ARTIFACTS = 1000"
definition ADAPTERS :: "string list" where "ADAPTERS = [''synthetic'', ''local_shell'']"
definition REPORT_OUTCOMES :: "string list" where "REPORT_OUTCOMES = [''success'', ''failure'']"

section \<open>Numbers of a claim\<close>

text \<open>The value of a decimal float text.\<close>

definition unsigned_value :: "string \<Rightarrow> rat" where
  "unsigned_value s = (case split_int s of None \<Rightarrow> 0 | Some (ip, r1) \<Rightarrow>
     (let (fr, r2) = split_frac r1; (ex, r3) = split_exp r2; (sg, ds) = split_sign (drop 1 ex);
          m = of_nat (digits_value (ip @ drop 1 fr)) / 10 ^ (length fr - 1); e = digits_value ds in
      if ex = [] then m else if sg = ''-'' then m / 10 ^ e else m * 10 ^ e))"

definition float_value_of :: "string \<Rightarrow> rat" where
  "float_value_of t = (if take 1 t = ''-'' then - unsigned_value (drop 1 t) else unsigned_value t)"

text \<open>\<open>isinstance(v, (int, float))\<close>: a \<open>bool\<close> is an \<open>int\<close>.\<close>

fun number_of :: "json \<Rightarrow> rat option" where
  "number_of (JInt i) = Some (of_int i)"
| "number_of (JBool b) = Some (if b then 1 else 0)"
| "number_of (JFloat t) = Some (float_value_of t)"
| "number_of _ = None"

section \<open>Paths\<close>

definition path_join :: "string \<Rightarrow> string \<Rightarrow> string" where
  "path_join a b = (if take 1 b = ''/'' then b else if a = [] \<or> last a = CHR ''/'' then a @ b else a @ ''/'' @ b)"

text \<open>\<open>s.split("/")\<close>\<close>

fun path_parts :: "string \<Rightarrow> string list" where
  "path_parts [] = [[]]"
| "path_parts (c # cs) = (if c = CHR ''/'' then [] # path_parts cs
     else case path_parts cs of [] \<Rightarrow> [[c]] | p # ps \<Rightarrow> (c # p) # ps)"

fun join_parts :: "string list \<Rightarrow> string" where
  "join_parts [] = []"
| "join_parts [p] = p"
| "join_parts (p # q # ps) = p @ ''/'' @ join_parts (q # ps)"

text \<open>\<open>str.isalnum\<close> below 256: letters, decimal digits, superscript digits and fractions.\<close>

definition is_alnum_latin :: "char \<Rightarrow> bool" where
  "is_alnum_latin c = (let n = char_code c in
     (48 \<le> n \<and> n \<le> 57) \<or> (65 \<le> n \<and> n \<le> 90) \<or> (97 \<le> n \<and> n \<le> 122)
     \<or> n \<in> {170, 178, 179, 181, 185, 186, 188, 189, 190} \<or> (192 \<le> n \<and> n \<noteq> 215 \<and> n \<noteq> 247))"

definition safe_file_stem :: "string \<Rightarrow> string" where
  "safe_file_stem s = (let t = map (\<lambda>c. if is_alnum_latin c \<or> c \<in> set ''-_.'' then c else CHR ''_'') s in if t = [] then ''unnamed'' else t)"

definition request_path :: "string \<Rightarrow> string \<Rightarrow> string" where
  "request_path home did = path_join (path_join (path_join home ''run'') ''requests'') (safe_file_stem did @ ''.json'')"

definition report_path :: "string \<Rightarrow> string \<Rightarrow> string" where
  "report_path home did = path_join (path_join (path_join home ''run'') ''reports'') (safe_file_stem did @ ''.json'')"

section \<open>The environment of a worker\<close>

text \<open>
  \<open>wx_params\<close> is the parameter check of an adapter (\<open>None\<close> if it accepts), \<open>wx_home\<close> an absolute
  normalised path, \<open>wx_heartbeat_s\<close> the configured interval.
\<close>

record worker_env =
  wx_home :: string
  wx_worker_id :: string
  wx_heartbeat_s :: rat
  wx_executable :: string
  wx_runner :: string
  wx_params :: "string \<Rightarrow> payload \<Rightarrow> string option"

definition artifacts_root :: "worker_env \<Rightarrow> string" where
  "artifacts_root x = path_join (wx_home x) ''artifacts''"

definition runner_argv :: "worker_env \<Rightarrow> string \<Rightarrow> string list" where
  "runner_argv x did = [wx_executable x, wx_runner x, request_path (wx_home x) did]"

section \<open>The adapter bridge\<close>

text \<open>\<open>re.match("^[A-Za-z0-9_.:-]{1,200}$", s)\<close>\<close>

definition effect_key_match :: "string \<Rightarrow> bool" where
  "effect_key_match s = (let t = (if s \<noteq> [] \<and> last s = CHR 0x0A then butlast s else s) in
     t \<noteq> [] \<and> length t \<le> 200 \<and> list_all (\<lambda>c. is_dispatch_char c \<or> c = CHR '':'') t)"

text \<open>The adapter, its parameters and the effect key of a claim's spec.\<close>

definition validate_request :: "worker_env \<Rightarrow> json \<Rightarrow> (string \<times> payload \<times> string) result" where
  "validate_request x spec = (case spec of
     JObj s \<Rightarrow>
       (if has_key s ''argv'' then Inl (SpecError ''argv'')
        else case get s ''adapter'' of
          JStr adapter \<Rightarrow>
            (if adapter \<notin> set ADAPTERS then Inl (SpecError ''not allowlisted'')
             else case get s ''params'' of
               JObj params \<Rightarrow>
                 (if \<not> finite_json (JObj params) then Inl (SpecError ''not plain JSON'')
                  else if MAX_PARAMS_BYTES < length (dumps_sorted (JObj params)) then Inl (SpecError ''size bound'')
                  else case wx_params x adapter params of
                    Some why \<Rightarrow> Inl (SpecError why)
                  | None \<Rightarrow> (case get s ''effect_key'' of
                      JStr key \<Rightarrow> (if effect_key_match key then Inr (adapter, params, key) else Inl (SpecError ''effect_key''))
                    | _ \<Rightarrow> Inl (SpecError ''effect_key'')))
             | _ \<Rightarrow> Inl (SpecError ''params''))
        | _ \<Rightarrow> Inl (SpecError ''not allowlisted''))
   | _ \<Rightarrow> Inl (SpecError ''no spec object''))"

definition is_safe_relative_path :: "json \<Rightarrow> bool" where
  "is_safe_relative_path v = (case v of
     JStr s \<Rightarrow> s \<noteq> [] \<and> length s \<le> 1024 \<and> CHR 0x00 \<notin> set s \<and> CHR 0x5C \<notin> set s \<and> hd s \<noteq> CHR ''/'' \<and> CHR '':'' \<notin> set s
       \<and> list_all (\<lambda>p. p \<notin> {[], ''.'', ''..''}) (path_parts s)
   | _ \<Rightarrow> False)"

definition input_artifact :: "json \<Rightarrow> json option" where
  "input_artifact v = (case v of
     JObj r \<Rightarrow> (if is_safe_relative_path (get r ''path'') \<and> (case get r ''sha256'' of JStr h \<Rightarrow> sha256_hex_match h | _ \<Rightarrow> False)
        then Some (JObj [(''path'', get r ''path''), (''sha256'', get r ''sha256'')]) else None)
   | _ \<Rightarrow> None)"

fun all_some :: "'a option list \<Rightarrow> 'a list option" where
  "all_some [] = Some []"
| "all_some (None # xs) = None"
| "all_some (Some x # xs) = map_option (Cons x) (all_some xs)"

definition request_input :: "payload \<Rightarrow> json option result" where
  "request_input spec = (case get spec ''input'' of
     JNull \<Rightarrow> Inr None
   | JObj v \<Rightarrow>
       (if set (map fst v) \<noteq> {''task_id'', ''dispatch_id'', ''result_id'', ''artifacts''} then Inl (SpecError ''input is malformed'')
        else if \<not> list_all (\<lambda>n. json_id (get v n)) [''task_id'', ''dispatch_id'', ''result_id''] then Inl (SpecError ''input id'')
        else case get v ''artifacts'' of
          JList xs \<Rightarrow>
            (if xs = [] \<or> MAX_INPUT_ARTIFACTS < length xs then Inl (SpecError ''input names no artifact'')
             else case all_some (map input_artifact xs) of
               None \<Rightarrow> Inl (SpecError ''input artifact'')
             | Some clean \<Rightarrow> Inr (Some (JObj [(''task_id'', get v ''task_id''), (''dispatch_id'', get v ''dispatch_id''),
                 (''result_id'', get v ''result_id''), (''artifacts'', JList clean)])))
        | _ \<Rightarrow> Inl (SpecError ''input names no artifact''))
   | _ \<Rightarrow> Inl (SpecError ''input is malformed''))"

section \<open>Execution specs\<close>

record exec_spec =
  e_task_id :: string
  e_attempt :: int
  e_dispatch_id :: string
  e_worker_id :: string
  e_result_id :: string
  e_argv :: "string list"
  e_timeout_s :: rat
  e_lease_ttl_s :: rat
  e_artifact_dir :: string
  e_heartbeat_s :: rat
  e_adapter :: "string option"
  e_params :: payload
  e_effect_key :: "string option"
  e_effect_class :: json
  e_input :: "json option"

text \<open>One of the four identifiers.\<close>

definition check_spec_id :: "string \<Rightarrow> string \<Rightarrow> error option" where
  "check_spec_id name s = first_error [
     require (s \<noteq> [] \<and> length s \<le> 200) (SpecError name),
     require (safe_match s \<and> \<not> str_contains s ''..'' \<and> CHR ''/'' \<notin> set s \<and> CHR 0x5C \<notin> set s) (SpecError name)]"

definition check_spec :: "exec_spec \<Rightarrow> error option" where
  "check_spec e = first_error [
     check_spec_id ''task_id'' (e_task_id e), check_spec_id ''dispatch_id'' (e_dispatch_id e),
     check_spec_id ''worker_id'' (e_worker_id e), check_spec_id ''result_id'' (e_result_id e),
     require (1 \<le> e_attempt e) (SpecError ''attempt''),
     require (e_argv e \<noteq> [] \<and> length (e_argv e) \<le> MAX_ARGV) (SpecError ''argv''),
     require ([] \<notin> set (e_argv e)) (SpecError ''argv entries''),
     require (sum_list (map length (e_argv e)) \<le> MAX_ARGV_BYTES) (SpecError ''argv size''),
     require (0 < e_timeout_s e \<and> e_timeout_s e \<le> MAX_TIMEOUT_S_host) (SpecError ''timeout_s''),
     require (1 \<le> e_lease_ttl_s e) (SpecError ''lease_ttl_s''),
     require (MIN_HEARTBEAT_S \<le> e_heartbeat_s e \<and> e_heartbeat_s e \<le> MAX_HEARTBEAT_S) (SpecError ''heartbeat_s''),
     require (e_artifact_dir e \<noteq> []) (SpecError ''artifact_dir'')]"

definition make_spec :: "exec_spec \<Rightarrow> exec_spec result" where
  "make_spec e = (case check_spec e of None \<Rightarrow> Inr e | Some err \<Rightarrow> Inl err)"

text \<open>\<open>timeout_s = spec.get("timeout_s") or DEFAULT_TIMEOUT_S\<close>, in bounds.\<close>

definition claim_timeout :: "payload \<Rightarrow> rat option" where
  "claim_timeout spec = (case (if truthy (get spec ''timeout_s'') then number_of (get spec ''timeout_s'') else Some DEFAULT_TIMEOUT_S) of
     Some t \<Rightarrow> (if 0 < t \<and> t \<le> MAX_TIMEOUT_S_host then Some t else None) | None \<Rightarrow> None)"

definition claim_heartbeat :: "worker_env \<Rightarrow> payload \<Rightarrow> rat" where
  "claim_heartbeat x claim = (case number_of (get claim ''heartbeat_s'') of
     Some h \<Rightarrow> (if 0 < h then min (wx_heartbeat_s x) h else wx_heartbeat_s x) | None \<Rightarrow> wx_heartbeat_s x)"

definition resolve_spec :: "worker_env \<Rightarrow> payload \<Rightarrow> exec_spec result" where
  "resolve_spec x claim = (case get claim ''task_id'' of
     JStr tid \<Rightarrow> if tid = [] then Inl (SpecError ''task_id'') else (case get claim ''dispatch_id'' of
     JStr did \<Rightarrow> if did = [] then Inl (SpecError ''dispatch_id'') else (case get claim ''attempt'' of
     JInt att \<Rightarrow> if att < 1 then Inl (SpecError ''attempt'') else (case number_of (get claim ''ttl_s'') of
     Some ttl \<Rightarrow> if ttl < 1 then Inl (SpecError ''ttl_s'') else
       bind_result (validate_request x (get claim ''spec'')) (\<lambda>(adapter, params, key).
       (case get claim ''spec'' of JObj spec \<Rightarrow>
         bind_result (request_input spec) (\<lambda>bound.
         (case claim_timeout spec of
            None \<Rightarrow> Inl (SpecError ''timeout_s'')
          | Some timeout \<Rightarrow>
              (if 200 < length (''r-'' @ did) then Inl (SpecError ''result_id'')
               else make_spec \<lparr>e_task_id = tid, e_attempt = att, e_dispatch_id = did, e_worker_id = wx_worker_id x,
                 e_result_id = ''r-'' @ did, e_argv = runner_argv x did, e_timeout_s = timeout, e_lease_ttl_s = ttl,
                 e_artifact_dir = path_join (artifacts_root x) did, e_heartbeat_s = claim_heartbeat x claim,
                 e_adapter = Some adapter, e_params = params, e_effect_key = Some key,
                 e_effect_class = get spec ''effect_class'', e_input = bound\<rparr>)))
        | _ \<Rightarrow> Inl (SpecError ''no spec object'')))
     | None \<Rightarrow> Inl (SpecError ''ttl_s''))
     | _ \<Rightarrow> Inl (SpecError ''attempt''))
     | _ \<Rightarrow> Inl (SpecError ''dispatch_id''))
     | _ \<Rightarrow> Inl (SpecError ''task_id''))"

section \<open>Results of a run\<close>

datatype run_outcome = Completed | Crash | Timeout | Cancelled | LeaseLost

fun outcome_text :: "run_outcome \<Rightarrow> string" where
  "outcome_text Completed = ''completed''"
| "outcome_text Crash = ''crash''"
| "outcome_text Timeout = ''timeout''"
| "outcome_text Cancelled = ''cancelled''"
| "outcome_text LeaseLost = ''lease-lost''"

record exec_result =
  x_spec :: exec_spec
  x_outcome :: run_outcome
  x_returncode :: "int option"
  x_was_signal :: bool
  x_artifacts :: "(string \<times> string) list"
  x_crash_report :: bool
  x_duration_s :: rat
  x_wakes :: nat

definition l2_outcome :: "exec_result \<Rightarrow> string" where
  "l2_outcome r = (if x_outcome r = Completed then ''success'' else ''failure'')"

definition result_retryable :: "exec_result \<Rightarrow> bool" where
  "result_retryable r \<longleftrightarrow> e_effect_class (x_spec r) = JStr ''idempotent'' \<and> x_outcome r \<in> {Timeout, LeaseLost}"

text \<open>\<open>artifacts/<dispatch>/\<close> for a directory inside home.\<close>

definition artifact_prefix :: "string \<Rightarrow> string \<Rightarrow> string" where
  "artifact_prefix dir home = (if startswith dir (home @ ''/'')
     then (case filter (\<lambda>p. p \<notin> {[], ''.''}) (path_parts (drop (length home + 1) dir)) of
       [] \<Rightarrow> [] | ps \<Rightarrow> join_parts ps @ ''/'') else [])"

text \<open>\<open>json.load\<close> of the report file (\<open>None\<close>: no readable file) and the checks of \<open>read_report\<close>;
  a list or an object as outcome is not hashable.\<close>

definition read_report :: "string option \<Rightarrow> payload option result" where
  "read_report file = (case file of None \<Rightarrow> Inr None | Some text \<Rightarrow> (case loads text of
     Inr (JObj r) \<Rightarrow> bind_result (in_str_set (get r ''outcome'') REPORT_OUTCOMES) (\<lambda>known.
        Inr (if known \<and> (has_key r ''retryable'' \<longrightarrow> is_bool (get r ''retryable'')) then Some r else None))
   | _ \<Rightarrow> Inr None))"

text \<open>Outcome, retryability and reason as reported to the controller.\<close>

definition judged :: "exec_result \<Rightarrow> payload option \<Rightarrow> string \<times> bool \<times> string" where
  "judged r report =
     (if l2_outcome r \<noteq> ''success'' then (l2_outcome r, result_retryable r, ''worker outcome: '' @ outcome_text (x_outcome r))
      else if e_adapter (x_spec r) = None then (''success'', result_retryable r, [])
      else case report of
        None \<Rightarrow> (''failure'', False, ''adapter runner produced no structured result'')
      | Some rep \<Rightarrow> (if get rep ''outcome'' \<noteq> JStr ''success''
          then (''failure'', truthy (get rep ''retryable''),
            take 500 (if truthy (get rep ''reason'') then py_str (get rep ''reason'') else ''adapter reported failure''))
          else (''success'', result_retryable r, [])))"

definition build_result_payload :: "exec_result \<Rightarrow> payload option \<Rightarrow> string \<Rightarrow> payload" where
  "build_result_payload r report home = (case judged r report of (out, retryable, reason) \<Rightarrow>
     [(''dispatch_id'', JStr (e_dispatch_id (x_spec r))), (''result_id'', JStr (e_result_id (x_spec r))),
      (''artifacts'', JList (map (\<lambda>(p, h). JObj [(''path'', JStr (artifact_prefix (e_artifact_dir (x_spec r)) home @ p)),
         (''sha256'', JStr h)]) (x_artifacts r))),
      (''outcome'', JStr out)]
     @ (if out = ''success'' then [] else (''retryable'', JBool retryable) # (if reason = [] then [] else [(''reason'', JStr reason)])))"

definition build_spec_failure_payload :: "string \<Rightarrow> string \<Rightarrow> string \<Rightarrow> payload" where
  "build_spec_failure_payload did rid reason = [(''dispatch_id'', JStr did), (''result_id'', JStr rid),
     (''artifacts'', JList []), (''outcome'', JStr ''failure''), (''retryable'', JBool False), (''reason'', JStr reason)]"

end
