(* ===== verification/Worker_Run.thy ===== *)
theory Worker_Run
  imports Worker_Spec Complex_Main
begin

text \<open>
  The bounded execution of one dispatch (courier\_worker/host.py): \<open>WorkerHost._wait\<close> with its clock
  readings and wait results as an environment, the collection of artifacts, and \<open>run_once\<close>. The loop is a
  \<open>partial_function\<close>: that it ends is a theorem, about clocks that do not run backwards and waits that
  last as long as they were asked to.
\<close>

section \<open>The environment of the wait loop\<close>

text \<open>
  One round: whether the watcher or the stop event calls for the end, whether a stdio file is over its
  limit before and after the wait, what \<open>wait(timeout)\<close> answers and how long it takes (\<open>None\<close>: the timeout
  passed), how long the heartbeat and the way back to the top of the loop take, and the return code polled
  after the tree was terminated.
\<close>

record round =
  r_watch :: bool
  r_stop :: bool
  r_overflow :: bool
  r_wait :: "rat \<Rightarrow> int option \<times> rat"
  r_overflow_after :: bool
  r_beat_s :: rat
  r_gap_s :: rat
  r_poll :: "int option"

record ended =
  en_outcome :: run_outcome
  en_returncode :: "int option"
  en_wakes :: nat
  en_overflow :: bool
  en_clock :: rat

definition quantum :: "exec_spec \<Rightarrow> rat" where
  "quantum e = min (e_heartbeat_s e) 1"

definition nonzero_code :: "int option \<Rightarrow> int option" where
  "nonzero_code rc = (case rc of None \<Rightarrow> Some 1 | Some n \<Rightarrow> Some (if n = 0 then 1 else n))"

text \<open>
  \<open>stopped\<close> and \<open>beat\<close> are the callbacks of \<open>run_once\<close>: whether to stop, given what the round saw, and the
  heartbeat, which answers whether the lease is extended (\<open>is not False\<close>) or raises. An exception of the
  heartbeat is ignored, the end of the process is not.
\<close>

partial_function (option) wait_loop ::
  "exec_spec \<Rightarrow> (nat \<Rightarrow> round) \<Rightarrow> (round \<Rightarrow> 's \<Rightarrow> bool) \<Rightarrow> ('s \<Rightarrow> bool result \<times> 's) \<Rightarrow> rat \<Rightarrow> nat \<Rightarrow> rat \<Rightarrow> rat \<Rightarrow> nat \<Rightarrow> 's
   \<Rightarrow> (ended result \<times> 's) option" where
  "wait_loop e rd stopped beat timeout_at k now lease_at wakes s =
     (let r = rd k; remaining = min timeout_at lease_at - now in
      if remaining \<le> 0 then
        Some (Inr \<lparr>en_outcome = (if timeout_at \<le> lease_at then Timeout else LeaseLost), en_returncode = r_poll r,
          en_wakes = wakes, en_overflow = False, en_clock = now\<rparr>, s)
      else if stopped r s then
        Some (Inr \<lparr>en_outcome = Cancelled, en_returncode = r_poll r, en_wakes = wakes, en_overflow = False, en_clock = now\<rparr>, s)
      else if r_overflow r then
        Some (Inr \<lparr>en_outcome = Crash, en_returncode = nonzero_code (r_poll r), en_wakes = wakes, en_overflow = True, en_clock = now\<rparr>, s)
      else (case r_wait r (min (quantum e) remaining) of
        (Some rc, took) \<Rightarrow> Some (Inr (if r_overflow_after r
          then \<lparr>en_outcome = Crash, en_returncode = nonzero_code (Some rc), en_wakes = Suc wakes, en_overflow = True,
                en_clock = now + took\<rparr>
          else \<lparr>en_outcome = (if rc = 0 then Completed else Crash), en_returncode = Some rc, en_wakes = Suc wakes,
                en_overflow = False, en_clock = now + took\<rparr>), s)
      | (None, took) \<Rightarrow> (case beat s of (b, s') \<Rightarrow>
          if b = Inl ProcessKilled then Some (Inl ProcessKilled, s')
          else wait_loop e rd stopped beat timeout_at (Suc k) (now + took + r_beat_s r + r_gap_s r)
            (if b = Inr True then now + took + r_beat_s r + e_lease_ttl_s e else lease_at) (Suc wakes) s')))"

declare wait_loop.simps [code]

section \<open>The loop ends\<close>

text \<open>The clock does not run backwards, and a wait that timed out lasted at least as long as asked.\<close>

definition honest_round :: "round \<Rightarrow> bool" where
  "honest_round r \<longleftrightarrow> 0 \<le> r_beat_s r \<and> 0 \<le> r_gap_s r
     \<and> (\<forall>t. 0 \<le> snd (r_wait r t) \<and> (fst (r_wait r t) = None \<longrightarrow> t \<le> snd (r_wait r t)))"

definition wakes_at_most :: "nat \<Rightarrow> (ended result \<times> 's) option \<Rightarrow> bool" where
  "wakes_at_most n res \<longleftrightarrow> (\<exists>r s. res = Some (r, s) \<and> (\<forall>en. r = Inr en \<longrightarrow> en_wakes en \<le> n))"

lemma wakes_at_most_mono: "wakes_at_most m res \<Longrightarrow> m \<le> n \<Longrightarrow> wakes_at_most n res"
  by (fastforce simp: wakes_at_most_def)

text \<open>A round ends the loop with at most one more wake, or goes on later, with the old lease or a new one.\<close>

lemma round_cases:
  assumes "honest_round (rd k)" "1 \<le> e_lease_ttl_s e" "0 < quantum e" "now < min timeout_at lease_at"
  obtains (ended) "wakes_at_most (Suc wakes) (wait_loop e rd stopped beat timeout_at k now lease_at wakes s)"
  | (again) now' lease' s' where
      "wait_loop e rd stopped beat timeout_at k now lease_at wakes s
         = wait_loop e rd stopped beat timeout_at (Suc k) now' lease' (Suc wakes) s'"
      "now + min (quantum e) (min timeout_at lease_at - now) \<le> now'"
      "lease' = lease_at \<or> now + 1 \<le> lease'"
proof -
  let ?t = "min (quantum e) (min timeout_at lease_at - now)"
  obtain rc took where w: "r_wait (rd k) ?t = (rc, took)" by fastforce
  obtain b s' where b: "beat s = (b, s')" by fastforce
  have h: "0 \<le> took" "rc = None \<longrightarrow> ?t \<le> took" "0 \<le> r_beat_s (rd k)" "0 \<le> r_gap_s (rd k)"
    using assms(1) w unfolding honest_round_def by (metis fst_conv snd_conv)+
  show thesis
  proof (cases "stopped (rd k) s \<or> r_overflow (rd k) \<or> rc \<noteq> None \<or> b = Inl ProcessKilled")
    case True
    then show ?thesis
      using w b assms(4) by (intro ended) (auto simp: wakes_at_most_def wait_loop.simps [of e rd] Let_def split: option.split)
  next
    case False
    show ?thesis
    proof (rule again)
      show "wait_loop e rd stopped beat timeout_at k now lease_at wakes s
         = wait_loop e rd stopped beat timeout_at (Suc k) (now + took + r_beat_s (rd k) + r_gap_s (rd k))
             (if b = Inr True then now + took + r_beat_s (rd k) + e_lease_ttl_s e else lease_at) (Suc wakes) s'"
        using False w b assms(4) by (subst wait_loop.simps) (simp add: Let_def)
      show "now + ?t \<le> now + took + r_beat_s (rd k) + r_gap_s (rd k)" using False h by simp
      show "(if b = Inr True then now + took + r_beat_s (rd k) + e_lease_ttl_s e else lease_at) = lease_at
        \<or> now + 1 \<le> (if b = Inr True then now + took + r_beat_s (rd k) + e_lease_ttl_s e else lease_at)"
        using h assms(2) by simp
    qed
  qed
qed

lemma wait_over:
  "min timeout_at lease_at \<le> now \<Longrightarrow> wakes_at_most wakes (wait_loop e rd stopped beat timeout_at k now lease_at wakes s)"
  by (subst wait_loop.simps) (simp add: wakes_at_most_def)

lemma wait_loop_bound:
  assumes "\<And>k. honest_round (rd k)" "1 \<le> e_lease_ttl_s e" "0 < quantum e"
    and "timeout_at - now \<le> of_nat n * quantum e"
  shows "wakes_at_most (wakes + 2 * n) (wait_loop e rd stopped beat timeout_at k now lease_at wakes s)"
  using assms(4)
proof (induction n arbitrary: k now lease_at wakes s)
  case 0
  then show ?case using wait_over [of timeout_at lease_at now] by (simp add: min_le_iff_disj)
next
  case (Suc n)
  have q: "quantum e \<le> 1" "of_nat (Suc n) * quantum e = of_nat n * quantum e + quantum e"
    by (simp_all add: quantum_def algebra_simps)
  have nq: "0 \<le> of_nat n * quantum e" using assms(3) by simp
  show ?case
  proof (cases "min timeout_at lease_at \<le> now")
    case True
    then show ?thesis by (intro wakes_at_most_mono [OF wait_over]) simp_all
  next
    case False
    from False have n0: "now < min timeout_at lease_at" by (simp add: not_le)
    show ?thesis
    proof (rule round_cases [where rd = rd and k = k and wakes = wakes and stopped = stopped and beat = beat and s = s,
          OF assms(1-3) n0], goal_cases ended again)
      case ended
      then show ?thesis by (rule wakes_at_most_mono) simp
    next
      case (again now1 lease1 s1)
      show ?thesis
      proof (cases "timeout_at - now1 \<le> of_nat n * quantum e")
        case True
        from Suc.IH [OF this, of "Suc wakes"] show ?thesis unfolding again(1) by (rule wakes_at_most_mono) simp
      next
        case short: False
        then have later: "now1 < now + quantum e" using Suc.prems q(2) by linarith
        then have l: "lease_at \<le> now1" "lease_at < timeout_at" using again(2) short nq by (auto simp: min_def split: if_splits)
        show ?thesis
        proof (cases "min timeout_at lease1 \<le> now1")
          case True
          from wait_over [OF this, of "Suc wakes"] show ?thesis
            unfolding again(1) by (rule wakes_at_most_mono) simp
        next
          case False
          then have n1: "now1 < min timeout_at lease1" by (simp add: not_le)
          then have "now + 1 \<le> lease1" using again(3) l(1) by auto
          show ?thesis
          proof (rule round_cases [where rd = rd and k = "Suc k" and wakes = "Suc wakes" and stopped = stopped and beat = beat
                and s = s1, OF assms(1-3) n1], goal_cases ended again)
            case ended
            then show ?thesis unfolding again(1) by (rule wakes_at_most_mono) simp
          next
            case second: (again now2 lease2 s2)
            have "now \<le> now1" using again(2) assms(3) n0 by (auto simp: min_def split: if_splits)
            then have "timeout_at \<le> now2 \<or> now + quantum e \<le> now2"
              using second(2) \<open>now + 1 \<le> lease1\<close> q(1) by (auto simp: min_def split: if_splits)
            then have "timeout_at - now2 \<le> of_nat n * quantum e" using Suc.prems q(2) nq by auto
            from Suc.IH [OF this, of "Suc (Suc wakes)"] show ?thesis
              unfolding again(1) second(1) by (rule wakes_at_most_mono) simp
          qed
        qed
      qed
    qed
  qed
qed

section \<open>Artifacts\<close>

definition MAX_ARTIFACTS_host :: nat where "MAX_ARTIFACTS_host = 64"
definition MAX_ARTIFACT_BYTES :: nat where "MAX_ARTIFACT_BYTES = 16 * 1024 * 1024"

text \<open>
  A directory as \<open>os.walk\<close> finds it: files with whether they resolve inside the root, their size (\<open>None\<close>:
  it cannot be read) and SHA-256, and subdirectories with whether they resolve inside the root and whether
  they are symbolic links.
\<close>

record fs_file =
  fs_name :: string
  fs_inside :: bool
  fs_size :: "nat option"
  fs_sha :: string

datatype fs_dir = Dir "fs_file list" "(string \<times> bool \<times> bool \<times> fs_dir) list"

text \<open>
  \<open>os.walk\<close> top down: the files of a directory by name, then its subdirectories that do not escape.
  \<open>followlinks\<close> is false: a link to a directory is listed but not entered, wherever it leads.
\<close>

fun walk :: "string \<Rightarrow> fs_dir \<Rightarrow> (string \<times> fs_file) list" where
  "walk pre (Dir files dirs) = map (\<lambda>f. (pre @ fs_name f, f)) (sort_key fs_name files)
     @ concat (map (\<lambda>(n, inside, link, d). if inside \<and> \<not> link then walk (pre @ n @ ''/'') d else []) dirs)"

fun collect_loop :: "(string \<times> fs_file) list \<Rightarrow> (string \<times> string) list \<Rightarrow> nat \<Rightarrow> (string \<times> string) list result" where
  "collect_loop [] found used = Inr found"
| "collect_loop ((rel, f) # fs) found used =
     (if \<not> fs_inside f then collect_loop fs found used
      else case fs_size f of
        None \<Rightarrow> collect_loop fs found used
      | Some n \<Rightarrow>
          (if MAX_ARTIFACTS_host \<le> length found \<or> MAX_ARTIFACT_BYTES < used + n
           then Inl (ContainmentError ''artifact set exceeds bounds'')
           else collect_loop fs (found @ [(rel, fs_sha f)]) (used + n)))"

definition collect_artifacts :: "fs_dir \<Rightarrow> (string \<times> string) list result" where
  "collect_artifacts d = collect_loop (walk [] d) [] 0"

definition countable_files :: "fs_dir \<Rightarrow> (string \<times> fs_file) list" where
  "countable_files d = filter (\<lambda>(rel, f). fs_inside f \<and> fs_size f \<noteq> None) (walk [] d)"

lemma collect_loop_Inr:
  "collect_loop fs found used = Inr arts \<Longrightarrow> length found \<le> MAX_ARTIFACTS_host \<Longrightarrow> used \<le> MAX_ARTIFACT_BYTES \<Longrightarrow>
   arts = found @ map (\<lambda>(rel, f). (rel, fs_sha f)) (filter (\<lambda>(rel, f). fs_inside f \<and> fs_size f \<noteq> None) fs)
   \<and> length arts \<le> MAX_ARTIFACTS_host
   \<and> used + sum_list (map (\<lambda>(rel, f). the (fs_size f)) (filter (\<lambda>(rel, f). fs_inside f \<and> fs_size f \<noteq> None) fs)) \<le> MAX_ARTIFACT_BYTES"
  by (induction fs found used rule: collect_loop.induct) (auto split: if_splits option.splits)

lemma collect_artifacts_Inr:
  assumes "collect_artifacts d = Inr arts"
  shows "arts = map (\<lambda>(rel, f). (rel, fs_sha f)) (countable_files d)" "length arts \<le> MAX_ARTIFACTS_host"
    "sum_list (map (\<lambda>(rel, f). the (fs_size f)) (countable_files d)) \<le> MAX_ARTIFACT_BYTES"
proof -
  have *: "collect_loop (walk [] d) [] 0 = Inr arts" using assms by (simp add: collect_artifacts_def)
  note c = collect_loop_Inr [OF *, folded countable_files_def, simplified]
  show "arts = map (\<lambda>(rel, f). (rel, fs_sha f)) (countable_files d)" "length arts \<le> MAX_ARTIFACTS_host"
    "sum_list (map (\<lambda>(rel, f). the (fs_size f)) (countable_files d)) \<le> MAX_ARTIFACT_BYTES"
    using c by blast+
qed

text \<open>
  The end of \<open>_wait\<close>: an artifact set out of bounds turns the run into a crash without artifacts. The
  listing is the directory when it is collected, the crash report of an abnormal end included.
\<close>

definition finish_run :: "exec_spec \<Rightarrow> rat \<Rightarrow> ended \<Rightarrow> fs_dir \<Rightarrow> exec_result" where
  "finish_run e start en files = (let
     (out, arts, rc) = (case collect_artifacts files of
        Inr a \<Rightarrow> (en_outcome en, a, en_returncode en)
      | Inl _ \<Rightarrow> (Crash, [], nonzero_code (en_returncode en))) in
     \<lparr>x_spec = e, x_outcome = out, x_returncode = rc, x_was_signal = (case rc of None \<Rightarrow> False | Some n \<Rightarrow> n < 0),
      x_artifacts = arts, x_crash_report = (out \<noteq> Completed), x_duration_s = en_clock en - start, x_wakes = en_wakes en\<rparr>)"

section \<open>One bounded run\<close>

lemma make_spec_ok:
  assumes "make_spec e = Inr e'"
  shows "e' = e" "safe_dispatch_id (e_dispatch_id e)" "safe_dispatch_id (e_task_id e)" "length (e_dispatch_id e) \<le> 200"
    "0 < e_timeout_s e" "e_timeout_s e \<le> 3600" "1 \<le> e_lease_ttl_s e" "1 / 5 \<le> quantum e"
  using assms
  by (auto simp: make_spec_def check_spec_def check_spec_id_def check_simps safe_dispatch_id_def quantum_def
      MAX_TIMEOUT_S_host_def MIN_HEARTBEAT_S_def split: option.splits)

end
