(* ===== verification/Worker_Service.thy ===== *)
theory Worker_Service
  imports Worker_Delivery Worker_Run
begin

text \<open>
  The worker's loop (\<open>WorkerLoop\<close> of courier\_worker/service.py with \<open>WorkerHost\<close> of host.py): one
  \<open>iterate\<close> flushes the outbox, claims, starts, runs and delivers. What the operating system, the
  child process and the event stream do in one iteration is its environment \<open>iteration\<close>.
\<close>

section \<open>State\<close>

text \<open>\<open>dispatch-<id>.json\<close>: the process that owns the tree and the child's process group.\<close>

record claim_record =
  clm_dispatch_id :: string
  clm_owner_pid :: int
  clm_child_pid :: int

text \<open>
  \<open>hs_claims\<close> are the files of \<open>run/claims/\<close>, \<open>hs_requests\<close> those of \<open>run/requests/\<close>. \<open>hs_cancelled\<close> is the
  flag of the watcher of the running dispatch. \<open>hs_spawned\<close> is a history: the argument vectors of the
  processes started.
\<close>

record 'c host =
  hs_world :: "'c world"
  hs_active :: "string option"
  hs_claims :: "(string \<times> claim_record) list"
  hs_requests :: "(string \<times> json) list"
  hs_cancelled :: bool
  hs_resource :: string
  hs_cooldown :: rat
  hs_spawned :: "string list list"

record iteration =
  it_time :: rat
  it_pressure :: "string option"
  it_pressure_run :: "string option"
  it_spawn_error :: "error option"
  it_owner_pid :: int
  it_child_pid :: int
  it_start :: rat
  it_begin :: rat
  it_rounds :: "nat \<Rightarrow> round"
  it_watched :: bool
  it_files :: fs_dir
  it_report :: "string option"

definition new_host :: "'c \<Rightarrow> 'c host" where
  "new_host c = \<lparr>hs_world = \<lparr>w_disk = empty_disk, w_attempts = [], w_durable = [], w_far = c\<rparr>, hs_active = None, hs_claims = [],
     hs_requests = [], hs_cancelled = False, hs_resource = ''NORMAL'', hs_cooldown = 0, hs_spawned = []\<rparr>"

text \<open>A step may raise, and may not end (\<open>None\<close>) if the wait loop does not.\<close>

type_synonym ('c, 'a) step = "'c host \<Rightarrow> ('a result \<times> 'c host) option"

definition hs_return :: "'a \<Rightarrow> ('c, 'a) step" where
  "hs_return x = (\<lambda>h. Some (Inr x, h))"

definition hs_raise :: "error \<Rightarrow> ('c, 'a) step" where
  "hs_raise err = (\<lambda>h. Some (Inl err, h))"

definition hs_try :: "('c, 'a) step \<Rightarrow> ('a \<Rightarrow> ('c, 'b) step) \<Rightarrow> (error \<Rightarrow> ('c, 'b) step option) \<Rightarrow> ('c, 'b) step" where
  "hs_try m k f = (\<lambda>h. case m h of None \<Rightarrow> None
     | Some (Inr x, h') \<Rightarrow> k x h'
     | Some (Inl err, h') \<Rightarrow> (case f err of None \<Rightarrow> Some (Inl err, h') | Some a \<Rightarrow> a h'))"

definition hs_bind :: "('c, 'a) step \<Rightarrow> ('a \<Rightarrow> ('c, 'b) step) \<Rightarrow> ('c, 'b) step" where
  "hs_bind m k = hs_try m k (\<lambda>_. None)"

definition hs_get :: "('c host \<Rightarrow> 'a) \<Rightarrow> ('c, 'a) step" where
  "hs_get f = (\<lambda>h. Some (Inr (f h), h))"

definition hs_modify :: "('c host \<Rightarrow> 'c host) \<Rightarrow> ('c, unit) step" where
  "hs_modify f = (\<lambda>h. Some (Inr (), f h))"

definition on_world :: "('c, 'a) act \<Rightarrow> ('c, 'a) step" where
  "on_world m = (\<lambda>h. case m (hs_world h) of (r, w) \<Rightarrow> Some (r, h\<lparr>hs_world := w\<rparr>))"

definition on_far :: "('c \<Rightarrow> 'a result \<times> 'c) \<Rightarrow> ('c, 'a) step" where
  "on_far f = on_world (act_far f)"

section \<open>Requests to the adapter runner\<close>

definition request_json :: "worker_env \<Rightarrow> exec_spec \<Rightarrow> json" where
  "request_json x e = JObj ([(''adapter'', opt_str (e_adapter e)), (''params'', JObj (e_params e)), (''attempt'', JInt (e_attempt e)),
     (''task_id'', JStr (e_task_id e)), (''dispatch_id'', JStr (e_dispatch_id e)), (''effect_key'', opt_str (e_effect_key e)),
     (''workdir'', JStr (e_artifact_dir e)), (''report'', JStr (report_path (wx_home x) (e_dispatch_id e)))]
     @ (case e_input e of None \<Rightarrow> [] | Some v \<Rightarrow> [(''input'', v), (''home'', JStr (wx_home x))]))"

definition write_request :: "worker_env \<Rightarrow> exec_spec \<Rightarrow> ('c, unit) step" where
  "write_request x e = hs_modify (\<lambda>h. h\<lparr>hs_requests :=
     AList.update (request_path (wx_home x) (e_dispatch_id e)) (request_json x e) (hs_requests h)\<rparr>)"

definition cleanup :: "worker_env \<Rightarrow> string \<Rightarrow> ('c, unit) step" where
  "cleanup x did = hs_modify (\<lambda>h. h\<lparr>hs_requests := AList.delete (request_path (wx_home x) did) (hs_requests h)\<rparr>)"

section \<open>Heartbeats and the run\<close>

text \<open>\<open>did in payload.get(key, [])\<close>\<close>

definition names_dispatch :: "string \<Rightarrow> payload \<Rightarrow> string \<Rightarrow> bool result" where
  "names_dispatch did p key = (if \<not> has_key p key then Inr False else case get p key of
     JList xs \<Rightarrow> Inr (JStr did \<in> set xs)
   | JStr s \<Rightarrow> Inr (str_contains s did)
   | JObj kvs \<Rightarrow> Inr (has_key kvs did)
   | _ \<Rightarrow> Inl (TypeError ''not iterable''))"

definition stop_named :: "string \<Rightarrow> json \<Rightarrow> bool result" where
  "stop_named did v = (case v of
     JObj p \<Rightarrow> bind_result (names_dispatch did p ''cancel'') (\<lambda>b. if b then Inr True else names_dispatch did p ''stop'')
   | _ \<Rightarrow> Inl (AttributeError ''get''))"

definition send_heartbeat :: "'c http \<Rightarrow> worker_env \<Rightarrow> string \<Rightarrow> 'c host \<Rightarrow> bool result \<times> 'c host" where
  "send_heartbeat http x did h = (case client_heartbeat http (wx_worker_id x) [did] (hs_resource h) (w_far (hs_world h)) of (r, c) \<Rightarrow>
     (let h' = h\<lparr>hs_world := (hs_world h)\<lparr>w_far := c\<rparr>\<rparr> in case r of
        Inl err \<Rightarrow> (Inl err, h')
      | Inr v \<Rightarrow> (case stop_named did v of
          Inl err \<Rightarrow> (Inl err, h')
        | Inr b \<Rightarrow> (Inr True, if b then h'\<lparr>hs_cancelled := True\<rparr> else h'))))"

text \<open>\<open>watcher.cancelled() or stop.is_set()\<close>\<close>

definition run_stopped :: "round \<Rightarrow> 'c host \<Rightarrow> bool" where
  "run_stopped r h \<longleftrightarrow> r_watch r \<or> hs_cancelled h \<or> r_stop r"

text \<open>
  \<open>WorkerHost.run_once\<close>: the \<open>finally\<close> clause terminates the tree, clears the owner and removes the
  claim record; when the process dies in the loop it does not run and the record stays.
\<close>

definition run_once :: "'c http \<Rightarrow> worker_env \<Rightarrow> iteration \<Rightarrow> exec_spec \<Rightarrow> ('c, exec_result) step" where
  "run_once http x it e = (\<lambda>h.
     if hs_active h \<noteq> None then Some (Inl HostBusy, h)
     else case it_pressure_run it of Some reason \<Rightarrow> Some (Inl (ResourcePaused reason), h)
     | None \<Rightarrow> (case it_spawn_error it of Some err \<Rightarrow> Some (Inl err, h)
     | None \<Rightarrow>
        (let stem = safe_file_stem (e_dispatch_id e);
             h1 = h\<lparr>hs_active := Some (e_dispatch_id e), hs_spawned := hs_spawned h @ [e_argv e],
                    hs_claims := AList.update stem \<lparr>clm_dispatch_id = e_dispatch_id e, clm_owner_pid = it_owner_pid it,
                      clm_child_pid = it_child_pid it\<rparr> (hs_claims h)\<rparr> in
         case wait_loop e (it_rounds it) run_stopped (send_heartbeat http x (e_dispatch_id e)) (it_start it + e_timeout_s e) 0
                (it_begin it) (it_start it + e_lease_ttl_s e) 0 h1 of
           None \<Rightarrow> None
         | Some (Inl err, h2) \<Rightarrow> Some (Inl err, h2)
         | Some (Inr en, h2) \<Rightarrow> Some (Inr (finish_run e (it_start it) en (it_files it)),
             h2\<lparr>hs_active := None, hs_claims := AList.delete stem (hs_claims h2)\<rparr>))))"

section \<open>One iteration\<close>

definition quiet_heartbeat :: "'c http \<Rightarrow> worker_env \<Rightarrow> string \<Rightarrow> ('c, unit) step" where
  "quiet_heartbeat http x resource = hs_try (on_far (client_heartbeat http (wx_worker_id x) [] resource)) (\<lambda>_. hs_return ())
     (\<lambda>err. if is_controller_error err then Some (hs_return ()) else None)"

definition idle_beat :: "'c http \<Rightarrow> worker_env \<Rightarrow> ('c, string) step" where
  "idle_beat http x = hs_bind (hs_get hs_resource) (\<lambda>rs. hs_bind (quiet_heartbeat http x rs) (\<lambda>_. hs_return ''idle''))"

definition resource_state :: "iteration \<Rightarrow> 'c host \<Rightarrow> 'c host" where
  "resource_state it h = (case it_pressure it of
     Some _ \<Rightarrow> h\<lparr>hs_resource := ''PRESSURED'', hs_cooldown := it_time it + 60\<rparr>
   | None \<Rightarrow> h\<lparr>hs_resource := (if it_time it < hs_cooldown h then ''COOLDOWN'' else ''NORMAL'')\<rparr>)"

definition deliver_step :: "'c http \<Rightarrow> rat \<Rightarrow> payload \<Rightarrow> ('c, unit) step" where
  "deliver_step http now p = on_world (deliver_payload http now p)"

text \<open>After \<open>run_once\<close>: a shutdown of the host reports nothing; anything else is delivered.\<close>

definition report_run :: "'c http \<Rightarrow> worker_env \<Rightarrow> iteration \<Rightarrow> exec_result \<Rightarrow> ('c, string) step" where
  "report_run http x it r = hs_bind (hs_get hs_cancelled) (\<lambda>flag. let did = e_dispatch_id (x_spec r) in
     if x_outcome r = Cancelled \<and> \<not> (flag \<or> it_watched it)
     then hs_bind (cleanup x did) (\<lambda>_. hs_return ''abandoned'')
     else (case read_report (it_report it) of
         Inl err \<Rightarrow> hs_raise err
       | Inr report \<Rightarrow>
           hs_bind (deliver_step http (it_time it) (build_result_payload r report (wx_home x))) (\<lambda>_.
           hs_bind (cleanup x did) (\<lambda>_.
           hs_bind (if x_outcome r = Cancelled then quiet_heartbeat http x ''NORMAL'' else hs_return ()) (\<lambda>_.
           hs_return ''delivered'')))))"

definition run_claim :: "'c http \<Rightarrow> worker_env \<Rightarrow> iteration \<Rightarrow> exec_spec \<Rightarrow> ('c, string) step" where
  "run_claim http x it e =
     hs_bind (write_request x e) (\<lambda>_.
     hs_try (on_far (client_start http (e_dispatch_id e)))
       (\<lambda>_. hs_bind (hs_modify (\<lambda>h. h\<lparr>hs_cancelled := False\<rparr>)) (\<lambda>_.
            hs_bind (run_once http x it e) (\<lambda>r. report_run http x it r)))
       (\<lambda>err. case err of
          StaleDispatch _ \<Rightarrow> Some (hs_bind (cleanup x (e_dispatch_id e)) (\<lambda>_. hs_return ''stale'')) | _ \<Rightarrow> None))"

definition handle_claim :: "'c http \<Rightarrow> worker_env \<Rightarrow> iteration \<Rightarrow> payload \<Rightarrow> ('c, string) step" where
  "handle_claim http x it claim = (case resolve_spec x claim of
     Inl (SpecError why) \<Rightarrow>
       hs_bind (deliver_step http (it_time it) (build_spec_failure_payload (id_text claim) (''r-'' @ id_text claim) (''spec-invalid: '' @ why)))
         (\<lambda>_. hs_return ''spec-rejected'')
   | Inl err \<Rightarrow> hs_raise err
   | Inr e \<Rightarrow> run_claim http x it e)"

definition claim_work :: "'c http \<Rightarrow> worker_env \<Rightarrow> iteration \<Rightarrow> ('c, string) step" where
  "claim_work http x it = hs_bind (hs_get hs_resource) (\<lambda>rs.
     if rs \<noteq> ''NORMAL'' then idle_beat http x
     else hs_try (on_far (client_claim http (wx_worker_id x) rs))
       (\<lambda>c. case c of None \<Rightarrow> idle_beat http x | Some claim \<Rightarrow> handle_claim http x it claim)
       (\<lambda>err. case err of AuthenticationError _ \<Rightarrow> Some (hs_return ''auth-failed'') | _ \<Rightarrow> None))"

definition iterate :: "'c http \<Rightarrow> worker_env \<Rightarrow> iteration \<Rightarrow> ('c, string) step" where
  "iterate http x it = hs_try (on_world (flush_outbox http))
     (\<lambda>_. hs_bind (hs_modify (resource_state it)) (\<lambda>_. claim_work http x it))
     (\<lambda>err. if is_controller_error err then Some (hs_return ''idle'') else None)"

section \<open>Restarts\<close>

text \<open>
  \<open>run_orphan_gate\<close>: the records whose owner is dead name trees to terminate, and are removed; a record of
  a live owner is left alone.
\<close>

definition run_orphan_gate :: "(int \<Rightarrow> bool) \<Rightarrow> (string \<times> claim_record) list \<Rightarrow> int list \<times> (string \<times> claim_record) list" where
  "run_orphan_gate alive claims =
     (map (\<lambda>(n, r). clm_child_pid r) (filter (\<lambda>(n, r). \<not> alive (clm_owner_pid r)) (sort_key fst claims)),
      filter (\<lambda>(n, r). alive (clm_owner_pid r)) claims)"

text \<open>A new host process on the same home: the files stay, what was in memory is gone.\<close>

definition restart_host :: "(int \<Rightarrow> bool) \<Rightarrow> 'c host \<Rightarrow> 'c host" where
  "restart_host alive h = h\<lparr>hs_world := (hs_world h)\<lparr>w_attempts := []\<rparr>, hs_active := None, hs_cancelled := False,
     hs_resource := ''NORMAL'', hs_cooldown := 0, hs_claims := snd (run_orphan_gate alive (hs_claims h))\<rparr>"

section \<open>The life of a worker process\<close>

text \<open>
  \<open>run\<close> of a new process that got the home lock and a client: the orphan gate, the health checks
  (\<open>stop k\<close>: the stop event was set after the failed check with \<open>k\<close> left), the iterations until the
  stop event, the last flush. The result is the exit code.
\<close>

definition STARTUP_HEALTH_ATTEMPTS :: nat where "STARTUP_HEALTH_ATTEMPTS = 5"

definition health_step :: "'c http \<Rightarrow> ('c, bool) step" where
  "health_step http = on_far (client_health http)"

fun startup :: "'c http \<Rightarrow> (nat \<Rightarrow> bool) \<Rightarrow> nat \<Rightarrow> ('c, bool) step" where
  "startup http stop 0 = hs_bind (health_step http) (\<lambda>ok.
     if ok then hs_return True else hs_raise (ControllerUnreachable ''unhealthy''))"
| "startup http stop (Suc k) = hs_bind (health_step http) (\<lambda>ok.
     if ok then hs_return True else if stop k then hs_return False else startup http stop k)"

text \<open>What the loop does with an exception of \<open>iterate\<close>: leave with code 0, go on, or let it out.\<close>

fun goes_on :: "error \<Rightarrow> bool" where
  "goes_on (ResourcePaused _) = True"
| "goes_on err = is_controller_error err"

fun passes :: "'c http \<Rightarrow> worker_env \<Rightarrow> iteration list \<Rightarrow> ('c, bool) step" where
  "passes http x [] = hs_return True"
| "passes http x (it # its) = hs_try (iterate http x it) (\<lambda>_. passes http x its)
     (\<lambda>err. if err = HostBusy then Some (hs_return False) else if goes_on err then Some (passes http x its) else None)"

definition exit_code :: "nat \<Rightarrow> int" where
  "exit_code remaining = (if remaining = 0 then 0 else 1)"

definition last_flush :: "'c http \<Rightarrow> ('c, int) step" where
  "last_flush http = hs_try (on_world (flush_outbox http)) (\<lambda>n. hs_return (exit_code n))
     (\<lambda>err. if is_controller_error err
        then Some (hs_get (\<lambda>h. exit_code (length (outbox_read_all (w_disk (hs_world h)))))) else None)"

definition service_run :: "'c http \<Rightarrow> worker_env \<Rightarrow> (int \<Rightarrow> bool) \<Rightarrow> (nat \<Rightarrow> bool) \<Rightarrow> iteration list \<Rightarrow> ('c, int) step" where
  "service_run http x alive stop its =
     hs_bind (hs_modify (restart_host alive)) (\<lambda>_.
     hs_bind (startup http stop STARTUP_HEALTH_ATTEMPTS) (\<lambda>ok.
       if \<not> ok then hs_return 0
       else hs_bind (passes http x its) (\<lambda>done. if done then last_flush http else hs_return 0)))"

end
