(* ===== verification/Worker_Safety.thy ===== *)
theory Worker_Safety
  imports Worker_Service
begin

text \<open>
  What a worker keeps over any iterations, calls, failures and restarts: results on disk stay accounted
  for, and every process it started is Courier's own runner, for a dispatch whose start the far side
  had recorded. Both rest on the contract of the far side, stated as a locale over the delivery contract.
\<close>

named_theorems hs_intros \<open>introduction rules for invariants of worker steps\<close>

section \<open>Invariants of steps\<close>

definition hs_triple :: "('c host \<Rightarrow> bool) \<Rightarrow> ('c host \<Rightarrow> bool) \<Rightarrow> ('c, 'a) step \<Rightarrow> bool" where
  "hs_triple P I m \<longleftrightarrow> (\<forall>h r h'. P h \<longrightarrow> m h = Some (r, h') \<longrightarrow> I h')"

lemma hs_tripleI: "(\<And>h r h'. P h \<Longrightarrow> m h = Some (r, h') \<Longrightarrow> I h') \<Longrightarrow> hs_triple P I m"
  by (auto simp: hs_triple_def)

lemma hs_tripleD: "hs_triple P I m \<Longrightarrow> P h \<Longrightarrow> m h = Some (r, h') \<Longrightarrow> I h'"
  by (auto simp: hs_triple_def)

lemma hs_weaken: "hs_triple I I m \<Longrightarrow> (\<And>h. P h \<Longrightarrow> I h) \<Longrightarrow> hs_triple P I m"
  by (auto simp: hs_triple_def)

lemma hs_return_ok [hs_intros]: "hs_triple I I (hs_return x)"
  by (simp add: hs_triple_def hs_return_def)

lemma hs_raise_ok [hs_intros]: "hs_triple I I (hs_raise err)"
  by (simp add: hs_triple_def hs_raise_def)

lemma hs_get_ok [hs_intros]: "hs_triple I I (hs_get f)"
  by (simp add: hs_triple_def hs_get_def)

lemma hs_modify_ok: "(\<And>h. I h \<Longrightarrow> I (f h)) \<Longrightarrow> hs_triple I I (hs_modify f)"
  by (simp add: hs_triple_def hs_modify_def)

lemma hs_try_ok [hs_intros]:
  assumes "hs_triple I I m" "\<And>x. hs_triple I I (k x)" "\<And>err a. f err = Some a \<Longrightarrow> hs_triple I I a"
  shows "hs_triple I I (hs_try m k f)"
proof (rule hs_tripleI)
  fix h r h'
  assume "I h" and run: "hs_try m k f h = Some (r, h')"
  obtain q h1 where m: "m h = Some (q, h1)" using run by (auto simp: hs_try_def split: option.splits)
  then have "I h1" using assms(1) \<open>I h\<close> by (rule hs_tripleD [rotated 2])
  show "I h'"
  proof (cases q)
    case (Inr x)
    then have "k x h1 = Some (r, h')" using run m by (simp add: hs_try_def)
    from hs_tripleD [OF assms(2) \<open>I h1\<close> this] show ?thesis .
  next
    case (Inl err)
    show ?thesis
    proof (cases "f err")
      case None
      then show ?thesis using run m Inl \<open>I h1\<close> by (simp add: hs_try_def)
    next
      case (Some a)
      then have "a h1 = Some (r, h')" using run m Inl by (simp add: hs_try_def)
      from hs_tripleD [OF assms(3) [OF Some] \<open>I h1\<close> this] show ?thesis .
    qed
  qed
qed

lemma hs_bind_ok [hs_intros]: "hs_triple I I m \<Longrightarrow> (\<And>x. hs_triple I I (k x)) \<Longrightarrow> hs_triple I I (hs_bind m k)"
  by (auto simp: hs_bind_def intro!: hs_try_ok)

lemma hs_if_ok [hs_intros]: "(b \<Longrightarrow> hs_triple I I m) \<Longrightarrow> (\<not> b \<Longrightarrow> hs_triple I I n) \<Longrightarrow> hs_triple I I (if b then m else n)"
  by simp

lemma hs_case_sum_ok [hs_intros]:
  "(\<And>e. hs_triple I I (f e)) \<Longrightarrow> (\<And>x. hs_triple I I (g x)) \<Longrightarrow> hs_triple I I (case r of Inl e \<Rightarrow> f e | Inr x \<Rightarrow> g x)"
  by (cases r) simp_all

lemma hs_case_option_ok [hs_intros]:
  "hs_triple I I m \<Longrightarrow> (\<And>x. hs_triple I I (g x)) \<Longrightarrow> hs_triple I I (case r of None \<Rightarrow> m | Some x \<Rightarrow> g x)"
  by (cases r) simp_all

lemma handler_ok: "(if b then Some m else None) = Some a \<Longrightarrow> hs_triple I I m \<Longrightarrow> hs_triple I I a"
  by (simp split: if_splits)

text \<open>The wait loop keeps what its heartbeat keeps.\<close>

lemma wait_loop_keeps:
  assumes "wait_loop e rd stopped beat t k now l w s = Some y" "I s"
    and "\<And>s r s'. I s \<Longrightarrow> beat s = (r, s') \<Longrightarrow> I s'"
  shows "I (snd y)"
proof -
  have "(\<forall>s r s'. I s \<longrightarrow> beat s = (r, s') \<longrightarrow> I s') \<longrightarrow> I s \<longrightarrow> I (snd y)"
  proof (rule wait_loop.raw_induct [OF _ assms(1), where P = "\<lambda>e rd stopped beat t k now l w s y.
      (\<forall>s r s'. I s \<longrightarrow> beat s = (r, s') \<longrightarrow> I s') \<longrightarrow> I s \<longrightarrow> I (snd y)"], goal_cases)
    case (1 loop e rd stopped beat t k now l w s y)
    note IH = 1(1) and body = 1(2)
    show ?case
    proof (intro impI)
      assume beat: "\<forall>s r s'. I s \<longrightarrow> beat s = (r, s') \<longrightarrow> I s'" and s: "I s"
      obtain b s' where b: "beat s = (b, s')" by fastforce
      then have s': "I s'" using beat s by blast
      have "y = (fst y, s) \<or> y = (Inl ProcessKilled, s') \<or>
        (\<exists>now' l'. loop e rd stopped beat t (Suc k) now' l' (Suc w) s' = Some y)"
        using body b by (auto simp: Let_def split: if_splits option.splits prod.splits)
      then show "I (snd y)"
      proof (elim disjE exE)
        assume "y = (fst y, s)"
        with s show ?thesis by (metis snd_conv)
      next
        fix now' l' assume "loop e rd stopped beat t (Suc k) now' l' (Suc w) s' = Some y"
        from IH [OF this] beat s' show ?thesis by blast
      qed (use s' in simp)
    qed
  qed
  with assms(2,3) show ?thesis by blast
qed

section \<open>What every call keeps\<close>

text \<open>A property of the far side that no call invalidates survives every act of the worker.\<close>

named_theorems keep_intros \<open>introduction rules for what acts keep of the far side\<close>

definition call_stable :: "'c http \<Rightarrow> ('c \<Rightarrow> bool) \<Rightarrow> bool" where
  "call_stable http Q \<longleftrightarrow> (\<forall>verb path body c. Q c \<longrightarrow> Q (snd (http verb path body c)))"

definition act_keeps :: "('c \<Rightarrow> bool) \<Rightarrow> ('c, 'a) act \<Rightarrow> bool" where
  "act_keeps Q m \<longleftrightarrow> (\<forall>w. Q (w_far w) \<longrightarrow> Q (w_far (snd (m w))))"

lemma call_keeps: "call_stable http Q \<Longrightarrow> Q c \<Longrightarrow> Q (snd (client_call http verb path body c))"
proof -
  assume stable: "call_stable http Q" and "Q c"
  obtain r c' where h: "http verb (''/v1'' @ path) body c = (r, c')" by fastforce
  then have "Q c'" using stable \<open>Q c\<close> unfolding call_stable_def by (metis snd_conv)
  then show ?thesis using h by (cases r) (simp_all add: client_call_def)
qed

lemma client_keeps:
  assumes "call_stable http Q" "Q c"
  shows "Q (snd (client_claim http wid rs c))" "Q (snd (client_start http did c))"
    "Q (snd (client_heartbeat http wid dids rs c))" "Q (snd (client_deliver http v c))" "Q (snd (client_health http c))"
  using call_keeps [OF assms]
  by (auto simp: client_claim_def client_start_def client_heartbeat_def client_deliver_def client_health_def
      split: prod.splits sum.splits json.splits) (metis snd_conv)+

lemma act_return_keeps [keep_intros]: "act_keeps Q (act_return x)"
  by (simp add: act_keeps_def act_return_def)

lemma act_far_keeps: "(\<And>c. Q c \<Longrightarrow> Q (snd (f c))) \<Longrightarrow> act_keeps Q (act_far f)"
  by (fastforce simp: act_keeps_def act_far_def split: prod.splits)

lemma act_same_far: "(\<And>w. w_far (snd (m w)) = w_far w) \<Longrightarrow> act_keeps Q m"
  by (simp add: act_keeps_def)

lemma act_try_keeps [keep_intros]:
  fixes m :: "('c, 'a) act"
  assumes "act_keeps Q m" "\<And>x. act_keeps Q (k x)" "\<And>err a. h err = Some a \<Longrightarrow> act_keeps Q a"
  shows "act_keeps Q (act_try m k h)"
  unfolding act_keeps_def
proof (intro allI impI)
  fix w :: "'c world" assume "Q (w_far w)"
  obtain r w' where m: "m w = (r, w')" by fastforce
  then have q: "Q (w_far w')" using assms(1) \<open>Q (w_far w)\<close> by (metis act_keeps_def snd_conv)
  show "Q (w_far (snd (act_try m k h w)))"
  proof (cases r)
    case (Inr x)
    with m q assms(2) show ?thesis by (simp add: act_try_def act_keeps_def)
  next
    case (Inl err)
    with m q assms(3) show ?thesis by (cases "h err") (simp_all add: act_try_def act_keeps_def)
  qed
qed

lemma act_bind_try: "act_bind m k = act_try m k (\<lambda>_. None)"
  by (auto simp: act_bind_def act_try_def fun_eq_iff split: prod.splits sum.splits)

lemma act_bind_keeps [keep_intros]: "act_keeps Q m \<Longrightarrow> (\<And>x. act_keeps Q (k x)) \<Longrightarrow> act_keeps Q (act_bind m k)"
  by (auto simp: act_bind_try intro!: act_try_keeps)

lemma local_acts_keep [keep_intros]:
  "act_keeps Q (act_modify (pop_attempts did))" "act_keeps Q (remove_delivered p)"
  by (simp_all add: act_keeps_def act_modify_def pop_attempts_def remove_delivered_def)

lemma failed_acts_keep [keep_intros]: "act_keeps Q (flush_failed did err)" "act_keeps Q (first_failed did err)"
  by (simp_all add: act_keeps_def flush_failed_def first_failed_def quarantine_def pop_attempts_def Let_def)

lemma write_act_keeps [keep_intros]: "act_keeps Q (write_act now p)"
  by (auto simp: act_keeps_def write_act_def split: prod.split sum.split)

lemma deliver_act_keeps [keep_intros]:
  assumes "call_stable http Q"
  shows "act_keeps Q (deliver_act http v did)"
proof -
  have "act_keeps Q (act_far (client_deliver http v))" by (rule act_far_keeps) (rule client_keeps(4) [OF assms])
  then show ?thesis unfolding deliver_act_def by (rule act_bind_keeps) (rule local_acts_keep)
qed

lemma flush_keeps [keep_intros]:
  assumes "call_stable http Q"
  shows "act_keeps Q (flush_outbox http)"
proof -
  have one: "act_keeps Q (flush_one http v)" for v
  proof (cases v)
    case (JObj p)
    then show ?thesis
      using assms by (auto simp: flush_one_def split: if_splits intro!: keep_intros)
  qed (simp_all add: flush_one_def act_keeps_def)
  have "act_keeps Q (flush_loop http vs)" for vs
    by (induction vs) (auto intro!: keep_intros one)
  then show ?thesis by (simp add: act_keeps_def flush_outbox_def)
qed

lemma deliver_payload_keeps [keep_intros]:
  assumes "call_stable http Q"
  shows "act_keeps Q (deliver_payload http now p)"
proof -
  have "act_keeps Q (deliver_first http p)"
    using assms unfolding deliver_first_def by (auto split: if_splits intro!: keep_intros)
  then have w: "act_keeps Q a \<Longrightarrow> act_keeps Q (write_and_deliver http now p a)" for a
    unfolding write_and_deliver_def by (auto split: if_splits intro!: keep_intros)
  show ?thesis
    unfolding deliver_payload_def Let_def
    by (intro w act_try_keeps flush_keeps assms keep_intros) (auto split: if_splits intro!: w keep_intros)
qed

section \<open>The payloads are JSON values\<close>

lemma result_payload_wf: "wf_json (JObj (build_result_payload r report home))"
  by (auto simp: build_result_payload_def wf_list_iff split: prod.splits)

lemma spec_failure_wf: "wf_json (JObj (build_spec_failure_payload did rid reason))"
  by (simp add: build_spec_failure_payload_def)

section \<open>Iterations\<close>

text \<open>The contract grows by starts: an answered start is recorded, and stays recorded.\<close>

locale controller_endpoint = result_endpoint +
  fixes started :: "string \<Rightarrow> 'a \<Rightarrow> bool"
  assumes start_recorded: "far_ok c \<Longrightarrow> client_start http did c = (Inr (), c') \<Longrightarrow> started did c'"
    and started_stable: "far_ok c \<Longrightarrow> started did c \<Longrightarrow> started did (snd (http verb path body c))"
begin

definition runner_only :: "worker_env \<Rightarrow> 'a host \<Rightarrow> bool" where
  "runner_only x h \<longleftrightarrow> (\<forall>argv\<in>set (hs_spawned h). \<exists>did. argv = runner_argv x did \<and> safe_dispatch_id did
     \<and> started did (w_far (hs_world h)))"

definition host_inv :: "worker_env \<Rightarrow> payload \<Rightarrow> 'a host \<Rightarrow> bool" where
  "host_inv x p h \<longleftrightarrow> inv p (hs_world h) \<and> runner_only x h"

lemma settled_calls: "call_stable http (\<lambda>c. far_ok c \<and> settled v c)"
  by (simp add: call_stable_def settled_stable far_ok_kept)

lemma started_calls: "call_stable http (\<lambda>c. far_ok c \<and> (\<forall>did\<in>D. started did c))"
  by (simp add: call_stable_def started_stable far_ok_kept)

lemma far_calls: "call_stable http far_ok"
  by (simp add: call_stable_def far_ok_kept)

lemma host_inv_frame:
  "hs_world h' = hs_world h \<Longrightarrow> hs_spawned h' = hs_spawned h \<Longrightarrow> host_inv x p h' = host_inv x p h"
  by (simp add: host_inv_def runner_only_def)

text \<open>An act that keeps the delivery invariant and the recorded starts keeps the host's invariant.\<close>

lemma host_inv_world:
  assumes "host_inv x p h" "inv p w" "\<And>D. \<forall>did\<in>D. started did (w_far (hs_world h)) \<Longrightarrow> \<forall>did\<in>D. started did (w_far w)"
  shows "host_inv x p (h\<lparr>hs_world := w\<rparr>)"
  using assms(1,2) assms(3) [of "{did. started did (w_far (hs_world h))}"]
  by (fastforce simp: host_inv_def runner_only_def)

lemma on_world_ok:
  assumes "\<And>w. inv p w \<Longrightarrow> inv p (snd (m w))" "\<And>Q. call_stable http Q \<Longrightarrow> act_keeps Q m"
  shows "hs_triple (host_inv x p) (host_inv x p) (on_world m)"
proof (rule hs_tripleI)
  fix h :: "'a host" and r h'
  assume h: "host_inv x p h" and run: "on_world m h = Some (r, h')"
  obtain w where m: "m (hs_world h) = (r, w)" and h': "h' = h\<lparr>hs_world := w\<rparr>"
    using run by (auto simp: on_world_def split: prod.splits)
  have "inv p w" using assms(1) [of "hs_world h"] h m by (simp add: host_inv_def)
  moreover have "\<forall>did\<in>D. started did (w_far w)" if "\<forall>did\<in>D. started did (w_far (hs_world h))" for D
    using assms(2) [OF started_calls [of D]] that m h unfolding act_keeps_def host_inv_def inv_def by (metis snd_conv)
  ultimately show "host_inv x p h'" unfolding h' by (rule host_inv_world [OF h])
qed

lemma on_far_ok:
  assumes "\<And>Q c. call_stable http Q \<Longrightarrow> Q c \<Longrightarrow> Q (snd (f c))"
  shows "hs_triple (host_inv x p) (host_inv x p) (on_far f)"
  unfolding on_far_def
proof (rule on_world_ok)
  fix w :: "'a world"
  assume i: "inv p w"
  obtain r c where f: "f (w_far w) = (r, c)" by fastforce
  have "inv p (w\<lparr>w_far := c\<rparr>)"
  proof (rule inv_far [OF i])
    show "far_ok c" using assms [OF far_calls, of "w_far w"] i f by (simp add: inv_def)
    show "settled (JObj p) c" if "settled (JObj p) (w_far w)"
      using assms [OF settled_calls, of "w_far w" "JObj p"] that i f by (simp add: inv_def)
  qed
  then show "inv p (snd (act_far f w))" by (simp add: act_far_def f)
next
  fix Q :: "'a \<Rightarrow> bool"
  assume "call_stable http Q"
  then show "act_keeps Q (act_far f)" using assms by (intro act_far_keeps) blast
qed

lemma client_steps_ok [hs_intros]:
  "hs_triple (host_inv x p) (host_inv x p) (on_far (client_claim http wid rs))"
  "hs_triple (host_inv x p) (host_inv x p) (on_far (client_start http did))"
  "hs_triple (host_inv x p) (host_inv x p) (on_far (client_heartbeat http wid dids rs))"
  by (rule on_far_ok, erule (1) client_keeps)+

lemma flush_step_ok [hs_intros]: "hs_triple (host_inv x p) (host_inv x p) (on_world (flush_outbox http))"
  by (rule on_world_ok) (use inv_flush_outbox flush_keeps in blast)+

lemma deliver_step_ok [hs_intros]:
  "wf_json (JObj q) \<Longrightarrow> hs_triple (host_inv x p) (host_inv x p) (deliver_step http now q)"
  unfolding deliver_step_def by (rule on_world_ok) (use inv_deliver_payload deliver_payload_keeps in blast)+

lemma hs_frame_ok [hs_intros]:
  "(\<And>h. hs_world (f h) = hs_world h) \<Longrightarrow> (\<And>h. hs_spawned (f h) = hs_spawned h) \<Longrightarrow>
   hs_triple (host_inv x p) (host_inv x p) (hs_modify f)"
  by (rule hs_modify_ok) (use host_inv_frame in blast)

lemma file_steps_ok [hs_intros]:
  "hs_triple (host_inv x p) (host_inv x p) (write_request x' e)" "hs_triple (host_inv x p) (host_inv x p) (cleanup x' did)"
  "hs_triple (host_inv x p) (host_inv x p) (hs_modify (resource_state it))"
  unfolding write_request_def cleanup_def by (rule hs_frame_ok; simp add: resource_state_def split: option.split)+

lemma quiet_ok [hs_intros]: "hs_triple (host_inv x p) (host_inv x p) (quiet_heartbeat http x' rs)"
  unfolding quiet_heartbeat_def
  by (rule hs_try_ok [OF client_steps_ok(3) hs_return_ok], erule handler_ok, rule hs_return_ok)

lemma idle_ok [hs_intros]: "hs_triple (host_inv x p) (host_inv x p) (idle_beat http x')"
  unfolding idle_beat_def by (intro hs_bind_ok hs_get_ok quiet_ok hs_return_ok)

lemma send_heartbeat_ok: "host_inv x p h \<Longrightarrow> send_heartbeat http x did h = (r, h') \<Longrightarrow> host_inv x p h'"
proof -
  assume h: "host_inv x p h" and run: "send_heartbeat http x did h = (r, h')"
  obtain q c where c: "client_heartbeat http (wx_worker_id x) [did] (hs_resource h) (w_far (hs_world h)) = (q, c)" by fastforce
  have "host_inv x p (h\<lparr>hs_world := (hs_world h)\<lparr>w_far := c\<rparr>\<rparr>)"
    using hs_tripleD [OF client_steps_ok(3) h, of "wx_worker_id x" "[did]" "hs_resource h" q] c
    by (auto simp: on_far_def on_world_def act_far_def)
  then show ?thesis
    using run c by (auto simp: send_heartbeat_def Let_def host_inv_def runner_only_def split: sum.splits if_splits)
qed

text \<open>A run for a recorded start.\<close>

lemma run_once_ok:
  assumes "make_spec e = Inr e" "e_argv e = runner_argv x (e_dispatch_id e)"
  shows "hs_triple (\<lambda>h. host_inv x p h \<and> started (e_dispatch_id e) (w_far (hs_world h))) (host_inv x p) (run_once http x it e)"
proof (rule hs_tripleI, elim conjE)
  fix h :: "'a host" and r h'
  assume h: "host_inv x p h" and st: "started (e_dispatch_id e) (w_far (hs_world h))" and run: "run_once http x it e h = Some (r, h')"
  show "host_inv x p h'"
  proof (cases "hs_active h \<noteq> None \<or> it_pressure_run it \<noteq> None \<or> it_spawn_error it \<noteq> None")
    case True
    with run h show ?thesis by (auto simp: run_once_def split: if_splits option.splits)
  next
    case False
    define h1 where "h1 = h\<lparr>hs_active := Some (e_dispatch_id e), hs_spawned := hs_spawned h @ [e_argv e],
      hs_claims := AList.update (safe_file_stem (e_dispatch_id e)) \<lparr>clm_dispatch_id = e_dispatch_id e,
        clm_owner_pid = it_owner_pid it, clm_child_pid = it_child_pid it\<rparr> (hs_claims h)\<rparr>"
    have h1: "host_inv x p h1"
      using h st make_spec_ok(2) [OF assms(1)] assms(2) by (auto simp: h1_def host_inv_def runner_only_def)
    obtain q h2 where loop: "wait_loop e (it_rounds it) run_stopped (send_heartbeat http x (e_dispatch_id e))
        (it_start it + e_timeout_s e) 0 (it_begin it) (it_start it + e_lease_ttl_s e) 0 h1 = Some (q, h2)"
      and h': "hs_world h' = hs_world h2" "hs_spawned h' = hs_spawned h2"
      using run False by (auto simp: run_once_def h1_def [symmetric] Let_def split: option.splits prod.splits sum.splits)
    have "host_inv x p h2"
      using wait_loop_keeps [where I = "host_inv x p", OF loop h1] send_heartbeat_ok by simp
    then show ?thesis using host_inv_frame [OF h'] by simp
  qed
qed

lemma report_run_ok: "hs_triple (host_inv x p) (host_inv x p) (report_run http x' it r)"
proof -
  have "hs_triple (host_inv x p) (host_inv x p) (deliver_step http (it_time it) (build_result_payload r rep home))" for rep home
    by (intro deliver_step_ok result_payload_wf)
  then show ?thesis
    unfolding report_run_def Let_def
    by (intro hs_bind_ok hs_get_ok hs_if_ok hs_case_sum_ok file_steps_ok hs_return_ok hs_raise_ok quiet_ok)
qed

lemma run_claim_ok:
  assumes "make_spec e = Inr e" "e_argv e = runner_argv x (e_dispatch_id e)"
  shows "hs_triple (host_inv x p) (host_inv x p) (run_claim http x it e)"
proof -
  let ?run = "hs_bind (hs_modify (\<lambda>h. h\<lparr>hs_cancelled := False\<rparr>)) (\<lambda>_. hs_bind (run_once http x it e) (\<lambda>r. report_run http x it r))"
  have run: "host_inv x p h'"
    if h: "host_inv x p h" "started (e_dispatch_id e) (w_far (hs_world h))" and r: "?run h = Some (r, h')" for h r h'
  proof -
    let ?h = "h\<lparr>hs_cancelled := False\<rparr>"
    have "host_inv x p ?h \<and> started (e_dispatch_id e) (w_far (hs_world ?h))" using h host_inv_frame [of ?h h] by simp
    note once = hs_tripleD [OF run_once_ok [OF assms, where p = p and it = it] this]
    show ?thesis
    proof (cases "run_once http x it e ?h")
      case None
      then show ?thesis using r by (simp add: hs_bind_def hs_try_def hs_modify_def)
    next
      case (Some y)
      obtain q h2 where y: "y = (q, h2)" by (cases y)
      then have i: "host_inv x p h2" using once Some by blast
      show ?thesis
      proof (cases q)
        case (Inl err)
        then show ?thesis using r Some y i by (simp add: hs_bind_def hs_try_def hs_modify_def)
      next
        case (Inr v)
        then have "report_run http x it v h2 = Some (r, h')" using r Some y by (simp add: hs_bind_def hs_try_def hs_modify_def)
        from hs_tripleD [OF report_run_ok i this] show ?thesis .
      qed
    qed
  qed
  have "hs_triple (host_inv x p) (host_inv x p) (hs_try (on_far (client_start http (e_dispatch_id e))) (\<lambda>_. ?run)
      (\<lambda>err. case err of StaleDispatch _ \<Rightarrow> Some (hs_bind (cleanup x (e_dispatch_id e)) (\<lambda>_. hs_return ''stale'')) | _ \<Rightarrow> None))"
  proof (rule hs_tripleI)
    fix h :: "'a host" and r h'
    assume h: "host_inv x p h" and tr: "hs_try (on_far (client_start http (e_dispatch_id e))) (\<lambda>_. ?run)
      (\<lambda>err. case err of StaleDispatch _ \<Rightarrow> Some (hs_bind (cleanup x (e_dispatch_id e)) (\<lambda>_. hs_return ''stale'')) | _ \<Rightarrow> None) h = Some (r, h')"
    obtain q c where q: "client_start http (e_dispatch_id e) (w_far (hs_world h)) = (q, c)" by fastforce
    let ?h = "h\<lparr>hs_world := (hs_world h)\<lparr>w_far := c\<rparr>\<rparr>"
    have far: "on_far (client_start http (e_dispatch_id e)) h = Some (q, ?h)"
      using q by (simp add: on_far_def on_world_def act_far_def)
    have i: "host_inv x p ?h" by (rule hs_tripleD [OF client_steps_ok(2) h far])
    show "host_inv x p h'"
    proof (cases q)
      case (Inr u)
      have "far_ok (w_far (hs_world h))" using h by (simp add: host_inv_def inv_def)
      then have "started (e_dispatch_id e) c" using start_recorded q Inr by simp
      then show ?thesis using run [OF i, of r h'] tr far Inr by (simp add: hs_try_def)
    next
      case (Inl err)
      have "hs_triple (host_inv x p) (host_inv x p) (hs_bind (cleanup x (e_dispatch_id e)) (\<lambda>_. hs_return ''stale''))"
        by (intro hs_bind_ok file_steps_ok hs_return_ok)
      from hs_tripleD [OF this i, of r h'] show ?thesis
        using tr far Inl i by (cases err) (simp_all add: hs_try_def)
    qed
  qed
  then show ?thesis unfolding run_claim_def by (intro hs_bind_ok file_steps_ok)
qed

end

lemma resolve_spec_ok:
  assumes "resolve_spec x claim = Inr e"
  shows "make_spec e = Inr e" "e_argv e = runner_argv x (e_dispatch_id e)" "get claim ''dispatch_id'' = JStr (e_dispatch_id e)"
    "get claim ''task_id'' = JStr (e_task_id e)" "\<exists>a \<in> set ADAPTERS. e_adapter e = Some a"
proof -
  note r = assms [unfolded resolve_spec_def]
  from r obtain tid where tid: "get claim ''task_id'' = JStr tid" "tid \<noteq> []" by (auto split: json.splits if_splits)
  note r = r [unfolded tid(1) json.case, simplified tid(2) if_False]
  from r obtain did where did: "get claim ''dispatch_id'' = JStr did" "did \<noteq> []" by (auto split: json.splits if_splits)
  note r = r [unfolded did(1) json.case, simplified did(2) if_False]
  from r obtain att where att: "get claim ''attempt'' = JInt att" "\<not> att < 1" by (auto split: json.splits if_splits)
  note r = r [unfolded att(1) json.case, simplified att(2) if_False]
  from r obtain ttl where ttl: "number_of (get claim ''ttl_s'') = Some ttl" "\<not> ttl < 1" by (auto split: option.splits if_splits)
  note r = r [unfolded ttl(1) option.case, simplified ttl(2) if_False]
  from r obtain adapter params key where v: "validate_request x (get claim ''spec'') = Inr (adapter, params, key)"
    by (auto elim!: bind_resultE)
  then obtain spec where spec: "get claim ''spec'' = JObj spec" by (auto simp: validate_request_def split: json.splits)
  from r v spec obtain bound timeout where m: "make_spec \<lparr>e_task_id = tid, e_attempt = att, e_dispatch_id = did, e_worker_id = wx_worker_id x,
       e_result_id = ''r-'' @ did, e_argv = runner_argv x did, e_timeout_s = timeout, e_lease_ttl_s = ttl,
       e_artifact_dir = path_join (artifacts_root x) did, e_heartbeat_s = claim_heartbeat x claim,
       e_adapter = Some adapter, e_params = params, e_effect_key = Some key,
       e_effect_class = get spec ''effect_class'', e_input = bound\<rparr> = Inr e"
    by (auto simp: bind_result_eq_Inr split: option.splits if_splits)
  have e: "e = \<lparr>e_task_id = tid, e_attempt = att, e_dispatch_id = did, e_worker_id = wx_worker_id x,
       e_result_id = ''r-'' @ did, e_argv = runner_argv x did, e_timeout_s = timeout, e_lease_ttl_s = ttl,
       e_artifact_dir = path_join (artifacts_root x) did, e_heartbeat_s = claim_heartbeat x claim,
       e_adapter = Some adapter, e_params = params, e_effect_key = Some key,
       e_effect_class = get spec ''effect_class'', e_input = bound\<rparr>"
    using make_spec_ok(1) [OF m] .
  show "make_spec e = Inr e" using m unfolding e .
  show "e_argv e = runner_argv x (e_dispatch_id e)" "get claim ''dispatch_id'' = JStr (e_dispatch_id e)"
    "get claim ''task_id'' = JStr (e_task_id e)" using tid did by (simp_all add: e)
  show "\<exists>a \<in> set ADAPTERS. e_adapter e = Some a"
    using v spec by (auto simp: e validate_request_def split: json.splits if_splits option.splits)
qed

context controller_endpoint
begin

lemma handle_claim_ok: "hs_triple (host_inv x p) (host_inv x p) (handle_claim http x it claim)"
proof (cases "resolve_spec x claim")
  case (Inr e)
  then show ?thesis using run_claim_ok [OF resolve_spec_ok(1,2) [OF Inr]] by (simp add: handle_claim_def)
next
  case (Inl err)
  have "hs_triple (host_inv x p) (host_inv x p) (hs_bind (deliver_step http (it_time it)
      (build_spec_failure_payload did rid why)) (\<lambda>_. hs_return ''spec-rejected''))" for did rid why
    by (intro hs_bind_ok deliver_step_ok spec_failure_wf hs_return_ok)
  with Inl show ?thesis by (cases err) (simp_all add: handle_claim_def hs_raise_ok)
qed

lemma iterate_ok: "hs_triple (host_inv x p) (host_inv x p) (iterate http x it)"
proof -
  have "hs_triple (host_inv x p) (host_inv x p) (hs_try (on_far (client_claim http (wx_worker_id x) rs))
       (\<lambda>c. case c of None \<Rightarrow> idle_beat http x | Some claim \<Rightarrow> handle_claim http x it claim)
       (\<lambda>err. case err of AuthenticationError _ \<Rightarrow> Some (hs_return ''auth-failed'') | _ \<Rightarrow> None))" for rs
  proof (rule hs_try_ok [OF client_steps_ok(1)])
    show "hs_triple (host_inv x p) (host_inv x p) (case c of None \<Rightarrow> idle_beat http x | Some claim \<Rightarrow> handle_claim http x it claim)" for c
      by (intro hs_case_option_ok idle_ok handle_claim_ok)
  next
    fix err and a :: "('a, string) step"
    assume "(case err of AuthenticationError _ \<Rightarrow> Some (hs_return ''auth-failed'') | _ \<Rightarrow> None) = Some a"
    then have "a = hs_return ''auth-failed''" by (cases err) simp_all
    then show "hs_triple (host_inv x p) (host_inv x p) a" using hs_return_ok by simp
  qed
  then have "hs_triple (host_inv x p) (host_inv x p) (claim_work http x it)"
    unfolding claim_work_def by (intro hs_bind_ok hs_get_ok hs_if_ok idle_ok)
  then have "hs_triple (host_inv x p) (host_inv x p) (hs_bind (hs_modify (resource_state it)) (\<lambda>_. claim_work http x it))"
    by (intro hs_bind_ok file_steps_ok)
  then show ?thesis
    unfolding iterate_def by (rule hs_try_ok [OF flush_step_ok _ handler_ok [OF _ hs_return_ok]])
qed

lemma restart_ok: "host_inv x p h \<Longrightarrow> host_inv x p (restart_host alive h)"
  by (simp add: restart_host_def host_inv_def runner_only_def inv_attempts)

lemma startup_ok: "hs_triple (host_inv x p) (host_inv x p) (startup http stop k)"
proof -
  have "hs_triple (host_inv x p) (host_inv x p) (health_step http)"
    unfolding health_step_def by (rule on_far_ok, erule (1) client_keeps)
  then show ?thesis by (induction k) (auto intro!: hs_intros)
qed

lemma passes_ok: "hs_triple (host_inv x p) (host_inv x p) (passes http x its)"
proof (induction its)
  case (Cons it its)
  show ?case
    unfolding passes.simps by (rule hs_try_ok [OF iterate_ok Cons]) (use Cons hs_return_ok in \<open>auto split: if_splits\<close>)
qed (simp add: hs_return_ok)

lemma last_flush_ok: "hs_triple (host_inv x p) (host_inv x p) (last_flush http)"
  unfolding last_flush_def by (rule hs_try_ok [OF flush_step_ok hs_return_ok], erule handler_ok, rule hs_get_ok)

lemma service_run_ok: "hs_triple (host_inv x p) (host_inv x p) (service_run http x alive stop its)"
proof -
  have "hs_triple (host_inv x p) (host_inv x p) (hs_modify (restart_host alive))" by (rule hs_modify_ok) (rule restart_ok)
  then show ?thesis
    unfolding service_run_def by (intro hs_bind_ok hs_if_ok hs_return_ok startup_ok passes_ok last_flush_ok)
qed

lemma new_host_inv: "far_ok c \<Longrightarrow> host_inv x p (new_host c)"
  by (simp add: new_host_def host_inv_def runner_only_def inv_def worker_ok_def latest_def stored_for_def empty_disk_def)

end

end
