(* ===== verification/End_To_End.thy ===== *)
theory End_To_End
  imports Http_Front Controller_Evidence Worker_Safety
begin

text \<open>
  A worker and a controller over a network that loses requests and answers and lets processes die: the
  worker's connection is the controller's HTTP front end. The contract the worker's lemmas rest on is
  discharged for it, and what the whole system promises follows.
\<close>

section \<open>The network\<close>

text \<open>
  What happens to one request: it is answered, it or its answer is lost (with the message of the
  exception), or the worker's process dies before or after it arrives.
\<close>

datatype fault = Pass | LoseRequest string | LoseReply string | DieBefore | DieAfter

text \<open>
  By the number of the request: its fate, the controller's clock, and what the controller did since the
  last one (requests of others, ticks, verifications, restarts). The worker sends the token it was given.
\<close>

record network =
  n_fault :: "nat \<Rightarrow> fault"
  n_clock :: "nat \<Rightarrow> rat"
  n_between :: "nat \<Rightarrow> request list"
  n_token :: string
  n_repr :: "rat \<Rightarrow> string"

text \<open>\<open>f_refused\<close> is a history: the results answered 404 or 409, in canonical form.\<close>

record far =
  f_server :: server
  f_calls :: nat
  f_refused :: "json list"

text \<open>\<open>conn.request(method, path, body=json.dumps(body))\<close>\<close>

definition client_request :: "string \<Rightarrow> string \<Rightarrow> string \<Rightarrow> json option \<Rightarrow> http_request" where
  "client_request verb path tok body = \<lparr>rq_verb = verb, rq_path = path, rq_token = tok, rq_transfer_encoding = [],
     rq_content_length = map_option (\<lambda>v. show_nat (length (dumps_spaced v))) body,
     rq_text = Some (case body of None \<Rightarrow> [] | Some v \<Rightarrow> dumps_spaced v), rq_resume = ''0'', rq_stream_free = True\<rparr>"

definition reply_text :: "json option \<Rightarrow> string" where
  "reply_text b = (case b of None \<Rightarrow> [] | Some v \<Rightarrow> dumps_ascii v)"

definition far_idle :: "env \<Rightarrow> network \<Rightarrow> far \<Rightarrow> far" where
  "far_idle x nw f = f\<lparr>f_server := (f_server f)\<lparr>sv_ctl := run_requests x (n_between nw (f_calls f)) (sv_ctl (f_server f))\<rparr>,
     f_calls := Suc (f_calls f)\<rparr>"

definition refused_now :: "string \<Rightarrow> int \<Rightarrow> json option \<Rightarrow> json list" where
  "refused_now path st body = (case body of None \<Rightarrow> [] | Some v \<Rightarrow>
     if path = ''/v1/result'' \<and> st \<in> {404, 409} then [canonical v] else [])"

definition far_answer :: "env \<Rightarrow> network \<Rightarrow> string \<Rightarrow> string \<Rightarrow> json option \<Rightarrow> far \<Rightarrow> http_answer \<times> far" where
  "far_answer x nw verb path body f =
     (case handle_request x (n_repr nw) (n_clock nw (f_calls f)) (client_request verb path (n_token nw) body)
        (f_server (far_idle x nw f)) of
        (a, sv) \<Rightarrow> (a, (far_idle x nw f)\<lparr>f_server := sv, f_refused := f_refused f @ refused_now path (fst a) body\<rparr>))"

definition far_http :: "env \<Rightarrow> network \<Rightarrow> far http" where
  "far_http x nw verb path body f = (case n_fault nw (f_calls f) of
     LoseRequest m \<Rightarrow> (NoReply m, far_idle x nw f)
   | DieBefore \<Rightarrow> (Killed, far_idle x nw f)
   | Pass \<Rightarrow> (case far_answer x nw verb path body f of ((st, b), f') \<Rightarrow> (Reply st (reply_text b), f'))
   | LoseReply m \<Rightarrow> (NoReply m, snd (far_answer x nw verb path body f))
   | DieAfter \<Rightarrow> (Killed, snd (far_answer x nw verb path body f)))"

section \<open>What the controller has settled\<close>

definition far_ok :: "env \<Rightarrow> network \<Rightarrow> far \<Rightarrow> bool" where
  "far_ok x nw f \<longleftrightarrow> env_values x \<and> (\<forall>n. list_all legal_request (n_between nw n)) \<and> sound_rows.inv x (sv_ctl (f_server f))"

text \<open>A result is settled if the journal holds it, or the controller refused it as stale or conflicting.\<close>

definition journaled :: "env \<Rightarrow> json \<Rightarrow> far \<Rightarrow> bool" where
  "journaled x v f \<longleftrightarrow> (\<exists>p tid seq. canonical v = JObj p \<and> result_recorded (x_H x) p tid seq (sv_ctl (f_server f)))"

definition settled_far :: "env \<Rightarrow> json \<Rightarrow> far \<Rightarrow> bool" where
  "settled_far x v f \<longleftrightarrow> journaled x v f \<or> canonical v \<in> set (f_refused f)"

definition started_far :: "env \<Rightarrow> string \<Rightarrow> far \<Rightarrow> bool" where
  "started_far x did f \<longleftrightarrow> start_on_record (x_H x) did (sv_ctl (f_server f))"

lemma settled_far_canonical: "settled_far x (canonical v) f = settled_far x v f"
  by (simp add: settled_far_def journaled_def canonical_idem)

lemma by_requests_continues: "env_values x \<Longrightarrow> by_requests x c c' \<Longrightarrow> continues (x_H x) c c'"
  using request_continues continues_refl by (auto simp: by_requests_def)

lemma by_requests_sound: "env_values x \<Longrightarrow> by_requests x c c' \<Longrightarrow> sound_rows.inv x c \<Longrightarrow> sound_rows.inv x c'"
  using sound_rows.run_request_inv by (auto simp: by_requests_def)

lemma far_idle_step:
  assumes "far_ok x nw f"
  shows "continues (x_H x) (sv_ctl (f_server f)) (sv_ctl (f_server (far_idle x nw f)))" "far_ok x nw (far_idle x nw f)"
    "f_refused (far_idle x nw f) = f_refused f"
  using assms requests_continue sound_rows.run_requests_inv by (auto simp: far_ok_def far_idle_def)

lemma far_answer_step:
  assumes "far_ok x nw f"
  shows "continues (x_H x) (sv_ctl (f_server f)) (sv_ctl (f_server (snd (far_answer x nw verb path body f))))"
    "far_ok x nw (snd (far_answer x nw verb path body f))"
    "set (f_refused f) \<subseteq> set (f_refused (snd (far_answer x nw verb path body f)))"
proof -
  let ?sv = "f_server (far_idle x nw f)"
  obtain a sv where h: "handle_request x (n_repr nw) (n_clock nw (f_calls f)) (client_request verb path (n_token nw) body) ?sv = (a, sv)"
    by fastforce
  then have reqs: "by_requests x (sv_ctl ?sv) (sv_ctl sv)" by (metis handle_request_state snd_conv)
  have env: "env_values x" using assms by (simp add: far_ok_def)
  note idle = far_idle_step [OF assms]
  have f': "f_server (snd (far_answer x nw verb path body f)) = sv"
    using h by (simp add: far_answer_def)
  show "continues (x_H x) (sv_ctl (f_server f)) (sv_ctl (f_server (snd (far_answer x nw verb path body f))))"
    unfolding f' by (rule continues_trans [OF idle(1) by_requests_continues [OF env reqs]])
  show "far_ok x nw (snd (far_answer x nw verb path body f))"
    using idle(2) by_requests_sound [OF env reqs] f' by (simp add: far_ok_def)
  show "set (f_refused f) \<subseteq> set (f_refused (snd (far_answer x nw verb path body f)))"
    by (auto simp: far_answer_def split: prod.split)
qed

lemma far_http_step:
  assumes "far_ok x nw f"
  shows "continues (x_H x) (sv_ctl (f_server f)) (sv_ctl (f_server (snd (far_http x nw verb path body f))))"
    "far_ok x nw (snd (far_http x nw verb path body f))"
    "set (f_refused f) \<subseteq> set (f_refused (snd (far_http x nw verb path body f)))"
  using far_idle_step [OF assms] far_answer_step [OF assms, of verb path body]
  by (auto simp: far_http_def split: fault.split prod.split)

lemma settled_far_stable: "far_ok x nw f \<Longrightarrow> settled_far x v f \<Longrightarrow> settled_far x v (snd (far_http x nw verb path body f))"
  using far_http_step [of x nw f verb path body] result_recorded_stable unfolding settled_far_def journaled_def by blast

lemma started_far_stable: "far_ok x nw f \<Longrightarrow> started_far x did f \<Longrightarrow> started_far x did (snd (far_http x nw verb path body f))"
  using far_http_step(1) [of x nw f verb path body] start_on_record_stable unfolding started_far_def by blast

section \<open>What an answer proves\<close>

text \<open>The front end reads back the value the client printed.\<close>

lemma starts_value_nonempty: "wf_json v \<Longrightarrow> dumps_spaced v \<noteq> []"
  using length_spaced_pos [of v] by auto

lemma sent_value:
  assumes "wf_json v" "read_body (client_request verb path tok (Some v)) = Inr u"
  shows "u = v"
  using assms(2) loads_spaced [OF assms(1)] starts_value_nonempty [OF assms(1)]
  by (auto simp: read_body_def client_request_def py_int_def bind_result_eq_Inr split: if_splits)

text \<open>A request of the worker that is answered with status 200 is the operation of its path.\<close>

lemma posted:
  assumes h: "handle_request x repr now (client_request ''POST'' path tok (Some v)) sv = ((200, b), sv')" and wf: "wf_json v"
    and m: "refuses (route_post x repr now path v)"
  shows "route_post x repr now path v (sv_ctl sv) = (Inr (200, b), sv_ctl sv')"
proof -
  let ?rq = "client_request ''POST'' path tok (Some v)"
  have rq: "rq_verb ?rq = ''POST''" "rq_path ?rq = path" by (simp_all add: client_request_def)
  have "dispatch x repr now ?rq sv = ((200, b), sv')" using h rq by (simp add: handle_request_def)
  moreover have "fst (error_answer err) \<noteq> 200" if "discard_body ?rq = Inl err" for err using discard_refusal [OF that] by simp
  ultimately obtain r c where r: "route x repr now ?rq (sv_ctl sv) = (r, c)" "c = sv_ctl sv'"
    "(case r of Inl err \<Rightarrow> error_answer err | Inr a \<Rightarrow> a) = (200, b)"
    by (auto simp: dispatch_def split: if_splits prod.splits sum.splits)
  have "route x repr now ?rq (sv_ctl sv) = op_bind (op_lift (read_body ?rq)) (\<lambda>body. route_post x repr now path body) (sv_ctl sv)"
    by (simp add: route_def rq)
  with r(1) have run: "op_bind (op_lift (read_body ?rq)) (\<lambda>body. route_post x repr now path body) (sv_ctl sv) = (r, c)" by simp
  show ?thesis
  proof (cases "read_body ?rq")
    case (Inl err)
    with run have "r = Inl err" by (simp add: op_bind_def op_lift_def)
    moreover have "fst (error_answer err) \<noteq> 200"
      using Inl by (auto simp: read_body_def py_int_def error_answer_def split: if_splits option.splits sum.splits elim!: bind_resultE)
    ultimately show ?thesis using r(3) by (metis fst_conv sum.case(1))
  next
    case (Inr u)
    with sent_value [OF wf Inr] run have p: "route_post x repr now path v (sv_ctl sv) = (r, c)" by (simp add: op_bind_def op_lift_def)
    show ?thesis
    proof (cases r)
      case (Inl err)
      with p m have "\<forall>code. err \<noteq> ApiError 200 code" unfolding refuses_def by blast
      then have "fst (error_answer err) \<noteq> 200" by (auto simp: error_answer_def split: error.split)
      with r(3) Inl show ?thesis by (metis fst_conv sum.case(1))
    next
      case (Inr a)
      with p r show ?thesis by simp
    qed
  qed
qed

lemma refuses_answer: "refuses m \<Longrightarrow> refuses (answer m f)"
  unfolding answer_def by (intro refuse_intros)

lemma result_route: "route_post x repr now ''/v1/result'' v = answer (ctl_result x v)
    (\<lambda>(st, tid, seq). (200, Some (JObj [(''status'', JStr st), (''task_id'', opt_str tid), (''seq'', opt_int seq)])))"
  by (simp add: route_post_def)

lemma start_route: "route_post x repr now ''/v1/start'' v = answer (ctl_start x v)
    (\<lambda>(st, tid). (200, Some (JObj [(''status'', JStr st), (''task_id'', JStr tid)])))"
  by (simp add: route_post_def)

lemma answer_Inr: "answer m f c = (Inr r, c') \<longleftrightarrow> (\<exists>a. m c = (Inr a, c') \<and> r = f a)"
  by (auto simp: answer_def op_bind_Inr op_return_def)

text \<open>An answered call of the worker, seen from the network.\<close>

lemma far_http_reply:
  assumes "far_http x nw verb path body f = (Reply st raw, f')"
  obtains b sv where "handle_request x (n_repr nw) (n_clock nw (f_calls f)) (client_request verb path (n_token nw) body)
      (f_server (far_idle x nw f)) = ((st, b), sv)" "raw = reply_text b" "f_server f' = sv"
    "f_refused f' = f_refused f @ refused_now path st body"
  using assms by (auto simp: far_http_def far_answer_def split: fault.splits prod.splits)

lemma result_recorded_canonical:
  assumes "result_recorded H body tid seq c" "distinct (map fst body)" "canonical (JObj body) = JObj p"
  shows "result_recorded H p tid seq c"
proof -
  have d: "distinct (map fst p)" using assms(2,3) by auto
  have same: "canonical (JObj p) = canonical (JObj body)" using canonical_idem [of "JObj body"] assms(3) by simp
  have "get p k = JStr t \<longleftrightarrow> get body k = JStr t" for k t
    using get_canonical [OF assms(2,3), of k] canonical_shapes(1) by metis
  moreover have "result_content cl did rid body = result_content cl did rid p" for cl did rid
    using same_result_payload [OF same d assms(2)] by (simp add: result_content_def)
  ultimately have "result_recorded H body tid seq c = result_recorded H p tid seq c" unfolding result_recorded_def by simp
  with assms(1) show ?thesis by simp
qed

lemma far_delivery_settles:
  assumes ok: "far_ok x nw f" and wf: "wf_json v" and run: "client_deliver (far_http x nw) v f = (Inr a, f')"
  shows "settled_far x v f'"
proof -
  from run obtain st raw where h: "far_http x nw ''POST'' ''/v1/result'' (Some v) f = (Reply st raw, f')" "st \<in> {200, 404, 409}"
    by (auto simp: client_deliver_def client_call_def split: prod.splits sum.splits http_reply.splits if_splits)
  from h(1) obtain b sv where b: "handle_request x (n_repr nw) (n_clock nw (f_calls f))
      (client_request ''POST'' ''/v1/result'' (n_token nw) (Some v)) (f_server (far_idle x nw f)) = ((st, b), sv)" "f_server f' = sv"
    "f_refused f' = f_refused f @ refused_now ''/v1/result'' st (Some v)"
    by (rule far_http_reply)
  show ?thesis
  proof (cases "st = 200")
    case False
    with h(2) b(3) show ?thesis by (auto simp: settled_far_def refused_now_def)
  next
    case True
    let ?c = "sv_ctl (f_server (far_idle x nw f))"
    have "route_post x (n_repr nw) (n_clock nw (f_calls f)) ''/v1/result'' v ?c = (Inr (200, b), sv_ctl sv)"
      using posted [OF b(1) [unfolded True] wf] by (simp add: result_route refuses_answer refuses_result)
    then obtain status tid seq where r: "ctl_result x v ?c = (Inr (status, tid, seq), sv_ctl sv)"
      by (auto simp: result_route answer_Inr)
    then obtain body where body: "v = JObj body" by (auto elim: ctl_result_InrD)
    obtain p where p: "canonical (JObj body) = JObj p" by simp
    have "sound_rows.inv x ?c" using far_idle_step(2) [OF ok] by (simp add: far_ok_def)
    from ctl_result_recorded [OF this _ r [unfolded body]] wf body have "result_recorded (x_H x) body tid seq (sv_ctl sv)" by simp
    from result_recorded_canonical [OF this _ p] wf body b(2) p show ?thesis
      by (auto simp: settled_far_def journaled_def)
  qed
qed

lemma far_start_recorded:
  assumes ok: "far_ok x nw f" and run: "client_start (far_http x nw) did f = (Inr (), f')"
  shows "started_far x did f'"
proof -
  let ?v = "JObj [(''dispatch_id'', JStr did)]"
  from run obtain raw where h: "far_http x nw ''POST'' ''/v1/start'' (Some ?v) f = (Reply 200 raw, f')"
    by (auto simp: client_start_def client_call_def split: prod.splits sum.splits http_reply.splits if_splits)
  then obtain b sv where b: "handle_request x (n_repr nw) (n_clock nw (f_calls f))
      (client_request ''POST'' ''/v1/start'' (n_token nw) (Some ?v)) (f_server (far_idle x nw f)) = ((200, b), sv)" "f_server f' = sv"
    by (rule far_http_reply) blast
  let ?c = "sv_ctl (f_server (far_idle x nw f))"
  have "route_post x (n_repr nw) (n_clock nw (f_calls f)) ''/v1/start'' ?v ?c = (Inr (200, b), sv_ctl sv)"
    using posted [OF b(1)] by (simp add: start_route refuses_answer refuses_start)
  then obtain r where r: "ctl_start x ?v ?c = (Inr r, sv_ctl sv)" by (auto simp: start_route answer_Inr)
  have "sound_rows.inv x ?c" using far_idle_step(2) [OF ok] by (simp add: far_ok_def)
  from ctl_start_recorded [OF this r] b(2) show ?thesis by (simp add: started_far_def get_def)
qed

interpretation delivery: result_endpoint "far_http x nw" "far_ok x nw" "settled_far x"
proof
  show "far_ok x nw (snd (far_http x nw verb path body c))" if "far_ok x nw c" for verb path body c
    using far_http_step(2) [OF that] .
  show "settled_far x v c'" if "far_ok x nw c" "wf_json v" "client_deliver (far_http x nw) v c = (Inr a, c')" for c v a c'
    using far_delivery_settles [OF that] .
  show "settled_far x v (snd (far_http x nw verb path body c))" if "far_ok x nw c" "settled_far x v c" for c v verb path body
    using settled_far_stable [OF that] .
  show "settled_far x (canonical v) c = settled_far x v c" for v c by (rule settled_far_canonical)
qed

interpretation system: controller_endpoint "far_http x nw" "far_ok x nw" "settled_far x" "started_far x"
proof
  show "started_far x did c'" if "far_ok x nw c" "client_start (far_http x nw) did c = (Inr (), c')" for c did c'
    using far_start_recorded [OF that] .
  show "started_far x did (snd (far_http x nw verb path body c))" if "far_ok x nw c" "started_far x did c" for c did verb path body
    using started_far_stable [OF that] .
qed

end
