(* ===== verification/Courier_System.thy ===== *)
theory Courier_System
  imports End_To_End
begin

text \<open>
  What a worker and a controller promise together, over any number of iterations, faults of the network,
  deaths of either process, restarts and requests of others.
\<close>

section \<open>Runs\<close>

text \<open>
  A worker process on the home from start to end, where the end may be its death in any call, and single
  iterations and restarts. What the controller does between calls is part of the network.
\<close>

inductive system_run :: "env \<Rightarrow> network \<Rightarrow> worker_env \<Rightarrow> far host \<Rightarrow> far host \<Rightarrow> bool" for x nw wx h0 where
  begun: "system_run x nw wx h0 h0"
| iterated: "system_run x nw wx h0 h \<Longrightarrow> iterate (far_http x nw) wx it h = Some (r, h') \<Longrightarrow> system_run x nw wx h0 h'"
| ran: "system_run x nw wx h0 h \<Longrightarrow> service_run (far_http x nw) wx alive stop its h = Some (c, h') \<Longrightarrow> system_run x nw wx h0 h'"
| restarted: "system_run x nw wx h0 h \<Longrightarrow> system_run x nw wx h0 (restart_host alive h)"

lemma system_run_inv:
  assumes "system_run x nw wx (new_host f) h" "far_ok x nw f"
  shows "system.host_inv x nw wx p h"
  using assms
proof (induction rule: system_run.induct)
  case begun
  then show ?case by (rule system.new_host_inv)
next
  case (iterated h it r h')
  then show ?case using hs_tripleD [OF system.iterate_ok] by blast
next
  case (ran h alive stop its c h')
  then show ?case using hs_tripleD [OF system.service_run_ok] by blast
next
  case (restarted h alive)
  then show ?case using system.restart_ok by blast
qed

text \<open>
  C1. No result is lost: for every result the worker ever put on disk, the last one put there for the same
  dispatch (itself, unless a later result of that dispatch took its file) is still in the outbox, or was moved
  to the quarantine, or is in the journal with its content, or the controller answered it with 404 or 409. The
  only way a quarantined copy goes is the note of another dispatch \<open>d\<close> in the place of the result of \<open>d.meta\<close>.
\<close>

theorem no_result_lost:
  assumes "far_ok x nw f" and "system_run x nw wx (new_host f) h" and "p \<in> set (w_durable (hs_world h))"
  shows "\<exists>q. stored_for (result_dispatch p) (w_durable (hs_world h)) = Some q
    \<and> (in_outbox q (w_disk (hs_world h)) \<or> quarantined_result q (w_disk (hs_world h)) \<or> note_over q (w_disk (hs_world h))
      \<or> journaled x (JObj q) (w_far (hs_world h)) \<or> canonical (JObj q) \<in> set (f_refused (w_far (hs_world h))))"
proof -
  obtain q where q: "stored_for (result_dispatch p) (w_durable (hs_world h)) = Some q" using stored_for_stored [OF assms(3)] by blast
  then have "latest q (hs_world h)" using stored_for_Some [OF q] by (simp add: latest_def)
  moreover have "system.host_inv x nw wx q h" using system_run_inv [OF assms(2,1)] .
  ultimately have "delivery.answered_for x q (hs_world h)" by (simp add: system.host_inv_def delivery.inv_def)
  with q show ?thesis by (auto simp: delivery.answered_for_def in_custody_def settled_far_def)
qed

text \<open>
  C2. Nothing runs before its start is journaled: every process a worker ever spawned is the adapter runner
  with the request file of a dispatch whose \<open>TASK_STARTED\<close> is in the controller's journal.
\<close>

theorem runs_only_after_start:
  assumes "far_ok x nw f" and "system_run x nw wx (new_host f) h" and "argv \<in> set (hs_spawned h)"
  shows "\<exists>did. argv = runner_argv wx did \<and> safe_dispatch_id did \<and> started_far x did (w_far (hs_world h))"
  using system_run_inv [OF assms(2,1)] assms(3) by (auto simp: system.host_inv_def system.runner_only_def)

text \<open>
  C38. The wait loop ends and rarely wakes: for a spec that was accepted, with clocks that do not run backwards
  and waits that last as long as asked, it returns after at most two wakes per quantum of the timeout,
  whatever the heartbeats answer.
\<close>

theorem wait_bounded:
  assumes "make_spec e = Inr e" and "\<And>k. honest_round (rd k)" and "start \<le> now"
  shows "\<exists>r s'. wait_loop e rd stopped beat (start + e_timeout_s e) 0 now lease_at 0 s = Some (r, s')
    \<and> (\<forall>en. r = Inr en \<longrightarrow> en_wakes en \<le> 2 * nat \<lceil>e_timeout_s e / quantum e\<rceil>) \<and> e_timeout_s e / quantum e \<le> 18000"
proof -
  have spec: "1 \<le> e_lease_ttl_s e" "1 / 5 \<le> e_heartbeat_s e" "0 < e_timeout_s e" "e_timeout_s e \<le> 3600"
    using assms(1) by (auto simp: make_spec_def check_spec_def check_simps MIN_HEARTBEAT_S_def MAX_TIMEOUT_S_host_def split: option.splits)
  then have q: "1 / 5 \<le> quantum e" by (simp add: quantum_def)
  let ?n = "nat \<lceil>e_timeout_s e / quantum e\<rceil>"
  have "0 < e_timeout_s e / quantum e" using q spec by simp
  then have "e_timeout_s e / quantum e \<le> of_nat ?n" by (simp add: of_nat_nat)
  then have "e_timeout_s e \<le> of_nat ?n * quantum e" using q by (simp add: pos_divide_le_eq)
  then have "start + e_timeout_s e - now \<le> of_nat ?n * quantum e" using assms(3) by simp
  from wait_loop_bound [OF assms(2) spec(1) _ this, of 0] q
  have "wakes_at_most (2 * ?n) (wait_loop e rd stopped beat (start + e_timeout_s e) 0 now lease_at 0 s)" by simp
  moreover have "e_timeout_s e / quantum e \<le> 3600 / (1 / 5)" by (rule frac_le) (use spec q in simp_all)
  ultimately show ?thesis unfolding wakes_at_most_def by auto
qed

section \<open>Delivery\<close>

lemma flush_one_delivers:
  assumes "get p ''dispatch_id'' = JStr did" "safe_dispatch_id did" "client_deliver http (JObj p) (w_far w) = (Inr a, c')"
  shows "\<exists>w'. flush_one http (JObj p) w = (Inr 0, w') \<and> w_far w' = c'
    \<and> d_outbox (w_disk w') = AList.delete (entry_name did) (d_outbox (w_disk w)) \<and> d_quarantine (w_disk w') = d_quarantine (w_disk w)"
proof -
  have "has_key p ''dispatch_id''" using assms(1) by (auto simp: get_def has_key_def split: option.splits)
  with assms show ?thesis
    by (simp add: flush_one_def act_try_def act_bind_def deliver_act_def act_far_def act_modify_def act_return_def
        remove_delivered_def outbox_remove_def pop_attempts_def)
qed

lemma flush_loop_delivers:
  assumes "\<And>c v. Q c \<Longrightarrow> \<exists>a c'. client_deliver http v c = (Inr a, c') \<and> Q c'" "Q (w_far w)"
    and "\<forall>(n, v)\<in>set es. \<exists>p did. v = JObj p \<and> get p ''dispatch_id'' = JStr did \<and> safe_dispatch_id did \<and> n = entry_name did"
  shows "\<exists>w'. flush_loop http (map snd es) w = (Inr 0, w') \<and> Q (w_far w')
    \<and> d_outbox (w_disk w') = filter (\<lambda>e. fst e \<notin> fst ` set es) (d_outbox (w_disk w)) \<and> d_quarantine (w_disk w') = d_quarantine (w_disk w)"
  using assms(2,3)
proof (induction es arbitrary: w)
  case (Cons e es)
  obtain n v where e: "e = (n, v)" by (cases e)
  with Cons.prems(2) obtain p did where p: "v = JObj p" "get p ''dispatch_id'' = JStr did" "safe_dispatch_id did" "n = entry_name did" by auto
  from assms(1) [OF Cons.prems(1)] obtain a c' where "client_deliver http (JObj p) (w_far w) = (Inr a, c')" "Q c'" by blast
  with flush_one_delivers [OF p(2,3)] obtain w1 where w1: "flush_one http (JObj p) w = (Inr 0, w1)" "Q (w_far w1)"
    "d_outbox (w_disk w1) = AList.delete n (d_outbox (w_disk w))" "d_quarantine (w_disk w1) = d_quarantine (w_disk w)"
    using p(4) by metis
  from Cons.IH [OF w1(2)] Cons.prems(2) obtain w' where w': "flush_loop http (map snd es) w1 = (Inr 0, w')" "Q (w_far w')"
    "d_outbox (w_disk w') = filter (\<lambda>e. fst e \<notin> fst ` set es) (d_outbox (w_disk w1))" "d_quarantine (w_disk w') = d_quarantine (w_disk w1)"
    by auto
  have "filter (\<lambda>e. fst e \<notin> fst ` set es) (AList.delete n d) = filter (\<lambda>e. fst e \<notin> fst ` set ((n, v) # es)) d" for d :: "(string \<times> outbox_file) list"
    by (auto simp: AList.delete_eq intro!: filter_cong)
  with w' w1 e p(1) show ?case by (auto simp: act_bind_def act_return_def)
qed (simp add: act_return_def)

text \<open>
  C37. Every result gets through once the controller answers: if each delivery is answered with 200, 404 or
  409, one flush empties the outbox, and quarantines nothing.
\<close>

theorem flush_delivers:
  assumes "worker_ok w" and "Q (w_far w)" and "\<And>c v. Q c \<Longrightarrow> \<exists>a c'. client_deliver http v c = (Inr a, c') \<and> Q c'"
  shows "\<exists>w'. flush_outbox http w = (Inr 0, w') \<and> d_outbox (w_disk w') = [] \<and> d_quarantine (w_disk w') = d_quarantine (w_disk w)"
proof -
  let ?es = "outbox_read_all (w_disk w)"
  have stored: "\<exists>p. loads (of_text f) = Inr (JObj p) \<and> (\<exists>did. get p ''dispatch_id'' = JStr did \<and> safe_dispatch_id did \<and> n = entry_name did)"
    if nf: "(n, f) \<in> set (d_outbox (w_disk w))" for n f
  proof -
    obtain q where q: "latest q w" "n = entry_name (result_dispatch q)" "of_text f = dumps_sorted (JObj q)"
      using assms(1) nf by (fastforce simp: worker_ok_def)
    have "storable q" using assms(1) latest_durable [OF q(1)] by (simp add: worker_ok_def)
    then obtain q' where "get q' ''dispatch_id'' = JStr (result_dispatch q)" "loads (dumps_sorted (JObj q)) = Inr (JObj q')"
      by (rule stored_value)
    with q \<open>storable q\<close> show ?thesis by (auto simp: storable_def)
  qed
  have "\<forall>(n, v)\<in>set ?es. \<exists>p did. v = JObj p \<and> get p ''dispatch_id'' = JStr did \<and> safe_dispatch_id did \<and> n = entry_name did"
    using stored by (fastforce simp: read_all_iff)
  from flush_loop_delivers [of Q http, OF assms(3,2) this] obtain w' where
    w': "flush_outbox http w = (Inr 0, w')" "d_outbox (w_disk w') = filter (\<lambda>e. fst e \<notin> fst ` set ?es) (d_outbox (w_disk w))"
    "d_quarantine (w_disk w') = d_quarantine (w_disk w)"
    by (auto simp: flush_outbox_def)
  have "fst e \<in> fst ` set ?es" if e: "e \<in> set (d_outbox (w_disk w))" for e
  proof -
    obtain p where "loads (of_text (snd e)) = Inr (JObj p)" using stored [of "fst e" "snd e"] e by auto
    with e have "(fst e, JObj p) \<in> set ?es" by (auto simp: read_all_iff intro: exI [of _ "snd e"])
    then show ?thesis by force
  qed
  then have "d_outbox (w_disk w') = []" using w'(2) by (simp add: filter_empty_conv)
  with w' show ?thesis by blast
qed

text \<open>
  But not if it cannot be reached: five flushes then move a good result to the quarantine,
  from which nothing takes it back, although the module says that it stays in the outbox.
\<close>

definition unreachable :: "'c http" where
  "unreachable verb path body c = (NoReply ''connection refused'', c)"

fun flushes :: "nat \<Rightarrow> 'c world \<Rightarrow> 'c world" where
  "flushes 0 w = w"
| "flushes (Suc n) w = flushes n (snd (flush_outbox unreachable w))"

lemma flush_unreachable:
  assumes "storable p" and "d_outbox (w_disk w) = [(n, f)]" and "of_text f = dumps_sorted (JObj p)"
  shows "snd (flush_outbox unreachable w) = snd (flush_failed (result_dispatch p) (ControllerError ''POST /result: connection refused'') w)"
proof -
  obtain q where "loads (dumps_sorted (JObj p)) = Inr (JObj q)" "id_text q = result_dispatch p"
    by (rule stored_value [OF assms(1)])
  then show ?thesis
    using assms(2,3)
    by (simp add: flush_outbox_def outbox_read_all_def List.map_filter_def parsed_entry_def flush_one_def deliver_act_def act_far_def
        client_deliver_def client_call_def unreachable_def act_try_def act_bind_def act_return_def split: prod.split sum.split)
qed

theorem unreachable_result_quarantined:
  assumes "storable p" and "d_outbox (w_disk w) = [(entry_name (result_dispatch p), f)]"
    and "of_text f = dumps_sorted (JObj p)" and "failed_attempts (result_dispatch p) w = 0"
  shows "d_outbox (w_disk (flushes 4 w)) = d_outbox (w_disk w) \<and> d_outbox (w_disk (flushes 5 w)) = []
    \<and> quarantined_result p (w_disk (flushes 5 w))"
proof -
  let ?e = "ControllerError ''POST /result: connection refused''" and ?d = "result_dispatch p"
  have calm: "\<not> is_poison ?e" by code_simp
  have wait: "snd (flush_outbox unreachable v) = v\<lparr>w_attempts := AList.update ?d (failed_attempts ?d v + 1) (w_attempts v)\<rparr>"
    if "d_outbox (w_disk v) = d_outbox (w_disk w)" "failed_attempts ?d v < 4" for v :: "'a world"
    using flush_unreachable [OF assms(1) _ assms(3), of v] that assms(2) calm
    by (simp add: flush_failed_def Let_def MAX_OUTBOX_DELIVERY_ATTEMPTS_def)
  have wait': "d_outbox (w_disk (snd (flush_outbox unreachable v))) = d_outbox (w_disk w) \<and> failed_attempts ?d (snd (flush_outbox unreachable v)) = k + 1"
    if "d_outbox (w_disk v) = d_outbox (w_disk w) \<and> failed_attempts ?d v = k" "k < 4" for v :: "'a world" and k
    using wait [of v] that by (simp add: failed_attempts_def)
  define v where "v = flushes 4 w"
  have v: "d_outbox (w_disk v) = d_outbox (w_disk w) \<and> failed_attempts ?d v = 4"
    using wait' [OF wait' [OF wait' [OF wait' [of w 0]]]] assms(4) by (simp add: v_def numeral_eq_Suc)
  have "flushes 5 w = snd (flush_outbox unreachable v)" by (simp add: v_def numeral_eq_Suc)
  also have "\<dots> = quarantine ?d (''max_attempts_exceeded ('' @ show_int 5 @ ''): '' @ error_text ?e)
      (v\<lparr>w_attempts := AList.update ?d 5 (w_attempts v)\<rparr>)"
    using flush_unreachable [OF assms(1) _ assms(3), of v] v assms(2) calm
    by (simp add: flush_failed_def Let_def MAX_OUTBOX_DELIVERY_ATTEMPTS_def)
  finally have five: "w_disk (flushes 5 w) = outbox_quarantine ?d (''max_attempts_exceeded ('' @ show_int 5 @ ''): '' @ error_text ?e) (w_disk v)"
    by (simp add: quarantine_def pop_attempts_def)
  have "safe_dispatch_id ?d" using assms(1) by (simp add: storable_def)
  then show ?thesis
    using v assms(2,3) entry_name_meta [of ?d ?d]
    by (simp add: v_def five outbox_quarantine_def quarantined_result_def Let_def)
qed

section \<open>A report that cannot be accepted\<close>


section \<open>A concrete run\<close>

text \<open>
  A task is claimed, started, run to success and reported; the answer to the report is lost. The journal
  starts empty, the digest is constant.
\<close>

definition sample_sys :: env where
  "sample_sys = sample_env\<lparr>x_H := (\<lambda>_. ''d''), x_uuid := (\<lambda>n. ''u'' @ show_int (int (n mod 100)))\<rparr>"

definition sample_task :: json where
  "sample_task = JObj [(''adapter'', JStr ''synthetic''), (''params'', JObj []), (''effect_class'', JStr ''idempotent''),
     (''max_attempts'', JInt 3), (''lease_ttl_s'', JInt 10)]"

definition sample_controller :: controller where
  "sample_controller = run_requests sample_sys [CreateTask sample_task]
     ((init_controller (Some new_journal))\<lparr>k_mode := Normal, k_attached := True\<rparr>)"

definition sample_far :: far where
  "sample_far = \<lparr>f_server = \<lparr>sv_ctl = sample_controller, sv_token = ''t'', sv_stopping = False\<rparr>, f_calls = 0, f_refused = []\<rparr>"

definition sample_network :: network where
  "sample_network = \<lparr>n_fault = (\<lambda>n. if n = 2 then LoseReply ''timed out'' else Pass), n_clock = (\<lambda>_. 0), n_between = (\<lambda>_. []),
     n_token = ''t'', n_repr = (\<lambda>_. ''3.5'')\<rparr>"

definition sample_worker :: worker_env where
  "sample_worker = \<lparr>wx_home = ''/h'', wx_worker_id = ''w1'', wx_heartbeat_s = 5, wx_executable = ''python'', wx_runner = ''runner.py'',
     wx_params = (\<lambda>_ _. None)\<rparr>"

definition sample_round :: round where
  "sample_round = \<lparr>r_watch = False, r_stop = False, r_overflow = False, r_wait = (\<lambda>t. (Some 0, max 0 t)), r_overflow_after = False,
     r_beat_s = 0, r_gap_s = 0, r_poll = None\<rparr>"

definition sample_iteration :: iteration where
  "sample_iteration = \<lparr>it_time = 0, it_pressure = None, it_pressure_run = None, it_spawn_error = None, it_owner_pid = 2, it_child_pid = 3,
     it_start = 0, it_begin = 0, it_rounds = (\<lambda>_. sample_round), it_watched = False, it_files = Dir [] [],
     it_report = Some (dumps_spaced (JObj [(''outcome'', JStr ''success'')]))\<rparr>"

definition sample_claim_body :: json where
  "sample_claim_body = JObj [(''worker_id'', JStr ''w1''), (''resource_state'', JStr ''NORMAL'')]"

definition sample_lease :: payload where
  "sample_lease = [(''task_id'', JStr ''task-u0''), (''attempt'', JInt 1), (''dispatch_id'', JStr ''dsp-u2''), (''worker_id'', JStr ''w1''),
     (''ttl_s'', JInt 10), (''heartbeat_s'', JFloat ''3.5''), (''spec'', JObj [(''adapter'', JStr ''synthetic''), (''params'', JObj []),
       (''effect_class'', JStr ''idempotent''), (''timeout_s'', JNull), (''effect_key'', JStr ''cfx-d'')])]"

definition sample_start_body :: json where
  "sample_start_body = JObj [(''dispatch_id'', JStr ''dsp-u2'')]"

definition sample_spec :: exec_spec where
  "sample_spec = \<lparr>e_task_id = ''task-u0'', e_attempt = 1, e_dispatch_id = ''dsp-u2'', e_worker_id = ''w1'', e_result_id = ''r-dsp-u2'',
     e_argv = [''python'', ''runner.py'', ''/h/run/requests/dsp-u2.json''], e_timeout_s = 300, e_lease_ttl_s = 10,
     e_artifact_dir = ''/h/artifacts/dsp-u2'', e_heartbeat_s = 7 / 2, e_adapter = Some ''synthetic'', e_params = [],
     e_effect_key = Some ''cfx-d'', e_effect_class = JStr ''idempotent'', e_input = None\<rparr>"

definition sample_result :: payload where
  "sample_result = [(''dispatch_id'', JStr ''dsp-u2''), (''result_id'', JStr ''r-dsp-u2''), (''artifacts'', JList []),
     (''outcome'', JStr ''success'')]"

definition sample_ended :: ended where
  "sample_ended = \<lparr>en_outcome = Completed, en_returncode = Some 0, en_wakes = 1, en_overflow = False, en_clock = 1\<rparr>"

definition sample_done :: exec_result where
  "sample_done = finish_run sample_spec 0 sample_ended (Dir [] [])"

definition sample_writable :: "controller \<Rightarrow> bool" where
  "sample_writable c \<longleftrightarrow> \<not> k_stopping c \<and> k_mode c = Normal \<and> k_attached c"

definition sample_unstarted :: "controller \<Rightarrow> bool" where
  "sample_unstarted c \<longleftrightarrow> sample_writable c \<and> (case k_file c of None \<Rightarrow> False | Some j \<Rightarrow>
     (case get_event_by_dedupe_key j (result_dedupe_key ''dsp-u2'' ''r-dsp-u2'') of Inr None \<Rightarrow> True | _ \<Rightarrow> False)
     \<and> (case claim_for_dispatch j ''dsp-u2'' of
         Inr (Some cl) \<Rightarrow> (case journal_task j (ev_task_id cl) of
           Inr (Some t) \<Rightarrow> t_dispatch_id t = Some ''dsp-u2'' \<and> t_status t = CLAIMED | _ \<Rightarrow> False)
       | _ \<Rightarrow> False))"

lemma sample_answers:
  "case ctl_claim sample_sys 0 sample_claim_body sample_controller of
     (Inr (Some r), c) \<Rightarrow> claim_json (\<lambda>_. ''3.5'') r = JObj sample_lease \<and> sample_unstarted c
       \<and> (case ctl_start sample_sys sample_start_body c of
           (Inr _, c') \<Rightarrow> (case ctl_result sample_sys (JObj sample_result) c' of (Inr _, c'') \<Rightarrow> sample_writable c'' | _ \<Rightarrow> False)
         | _ \<Rightarrow> False)
   | _ \<Rightarrow> False"
  by code_simp

lemma sample_steps:
  obtains r c1 u c2 status tid seq c3 where "ctl_claim sample_sys 0 sample_claim_body sample_controller = (Inr (Some r), c1)"
    "claim_json (\<lambda>_. ''3.5'') r = JObj sample_lease" "sample_unstarted c1"
    "ctl_start sample_sys sample_start_body c1 = (Inr u, c2)"
    "ctl_result sample_sys (JObj sample_result) c2 = (Inr (status, tid, seq), c3)" "sample_writable c3"
  using sample_answers by (auto split: prod.splits sum.splits option.splits)

text \<open>What the front end reads of a short body.\<close>

lemma show_nat_short: "length (show_nat n) \<le> Suc n"
proof (induction n rule: show_nat.induct)
  case (1 n)
  show ?case
  proof (cases "n < 10")
    case False
    then have "length (show_nat (n div 10)) \<le> Suc (n div 10)" "Suc (n div 10) \<le> n" using 1 by auto
    with False show ?thesis by (subst show_nat.simps) simp
  qed (subst show_nat.simps, simp)
qed

lemma read_short_body:
  assumes "wf_json v" "length (dumps_spaced v) < 4300"
  shows "read_body (client_request verb path tok (Some v)) = Inr v"
proof -
  let ?n = "length (dumps_spaced v)"
  have "list_all is_digit (show_nat ?n)" using show_nat_digits by (simp add: list_all_iff)
  moreover from this have "py_isdigit (show_nat ?n)" by (auto simp: py_isdigit_def list_all_iff)
  moreover have "length (show_nat ?n) \<le> 4300" using show_nat_short [of ?n] assms(2) by simp
  ultimately show ?thesis
    using assms loads_spaced [OF assms(1)] starts_value_nonempty [OF assms(1)]
    by (simp add: read_body_def client_request_def py_int_def MAX_BODY_BYTES_def)
qed

lemma handle_posted:
  assumes "read_body (client_request ''POST'' path tok (Some v)) = Inr v" "sv_token sv = tok"
    and "route_post x repr now path v (sv_ctl sv) = (Inr a, c)"
  shows "\<exists>sv'. handle_request x repr now (client_request ''POST'' path tok (Some v)) sv = (a, sv') \<and> sv_ctl sv' = c \<and> sv_token sv' = tok"
proof -
  let ?rq = "client_request ''POST'' path tok (Some v)"
  have rq: "rq_verb ?rq = ''POST''" "rq_path ?rq = path" "rq_token ?rq = tok" by (simp_all add: client_request_def)
  have "route x repr now ?rq (sv_ctl sv) = (Inr a, c)"
    using assms(1,3) by (simp add: route_def rq op_bind_def op_lift_def)
  then show ?thesis using assms(2) by (simp add: handle_request_def dispatch_def authorized_def rq)
qed

lemma far_posts:
  assumes "n_fault nw (f_calls f) = Pass" "n_between nw (f_calls f) = []" "sv_token (f_server f) = n_token nw"
    and "wf_json v" "length (dumps_spaced v) < 4300"
    and "route_post x (n_repr nw) (n_clock nw (f_calls f)) path v (sv_ctl (f_server f)) = (Inr (st, b), c)"
  shows "\<exists>f'. far_http x nw ''POST'' path (Some v) f = (Reply st (reply_text b), f') \<and> sv_ctl (f_server f') = c
    \<and> f_calls f' = Suc (f_calls f) \<and> sv_token (f_server f') = n_token nw"
proof -
  have idle: "f_server (far_idle x nw f) = f_server f" using assms(2) by (simp add: far_idle_def run_requests_def)
  from handle_posted [OF read_short_body [OF assms(4,5)] assms(3) assms(6)] obtain sv' where
    "handle_request x (n_repr nw) (n_clock nw (f_calls f)) (client_request ''POST'' path (n_token nw) (Some v)) (f_server f) = ((st, b), sv')"
    "sv_ctl sv' = c" "sv_token sv' = n_token nw" by blast
  then show ?thesis using assms(1) idle by (simp add: far_http_def far_answer_def) (simp add: far_idle_def)
qed

text \<open>The calls of the run: the lease, the start, and a report whose answer is lost.\<close>

abbreviation sample_http :: "far http" where
  "sample_http \<equiv> far_http sample_sys sample_network"

lemma sample_bodies:
  "wf_json sample_claim_body" "length (dumps_spaced sample_claim_body) < 4300"
  "wf_json sample_start_body" "length (dumps_spaced sample_start_body) < 4300"
  "reply_body (reply_text (Some (JObj sample_lease))) = JObj sample_lease"
proof -
  have "length (dumps_spaced sample_claim_body) \<le> 100" "length (dumps_spaced sample_start_body) \<le> 100" by code_simp+
  then show "length (dumps_spaced sample_claim_body) < 4300" "length (dumps_spaced sample_start_body) < 4300" by simp_all
qed (code_simp+)

lemma sample_calls:
  obtains f1 f2 f3 where "client_claim sample_http ''w1'' ''NORMAL'' sample_far = (Inr (Some sample_lease), f1)"
    "client_start sample_http ''dsp-u2'' f1 = (Inr (), f2)"
    "client_deliver sample_http (JObj sample_result) f2 = (Inl (ControllerError ''POST /result: timed out''), f3)"
proof -
  obtain r c1 u c2 where r: "ctl_claim sample_sys 0 sample_claim_body sample_controller = (Inr (Some r), c1)"
    "claim_json (\<lambda>_. ''3.5'') r = JObj sample_lease" and s: "ctl_start sample_sys sample_start_body c1 = (Inr u, c2)"
    by (rule sample_steps)
  have "route_post sample_sys (n_repr sample_network) (n_clock sample_network (f_calls sample_far)) ''/v1/claim'' sample_claim_body
      (sv_ctl (f_server sample_far)) = (Inr (200, Some (JObj sample_lease)), c1)"
    using r by (simp add: route_post_def answer_Inr sample_far_def sample_network_def)
  from far_posts [OF _ _ _ sample_bodies(1,2) this] obtain f1 where f1:
    "sample_http ''POST'' ''/v1/claim'' (Some sample_claim_body) sample_far = (Reply 200 (reply_text (Some (JObj sample_lease))), f1)"
    "sv_ctl (f_server f1) = c1" "f_calls f1 = 1" "sv_token (f_server f1) = ''t''"
    by (auto simp: sample_far_def sample_network_def)
  then have claim: "client_claim sample_http ''w1'' ''NORMAL'' sample_far = (Inr (Some sample_lease), f1)"
    by (simp add: client_claim_def client_call_def sample_claim_body_def sample_bodies(5))
  have "route_post sample_sys (n_repr sample_network) (n_clock sample_network (f_calls f1)) ''/v1/start'' sample_start_body
      (sv_ctl (f_server f1)) = (Inr (200, Some (JObj [(''status'', JStr (fst u)), (''task_id'', JStr (snd u))])), c2)"
    using s f1 by (simp add: start_route answer_Inr case_prod_beta)
  from far_posts [OF _ _ _ sample_bodies(3,4) this] obtain f2 raw where f2:
    "sample_http ''POST'' ''/v1/start'' (Some sample_start_body) f1 = (Reply 200 raw, f2)" "f_calls f2 = 2"
    using f1 by (auto simp: sample_network_def)
  then have start: "client_start sample_http ''dsp-u2'' f1 = (Inr (), f2)"
    by (simp add: client_start_def client_call_def sample_start_body_def)
  have "sample_http ''POST'' ''/v1/result'' (Some (JObj sample_result)) f2
      = (NoReply ''timed out'', snd (far_answer sample_sys sample_network ''POST'' ''/v1/result'' (Some (JObj sample_result)) f2))"
    using f2(2) by (simp add: far_http_def sample_network_def)
  then have "\<exists>f3. client_deliver sample_http (JObj sample_result) f2 = (Inl (ControllerError ''POST /result: timed out''), f3)"
    by (simp add: client_deliver_def client_call_def)
  with claim start that show thesis by blast
qed

lemma sample_resolves: "resolve_spec sample_worker sample_lease = Inr sample_spec"
proof -
  have params: "length (dumps_sorted (JObj [])) = 2" by code_simp
  have ids: "check_spec_id ''task_id'' ''task-u0'' = None" "check_spec_id ''dispatch_id'' ''dsp-u2'' = None"
    "check_spec_id ''worker_id'' ''w1'' = None" "check_spec_id ''result_id'' ''r-dsp-u2'' = None" by code_simp+
  have make: "make_spec sample_spec = Inr sample_spec"
    by (simp add: make_spec_def check_spec_def sample_spec_def ids require_def MAX_ARGV_def MAX_ARGV_BYTES_def MAX_TIMEOUT_S_host_def
        MIN_HEARTBEAT_S_def MAX_HEARTBEAT_S_def)
  have parts: "runner_argv sample_worker ''dsp-u2'' = [''python'', ''runner.py'', ''/h/run/requests/dsp-u2.json'']"
    "path_join (artifacts_root sample_worker) ''dsp-u2'' = ''/h/artifacts/dsp-u2''" "claim_heartbeat sample_worker sample_lease = 7 / 2"
    "effect_key_match ''cfx-d''" by code_simp+
  have spec: "get sample_lease ''spec'' = JObj [(''adapter'', JStr ''synthetic''), (''params'', JObj []),
       (''effect_class'', JStr ''idempotent''), (''timeout_s'', JNull), (''effect_key'', JStr ''cfx-d'')]"
    by (simp add: sample_lease_def get_def)
  have valid: "validate_request sample_worker (get sample_lease ''spec'') = Inr (''synthetic'', [], ''cfx-d'')"
    unfolding spec by (simp add: validate_request_def get_def has_key_def ADAPTERS_def params MAX_PARAMS_BYTES_def sample_worker_def parts(4))
  have fields: "get sample_lease ''task_id'' = JStr ''task-u0''" "get sample_lease ''dispatch_id'' = JStr ''dsp-u2''"
    "get sample_lease ''attempt'' = JInt 1" "get sample_lease ''ttl_s'' = JInt 10"
    by (simp_all add: sample_lease_def get_def)
  let ?s = "[(''adapter'', JStr ''synthetic''), (''params'', JObj []), (''effect_class'', JStr ''idempotent''), (''timeout_s'', JNull),
       (''effect_key'', JStr ''cfx-d'')]"
  have rest: "request_input ?s = Inr None" "claim_timeout ?s = Some 300" "get ?s ''effect_class'' = JStr ''idempotent''"
    by (simp_all add: request_input_def claim_timeout_def get_def DEFAULT_TIMEOUT_S_def MAX_TIMEOUT_S_host_def)
  have "wx_worker_id sample_worker = ''w1''" by (simp add: sample_worker_def)
  then show ?thesis
    using make by (simp add: resolve_spec_def fields valid) (simp add: spec rest parts sample_spec_def)
qed

lemma sample_reports:
  "read_report (it_report sample_iteration) = Inr (Some [(''outcome'', JStr ''success'')])"
  "build_result_payload sample_done (Some [(''outcome'', JStr ''success'')]) ''/h'' = sample_result"
  "safe_dispatch_id ''dsp-u2''" "length (dumps_sorted (JObj sample_result)) \<le> 200"
  "\<not> is_poison (ControllerError ''POST /result: timed out'')"
  by code_simp+

text \<open>The iteration, step by step: nothing to flush, a claim, a start, one round of waiting, a report that stays on disk.\<close>

lemma sample_delivers:
  assumes "client_deliver sample_http (JObj sample_result) (w_far w) = (Inl (ControllerError ''POST /result: timed out''), f3)"
    and "w_disk w = empty_disk" "w_durable w = []"
  shows "\<exists>w'. deliver_payload sample_http 0 sample_result w = (Inr (), w') \<and> w_durable w' = [sample_result]"
proof -
  have id: "get sample_result ''dispatch_id'' = JStr ''dsp-u2''" by (simp add: sample_result_def get_def)
  have "length (dumps_sorted (JObj sample_result)) \<le> MAX_RESULT_PAYLOAD_BYTES"
    using sample_reports(4) by (simp add: MAX_RESULT_PAYLOAD_BYTES_def)
  then have out: "\<exists>d. outbox_write 0 sample_result empty_disk = (Inr (), d)"
    by (simp add: outbox_write_def id sample_reports(3) empty_disk_def OUTBOX_CAP_def)
  then obtain d where d: "write_act 0 sample_result w = (Inr (), w\<lparr>w_disk := d, w_durable := [sample_result]\<rparr>)"
    using assms(2,3) by (auto simp: write_act_def)
  let ?w = "w\<lparr>w_disk := d, w_durable := [sample_result]\<rparr>"
  have "deliver_act sample_http (JObj sample_result) did ?w
      = (Inl (ControllerError ''POST /result: timed out''), ?w\<lparr>w_far := f3\<rparr>)" for did
    using assms(1) by (simp add: deliver_act_def act_bind_def act_far_def)
  then have "\<exists>w'. deliver_first sample_http sample_result ?w = (Inr (), w') \<and> w_durable w' = [sample_result]"
    using sample_reports(5) by (simp add: deliver_first_def act_try_def first_failed_def Let_def)
  with d show ?thesis by (auto simp: deliver_payload_def Let_def write_and_deliver_def act_try_def)
qed

lemma sample_waits:
  "\<not> hs_cancelled h \<Longrightarrow> wait_loop sample_spec (\<lambda>_. sample_round) run_stopped beat 300 0 0 10 0 h
     = Some (Inr sample_ended, h)"
  by (subst wait_loop.simps) (simp add: run_stopped_def sample_round_def quantum_def sample_spec_def sample_ended_def)

lemma sample_iterates:
  "\<exists>h. iterate sample_http sample_worker sample_iteration (new_host sample_far) = Some (Inr ''delivered'', h)
     \<and> w_durable (hs_world h) = [sample_result] \<and> hs_spawned h = [runner_argv sample_worker ''dsp-u2'']"
proof -
  obtain f1 f2 f3 where calls: "client_claim sample_http ''w1'' ''NORMAL'' sample_far = (Inr (Some sample_lease), f1)"
    "client_start sample_http ''dsp-u2'' f1 = (Inr (), f2)"
    "client_deliver sample_http (JObj sample_result) f2 = (Inl (ControllerError ''POST /result: timed out''), f3)"
    by (rule sample_calls)
  have it: "it_time sample_iteration = 0" "it_pressure sample_iteration = None" "it_pressure_run sample_iteration = None"
    "it_spawn_error sample_iteration = None" "it_start sample_iteration = 0" "it_begin sample_iteration = 0"
    "it_rounds sample_iteration = (\<lambda>_. sample_round)" "it_files sample_iteration = Dir [] []"
    by (simp_all add: sample_iteration_def)
  have wk: "wx_worker_id sample_worker = ''w1''" "wx_home sample_worker = ''/h''" by (simp_all add: sample_worker_def)
  have sp: "e_dispatch_id sample_spec = ''dsp-u2''" "e_timeout_s sample_spec = 300" "e_lease_ttl_s sample_spec = 10"
    "e_argv sample_spec = runner_argv sample_worker ''dsp-u2''"
    using resolve_spec_ok(2) [OF sample_resolves] by (simp_all add: sample_spec_def)
  have flush: "flush_outbox sample_http w = (Inr 0, w)" if "w_disk w = empty_disk" for w
    using that by (simp add: flush_outbox_def outbox_read_all_def empty_disk_def List.map_filter_def act_return_def)
  have "collect_artifacts (Dir [] []) = Inr []" by code_simp
  then have run: "x_outcome sample_done = Completed"
    "x_spec sample_done = sample_spec"
    by (simp_all add: sample_done_def sample_ended_def finish_run_def)
  note steps = hs_try_def hs_bind_def hs_modify_def hs_get_def hs_return_def on_world_def on_far_def act_far_def
  have resource: "hs_resource (resource_state sample_iteration h) = ''NORMAL'' \<and> hs_world (resource_state sample_iteration h) = hs_world h
      \<and> hs_spawned (resource_state sample_iteration h) = hs_spawned h \<and> hs_active (resource_state sample_iteration h) = hs_active h"
    if "hs_cooldown h = 0" for h :: "far host"
    using that by (simp add: resource_state_def it)
  have report: "\<exists>h'. report_run sample_http sample_worker sample_iteration sample_done h = Some (Inr ''delivered'', h')
      \<and> w_durable (hs_world h') = [sample_result] \<and> hs_spawned h' = hs_spawned h"
    if w: "w_far (hs_world h) = f2" "w_disk (hs_world h) = empty_disk" "w_durable (hs_world h) = []" for h :: "far host"
  proof -
    obtain w' where "deliver_payload sample_http 0 sample_result (hs_world h) = (Inr (), w')" "w_durable w' = [sample_result]"
      using sample_delivers [of "hs_world h"] calls(3) w by auto
    then show ?thesis
      by (simp add: report_run_def run Let_def sample_reports(1,2) it wk deliver_step_def cleanup_def steps)
  qed
  have run_claim: "\<exists>h'. run_claim sample_http sample_worker sample_iteration sample_spec h = Some (Inr ''delivered'', h')
      \<and> w_durable (hs_world h') = [sample_result] \<and> hs_spawned h' = [runner_argv sample_worker ''dsp-u2'']"
    if w: "w_far (hs_world h) = f1" "w_disk (hs_world h) = empty_disk" "w_durable (hs_world h) = []" "hs_spawned h = []"
      "hs_active h = None" for h :: "far host"
  proof -
    let ?h = "h\<lparr>hs_requests := AList.update (request_path ''/h'' ''dsp-u2'') (request_json sample_worker sample_spec) (hs_requests h),
      hs_world := (hs_world h)\<lparr>w_far := f2\<rparr>, hs_cancelled := False\<rparr>"
    obtain h2 where h2: "run_once sample_http sample_worker sample_iteration sample_spec ?h = Some (Inr sample_done, h2)"
      "hs_world h2 = (hs_world h)\<lparr>w_far := f2\<rparr>" "hs_spawned h2 = [runner_argv sample_worker ''dsp-u2'']"
      using w by (simp add: run_once_def it sp Let_def sample_done_def sample_waits)
    from report [of h2] h2 w obtain h' where "report_run sample_http sample_worker sample_iteration sample_done h2 = Some (Inr ''delivered'', h')"
      "w_durable (hs_world h') = [sample_result]" "hs_spawned h' = [runner_argv sample_worker ''dsp-u2'']" by auto
    with h2(1) calls(2) w(1) show ?thesis by (simp add: run_claim_def write_request_def steps sp wk)
  qed
  let ?h = "resource_state sample_iteration (new_host sample_far)"
  have r: "hs_resource ?h = ''NORMAL''" "hs_world ?h = hs_world (new_host sample_far)" "hs_spawned ?h = []" "hs_active ?h = None"
    using resource [of "new_host sample_far"] by (simp_all add: new_host_def)
  obtain h' where "run_claim sample_http sample_worker sample_iteration sample_spec (?h\<lparr>hs_world := (hs_world ?h)\<lparr>w_far := f1\<rparr>\<rparr>)
      = Some (Inr ''delivered'', h')" "w_durable (hs_world h') = [sample_result]" "hs_spawned h' = [runner_argv sample_worker ''dsp-u2'']"
    using run_claim [of "?h\<lparr>hs_world := (hs_world ?h)\<lparr>w_far := f1\<rparr>\<rparr>"] r by (auto simp: new_host_def)
  moreover have "claim_work sample_http sample_worker sample_iteration ?h = handle_claim sample_http sample_worker sample_iteration sample_lease
      (?h\<lparr>hs_world := (hs_world ?h)\<lparr>w_far := f1\<rparr>\<rparr>)"
    using calls(1) r by (simp add: claim_work_def steps wk) (simp add: new_host_def)
  moreover have "iterate sample_http sample_worker sample_iteration (new_host sample_far) = claim_work sample_http sample_worker sample_iteration ?h"
    using flush [of "hs_world (new_host sample_far)"] by (simp add: iterate_def steps new_host_def split: option.split prod.split sum.split)
  ultimately show ?thesis by (simp add: handle_claim_def sample_resolves)
qed

section \<open>Witnesses\<close>

lemma sample_sound: "env_values sample_sys" "sound_rows.inv sample_sys sample_controller"
proof -
  have "legal_request (CreateTask sample_task)" by code_simp
  moreover show env: "env_values sample_sys" by (simp add: env_values_def sample_sys_def sample_env_def)
  moreover have "sound_rows.inv sample_sys ((init_controller (Some new_journal))\<lparr>k_mode := Normal, k_attached := True\<rparr>)"
    using wf_new_journal by (simp add: sound_rows.inv_def init_controller_def)
  ultimately show "sound_rows.inv sample_sys sample_controller"
    unfolding sample_controller_def by (intro sound_rows.run_requests_inv) simp_all
qed

lemma sample_far_ok: "far_ok sample_sys sample_network sample_far"
  using sample_sound by (simp add: far_ok_def sample_far_def sample_network_def)

lemma sample_sound_steps:
  "ctl_claim sample_sys 0 sample_claim_body sample_controller = (r, c1) \<Longrightarrow> sound_rows.inv sample_sys c1"
  "sound_rows.inv sample_sys c1 \<Longrightarrow> ctl_start sample_sys sample_start_body c1 = (q, c2) \<Longrightarrow> sound_rows.inv sample_sys c2"
proof -
  have "py_value sample_claim_body" "py_value sample_start_body" by code_simp+
  then have legal: "legal_request (Claim 0 sample_claim_body)" "legal_request (Start sample_start_body)" by simp_all
  show "ctl_claim sample_sys 0 sample_claim_body sample_controller = (r, c1) \<Longrightarrow> sound_rows.inv sample_sys c1"
    using sound_rows.run_request_inv [OF sample_sound(1) legal(1) sample_sound(2)] by simp
  show "sound_rows.inv sample_sys c1 \<Longrightarrow> ctl_start sample_sys sample_start_body c1 = (q, c2) \<Longrightarrow> sound_rows.inv sample_sys c2"
    using sound_rows.run_request_inv [OF sample_sound(1) legal(2)] by fastforce
qed

lemma sample_ids: "env_ids sample_sys"
proof -
  have "valid_id (''u'' @ show_int (int (n mod 100)))" for n
  proof -
    have "n mod 100 < 100" by simp
    then have "length (show_nat (n mod 100)) \<le> 100" using show_nat_short [of "n mod 100"] by linarith
    then show ?thesis by (simp add: valid_id_def show_int_def MAX_ID_LENGTH_def del: show_nat_short)
  qed
  then show ?thesis by (simp add: env_ids_def sample_sys_def sample_env_def endswith_def)
qed

lemma sample_reached:
  obtains h where "system_run sample_sys sample_network sample_worker (new_host sample_far) h"
    "w_durable (hs_world h) = [sample_result]" "hs_spawned h = [runner_argv sample_worker ''dsp-u2'']"
  using sample_iterates system_run.iterated [OF system_run.begun] by blast

theorem no_result_lost_witness:
  "\<exists>h. system_run sample_sys sample_network sample_worker (new_host sample_far) h \<and> sample_result \<in> set (w_durable (hs_world h))
     \<and> (in_outbox sample_result (w_disk (hs_world h)) \<or> quarantined_result sample_result (w_disk (hs_world h))
       \<or> journaled sample_sys (JObj sample_result) (w_far (hs_world h))
       \<or> canonical (JObj sample_result) \<in> set (f_refused (w_far (hs_world h))))"
proof -
  obtain h where h: "system_run sample_sys sample_network sample_worker (new_host sample_far) h" "w_durable (hs_world h) = [sample_result]"
    by (rule sample_reached)
  have d: "result_dispatch sample_result = ''dsp-u2''" by code_simp
  then have "stored_for (result_dispatch sample_result) (w_durable (hs_world h)) = Some sample_result"
    using h(2) by (simp add: stored_for_def)
  moreover have "\<not> note_over sample_result (w_disk (hs_world h))"
  proof
    assume "note_over sample_result (w_disk (hs_world h))"
    then obtain did where "''dsp-u2'' = did @ ''.meta''" unfolding note_over_def d by blast
    then have "last ''dsp-u2'' = last (did @ ''.meta'')" by metis
    then show False by simp
  qed
  ultimately show ?thesis using no_result_lost [OF sample_far_ok h(1), of sample_result] h by auto
qed

theorem runs_only_after_start_witness:
  "\<exists>h did. system_run sample_sys sample_network sample_worker (new_host sample_far) h \<and> hs_spawned h \<noteq> []
     \<and> runner_argv sample_worker ''dsp-u2'' = runner_argv sample_worker did \<and> started_far sample_sys did (w_far (hs_world h))"
proof -
  obtain h where h: "system_run sample_sys sample_network sample_worker (new_host sample_far) h"
    "hs_spawned h = [runner_argv sample_worker ''dsp-u2'']" by (rule sample_reached)
  then have "runner_argv sample_worker ''dsp-u2'' \<in> set (hs_spawned h)" by simp
  from runs_only_after_start [OF sample_far_ok h(1) this] h show ?thesis by auto
qed

theorem wait_bounded_witness:
  "\<exists>r s'. wait_loop sample_spec (\<lambda>_. sample_round) run_stopped (\<lambda>h. (Inr True, h)) (0 + e_timeout_s sample_spec) 0 0 10 0
     (new_host sample_far) = Some (r, s') \<and> (\<forall>en. r = Inr en \<longrightarrow> en_wakes en \<le> 2 * nat \<lceil>e_timeout_s sample_spec / quantum sample_spec\<rceil>)"
proof -
  have "make_spec sample_spec = Inr sample_spec" by (rule resolve_spec_ok(1) [OF sample_resolves])
  moreover have "honest_round sample_round" by (simp add: honest_round_def sample_round_def)
  ultimately show ?thesis
    using wait_bounded [of sample_spec "\<lambda>_. sample_round" 0 0 run_stopped "\<lambda>h. (Inr True, h)" 10 "new_host sample_far"] by auto
qed


theorem flush_delivers_witness:
  "\<exists>w'. flush_outbox (\<lambda>_ _ _ c. (Reply 200 [], c)) \<lparr>w_disk = \<lparr>d_outbox = [(''dsp-u2.json'', \<lparr>of_mtime = 0, of_text = dumps_sorted (JObj sample_result)\<rparr>)],
      d_quarantine = []\<rparr>, w_attempts = [], w_durable = [sample_result], w_far = ()\<rparr> = (Inr 0, w') \<and> d_outbox (w_disk w') = []"
proof -
  let ?w = "\<lparr>w_disk = \<lparr>d_outbox = [(''dsp-u2.json'', \<lparr>of_mtime = 0, of_text = dumps_sorted (JObj sample_result)\<rparr>)],
      d_quarantine = []\<rparr>, w_attempts = [], w_durable = [sample_result], w_far = ()\<rparr>"
  have "result_dispatch sample_result = ''dsp-u2''" "entry_name ''dsp-u2'' = ''dsp-u2.json''" "wf_json (JObj sample_result)"
    "get sample_result ''dispatch_id'' = JStr ''dsp-u2''" by code_simp+
  then have "worker_ok ?w"
    using sample_reports(3) by (auto simp: worker_ok_def storable_def dict_wf_def latest_def stored_for_def intro!: exI [of _ sample_result])
  moreover have "\<exists>a c'. client_deliver (\<lambda>_ _ _ c. (Reply 200 [], c)) v c = (Inr a, c') \<and> True" for v and c :: unit
    by (simp add: client_deliver_def client_call_def reply_body_def)
  ultimately have "\<exists>w'. flush_outbox (\<lambda>_ _ _ c. (Reply 200 [], c)) ?w = (Inr 0, w') \<and> d_outbox (w_disk w') = []
      \<and> d_quarantine (w_disk w') = d_quarantine (w_disk ?w)"
    by (rule flush_delivers [where Q = "\<lambda>_. True" and w = ?w, OF _ TrueI])
  then show ?thesis by blast
qed

theorem redelivery_acknowledged_witness:
  "\<exists>c status tid seq c1. ctl_result sample_sys (JObj sample_result) c = (Inr (status, tid, seq), c1)
     \<and> ctl_result sample_sys (JObj sample_result) c1 = (Inr (''ACK_DUPLICATE'', tid, seq), c1\<lparr>k_draws := Suc (k_draws c1)\<rparr>)"
proof -
  obtain r c1 u c2 status tid seq c3 where r: "ctl_claim sample_sys 0 sample_claim_body sample_controller = (Inr (Some r), c1)"
    and u: "ctl_start sample_sys sample_start_body c1 = (Inr u, c2)"
    and s: "ctl_result sample_sys (JObj sample_result) c2 = (Inr (status, tid, seq), c3)" and w: "sample_writable c3"
    by (rule sample_steps)
  have inv: "sound_rows.inv sample_sys c2" using sample_sound_steps(2) [OF sample_sound_steps(1) [OF r] u] .
  have run: "\<exists>j. k_file c2 = Some j" using s by (elim ctl_result_InrD) simp_all
  then obtain j where j: "k_file c2 = Some j" "wf_journal (x_H sample_sys) j" using inv by (auto simp: sound_rows.inv_def)
  have "wf_json (JObj sample_result)" by code_simp
  with redelivery_acknowledged [OF sample_sound(1) sample_ids j _ s, where rs = "[]" and p = sample_result] w
  have "ctl_result sample_sys (JObj sample_result) c3 = (Inr (''ACK_DUPLICATE'', tid, seq), c3\<lparr>k_draws := Suc (k_draws c3)\<rparr>)"
    by (simp add: run_requests_def sample_writable_def)
  with s show ?thesis by blast
qed


end
