(* ===== verification/Event_Stream.thy ===== *)
theory Event_Stream
  imports Json_Spaced Http_Front Controller_Evidence
begin

text \<open>
  The event stream from the controller to a running worker: \<open>_pump_events\<close> of courier\_core/serve.py
  prints journal events as server-sent events, \<open>CancelWatcher\<close> of courier\_worker/service.py reads them and
  sets a flag when its task is cancelled. The text is ASCII (proved), so bytes are characters. Of the
  waiting only the rounds are left: the controller as each round finds it, and the pieces in which the text
  arrives.
\<close>

section \<open>The server\<close>

definition SSE_KEEPALIVE_S :: rat where "SSE_KEEPALIVE_S = 15"

definition SSE_FLUSH_PADDING :: string where
  "SSE_FLUSH_PADDING = CHR '':'' # replicate 2048 CHR '' '' @ [CHR 0x0A, CHR 0x0A]"

definition KEEPALIVE :: string where
  "KEEPALIVE = '': keepalive'' @ [CHR 0x0A, CHR 0x0A]"

text \<open>The variables of the loop.\<close>

record pump =
  pm_last :: int
  pm_idle :: rat
  pm_caught_up :: bool

definition new_pump :: "int \<Rightarrow> pump" where
  "new_pump after = \<lparr>pm_last = after, pm_idle = 0, pm_caught_up = True\<rparr>"

definition seq_after :: "int \<Rightarrow> event list \<Rightarrow> int" where
  "seq_after n es = (if es = [] then n else case ev_seq (last es) of Some s \<Rightarrow> s | None \<Rightarrow> n)"

text \<open>One round: a batch, or the padding after the last batch and a comment every 15 seconds.\<close>

definition pump_round :: "pump \<Rightarrow> controller \<Rightarrow> (string \<times> pump) result" where
  "pump_round pm c = bind_result (fst (events_after (pm_last pm) 500 c)) (\<lambda>batch.
     if batch \<noteq> [] then
       Inr (concat (map sse_record batch), \<lparr>pm_last = seq_after (pm_last pm) batch, pm_idle = 0, pm_caught_up = False\<rparr>)
     else (let idle = pm_idle pm + 1; beat = SSE_KEEPALIVE_S \<le> idle in
       Inr ((if pm_caught_up pm then [] else SSE_FLUSH_PADDING) @ (if beat then KEEPALIVE else []),
         pm\<lparr>pm_idle := (if beat then 0 else idle), pm_caught_up := True\<rparr>)))"

fun pump_rounds :: "pump \<Rightarrow> controller list \<Rightarrow> (string \<times> pump) result" where
  "pump_rounds pm [] = Inr ([], pm)"
| "pump_rounds pm (c # cs) = bind_result (pump_round pm c) (\<lambda>(text, pm').
     bind_result (pump_rounds pm' cs) (\<lambda>(rest, pm''). Inr (text @ rest, pm'')))"

section \<open>The watcher\<close>

definition CANCEL_TYPES :: "string list" where
  "CANCEL_TYPES = [''TASK_CANCEL_REQUESTED'', ''TASK_CANCELLED'']"

text \<open>\<open>wt_buf\<close> is what is left of \<open>buf\<close> after the last line break.\<close>

record watch =
  wt_buf :: string
  wt_lines :: "string list"
  wt_cancelled :: bool

definition new_watch :: watch where
  "new_watch = \<lparr>wt_buf = [], wt_lines = [], wt_cancelled = False\<rparr>"

fun join_lines :: "string list \<Rightarrow> string" where
  "join_lines [] = []"
| "join_lines [l] = l"
| "join_lines (l # m # ls) = l @ CHR 0x0A # join_lines (m # ls)"

text \<open>\<open>a or b\<close>\<close>

definition json_or :: "json \<Rightarrow> json \<Rightarrow> json" where
  "json_or a b = (if truthy a then a else b)"

text \<open>\<open>_dispatch_event\<close>: whether the event cancels the task; an unhashable type raises.\<close>

definition cancel_event :: "string \<Rightarrow> string list \<Rightarrow> bool result" where
  "cancel_event task ls = (if ls = [] then Inr False else case loads (join_lines ls) of
     Inr (JObj d) \<Rightarrow>
       (let inner = (case get d ''payload'' of JObj p \<Rightarrow> p | _ \<Rightarrow> []);
            kind = json_or (json_or (get d ''type'') (get d ''event_type'')) (get inner ''type'') in
        bind_result (in_str_set kind CANCEL_TYPES) (\<lambda>b.
          Inr (b \<and> json_or (get d ''task_id'') (get inner ''task_id'') = JStr task)))
   | _ \<Rightarrow> Inr False)"

definition watch_line :: "string \<Rightarrow> string \<Rightarrow> watch \<Rightarrow> watch result" where
  "watch_line task line w = (let text = strip line in
     if text = [] then bind_result (cancel_event task (wt_lines w)) (\<lambda>b.
       Inr (w\<lparr>wt_lines := [], wt_cancelled := wt_cancelled w \<or> b\<rparr>))
     else if startswith text ''data:'' then Inr (w\<lparr>wt_lines := wt_lines w @ [strip (drop 5 text)]\<rparr>)
     else Inr w)"

text \<open>\<open>while b"\n" in buf: line, buf = buf.split(b"\n", 1)\<close>\<close>

fun watch_text :: "string \<Rightarrow> string \<Rightarrow> watch \<Rightarrow> watch result" where
  "watch_text task [] w = Inr w"
| "watch_text task (c # cs) w = (if c = CHR 0x0A
     then bind_result (watch_line task (wt_buf w) (w\<lparr>wt_buf := []\<rparr>)) (watch_text task cs)
     else watch_text task cs (w\<lparr>wt_buf := wt_buf w @ [c]\<rparr>))"

text \<open>The loop of \<open>_subscribe\<close> over the chunks that arrive before the end of the stream.\<close>

fun watch_stream :: "string \<Rightarrow> string list \<Rightarrow> watch \<Rightarrow> watch result" where
  "watch_stream task [] w = Inr w"
| "watch_stream task (chunk # chunks) w = (if wt_cancelled w then Inr w
     else bind_result (watch_text task chunk w) (watch_stream task chunks))"

section \<open>Cutting the text does not matter\<close>

lemma watch_text_append: "watch_text task (s @ t) w = bind_result (watch_text task s w) (watch_text task t)"
proof (induction s arbitrary: w)
  case (Cons c s)
  show ?case
  proof (cases "c = CHR 0x0A")
    case True
    then show ?thesis
      using Cons by (cases "watch_line task (wt_buf w) (w\<lparr>wt_buf := []\<rparr>)") simp_all
  qed (use Cons in simp)
qed simp

lemma watch_text_mono: "watch_text task s w = Inr w' \<Longrightarrow> wt_cancelled w \<Longrightarrow> wt_cancelled w'"
proof (induction s arbitrary: w)
  case (Cons c s)
  then show ?case
    by (auto simp: watch_line_def Let_def bind_result_eq_Inr split: if_splits)
qed simp

lemma watch_stream_text:
  assumes "watch_text task (concat chunks) w = Inr w'"
  shows "\<exists>v. watch_stream task chunks w = Inr v \<and> wt_cancelled v = wt_cancelled w'"
  using assms
proof (induction chunks arbitrary: w)
  case (Cons c cs)
  from Cons.prems obtain w1 where w1: "watch_text task c w = Inr w1" "watch_text task (concat cs) w1 = Inr w'"
    by (auto simp: watch_text_append bind_result_eq_Inr)
  show ?case
  proof (cases "wt_cancelled w")
    case True
    then show ?thesis using watch_text_mono Cons.prems by auto
  qed (use w1 Cons.IH in simp)
qed simp

section \<open>Reading back what the server printed\<close>

lemma watch_plain:
  "CHR 0x0A \<notin> set s \<Longrightarrow> watch_text task (s @ CHR 0x0A # t) w
     = bind_result (watch_line task (wt_buf w @ s) (w\<lparr>wt_buf := []\<rparr>)) (watch_text task t)"
  by (induction s arbitrary: w) auto

lemma empty_buf: "wt_buf v = [] \<Longrightarrow> v\<lparr>wt_buf := []\<rparr> = v"
  by (cases v) simp

lemma empty_lines: "wt_lines v = [] \<Longrightarrow> v\<lparr>wt_lines := []\<rparr> = v"
  by (cases v) simp

lemma watch_skip:
  "CHR 0x0A \<notin> set l \<Longrightarrow> wt_buf v = [] \<Longrightarrow> (\<And>v. watch_line task l v = Inr v) \<Longrightarrow>
   watch_text task (l @ CHR 0x0A # r) v = watch_text task r v"
  by (simp add: watch_plain empty_buf)

lemma printable_no_break: "list_all printable_ascii s \<Longrightarrow> CHR 0x0A \<notin> set s"
  by (auto simp: list_all_iff printable_ascii_def char_code_def)

lemma strip_head: "\<not> is_space c \<Longrightarrow> \<exists>t. strip (c # s) = c # t"
proof -
  assume c: "\<not> is_space c"
  have "dropWhile is_space (rev s @ [c]) \<noteq> []" "last (dropWhile is_space (rev s @ [c])) = c"
    using c by (induction "rev s") (auto simp: dropWhile_append)
  then have "hd (rev (dropWhile is_space (rev s @ [c]))) = c" "rev (dropWhile is_space (rev s @ [c])) \<noteq> []"
    by (simp_all add: hd_rev)
  then show ?thesis using c by (cases "rev (dropWhile is_space (rev s @ [c]))") (simp_all add: strip_def)
qed

lemma strip_closed: "\<not> is_space (hd s) \<Longrightarrow> \<not> is_space (last s) \<Longrightarrow> s \<noteq> [] \<Longrightarrow> strip s = s"
proof -
  assume "\<not> is_space (hd s)" "\<not> is_space (last s)" "s \<noteq> []"
  then have "dropWhile is_space s = s" "dropWhile is_space (rev s) = rev s" by (simp_all add: dropWhile_eq_self_iff hd_rev)
  then show ?thesis by (simp add: strip_def)
qed

lemma ignored_line: "\<not> is_space c \<Longrightarrow> c \<noteq> CHR ''d'' \<Longrightarrow> watch_line task (c # s) w = Inr w"
  using strip_head [of c s] by (auto simp: watch_line_def startswith_def)

lemma blank_line_read: "watch_line task [] w = bind_result (cancel_event task (wt_lines w)) (\<lambda>b.
    Inr (w\<lparr>wt_lines := [], wt_cancelled := wt_cancelled w \<or> b\<rparr>))"
  by (simp add: watch_line_def strip_def)

definition cancels :: "string \<Rightarrow> event \<Rightarrow> bool" where
  "cancels task e \<longleftrightarrow> ev_type e \<in> {TASK_CANCEL_REQUESTED, TASK_CANCELLED} \<and> ev_task_id e = Some task"

lemma event_json_wf: "wf_event e \<Longrightarrow> wf_json (event_json e)"
  by (cases "ev_seq e"; cases "ev_task_id e"; cases "ev_attempt e"; cases "ev_dispatch_id e"; cases "ev_worker_id e"; cases "ev_result_id e";
      cases "ev_hash e"; simp add: event_json_def wf_event_def)

lemma type_value_shape: "type_value t \<noteq> [] \<and> list_all printable_ascii (type_value t)
    \<and> (type_value t \<in> set CANCEL_TYPES \<longleftrightarrow> t \<in> {TASK_CANCEL_REQUESTED, TASK_CANCELLED})"
  by (cases t; simp add: CANCEL_TYPES_def printable_ascii_def char_code_def)

lemma event_json_cancels:
  assumes "wf_event e"
  shows "cancel_event task [dumps_ascii (event_json e)] = Inr (cancels task e)"
proof -
  have sys: "ev_type e \<in> {TASK_CANCEL_REQUESTED, TASK_CANCELLED} \<Longrightarrow> \<exists>t. ev_task_id e = Some t \<and> t \<noteq> []"
    using validate_task_id [of e] assms by (auto simp: wf_event_def SYSTEM_EVENTS_def valid_id_def)
  obtain d where d: "event_json e = JObj d" "get d ''type'' = JStr (type_value (ev_type e))" "get d ''payload'' = JObj (ev_payload e)"
    "get d ''task_id'' = opt_str (ev_task_id e)" by (simp add: event_json_def get_def)
  show ?thesis
    using sys type_value_shape [of "ev_type e"] d loads_ascii [OF event_json_wf [OF assms]]
    by (cases "ev_task_id e") (auto simp: cancel_event_def json_or_def cancels_def Let_def)
qed

lemma not_space_ends: "\<not> is_space CHR ''d''" "\<not> is_space CHR ''{''" "\<not> is_space CHR ''}''" "\<not> is_space CHR ''i''" "\<not> is_space CHR ''e''"
  "\<not> is_space CHR '':''" "is_space CHR '' ''"
  by (simp_all add: is_space_def char_code_def)

lemma data_line_read:
  "watch_line task (''data: '' @ dumps_ascii (JObj d)) w = Inr (w\<lparr>wt_lines := wt_lines w @ [dumps_ascii (JObj d)]\<rparr>)"
proof -
  have "strip (''data: '' @ dumps_ascii (JObj d)) = ''data: '' @ dumps_ascii (JObj d)"
    by (rule strip_closed) (simp_all add: not_space_ends)
  moreover have "strip (dumps_ascii (JObj d)) = dumps_ascii (JObj d)"
    by (rule strip_closed) (simp_all add: not_space_ends)
  then have "strip (CHR '' '' # dumps_ascii (JObj d)) = dumps_ascii (JObj d)" by (simp add: strip_def not_space_ends)
  ultimately show ?thesis by (simp add: watch_line_def startswith_def)
qed

lemma show_opt_printable: "list_all printable_ascii (show_opt_int n)"
  using show_int_printable by (cases n) (simp_all add: show_opt_int_def printable_ascii_def char_code_def)

lemma record_read:
  assumes "wf_event e" "wt_buf w = []" "wt_lines w = []"
  shows "watch_text task (sse_record e @ t) w = watch_text task t (w\<lparr>wt_cancelled := wt_cancelled w \<or> cancels task e\<rparr>)"
proof -
  obtain d where d: "event_json e = JObj d" by (simp add: event_json_def)
  have marks: "list_all printable_ascii ''id: ''" "list_all printable_ascii ''event: ''" "list_all printable_ascii ''data: ''"
    by (simp_all add: printable_ascii_def char_code_def)
  have n: "CHR 0x0A \<notin> set (''id: '' @ show_opt_int (ev_seq e))"
    by (rule printable_no_break) (use marks show_opt_printable in \<open>simp only: list_all_append\<close>)
  have y: "CHR 0x0A \<notin> set (''event: '' @ type_value (ev_type e))"
    by (rule printable_no_break) (use marks type_value_shape [of "ev_type e"] in \<open>simp only: list_all_append\<close>)
  have j: "CHR 0x0A \<notin> set (''data: '' @ dumps_ascii (event_json e))"
    by (rule printable_no_break)
      (use marks dumps_ascii_printable(1) [OF event_json_wf [OF assms(1)]] in \<open>simp only: list_all_append\<close>)
  have skip: "watch_line task (''id: '' @ r) v = Inr v" "watch_line task (''event: '' @ r) v = Inr v" for r v
    by (simp_all add: ignored_line not_space_ends)
  have blank: "watch_text task (CHR 0x0A # r) v = bind_result (cancel_event task (wt_lines v)) (\<lambda>b.
      watch_text task r (v\<lparr>wt_buf := [], wt_lines := [], wt_cancelled := wt_cancelled v \<or> b\<rparr>))" if "wt_buf v = []" for r v
    using that by (cases "cancel_event task (wt_lines v)") (simp_all add: blank_line_read)
  let ?i = "''id: '' @ show_opt_int (ev_seq e)" and ?y = "''event: '' @ type_value (ev_type e)"
    and ?j = "''data: '' @ dumps_ascii (event_json e)" and ?n = "CHR 0x0A"
  let ?w = "w\<lparr>wt_lines := [dumps_ascii (event_json e)]\<rparr>"
  have s0: "sse_record e @ t = ?i @ ?n # ?y @ ?n # ?j @ ?n # ?n # t" by (simp add: sse_record_def)
  have s1: "watch_text task (?i @ ?n # r) w = watch_text task r w" for r by (rule watch_skip [OF n assms(2) skip(1)])
  have s2: "watch_text task (?y @ ?n # r) w = watch_text task r w" for r by (rule watch_skip [OF y assms(2) skip(2)])
  have s3: "watch_text task (?j @ ?n # r) w = watch_text task r ?w" for r
    using watch_plain [OF j, of task r w] assms(2,3) data_line_read [of task d] d empty_buf [OF assms(2)] by simp
  have s4: "watch_text task (?n # t) ?w = watch_text task t (w\<lparr>wt_cancelled := wt_cancelled w \<or> cancels task e\<rparr>)"
    using blank [of ?w t] assms(2,3) event_json_cancels [OF assms(1), of task] empty_buf [OF assms(2)]
      empty_lines [OF assms(3)] by simp
  show ?thesis unfolding s0 s1 s2 s3 s4 ..
qed

section \<open>The journal through the stream\<close>

text \<open>What the watcher knows after any text that ends at a record's end.\<close>

definition watch_at_rest :: "watch \<Rightarrow> bool" where
  "watch_at_rest w \<longleftrightarrow> wt_buf w = [] \<and> wt_lines w = []"

lemma records_read:
  assumes "\<forall>e\<in>set es. wf_event e" "watch_at_rest w"
  shows "watch_text task (concat (map sse_record es) @ t) w
    = watch_text task t (w\<lparr>wt_cancelled := wt_cancelled w \<or> (\<exists>e\<in>set es. cancels task e)\<rparr>)"
  using assms
proof (induction es arbitrary: w)
  case (Cons e es)
  then have "watch_text task (sse_record e @ concat (map sse_record es) @ t) w
      = watch_text task (concat (map sse_record es) @ t) (w\<lparr>wt_cancelled := wt_cancelled w \<or> cancels task e\<rparr>)"
    by (intro record_read) (simp_all add: watch_at_rest_def)
  moreover have "watch_at_rest (w\<lparr>wt_cancelled := b\<rparr>)" for b using Cons.prems(2) by (simp add: watch_at_rest_def)
  ultimately show ?case using Cons by (simp add: disj_assoc)
qed simp

lemma comment_read:
  assumes "CHR 0x0A \<notin> set s" "watch_at_rest w"
  shows "watch_text task ((CHR '':'' # s) @ CHR 0x0A # CHR 0x0A # t) w = watch_text task t w"
proof -
  have "watch_text task ((CHR '':'' # s) @ CHR 0x0A # (CHR 0x0A # t)) w = watch_text task (CHR 0x0A # t) w"
    by (rule watch_skip) (use assms in \<open>simp_all add: watch_at_rest_def ignored_line not_space_ends\<close>)
  moreover have "w\<lparr>wt_buf := [], wt_lines := [], wt_cancelled := wt_cancelled w\<rparr> = w"
    using assms(2) by (cases w) (simp add: watch_at_rest_def)
  ultimately show ?thesis using assms(2) by (simp add: watch_at_rest_def blank_line_read cancel_event_def)
qed

lemma quiet_text_read:
  assumes "watch_at_rest w"
  shows "watch_text task (SSE_FLUSH_PADDING @ t) w = watch_text task t w" "watch_text task (KEEPALIVE @ t) w = watch_text task t w"
  using comment_read [of "replicate 2048 CHR '' ''" w task t] comment_read [of "'' keepalive''" w task t] assms
  by (simp_all add: SSE_FLUSH_PADDING_def KEEPALIVE_def)

text \<open>A batch is the next stretch of the journal.\<close>

lemma journal_after:
  assumes "journal_of H es j" "n \<le> length es"
  shows "filter (\<lambda>r. int n < r_seq r) (rows_by_seq j) = map row_of (drop n es)"
proof -
  have seqs: "map ev_seq es = map (\<lambda>i. Some (1 + int i)) [0..<length es]"
    using chain_from_seqs [OF journal_ofD(3) [OF assms(1)]] .
  have seq: "r_seq (row_of (es ! i)) = 1 + int i" if "i < length es" for i
    using arg_cong [OF seqs, of "\<lambda>xs. xs ! i"] that by (simp add: row_of_def)
  have "filter (\<lambda>r. int n < r_seq r) (map row_of (take n es)) = []"
    using seq assms(2) by (auto simp: filter_empty_conv in_set_conv_nth)
  moreover have "filter (\<lambda>r. int n < r_seq r) (map row_of (drop n es)) = map row_of (drop n es)"
    using seq assms(2) by (auto simp: filter_id_conv in_set_conv_nth)
  moreover have "map row_of es = map row_of (take n es) @ map row_of (drop n es)" by (simp flip: map_append)
  ultimately show ?thesis by (simp add: rows_by_seq_of [OF assms(1)])
qed

lemma valid_prefix_rows: "\<forall>e\<in>set es. from_row (row_of e) = Inr e \<Longrightarrow> valid_prefix (map row_of es) = Inr es"
  by (induction es) simp_all

lemma events_after_of:
  assumes "journal_of H es j" "k_file c = Some j" "n \<le> length es"
  shows "events_after (int n) limit c = (Inr (take limit (drop n es)), c)"
proof -
  have "\<forall>e\<in>set (take limit (drop n es)). from_row (row_of e) = Inr e"
    using wf_log_from_row [OF journal_ofD(1) [OF assms(1)]] by (auto dest: in_set_takeD in_set_dropD)
  then show ?thesis
    using valid_prefix_rows [of "take limit (drop n es)"] journal_after [OF assms(1,3)] assms(2)
    by (simp add: events_after_def op_bind_def op_get_def op_lift_def take_map)
qed

lemma batch_end:
  assumes "journal_of H es j" "n \<le> length es" "take 500 (drop n es) \<noteq> []"
  shows "seq_after k (take 500 (drop n es)) = int (n + length (take 500 (drop n es)))"
proof -
  let ?b = "take 500 (drop n es)"
  have i: "last ?b = es ! (n + length ?b - 1)" "n + length ?b - 1 < length es" "length ?b \<noteq> 0"
    using assms(2,3) by (simp_all add: last_conv_nth)
  let ?k = "n + length ?b - 1"
  have "ev_seq (es ! ?k) = map ev_seq es ! ?k" using i(2) by simp
  also have "\<dots> = Some (1 + int ?k)" unfolding chain_from_seqs [OF journal_ofD(3) [OF assms(1)]] using i(2) by simp
  finally have "ev_seq (last ?b) = Some (int (n + length ?b))" using i(1,3) by simp
  then show ?thesis using assms(3) by (simp add: seq_after_def)
qed

text \<open>One round: the next stretch of the journal, and no more of it once the round was quiet.\<close>

lemma round_read:
  assumes "journal_of H es j" "k_file c = Some j" "pm_last pm = int n" "n \<le> length es"
  shows "\<exists>text pm' m. pump_round pm c = Inr (text, pm') \<and> pm_last pm' = int m \<and> n \<le> m \<and> m \<le> length es
    \<and> (pm_caught_up pm' \<or> length es \<le> 500 \<longrightarrow> m = length es)
    \<and> (\<forall>w t. watch_at_rest w \<longrightarrow> watch_text task (text @ t) w
          = watch_text task t (w\<lparr>wt_cancelled := wt_cancelled w \<or> (\<exists>e\<in>set (take (m - n) (drop n es)). cancels task e)\<rparr>))"
proof -
  let ?b = "take 500 (drop n es)"
  have after: "fst (events_after (pm_last pm) 500 c) = Inr ?b" using events_after_of [OF assms(1,2,4)] assms(3) by simp
  show ?thesis
  proof (cases "?b = []")
    case True
    then have n: "n = length es" using assms(4) by simp
    obtain pm' where "pump_round pm c = Inr ((if pm_caught_up pm then [] else SSE_FLUSH_PADDING)
        @ (if SSE_KEEPALIVE_S \<le> pm_idle pm + 1 then KEEPALIVE else []), pm')" "pm_last pm' = int n"
      using after True assms(3) by (simp add: pump_round_def Let_def)
    moreover have "w\<lparr>wt_cancelled := wt_cancelled w\<rparr> = w" for w by (cases w) simp
    ultimately show ?thesis using n quiet_text_read by (intro exI conjI allI impI) auto
  next
    case False
    have wf: "\<forall>e\<in>set ?b. wf_event e" using journal_ofD(4) [OF assms(1)] by (auto dest: in_set_takeD in_set_dropD)
    let ?m = "n + length ?b"
    have "take (?m - n) (drop n es) = ?b" by (simp add: min_def)
    moreover have "pump_round pm c = Inr (concat (map sse_record ?b), \<lparr>pm_last = int ?m, pm_idle = 0, pm_caught_up = False\<rparr>)"
      using after False batch_end [OF assms(1,4) False] by (simp add: pump_round_def)
    moreover have "?m \<le> length es" using assms(4) by simp
    ultimately show ?thesis using records_read [OF wf] by (intro exI [of _ ?m] exI conjI allI impI) auto
  qed
qed

text \<open>The controllers the rounds see: before each round come some requests.\<close>

fun watched :: "env \<Rightarrow> request list list \<Rightarrow> controller \<Rightarrow> controller list" where
  "watched x [] c = []"
| "watched x (rs # rss) c = run_requests x rs c # watched x rss (run_requests x rs c)"

lemma take_drop_split: "n \<le> k \<Longrightarrow> k \<le> m \<Longrightarrow> take (m - n) (drop n xs) = take (k - n) (drop n xs) @ take (m - k) (drop k xs)"
  using take_add [of "k - n" "m - k" "drop n xs"] by simp

lemma rounds_read:
  assumes "env_values x" "list_all (list_all legal_request) rss" "journal_of (x_H x) es j" "k_file c = Some j"
    "pm_last pm = int n" "n \<le> length es"
  shows "\<exists>text pm' es' j' m. pump_rounds pm (watched x rss c) = Inr (text, pm') \<and> journal_of (x_H x) (es @ es') j'
    \<and> k_file (run_requests x (concat rss) c) = Some j' \<and> pm_last pm' = int m \<and> n \<le> m \<and> m \<le> length (es @ es')
    \<and> ((rss \<noteq> [] \<or> (pm_caught_up pm \<or> length es \<le> 500 \<longrightarrow> n = length es)) \<and> (pm_caught_up pm' \<or> length (es @ es') \<le> 500)
          \<longrightarrow> m = length (es @ es'))
    \<and> (\<forall>w t. watch_at_rest w \<longrightarrow> watch_text task (text @ t) w = watch_text task t
          (w\<lparr>wt_cancelled := wt_cancelled w \<or> (\<exists>e\<in>set (take (m - n) (drop n (es @ es'))). cancels task e)\<rparr>))"
  using assms(2-)
proof (induction rss arbitrary: c es j n pm)
  case Nil
  have "w\<lparr>wt_cancelled := wt_cancelled w\<rparr> = w" for w by (cases w) simp
  with Nil show ?case
    by (intro exI [of _ "[]"] exI [of _ pm] exI [of _ "[]"] exI [of _ j] exI [of _ n]) (auto simp: run_requests_def)
next
  case (Cons rs rss)
  let ?c = "run_requests x rs c"
  have legal: "list_all legal_request rs" "list_all (list_all legal_request) rss" using Cons.prems(1) by simp_all
  obtain j1 fs where j1: "k_file ?c = Some j1" "journal_of (x_H x) (es @ fs) j1"
    using continued_log [OF requests_continue [OF assms(1) legal(1)] Cons.prems(3,2)] .
  have "n \<le> length (es @ fs)" using Cons.prems(5) by simp
  from round_read [OF j1(2,1) Cons.prems(4) this, of task] obtain t1 pm1 m1 where
    r1: "pump_round pm ?c = Inr (t1, pm1)" "pm_last pm1 = int m1" "n \<le> m1" "m1 \<le> length (es @ fs)"
      "pm_caught_up pm1 \<or> length (es @ fs) \<le> 500 \<longrightarrow> m1 = length (es @ fs)"
    and w1: "\<And>w t. watch_at_rest w \<Longrightarrow> watch_text task (t1 @ t) w = watch_text task t
        (w\<lparr>wt_cancelled := wt_cancelled w \<or> (\<exists>e\<in>set (take (m1 - n) (drop n (es @ fs))). cancels task e)\<rparr>)" by blast
  from Cons.IH [OF legal(2) j1(2,1) r1(2,4)] obtain t2 pm2 es2 j2 m2 where
    r2: "pump_rounds pm1 (watched x rss ?c) = Inr (t2, pm2)" "journal_of (x_H x) ((es @ fs) @ es2) j2"
      "k_file (run_requests x (concat rss) ?c) = Some j2" "pm_last pm2 = int m2" "m1 \<le> m2" "m2 \<le> length ((es @ fs) @ es2)"
      "pm_caught_up pm2 \<or> length ((es @ fs) @ es2) \<le> 500 \<longrightarrow> m2 = length ((es @ fs) @ es2)"
    and w2: "\<And>w t. watch_at_rest w \<Longrightarrow> watch_text task (t2 @ t) w = watch_text task t
        (w\<lparr>wt_cancelled := wt_cancelled w \<or> (\<exists>e\<in>set (take (m2 - m1) (drop m1 ((es @ fs) @ es2))). cancels task e)\<rparr>)"
    using r1(5) by blast
  let ?L = "(es @ fs) @ es2"
  have "take (m1 - n) (drop n ?L) = take (m1 - n) (drop n (es @ fs))" using r1(3,4) by simp
  then have seen: "(\<exists>e\<in>set (take (m2 - n) (drop n ?L)). cancels task e) \<longleftrightarrow>
      (\<exists>e\<in>set (take (m1 - n) (drop n (es @ fs))). cancels task e) \<or> (\<exists>e\<in>set (take (m2 - m1) (drop m1 ?L)). cancels task e)"
    by (simp only: take_drop_split [OF r1(3) r2(5), of ?L] set_append bex_Un)
  have "watch_text task ((t1 @ t2) @ t) w = watch_text task t
      (w\<lparr>wt_cancelled := wt_cancelled w \<or> (\<exists>e\<in>set (take (m2 - n) (drop n ?L)). cancels task e)\<rparr>)" if "watch_at_rest w" for w t
  proof -
    have "watch_at_rest (w\<lparr>wt_cancelled := b\<rparr>)" for b using that by (simp add: watch_at_rest_def)
    then show ?thesis using w1 [OF that, of "t2 @ t"] w2 by (simp add: seen disj_assoc append_assoc [of t1 t2 t] del: take_append drop_append append_assoc)
  qed
  moreover have "pump_rounds pm (watched x (rs # rss) c) = Inr (t1 @ t2, pm2)" using r1(1) r2(1) by simp
  moreover have "k_file (run_requests x (concat (rs # rss)) c) = Some j2" using r2(3) by (simp add: run_requests_def)
  ultimately show ?case
    using r1(3) r2(2,4-7) by (intro exI [of _ "t1 @ t2"] exI [of _ pm2] exI [of _ "fs @ es2"] exI [of _ j2] exI [of _ m2]) simp
qed

text \<open>
  A cancellation reaches the worker: let the stream of a new watcher run for any rounds, with any requests
  to the controller before each, and let its text arrive in any pieces. Then nothing fails, and the watcher's
  flag is set just if the part of the journal sent so far holds a cancellation of its task; once a round was
  quiet, or if the journal fits one batch, this is the whole journal.
\<close>

theorem cancellation_reaches_worker:
  assumes "env_values x" and "list_all (list_all legal_request) rss" and "k_file c = Some j" and "wf_journal (x_H x) j"
  shows "\<exists>text pm es j'. pump_rounds (new_pump 0) (watched x rss c) = Inr (text, pm)
    \<and> k_file (run_requests x (concat rss) c) = Some j' \<and> journal_of (x_H x) es j'
    \<and> (rss \<noteq> [] \<and> (pm_caught_up pm \<or> length es \<le> 500) \<longrightarrow> nat (pm_last pm) = length es)
    \<and> (\<forall>chunks. concat chunks = text \<longrightarrow> (\<exists>w. watch_stream task chunks new_watch = Inr w
         \<and> (wt_cancelled w \<longleftrightarrow> (\<exists>e\<in>set (take (nat (pm_last pm)) es). cancels task e))))"
proof -
  obtain es where es: "journal_of (x_H x) es j" using assms(4) by (auto simp: wf_journal_def)
  have "pm_last (new_pump 0) = int 0" "0 \<le> length es" by (simp_all add: new_pump_def)
  from rounds_read [OF assms(1,2) es assms(3) this, of task] obtain out pm es' j' m where
    r: "pump_rounds (new_pump 0) (watched x rss c) = Inr (out, pm)" "journal_of (x_H x) (es @ es') j'"
      "k_file (run_requests x (concat rss) c) = Some j'" "pm_last pm = int m"
      "rss \<noteq> [] \<and> (pm_caught_up pm \<or> length (es @ es') \<le> 500) \<longrightarrow> m = length (es @ es')"
    and w: "\<And>w t. watch_at_rest w \<Longrightarrow> watch_text task (out @ t) w = watch_text task t
        (w\<lparr>wt_cancelled := wt_cancelled w \<or> (\<exists>e\<in>set (take (m - 0) (drop 0 (es @ es'))). cancels task e)\<rparr>)"
    by blast
  let ?seen = "\<exists>e\<in>set (take (nat (pm_last pm)) (es @ es')). cancels task e"
  have "watch_text task out new_watch = Inr (new_watch\<lparr>wt_cancelled := ?seen\<rparr>)"
    using w [of new_watch "[]"] r(4) by (simp add: new_watch_def watch_at_rest_def del: take_append)
  then have "\<exists>v. watch_stream task chunks new_watch = Inr v \<and> wt_cancelled v = ?seen" if "concat chunks = out" for chunks
    using watch_stream_text [of task chunks new_watch] that by fastforce
  then show ?thesis using r by (intro exI [of _ out] exI [of _ pm] exI [of _ "es @ es'"] exI [of _ j'])
    (simp del: take_append length_append)
qed

definition stream_env :: env where
  "stream_env = sample_env\<lparr>x_H := (\<lambda>_. ''d'')\<rparr>"

definition stream_start :: controller where
  "stream_start = run_requests stream_env [Boot 0] (init_controller None)"

definition sample_cancel :: "request list list" where
  "sample_cancel = [[CreateTask sample_body], [CancelTask ''task-u1'' (JObj [])]]"

lemma stream_boot: "case k_file stream_start of None \<Rightarrow> False | Some j \<Rightarrow> True"
  by code_simp

lemma sample_cancel_run:
  "case k_file (run_requests stream_env (concat sample_cancel) stream_start) of
     Some j \<Rightarrow> length (j_events j) \<le> 10 \<and> list_ex (\<lambda>r. r_type r = ''TASK_CANCELLED'' \<and> r_task_id r = Some ''task-u1'') (j_events j)
   | None \<Rightarrow> False"
  by code_simp

theorem cancellation_reaches_worker_witness:
  "\<exists>out pm w. pump_rounds (new_pump 0) (watched stream_env sample_cancel stream_start) = Inr (out, pm)
    \<and> watch_stream ''task-u1'' [take 100 out, drop 100 out] new_watch = Inr w \<and> wt_cancelled w"
proof -
  obtain j where j: "k_file stream_start = Some j" using stream_boot by (auto split: option.splits)
  have env: "env_values stream_env" by (simp add: env_values_def stream_env_def sample_env_def)
  have "list_all legal_request [Boot 0]" by code_simp
  moreover have "sound_rows.inv stream_env (init_controller None)" by (simp add: sound_rows.inv_def init_controller_def)
  ultimately have "sound_rows.inv stream_env stream_start"
    unfolding stream_start_def by (rule sound_rows.run_requests_inv [OF env])
  then have wf: "wf_journal (x_H stream_env) j" using j by (simp add: sound_rows.inv_def)
  have legal: "list_all (list_all legal_request) sample_cancel" by code_simp
  obtain out pm es j' where r: "pump_rounds (new_pump 0) (watched stream_env sample_cancel stream_start) = Inr (out, pm)"
    "k_file (run_requests stream_env (concat sample_cancel) stream_start) = Some j'" "journal_of (x_H stream_env) es j'"
    "sample_cancel \<noteq> [] \<and> (pm_caught_up pm \<or> length es \<le> 500) \<longrightarrow> nat (pm_last pm) = length es"
    and w: "\<forall>chunks. concat chunks = out \<longrightarrow> (\<exists>w. watch_stream ''task-u1'' chunks new_watch = Inr w
         \<and> (wt_cancelled w \<longleftrightarrow> (\<exists>e\<in>set (take (nat (pm_last pm)) es). cancels ''task-u1'' e)))"
    using cancellation_reaches_worker [OF env legal j wf, of "''task-u1''"] by blast
  have "nat (pm_last pm) = length es" using r(2,4) sample_cancel_run journal_ofD(2) [OF r(3)] by (simp add: sample_cancel_def)
  moreover obtain e where "e \<in> set es" "type_value (ev_type e) = ''TASK_CANCELLED''" "ev_task_id e = Some ''task-u1''"
    using r(2) sample_cancel_run journal_ofD(2) [OF r(3)] by (auto simp: list_ex_iff row_of_def)
  moreover from this(2) have "ev_type e = TASK_CANCELLED" by (cases "ev_type e") simp_all
  ultimately have "\<exists>e\<in>set (take (nat (pm_last pm)) es). cancels ''task-u1'' e" by (auto simp: cancels_def)
  moreover have "concat [take 100 out, drop 100 out] = out" by simp
  ultimately show ?thesis using r(1) w by metis
qed

end
