(* ===== verification/Spec2Isabelle.thy ===== *)
theory Spec2Isabelle
  imports Controller_Safety Work_Queue_Safety Dag_Resolver Fencing Work_Stealing Rate_Limiter Dead_Letter_Queue
    Priority_Scheduler Quorum Shared_Ring Delta_Patcher Ledger_Sync Provider_Failover Ephemeral_Cache
    Replica_Coordinator Content_Store Courier_System Event_Stream
begin

text \<open>
  \<^bold>\<open>Courier: a verification library of the task core and its worker\<close>

  Courier is a controller that hands tasks to workers and never loses, repeats or forges one, the worker
  that claims them, runs them as processes and delivers their results, the HTTP protocol between the two,
  and a set of coordination services beside them: a file-backed work queue, a dependency resolver, locks with
  fencing tokens, a work-stealing cluster, rate limiters, a dead-letter queue, a preemptive scheduler,
  a quorum verifier, a shared-memory ring, a delta patcher, a ledger bridge, a provider router, a cache, a
  replica coordinator and a content-addressed store. They are the Python packages src/courier\_core and
  src/courier\_worker. This library models these modules definition by definition and proves what they promise.

  \<^bold>\<open>The parts and their theories.\<close>

  \<^item> \<open>Prelude\<close>, \<open>Py_Time\<close>, \<open>Py_Float\<close>, \<open>Refinement\<close>: errors as values of one datatype and the result type
    \<open>error + 'a\<close>, checks in sequence, Python strings and dicts (association lists in insertion order),
    the calendar behind \<open>datetime\<close>, rounding, and the simulation locale.
  \<^item> \<open>Json\<close>, \<open>Ledger_Text\<close>: JSON values, the canonical encoding of events.py with the parser, which are
    inverse to each other, and the one-line ASCII encoding of the work-queue ledger. \<open>Json_Spaced\<close>: the two
    ASCII encodings that the worker, the front end and the ledger bridge print, read back.
  \<^item> \<open>Events\<close> (events.py): event types, validation, default de-duplication keys, the sealed hash.
    \<open>State_Machine\<close> (state\_machine.py): the fold \<open>sm_apply\<close>, one definition per branch of
    \<open>_transition\<close>, human decisions and \<open>decide_after_failure\<close>. \<open>Task_Histories\<close>: what holds of every
    event sequence the fold accepts.
  \<^item> \<open>Hash_Chain\<close>, \<open>Projection\<close> (projection.py), \<open>Journal\<close> (journal.py): the append-only table with its
    constraints, the chain of hashes, the task table kept beside it, opening, verifying, rebuilding.
  \<^item> \<open>Verification\<close> (verification.py): the fail-closed hand-off to adapter verifiers. \<open>Controller\<close>
    (controller.py): the requests, ticks, verification, boot, recovery and degraded mode as operations
    of a state-and-exception monad over the controller's record. \<open>Controller_Safety\<close>: the journal
    stays sound and is only appended to, over any sequence of operations, restarts included (a restarted
    controller starts from the file alone, but its identifiers stay fresh). \<open>Controller_Evidence\<close>: what an
    answer of the controller says about its journal, and what a repeated result gets.
  \<^item> \<open>Http_Front\<close> (serve.py): authorisation, body, routing, errors and the token file over the controller.
    \<open>Event_Stream\<close> (serve.py, service.py): the event stream round by round, and the cancel watcher that reads it.
  \<^item> \<open>Worker_Outbox\<close> (host.py): the result files and their quarantine. \<open>Worker_Client\<close> (service.py): the calls
    of \<open>ControllerClient\<close> over a network that loses requests and answers, and the delivery of results.
    \<open>Worker_Spec\<close> (host.py, service.py, adapter\_bridge.py): from a claim to an execution spec and from a
    finished run to a result. \<open>Worker_Run\<close> (host.py): the wait loop of a run and its artifacts.
    \<open>Worker_Service\<close> (service.py, host.py): one iteration of the worker, a restart, and \<open>run\<close> as a whole.
    \<open>Worker_Delivery\<close>, \<open>Worker_Safety\<close>: the custody of results, and what a worker spawns.
    \<open>End_To_End\<close>, \<open>Courier_System\<close>: the client against \<open>handle_request\<close>, and worker and controller together.
  \<^item> \<open>Scopes\<close>, \<open>Work_Queue\<close>, \<open>Work_Queue_Safety\<close> (work\_queue.py): file scopes with \<open>fnmatch\<close>, seed files with
    their schema, the ledger, claim, renew, release, listing; an abstract queue that they refine.
    \<open>Dag_Resolver\<close> (dag\_resolver.py): the resolver that reads the same files.
  \<^item> \<open>Fencing\<close> (lock\_manager.py, fencing\_token.py) and \<open>Work_Stealing\<close> (work\_stealing.py): three
    implementations of one contract, the locale \<open>fencing\<close>.
  \<^item> \<open>Rate_Limiter\<close> (rate\_limiter.py), \<open>Dead_Letter_Queue\<close> (dead\_letter\_queue.py), \<open>Priority_Scheduler\<close>
    (priority\_scheduler.py), \<open>Quorum\<close> (quorum\_verifier.py), \<open>Shared_Ring\<close>
    (shared\_memory\_ring.py), whose bytes implement the locale \<open>fifo\<close>.
  \<^item> \<open>Delta_Patcher\<close> (delta\_patcher.py), \<open>Ledger_Sync\<close> (ledger\_sync.py), \<open>Provider_Failover\<close>
    (provider\_cost\_guard.py, provider\_failover.py), \<open>Ephemeral_Cache\<close> (ephemeral\_cache.py),
    \<open>Replica_Coordinator\<close> (replica\_coordinator.py), \<open>Content_Store\<close> (content\_dedup.py).

  \<^bold>\<open>How state and operations correspond.\<close> A class is a record, its dicts are association lists, an
  operation is a function from arguments and state to a result and the new state; a raise is \<open>Inl\<close> of the
  error, with the state as far as the code had changed it. Whatever runs under a lock is one step, and
  lists of steps are the interleavings. What the code takes from outside is an argument: clock readings,
  UUIDs, SHA-256 (\<open>H\<close>), the adapter's verify function and its import. Python integers are \<open>int\<close>; the
  columns of the SQLite tables are checked against 64 bits where the code can reach the limit. Files are
  their text where the code parses them line by line (work-queue ledger, ledger bridge, outbox, event
  stream), and typed snapshots where it loads and saves a whole table.

  \<^bold>\<open>Limits of the representation.\<close> Strings are lists of characters below code point 256. A float inside JSON is the
  text that denotes it: it is not normalised as \<open>repr\<close> would, a literal such as 1e999 counts as finite, and
  the infinities and NaN are one value. Floats that are computed with (clock readings, rates, time to live) are
  exact rationals.

  \<^bold>\<open>What the lemmas show.\<close> Worker and controller together: the last result put on disk for a dispatch is in the
  outbox, in quarantine, in the journal or was refused, and only started dispatches are run, whatever the
  network loses and whenever the worker dies; a flush delivers, a wait ends, a repeated result is
  acknowledged, a request changes nothing but through the controller's operations, and a recorded cancellation
  reaches the worker. Task histories: no blind retry of an effect that may have happened, one result
  and one completion at most, superseded attempts refused (but for five kinds of events that are not about
  a run and leave the current one alone), terminal states final, decisions always possible. Journal: the
  projection is the history, appended journals verify, equal heads mean equal rows or two texts of
  these very rows with one digest, appends are idempotent. Controller: these hold after any requests, and drain
  ends. Work queue: refinement of an abstract queue, exclusive leases, disjoint scopes, final
  releases, ledger text read back, \<open>list_ready\<close> exact. Resolver: a schedule in sorted stages or a cycle. Fencing:
  exclusion and refusal of superseded tokens. Rate limiters: bounds over any stretch of time, and the
  blocking acquire returns. Dead-letter queue: quarantine holds, backoff exact. Scheduler: slots, conservation,
  no priority inversion left by a tick. Work stealing: fenced theft, rebalancing ends when the fullest worker
  has nothing for the emptiest. Quorum: consensus characterised, slashing exact. Ring: first in, first out, also
  when reads fall between the two halves of a write. Patches: the target is rebuilt, and nothing is corrupted.
  Bridge: parity of the files after a reconciliation. Router: no handler runs that the cost guard or an open
  circuit forbids, and the audit is exact. Cache: keys in use are kept, answers are those of the last set.
  Replicas: a follower is a prefix and catches up. Store: files survive garbage collection, unless a stored
  object has the digest of one of their chunks. Theorems that show where a promise of the code ends stand beside
  them: two names sharing one lock file, one task evaluated three times, a ledger whose last line is not ended, a
  cache loaded over its limit, a result quarantined while the controller is unreachable.

  \<^bold>\<open>Loops and fuel.\<close> \<open>tick_loop\<close> ends by a measure (ready tasks and preemptible candidates), \<open>find_year\<close> and
  \<open>pattern_items\<close> by measures too. Fuel is used where the state does not bound the loop by itself:
  the JSON parser (the length of the text), Kahn's loop (the number of items), \<open>drain\<close> (the queue
  length and one), the blocking acquire (request over rate, in milliseconds) and \<open>rebalance\<close> (the sum of
  squared loads); each has a theorem that this fuel is enough. The diff loop of the patcher and the wait loop of
  a run need not end and are partial functions into \<open>option\<close>: the first is proved to return with chunks of at
  least one byte and not to with empty ones, the second to return for every accepted spec when the clocks do not
  run backwards, after at most two wakes per quantum.

  \<^bold>\<open>Not modelled.\<close> The socket server and the sockets of the client, TLS, the home lock, threads, signals and
  operating-system locks themselves, process groups and job objects, the pressure probe, file permissions and
  SQLite's own checks, and the command lines: they are input, output or the platform. The adapters, which the
  worker runs as processes, are not modelled; their verify functions and parameter checks are arguments. Of the
  other modules of courier\_core and courier\_worker, and of courier\_hub, courier\_runtime and the scripts,
  most drive processes, files and network services; they are listed in the manifest as not modelled.
\<close>

end
